(* ===== verification/Prelude.thy ===== *)
theory Prelude
  imports Main "HOL-Library.Word" "HOL-Library.Monad_Syntax"
begin

text \<open>
  Shared vocabulary of the development: the types that stand for Rust's scalar types and
  identifiers, Rust's saturating and wrapping arithmetic written out on \<open>nat\<close> and \<open>int\<close>,
  checked indexing, and the three interface locales the components are measured against:
  \<^item> \<open>codec_pair\<close>: an encoder and a decoder with the round-trip law;
  \<^item> \<open>inv_system\<close>: a step function with an invariant every step keeps, and its extension
    \<open>init_system\<close> by an initial state;
  \<^item> \<open>grow_system\<close>: a step function along which an observation never decreases.
\<close>

section \<open>Collections of facts\<close>

named_theorems model_defs
named_theorems inv_simps

section \<open>Scalar types\<close>

text \<open>
  A \<open>Uuid\<close> is its 128-bit number; \<open>DateTime<Utc>\<close> and \<open>Instant\<close> are counted in
  nanoseconds on an integer time line; a byte is an 8-bit word.
\<close>

type_synonym uuid = nat
type_synonym timestamp = int
type_synonym byte = "8 word"
type_synonym ('e, 'a) result = "'e + 'a"

abbreviation Err :: "'e \<Rightarrow> ('e, 'a) result" where
  "Err \<equiv> Inl"

abbreviation Okay :: "'a \<Rightarrow> ('e, 'a) result" where
  "Okay \<equiv> Inr"

section \<open>Rust's bounded arithmetic\<close>

text \<open>\<open>as u32\<close> and the overflowing sums of release builds keep the low 32 bits.\<close>

definition u32 :: "nat \<Rightarrow> nat" where
  "u32 n = n mod 2 ^ 32"

lemma u32_small [simp]: "n < 2 ^ 32 \<Longrightarrow> u32 n = n"
  by (simp add: u32_def)

lemma u32_less [simp]: "u32 n < 2 ^ 32"
  by (simp add: u32_def)

definition i64_max :: int where
  "i64_max = 2 ^ 63 - 1"

definition i64_min :: int where
  "i64_min = - (2 ^ 63)"

text \<open>\<open>i64::saturating_add\<close> and \<open>i64::saturating_sub\<close>.\<close>

definition sat_i64 :: "int \<Rightarrow> int" where
  "sat_i64 x = max i64_min (min i64_max x)"

lemma sat_i64_id [simp]: "i64_min \<le> x \<Longrightarrow> x \<le> i64_max \<Longrightarrow> sat_i64 x = x"
  by (simp add: sat_i64_def)

lemma sat_i64_le: "x \<le> i64_max \<Longrightarrow> i64_min \<le> x \<Longrightarrow> x \<le> sat_i64 (x + 1)"
  by (simp add: sat_i64_def)

text \<open>\<open>usize\<close> counters saturate at \<open>usize::MAX\<close> on a 64-bit target.\<close>

definition usize_max :: nat where
  "usize_max = 2 ^ 64 - 1"

definition sat_usize :: "nat \<Rightarrow> nat" where
  "sat_usize n = min usize_max n"

lemma sat_usize_id [simp]: "n \<le> usize_max \<Longrightarrow> sat_usize n = n"
  by (simp add: sat_usize_def)

section \<open>Checked indexing\<close>

text \<open>
  \<open>xs[i as usize]\<close> with a signed index: a negative index is a huge \<open>usize\<close>, so every
  index outside the slice panics, which is \<open>None\<close>.
\<close>

definition iget :: "'a list \<Rightarrow> int \<Rightarrow> 'a option" where
  "iget xs i = (if 0 \<le> i \<and> nat i < length xs then Some (xs ! nat i) else None)"

definition iset :: "'a list \<Rightarrow> int \<Rightarrow> 'a \<Rightarrow> 'a list option" where
  "iset xs i x = (if 0 \<le> i \<and> nat i < length xs then Some (xs[nat i := x]) else None)"

lemma iget_Some [simp]: "0 \<le> i \<Longrightarrow> nat i < length xs \<Longrightarrow> iget xs i = Some (xs ! nat i)"
  by (simp add: iget_def)

lemma iset_Some [simp]: "0 \<le> i \<Longrightarrow> nat i < length xs \<Longrightarrow> iset xs i x = Some (xs[nat i := x])"
  by (simp add: iset_def)

lemma iget_list_update:
  "0 \<le> i \<Longrightarrow> nat i < length xs \<Longrightarrow>
   iget (xs[nat i := x]) j = (if j = i then Some x else iget xs j)"
  by (auto simp: iget_def)

text \<open>\<open>xs[i]\<close> with an unsigned index.\<close>

definition nget :: "'a list \<Rightarrow> nat \<Rightarrow> 'a option" where
  "nget xs i = (if i < length xs then Some (xs ! i) else None)"

lemma nget_Some [simp]: "i < length xs \<Longrightarrow> nget xs i = Some (xs ! i)"
  by (simp add: nget_def)

lemma nget_eq_Some: "nget xs i = Some x \<longleftrightarrow> i < length xs \<and> xs ! i = x"
  by (auto simp: nget_def)

section \<open>Interfaces\<close>

locale codec_pair =
  fixes enc :: "'a \<Rightarrow> 'b"
    and dec :: "'b \<Rightarrow> 'a option"
    and valid :: "'a \<Rightarrow> bool"
  assumes dec_enc: "valid a \<Longrightarrow> dec (enc a) = Some a"
begin

lemma enc_inj: "valid a \<Longrightarrow> valid b \<Longrightarrow> enc a = enc b \<Longrightarrow> a = b"
  by (metis dec_enc option.inject)

lemma dec_map_enc: "(\<forall>a \<in> set as. valid a) \<Longrightarrow> map (\<lambda>b. dec b) (map enc as) = map Some as"
  by (induction as) (auto simp: dec_enc)

end

text \<open>The operations of a sequence are allowed in the states where they are run.\<close>

fun run_ok :: "('s \<Rightarrow> 'o \<Rightarrow> 's) \<Rightarrow> ('s \<Rightarrow> 'o \<Rightarrow> bool) \<Rightarrow> 's \<Rightarrow> 'o list \<Rightarrow> bool" where
  "run_ok step ok s [] \<longleftrightarrow> True"
| "run_ok step ok s (op # ops) \<longleftrightarrow> ok s op \<and> run_ok step ok (step s op) ops"

lemma run_ok_True [simp]: "run_ok step (\<lambda>_ _. True) s ops"
  by (induction ops arbitrary: s) auto

lemma run_ok_append:
  "run_ok step ok s (xs @ ys) \<longleftrightarrow> run_ok step ok s xs \<and> run_ok step ok (foldl step s xs) ys"
  by (induction xs arbitrary: s) auto

locale inv_system =
  fixes step :: "'s \<Rightarrow> 'o \<Rightarrow> 's"
    and ok :: "'s \<Rightarrow> 'o \<Rightarrow> bool"
    and inv :: "'s \<Rightarrow> bool"
  assumes inv_step: "inv s \<Longrightarrow> ok s op \<Longrightarrow> inv (step s op)"
begin

lemma inv_run: "inv s \<Longrightarrow> run_ok step ok s ops \<Longrightarrow> inv (foldl step s ops)"
  by (induction ops arbitrary: s) (auto intro: inv_step)

end

locale init_system = inv_system +
  fixes start :: 's
  assumes inv_start: "inv start"
begin

lemma inv_reachable: "run_ok step ok start ops \<Longrightarrow> inv (foldl step start ops)"
  by (rule inv_run [OF inv_start])

end

locale grow_system = inv_system +
  fixes obs :: "'s \<Rightarrow> 'm::preorder"
  assumes grow_step: "inv s \<Longrightarrow> ok s op \<Longrightarrow> obs s \<le> obs (step s op)"
begin

lemma grow_run: "inv s \<Longrightarrow> run_ok step ok s ops \<Longrightarrow> obs s \<le> obs (foldl step s ops)"
proof (induction ops arbitrary: s)
  case (Cons op ops)
  have "obs s \<le> obs (step s op)"
    using Cons.prems by (auto intro: grow_step)
  also have "\<dots> \<le> obs (foldl step (step s op) ops)"
    using Cons.prems by (intro Cons.IH inv_step) auto
  finally show ?case by simp
qed simp

end

end
