(* ===== verification/RustText.thy ===== *)
theory RustText
  imports Prelude
begin

text \<open>
  Rust's \<open>char\<close> and \<open>str\<close>: a text is the list of its Unicode scalar values. Byte lengths
  and byte offsets, which the diff and the parsers use, are computed from the UTF-8 length
  of each scalar.
\<close>

type_synonym rchar = nat
type_synonym rstr = "rchar list"

text \<open>A literal: Isabelle's characters below 128 are the ASCII scalars.\<close>

definition lit :: "string \<Rightarrow> rstr" where
  "lit s = map of_char s"

text \<open>\<open>char::len_utf8\<close>.\<close>

definition len_utf8 :: "rchar \<Rightarrow> nat" where
  "len_utf8 c = (if c < 128 then 1 else if c < 2048 then 2 else if c < 65536 then 3 else 4)"

lemma len_utf8_pos [simp]: "0 < len_utf8 c"
  by (simp add: len_utf8_def)

lemma len_utf8_neq_0 [simp]: "len_utf8 c \<noteq> 0"
  by (simp add: len_utf8_def)

text \<open>\<open>str::len\<close>: the number of UTF-8 bytes.\<close>

definition blen :: "rstr \<Rightarrow> nat" where
  "blen s = sum_list (map len_utf8 s)"

lemma blen_Nil [simp]: "blen [] = 0"
  by (simp add: blen_def)

lemma blen_Cons [simp]: "blen (c # s) = len_utf8 c + blen s"
  by (simp add: blen_def)

lemma blen_append [simp]: "blen (s @ t) = blen s + blen t"
  by (simp add: blen_def)

lemma blen_0_iff [simp]: "blen s = 0 \<longleftrightarrow> s = []"
  by (cases s) auto

lemma length_le_blen: "length s \<le> blen s"
proof (induction s)
  case (Cons c s)
  then show ?case using len_utf8_pos [of c] by (simp del: len_utf8_pos)
qed simp

section \<open>Byte offsets\<close>

text \<open>
  \<open>s.split_at(n)\<close> with a byte offset: \<open>None\<close> is the panic of slicing past the end or inside
  a character.
\<close>

fun split_at_byte :: "nat \<Rightarrow> rstr \<Rightarrow> (rstr \<times> rstr) option" where
  "split_at_byte n [] = (if n = 0 then Some ([], []) else None)"
| "split_at_byte n (c # s) =
     (if n = 0 then Some ([], c # s)
      else if len_utf8 c \<le> n then map_option (\<lambda>(a, b). (c # a, b)) (split_at_byte (n - len_utf8 c) s)
      else None)"

lemma split_at_byte_0 [simp]: "split_at_byte 0 s = Some ([], s)"
  by (cases s) auto

lemma split_at_byte_append [simp]: "split_at_byte (blen a) (a @ b) = Some (a, b)"
  by (induction a) auto

lemma split_at_byte_SomeD: "split_at_byte n s = Some (a, b) \<Longrightarrow> s = a @ b \<and> n = blen a"
proof (induction s arbitrary: n a)
  case (Cons c s)
  then show ?case by (fastforce split: if_splits)
qed (auto split: if_splits)

text \<open>\<open>str::find\<close> and \<open>str::rfind\<close>: the byte offset of the first and of the last match.\<close>

fun find_byte :: "(rchar \<Rightarrow> bool) \<Rightarrow> rstr \<Rightarrow> nat option" where
  "find_byte P [] = None"
| "find_byte P (c # s) =
     (if P c then Some 0 else map_option (\<lambda>i. len_utf8 c + i) (find_byte P s))"

fun rfind_byte :: "(rchar \<Rightarrow> bool) \<Rightarrow> rstr \<Rightarrow> nat option" where
  "rfind_byte P [] = None"
| "rfind_byte P (c # s) =
     (case rfind_byte P s of
        Some i \<Rightarrow> Some (len_utf8 c + i)
      | None \<Rightarrow> if P c then Some 0 else None)"

lemma find_byte_SomeD:
  "find_byte P s = Some i \<Longrightarrow>
   \<exists>a c b. s = a @ c # b \<and> i = blen a \<and> P c \<and> (\<forall>x \<in> set a. \<not> P x)"
proof (induction s arbitrary: i)
  case (Cons x s)
  show ?case
  proof (cases "P x")
    case True
    then show ?thesis using Cons.prems by (intro exI [of _ "[]"]) auto
  next
    case False
    then obtain j where j: "find_byte P s = Some j" "i = len_utf8 x + j" using Cons.prems by auto
    then obtain a c b where "s = a @ c # b" "j = blen a" "P c" "\<forall>x \<in> set a. \<not> P x"
      using Cons.IH by blast
    then show ?thesis using j False by (intro exI [of _ "x # a"]) auto
  qed
qed simp

lemma find_byte_None: "find_byte P s = None \<longleftrightarrow> (\<forall>c \<in> set s. \<not> P c)"
  by (induction s) auto

lemma rfind_byte_SomeD:
  "rfind_byte P s = Some i \<Longrightarrow>
   \<exists>a c b. s = a @ c # b \<and> i = blen a \<and> P c \<and> (\<forall>x \<in> set b. \<not> P x)"
proof (induction s arbitrary: i)
  case (Cons x s)
  show ?case
  proof (cases "rfind_byte P s")
    case None
    then have "\<forall>x \<in> set s. \<not> P x"
      by (induction s) (auto split: option.splits if_splits)
    then show ?thesis using Cons.prems None by (intro exI [of _ "[]"]) (auto split: if_splits)
  next
    case (Some j)
    then obtain a c b where "s = a @ c # b" "j = blen a" "P c" "\<forall>x \<in> set b. \<not> P x"
      using Cons.IH by blast
    then show ?thesis using Some Cons.prems by (intro exI [of _ "x # a"]) auto
  qed
qed simp

section \<open>Whitespace\<close>

text \<open>\<open>char::is_whitespace\<close>: the Unicode property \<open>White_Space\<close>.\<close>

definition is_whitespace :: "rchar \<Rightarrow> bool" where
  "is_whitespace c \<longleftrightarrow>
     (9 \<le> c \<and> c \<le> 13) \<or> c = 32 \<or> c = 133 \<or> c = 160 \<or> c = 5760 \<or> (8192 \<le> c \<and> c \<le> 8202) \<or>
     c = 8232 \<or> c = 8233 \<or> c = 8239 \<or> c = 8287 \<or> c = 12288"

definition trim_start :: "rstr \<Rightarrow> rstr" where
  "trim_start s = dropWhile is_whitespace s"

definition trim_end :: "rstr \<Rightarrow> rstr" where
  "trim_end s = rev (dropWhile is_whitespace (rev s))"

definition trim :: "rstr \<Rightarrow> rstr" where
  "trim s = trim_end (trim_start s)"

lemma set_trim: "set (trim s) \<subseteq> set s"
  unfolding trim_def trim_end_def trim_start_def by (auto dest!: set_dropWhileD)

lemma trim_start_suffix: "\<exists>p. s = p @ trim_start s"
  unfolding trim_start_def by (metis takeWhile_dropWhile_id)

lemma trim_id: "\<forall>c \<in> set s. \<not> is_whitespace c \<Longrightarrow> trim s = s"
proof -
  assume a: "\<forall>c \<in> set s. \<not> is_whitespace c"
  have d: "dropWhile is_whitespace t = t" if "\<forall>c \<in> set t. \<not> is_whitespace c" for t
    using that by (cases t) auto
  show ?thesis using a by (simp add: trim_def trim_start_def trim_end_def d)
qed

section \<open>ASCII classes and case\<close>

definition is_ascii_digit :: "rchar \<Rightarrow> bool" where
  "is_ascii_digit c \<longleftrightarrow> 48 \<le> c \<and> c \<le> 57"

definition is_ascii_upper :: "rchar \<Rightarrow> bool" where
  "is_ascii_upper c \<longleftrightarrow> 65 \<le> c \<and> c \<le> 90"

definition is_ascii_lower :: "rchar \<Rightarrow> bool" where
  "is_ascii_lower c \<longleftrightarrow> 97 \<le> c \<and> c \<le> 122"

definition is_ascii_alphanumeric :: "rchar \<Rightarrow> bool" where
  "is_ascii_alphanumeric c \<longleftrightarrow> is_ascii_digit c \<or> is_ascii_upper c \<or> is_ascii_lower c"

definition strip_prefix :: "rstr \<Rightarrow> rstr \<Rightarrow> rstr option" where
  "strip_prefix p s = (if take (length p) s = p then Some (drop (length p) s) else None)"

definition to_ascii_lowercase :: "rstr \<Rightarrow> rstr" where
  "to_ascii_lowercase s = map (\<lambda>c. if is_ascii_upper c then c + 32 else c) s"

definition eq_ignore_ascii_case :: "rstr \<Rightarrow> rstr \<Rightarrow> bool" where
  "eq_ignore_ascii_case a b = (to_ascii_lowercase a = to_ascii_lowercase b)"

text \<open>\<open>str::split_once\<close> on a character.\<close>

definition split_once :: "rchar \<Rightarrow> rstr \<Rightarrow> (rstr \<times> rstr) option" where
  "split_once c s =
     (if c \<in> set s then Some (takeWhile (\<lambda>x. x \<noteq> c) s, tl (dropWhile (\<lambda>x. x \<noteq> c) s)) else None)"

lemma alphanumeric_not_whitespace: "is_ascii_alphanumeric c \<Longrightarrow> \<not> is_whitespace c"
  by (auto simp: is_ascii_alphanumeric_def is_ascii_digit_def is_ascii_upper_def is_ascii_lower_def
      is_whitespace_def)

section \<open>Splitting and joining\<close>

text \<open>\<open>str::split\<close> on one character: always at least one part.\<close>

fun split_on :: "'a \<Rightarrow> 'a list \<Rightarrow> 'a list list" where
  "split_on x [] = [[]]"
| "split_on x (c # s) =
     (if c = x then [] # split_on x s
      else case split_on x s of p # ps \<Rightarrow> (c # p) # ps | [] \<Rightarrow> [[c]])"

fun join :: "'a list \<Rightarrow> 'a list list \<Rightarrow> 'a list" where
  "join sep [] = []"
| "join sep [s] = s"
| "join sep (s # t # ss) = s @ sep @ join sep (t # ss)"

lemma split_on_ne [simp]: "split_on x s \<noteq> []"
  by (cases s) (auto split: list.splits)

lemma split_on_parts: "p \<in> set (split_on x s) \<Longrightarrow> x \<notin> set p \<and> set p \<subseteq> set s"
  by (induction s arbitrary: p) (fastforce split: if_splits list.splits)+

lemma split_on_fresh: "x \<notin> set s \<Longrightarrow> split_on x s = [s]"
  by (induction s) auto

lemma split_on_append:
  "x \<notin> set s \<Longrightarrow> split_on x (s @ x # t) = s # split_on x t"
  by (induction s) auto

lemma split_on_join:
  "\<forall>p \<in> set ps. x \<notin> set p \<Longrightarrow> ps \<noteq> [] \<Longrightarrow> split_on x (join [x] ps) = ps"
  by (induction "[x]" ps rule: join.induct) (auto simp: split_on_fresh split_on_append)

lemma join_split_on: "join [x] (split_on x s) = s"
proof (induction s)
  case (Cons c s)
  then show ?case
    by (cases "split_on x s") (auto, metis (no_types, lifting) append_Cons join.simps(2,3) neq_Nil_conv)
qed simp

lemma set_join: "set (join sep ps) \<subseteq> set sep \<union> \<Union> (set ` set ps)"
  by (induction sep ps rule: join.induct) auto

text \<open>\<open>str::split_inclusive\<close>: every part keeps its separator.\<close>

fun split_inclusive :: "'a \<Rightarrow> 'a list \<Rightarrow> 'a list \<Rightarrow> 'a list list" where
  "split_inclusive nl acc [] = (if acc = [] then [] else [acc])"
| "split_inclusive nl acc (c # cs) =
     (if c = nl then (acc @ [c]) # split_inclusive nl [] cs
      else split_inclusive nl (acc @ [c]) cs)"

lemma concat_split_inclusive: "concat (split_inclusive nl acc s) = acc @ s"
  by (induction nl acc s rule: split_inclusive.induct) auto

text \<open>\<open>str::lines().count()\<close>: a final line break ends the last line and opens none.\<close>

definition line_count :: "rstr \<Rightarrow> nat" where
  "line_count s = length (split_inclusive 10 [] s)"

lemma split_inclusive_count:
  "length (split_inclusive nl acc (a @ b)) \<ge> count_list a nl"
  by (induction a arbitrary: acc) auto

lemma split_inclusive_count_ne:
  assumes "b \<noteq> []"
  shows "length (split_inclusive nl acc (a @ b)) > count_list a nl"
proof (induction a arbitrary: acc)
  case Nil
  have "acc @ b \<noteq> []" using assms by simp
  then have "split_inclusive nl acc b \<noteq> []" using concat_split_inclusive [of nl acc b] by force
  then show ?case by simp
qed auto

section \<open>Decimal numbers\<close>

text \<open>\<open>format!("{}", n)\<close>.\<close>

fun show_nat :: "nat \<Rightarrow> rstr" where
  "show_nat n = (if n < 10 then [48 + n] else show_nat (n div 10) @ [48 + n mod 10])"

declare show_nat.simps [simp del]

lemma show_nat_digits: "c \<in> set (show_nat n) \<Longrightarrow> is_ascii_digit c"
proof (induction n rule: show_nat.induct)
  case (1 n)
  have "n mod 10 < 10" by simp
  then show ?case using 1
    by (subst (asm) (2) show_nat.simps) (auto simp: is_ascii_digit_def split: if_splits)
qed

lemma show_nat_ne [simp]: "show_nat n \<noteq> []"
  by (subst show_nat.simps) simp

lemma Nil_neq_show_nat [simp]: "[] \<noteq> show_nat n"
  by (metis show_nat_ne)

lemma show_nat_inj: "show_nat m = show_nat n \<Longrightarrow> m = n"
proof (induction m arbitrary: n rule: show_nat.induct)
  case (1 m)
  have mr: "show_nat m = (if m < 10 then [48 + m] else show_nat (m div 10) @ [48 + m mod 10])"
    and nr: "show_nat n = (if n < 10 then [48 + n] else show_nat (n div 10) @ [48 + n mod 10])"
    by (rule show_nat.simps)+
  show ?case
  proof (cases "m < 10 \<or> n < 10")
    case True
    then show ?thesis using "1.prems" mr nr by (auto split: if_splits)
  next
    case False
    then have "show_nat (m div 10) = show_nat (n div 10)" "m mod 10 = n mod 10"
      using "1.prems" mr nr by auto
    then have "m div 10 = n div 10" "m mod 10 = n mod 10" using "1.IH" False by auto
    then show ?thesis by (metis div_mult_mod_eq)
  qed
qed

end
