(* ===== verification/Myers.thy ===== *)
theory Myers
  imports Prelude
begin

text \<open>
  The greedy diff of \<open>crates/common/src/diff/patch.rs\<close>: \<open>myers_char_edits\<close> with
  \<open>backtrack_char_edits\<close>, and its copy \<open>myers_line_edits\<close> for lines. The two source
  functions run the same loops over elements of different types, so the loops are defined
  once, over any element type. Every slice access is checked: \<open>None\<close> is a panic.

  The lemmas show that the search never panics, always finds the end point within
  \<open>old_len + new_len\<close> rounds, and that the backtracked edits consume the old text and
  produce the new one. The table \<open>fr\<close> is the mathematical content of the array \<open>v\<close>.
\<close>

section \<open>Edits\<close>

text \<open>\<open>CharEdit\<close> and \<open>LineEdit\<close>.\<close>

datatype 'a edit = Equal 'a | Insert 'a | Delete 'a

fun old_side :: "'a edit list \<Rightarrow> 'a list" where
  "old_side [] = []"
| "old_side (Equal a # es) = a # old_side es"
| "old_side (Insert a # es) = old_side es"
| "old_side (Delete a # es) = a # old_side es"

fun new_side :: "'a edit list \<Rightarrow> 'a list" where
  "new_side [] = []"
| "new_side (Equal a # es) = a # new_side es"
| "new_side (Insert a # es) = a # new_side es"
| "new_side (Delete a # es) = new_side es"

lemma old_side_append [simp]: "old_side (es @ fs) = old_side es @ old_side fs"
  by (induction es rule: old_side.induct) auto

lemma new_side_append [simp]: "new_side (es @ fs) = new_side es @ new_side fs"
  by (induction es rule: new_side.induct) auto

lemma sides_map_Equal [simp]: "old_side (map Equal xs) = xs" "new_side (map Equal xs) = xs"
  by (induction xs) auto

lemma sides_map_Insert [simp]: "old_side (map Insert xs) = []" "new_side (map Insert xs) = xs"
  by (induction xs) auto

lemma sides_map_Delete [simp]: "old_side (map Delete xs) = xs" "new_side (map Delete xs) = []"
  by (induction xs) auto

text \<open>The cost of a script is the number of its insertions and deletions.\<close>

fun cost :: "'a edit list \<Rightarrow> nat" where
  "cost [] = 0"
| "cost (Equal a # es) = cost es"
| "cost (Insert a # es) = Suc (cost es)"
| "cost (Delete a # es) = Suc (cost es)"

lemma cost_append [simp]: "cost (es @ fs) = cost es + cost fs"
  by (induction es rule: cost.induct) auto

lemma cost_maps [simp]:
  "cost (map Equal xs) = 0" "cost (map Insert xs) = length xs" "cost (map Delete xs) = length xs"
  by (induction xs) auto

lemma cost_ge_sides:
  "length (new_side es) \<le> length (old_side es) + cost es"
  "length (old_side es) \<le> length (new_side es) + cost es"
  by (induction es rule: cost.induct) auto

section \<open>The search\<close>

text \<open>The inner \<open>while x < old_len && y < new_len && old[x] == new[y]\<close>.\<close>

function snake :: "'a list \<Rightarrow> 'a list \<Rightarrow> int \<Rightarrow> int \<Rightarrow> (int \<times> int) option" where
  "snake old new x y =
     (if x < int (length old) \<and> y < int (length new) then
        do {
          a \<leftarrow> iget old x;
          b \<leftarrow> iget new y;
          if a = b then snake old new (x + 1) (y + 1) else Some (x, y)
        }
      else Some (x, y))"
  by pat_completeness auto
termination
  by (relation "measure (\<lambda>(old, new, x, y). nat (int (length old) - x))") auto

declare snake.simps [simp del]

text \<open>
  The condition \<open>k == -d || (k != d && v[k - 1] < v[k + 1])\<close>, shared by the search and the
  backtracking; the short-circuit evaluation decides which cells are read.
\<close>

definition goes_down :: "int list \<Rightarrow> int \<Rightarrow> int \<Rightarrow> int \<Rightarrow> bool option" where
  "goes_down v off d k =
     (if k = - d then Some True
      else if k \<noteq> d then
        do {
          a \<leftarrow> iget v (k - 1 + off);
          b \<leftarrow> iget v (k + 1 + off);
          Some (a < b)
        }
      else Some False)"

definition start_x :: "int list \<Rightarrow> int \<Rightarrow> int \<Rightarrow> int \<Rightarrow> int option" where
  "start_x v off d k =
     do {
       down \<leftarrow> goes_down v off d k;
       if down then iget v (k + 1 + off)
       else map_option (\<lambda>a. a + 1) (iget v (k - 1 + off))
     }"

text \<open>The loop over the diagonals of one round; the flag is \<open>break 'outer\<close>.\<close>

function search_k ::
  "'a list \<Rightarrow> 'a list \<Rightarrow> int \<Rightarrow> int \<Rightarrow> int \<Rightarrow> int list \<Rightarrow> (int list \<times> bool) option" where
  "search_k old new off d k v =
     (if k \<le> d then
        do {
          x0 \<leftarrow> start_x v off d k;
          (x, y) \<leftarrow> snake old new x0 (x0 - k);
          v' \<leftarrow> iset v (k + off) x;
          if int (length old) \<le> x \<and> int (length new) \<le> y then Some (v', True)
          else search_k old new off d (k + 2) v'
        }
      else Some (v, False))"
  by pat_completeness auto
termination
  by (relation "measure (\<lambda>(old, new, off, d, k, v). nat (d + 1 - k))") auto

declare search_k.simps [simp del]

text \<open>The loop over the rounds, with the copies of \<open>v\<close> kept in \<open>trace\<close>.\<close>

function search_d ::
  "'a list \<Rightarrow> 'a list \<Rightarrow> nat \<Rightarrow> nat \<Rightarrow> int list \<Rightarrow> int list list \<Rightarrow> (int list list \<times> nat) option" where
  "search_d old new mx d v trace =
     (if d \<le> mx then
        do {
          (v', found) \<leftarrow> search_k old new (int mx) (int d) (- int d) v;
          if found then Some (trace @ [v], d)
          else search_d old new mx (Suc d) v' (trace @ [v])
        }
      else Some (trace, 0))"
  by pat_completeness auto
termination
  by (relation "measure (\<lambda>(old, new, mx, d, v, trace). Suc mx - d)") auto

declare search_d.simps [simp del]

section \<open>The backtracking\<close>

text \<open>
  The edits are pushed to the end of a vector that is reversed once at the end, so the
  model conses them.
\<close>

function back_snake ::
  "'a list \<Rightarrow> int \<Rightarrow> int \<Rightarrow> int \<Rightarrow> int \<Rightarrow> 'a edit list \<Rightarrow> (int \<times> int \<times> 'a edit list) option" where
  "back_snake old px py x y acc =
     (if px < x \<and> py < y then
        do {
          a \<leftarrow> iget old (x - 1);
          back_snake old px py (x - 1) (y - 1) (Equal a # acc)
        }
      else Some (x, y, acc))"
  by pat_completeness auto
termination
  by (relation "measure (\<lambda>(old, px, py, x, y, acc). nat (x - px))") auto

declare back_snake.simps [simp del]

fun backtrack_edits ::
  "'a list \<Rightarrow> 'a list \<Rightarrow> int list list \<Rightarrow> int \<Rightarrow> nat \<Rightarrow> int \<Rightarrow> int \<Rightarrow> 'a edit list \<Rightarrow>
   'a edit list option" where
  "backtrack_edits old new trace off 0 x y acc =
     do {
       v \<leftarrow> iget trace 0;
       (x', y', acc') \<leftarrow> back_snake old 0 0 x y acc;
       Some acc'
     }"
| "backtrack_edits old new trace off (Suc d) x y acc =
     do {
       v \<leftarrow> iget trace (int (Suc d));
       down \<leftarrow> goes_down v off (int (Suc d)) (x - y);
       let prev_k = (if down then x - y + 1 else x - y - 1);
       prev_x \<leftarrow> iget v (prev_k + off);
       (x', y', acc') \<leftarrow> back_snake old prev_x (prev_x - prev_k) x y acc;
       if x' = prev_x then
         do {
           b \<leftarrow> iget new (y' - 1);
           backtrack_edits old new trace off d x' (y' - 1) (Insert b # acc')
         }
       else
         do {
           a \<leftarrow> iget old (x' - 1);
           backtrack_edits old new trace off d (x' - 1) y' (Delete a # acc')
         }
     }"

text \<open>\<open>myers_char_edits\<close> and \<open>myers_line_edits\<close>.\<close>

definition myers_edits :: "'a list \<Rightarrow> 'a list \<Rightarrow> 'a edit list option" where
  "myers_edits old new =
     (if old = [] then Some (map Insert new)
      else if new = [] then Some (map Delete old)
      else
        let mx = length old + length new in
        do {
          (trace, solved_d) \<leftarrow> search_d old new mx 0 (replicate (2 * mx + 1) 0) [];
          backtrack_edits old new trace (int mx) solved_d (int (length old)) (int (length new)) []
        })"

section \<open>Common prefixes and snakes\<close>

fun lcp :: "'a list \<Rightarrow> 'a list \<Rightarrow> nat" where
  "lcp (a # as) (b # bs) = (if a = b then Suc (lcp as bs) else 0)"
| "lcp _ _ = 0"

lemma lcp_bounds: "lcp xs ys \<le> length xs" "lcp xs ys \<le> length ys"
  by (induction xs ys rule: lcp.induct) auto

lemma take_lcp: "take (lcp xs ys) xs = take (lcp xs ys) ys"
  by (induction xs ys rule: lcp.induct) auto

lemma snake_lcp:
  assumes "0 \<le> x" and "0 \<le> y"
  shows "snake old new x y =
    Some (x + int (lcp (drop (nat x) old) (drop (nat y) new)),
          y + int (lcp (drop (nat x) old) (drop (nat y) new)))"
  using assms
proof (induction old new x y rule: snake.induct)
  case (1 old new x y)
  show ?case
  proof (cases "x < int (length old) \<and> y < int (length new)")
    case True
    with "1.prems" have lens: "nat x < length old" "nat y < length new" by linarith+
    then have drops: "drop (nat x) old = old ! nat x # drop (nat (x + 1)) old"
      "drop (nat y) new = new ! nat y # drop (nat (y + 1)) new"
      using "1.prems" by (simp_all add: Cons_nth_drop_Suc nat_add_distrib)
    have gets: "iget old x = Some (old ! nat x)" "iget new y = Some (new ! nat y)"
      using lens "1.prems" by simp_all
    show ?thesis
    proof (cases "old ! nat x = new ! nat y")
      case eq: True
      then have "snake old new x y = snake old new (x + 1) (y + 1)"
        using True gets by (simp add: snake.simps [of old new x y])
      moreover note "1.IH" [OF True gets eq]
      ultimately show ?thesis using "1.prems" eq by (simp add: drops)
    next
      case False
      then show ?thesis using True gets by (simp add: snake.simps [of old new x y] drops)
    qed
  next
    case False
    then have "lcp (drop (nat x) old) (drop (nat y) new) = 0"
      using lcp_bounds [of "drop (nat x) old" "drop (nat y) new"] by auto
    then show ?thesis using False by (auto simp: snake.simps [of old new x y])
  qed
qed

section \<open>The furthest-reaching table\<close>

text \<open>
  \<open>fr old new d k\<close> is the value the search stores for diagonal \<open>k\<close> in round \<open>d\<close>;
  \<open>fr_start\<close> is where the snake of that round starts, and \<open>dg d k\<close> says that round \<open>d\<close>
  visits diagonal \<open>k\<close>.
\<close>

fun fr :: "'a list \<Rightarrow> 'a list \<Rightarrow> nat \<Rightarrow> int \<Rightarrow> int" where
  "fr old new 0 k = int (lcp old new)"
| "fr old new (Suc d) k =
     (let x0 = (if k = - int (Suc d) \<or> (k \<noteq> int (Suc d) \<and> fr old new d (k - 1) < fr old new d (k + 1))
                then fr old new d (k + 1) else fr old new d (k - 1) + 1)
      in x0 + int (lcp (drop (nat x0) old) (drop (nat (x0 - k)) new)))"

fun fr_start :: "'a list \<Rightarrow> 'a list \<Rightarrow> nat \<Rightarrow> int \<Rightarrow> int" where
  "fr_start old new 0 k = 0"
| "fr_start old new (Suc d) k =
     (if k = - int (Suc d) \<or> (k \<noteq> int (Suc d) \<and> fr old new d (k - 1) < fr old new d (k + 1))
      then fr old new d (k + 1) else fr old new d (k - 1) + 1)"

declare fr.simps [simp del] fr_start.simps [simp del]

definition dg :: "nat \<Rightarrow> int \<Rightarrow> bool" where
  "dg d k \<longleftrightarrow> - int d \<le> k \<and> k \<le> int d \<and> even (int d + k)"

lemma dg_0 [simp]: "dg 0 k \<longleftrightarrow> k = 0"
  by (auto simp: dg_def)

lemma dg_right: "dg (Suc d) k \<Longrightarrow> k \<noteq> - int (Suc d) \<Longrightarrow> dg d (k - 1)"
  unfolding dg_def by presburger

lemma dg_down: "dg (Suc d) k \<Longrightarrow> k \<noteq> int (Suc d) \<Longrightarrow> dg d (k + 1)"
  unfolding dg_def by presburger

lemma fr_eq:
  "dg d k \<Longrightarrow> fr old new d k = fr_start old new d k
     + int (lcp (drop (nat (fr_start old new d k)) old) (drop (nat (fr_start old new d k - k)) new))"
  by (cases d) (auto simp: fr.simps fr_start.simps Let_def)

lemma fr_start_le: "dg d k \<Longrightarrow> fr_start old new d k \<le> fr old new d k"
  by (simp add: fr_eq)

lemma fr_start_cases:
  assumes "dg (Suc d) k"
  obtains (down) "k \<noteq> int (Suc d)" "dg d (k + 1)" "fr_start old new (Suc d) k = fr old new d (k + 1)"
  | (right) "k \<noteq> - int (Suc d)" "dg d (k - 1)" "fr_start old new (Suc d) k = fr old new d (k - 1) + 1"
proof (cases "k = - int (Suc d) \<or> (k \<noteq> int (Suc d) \<and> fr old new d (k - 1) < fr old new d (k + 1))")
  case True
  then have "k \<noteq> int (Suc d)" by auto
  then show ?thesis using True dg_down [OF assms] by (intro down) (auto simp: fr_start.simps)
next
  case False
  then have "k \<noteq> - int (Suc d)" by auto
  then show ?thesis using False dg_right [OF assms] by (intro right) (auto simp: fr_start.simps)
qed

text \<open>Each round moves at least one step along every diagonal it visits.\<close>

lemma fr_start_ge_down:
  "dg (Suc d) k \<Longrightarrow> k \<noteq> int (Suc d) \<Longrightarrow> fr old new d (k + 1) \<le> fr_start old new (Suc d) k"
  by (auto simp: fr_start.simps)

lemma fr_start_ge_right:
  "dg (Suc d) k \<Longrightarrow> k \<noteq> - int (Suc d) \<Longrightarrow> fr old new d (k - 1) + 1 \<le> fr_start old new (Suc d) k"
  by (auto simp: fr_start.simps)

lemma fr_start_nonneg_aux:
  assumes "\<And>j. dg d' j \<Longrightarrow> d = Suc d' \<Longrightarrow> 0 \<le> fr old new d' j \<and> 0 \<le> fr old new d' j - j \<and>
    int d' \<le> 2 * fr old new d' j - j" and "dg d k" and "d = 0 \<or> d = Suc d'"
  shows "0 \<le> fr_start old new d k \<and> 0 \<le> fr_start old new d k - k \<and>
    int d \<le> 2 * fr_start old new d k - k"
proof (cases d)
  case 0
  then show ?thesis using assms(2) by (simp add: fr_start.simps)
next
  case (Suc e)
  with assms(3) have e: "e = d'" by simp
  from assms(2) have "dg (Suc d') k" by (simp add: Suc e)
  then show ?thesis
  proof (cases rule: fr_start_cases [where old = old and new = new])
    case down
    then show ?thesis using assms(1) [of "k + 1"] Suc e by simp
  next
    case right
    then show ?thesis using assms(1) [of "k - 1"] Suc e by simp
  qed
qed

lemma fr_nonneg:
  "dg d k \<Longrightarrow> 0 \<le> fr old new d k \<and> 0 \<le> fr old new d k - k \<and> int d \<le> 2 * fr old new d k - k"
proof (induction d arbitrary: k)
  case 0
  then show ?case by (simp add: fr.simps)
next
  case (Suc d)
  have "0 \<le> fr_start old new (Suc d) k \<and> 0 \<le> fr_start old new (Suc d) k - k \<and>
    int (Suc d) \<le> 2 * fr_start old new (Suc d) k - k"
    by (rule fr_start_nonneg_aux [of d]) (use Suc in auto)
  then show ?case using fr_start_le [OF Suc.prems, of old new] by linarith
qed

lemma fr_start_nonneg:
  "dg d k \<Longrightarrow> 0 \<le> fr_start old new d k \<and> 0 \<le> fr_start old new d k - k"
  using fr_start_nonneg_aux [of "d - 1" d old new k] fr_nonneg [of "d - 1" _ old new]
  by (cases d) auto

section \<open>Overshooting the grid\<close>

text \<open>
  A diagonal can run past the end of one text. It then lags behind its neighbour of the
  round before, which is why the search never stops at a wrong point.
\<close>

lemma lcp_drop_le:
  "0 \<le> x \<Longrightarrow> x \<le> int (length xs) \<Longrightarrow> x + int (lcp (drop (nat x) xs) ys) \<le> int (length xs)"
  using lcp_bounds(1) [of "drop (nat x) xs" ys] by (simp add: of_nat_diff)

lemma lcp_drop_le2:
  "0 \<le> y \<Longrightarrow> y \<le> int (length ys) \<Longrightarrow> y + int (lcp xs (drop (nat y) ys)) \<le> int (length ys)"
  using lcp_bounds(2) [of xs "drop (nat y) ys"] by (simp add: of_nat_diff)

lemma fr_past_old_start:
  assumes "dg d k" and "int (length old) < fr old new d k"
  shows "fr_start old new d k = fr old new d k"
proof -
  have "int (length old) < fr_start old new d k"
    using assms fr_start_nonneg [OF assms(1), of old new] lcp_drop_le [of "fr_start old new d k" old]
    by (metis fr_eq linorder_not_less)
  then show ?thesis by (simp add: fr_eq [OF assms(1)])
qed

lemma fr_past_new_start:
  assumes "dg d k" and "int (length new) < fr old new d k - k"
  shows "fr_start old new d k = fr old new d k"
proof -
  have "int (length new) < fr_start old new d k - k"
  proof (rule ccontr)
    assume "\<not> ?thesis"
    then have "fr old new d k - k \<le> int (length new)"
      using fr_eq [OF assms(1), of old new] fr_start_nonneg [OF assms(1), of old new]
        lcp_drop_le2 [of "fr_start old new d k - k" new] by (simp add: algebra_simps)
    with assms(2) show False by simp
  qed
  then show ?thesis by (simp add: fr_eq [OF assms(1)])
qed

lemma fr_past_old:
  "dg d k \<Longrightarrow> int (length old) < fr old new d k \<Longrightarrow>
   \<exists>d'. d = Suc d' \<and> dg d' (k - 1) \<and> fr old new d k - 1 \<le> fr old new d' (k - 1)"
proof (induction d arbitrary: k)
  case 0
  then show ?case using lcp_bounds(1) [of old new] by (simp add: fr.simps)
next
  case (Suc d)
  have start: "fr_start old new (Suc d) k = fr old new (Suc d) k"
    by (rule fr_past_old_start [OF Suc.prems])
  from Suc.prems(1) show ?case
  proof (cases rule: fr_start_cases [where old = old and new = new])
    case down
    then obtain d' where d': "d = Suc d'" "dg d' k" "fr old new d (k + 1) - 1 \<le> fr old new d' k"
      using Suc.IH [of "k + 1"] Suc.prems(2) start by auto
    then have "dg d (k - 1)" "k - 1 \<noteq> int d" by (auto simp: dg_def)
    then have "fr old new d' k \<le> fr old new d (k - 1)"
      using fr_start_ge_down [of d' "k - 1" old new] fr_start_le [of d "k - 1" old new] d'(1) by simp
    then show ?thesis using \<open>dg d (k - 1)\<close> d' down start by auto
  next
    case right
    then show ?thesis using start by auto
  qed
qed

lemma fr_past_new:
  "dg d k \<Longrightarrow> int (length new) < fr old new d k - k \<Longrightarrow>
   \<exists>d'. d = Suc d' \<and> dg d' (k + 1) \<and> fr old new d k \<le> fr old new d' (k + 1)"
proof (induction d arbitrary: k)
  case 0
  then show ?case using lcp_bounds(2) [of old new] by (simp add: fr.simps)
next
  case (Suc d)
  have start: "fr_start old new (Suc d) k = fr old new (Suc d) k"
    by (rule fr_past_new_start [OF Suc.prems])
  from Suc.prems(1) show ?case
  proof (cases rule: fr_start_cases [where old = old and new = new])
    case down
    then show ?thesis using start by auto
  next
    case right
    then obtain d' where d': "d = Suc d'" "dg d' k" "fr old new d (k - 1) \<le> fr old new d' k"
      using Suc.IH [of "k - 1"] Suc.prems(2) start by auto
    then have "dg d (k + 1)" "k + 1 \<noteq> - int d" by (auto simp: dg_def)
    then have "fr old new d' k + 1 \<le> fr old new d (k + 1)"
      using fr_start_ge_right [of d' "k + 1" old new] fr_start_le [of d "k + 1" old new] d'(1) by simp
    then show ?thesis using \<open>dg d (k + 1)\<close> d' right start by auto
  qed
qed

text \<open>The test \<open>x >= old_len && y >= new_len\<close> of the search.\<close>

definition hit :: "'a list \<Rightarrow> 'a list \<Rightarrow> nat \<Rightarrow> int \<Rightarrow> bool" where
  "hit old new d k \<longleftrightarrow> int (length old) \<le> fr old new d k \<and> int (length new) \<le> fr old new d k - k"

lemma hit_exact:
  assumes "dg d k" and "hit old new d k"
    and first: "\<And>d' k'. d' < d \<Longrightarrow> dg d' k' \<Longrightarrow> \<not> hit old new d' k'"
  shows "fr old new d k = int (length old) \<and> k = int (length old) - int (length new)"
proof -
  have "\<not> int (length old) < fr old new d k"
  proof
    assume "int (length old) < fr old new d k"
    from fr_past_old [OF assms(1) this] obtain d' where
      "d = Suc d'" "dg d' (k - 1)" "fr old new d k - 1 \<le> fr old new d' (k - 1)" by blast
    then show False
      using first [of d' "k - 1"] assms(2) \<open>int (length old) < _\<close> by (auto simp: hit_def)
  qed
  moreover have "\<not> int (length new) < fr old new d k - k"
  proof
    assume "int (length new) < fr old new d k - k"
    from fr_past_new [OF assms(1) this] obtain d' where
      "d = Suc d'" "dg d' (k + 1)" "fr old new d k \<le> fr old new d' (k + 1)" by blast
    then show False
      using first [of d' "k + 1"] assms(2) \<open>int (length new) < _\<close> by (auto simp: hit_def)
  qed
  ultimately show ?thesis using assms(2) by (auto simp: hit_def)
qed

lemma hit_at_sum:
  "hit old new (length old + length new) (int (length old) - int (length new))"
  "dg (length old + length new) (int (length old) - int (length new))"
proof -
  show dg: "dg (length old + length new) (int (length old) - int (length new))"
    unfolding dg_def by auto
  show "hit old new (length old + length new) (int (length old) - int (length new))"
    using fr_nonneg [OF dg, of old new] by (simp add: hit_def)
qed

section \<open>The array represents the table\<close>

definition holds :: "'a list \<Rightarrow> 'a list \<Rightarrow> int \<Rightarrow> nat \<Rightarrow> int list \<Rightarrow> bool" where
  "holds old new off d v \<longleftrightarrow> (\<forall>j. dg d j \<longrightarrow> iget v (j + off) = Some (fr old new d j))"

text \<open>What the array holds when round \<open>d\<close> starts.\<close>

definition ready :: "'a list \<Rightarrow> 'a list \<Rightarrow> nat \<Rightarrow> nat \<Rightarrow> int list \<Rightarrow> bool" where
  "ready old new mx d v \<longleftrightarrow> length v = 2 * mx + 1 \<and>
     (case d of 0 \<Rightarrow> iget v (1 + int mx) = Some 0 | Suc e \<Rightarrow> holds old new (int mx) e v)"

lemma goes_down_ready:
  assumes "ready old new mx d v" and "dg d k"
  shows "goes_down v (int mx) (int d) k =
    Some (case d of 0 \<Rightarrow> True
          | Suc e \<Rightarrow> k = - int d \<or> (k \<noteq> int d \<and> fr old new e (k - 1) < fr old new e (k + 1)))"
proof (cases d)
  case 0
  then show ?thesis using assms by (simp add: goes_down_def)
next
  case (Suc e)
  show ?thesis
  proof (cases "k = - int d \<or> k = int d")
    case True
    then show ?thesis using Suc by (auto simp: goes_down_def)
  next
    case False
    then have "dg e (k - 1)" "dg e (k + 1)"
      using dg_right [of e k] dg_down [of e k] assms(2) Suc by auto
    then have "iget v (k - 1 + int mx) = Some (fr old new e (k - 1))"
      "iget v (k + 1 + int mx) = Some (fr old new e (k + 1))"
      using assms(1) by (auto simp: ready_def holds_def Suc)
    then show ?thesis using False by (auto simp: goes_down_def Suc)
  qed
qed

lemma start_x_ready:
  assumes "ready old new mx d v" and "dg d k"
  shows "start_x v (int mx) (int d) k = Some (fr_start old new d k)"
proof (cases d)
  case 0
  then show ?thesis using assms
    by (simp add: start_x_def goes_down_def ready_def fr_start.simps)
next
  case (Suc e)
  let ?down = "k = - int (Suc e) \<or> (k \<noteq> int (Suc e) \<and> fr old new e (k - 1) < fr old new e (k + 1))"
  have gd: "goes_down v (int mx) (int d) k = Some ?down"
    using goes_down_ready [OF assms] by (simp add: Suc)
  show ?thesis
  proof (cases ?down)
    case True
    then have "dg e (k + 1)" using dg_down [of e k] assms(2) Suc by auto
    then have "iget v (k + 1 + int mx) = Some (fr old new e (k + 1))"
      using assms(1) by (auto simp: ready_def holds_def Suc)
    moreover have "fr_start old new d k = fr old new e (k + 1)"
      using True unfolding Suc fr_start.simps by simp
    ultimately show ?thesis using True unfolding start_x_def gd by simp
  next
    case False
    then have "dg e (k - 1)" using dg_right [of e k] assms(2) Suc by auto
    then have "iget v (k - 1 + int mx) = Some (fr old new e (k - 1))"
      using assms(1) by (auto simp: ready_def holds_def Suc)
    moreover have "fr_start old new d k = fr old new e (k - 1) + 1"
      using False unfolding Suc fr_start.simps by auto
    ultimately show ?thesis using False unfolding start_x_def gd by auto
  qed
qed

lemma snake_ready:
  "dg d k \<Longrightarrow> snake old new (fr_start old new d k) (fr_start old new d k - k) =
    Some (fr old new d k, fr old new d k - k)"
  using fr_start_nonneg [of d k old new] by (simp add: snake_lcp fr_eq [of d k])

text \<open>Writing cell \<open>k\<close> in round \<open>d\<close> leaves the cells of round \<open>d - 1\<close> alone: the parity differs.\<close>

lemma ready_update:
  assumes "ready old new mx d v" and "dg d k" and "d \<le> mx"
  shows "ready old new mx d (v[nat (k + int mx) := x])"
proof -
  have idx: "0 \<le> k + int mx" "nat (k + int mx) < length v"
    using assms by (auto simp: ready_def dg_def)
  show ?thesis
  proof (cases d)
    case 0
    then show ?thesis using assms
      by (auto simp: ready_def iget_def nth_list_update split: if_splits)
  next
    case (Suc e)
    have "j \<noteq> k" if "dg e j" for j
      using that assms(2) Suc by (auto simp: dg_def)
    then show ?thesis using assms idx Suc
      by (auto simp: ready_def holds_def iget_list_update)
  qed
qed

definition filled :: "'a list \<Rightarrow> 'a list \<Rightarrow> int \<Rightarrow> nat \<Rightarrow> int \<Rightarrow> int list \<Rightarrow> bool" where
  "filled old new off d k v \<longleftrightarrow>
     (\<forall>j. dg d j \<and> j < k \<longrightarrow> iget v (j + off) = Some (fr old new d j) \<and> \<not> hit old new d j)"

lemma search_k_correct:
  assumes "ready old new mx d v" and "d \<le> mx" and "filled old new (int mx) d k v"
    and "dg d k \<or> k = int d + 2"
  shows "(\<exists>v' k'. search_k old new (int mx) (int d) k v = Some (v', True) \<and> dg d k' \<and> hit old new d k') \<or>
    (\<exists>v'. search_k old new (int mx) (int d) k v = Some (v', False) \<and>
       ready old new mx (Suc d) v' \<and> (\<forall>j. dg d j \<longrightarrow> \<not> hit old new d j))"
  using assms
proof (induction "nat (int d + 2 - k)" arbitrary: k v rule: less_induct)
  case less
  show ?case
  proof (cases "k \<le> int d")
    case False
    with less.prems(4) have k: "k = int d + 2" by (auto simp: dg_def)
    have "ready old new mx (Suc d) v" "\<forall>j. dg d j \<longrightarrow> \<not> hit old new d j"
      using less.prems by (auto simp: ready_def holds_def filled_def k dg_def)
    then show ?thesis using False by (auto simp: search_k.simps [of _ _ _ _ k])
  next
    case True
    with less.prems(4) have dgk: "dg d k" by (auto simp: dg_def)
    have idx: "0 \<le> k + int mx" "nat (k + int mx) < length v"
      using less.prems dgk by (auto simp: ready_def dg_def)
    let ?v' = "v[nat (k + int mx) := fr old new d k]"
    have unfold: "search_k old new (int mx) (int d) k v =
      (if hit old new d k then Some (?v', True) else search_k old new (int mx) (int d) (k + 2) ?v')"
      using True idx start_x_ready [OF less.prems(1) dgk]
      by (simp add: search_k.simps [of _ _ _ _ k] snake_ready [OF dgk] hit_def)
    show ?thesis
    proof (cases "hit old new d k")
      case True
      then show ?thesis using unfold dgk by auto
    next
      case False
      have "j = k" if "dg d j" "j < k + 2" "\<not> j < k" for j
        using that dgk unfolding dg_def by presburger
      then have "filled old new (int mx) d (k + 2) ?v'"
        using less.prems(3) False idx by (fastforce simp: filled_def iget_list_update)
      moreover have "dg d (k + 2) \<or> k + 2 = int d + 2"
        using dgk unfolding dg_def by presburger
      ultimately show ?thesis
        using less.hyps [of "k + 2" ?v'] True False unfold ready_update [OF less.prems(1) dgk less.prems(2)]
          less.prems(2) by simp
    qed
  qed
qed

definition good_trace :: "'a list \<Rightarrow> 'a list \<Rightarrow> nat \<Rightarrow> nat \<Rightarrow> int list list \<Rightarrow> bool" where
  "good_trace old new mx n trace \<longleftrightarrow> length trace = n \<and> (\<forall>i < n. ready old new mx i (trace ! i))"

lemma good_trace_snoc:
  "good_trace old new mx n trace \<Longrightarrow> ready old new mx n v \<Longrightarrow>
   good_trace old new mx (Suc n) (trace @ [v])"
  by (auto simp: good_trace_def nth_append less_Suc_eq)

lemma search_d_correct:
  assumes "ready old new mx d v" and "good_trace old new mx d trace"
    and "mx = length old + length new" and "d \<le> mx"
    and "\<And>d' k'. d' < d \<Longrightarrow> dg d' k' \<Longrightarrow> \<not> hit old new d' k'"
  shows "\<exists>trace' D. search_d old new mx d v trace = Some (trace', D) \<and>
    good_trace old new mx (Suc D) trace' \<and> dg D (int (length old) - int (length new)) \<and>
    fr old new D (int (length old) - int (length new)) = int (length old) \<and>
    (\<forall>d' k'. d' < D \<longrightarrow> dg d' k' \<longrightarrow> \<not> hit old new d' k')"
  using assms
proof (induction "Suc mx - d" arbitrary: d v trace rule: less_induct)
  case less
  have init: "filled old new (int mx) d (- int d) v" "dg d (- int d) \<or> - int d = int d + 2"
    by (auto simp: filled_def dg_def)
  from search_k_correct [OF less.prems(1,4) init] consider
      (found) v' k' where "search_k old new (int mx) (int d) (- int d) v = Some (v', True)"
        "dg d k'" "hit old new d k'"
    | (go_on) v' where "search_k old new (int mx) (int d) (- int d) v = Some (v', False)"
        "ready old new mx (Suc d) v'" "\<forall>j. dg d j \<longrightarrow> \<not> hit old new d j"
    by blast
  then show ?case
  proof cases
    case found
    have "fr old new d k' = int (length old) \<and> k' = int (length old) - int (length new)"
      by (rule hit_exact [OF found(2,3) less.prems(5)])
    then show ?thesis
      using found less.prems good_trace_snoc [OF less.prems(2,1)]
      by (auto simp: search_d.simps [of _ _ _ d])
  next
    case go_on
    have "d \<noteq> mx" using go_on(3) hit_at_sum [of old new] less.prems(3) by auto
    then have "Suc d \<le> mx" using less.prems(4) by simp
    moreover have "\<not> hit old new d' k'" if "d' < Suc d" "dg d' k'" for d' k'
      using that go_on(3) less.prems(5) by (auto simp: less_Suc_eq)
    ultimately show ?thesis
      using less.hyps [of "Suc d" v' "trace @ [v]"] go_on less.prems
        good_trace_snoc [OF less.prems(2,1)]
      by (simp add: search_d.simps [of _ _ _ d])
  qed
qed

section \<open>Backtracking rebuilds both texts\<close>

lemma take_drop_snoc:
  assumes "0 < m" and "int m \<le> x" and "nat x \<le> length old"
  shows "take m (drop (nat (x - int m)) old) =
    take (m - 1) (drop (nat (x - int m)) old) @ [old ! nat (x - 1)]"
proof -
  have "nat (x - int m) + (m - 1) = nat (x - 1)" "nat (x - 1) < length old"
    using assms by linarith+
  then have "drop (nat (x - int m)) old ! (m - 1) = old ! nat (x - 1)"
    using assms by simp
  moreover have "m - 1 < length (drop (nat (x - int m)) old)"
    using assms by simp
  ultimately show ?thesis
    using take_Suc_conv_app_nth [of "m - 1" "drop (nat (x - int m)) old"] assms(1) by simp
qed

lemma back_snake_correct:
  assumes "int m = min (x - px) (y - py)" and "0 \<le> px" and "x \<le> int (length old)"
  shows "back_snake old px py x y acc =
    Some (x - int m, y - int m, map Equal (take m (drop (nat (x - int m)) old)) @ acc)"
  using assms
proof (induction m arbitrary: x y acc)
  case 0
  then have "\<not> (px < x \<and> py < y)" by linarith
  then show ?case by (auto simp: back_snake.simps [of _ _ _ x])
next
  case (Suc m)
  then have gt: "px < x" "py < y" and m: "int m = min (x - 1 - px) (y - 1 - py)" by linarith+
  then have get: "iget old (x - 1) = Some (old ! nat (x - 1))"
    using Suc.prems by simp
  have "int (Suc m) \<le> x" "nat x \<le> length old"
    using Suc.prems by linarith+
  then have snoc: "take (Suc m) (drop (nat (x - int (Suc m))) old) =
      take m (drop (nat (x - int (Suc m))) old) @ [old ! nat (x - 1)]"
    using take_drop_snoc [of "Suc m" x old] by simp
  have idx: "x - 1 - int m = x - int (Suc m)" "y - 1 - int m = y - int (Suc m)" by simp_all
  have "back_snake old px py x y acc = back_snake old px py (x - 1) (y - 1) (Equal (old ! nat (x - 1)) # acc)"
    using gt get by (simp add: back_snake.simps [of _ _ _ x])
  also have "\<dots> = Some (x - int (Suc m), y - int (Suc m),
      map Equal (take (Suc m) (drop (nat (x - int (Suc m))) old)) @ acc)"
    using Suc.IH [OF m Suc.prems(2), of "Equal (old ! nat (x - 1)) # acc"] Suc.prems(3)
    unfolding idx snoc by simp
  finally show ?case .
qed

text \<open>The snake of diagonal \<open>k\<close> in round \<open>d\<close>, as a piece of both texts.\<close>

lemma fr_snake:
  assumes "dg d k" and m: "int m = fr old new d k - fr_start old new d k"
    and "fr old new d k \<le> int (length old)" and "fr old new d k - k \<le> int (length new)"
  shows "take (nat (fr old new d k)) old =
      take (nat (fr_start old new d k)) old @ take m (drop (nat (fr_start old new d k)) old)"
    and "take (nat (fr old new d k - k)) new =
      take (nat (fr_start old new d k - k)) new @ take m (drop (nat (fr_start old new d k)) old)"
proof -
  let ?s = "fr_start old new d k"
  have s: "0 \<le> ?s" "0 \<le> ?s - k" using fr_start_nonneg [OF assms(1), of old new] by auto
  have lcp: "m = lcp (drop (nat ?s) old) (drop (nat (?s - k)) new)"
    using fr_eq [OF assms(1), of old new] m by simp
  have sums: "nat (fr old new d k) = nat ?s + m" "nat (fr old new d k - k) = nat (?s - k) + m"
    using s m by linarith+
  show "take (nat (fr old new d k)) old = take (nat ?s) old @ take m (drop (nat ?s) old)"
    by (simp add: sums take_add)
  show "take (nat (fr old new d k - k)) new = take (nat (?s - k)) new @ take m (drop (nat ?s) old)"
    using take_lcp [of "drop (nat ?s) old" "drop (nat (?s - k)) new"] by (simp add: sums take_add lcp)
qed

lemma take_nat_snoc:
  "0 \<le> i \<Longrightarrow> i < int (length xs) \<Longrightarrow> take (nat (i + 1)) xs = take (nat i) xs @ [xs ! nat i]"
  by (simp add: nat_add_distrib take_Suc_conv_app_nth)

text \<open>One round of the backtracking, for a downward and for a rightward move.\<close>

abbreviation (input) moves_down :: "'a list \<Rightarrow> 'a list \<Rightarrow> nat \<Rightarrow> int \<Rightarrow> bool" where
  "moves_down old new d k \<equiv>
     k = - int (Suc d) \<or> (k \<noteq> int (Suc d) \<and> fr old new d (k - 1) < fr old new d (k + 1))"

abbreviation (input) snake_edits :: "'a list \<Rightarrow> 'a list \<Rightarrow> nat \<Rightarrow> int \<Rightarrow> 'a edit list" where
  "snake_edits old new d k \<equiv> map Equal
     (take (nat (fr old new d k - fr_start old new d k)) (drop (nat (fr_start old new d k)) old))"

lemma backtrack_down:
  assumes rd: "ready old new mx (Suc d) v" and tr: "iget trace (int (Suc d)) = Some v"
    and dg: "dg (Suc d) k" and move: "moves_down old new d k"
    and le: "fr old new (Suc d) k \<le> int (length old)" "fr old new (Suc d) k - k \<le> int (length new)"
  shows "backtrack_edits old new trace (int mx) (Suc d) (fr old new (Suc d) k) (fr old new (Suc d) k - k) acc
    = backtrack_edits old new trace (int mx) d (fr old new d (k + 1)) (fr old new d (k + 1) - (k + 1))
        (Insert (new ! nat (fr old new d (k + 1) - (k + 1))) # snake_edits old new (Suc d) k @ acc)"
proof -
  let ?x = "fr old new (Suc d) k" and ?s = "fr old new d (k + 1)"
  from move have s: "dg d (k + 1)" "fr_start old new (Suc d) k = ?s"
    using dg_down [OF dg] by (auto simp: fr_start.simps)
  have gd: "goes_down v (int mx) (int (Suc d)) k = Some True"
    using goes_down_ready [OF rd dg] move by auto
  have px: "iget v (k + 1 + int mx) = Some ?s"
    using rd s by (auto simp: ready_def holds_def)
  have s0: "0 \<le> ?s" "0 \<le> ?s - (k + 1)" "?s \<le> ?x"
    using fr_nonneg [OF s(1), of old new] fr_start_le [OF dg, of old new] s(2) by auto
  have bs: "back_snake old ?s (?s - (k + 1)) ?x (?x - k) acc =
      Some (?s, ?s - k, snake_edits old new (Suc d) k @ acc)"
    using back_snake_correct [of "nat (?x - ?s)" ?x ?s "?x - k" "?s - (k + 1)" old acc] s0 le(1)
    by (simp add: s(2))
  have "iget new (?s - k - 1) = Some (new ! nat (?s - (k + 1)))"
    using s0 le(2) by (simp add: diff_diff_eq)
  then show ?thesis using tr gd px bs by (simp add: Let_def diff_diff_eq)
qed

lemma backtrack_right:
  assumes rd: "ready old new mx (Suc d) v" and tr: "iget trace (int (Suc d)) = Some v"
    and dg: "dg (Suc d) k" and move: "\<not> moves_down old new d k"
    and le: "fr old new (Suc d) k \<le> int (length old)" "fr old new (Suc d) k - k \<le> int (length new)"
  shows "backtrack_edits old new trace (int mx) (Suc d) (fr old new (Suc d) k) (fr old new (Suc d) k - k) acc
    = backtrack_edits old new trace (int mx) d (fr old new d (k - 1)) (fr old new d (k - 1) - (k - 1))
        (Delete (old ! nat (fr old new d (k - 1))) # snake_edits old new (Suc d) k @ acc)"
proof -
  let ?x = "fr old new (Suc d) k" and ?s = "fr old new d (k - 1)"
  from move have s: "dg d (k - 1)" "fr_start old new (Suc d) k = ?s + 1"
    using dg_right [OF dg] by (auto simp: fr_start.simps)
  have gd: "goes_down v (int mx) (int (Suc d)) k = Some False"
    using goes_down_ready [OF rd dg] move by auto
  have px: "iget v (k - 1 + int mx) = Some ?s"
    using rd s by (auto simp: ready_def holds_def)
  have s0: "0 \<le> ?s" "0 \<le> ?s - (k - 1)" "?s + 1 \<le> ?x"
    using fr_nonneg [OF s(1), of old new] fr_start_le [OF dg, of old new] s(2) by auto
  have bs: "back_snake old ?s (?s - (k - 1)) ?x (?x - k) acc =
      Some (?s + 1, ?s - (k - 1), snake_edits old new (Suc d) k @ acc)"
    using back_snake_correct [of "nat (?x - (?s + 1))" ?x ?s "?x - k" "?s - (k - 1)" old acc] s0 le(1)
    by (simp add: s(2))
  have "iget old ?s = Some (old ! nat ?s)"
    using s0 le(1) by simp
  then show ?thesis using tr gd px bs by (simp add: Let_def)
qed

lemma backtrack_correct:
  assumes "good_trace old new mx n trace" and "d < n" and "dg d k"
    and "fr old new d k \<le> int (length old)" and "fr old new d k - k \<le> int (length new)"
  shows "\<exists>es. backtrack_edits old new trace (int mx) d (fr old new d k) (fr old new d k - k) acc
      = Some (es @ acc) \<and>
    old_side es = take (nat (fr old new d k)) old \<and> new_side es = take (nat (fr old new d k - k)) new \<and>
    cost es = d"
  using assms(2-)
proof (induction d arbitrary: k acc)
  case 0
  then have k: "k = 0" by simp
  let ?m = "lcp old new"
  have tr: "iget trace 0 = Some (trace ! 0)" using assms(1) 0 by (simp add: good_trace_def)
  have "back_snake old 0 0 (int ?m) (int ?m) acc = Some (0, 0, map Equal (take ?m old) @ acc)"
    using back_snake_correct [of ?m "int ?m" 0 "int ?m" 0 old acc] lcp_bounds(1) [of old new] by simp
  then show ?case
    using tr take_lcp [of old new] by (simp add: k fr.simps)
next
  case (Suc d)
  let ?x = "fr old new (Suc d) k" and ?s = "fr_start old new (Suc d) k"
  let ?m = "nat (?x - ?s)" and ?acc = "snake_edits old new (Suc d) k @ acc"
  have rd: "ready old new mx (Suc d) (trace ! Suc d)"
    and tr: "iget trace (int (Suc d)) = Some (trace ! Suc d)"
    using assms(1) Suc.prems(1) by (auto simp: good_trace_def nat_add_distrib iget_def)
  have le: "?s \<le> ?x" "0 \<le> ?s" "0 \<le> ?s - k"
    using fr_start_le [OF Suc.prems(2)] fr_start_nonneg [OF Suc.prems(2), of old new] by auto
  note snk = fr_snake [OF Suc.prems(2) _ Suc.prems(3,4), of ?m]
  show ?case
  proof (cases "moves_down old new d k")
    case True
    note step = backtrack_down [OF rd tr Suc.prems(2) True Suc.prems(3,4)]
    from True have s: "dg d (k + 1)" "?s = fr old new d (k + 1)"
      using dg_down [OF Suc.prems(2)] by (auto simp: fr_start.simps)
    let ?e = "Insert (new ! nat (?s - (k + 1)))"
    obtain es where "backtrack_edits old new trace (int mx) d ?s (?s - (k + 1)) (?e # ?acc) = Some (es @ ?e # ?acc)"
      "old_side es = take (nat ?s) old" "new_side es = take (nat (?s - (k + 1))) new" "cost es = d"
      using Suc.IH [of "k + 1" "?e # ?acc"] s Suc.prems le by auto
    moreover have "take (nat (?s - k)) new = take (nat (?s - (k + 1))) new @ [new ! nat (?s - (k + 1))]"
      using take_nat_snoc [of "?s - (k + 1)" new] fr_nonneg [OF s(1), of old new] s(2) Suc.prems(4) le
      by simp
    ultimately show ?thesis
      using snk le step s(2) by (intro exI [of _ "es @ ?e # snake_edits old new (Suc d) k"]) simp
  next
    case False
    note step = backtrack_right [OF rd tr Suc.prems(2) False Suc.prems(3,4)]
    from False have s: "dg d (k - 1)" "?s - 1 = fr old new d (k - 1)"
      using dg_right [OF Suc.prems(2)] by (auto simp: fr_start.simps)
    let ?e = "Delete (old ! nat (?s - 1))"
    have y: "fr old new d (k - 1) - (k - 1) = ?s - k" using s(2) by simp
    obtain es where "backtrack_edits old new trace (int mx) d (fr old new d (k - 1))
        (fr old new d (k - 1) - (k - 1)) (?e # ?acc) = Some (es @ ?e # ?acc)"
      "old_side es = take (nat (?s - 1)) old" "new_side es = take (nat (?s - k)) new" "cost es = d"
      using Suc.IH [of "k - 1" "?e # ?acc"] s y Suc.prems le by auto
    moreover have "0 \<le> ?s - 1" using fr_nonneg [OF s(1), of old new] s(2) by simp
    then have "take (nat ?s) old = take (nat (?s - 1)) old @ [old ! nat (?s - 1)]"
      using take_nat_snoc [of "?s - 1" old] Suc.prems(3) le(1) by simp
    ultimately show ?thesis
      using snk le step s(2) by (intro exI [of _ "es @ ?e # snake_edits old new (Suc d) k"]) simp
  qed
qed

lemma ready_start:
  "mx \<noteq> 0 \<Longrightarrow> ready old new mx 0 (replicate (2 * mx + 1) 0)"
  by (simp add: ready_def iget_def)

section \<open>No script is shorter\<close>

lemma lcp_maximal:
  "lcp xs ys < length xs \<Longrightarrow> lcp xs ys < length ys \<Longrightarrow> xs ! lcp xs ys \<noteq> ys ! lcp xs ys"
  by (induction xs ys rule: lcp.induct) auto

lemma fr_maximal:
  assumes "dg d k" and "fr old new d k < int (length old)" and "fr old new d k - k < int (length new)"
  shows "old ! nat (fr old new d k) \<noteq> new ! nat (fr old new d k - k)"
proof -
  let ?s = "fr_start old new d k"
  let ?l = "lcp (drop (nat ?s) old) (drop (nat (?s - k)) new)"
  have s: "0 \<le> ?s" "0 \<le> ?s - k" using fr_start_nonneg [OF assms(1), of old new] by auto
  have eq: "fr old new d k = ?s + int ?l" by (rule fr_eq [OF assms(1)])
  then have idx: "nat (fr old new d k) = nat ?s + ?l" "nat (fr old new d k - k) = nat (?s - k) + ?l"
    using s by linarith+
  have lens: "nat ?s + ?l < length old" "nat (?s - k) + ?l < length new"
    using assms(2,3) idx fr_nonneg [OF assms(1), of old new] by linarith+
  then have "drop (nat ?s) old ! ?l \<noteq> drop (nat (?s - k)) new ! ?l"
    by (intro lcp_maximal) (unfold length_drop, linarith+)
  then show ?thesis using lens unfolding idx by simp
qed

text \<open>A script that reaches a grid point with \<open>c\<close> changes stays behind the table's round \<open>c\<close>.\<close>

lemma script_behind:
  assumes "old = old_side es @ old'" and "new = new_side es @ new'"
    and "k = int (length (old_side es)) - int (length (new_side es))"
  shows "dg (cost es) k \<and> int (length (old_side es)) \<le> fr old new (cost es) k"
  using assms
proof (induction es arbitrary: old' new' k rule: rev_induct)
  case Nil
  then show ?case by (simp add: fr.simps)
next
  case (snoc e es)
  let ?x = "int (length (old_side es))" and ?c = "cost es"
  let ?k = "?x - int (length (new_side es))"
  show ?case
  proof (cases e)
    case (Equal a)
    have IH: "dg ?c k" "?x \<le> fr old new ?c k"
      using snoc.IH [of "a # old'" "a # new'" k] snoc.prems Equal by auto
    have "?x \<noteq> fr old new ?c k"
    proof
      assume x: "?x = fr old new ?c k"
      have "nat ?x = length (old_side es)" "nat (?x - k) = length (new_side es)"
        using snoc.prems Equal by auto
      then have "old ! nat ?x = a" "new ! nat (?x - k) = a" "?x < int (length old)" "?x - k < int (length new)"
        using snoc.prems Equal by (auto simp: nth_append)
      then show False using fr_maximal [OF IH(1), of old new] x by simp
    qed
    then show ?thesis using IH Equal by simp
  next
    case (Insert a)
    have IH: "dg ?c (k + 1)" "?x \<le> fr old new ?c (k + 1)"
      using snoc.IH [of old' "a # new'" "k + 1"] snoc.prems Insert by auto
    then have "dg (Suc ?c) k" "k \<noteq> int (Suc ?c)" by (auto simp: dg_def)
    then show ?thesis
      using IH Insert fr_start_ge_down [of ?c k old new] fr_start_le [of "Suc ?c" k old new] by simp
  next
    case (Delete a)
    have IH: "dg ?c (k - 1)" "?x \<le> fr old new ?c (k - 1)"
      using snoc.IH [of "a # old'" new' "k - 1"] snoc.prems Delete by auto
    then have "dg (Suc ?c) k" "k \<noteq> - int (Suc ?c)" by (auto simp: dg_def)
    then show ?thesis
      using IH Delete fr_start_ge_right [of ?c k old new] fr_start_le [of "Suc ?c" k old new] by simp
  qed
qed

lemma script_hits:
  "hit (old_side es) (new_side es) (cost es) (int (length (old_side es)) - int (length (new_side es)))"
  "dg (cost es) (int (length (old_side es)) - int (length (new_side es)))"
  using script_behind [of "old_side es" es "[]" "new_side es" "[]"] by (auto simp: hit_def)

lemma myers_edits_sound:
  "\<exists>es. myers_edits old new = Some es \<and> old_side es = old \<and> new_side es = new \<and>
     (\<forall>fs. old_side fs = old \<and> new_side fs = new \<longrightarrow> cost es \<le> cost fs)"
proof (cases "old = [] \<or> new = []")
  case True
  have "length new \<le> cost fs" if "old_side fs = []" "new_side fs = new" for fs
    using cost_ge_sides(1) [of fs] that by simp
  moreover have "length old \<le> cost fs" if "old_side fs = old" "new_side fs = []" for fs
    using cost_ge_sides(2) [of fs] that by simp
  ultimately show ?thesis using True by (auto simp: myers_edits_def)
next
  case False
  let ?mx = "length old + length new"
  have rd: "ready old new ?mx 0 (replicate (2 * ?mx + 1) 0)"
    by (rule ready_start) (use False in simp)
  have "good_trace old new ?mx 0 []" by (simp add: good_trace_def)
  from search_d_correct [OF rd this refl] obtain trace D where
    search: "search_d old new ?mx 0 (replicate (2 * ?mx + 1) 0) [] = Some (trace, D)"
    "good_trace old new ?mx (Suc D) trace" "dg D (int (length old) - int (length new))"
    "fr old new D (int (length old) - int (length new)) = int (length old)"
    "\<And>d' k'. d' < D \<Longrightarrow> dg d' k' \<Longrightarrow> \<not> hit old new d' k'"
    by auto
  from backtrack_correct [OF search(2) _ search(3), of "[]"] obtain es where
    es: "backtrack_edits old new trace (int ?mx) D (int (length old)) (int (length new)) [] = Some es"
    "old_side es = old" "new_side es = new" "cost es = D"
    using search(4) by auto
  have "D \<le> cost fs" if "old_side fs = old" "new_side fs = new" for fs
    using script_hits [of fs] search(5) [of "cost fs"] that by (auto simp: not_less [symmetric])
  then show ?thesis using False search(1) es by (auto simp: myers_edits_def)
qed

section \<open>The contract of a diff\<close>

locale differ =
  fixes diff :: "'a list \<Rightarrow> 'a list \<Rightarrow> 'a edit list option"
  assumes diff_sound: "\<exists>es. diff old new = Some es \<and> old_side es = old \<and> new_side es = new"
begin

lemma diff_returns: "diff old new \<noteq> None"
  using diff_sound [of old new] by auto

end

interpretation myers: differ myers_edits
  by unfold_locales (use myers_edits_sound in blast)

end
