(* ===== verification/Patch.thy ===== *)
theory Patch
  imports RustText Myers
begin

text \<open>
  The patch layer of \<open>crates/common/src/diff/patch.rs\<close>: \<open>diff_to_patch_ops\<close>,
  \<open>line_then_char_diff\<close>, \<open>edits_to_patch_ops\<close> and \<open>apply_patch_ops_to_ytext\<close>. Patch
  operations carry UTF-8 byte offsets into the old text; \<open>u32\<close> arithmetic wraps as in a
  release build, and \<open>shifted_index\<close> panics (\<open>None\<close>) when the shifted offset does not fit.

  The shared text type of the \<open>yrs\<close> crate is a parameter: a record of its \<open>insert\<close>,
  \<open>remove_range\<close> and \<open>get_string\<close>, with the documented effect of each as a hypothesis.
  The main lemma is that the operations computed for two texts, applied to a shared text that
  reads as the old one, leave it reading as the new one.
\<close>

section \<open>Patch operations\<close>

datatype patch_op = OpInsert nat rstr | OpDelete nat nat

text \<open>
  \<open>edits_to_patch_ops\<close>: the loop state is the vector of operations, kept with its last
  element first, and \<open>old_index_bytes\<close>. A deletion extends the previous deletion when it
  continues it, an insertion extends the previous insertion at the same offset.
\<close>

fun push_delete :: "patch_op list \<Rightarrow> nat \<Rightarrow> nat \<Rightarrow> patch_op list" where
  "push_delete (OpDelete i l # ops) idx len =
     (if u32 (i + l) = idx then OpDelete i (u32 (l + len)) # ops
      else OpDelete idx len # OpDelete i l # ops)"
| "push_delete ops idx len = OpDelete idx len # ops"

fun push_insert :: "patch_op list \<Rightarrow> nat \<Rightarrow> rchar \<Rightarrow> patch_op list" where
  "push_insert (OpInsert i s # ops) idx ch =
     (if i = idx then OpInsert i (s @ [ch]) # ops
      else OpInsert idx [ch] # OpInsert i s # ops)"
| "push_insert ops idx ch = OpInsert idx [ch] # ops"

fun edits_to_ops :: "rchar edit list \<Rightarrow> patch_op list \<Rightarrow> nat \<Rightarrow> patch_op list" where
  "edits_to_ops [] ops idx = rev ops"
| "edits_to_ops (Equal ch # es) ops idx = edits_to_ops es ops (u32 (idx + len_utf8 ch))"
| "edits_to_ops (Delete ch # es) ops idx =
     edits_to_ops es (push_delete ops idx (len_utf8 ch)) (u32 (idx + len_utf8 ch))"
| "edits_to_ops (Insert ch # es) ops idx = edits_to_ops es (push_insert ops idx ch) idx"

definition edits_to_patch_ops :: "rchar edit list \<Rightarrow> patch_op list" where
  "edits_to_patch_ops es = edits_to_ops es [] 0"

section \<open>Diffing by lines first\<close>

text \<open>\<open>str::split_inclusive('\n')\<close>: every line keeps its newline.\<close>

definition lines_inclusive :: "rstr \<Rightarrow> rstr list" where
  "lines_inclusive s = split_inclusive 10 [] s"

fun shift_op :: "nat \<Rightarrow> patch_op \<Rightarrow> patch_op" where
  "shift_op base (OpInsert i s) = OpInsert (u32 (base + i)) s"
| "shift_op base (OpDelete i l) = OpDelete (u32 (base + i)) l"

text \<open>The closure \<open>flush\<close>: refine the pending lines character by character.\<close>

definition flush :: "patch_op list \<Rightarrow> rstr \<Rightarrow> rstr \<Rightarrow> nat \<Rightarrow> patch_op list option" where
  "flush ops pending_old pending_new pending_byte_start =
     (if pending_old = [] \<and> pending_new = [] then Some ops
      else do {
        char_edits \<leftarrow> myers_edits pending_old pending_new;
        Some (ops @ map (shift_op pending_byte_start) (edits_to_patch_ops char_edits))
      })"

text \<open>
  The loop over the line edits. Its state: the operations, \<open>old_byte_offset\<close>,
  \<open>pending_old\<close>, \<open>pending_new\<close> and \<open>pending_byte_start\<close>.
\<close>

fun line_loop ::
  "rstr edit list \<Rightarrow> patch_op list \<Rightarrow> nat \<Rightarrow> rstr \<Rightarrow> rstr \<Rightarrow> nat \<Rightarrow> patch_op list option" where
  "line_loop [] ops off po pn start = flush ops po pn start"
| "line_loop (Equal line # es) ops off po pn start =
     do {
       ops' \<leftarrow> flush ops po pn start;
       line_loop es ops' (u32 (off + u32 (blen line))) [] [] (u32 (off + u32 (blen line)))
     }"
| "line_loop (Delete line # es) ops off po pn start =
     line_loop es ops (u32 (off + u32 (blen line))) (po @ line) pn
       (if po = [] \<and> pn = [] then off else start)"
| "line_loop (Insert line # es) ops off po pn start =
     line_loop es ops off po (pn @ line) (if po = [] \<and> pn = [] then off else start)"

definition line_then_char_diff :: "rstr \<Rightarrow> rstr \<Rightarrow> patch_op list option" where
  "line_then_char_diff old_text new_text =
     do {
       line_edits \<leftarrow> myers_edits (lines_inclusive old_text) (lines_inclusive new_text);
       line_loop line_edits [] 0 [] [] 0
     }"

definition LINE_DIFF_THRESHOLD :: nat where
  "LINE_DIFF_THRESHOLD = 8000"

definition diff_to_patch_ops :: "rstr \<Rightarrow> rstr \<Rightarrow> patch_op list option" where
  "diff_to_patch_ops old_text new_text =
     (if old_text = new_text then Some []
      else if blen old_text + blen new_text < LINE_DIFF_THRESHOLD then
        map_option edits_to_patch_ops (myers_edits old_text new_text)
      else line_then_char_diff old_text new_text)"

section \<open>Applying a patch to a shared text\<close>

record 't ytext_ops =
  yt_insert :: "'t \<Rightarrow> nat \<Rightarrow> rstr \<Rightarrow> 't"
  yt_remove_range :: "'t \<Rightarrow> nat \<Rightarrow> nat \<Rightarrow> 't"
  yt_get_string :: "'t \<Rightarrow> rstr"

text \<open>
  The documented behaviour of \<open>yrs::Text\<close>, whose offsets count UTF-8 bytes: an insertion at
  the end of a prefix puts the chunk there, a removal that covers a piece takes it out.
\<close>

definition ytext_laws :: "('t, 'x) ytext_ops_scheme \<Rightarrow> bool" where
  "ytext_laws Y \<longleftrightarrow>
     (\<forall>t a b s. yt_get_string Y t = a @ b \<longrightarrow>
        yt_get_string Y (yt_insert Y t (blen a) s) = a @ s @ b) \<and>
     (\<forall>t a b c. yt_get_string Y t = a @ b @ c \<longrightarrow>
        yt_get_string Y (yt_remove_range Y t (blen a) (blen b)) = a @ c)"

definition shifted_index :: "nat \<Rightarrow> int \<Rightarrow> nat option" where
  "shifted_index index offset =
     (let i = int index + offset in if 0 \<le> i \<and> i < 2 ^ 32 then Some (nat i) else None)"

fun apply_ops_loop :: "('t, 'x) ytext_ops_scheme \<Rightarrow> patch_op list \<Rightarrow> int \<Rightarrow> 't \<Rightarrow> 't option" where
  "apply_ops_loop Y [] offset t = Some t"
| "apply_ops_loop Y (OpDelete index len # ops) offset t =
     do {
       target \<leftarrow> shifted_index index offset;
       apply_ops_loop Y ops (offset - int len) (yt_remove_range Y t target len)
     }"
| "apply_ops_loop Y (OpInsert index text # ops) offset t =
     do {
       target \<leftarrow> shifted_index index offset;
       apply_ops_loop Y ops (offset + int (u32 (blen text))) (yt_insert Y t target text)
     }"

definition apply_patch_ops_to_ytext :: "('t, 'x) ytext_ops_scheme \<Rightarrow> 't \<Rightarrow> patch_op list \<Rightarrow> 't option" where
  "apply_patch_ops_to_ytext Y t ops = (if ops = [] then Some t else apply_ops_loop Y ops 0 t)"

text \<open>\<open>apply_text_diff_to_ytext\<close>: the new shared text and the operations it returns.\<close>

definition apply_text_diff_to_ytext ::
  "('t, 'x) ytext_ops_scheme \<Rightarrow> 't \<Rightarrow> rstr \<Rightarrow> rstr \<Rightarrow> ('t \<times> patch_op list) option" where
  "apply_text_diff_to_ytext Y t old_text new_text =
     do {
       ops \<leftarrow> diff_to_patch_ops old_text new_text;
       t' \<leftarrow> apply_patch_ops_to_ytext Y t ops;
       Some (t', ops)
     }"

section \<open>What a list of operations means\<close>

text \<open>
  \<open>patches ops o n\<close>: the operations turn a text that starts with \<open>o\<close> into one that starts
  with \<open>n\<close>, and their offsets are those of the pieces of \<open>o\<close>.
\<close>

inductive patches :: "patch_op list \<Rightarrow> rstr \<Rightarrow> rstr \<Rightarrow> bool" where
  patches_nil: "patches [] [] []"
| patches_equal: "patches ops o' n \<Longrightarrow> patches ops (o' @ e) (n @ e)"
| patches_delete: "patches ops o' n \<Longrightarrow> patches (ops @ [OpDelete (blen o') (blen b)]) (o' @ b) n"
| patches_insert: "patches ops o' n \<Longrightarrow> patches (ops @ [OpInsert (blen o') s]) o' (n @ s)"

lemma patches_refl: "patches [] s s"
  using patches_equal [OF patches_nil, of s] by simp

text \<open>The last operation can be isolated: only equal text follows it.\<close>

lemma patches_last_delete:
  "patches ops' o' n \<Longrightarrow> ops' = ops @ [OpDelete i l] \<Longrightarrow>
   \<exists>o1 b e n1. patches ops o1 n1 \<and> i = blen o1 \<and> l = blen b \<and> o' = o1 @ b @ e \<and> n = n1 @ e"
proof (induction rule: patches.induct)
  case (patches_equal ops'' o' n e)
  then obtain o1 b e' n1 where "patches ops o1 n1" "i = blen o1" "l = blen b"
    "o' = o1 @ b @ e'" "n = n1 @ e'" by blast
  then show ?case by (metis append.assoc)
next
  case (patches_delete ops'' o' n b)
  then have "patches ops o' n" "i = blen o'" "l = blen b" by auto
  then show ?case by (metis append_Nil2)
qed auto

lemma patches_last_insert:
  "patches ops' o' n \<Longrightarrow> ops' = ops @ [OpInsert i s] \<Longrightarrow>
   \<exists>o1 e n1. patches ops o1 n1 \<and> i = blen o1 \<and> o' = o1 @ e \<and> n = n1 @ s @ e"
proof (induction rule: patches.induct)
  case (patches_equal ops'' o' n e)
  then obtain o1 e' n1 where "patches ops o1 n1" "i = blen o1" "o' = o1 @ e'" "n = n1 @ s @ e'"
    by blast
  then show ?case by (metis append.assoc)
next
  case (patches_insert ops'' o' n s')
  then have "patches ops o' n" "i = blen o'" "s' = s" by auto
  then show ?case by (metis append_Nil2)
qed auto

section \<open>The computed operations\<close>

lemma push_delete_patches:
  assumes "patches (rev ops) o' n" and "blen o' + len_utf8 ch < 2 ^ 32"
  shows "patches (rev (push_delete ops (blen o') (len_utf8 ch))) (o' @ [ch]) n"
proof (cases "\<exists>i l ops'. ops = OpDelete i l # ops' \<and> u32 (i + l) = blen o'")
  case False
  then have "push_delete ops (blen o') (len_utf8 ch) = OpDelete (blen o') (len_utf8 ch) # ops"
    by (cases "(ops, blen o', len_utf8 ch)" rule: push_delete.cases) auto
  then show ?thesis using patches_delete [OF assms(1), of "[ch]"] by simp
next
  case True
  then obtain i l ops' where ops: "ops = OpDelete i l # ops'" "u32 (i + l) = blen o'" by blast
  with patches_last_delete [of "rev ops" o' n "rev ops'" i l] assms(1) obtain o1 b e n1 where
    split: "patches (rev ops') o1 n1" "i = blen o1" "l = blen b" "o' = o1 @ b @ e" "n = n1 @ e"
    by auto
  then have "e = []" using ops(2) assms(2) by simp
  then show ?thesis
    using patches_delete [OF split(1), of "b @ [ch]"] split ops assms(2) by simp
qed

lemma push_insert_patches:
  assumes "patches (rev ops) o' n"
  shows "patches (rev (push_insert ops (blen o') ch)) o' (n @ [ch])"
proof (cases "\<exists>s ops'. ops = OpInsert (blen o') s # ops'")
  case False
  then have "push_insert ops (blen o') ch = OpInsert (blen o') [ch] # ops"
    by (cases "(ops, blen o', ch)" rule: push_insert.cases) auto
  then show ?thesis using patches_insert [OF assms, of "[ch]"] by simp
next
  case True
  then obtain s ops' where ops: "ops = OpInsert (blen o') s # ops'" by blast
  with patches_last_insert [of "rev ops" o' n "rev ops'" "blen o'" s] assms obtain o1 e n1 where
    split: "patches (rev ops') o1 n1" "blen o' = blen o1" "o' = o1 @ e" "n = n1 @ s @ e"
    by auto
  then have "e = []" by simp
  then show ?thesis
    using patches_insert [OF split(1), of "s @ [ch]"] split ops by simp
qed

lemma edits_to_ops_patches:
  assumes "patches (rev ops) o' n" and "blen (o' @ old_side es) < 2 ^ 32"
  shows "patches (edits_to_ops es ops (blen o')) (o' @ old_side es) (n @ new_side es)"
  using assms
proof (induction es arbitrary: ops o' n rule: old_side.induct)
  case 1
  then show ?case by simp
next
  case (2 ch es)
  then show ?case using "2.IH" [OF patches_equal [OF "2.prems"(1), of "[ch]"]] by simp
next
  case (3 ch es)
  then show ?case using "3.IH" [OF push_insert_patches [OF "3.prems"(1), of ch]] by simp
next
  case (4 ch es)
  then have "patches (rev (push_delete ops (blen o') (len_utf8 ch))) (o' @ [ch]) n"
    by (intro push_delete_patches) auto
  then show ?case using "4.IH" [of _ "o' @ [ch]" n] "4.prems" by simp
qed

lemma edits_to_patch_ops_patches:
  "blen (old_side es) < 2 ^ 32 \<Longrightarrow> patches (edits_to_patch_ops es) (old_side es) (new_side es)"
  using edits_to_ops_patches [of "[]" "[]" "[]" es] patches_nil by (simp add: edits_to_patch_ops_def)

lemma patches_shift:
  assumes "patches sub po pn" and "patches ops o' n" and "blen (o' @ po) < 2 ^ 32"
  shows "patches (ops @ map (shift_op (blen o')) sub) (o' @ po) (n @ pn)"
  using assms(1,3)
proof (induction rule: patches.induct)
  case patches_nil
  then show ?case using assms(2) by simp
next
  case (patches_equal sub po pn e)
  then show ?case using patches.patches_equal [of "ops @ map (shift_op (blen o')) sub" "o' @ po" "n @ pn" e] by simp
next
  case (patches_delete sub po pn b)
  then show ?case using patches.patches_delete [of "ops @ map (shift_op (blen o')) sub" "o' @ po" "n @ pn" b] by simp
next
  case (patches_insert sub po pn s)
  then show ?case using patches.patches_insert [of "ops @ map (shift_op (blen o')) sub" "o' @ po" "n @ pn" s] by simp
qed

text \<open>What the patch layer gets from a character diff, whatever its algorithm.\<close>

locale char_differ = differ diff for diff :: "rchar list \<Rightarrow> rchar list \<Rightarrow> rchar edit list option"
begin

lemma diff_patches:
  assumes "blen old < 2 ^ 32"
  shows "\<exists>es. diff old new = Some es \<and> patches (edits_to_patch_ops es) old new"
  using diff_sound [of old new] edits_to_patch_ops_patches assms by fastforce

end

interpretation char_myers: char_differ myers_edits
  by unfold_locales

lemma flush_patches:
  assumes "patches ops o' n" and "po = [] \<and> pn = [] \<or> start = blen o'" and "blen (o' @ po) < 2 ^ 32"
  shows "\<exists>ops'. flush ops po pn start = Some ops' \<and> patches ops' (o' @ po) (n @ pn)"
proof (cases "po = [] \<and> pn = []")
  case True
  then show ?thesis using assms(1) by (simp add: flush_def)
next
  case False
  obtain es where es: "myers_edits po pn = Some es" "patches (edits_to_patch_ops es) po pn"
    using char_myers.diff_patches [of po pn] assms(3) by auto
  from patches_shift [OF es(2) assms(1,3)] show ?thesis
    using False assms(2) es(1) by (auto simp: flush_def)
qed

lemma line_loop_patches:
  assumes "patches ops o' n" and "po = [] \<and> pn = [] \<or> start = blen o'" and "off = blen (o' @ po)"
    and "blen (o' @ po @ concat (old_side es)) < 2 ^ 32"
  shows "\<exists>ops'. line_loop es ops off po pn start = Some ops' \<and>
    patches ops' (o' @ po @ concat (old_side es)) (n @ pn @ concat (new_side es))"
  using assms
proof (induction es arbitrary: ops o' n po pn start off rule: old_side.induct)
  case 1
  then show ?case using flush_patches [OF "1.prems"(1,2)] by simp
next
  case (2 line es)
  then obtain ops1 where ops1: "flush ops po pn start = Some ops1" "patches ops1 (o' @ po) (n @ pn)"
    using flush_patches [OF "2.prems"(1,2)] by auto
  then show ?case
    using "2.IH" [OF patches_equal [OF ops1(2), of line], of "[]" "[]" "blen (o' @ po @ line)" "blen (o' @ po @ line)"]
      "2.prems" by (simp add: add.assoc)
next
  case (3 line es)
  have "(if po = [] \<and> pn = [] then off else start) = blen o'"
    using "3.prems"(2,3) by auto
  then show ?case
    using "3.IH" [OF "3.prems"(1), of po "pn @ line" "blen o'" off] "3.prems" by auto
next
  case (4 line es)
  have "(if po = [] \<and> pn = [] then off else start) = blen o'"
    using "4.prems"(2,3) by auto
  then show ?case
    using "4.IH" [OF "4.prems"(1), of "po @ line" pn "blen o'" "blen (o' @ po @ line)"] "4.prems"
    by (auto simp: add.assoc)
qed

lemma concat_lines_inclusive [simp]: "concat (lines_inclusive s) = s"
  by (simp add: lines_inclusive_def concat_split_inclusive)

text \<open>What it gets from a line diff.\<close>

locale line_differ = differ diff for diff :: "rstr list \<Rightarrow> rstr list \<Rightarrow> rstr edit list option"
begin

lemma diff_lines:
  "\<exists>es. diff (lines_inclusive s) (lines_inclusive t) = Some es \<and>
     concat (old_side es) = s \<and> concat (new_side es) = t"
  using diff_sound [of "lines_inclusive s" "lines_inclusive t"] by fastforce

end

interpretation line_myers: line_differ myers_edits
  by unfold_locales

lemma line_then_char_diff_patches:
  assumes "blen old_text < 2 ^ 32"
  shows "\<exists>ops. line_then_char_diff old_text new_text = Some ops \<and> patches ops old_text new_text"
proof -
  obtain es where es: "myers_edits (lines_inclusive old_text) (lines_inclusive new_text) = Some es"
    "concat (old_side es) = old_text" "concat (new_side es) = new_text"
    using line_myers.diff_lines by blast
  show ?thesis
    using line_loop_patches [OF patches_nil, of "[]" "[]" 0 0 es] assms
    by (simp add: line_then_char_diff_def es)
qed

lemma diff_to_patch_ops_patches:
  assumes "blen old_text < 2 ^ 32"
  shows "\<exists>ops. diff_to_patch_ops old_text new_text = Some ops \<and> patches ops old_text new_text"
  using patches_refl char_myers.diff_patches [OF assms, of new_text] line_then_char_diff_patches [OF assms]
  by (auto simp: diff_to_patch_ops_def)

section \<open>Applying them\<close>

lemma apply_ops_patches:
  assumes laws: "ytext_laws Y" and "patches ops o' n" and "blen n < 2 ^ 32"
    and "yt_get_string Y t = o' @ c"
  shows "\<exists>t'. yt_get_string Y t' = n @ c \<and>
    (\<forall>rest. apply_ops_loop Y (ops @ rest) 0 t = apply_ops_loop Y rest (int (blen n) - int (blen o')) t')"
  using assms(2-)
proof (induction arbitrary: c rule: patches.induct)
  case patches_nil
  then show ?case by auto
next
  case (patches_equal ops o' n e)
  then show ?case using patches_equal.IH [of "e @ c"] by simp
next
  case (patches_delete ops o' n b)
  then obtain t1 where t1: "yt_get_string Y t1 = n @ b @ c"
    "\<And>rest. apply_ops_loop Y (ops @ rest) 0 t = apply_ops_loop Y rest (int (blen n) - int (blen o')) t1"
    using patches_delete.IH [of "b @ c"] by auto
  have "yt_get_string Y (yt_remove_range Y t1 (blen n) (blen b)) = n @ c"
    using laws t1(1) unfolding ytext_laws_def by blast
  then show ?case using t1(2) patches_delete.prems(1) by (auto simp: shifted_index_def algebra_simps)
next
  case (patches_insert ops o' n s)
  then obtain t1 where t1: "yt_get_string Y t1 = n @ c"
    "\<And>rest. apply_ops_loop Y (ops @ rest) 0 t = apply_ops_loop Y rest (int (blen n) - int (blen o')) t1"
    using patches_insert.IH [of c] by auto
  have "yt_get_string Y (yt_insert Y t1 (blen n) s) = n @ s @ c"
    using laws t1(1) unfolding ytext_laws_def by blast
  then show ?case using t1(2) patches_insert.prems(1) by (auto simp: shifted_index_def algebra_simps)
qed

lemma apply_patch_ops_patches:
  assumes "ytext_laws Y" and "patches ops old_text new_text" and "blen new_text < 2 ^ 32"
    and "yt_get_string Y t = old_text"
  shows "\<exists>t'. apply_patch_ops_to_ytext Y t ops = Some t' \<and> yt_get_string Y t' = new_text"
proof -
  from apply_ops_patches [OF assms(1-3), of t "[]"] assms(4) obtain t' where
    t': "yt_get_string Y t' = new_text"
    "\<And>rest. apply_ops_loop Y (ops @ rest) 0 t =
       apply_ops_loop Y rest (int (blen new_text) - int (blen old_text)) t'" by auto
  from t'(2) [of "[]"] have "apply_ops_loop Y ops 0 t = Some t'" by simp
  then show ?thesis using t'(1) by (auto simp: apply_patch_ops_to_ytext_def)
qed

section \<open>A plain text as shared text\<close>

text \<open>A single-replica instance of the shared text: the text itself, cut at byte offsets.\<close>

fun byte_take :: "nat \<Rightarrow> rstr \<Rightarrow> rstr" where
  "byte_take n [] = []"
| "byte_take n (c # cs) = (if len_utf8 c \<le> n then c # byte_take (n - len_utf8 c) cs else [])"

fun byte_drop :: "nat \<Rightarrow> rstr \<Rightarrow> rstr" where
  "byte_drop n [] = []"
| "byte_drop n (c # cs) = (if len_utf8 c \<le> n then byte_drop (n - len_utf8 c) cs else c # cs)"

lemma byte_take_0 [simp]: "byte_take 0 s = []"
  by (cases s) (auto simp: leD)

lemma byte_drop_0 [simp]: "byte_drop 0 s = s"
  by (cases s) (auto simp: leD)

lemma byte_take_blen [simp]: "byte_take (blen a) (a @ b) = a"
  by (induction a) auto

lemma byte_drop_blen [simp]: "byte_drop (blen a) (a @ b) = b"
  by (induction a) auto

definition plain_ytext :: "rstr ytext_ops" where
  "plain_ytext = \<lparr>yt_insert = (\<lambda>t i s. byte_take i t @ s @ byte_drop i t),
     yt_remove_range = (\<lambda>t i l. byte_take i t @ byte_drop l (byte_drop i t)),
     yt_get_string = (\<lambda>t. t)\<rparr>"

lemma plain_ytext_laws: "ytext_laws plain_ytext"
  by (auto simp: ytext_laws_def plain_ytext_def)

section \<open>Properties\<close>

text \<open>
  (C1) Applying the diff of two texts to a shared text that reads as the old text never
  panics and leaves the shared text reading as the new text, for both the character path
  and the line path, as long as both texts are shorter than 4 GiB.
\<close>

theorem apply_text_diff_correct:
  assumes "ytext_laws Y" and "yt_get_string Y t = old_text"
    and "blen old_text < 2 ^ 32" and "blen new_text < 2 ^ 32"
  shows "\<exists>t' ops. apply_text_diff_to_ytext Y t old_text new_text = Some (t', ops) \<and>
    yt_get_string Y t' = new_text"
proof -
  obtain ops where ops: "diff_to_patch_ops old_text new_text = Some ops" "patches ops old_text new_text"
    using diff_to_patch_ops_patches [OF assms(3)] by blast
  from apply_patch_ops_patches [OF assms(1) ops(2) assms(4,2)] ops(1) show ?thesis
    by (auto simp: apply_text_diff_to_ytext_def)
qed

theorem apply_text_diff_correct_witness:
  "\<exists>t' ops. apply_text_diff_to_ytext plain_ytext (lit ''abc'') (lit ''abc'') (lit ''xbd'') = Some (t', ops) \<and>
    yt_get_string plain_ytext t' = lit ''xbd''"
proof (rule apply_text_diff_correct)
  show "ytext_laws plain_ytext" by (rule plain_ytext_laws)
  show "yt_get_string plain_ytext (lit ''abc'') = lit ''abc''" by (simp add: plain_ytext_def)
  show "blen (lit ''abc'') < 2 ^ 32" by (simp add: lit_def len_utf8_def)
  show "blen (lit ''xbd'') < 2 ^ 32" by (simp add: lit_def len_utf8_def)
qed

text \<open>
  (C2) The character diff of any two texts returns (its array accesses are in range and the
  search finds the end point), its edits consume exactly the old text and produce exactly the
  new one, and no edit script between the two texts has fewer insertions and deletions.
\<close>

theorem myers_edits_shortest:
  "\<exists>es. myers_edits old new = Some es \<and> old_side es = old \<and> new_side es = new \<and>
     (\<nexists>fs. old_side fs = old \<and> new_side fs = new \<and> cost fs < cost es)"
  using myers_edits_sound [of old new] by (auto simp: not_less)

end
