(* ===== verification/Bytes.thy ===== *)
theory Bytes
  imports RustText
begin

text \<open>
  Byte strings: little-endian integers (\<open>to_le_bytes\<close>, \<open>from_le_bytes\<close>), UTF-8 as
  \<open>String::as_bytes\<close> and \<open>String::from_utf8\<close> have it (overlong forms, surrogates and
  values past U+10FFFF are refused), and the laws by which the file formats use them.
\<close>

section \<open>Little-endian integers\<close>

fun le_bytes :: "nat \<Rightarrow> nat \<Rightarrow> byte list" where
  "le_bytes 0 v = []"
| "le_bytes (Suc n) v = of_nat (v mod 256) # le_bytes n (v div 256)"

fun le_nat :: "byte list \<Rightarrow> nat" where
  "le_nat [] = 0"
| "le_nat (b # bs) = unat b + 256 * le_nat bs"

lemma unat_of_nat_byte: "unat (of_nat n :: byte) = n mod 256"
  by (simp add: unat_of_nat)

lemma unat_byte_less [simp]: "unat (b :: byte) < 256"
  using unsigned_less [of b] by simp

lemma length_le_bytes [simp]: "length (le_bytes n v) = n"
  by (induction n arbitrary: v) auto

lemma le_nat_le_bytes_mod: "le_nat (le_bytes n v) = v mod 256 ^ n"
proof (induction n arbitrary: v)
  case (Suc n)
  have "v mod (256 * 256 ^ n) = 256 * (v div 256 mod 256 ^ n) + v mod 256"
    by (rule mod_mult2_eq)
  then show ?case by (simp add: Suc unat_of_nat_byte)
qed simp

lemma le_nat_le_bytes [simp]: "v < 256 ^ n \<Longrightarrow> le_nat (le_bytes n v) = v"
  by (simp add: le_nat_le_bytes_mod)

lemma le_bytes_le_nat: "length bs = n \<Longrightarrow> le_bytes n (le_nat bs) = bs"
proof (induction bs arbitrary: n)
  case (Cons b bs)
  have "(unat b + 256 * le_nat bs) mod 256 = unat b"
    by (simp add: mod_less)
  moreover have "(unat b + 256 * le_nat bs) div 256 = le_nat bs"
    by simp
  ultimately show ?case using Cons by (cases n) auto
qed simp

lemma le_nat_less: "le_nat bs < 256 ^ length bs"
proof (induction bs)
  case (Cons b bs)
  have "unat b + 256 * le_nat bs < 256 + 256 * le_nat bs" by simp
  also have "\<dots> \<le> 256 * 256 ^ length bs" using Cons by simp
  finally show ?case by simp
qed simp

text \<open>\<open>i64::to_le_bytes\<close> and \<open>i64::from_le_bytes\<close>: two's complement.\<close>

definition i64_to_le :: "int \<Rightarrow> byte list" where
  "i64_to_le x = le_bytes 8 (nat (x mod 2 ^ 64))"

definition i64_from_le :: "byte list \<Rightarrow> int" where
  "i64_from_le bs = (let v = int (le_nat bs) in if v < 2 ^ 63 then v else v - 2 ^ 64)"

lemma length_i64_to_le [simp]: "length (i64_to_le x) = 8"
  by (simp add: i64_to_le_def)

lemma i64_from_to_le:
  assumes "i64_min \<le> x" "x \<le> i64_max"
  shows "i64_from_le (i64_to_le x) = x"
proof -
  have r: "nat (x mod 2 ^ 64) < 256 ^ 8" by (simp add: nat_less_iff)
  then have v: "int (le_nat (i64_to_le x)) = x mod 2 ^ 64"
    by (simp add: i64_to_le_def)
  show ?thesis
  proof (cases "0 \<le> x")
    case True
    then have "x mod 2 ^ 64 = x" using assms by (simp add: i64_max_def)
    then show ?thesis using True assms v by (simp add: i64_from_le_def i64_max_def)
  next
    case False
    then have "(x + 2 ^ 64) mod 2 ^ 64 = x + 2 ^ 64"
      using assms by (intro mod_pos_pos_trivial) (auto simp: i64_min_def)
    then have "x mod 2 ^ 64 = x + 2 ^ 64" by simp
    then show ?thesis using False assms v by (simp add: i64_from_le_def i64_min_def)
  qed
qed

section \<open>UTF-8\<close>

definition scalar :: "nat \<Rightarrow> bool" where
  "scalar c \<longleftrightarrow> c < 55296 \<or> (57344 \<le> c \<and> c < 1114112)"

definition text_ok :: "rstr \<Rightarrow> bool" where
  "text_ok s \<longleftrightarrow> list_all scalar s"

definition utf8_char :: "rchar \<Rightarrow> byte list" where
  "utf8_char c =
     (if c < 128 then [of_nat c]
      else if c < 2048 then [of_nat (192 + c div 64), of_nat (128 + c mod 64)]
      else if c < 65536 then
        [of_nat (224 + c div 4096), of_nat (128 + c div 64 mod 64), of_nat (128 + c mod 64)]
      else [of_nat (240 + c div 262144), of_nat (128 + c div 4096 mod 64),
            of_nat (128 + c div 64 mod 64), of_nat (128 + c mod 64)])"

definition as_bytes :: "rstr \<Rightarrow> byte list" where
  "as_bytes s = concat (map utf8_char s)"

definition cont :: "byte \<Rightarrow> bool" where
  "cont b \<longleftrightarrow> 128 \<le> unat b \<and> unat b < 192"

text \<open>One step of the validator: the first scalar and how many bytes it takes.\<close>

definition utf8_head :: "byte list \<Rightarrow> (rchar \<times> nat) option" where
  "utf8_head bs =
    (case bs of
       [] \<Rightarrow> None
     | b # r \<Rightarrow>
         let n = unat b in
         if n < 128 then Some (n, 1)
         else if 194 \<le> n \<and> n < 224 then
           (case r of
              b1 # _ \<Rightarrow> if cont b1 then Some ((n - 192) * 64 + (unat b1 - 128), 2) else None
            | _ \<Rightarrow> None)
         else if 224 \<le> n \<and> n < 240 then
           (case r of
              b1 # b2 # _ \<Rightarrow>
                let c = (n - 224) * 4096 + (unat b1 - 128) * 64 + (unat b2 - 128) in
                if cont b1 \<and> cont b2 \<and> 2048 \<le> c \<and> scalar c then Some (c, 3) else None
            | _ \<Rightarrow> None)
         else if 240 \<le> n \<and> n < 245 then
           (case r of
              b1 # b2 # b3 # _ \<Rightarrow>
                let c = (n - 240) * 262144 + (unat b1 - 128) * 4096 + (unat b2 - 128) * 64 + (unat b3 - 128) in
                if cont b1 \<and> cont b2 \<and> cont b3 \<and> 65536 \<le> c \<and> scalar c then Some (c, 4) else None
            | _ \<Rightarrow> None)
         else None)"

lemma utf8_head_size: "utf8_head bs = Some (c, n) \<Longrightarrow> 0 < n"
  by (auto simp: utf8_head_def Let_def split: list.splits if_splits)

function from_utf8 :: "byte list \<Rightarrow> rstr option" where
  "from_utf8 bs =
    (if bs = [] then Some []
     else case utf8_head bs of
            None \<Rightarrow> None
          | Some (c, n) \<Rightarrow>
              (case from_utf8 (drop n bs) of None \<Rightarrow> None | Some s \<Rightarrow> Some (c # s)))"
  by auto
termination by (relation "measure length") (auto dest: utf8_head_size)

declare from_utf8.simps [simp del]

lemma from_utf8_Nil [simp]: "from_utf8 [] = Some []"
  by (simp add: from_utf8.simps)

lemma utf8_char_ne [simp]: "utf8_char c \<noteq> []"
  by (simp add: utf8_char_def)

lemma length_utf8_char [simp]: "length (utf8_char c) = len_utf8 c"
  by (simp add: utf8_char_def len_utf8_def)

lemma length_as_bytes [simp]: "length (as_bytes s) = blen s"
  by (induction s) (auto simp: as_bytes_def)

lemma as_bytes_Nil [simp]: "as_bytes [] = []"
  by (simp add: as_bytes_def)

lemma as_bytes_Cons [simp]: "as_bytes (c # s) = utf8_char c @ as_bytes s"
  by (simp add: as_bytes_def)

lemma digits2: "(c :: nat) div 64 * 64 + c mod 64 = c"
  by simp

lemma digits3: "(c :: nat) div 4096 * 4096 + c div 64 mod 64 * 64 + c mod 64 = c"
proof -
  have "c div 4096 = c div 64 div 64" by (simp flip: div_mult2_eq)
  then show ?thesis using digits2 [of c] digits2 [of "c div 64"] by linarith
qed

lemma digits4:
  "(c :: nat) div 262144 * 262144 + c div 4096 mod 64 * 4096 + c div 64 mod 64 * 64 + c mod 64 = c"
proof -
  have "c div 262144 = c div 4096 div 64" by (simp flip: div_mult2_eq)
  then show ?thesis using digits3 [of c] digits2 [of "c div 4096"] by linarith
qed

lemma cont_digit [simp]: "cont (of_nat (128 + d mod 64))"
proof -
  have "d mod 64 < 64" by simp
  then show ?thesis by (simp add: cont_def unat_of_nat_byte del: of_nat_add)
qed

lemma unat_digit [simp]: "unat (of_nat (128 + d mod 64) :: byte) = 128 + d mod 64"
proof -
  have "d mod 64 < 64" by simp
  then show ?thesis by (simp add: unat_of_nat_byte del: of_nat_add)
qed

lemma unat_lead: "l < 256 \<Longrightarrow> unat (of_nat l :: byte) = l"
  by (simp add: unat_of_nat_byte)

lemma utf8_head_char:
  assumes "scalar c"
  shows "utf8_head (utf8_char c @ r) = Some (c, len_utf8 c)"
proof -
  have c: "c < 1114112" using assms by (auto simp: scalar_def)
  consider "c < 128" | "128 \<le> c" "c < 2048" | "2048 \<le> c" "c < 65536" | "65536 \<le> c"
    by linarith
  then show ?thesis
  proof cases
    case 1
    then have u: "unat (of_nat c :: byte) = c" by (intro unat_lead) simp
    show ?thesis using 1 u by (simp add: utf8_head_def utf8_char_def len_utf8_def)
  next
    case 2
    then have l: "2 \<le> c div 64 \<and> c div 64 < 32" using c by auto
    then have u: "unat (of_nat (192 + c div 64) :: byte) = 192 + c div 64"
      by (intro unat_lead) simp
    have e: "utf8_char c = [of_nat (192 + c div 64), of_nat (128 + c mod 64)]" "len_utf8 c = 2"
      using 2 by (simp_all add: utf8_char_def len_utf8_def del: of_nat_add)
    show ?thesis unfolding e utf8_head_def
      using 2 l u digits2 [of c] assms by (simp add: Let_def del: of_nat_add)
  next
    case 3
    then have l: "c div 4096 < 16" using c by auto
    then have u: "unat (of_nat (224 + c div 4096) :: byte) = 224 + c div 4096"
      by (intro unat_lead) simp
    have e: "utf8_char c = [of_nat (224 + c div 4096), of_nat (128 + c div 64 mod 64), of_nat (128 + c mod 64)]" "len_utf8 c = 3"
      using 3 by (simp_all add: utf8_char_def len_utf8_def del: of_nat_add)
    show ?thesis unfolding e utf8_head_def
      using 3 l u digits3 [of c] assms by (simp add: Let_def del: of_nat_add)
  next
    case 4
    then have l: "c div 262144 < 5" using c by auto
    then have u: "unat (of_nat (240 + c div 262144) :: byte) = 240 + c div 262144"
      by (intro unat_lead) simp
    have e: "utf8_char c = [of_nat (240 + c div 262144), of_nat (128 + c div 4096 mod 64),
        of_nat (128 + c div 64 mod 64), of_nat (128 + c mod 64)]" "len_utf8 c = 4"
      using 4 by (simp_all add: utf8_char_def len_utf8_def del: of_nat_add)
    show ?thesis unfolding e utf8_head_def
      using 4 l u digits4 [of c] assms by (simp add: Let_def del: of_nat_add)
  qed
qed

lemma from_utf8_char:
  "scalar c \<Longrightarrow> from_utf8 (utf8_char c @ r) =
     (case from_utf8 r of None \<Rightarrow> None | Some s \<Rightarrow> Some (c # s))"
  by (subst from_utf8.simps) (simp add: utf8_head_char)

lemma from_utf8_as_bytes: "text_ok s \<Longrightarrow> from_utf8 (as_bytes s) = Some s"
  by (induction s) (auto simp: text_ok_def from_utf8_char)

lemma text_ok_append [simp]: "text_ok (s @ t) \<longleftrightarrow> text_ok s \<and> text_ok t"
  by (simp add: text_ok_def)

text \<open>What the validator accepts is well-formed text again.\<close>

lemma utf8_head_scalar: "utf8_head bs = Some (c, n) \<Longrightarrow> scalar c"
proof -
  have two: "(n - 192) * 64 + (unat b - 128) < 2048" if "n < 224" "cont b" for n and b :: byte
    using that by (auto simp: cont_def)
  assume "utf8_head bs = Some (c, n)"
  then show ?thesis
    by (auto simp: utf8_head_def Let_def scalar_def split: list.splits if_splits dest: two)
qed

lemma from_utf8_text_ok: "from_utf8 bs = Some s \<Longrightarrow> text_ok s"
proof (induction bs arbitrary: s rule: from_utf8.induct)
  case (1 bs)
  show ?case
    using "1.prems" "1.IH" utf8_head_scalar [of bs]
    by (subst (asm) from_utf8.simps) (fastforce simp: text_ok_def split: if_splits option.splits)
qed

text \<open>UTF-8 has one encoding per text, so decoding and encoding again gives the same bytes.\<close>

lemma of_nat_unat_byte: "n = unat (b :: byte) \<Longrightarrow> of_nat n = b"
  by simp

lemma undigits2: "(x :: nat) < 64 \<Longrightarrow> c = a * 64 + x \<Longrightarrow> c div 64 = a \<and> c mod 64 = x"
  by auto

lemma undigits3:
  assumes "(x :: nat) < 64" "y < 64" "c = a * 4096 + x * 64 + y"
  shows "c div 4096 = a \<and> c div 64 mod 64 = x \<and> c mod 64 = y"
proof -
  have "c div 64 = a * 64 + x \<and> c mod 64 = y"
    using assms by (intro undigits2) auto
  moreover from this have "c div 64 div 64 = a \<and> c div 64 mod 64 = x"
    using assms by (intro undigits2) auto
  moreover have "c div 4096 = c div 64 div 64" by (simp flip: div_mult2_eq)
  ultimately show ?thesis by metis
qed

lemma undigits4:
  assumes "(x :: nat) < 64" "y < 64" "z < 64" "c = a * 262144 + x * 4096 + y * 64 + z"
  shows "c div 262144 = a \<and> c div 4096 mod 64 = x \<and> c div 64 mod 64 = y \<and> c mod 64 = z"
proof -
  have "c div 4096 = a * 64 + x \<and> c div 64 mod 64 = y \<and> c mod 64 = z"
    using assms by (intro undigits3) auto
  moreover from this have "c div 4096 div 64 = a \<and> c div 4096 mod 64 = x"
    using assms by (intro undigits2) auto
  moreover have "c div 262144 = c div 4096 div 64" by (simp flip: div_mult2_eq)
  ultimately show ?thesis by metis
qed

lemma utf8_char_head:
  assumes "utf8_head bs = Some (c, n)"
  shows "utf8_char c = take n bs"
proof -
  obtain b r where bs: "bs = b # r" using assms by (cases bs) (auto simp: utf8_head_def)
  let ?u = "\<lambda>b. unat b - 128"
  have lo: "?u x < 64" "128 + ?u x = unat x" if "cont x" for x :: byte
    using that by (auto simp: cont_def)
  consider
    (1) "c = unat b" "n = 1" "c < 128"
  | (2) b1 r' where "r = b1 # r'" "n = 2" "cont b1" "194 \<le> unat b" "unat b < 224"
      "c = (unat b - 192) * 64 + ?u b1"
  | (3) b1 b2 r' where "r = b1 # b2 # r'" "n = 3" "cont b1" "cont b2" "224 \<le> unat b" "unat b < 240"
      "c = (unat b - 224) * 4096 + ?u b1 * 64 + ?u b2" "2048 \<le> c"
  | (4) b1 b2 b3 r' where "r = b1 # b2 # b3 # r'" "n = 4" "cont b1" "cont b2" "cont b3"
      "240 \<le> unat b" "unat b < 245"
      "c = (unat b - 240) * 262144 + ?u b1 * 4096 + ?u b2 * 64 + ?u b3" "65536 \<le> c"
    using assms unfolding bs
    by (auto simp: utf8_head_def Let_def split: list.splits if_splits)
  then show ?thesis
  proof cases
    case 1
    then show ?thesis by (simp add: utf8_char_def bs)
  next
    case 2
    have "c div 64 = unat b - 192" "c mod 64 = ?u b1" "128 \<le> c" "c < 2048"
      using 2 lo [of b1] undigits2 [of "?u b1" c "unat b - 192"]
      by (blast, blast, linarith, linarith)
    then have "192 + c div 64 = unat b" "128 + c mod 64 = unat b1"
      using 2(3-5) lo [of b1] by linarith+
    then show ?thesis using 2(1,2) \<open>128 \<le> c\<close> \<open>c < 2048\<close>
      by (simp add: utf8_char_def bs of_nat_unat_byte del: of_nat_add)
  next
    case 3
    have "c div 4096 = unat b - 224" "c div 64 mod 64 = ?u b1" "c mod 64 = ?u b2" "c < 65536"
      using 3 lo [of b1] lo [of b2] undigits3 [of "?u b1" "?u b2" c "unat b - 224"]
      by (blast, blast, blast, linarith)
    then have "224 + c div 4096 = unat b" "128 + c div 64 mod 64 = unat b1" "128 + c mod 64 = unat b2"
      using 3(3-6) lo [of b1] lo [of b2] by linarith+
    then show ?thesis using 3(1,2) \<open>2048 \<le> c\<close> \<open>c < 65536\<close>
      by (simp add: utf8_char_def bs of_nat_unat_byte del: of_nat_add)
  next
    case 4
    have d: "c div 262144 = unat b - 240" "c div 4096 mod 64 = ?u b1" "c div 64 mod 64 = ?u b2"
      "c mod 64 = ?u b3"
      using 4 lo [of b1] lo [of b2] lo [of b3]
        undigits4 [of "?u b1" "?u b2" "?u b3" c "unat b - 240"]
      by blast+
    have "240 + c div 262144 = unat b" using d(1) 4(6) by simp
    moreover have "128 + c div 4096 mod 64 = unat b1" using d(2) lo(2) [OF 4(3)] by simp
    moreover have "128 + c div 64 mod 64 = unat b2" using d(3) lo(2) [OF 4(4)] by simp
    moreover have "128 + c mod 64 = unat b3" using d(4) lo(2) [OF 4(5)] by simp
    ultimately have e: "240 + c div 262144 = unat b" "128 + c div 4096 mod 64 = unat b1"
      "128 + c div 64 mod 64 = unat b2" "128 + c mod 64 = unat b3" by simp_all
    note of_nat_unat_byte [OF e(1)] of_nat_unat_byte [OF e(2)]
      of_nat_unat_byte [OF e(3)] of_nat_unat_byte [OF e(4)]
    moreover have "\<not> c < 128" "\<not> c < 2048" "\<not> c < 65536" using \<open>65536 \<le> c\<close> by linarith+
    ultimately have "utf8_char c = [b, b1, b2, b3]" unfolding utf8_char_def by (simp only: if_False)
    then show ?thesis using 4(1,2) by (simp add: bs)
  qed
qed

lemma as_bytes_from_utf8: "from_utf8 bs = Some s \<Longrightarrow> as_bytes s = bs"
proof (induction bs arbitrary: s rule: from_utf8.induct)
  case (1 bs)
  show ?case
  proof (cases "bs = []")
    case False
    then obtain c n t where h: "utf8_head bs = Some (c, n)" "from_utf8 (drop n bs) = Some t" "s = c # t"
      using "1.prems" by (subst (asm) from_utf8.simps) (auto split: option.splits)
    then have "as_bytes t = drop n bs" using "1.IH" [OF False h(1) refl] by simp
    then show ?thesis using h utf8_char_head [OF h(1)] by simp
  qed (use "1.prems" in simp)
qed

interpretation utf8: codec_pair as_bytes from_utf8 text_ok
  by unfold_locales (rule from_utf8_as_bytes)

end
