(* ===== verification/Origin.thy ===== *)
theory Origin
  imports Bytes
begin

text \<open>
  \<open>common/src/crdt/origin.rs\<close>: the attribution tag of a CRDT transaction and its compact
  binary form. The clock library is a parameter: \<open>timestamp_millis\<close> and the partial
  \<open>timestamp_millis_opt\<close> of \<open>chrono\<close>.
\<close>

section \<open>The clock library\<close>

record chrono =
  timestamp_millis :: "timestamp \<Rightarrow> int"
  timestamp_millis_opt :: "int \<Rightarrow> timestamp option"

text \<open>
  Its documented behaviour: milliseconds since the epoch fit an \<open>i64\<close> for every instant the
  library represents, the instant built from a millisecond count has that count, and the
  count of an instant yields that instant with its sub-millisecond part cut off.
\<close>

definition ms_floor :: "timestamp \<Rightarrow> timestamp" where
  "ms_floor t = t div 1000000 * 1000000"

definition chrono_laws :: "chrono \<Rightarrow> (timestamp \<Rightarrow> bool) \<Rightarrow> bool" where
  "chrono_laws c representable \<longleftrightarrow>
     (\<forall>t. representable t \<longrightarrow>
        i64_min \<le> timestamp_millis c t \<and> timestamp_millis c t \<le> i64_max \<and>
        timestamp_millis_opt c (timestamp_millis c t) = Some (ms_floor t)) \<and>
     (\<forall>m t. timestamp_millis_opt c m = Some t \<longrightarrow> timestamp_millis c t = m)"

section \<open>Data\<close>

datatype author_type = Human | Agent

record origin_tag =
  author_id :: rstr
  author_type :: author_type
  tag_timestamp :: timestamp

datatype codec_error =
    AuthorIdTooLong nat nat
  | PayloadTooShort nat nat
  | LengthMismatch nat nat
  | InvalidAuthorType byte
  | InvalidUtf8AuthorId
  | InvalidTimestampMillis int

definition MAX_AUTHOR_ID_LEN :: nat where
  "MAX_AUTHOR_ID_LEN = 255"

definition ORIGIN_TAG_FIXED_BYTES :: nat where
  "ORIGIN_TAG_FIXED_BYTES = 10"

section \<open>Encoding and decoding\<close>

fun type_to_byte :: "author_type \<Rightarrow> byte" where
  "type_to_byte Human = 0"
| "type_to_byte Agent = 1"

definition type_from_byte :: "byte \<Rightarrow> (codec_error, author_type) result" where
  "type_from_byte v =
     (if v = 0 then Okay Human else if v = 1 then Okay Agent else Err (InvalidAuthorType v))"

definition origin_to_bytes :: "chrono \<Rightarrow> origin_tag \<Rightarrow> (codec_error, byte list) result" where
  "origin_to_bytes c tag =
     (let author_bytes = as_bytes (author_id tag) in
      if length author_bytes > MAX_AUTHOR_ID_LEN
      then Err (AuthorIdTooLong (length author_bytes) MAX_AUTHOR_ID_LEN)
      else Okay ([type_to_byte (author_type tag)] @ [of_nat (length author_bytes)] @ author_bytes @
                 i64_to_le (timestamp_millis c (tag_timestamp tag))))"

definition origin_from_bytes :: "chrono \<Rightarrow> byte list \<Rightarrow> (codec_error, origin_tag) result" where
  "origin_from_bytes c bytes =
     (if length bytes < ORIGIN_TAG_FIXED_BYTES
      then Err (PayloadTooShort ORIGIN_TAG_FIXED_BYTES (length bytes))
      else case type_from_byte (bytes ! 0) of
        Inl e \<Rightarrow> Err e
      | Inr at \<Rightarrow>
          let author_len = unat (bytes ! 1);
              expected_len = ORIGIN_TAG_FIXED_BYTES + author_len
          in if length bytes \<noteq> expected_len
             then Err (LengthMismatch expected_len (length bytes))
             else let author_start = 2; author_end = author_start + author_len in
               case from_utf8 (take author_len (drop author_start bytes)) of
                 None \<Rightarrow> Err InvalidUtf8AuthorId
               | Some who \<Rightarrow>
                   let millis = i64_from_le (take 8 (drop author_end bytes)) in
                   case timestamp_millis_opt c millis of
                     None \<Rightarrow> Err (InvalidTimestampMillis millis)
                   | Some t \<Rightarrow> Okay \<lparr>author_id = who, author_type = at, tag_timestamp = t\<rparr>)"

section \<open>Round trips\<close>

definition tag_ok :: "(timestamp \<Rightarrow> bool) \<Rightarrow> origin_tag \<Rightarrow> bool" where
  "tag_ok representable tag \<longleftrightarrow>
     text_ok (author_id tag) \<and> blen (author_id tag) \<le> MAX_AUTHOR_ID_LEN \<and>
     representable (tag_timestamp tag)"

lemma type_from_to_byte [simp]: "type_from_byte (type_to_byte a) = Okay a"
  by (cases a) (auto simp: type_from_byte_def)

lemma type_to_from_byte: "type_from_byte b = Okay a \<Longrightarrow> type_to_byte a = b"
  by (auto simp: type_from_byte_def split: if_splits)

lemma origin_to_bytes_ok:
  "blen (author_id tag) \<le> MAX_AUTHOR_ID_LEN \<Longrightarrow>
   origin_to_bytes c tag =
     Okay (type_to_byte (author_type tag) # of_nat (blen (author_id tag)) #
           as_bytes (author_id tag) @ i64_to_le (timestamp_millis c (tag_timestamp tag)))"
  by (simp add: origin_to_bytes_def)

lemma i64_to_from_le:
  assumes "length bs = 8"
  shows "i64_to_le (i64_from_le bs) = bs"
proof -
  have v: "int (le_nat bs) < 2 ^ 64" using le_nat_less [of bs] assms by simp
  have "i64_from_le bs mod 2 ^ 64 = int (le_nat bs)"
  proof (cases "int (le_nat bs) < 2 ^ 63")
    case True
    then show ?thesis by (simp add: i64_from_le_def)
  next
    case False
    then have "i64_from_le bs mod 2 ^ 64 = (i64_from_le bs + 2 ^ 64) mod 2 ^ 64" by simp
    also have "\<dots> = int (le_nat bs)" using False v by (simp add: i64_from_le_def)
    finally show ?thesis .
  qed
  then show ?thesis using assms by (simp add: i64_to_le_def le_bytes_le_nat)
qed

lemma origin_decode_encoded:
  assumes "chrono_laws c representable" and "tag_ok representable tag"
  shows "origin_from_bytes c
           (type_to_byte (author_type tag) # of_nat (blen (author_id tag)) #
            as_bytes (author_id tag) @ i64_to_le (timestamp_millis c (tag_timestamp tag))) =
         Okay (tag\<lparr>tag_timestamp := ms_floor (tag_timestamp tag)\<rparr>)"
proof -
  let ?m = "timestamp_millis c (tag_timestamp tag)" and ?a = "as_bytes (author_id tag)"
  have l: "blen (author_id tag) \<le> 255" and u: "from_utf8 ?a = Some (author_id tag)"
    using assms(2) by (auto simp: tag_ok_def MAX_AUTHOR_ID_LEN_def from_utf8_as_bytes)
  then have n: "unat (of_nat (blen (author_id tag)) :: byte) = blen (author_id tag)"
    by (intro unat_lead) simp
  have m: "i64_from_le (i64_to_le ?m) = ?m" "timestamp_millis_opt c ?m = Some (ms_floor (tag_timestamp tag))"
    using assms by (auto simp: chrono_laws_def tag_ok_def i64_from_to_le)
  show ?thesis
    by (simp add: origin_from_bytes_def Let_def n u m ORIGIN_TAG_FIXED_BYTES_def)
qed

text \<open>
  An origin tag whose author id is well-formed text of at most 255 bytes and whose
  instant the clock library represents is encoded without an error, and decoding the bytes
  gives back the same author and type with the instant cut to the millisecond.
\<close>

theorem origin_round_trip:
  assumes "chrono_laws c representable" and "tag_ok representable tag"
  shows "\<exists>bytes. origin_to_bytes c tag = Okay bytes \<and>
           length bytes = ORIGIN_TAG_FIXED_BYTES + blen (author_id tag) \<and>
           origin_from_bytes c bytes = Okay (tag\<lparr>tag_timestamp := ms_floor (tag_timestamp tag)\<rparr>)"
proof -
  have "blen (author_id tag) \<le> MAX_AUTHOR_ID_LEN" using assms(2) by (simp add: tag_ok_def)
  then show ?thesis
    using origin_decode_encoded [OF assms]
    by (simp add: origin_to_bytes_ok ORIGIN_TAG_FIXED_BYTES_def)
qed

text \<open>A clock of nanoseconds on which every instant within the \<open>i64\<close> range is representable.\<close>

definition ns_clock :: chrono where
  "ns_clock = \<lparr>timestamp_millis = (\<lambda>t. t div 1000000),
               timestamp_millis_opt = (\<lambda>m. Some (m * 1000000))\<rparr>"

lemma ns_clock_laws:
  "chrono_laws ns_clock (\<lambda>t. i64_min * 1000000 \<le> t \<and> t \<le> i64_max * 1000000)"
  by (auto simp: chrono_laws_def ns_clock_def ms_floor_def i64_min_def i64_max_def)

theorem origin_round_trip_witness:
  "\<exists>bytes. origin_to_bytes ns_clock
      \<lparr>author_id = [97, 233], author_type = Agent, tag_timestamp = 1500000000000123456\<rparr> = Okay bytes \<and>
     length bytes = 13 \<and>
     origin_from_bytes ns_clock bytes =
       Okay \<lparr>author_id = [97, 233], author_type = Agent, tag_timestamp = 1500000000000000000\<rparr>"
  using origin_round_trip [OF ns_clock_laws,
      of "\<lparr>author_id = [97, 233], author_type = Agent, tag_timestamp = 1500000000000123456\<rparr>"]
  by (simp add: tag_ok_def text_ok_def scalar_def MAX_AUTHOR_ID_LEN_def len_utf8_def ms_floor_def
      i64_min_def i64_max_def ORIGIN_TAG_FIXED_BYTES_def)

text \<open>
  The decoder accepts canonical encodings only: bytes it turns into a tag are exactly
  the bytes that tag is encoded to.
\<close>

theorem origin_decode_canonical:
  assumes "chrono_laws c representable" and "origin_from_bytes c bytes = Okay tag"
  shows "origin_to_bytes c tag = Okay bytes"
proof -
  obtain b0 b1 r where b: "bytes = b0 # b1 # r"
    using assms(2)
    by (cases bytes; cases "tl bytes") (auto simp: origin_from_bytes_def ORIGIN_TAG_FIXED_BYTES_def)
  let ?n = "unat b1"
  have d: "type_from_byte b0 = Okay (author_type tag)" "length r = ?n + 8"
      "from_utf8 (take ?n r) = Some (author_id tag)"
      "timestamp_millis_opt c (i64_from_le (drop ?n r)) = Some (tag_timestamp tag)"
    using assms(2) unfolding b
    by (auto simp: origin_from_bytes_def Let_def ORIGIN_TAG_FIXED_BYTES_def split: if_splits sum.splits option.splits)
  have a: "as_bytes (author_id tag) = take ?n r" by (rule as_bytes_from_utf8 [OF d(3)])
  then have len: "blen (author_id tag) = ?n" using d(2) length_as_bytes [of "author_id tag"] by simp
  have "?n \<le> MAX_AUTHOR_ID_LEN" using unat_byte_less [of b1] by (simp add: MAX_AUTHOR_ID_LEN_def del: unat_byte_less)
  moreover have "i64_to_le (timestamp_millis c (tag_timestamp tag)) = drop ?n r"
    using assms(1) d(2,4) by (auto simp: chrono_laws_def i64_to_from_le)
  ultimately show ?thesis
    using a len type_to_from_byte [OF d(1)] by (simp add: b origin_to_bytes_ok)
qed

theorem origin_decode_canonical_witness:
  "origin_to_bytes ns_clock \<lparr>author_id = [97], author_type = Human, tag_timestamp = 5000000\<rparr> =
     Okay [0, 1, 97, 5, 0, 0, 0, 0, 0, 0, 0]"
proof (rule origin_decode_canonical [OF ns_clock_laws])
  show "origin_from_bytes ns_clock [0, 1, 97, 5, 0, 0, 0, 0, 0, 0, 0] =
     Okay \<lparr>author_id = [97], author_type = Human, tag_timestamp = 5000000\<rparr>"
    by (simp add: origin_from_bytes_def ORIGIN_TAG_FIXED_BYTES_def type_from_byte_def Let_def
        from_utf8.simps utf8_head_def i64_from_le_def ns_clock_def)
qed

end
