(* ===== verification/Sections.thy ===== *)
theory Sections
  imports RustText
begin

text \<open>
  \<open>common/src/section/slug.rs\<close> and \<open>common/src/section/parser.rs\<close>: heading slugs, section
  ids and the section tree of a Markdown document. The Markdown parser (\<open>pulldown_cmark\<close>,
  an event stream with byte offsets) is a parameter, and so is the Unicode table behind
  \<open>str::to_lowercase\<close>.
\<close>

section \<open>Slugs and ids (slug.rs)\<close>

definition slugify :: "(rstr \<Rightarrow> rstr) \<Rightarrow> rstr \<Rightarrow> rstr" where
  "slugify to_lowercase heading =
     (let raw = map (\<lambda>ch. if is_ascii_alphanumeric ch then ch else 45) (to_lowercase (trim heading))
      in join [45] (filter (\<lambda>part. part \<noteq> []) (split_on 45 raw)))"

definition make_section_id :: "(rstr \<Rightarrow> rstr) \<Rightarrow> rstr list \<Rightarrow> rstr \<Rightarrow> nat \<Rightarrow> nat \<Rightarrow> rstr" where
  "make_section_id to_lowercase ancestor_slugs heading level ordinal =
     (let slug = slugify to_lowercase heading;
          leaf = (if slug = [] then lit ''h'' @ show_nat level @ lit ''_'' @ show_nat ordinal else slug)
      in if ancestor_slugs = [] then leaf
         else join [47] ancestor_slugs @ lit ''/'' @ leaf)"

definition disambiguate :: "rstr \<Rightarrow> nat \<Rightarrow> rstr" where
  "disambiguate base_id occurrence =
     (if occurrence \<le> 1 then base_id else base_id @ lit ''~'' @ show_nat occurrence)"

section \<open>The event stream and the drafts (parser.rs)\<close>

datatype heading_level = H1 | H2 | H3 | H4 | H5 | H6

datatype md_event =
    StartHeading heading_level
  | TextEvent rstr
  | CodeEvent rstr
  | EndHeading
  | OtherEvent

type_synonym md_parser = "rstr \<Rightarrow> (md_event \<times> nat) list"

fun level_to_u8 :: "heading_level \<Rightarrow> nat" where
  "level_to_u8 H1 = 1"
| "level_to_u8 H2 = 2"
| "level_to_u8 H3 = 3"
| "level_to_u8 H4 = 4"
| "level_to_u8 H5 = 5"
| "level_to_u8 H6 = 6"

record section_draft =
  draft_heading :: rstr
  draft_level :: nat
  draft_start_line :: nat

text \<open>Slicing at an offset that is not a character boundary panics: \<open>None\<close>.\<close>

definition is_atx_heading :: "rstr \<Rightarrow> nat \<Rightarrow> bool option" where
  "is_atx_heading markdown offset = do {
     (before, _) \<leftarrow> split_at_byte offset markdown;
     (_, rest) \<leftarrow> split_at_byte
        (case rfind_byte (\<lambda>c. c = 10) before of Some index \<Rightarrow> index + 1 | None \<Rightarrow> 0) markdown;
     Some (case find (\<lambda>ch. \<not> is_whitespace ch) rest of Some ch \<Rightarrow> ch = 35 | None \<Rightarrow> False)
   }"

definition line_number_for_offset :: "rstr \<Rightarrow> nat \<Rightarrow> nat option" where
  "line_number_for_offset markdown offset =
     map_option (\<lambda>(before, _). u32 (u32 (count_list before 10) + 1)) (split_at_byte offset markdown)"

fun collect_drafts ::
  "rstr \<Rightarrow> (md_event \<times> nat) list \<Rightarrow> section_draft option \<Rightarrow> section_draft list \<Rightarrow> section_draft list option"
where
  "collect_drafts md [] cur drafts = Some drafts"
| "collect_drafts md ((StartHeading level, start) # es) cur drafts = do {
     atx \<leftarrow> is_atx_heading md start;
     (if \<not> atx then collect_drafts md es None drafts
      else do {
        line \<leftarrow> line_number_for_offset md start;
        collect_drafts md es
          (Some \<lparr>draft_heading = [], draft_level = level_to_u8 level, draft_start_line = line\<rparr>) drafts
      })
   }"
| "collect_drafts md ((TextEvent t, _) # es) cur drafts =
     collect_drafts md es (map_option (draft_heading_update (\<lambda>h. h @ t)) cur) drafts"
| "collect_drafts md ((CodeEvent t, _) # es) cur drafts =
     collect_drafts md es (map_option (draft_heading_update (\<lambda>h. h @ t)) cur) drafts"
| "collect_drafts md ((EndHeading, _) # es) cur drafts =
     (case cur of
        Some h \<Rightarrow> collect_drafts md es None (drafts @ [h])
      | None \<Rightarrow> collect_drafts md es None drafts)"
| "collect_drafts md ((OtherEvent, _) # es) cur drafts = collect_drafts md es cur drafts"

section \<open>The tree (parser.rs)\<close>

record doc_section =
  sec_id :: rstr
  sec_parent :: "rstr option"
  sec_heading :: rstr
  sec_level :: nat
  sec_start :: nat
  sec_end :: nat

text \<open>The stack is kept with its top first; an index outside \<open>sections\<close> would panic.\<close>

fun pop_stack :: "doc_section list \<Rightarrow> nat \<Rightarrow> (nat \<times> rstr) list \<Rightarrow> (nat \<times> rstr) list option" where
  "pop_stack sections level [] = Some []"
| "pop_stack sections level ((last_index, s) # stack) = do {
     top \<leftarrow> nget sections last_index;
     (if sec_level top \<ge> level then pop_stack sections level stack
      else Some ((last_index, s) # stack))
   }"

fun build_loop ::
  "(rstr \<Rightarrow> rstr) \<Rightarrow> nat \<Rightarrow> nat \<Rightarrow> section_draft list \<Rightarrow> doc_section list \<Rightarrow> (nat \<times> rstr) list \<Rightarrow>
   (rstr \<Rightarrow> nat) \<Rightarrow> doc_section list option"
where
  "build_loop lower total_lines index [] sections stack id_counts = Some sections"
| "build_loop lower total_lines index (draft # rest) sections stack id_counts = do {
     stack \<leftarrow> pop_stack sections (draft_level draft) stack;
     parent_id \<leftarrow> (case stack of
        [] \<Rightarrow> Some None
      | (parent_index, _) # _ \<Rightarrow> map_option (\<lambda>s. Some (sec_id s)) (nget sections parent_index));
     let ancestor_slugs = rev (map snd stack);
         base_id = make_section_id lower ancestor_slugs (draft_heading draft) (draft_level draft) (index + 1);
         count = id_counts base_id + 1;
         new_section =
           \<lparr>sec_id = disambiguate base_id count,
            sec_parent = parent_id,
            sec_heading = trim (draft_heading draft),
            sec_level = draft_level draft,
            sec_start = draft_start_line draft,
            sec_end = (case rest of next # _ \<Rightarrow> draft_start_line next | [] \<Rightarrow> u32 (total_lines + 1))\<rparr>
     in build_loop lower total_lines (index + 1) rest (sections @ [new_section])
          ((index, slugify lower (draft_heading draft)) # stack) (id_counts(base_id := count))
   }"

definition build_tree :: "(rstr \<Rightarrow> rstr) \<Rightarrow> rstr \<Rightarrow> section_draft list \<Rightarrow> doc_section list option" where
  "build_tree lower markdown drafts =
     build_loop lower (u32 (line_count markdown)) 0 drafts [] [] (\<lambda>_. 0)"

definition parse_sections :: "(rstr \<Rightarrow> rstr) \<Rightarrow> md_parser \<Rightarrow> rstr \<Rightarrow> doc_section list option" where
  "parse_sections lower parser markdown = do {
     drafts \<leftarrow> collect_drafts markdown (parser markdown) None [];
     build_tree lower markdown drafts
   }"


section \<open>Slugs: normal form\<close>

definition slug_word :: "rstr \<Rightarrow> bool" where
  "slug_word w \<longleftrightarrow> w \<noteq> [] \<and> list_all is_ascii_alphanumeric w"

lemma slugify_words:
  "\<exists>ws. slugify lower h = join [45] ws \<and> (\<forall>w \<in> set ws. slug_word w)"
proof -
  let ?raw = "map (\<lambda>ch. if is_ascii_alphanumeric ch then ch else 45) (lower (trim h))"
  have raw: "is_ascii_alphanumeric c \<or> c = 45" if "c \<in> set ?raw" for c
    using that by (auto split: if_splits)
  have "slug_word w" if "w \<in> set (filter (\<lambda>part. part \<noteq> []) (split_on 45 ?raw))" for w
    using that split_on_parts [of w 45 ?raw] raw by (auto simp: slug_word_def list_all_iff)
  then show ?thesis by (auto simp: slugify_def Let_def)
qed

lemma join_words_chars:
  "\<forall>w \<in> set ws. slug_word w \<Longrightarrow> c \<in> set (join [45] ws) \<Longrightarrow> is_ascii_alphanumeric c \<or> c = 45"
  using set_join [of "[45]" ws] by (fastforce simp: slug_word_def list_all_iff)

lemma slugify_chars: "c \<in> set (slugify lower h) \<Longrightarrow> is_ascii_alphanumeric c \<or> c = 45"
  using slugify_words [of lower h] join_words_chars by metis

lemma hyphen_not_alphanumeric [simp]: "\<not> is_ascii_alphanumeric 45"
  by (simp add: is_ascii_alphanumeric_def is_ascii_digit_def is_ascii_upper_def is_ascii_lower_def)

lemma hyphen_not_in_word: "slug_word w \<Longrightarrow> 45 \<notin> set w"
  by (metis hyphen_not_alphanumeric list_all_iff slug_word_def)

lemma trim_join_words:
  assumes "\<forall>w \<in> set ws. slug_word w"
  shows "trim (join [45] ws) = join [45] ws"
proof -
  have "\<not> is_whitespace 45" by (simp add: is_whitespace_def)
  then show ?thesis
    using join_words_chars [OF assms] alphanumeric_not_whitespace by (intro trim_id) metis
qed

lemma slugify_join_words:
  assumes w: "\<forall>w \<in> set ws. slug_word w" and l: "lower (join [45] ws) = join [45] ws"
  shows "slugify lower (join [45] ws) = join [45] ws"
proof -
  have c: "is_ascii_alphanumeric c \<or> c = 45" if "c \<in> set (join [45] ws)" for c
    by (rule join_words_chars [OF w that])
  have raw: "map (\<lambda>ch. if is_ascii_alphanumeric ch then ch else 45) (join [45] ws) = join [45] ws"
    by (rule map_idI) (use c in auto)
  have "filter (\<lambda>part. part \<noteq> []) (split_on 45 (join [45] ws)) = ws"
  proof (cases "ws = []")
    case False
    have "\<forall>p \<in> set ws. 45 \<notin> set p" using w hyphen_not_in_word by blast
    then have "split_on 45 (join [45] ws) = ws" using False by (rule split_on_join)
    then show ?thesis using w by (auto simp: slug_word_def filter_id_conv)
  qed simp
  then show ?thesis using l raw by (simp add: slugify_def trim_join_words [OF w] Let_def)
qed

section \<open>Ids: injectivity\<close>

lemma lit_chars: "lit ''~'' = [126]" "lit ''/'' = [47]" "lit ''h'' = [104]" "lit ''_'' = [95]"
  by (simp_all add: lit_def)

lemma tilde_class: "\<not> is_ascii_alphanumeric 126" "\<not> is_ascii_digit 126"
  by (simp_all add: is_ascii_alphanumeric_def is_ascii_digit_def is_ascii_upper_def is_ascii_lower_def)

lemma make_section_id_no_tilde:
  assumes "\<forall>s \<in> set ancestors. 126 \<notin> set s"
  shows "126 \<notin> set (make_section_id lower ancestors h level n)"
proof -
  have "126 \<notin> set (slugify lower h)" using slugify_chars [of 126 lower h] tilde_class by auto
  moreover have "126 \<notin> set (show_nat k)" for k using show_nat_digits [of 126 k] tilde_class by auto
  moreover have "126 \<notin> set (join [47] ancestors)" using assms set_join [of "[47]" ancestors] by auto
  ultimately show ?thesis by (auto simp: make_section_id_def Let_def lit_chars)
qed

lemma disambiguate_inj:
  assumes "126 \<notin> set a" "126 \<notin> set b" "1 \<le> m" "1 \<le> n" "disambiguate a m = disambiguate b n"
  shows "a = b \<and> m = n"
proof -
  have d: "126 \<notin> set (show_nat k)" for k using show_nat_digits [of 126 k] tilde_class by auto
  have s: "split_on 126 (disambiguate x k) = (if k \<le> 1 then [x] else [x, show_nat k])"
    if "126 \<notin> set x" for x k
    using that d by (simp add: disambiguate_def lit_chars split_on_fresh split_on_append)
  have "(if m \<le> 1 then [a] else [a, show_nat m]) = (if n \<le> 1 then [b] else [b, show_nat n])"
    using s [OF assms(1), of m] s [OF assms(2), of n] assms(5) by simp
  then show ?thesis using assms(3,4) by (auto split: if_splits dest: show_nat_inj)
qed

text \<open>The ids given to a sequence of base ids, by how often each has occurred.\<close>

definition ids_from :: "rstr list \<Rightarrow> rstr list" where
  "ids_from bs = map (\<lambda>i. disambiguate (bs ! i) (count_list (take (Suc i) bs) (bs ! i))) [0..<length bs]"

lemma ids_from_snoc: "ids_from (bs @ [b]) = ids_from bs @ [disambiguate b (count_list bs b + 1)]"
  by (auto simp: ids_from_def nth_append)

lemma length_ids_from [simp]: "length (ids_from bs) = length bs"
  by (simp add: ids_from_def)

lemma count_list_take_le: "count_list (take n xs) x \<le> count_list xs x"
  by (metis append_take_drop_id count_list_append le_add1)

lemma count_list_take_pos:
  assumes "i < length xs"
  shows "1 \<le> count_list (take (Suc i) xs) (xs ! i)"
  using assms by (simp add: take_Suc_conv_app_nth)

lemma distinct_ids_from: "\<forall>b \<in> set bs. 126 \<notin> set b \<Longrightarrow> distinct (ids_from bs)"
proof (induction bs rule: rev_induct)
  case (snoc b bs)
  have "disambiguate b (count_list bs b + 1) \<noteq>
        disambiguate (bs ! i) (count_list (take (Suc i) bs) (bs ! i))" if i: "i < length bs" for i
  proof
    assume "disambiguate b (count_list bs b + 1) =
            disambiguate (bs ! i) (count_list (take (Suc i) bs) (bs ! i))"
    moreover have "126 \<notin> set b" "126 \<notin> set (bs ! i)" using snoc.prems i by auto
    ultimately have "b = bs ! i \<and> count_list bs b + 1 = count_list (take (Suc i) bs) (bs ! i)"
      using count_list_take_pos [OF i] by (intro disambiguate_inj) auto
    then show False using count_list_take_le [of "Suc i" bs "bs ! i"] by auto
  qed
  then have "disambiguate b (count_list bs b + 1) \<notin> set (ids_from bs)"
    unfolding ids_from_def set_map set_upt image_iff by (metis atLeastLessThan_iff)
  then show ?case using snoc by (simp add: ids_from_snoc)
qed (simp add: ids_from_def)

section \<open>The tree: the parent is the nearest heading of a smaller level\<close>

fun nearest :: "nat list \<Rightarrow> nat \<Rightarrow> nat \<Rightarrow> nat option" where
  "nearest ls 0 l = None"
| "nearest ls (Suc j) l = (if ls ! j < l then Some j else nearest ls j l)"

lemma nearest_less: "nearest ls n l = Some j \<Longrightarrow> j < n"
  by (induction n) (auto split: if_splits)

lemma nearest_append: "n \<le> length ls \<Longrightarrow> nearest (ls @ ms) n l = nearest ls n l"
  by (induction n) (auto simp: nth_append)

definition stack_ok :: "nat list \<Rightarrow> nat list \<Rightarrow> bool" where
  "stack_ok ls js \<longleftrightarrow>
     (\<forall>j \<in> set js. j < length ls) \<and> (\<forall>l. nearest ls (length ls) l = find (\<lambda>j. ls ! j < l) js)"

lemma stack_ok_Nil [simp]: "stack_ok [] []"
  by (simp add: stack_ok_def)

lemma find_dropWhile:
  "(\<And>x. \<not> P x \<Longrightarrow> \<not> Q x) \<Longrightarrow> find Q (dropWhile (\<lambda>x. \<not> P x) xs) = find Q xs"
  by (induction xs) auto

lemma find_dropWhile_hd:
  "find P xs = (case dropWhile (\<lambda>x. \<not> P x) xs of [] \<Rightarrow> None | x # _ \<Rightarrow> Some x)"
  by (induction xs) auto

lemma find_append_nth:
  "\<forall>j \<in> set js. j < length ls \<Longrightarrow> find (\<lambda>j. (ls @ ms) ! j < l) js = find (\<lambda>j. ls ! j < l) js"
  by (induction js) (auto simp: nth_append)

lemma stack_ok_push:
  assumes "stack_ok ls js"
  shows "stack_ok (ls @ [l]) (length ls # dropWhile (\<lambda>j. \<not> ls ! j < l) js)"
proof -
  let ?d = "dropWhile (\<lambda>j. \<not> ls ! j < l) js"
  have in_js: "\<forall>j \<in> set ?d. j < length ls"
    using assms by (auto simp: stack_ok_def dest: set_dropWhileD)
  have "nearest (ls @ [l]) (Suc (length ls)) l' =
      find (\<lambda>j. (ls @ [l]) ! j < l') (length ls # ?d)" for l'
  proof (cases "l < l'")
    case False
    then have "find (\<lambda>j. ls ! j < l') ?d = find (\<lambda>j. ls ! j < l') js"
      by (intro find_dropWhile) auto
    then show ?thesis using False assms in_js
      by (simp add: nearest_append stack_ok_def find_append_nth)
  qed simp
  then show ?thesis using in_js by (auto simp: stack_ok_def)
qed

lemma pop_stack_dropWhile:
  "\<forall>(j, s) \<in> set st. j < length sections \<Longrightarrow>
   pop_stack sections l st = Some (dropWhile (\<lambda>(j, s). \<not> map sec_level sections ! j < l) st)"
  by (induction st) auto

lemma map_fst_dropWhile: "map fst (dropWhile (\<lambda>(j, s). P j) xs) = dropWhile P (map fst xs)"
  by (induction xs) auto

section \<open>The loop invariant\<close>

definition tree_inv :: "doc_section list \<Rightarrow> (nat \<times> rstr) list \<Rightarrow> (rstr \<Rightarrow> nat) \<Rightarrow> bool" where
  "tree_inv sections stack id_counts \<longleftrightarrow>
     stack_ok (map sec_level sections) (map fst stack) \<and>
     (\<forall>(j, s) \<in> set stack. 126 \<notin> set s) \<and>
     (\<exists>bs. map sec_id sections = ids_from bs \<and> (\<forall>b \<in> set bs. 126 \<notin> set b) \<and>
           id_counts = count_list bs) \<and>
     (\<forall>i < length sections. sec_parent (sections ! i) =
        map_option (\<lambda>j. sec_id (sections ! j)) (nearest (map sec_level sections) i (sec_level (sections ! i))))"

lemma tree_inv_start [simp]: "tree_inv [] [] (\<lambda>_. 0)"
  unfolding tree_inv_def by (auto intro!: exI [of _ "[]"] simp: ids_from_def)

lemma tree_inv_push:
  assumes inv: "tree_inv sections stack counts"
    and st: "stack' = dropWhile (\<lambda>(j, s). \<not> map sec_level sections ! j < sec_level new) stack"
    and base: "base = make_section_id lower (rev (map snd stack')) h l n"
    and new: "sec_id new = disambiguate base (counts base + 1)"
      "sec_parent new = (case stack' of [] \<Rightarrow> None | (j, _) # _ \<Rightarrow> Some (sec_id (sections ! j)))"
  shows "tree_inv (sections @ [new]) ((length sections, slugify lower h') # stack')
           (counts(base := counts base + 1))"
proof -
  let ?ls = "map sec_level sections" and ?l = "sec_level new"
  obtain bs where bs: "map sec_id sections = ids_from bs" "\<forall>b \<in> set bs. 126 \<notin> set b" "counts = count_list bs"
    using inv by (auto simp: tree_inv_def)
  have ok: "stack_ok ?ls (map fst stack)" using inv by (simp add: tree_inv_def)
  have sub: "set stack' \<subseteq> set stack" unfolding st by (auto dest: set_dropWhileD)
  have js: "map fst stack' = dropWhile (\<lambda>j. \<not> ?ls ! j < ?l) (map fst stack)"
    unfolding st by (rule map_fst_dropWhile)
  have "stack_ok (?ls @ [?l]) (length ?ls # map fst stack')" unfolding js by (rule stack_ok_push [OF ok])
  then have 1: "stack_ok (map sec_level (sections @ [new])) (map fst ((length sections, slugify lower h') # stack'))"
    by simp
  have tilde: "\<forall>(j, s) \<in> set stack'. 126 \<notin> set s" using inv sub by (auto simp: tree_inv_def)
  then have "\<forall>s \<in> set (rev (map snd stack')). 126 \<notin> set s" by auto
  then have 2: "126 \<notin> set base" unfolding base by (rule make_section_id_no_tilde)
  have 3: "126 \<notin> set (slugify lower h')" using slugify_chars [of 126 lower h'] tilde_class by auto
  have 4: "map sec_id (sections @ [new]) = ids_from (bs @ [base])" "counts(base := counts base + 1) = count_list (bs @ [base])"
    using bs new(1) by (auto simp: ids_from_snoc)
  have "nearest ?ls (length ?ls) ?l = (case map fst stack' of [] \<Rightarrow> None | j # _ \<Rightarrow> Some j)"
    using ok by (simp add: stack_ok_def js find_dropWhile_hd)
  then have par: "sec_parent new = map_option (\<lambda>j. sec_id (sections ! j)) (nearest ?ls (length ?ls) ?l)"
    using new(2) by (auto split: list.splits)
  have 5: "sec_parent ((sections @ [new]) ! i) =
      map_option (\<lambda>j. sec_id ((sections @ [new]) ! j))
        (nearest (map sec_level (sections @ [new])) i (sec_level ((sections @ [new]) ! i)))"
    if "i < length (sections @ [new])" for i
  proof (cases "i = length sections")
    case True
    then show ?thesis using par
      by (auto simp: nearest_append nth_append intro!: map_option_cong dest!: nearest_less)
  next
    case False
    then have "i < length sections" using that by simp
    then show ?thesis using inv
      by (auto simp: tree_inv_def nearest_append nth_append intro!: map_option_cong dest!: nearest_less)
  qed
  show ?thesis unfolding tree_inv_def
    using 1 2 3 4 5 tilde bs(2) by (intro conjI exI [of _ "bs @ [base]"]) auto
qed

lemma build_loop_step:
  assumes "tree_inv sections stack counts"
  shows "\<exists>new stack' counts'.
     build_loop lower tot (length sections) (d # rest) sections stack counts =
       build_loop lower tot (length (sections @ [new])) rest (sections @ [new]) stack' counts' \<and>
     tree_inv (sections @ [new]) stack' counts' \<and>
     sec_level new = draft_level d \<and> sec_start new = draft_start_line d \<and>
     sec_end new = (case rest of next # _ \<Rightarrow> draft_start_line next | [] \<Rightarrow> u32 (tot + 1))"
proof -
  let ?st = "dropWhile (\<lambda>(j, s). \<not> map sec_level sections ! j < draft_level d) stack"
  let ?base = "make_section_id lower (rev (map snd ?st)) (draft_heading d) (draft_level d) (length sections + 1)"
  let ?new = "\<lparr>sec_id = disambiguate ?base (counts ?base + 1),
      sec_parent = (case ?st of [] \<Rightarrow> None | (j, _) # _ \<Rightarrow> Some (sec_id (sections ! j))),
      sec_heading = trim (draft_heading d), sec_level = draft_level d,
      sec_start = draft_start_line d,
      sec_end = (case rest of next # _ \<Rightarrow> draft_start_line next | [] \<Rightarrow> u32 (tot + 1))\<rparr>"
  have idx: "\<forall>(j, s) \<in> set stack. j < length sections"
    using assms by (force simp: tree_inv_def stack_ok_def)
  then have st: "\<forall>(j, s) \<in> set ?st. j < length sections" by (auto dest: set_dropWhileD)
  have par: "(case ?st of
        [] \<Rightarrow> Some None
      | (parent_index, _) # _ \<Rightarrow> map_option (\<lambda>s. Some (sec_id s)) (nget sections parent_index)) =
      Some (case ?st of [] \<Rightarrow> None | (j, _) # _ \<Rightarrow> Some (sec_id (sections ! j)))"
    using st by (cases ?st) (auto simp del: dropWhile_eq_Nil_conv)
  have inv: "tree_inv (sections @ [?new]) ((length sections, slugify lower (draft_heading d)) # ?st)
      (counts(?base := counts ?base + 1))"
    by (rule tree_inv_push [OF assms]) simp_all
  have step: "build_loop lower tot (length sections) (d # rest) sections stack counts =
      build_loop lower tot (length (sections @ [?new])) rest (sections @ [?new])
        ((length sections, slugify lower (draft_heading d)) # ?st) (counts(?base := counts ?base + 1))"
    by (simp add: pop_stack_dropWhile [OF idx] par Let_def)
  show ?thesis by (rule exI, rule exI, rule exI, rule conjI [OF step], rule conjI [OF inv]) simp
qed

text \<open>The line where each section ends: where the next one starts.\<close>

definition end_lines :: "nat \<Rightarrow> nat list \<Rightarrow> nat list" where
  "end_lines last_end starts = (if starts = [] then [] else tl starts @ [last_end])"

lemma end_lines_Cons [simp]:
  "end_lines e (s # ss) = (case ss of [] \<Rightarrow> e | t # _ \<Rightarrow> t) # end_lines e ss"
  by (cases ss) (auto simp: end_lines_def)

lemma build_loop_inv:
  "tree_inv sections stack counts \<Longrightarrow>
   \<exists>ss stack' counts'. build_loop lower tot (length sections) drafts sections stack counts = Some ss \<and>
     tree_inv ss stack' counts' \<and>
     map sec_level ss = map sec_level sections @ map draft_level drafts \<and>
     map sec_start ss = map sec_start sections @ map draft_start_line drafts \<and>
     map sec_end ss = map sec_end sections @ end_lines (u32 (tot + 1)) (map draft_start_line drafts)"
proof (induction drafts arbitrary: sections stack counts)
  case Nil
  then show ?case by (auto simp: end_lines_def)
next
  case (Cons d rest)
  obtain new stack1 counts1 where step:
    "build_loop lower tot (length sections) (d # rest) sections stack counts =
       build_loop lower tot (length (sections @ [new])) rest (sections @ [new]) stack1 counts1"
    "tree_inv (sections @ [new]) stack1 counts1"
    "sec_level new = draft_level d" "sec_start new = draft_start_line d"
    "sec_end new = (case rest of next # _ \<Rightarrow> draft_start_line next | [] \<Rightarrow> u32 (tot + 1))"
    using build_loop_step [OF Cons.prems, of lower tot d rest] by (elim exE conjE) (rule that)
  have "sec_end new = (case map draft_start_line rest of [] \<Rightarrow> u32 (tot + 1) | t # _ \<Rightarrow> t)"
    unfolding step(5) by (cases rest) simp_all
  then show ?case using Cons.IH [OF step(2)] unfolding step(1)
    by (simp only: list.map map_append end_lines_Cons step(3,4) append_assoc append_Cons append_Nil)
qed

lemma build_tree_props:
  "\<exists>ss. build_tree lower md drafts = Some ss \<and> distinct (map sec_id ss) \<and>
     (\<forall>i < length ss. sec_parent (ss ! i) =
        map_option (\<lambda>j. sec_id (ss ! j)) (nearest (map sec_level ss) i (sec_level (ss ! i)))) \<and>
     map sec_level ss = map draft_level drafts \<and>
     map sec_start ss = map draft_start_line drafts \<and>
     map sec_end ss = end_lines (u32 (u32 (line_count md) + 1)) (map draft_start_line drafts)"
proof -
  obtain ss stack counts where r:
    "build_loop lower (u32 (line_count md)) (length ([] :: doc_section list)) drafts [] [] (\<lambda>_. 0) = Some ss"
    "tree_inv ss stack counts"
    "map sec_level ss = map sec_level ([] :: doc_section list) @ map draft_level drafts"
    "map sec_start ss = map sec_start ([] :: doc_section list) @ map draft_start_line drafts"
    "map sec_end ss = map sec_end ([] :: doc_section list) @ end_lines (u32 (u32 (line_count md) + 1)) (map draft_start_line drafts)"
    using build_loop_inv [OF tree_inv_start, of lower "u32 (line_count md)" drafts]
    by (elim exE conjE) (rule that)
  have "distinct (map sec_id ss)" using r(2) distinct_ids_from unfolding tree_inv_def by metis
  moreover have "\<forall>i < length ss. sec_parent (ss ! i) =
      map_option (\<lambda>j. sec_id (ss ! j)) (nearest (map sec_level ss) i (sec_level (ss ! i)))"
    using r(2) unfolding tree_inv_def by blast
  moreover have "build_tree lower md drafts = Some ss" using r(1) by (simp add: build_tree_def)
  ultimately show ?thesis using r(3-5) by (intro exI [of _ ss] conjI) simp_all
qed

section \<open>The event stream: every offset is a character boundary\<close>

definition offsets_ok :: "md_parser \<Rightarrow> rstr \<Rightarrow> bool" where
  "offsets_ok parser md \<longleftrightarrow> (\<forall>(ev, off) \<in> set (parser md). split_at_byte off md \<noteq> None)"

lemma is_atx_heading_ok:
  assumes "split_at_byte off md = Some (before, after)"
  shows "\<exists>pre rest. md = pre @ rest \<and> count_list pre 10 = count_list before 10 \<and>
     is_atx_heading md off =
       Some (case find (\<lambda>ch. \<not> is_whitespace ch) rest of Some ch \<Rightarrow> ch = 35 | None \<Rightarrow> False)"
proof (cases "rfind_byte (\<lambda>c. c = 10) before")
  case None
  have "count_list before 10 = 0" using None
    by (induction before) (auto split: option.splits if_splits)
  then show ?thesis using assms None
    by (intro exI [of _ "[]"] exI [of _ md]) (simp add: is_atx_heading_def)
next
  case (Some i)
  then obtain a b where ab: "before = a @ 10 # b" "i = blen a" "\<forall>x \<in> set b. x \<noteq> 10"
    using rfind_byte_SomeD by blast
  have md: "md = (a @ [10]) @ (b @ after)" using split_at_byte_SomeD [OF assms] ab by simp
  have "blen (a @ [10]) = i + 1" using ab(2) by (simp add: len_utf8_def)
  then have "split_at_byte (i + 1) md = Some (a @ [10], b @ after)"
    using split_at_byte_append [of "a @ [10]" "b @ after"] md by simp
  moreover have "count_list before 10 = count_list (a @ [10]) 10"
    using ab by (auto simp: count_list_0_iff)
  ultimately show ?thesis using assms Some md
    by (intro exI [of _ "a @ [10]"] exI [of _ "b @ after"]) (simp add: is_atx_heading_def)
qed

lemma is_atx_heading_line:
  assumes "split_at_byte off md = Some (before, after)" "is_atx_heading md off = Some True"
  shows "count_list before 10 < line_count md"
proof -
  obtain pre rest where pr: "md = pre @ rest" "count_list pre 10 = count_list before 10"
    "is_atx_heading md off =
       Some (case find (\<lambda>ch. \<not> is_whitespace ch) rest of Some ch \<Rightarrow> ch = 35 | None \<Rightarrow> False)"
    using is_atx_heading_ok [OF assms(1)] by blast
  then have "rest \<noteq> []" using assms(2) by (auto split: option.splits)
  then show ?thesis using pr split_inclusive_count_ne [where b = rest and nl = 10 and acc = "[]" and a = pre] by (simp add: line_count_def)
qed

text \<open>The line of an offset, and that it grows with the offset.\<close>

definition line_at :: "rstr \<Rightarrow> nat \<Rightarrow> nat" where
  "line_at md off = (case split_at_byte off md of Some (before, _) \<Rightarrow> count_list before 10 + 1 | None \<Rightarrow> 0)"

lemma line_at_mono:
  assumes "split_at_byte m md \<noteq> None" "split_at_byte n md \<noteq> None" "m \<le> n"
  shows "line_at md m \<le> line_at md n"
proof -
  obtain a b c d where s: "split_at_byte m md = Some (a, b)" "split_at_byte n md = Some (c, d)"
    using assms by auto
  then have e: "a @ b = c @ d" "blen a \<le> blen c" using split_at_byte_SomeD assms(3) by metis+
  then obtain us where "(a = c @ us \<and> us @ b = d) \<or> (a @ us = c \<and> b = us @ d)"
    by (auto simp: append_eq_append_conv2)
  then have "\<exists>vs. c = a @ vs" using e(2) by (elim disjE conjE) (auto intro: exI [of _ "[]"])
  then show ?thesis using s by (auto simp: line_at_def)
qed

section \<open>Lines\<close>

fun start_offsets :: "(md_event \<times> nat) list \<Rightarrow> nat list" where
  "start_offsets [] = []"
| "start_offsets ((StartHeading l, off) # es) = off # start_offsets es"
| "start_offsets (e # es) = start_offsets es"

definition opt_list :: "'a option \<Rightarrow> 'a list" where
  "opt_list x = (case x of Some a \<Rightarrow> [a] | None \<Rightarrow> [])"

lemma opt_list_simps [simp]: "opt_list None = []" "opt_list (Some a) = [a]"
  by (simp_all add: opt_list_def)

text \<open>
  The drafts kept so far lie on lines of the document, in order, and before every heading
  that is still to come.
\<close>

definition drafts_ok :: "rstr \<Rightarrow> (md_event \<times> nat) list \<Rightarrow> nat list \<Rightarrow> bool" where
  "drafts_ok md es ls \<longleftrightarrow>
     sorted ls \<and> (\<forall>l \<in> set ls. 1 \<le> l \<and> l \<le> line_count md) \<and>
     (\<forall>l \<in> set ls. \<forall>off \<in> set (start_offsets es). l \<le> line_at md off)"

definition events_ok :: "rstr \<Rightarrow> (md_event \<times> nat) list \<Rightarrow> bool" where
  "events_ok md es \<longleftrightarrow>
     (\<forall>(ev, off) \<in> set es. split_at_byte off md \<noteq> None) \<and> sorted (start_offsets es)"

lemma start_offsets_ok:
  "\<forall>(ev, off) \<in> set es. split_at_byte off md \<noteq> None \<Longrightarrow> off \<in> set (start_offsets es) \<Longrightarrow>
   split_at_byte off md \<noteq> None"
  by (induction es rule: start_offsets.induct) auto

lemma drafts_ok_start:
  assumes "events_ok md ((StartHeading l, off) # es)" "is_atx_heading md off = Some True"
    and "drafts_ok md ((StartHeading l, off) # es) ls"
  shows "drafts_ok md es (ls @ [line_at md off])"
proof -
  have ok: "\<forall>(ev, off) \<in> set es. split_at_byte off md \<noteq> None" "split_at_byte off md \<noteq> None"
    "\<forall>o' \<in> set (start_offsets es). off \<le> o'"
    using assms(1) by (auto simp: events_ok_def)
  have "line_at md off \<le> line_at md o'" if "o' \<in> set (start_offsets es)" for o'
    using that ok start_offsets_ok [OF ok(1) that] by (intro line_at_mono) auto
  moreover have "1 \<le> line_at md off \<and> line_at md off \<le> line_count md"
    using ok(2) is_atx_heading_line [OF _ assms(2)] by (fastforce simp: line_at_def)
  ultimately show ?thesis using assms(3) by (auto simp: drafts_ok_def sorted_append)
qed

lemma line_number_line_at:
  assumes "split_at_byte off md \<noteq> None" "line_at md off \<le> line_count md" "line_count md < 2 ^ 32"
  shows "line_number_for_offset md off = Some (line_at md off)"
  using assms by (auto simp: line_number_for_offset_def line_at_def)

lemma collect_drafts_lines:
  "line_count md < 2 ^ 32 \<Longrightarrow> events_ok md es \<Longrightarrow> drafts_ok md es (map draft_start_line (drafts @ opt_list cur)) \<Longrightarrow>
     \<exists>ds. collect_drafts md es cur drafts = Some ds \<and>
       drafts_ok md [] (map draft_start_line ds)"
proof (induction md es cur drafts rule: collect_drafts.induct)
  case (1 md cur drafts)
  then show ?case by (auto simp: drafts_ok_def sorted_append)
next
  case (2 md level start es cur drafts)
  have sp: "split_at_byte start md \<noteq> None" and es: "events_ok md es"
    using "2.prems" by (auto simp: events_ok_def)
  obtain atx where atx: "is_atx_heading md start = Some atx"
    using sp is_atx_heading_ok by fastforce
  have cut: "drafts_ok md ((StartHeading level, start) # es) (map draft_start_line drafts)"
    using "2.prems" by (auto simp: drafts_ok_def sorted_append)
  show ?case
  proof (cases atx)
    case True
    have new: "drafts_ok md es (map draft_start_line drafts @ [line_at md start])"
      using drafts_ok_start [OF "2.prems"(2)] cut atx True by simp
    then have "line_number_for_offset md start = Some (line_at md start)"
      using sp "2.prems"(1) by (intro line_number_line_at) (auto simp: drafts_ok_def)
    then show ?thesis using "2.IH"(2) [OF atx] True atx es new "2.prems"(1) by simp
  next
    case False
    then show ?thesis using "2.IH"(1) [OF atx] atx es cut "2.prems"(1) by (simp add: drafts_ok_def)
  qed
next
  case (3 md t off es cur drafts)
  then show ?case by (cases cur) (simp_all add: events_ok_def drafts_ok_def)
next
  case (4 md t off es cur drafts)
  then show ?case by (cases cur) (simp_all add: events_ok_def drafts_ok_def)
next
  case (5 md off es cur drafts)
  then show ?case by (cases cur) (simp_all add: events_ok_def drafts_ok_def)
next
  case (6 md off es cur drafts)
  then show ?case by (simp add: events_ok_def drafts_ok_def)
qed

lemma collect_drafts_total:
  "\<forall>(ev, off) \<in> set es. split_at_byte off md \<noteq> None \<Longrightarrow> \<exists>ds. collect_drafts md es cur drafts = Some ds"
proof (induction md es cur drafts rule: collect_drafts.induct)
  case (2 md level start es cur drafts)
  obtain a b where ab: "split_at_byte start md = Some (a, b)" using "2.prems" by auto
  obtain atx where atx: "is_atx_heading md start = Some atx" using is_atx_heading_ok [OF ab] by blast
  show ?case using 2 ab atx by (cases atx) (simp_all add: line_number_for_offset_def)
qed (auto split: option.splits)

lemma nth_end_lines: "i < length ss \<Longrightarrow> end_lines e ss ! i = (if Suc i < length ss then ss ! Suc i else e)"
  by (cases ss) (auto simp: end_lines_def nth_append nth_tl less_Suc_eq)

text \<open>The shape of a parsed document, for the components that work with its sections.\<close>

lemma parse_sections_shape:
  assumes "events_ok md (parser md)" and "line_count md + 1 < 2 ^ 32"
  shows "\<exists>ss. parse_sections lower parser md = Some ss \<and> distinct (map sec_id ss) \<and> sorted (map sec_start ss) \<and>
    (\<forall>s \<in> set ss. 1 \<le> sec_start s \<and> sec_start s \<le> line_count md) \<and>
    map sec_end ss = end_lines (line_count md + 1) (map sec_start ss)"
proof -
  obtain ds where ds: "collect_drafts md (parser md) None [] = Some ds"
    using collect_drafts_total assms(1) by (metis events_ok_def)
  obtain ss where ss: "build_tree lower md ds = Some ss" "distinct (map sec_id ss)"
    and st: "map sec_start ss = map draft_start_line ds"
    and en: "map sec_end ss = end_lines (line_count md + 1) (map sec_start ss)"
    using build_tree_props [of lower md ds] assms(2) by auto
  have "drafts_ok md [] (map draft_start_line ds)"
    using collect_drafts_lines [OF _ assms(1), of "[]" None] ds(1) assms(2) by (simp add: drafts_ok_def)
  moreover have "\<forall>s \<in> set ss. sec_start s \<in> set (map draft_start_line ds)"
    unfolding st [symmetric] by simp
  ultimately show ?thesis
    using ds ss en st unfolding drafts_ok_def parse_sections_def by (metis bind.bind_lunit)
qed

lemma section_end_at:
  assumes "map sec_end ss = end_lines e (map sec_start ss)" "i < length ss"
  shows "sec_end (ss ! i) = (if Suc i < length ss then sec_start (ss ! Suc i) else e)"
proof -
  have "sec_end (ss ! i) = end_lines e (map sec_start ss) ! i"
    using arg_cong [OF assms(1), of "\<lambda>xs. xs ! i"] assms(2) by simp
  then show ?thesis using nth_end_lines [of i "map sec_start ss" e] assms(2) by simp
qed

section \<open>Properties\<close>

text \<open>
  A slug is a sequence of nonempty ASCII alphanumeric words joined by single hyphens,
  and slugging a slug changes nothing when lower-casing leaves it alone.
\<close>

theorem slugify_normal:
  "(\<exists>ws. slugify lower h = join [45] ws \<and> (\<forall>w \<in> set ws. slug_word w)) \<and>
   (lower (slugify lower h) = slugify lower h \<longrightarrow> slugify lower (slugify lower h) = slugify lower h)"
  using slugify_words [of lower h] slugify_join_words by metis

theorem slugify_normal_witness:
  "slugify to_ascii_lowercase (slugify to_ascii_lowercase (lit ''API: v2''))
     = slugify to_ascii_lowercase (lit ''API: v2'') \<and>
   slugify to_ascii_lowercase (lit ''API: v2'') = lit ''api-v2''"
proof -
  have "slugify to_ascii_lowercase (lit ''API: v2'') = lit ''api-v2''"
    by code_simp
  moreover have "to_ascii_lowercase (lit ''api-v2'') = lit ''api-v2''" by code_simp
  ultimately show ?thesis using slugify_normal [of to_ascii_lowercase "lit ''API: v2''"] by simp
qed

text \<open>
  When every offset of the event stream is a character boundary of the document, parsing
  its sections does not panic, and no two sections of a document have the same id.
\<close>

theorem parse_sections_distinct_ids:
  assumes "offsets_ok parser md"
  shows "\<exists>ss. parse_sections lower parser md = Some ss \<and> distinct (map sec_id ss)"
proof -
  obtain ds where "collect_drafts md (parser md) None [] = Some ds"
    using collect_drafts_total assms by (metis offsets_ok_def)
  then show ?thesis using build_tree_props [of lower md ds] by (auto simp: parse_sections_def)
qed

definition demo_md :: rstr where
  "demo_md = lit ''# A'' @ [10] @ lit ''## B'' @ [10] @ lit ''## B'' @ [10]"

definition demo_parser :: md_parser where
  "demo_parser md =
     [(StartHeading H1, 0), (TextEvent (lit ''A''), 2), (EndHeading, 0),
      (StartHeading H2, 4), (TextEvent (lit ''B''), 7), (EndHeading, 4),
      (StartHeading H2, 9), (TextEvent (lit ''B''), 12), (EndHeading, 9)]"

lemma demo_sections:
  "map_option (map (\<lambda>s. (sec_id s, sec_parent s, sec_start s, sec_end s)))
     (parse_sections to_ascii_lowercase demo_parser demo_md) =
   Some [(lit ''a'', None, 1, 2), (lit ''a/b'', Some (lit ''a''), 2, 3),
         (lit ''a/b~2'', Some (lit ''a''), 3, 4)]"
  by (simp add: parse_sections_def demo_parser_def demo_md_def lit_def is_atx_heading_def len_utf8_def
      is_whitespace_def line_number_for_offset_def build_tree_def line_count_def make_section_id_def
      slugify_def to_ascii_lowercase_def is_ascii_upper_def is_ascii_lower_def is_ascii_digit_def
      is_ascii_alphanumeric_def trim_def trim_start_def trim_end_def disambiguate_def show_nat.simps Let_def)

lemma demo_events_ok: "events_ok demo_md (demo_parser demo_md)"
  by code_simp

theorem parse_sections_distinct_ids_witness:
  "\<exists>ss. parse_sections to_ascii_lowercase demo_parser demo_md = Some ss \<and> distinct (map sec_id ss)"
  by (rule parse_sections_distinct_ids) (use demo_events_ok in \<open>simp add: offsets_ok_def events_ok_def\<close>)

text \<open>
  The parent of a section is the nearest section before it with a smaller heading level;
  a section with no such predecessor has no parent.
\<close>

theorem parse_sections_parent:
  assumes "parse_sections lower parser md = Some ss" and "i < length ss"
  shows "sec_parent (ss ! i) =
    map_option (\<lambda>j. sec_id (ss ! j)) (nearest (map sec_level ss) i (sec_level (ss ! i)))"
proof -
  obtain ds where "collect_drafts md (parser md) None [] = Some ds" "build_tree lower md ds = Some ss"
    using assms(1) by (auto simp: parse_sections_def split: Option.bind_splits)
  then show ?thesis using build_tree_props [of lower md ds] assms(2) by auto
qed

theorem parse_sections_parent_witness:
  "\<exists>ss. parse_sections to_ascii_lowercase demo_parser demo_md = Some ss \<and> length ss = 3 \<and>
     sec_parent (ss ! 2) = map_option (\<lambda>j. sec_id (ss ! j)) (nearest (map sec_level ss) 2 (sec_level (ss ! 2)))"
proof -
  obtain ss where ss: "parse_sections to_ascii_lowercase demo_parser demo_md = Some ss" "length ss = 3"
    using demo_sections by (auto dest: map_eq_imp_length_eq)
  then show ?thesis using parse_sections_parent [OF ss(1), of 2] by simp
qed

text \<open>
  When the parser reports headings in document order, the sections tile the lines: their
  start lines ascend and lie in the document, each section ends where the next one starts, and
  the last one ends after the last line.
\<close>

theorem parse_sections_lines:
  assumes "events_ok md (parser md)" and "line_count md + 1 < 2 ^ 32"
    and "parse_sections lower parser md = Some ss"
  shows "sorted (map sec_start ss) \<and>
    (\<forall>s \<in> set ss. 1 \<le> sec_start s \<and> sec_start s \<le> line_count md) \<and>
    (\<forall>i < length ss. sec_end (ss ! i) =
       (if Suc i < length ss then sec_start (ss ! Suc i) else line_count md + 1))"
proof -
  have "sorted (map sec_start ss)" "\<forall>s \<in> set ss. 1 \<le> sec_start s \<and> sec_start s \<le> line_count md"
    and en: "map sec_end ss = end_lines (line_count md + 1) (map sec_start ss)"
    using parse_sections_shape [of md parser lower] assms by auto
  moreover have "sec_end (ss ! i) = (if Suc i < length ss then sec_start (ss ! Suc i) else line_count md + 1)"
    if "i < length ss" for i
    using section_end_at [OF en that] .
  ultimately show ?thesis by blast
qed

theorem parse_sections_lines_witness:
  "\<exists>ss. parse_sections to_ascii_lowercase demo_parser demo_md = Some ss \<and> sorted (map sec_start ss) \<and>
     length ss = 3 \<and> sec_end (ss ! 2) = line_count demo_md + 1"
proof -
  obtain ss where ss: "parse_sections to_ascii_lowercase demo_parser demo_md = Some ss" "length ss = 3"
    using demo_sections by (auto dest: map_eq_imp_length_eq)
  moreover have "line_count demo_md = 3" by code_simp
  ultimately show ?thesis using parse_sections_lines [OF demo_events_ok _ ss(1)] by auto
qed

end
