(* ===== verification/Security.thy ===== *)
theory Security
  imports Bytes
begin

text \<open>
  \<open>daemon/src/security.rs\<close>: the envelope that protects records at rest and the master key
  behind it. The cipher (XChaCha20-Poly1305), base64, the random source and the operating
  system's keychain are parameters.
\<close>

section \<open>The cipher and the envelope\<close>

type_synonym key = "byte list"

record aead =
  aead_encrypt :: "key \<Rightarrow> byte list \<Rightarrow> byte list \<Rightarrow> byte list option"
  aead_decrypt :: "key \<Rightarrow> byte list \<Rightarrow> byte list \<Rightarrow> byte list option"

text \<open>What the cipher promises: decryption under the same key and nonce undoes encryption.\<close>

definition aead_laws :: "aead \<Rightarrow> bool" where
  "aead_laws a \<longleftrightarrow>
     (\<forall>k n p c. aead_encrypt a k n p = Some c \<longrightarrow> aead_decrypt a k n c = Some p)"

datatype sec_error =
    KeyUnavailable
  | InvalidKey
  | EncryptFailed
  | PayloadTruncated
  | MissingMagic
  | DecryptFailed
  | EmptySecret
  | KeychainError

definition MASTER_KEY_BYTES :: nat where
  "MASTER_KEY_BYTES = 32"

definition NONCE_BYTES :: nat where
  "NONCE_BYTES = 24"

definition ENVELOPE_MAGIC :: "byte list" where
  "ENVELOPE_MAGIC = [83, 69, 67, 49]"

definition starts_with :: "'a list \<Rightarrow> 'a list \<Rightarrow> bool" where
  "starts_with xs p \<longleftrightarrow> take (length p) xs = p"

text \<open>The nonce is the \<open>NONCE_BYTES\<close> bytes the random source filled in.\<close>

definition encrypt_with_key :: "aead \<Rightarrow> byte list \<Rightarrow> byte list \<Rightarrow> key \<Rightarrow> (sec_error, byte list) result" where
  "encrypt_with_key a nonce plaintext k =
     (case aead_encrypt a k nonce plaintext of
        None \<Rightarrow> Err EncryptFailed
      | Some ciphertext \<Rightarrow> Okay (ENVELOPE_MAGIC @ nonce @ ciphertext))"

definition decrypt_with_key :: "aead \<Rightarrow> byte list \<Rightarrow> key \<Rightarrow> (sec_error, byte list) result" where
  "decrypt_with_key a payload k =
     (if length payload < length ENVELOPE_MAGIC + NONCE_BYTES then Err PayloadTruncated
      else if \<not> starts_with payload ENVELOPE_MAGIC then Err MissingMagic
      else let nonce_start = length ENVELOPE_MAGIC;
               nonce_end = nonce_start + NONCE_BYTES;
               nonce = take NONCE_BYTES (drop nonce_start payload);
               ciphertext = drop nonce_end payload
           in case aead_decrypt a k nonce ciphertext of
                None \<Rightarrow> Err DecryptFailed
              | Some p \<Rightarrow> Okay p)"

text \<open>The master key as the process has cached it: a key, or the error of loading it.\<close>

definition encrypt_at_rest ::
  "aead \<Rightarrow> key option \<Rightarrow> byte list \<Rightarrow> byte list \<Rightarrow> (sec_error, byte list) result" where
  "encrypt_at_rest a master_key nonce plaintext =
     (case master_key of None \<Rightarrow> Err KeyUnavailable | Some k \<Rightarrow> encrypt_with_key a nonce plaintext k)"

definition decrypt_at_rest :: "aead \<Rightarrow> key option \<Rightarrow> byte list \<Rightarrow> (sec_error, byte list) result" where
  "decrypt_at_rest a master_key payload =
     (if \<not> starts_with payload ENVELOPE_MAGIC then Okay payload
      else case master_key of None \<Rightarrow> Err KeyUnavailable | Some k \<Rightarrow> decrypt_with_key a payload k)"

lemma starts_with_append [simp]: "starts_with (p @ xs) p"
  by (simp add: starts_with_def)

lemma length_magic [simp]: "length ENVELOPE_MAGIC = 4"
  by (simp add: ENVELOPE_MAGIC_def)

lemma decrypt_encrypt_at_rest:
  assumes "aead_laws a" "length nonce = NONCE_BYTES" "encrypt_at_rest a mk nonce p = Okay c"
  shows "decrypt_at_rest a mk c = Okay p"
  using assms
  by (auto simp: encrypt_at_rest_def encrypt_with_key_def decrypt_at_rest_def decrypt_with_key_def
      aead_laws_def Let_def NONCE_BYTES_def split: option.splits)

lemma envelope_needs_key:
  "encrypt_at_rest a mk nonce p = Okay c \<Longrightarrow> decrypt_at_rest a None c = Err KeyUnavailable"
  by (auto simp: encrypt_at_rest_def encrypt_with_key_def decrypt_at_rest_def split: option.splits)

text \<open>A cipher that leaves the text as it is, to evaluate the stores on.\<close>

definition null_aead :: aead where
  "null_aead = \<lparr>aead_encrypt = (\<lambda>k n p. Some p), aead_decrypt = (\<lambda>k n c. Some c)\<rparr>"

lemma null_aead_laws [simp]: "aead_laws null_aead"
  by (simp add: aead_laws_def null_aead_def)

lemma null_encrypt: "encrypt_at_rest null_aead (Some k) n p = Okay (ENVELOPE_MAGIC @ n @ p)"
  by (simp add: encrypt_at_rest_def encrypt_with_key_def null_aead_def)

abbreviation zero_nonce :: "byte list" where
  "zero_nonce \<equiv> replicate 24 0"

section \<open>Secrets and the master key\<close>

datatype secret_slot = ApiKey | GitCredentials | RelayToken

fun account :: "secret_slot \<Rightarrow> string" where
  "account ApiKey = ''api_key''"
| "account GitCredentials = ''git_credentials''"
| "account RelayToken = ''relay_token''"

definition KEYRING_SERVICE :: string where
  "KEYRING_SERVICE = ''com.scriptum.daemon''"

definition MASTER_KEY_ACCOUNT :: string where
  "MASTER_KEY_ACCOUNT = ''crdt_master_key_v1''"

text \<open>The trait \<open>SecretStore\<close>: each call may fail; a lookup may find nothing.\<close>

record 's secret_store =
  store_set :: "string \<Rightarrow> string \<Rightarrow> rstr \<Rightarrow> 's \<Rightarrow> 's option"
  store_get :: "string \<Rightarrow> string \<Rightarrow> 's \<Rightarrow> rstr option option"
  store_delete :: "string \<Rightarrow> string \<Rightarrow> 's \<Rightarrow> 's option"

definition set_secret_with_store ::
  "'s secret_store \<Rightarrow> secret_slot \<Rightarrow> rstr \<Rightarrow> 's \<Rightarrow> (sec_error, 's) result" where
  "set_secret_with_store store slot v s =
     (if trim v = [] then Err EmptySecret
      else case store_set store KEYRING_SERVICE (account slot) v s of
             None \<Rightarrow> Err KeychainError
           | Some s' \<Rightarrow> Okay s')"

definition get_secret_with_store ::
  "'s secret_store \<Rightarrow> secret_slot \<Rightarrow> 's \<Rightarrow> (sec_error, rstr option) result" where
  "get_secret_with_store store slot s =
     (case store_get store KEYRING_SERVICE (account slot) s of
        None \<Rightarrow> Err KeychainError
      | Some r \<Rightarrow> Okay r)"

definition delete_secret_with_store ::
  "'s secret_store \<Rightarrow> secret_slot \<Rightarrow> 's \<Rightarrow> (sec_error, 's) result" where
  "delete_secret_with_store store slot s =
     (case store_delete store KEYRING_SERVICE (account slot) s of
        None \<Rightarrow> Err KeychainError
      | Some s' \<Rightarrow> Okay s')"

text \<open>\<open>b64\<close> and \<open>unb64\<close> are the base64 engine.\<close>

definition decode_key :: "(rstr \<Rightarrow> byte list option) \<Rightarrow> rstr \<Rightarrow> (sec_error, key) result" where
  "decode_key unb64 encoded =
     (case unb64 (trim encoded) of
        None \<Rightarrow> Err InvalidKey
      | Some bytes \<Rightarrow> if length bytes \<noteq> MASTER_KEY_BYTES then Err InvalidKey else Okay bytes)"

definition load_or_create_master_key ::
  "(byte list \<Rightarrow> rstr) \<Rightarrow> (rstr \<Rightarrow> byte list option) \<Rightarrow> 's secret_store \<Rightarrow> rstr option \<Rightarrow> key \<Rightarrow> 's \<Rightarrow>
   (sec_error, key) result \<times> 's" where
  "load_or_create_master_key b64 unb64 store env random_key s =
     (case env of
        Some v \<Rightarrow> (decode_key unb64 v, s)
      | None \<Rightarrow>
          (case store_get store KEYRING_SERVICE MASTER_KEY_ACCOUNT s of
             None \<Rightarrow> (Err KeychainError, s)
           | Some (Some stored) \<Rightarrow> (decode_key unb64 stored, s)
           | Some None \<Rightarrow>
               (case store_set store KEYRING_SERVICE MASTER_KEY_ACCOUNT (b64 random_key) s of
                  None \<Rightarrow> (Err KeychainError, s)
                | Some s' \<Rightarrow> (Okay random_key, s'))))"

text \<open>What the daemon relies on of a keychain: a value just written is read back.\<close>

locale keychain =
  fixes store :: "'s secret_store"
  assumes get_set: "store_set store svc acct v s = Some s' \<Longrightarrow> store_get store svc acct s' = Some (Some v)"
begin

lemma secret_round_trip:
  "set_secret_with_store store slot v s = Okay s' \<Longrightarrow>
   get_secret_with_store store slot s' = Okay (Some v) \<and> trim v \<noteq> []"
  by (auto simp: set_secret_with_store_def get_secret_with_store_def dest: get_set split: if_splits option.splits)

lemma master_key_stable:
  assumes "\<forall>k. unb64 (trim (b64 k)) = Some k" "length random_key = MASTER_KEY_BYTES"
    and "load_or_create_master_key b64 unb64 store None random_key s = (Okay k, s')"
  shows "fst (load_or_create_master_key b64 unb64 store None other_key s') = Okay k"
proof (cases "store_get store KEYRING_SERVICE MASTER_KEY_ACCOUNT s")
  case (Some r)
  show ?thesis
  proof (cases r)
    case None
    then obtain s1 where "store_set store KEYRING_SERVICE MASTER_KEY_ACCOUNT (b64 random_key) s = Some s1"
      using assms(3) Some by (auto simp: load_or_create_master_key_def split: option.splits)
    then show ?thesis using None Some assms get_set
      by (auto simp: load_or_create_master_key_def decode_key_def)
  next
    case (Some v)
    then show ?thesis using \<open>store_get store _ _ s = Some r\<close> assms(3)
      by (auto simp: load_or_create_master_key_def)
  qed
qed (use assms(3) in \<open>auto simp: load_or_create_master_key_def\<close>)

end

text \<open>A keychain that keeps its entries in a table, as the store the tests use does.\<close>

definition table_store :: "(string \<times> string \<Rightarrow> rstr option) secret_store" where
  "table_store =
     \<lparr>store_set = (\<lambda>svc acct v s. Some (s((svc, acct) := Some v))),
      store_get = (\<lambda>svc acct s. Some (s (svc, acct))),
      store_delete = (\<lambda>svc acct s. Some (s((svc, acct) := None)))\<rparr>"

interpretation table: keychain table_store
  by unfold_locales (auto simp: table_store_def)

end
