(* ===== verification/Wal.thy ===== *)
theory Wal
  imports Security
begin

text \<open>
  \<open>daemon/src/store/wal.rs\<close>: the write-ahead log of a document. A log file is its bytes; the
  file system calls are taken to succeed. Frames are length, FNV-1a checksum and an encrypted
  payload; replay stops at the first bad frame and cuts the file there.
\<close>

section \<open>Frames\<close>

definition FRAME_HEADER_BYTES :: nat where
  "FRAME_HEADER_BYTES = 8"

definition MAX_UPDATE_BYTES :: nat where
  "MAX_UPDATE_BYTES = 2 ^ 20 + 128"

definition checksum :: "byte list \<Rightarrow> 32 word" where
  "checksum payload = foldl (\<lambda>hash b. (xor hash (ucast b)) * 0x01000193) 0x811c9dc5 payload"

datatype wal_error = EncryptError sec_error | PayloadTooLarge

definition wal_frame :: "byte list \<Rightarrow> byte list" where
  "wal_frame c = le_bytes 4 (length c) @ le_bytes 4 (unat (checksum c)) @ c"

definition append_update ::
  "aead \<Rightarrow> key option \<Rightarrow> byte list \<Rightarrow> byte list \<Rightarrow> byte list \<Rightarrow> (wal_error, byte list) result" where
  "append_update a master_key nonce payload file =
     (case encrypt_at_rest a master_key nonce payload of
        Inl e \<Rightarrow> Err (EncryptError e)
      | Inr encrypted \<Rightarrow>
          if length encrypted \<ge> 2 ^ 32 then Err PayloadTooLarge
          else Okay (file @ wal_frame encrypted))"

section \<open>Replay\<close>

record wal_replay_summary =
  applied :: nat
  valid_frames :: nat
  truncated :: bool
  checksum_failed :: bool

text \<open>
  The loop: what is left of the file, the offset where it begins and the counters. The result
  is the error of the callback, or its state with the counters, the offset to cut at and the
  checksum flag. \<open>decrypt\<close> is \<open>decrypt_at_rest\<close> under the process's key.
\<close>

function replay_loop ::
  "(byte list \<Rightarrow> (sec_error, byte list) result) \<Rightarrow> nat \<Rightarrow> (byte list \<Rightarrow> 's \<Rightarrow> ('e, 's) result) \<Rightarrow>
   byte list \<Rightarrow> nat \<Rightarrow> nat \<Rightarrow> nat \<Rightarrow> 's \<Rightarrow> ('e, 's \<times> nat \<times> nat \<times> nat option \<times> bool) result"
where
  "replay_loop decrypt start_frame on_update rest frame_offset app valid s =
     (if rest = [] then Okay (s, app, valid, None, False)
      else if length rest < FRAME_HEADER_BYTES then Okay (s, app, valid, Some frame_offset, False)
      else
        let len = le_nat (take 4 rest);
            expected_checksum = le_nat (take 4 (drop 4 rest));
            body = drop FRAME_HEADER_BYTES rest
        in if len > MAX_UPDATE_BYTES then Okay (s, app, valid, Some frame_offset, False)
           else if length body < len then Okay (s, app, valid, Some frame_offset, False)
           else if expected_checksum \<noteq> unat (checksum (take len body))
           then Okay (s, app, valid, Some frame_offset, True)
           else case decrypt (take len body) of
             Inl _ \<Rightarrow> Okay (s, app, valid, Some frame_offset, True)
           | Inr payload \<Rightarrow>
               if valid \<ge> start_frame then
                 (case on_update payload s of
                    Inl e \<Rightarrow> Err e
                  | Inr s' \<Rightarrow>
                      replay_loop decrypt start_frame on_update (drop len body)
                        (frame_offset + FRAME_HEADER_BYTES + len) (sat_usize (app + 1)) (sat_usize (valid + 1)) s')
               else
                 replay_loop decrypt start_frame on_update (drop len body)
                   (frame_offset + FRAME_HEADER_BYTES + len) app (sat_usize (valid + 1)) s)"
  by auto
termination
  by (relation "measure (\<lambda>(_, _, _, rest, _). length rest)") (auto simp: FRAME_HEADER_BYTES_def)

declare replay_loop.simps [simp del]

text \<open>\<open>replay_from_frame\<close>: the callback's error leaves the file as it is.\<close>

definition replay_from_frame ::
  "aead \<Rightarrow> key option \<Rightarrow> nat \<Rightarrow> (byte list \<Rightarrow> 's \<Rightarrow> ('e, 's) result) \<Rightarrow> byte list \<Rightarrow> 's \<Rightarrow>
   ('e, wal_replay_summary \<times> byte list \<times> 's) result" where
  "replay_from_frame a master_key start_frame on_update file s =
     (case replay_loop (decrypt_at_rest a master_key) start_frame on_update file 0 0 0 s of
        Inl e \<Rightarrow> Err e
      | Inr (s', app, valid, truncate_to, failed) \<Rightarrow>
          Okay (\<lparr>applied = app, valid_frames = valid, truncated = truncate_to \<noteq> None, checksum_failed = failed\<rparr>,
                (case truncate_to of Some offset \<Rightarrow> take offset file | None \<Rightarrow> file), s'))"

definition replay ::
  "aead \<Rightarrow> key option \<Rightarrow> (byte list \<Rightarrow> 's \<Rightarrow> ('e, 's) result) \<Rightarrow> byte list \<Rightarrow> 's \<Rightarrow>
   ('e, nat \<times> byte list \<times> 's) result" where
  "replay a master_key on_update file s =
     map_sum id (\<lambda>(summary, file', s'). (applied summary, file', s'))
       (replay_from_frame a master_key 0 on_update file s)"

section \<open>Replaying frames\<close>

fun apply_all :: "('p \<Rightarrow> 's \<Rightarrow> ('e, 's) result) \<Rightarrow> 'p list \<Rightarrow> 's \<Rightarrow> ('e, 's) result" where
  "apply_all f [] s = Okay s"
| "apply_all f (p # ps) s = (case f p s of Inl e \<Rightarrow> Err e | Inr s' \<Rightarrow> apply_all f ps s')"

text \<open>A ciphertext that replay reads back as a given payload.\<close>

definition readable :: "(byte list \<Rightarrow> (sec_error, byte list) result) \<Rightarrow> byte list \<Rightarrow> byte list \<Rightarrow> bool" where
  "readable decrypt c p \<longleftrightarrow> decrypt c = Okay p \<and> length c \<le> MAX_UPDATE_BYTES"

lemma wal_frame_fields:
  assumes "length c < 2 ^ 32"
  shows "le_nat (take 4 (wal_frame c)) = length c"
    "le_nat (take 4 (drop 4 (wal_frame c))) = unat (checksum c)"
    "drop 8 (wal_frame c) = c"
proof -
  have "unat (checksum c) < 256 ^ 4" using unsigned_less [of "checksum c"] by simp
  then show "le_nat (take 4 (wal_frame c)) = length c"
    "le_nat (take 4 (drop 4 (wal_frame c))) = unat (checksum c)" "drop 8 (wal_frame c) = c"
    using assms by (simp_all add: wal_frame_def)
qed

lemma length_wal_frame [simp]: "length (wal_frame c) = 8 + length c"
  by (simp add: wal_frame_def)

lemma wal_frame_ne [simp]: "wal_frame c \<noteq> []"
  using length_wal_frame [of c] by (metis add_is_0 list.size(3) zero_neq_numeral)

lemma readable_len: "readable d c p \<Longrightarrow> length c < 2 ^ 32"
  by (simp add: readable_def MAX_UPDATE_BYTES_def)

lemma replay_loop_frame:
  assumes "readable d c p"
  shows "replay_loop d start f (wal_frame c @ rest) off app valid s =
    (if valid \<ge> start then
       (case f p s of
          Inl e \<Rightarrow> Err e
        | Inr s' \<Rightarrow> replay_loop d start f rest (off + 8 + length c) (sat_usize (app + 1)) (sat_usize (valid + 1)) s')
     else replay_loop d start f rest (off + 8 + length c) app (sat_usize (valid + 1)) s)"
  using assms
  by (subst replay_loop.simps)
    (simp add: wal_frame_fields [OF readable_len [OF assms]] FRAME_HEADER_BYTES_def Let_def readable_def
      split: sum.split)

lemma replay_loop_frames:
  "list_all2 (readable d) cs ps \<Longrightarrow> app \<le> valid \<Longrightarrow> valid + length ps \<le> usize_max \<Longrightarrow>
   apply_all f (drop (start - valid) ps) s = Okay s' \<Longrightarrow>
   replay_loop d start f (concat (map wal_frame cs) @ rest) off app valid s =
   replay_loop d start f rest (off + length (concat (map wal_frame cs)))
     (app + (length ps - (start - valid))) (valid + length ps) s'"
proof (induction cs ps arbitrary: off app valid s rule: list_all2_induct)
  case (Cons c cs p ps)
  show ?case
  proof (cases "valid \<ge> start")
    case True
    then obtain s1 where s1: "f p s = Okay s1" "apply_all f ps s1 = Okay s'"
      using Cons.prems(3) by (auto split: sum.splits)
    show ?thesis
      using True Cons.hyps(1) Cons.prems s1 Cons.IH [of "app + 1" "valid + 1" s1 "off + 8 + length c"]
      by (simp add: replay_loop_frame add.assoc)
  next
    case False
    then have "drop (start - valid) (p # ps) = drop (start - (valid + 1)) ps"
      by (simp add: drop_Cons' )
    then show ?thesis
      using False Cons.hyps(1) Cons.prems Cons.IH [of app "valid + 1" s "off + 8 + length c"]
      by (simp add: replay_loop_frame add.assoc Suc_diff_le)
  qed
qed simp

text \<open>A frame cut short anywhere, as an append torn by a crash leaves it.\<close>

lemma replay_loop_torn:
  assumes "k < length (wal_frame c)" "length c < 2 ^ 32"
  shows "replay_loop d start f (take k (wal_frame c)) off app valid s =
    Okay (s, app, valid, if k = 0 then None else Some off, False)"
proof (cases "k < 8")
  case True
  then show ?thesis using assms
    by (subst replay_loop.simps) (auto simp: FRAME_HEADER_BYTES_def)
next
  case False
  then have "4 \<le> k" by simp
  then show ?thesis using assms False
    by (subst replay_loop.simps)
      (auto simp: FRAME_HEADER_BYTES_def wal_frame_fields(1) [OF assms(2)] Let_def min_def)
qed

section \<open>Logs written by the daemon\<close>

text \<open>
  The files that a sequence of successful appends of updates below the replay cap leaves
  behind, with the updates.
\<close>

inductive written :: "aead \<Rightarrow> key option \<Rightarrow> byte list \<Rightarrow> byte list list \<Rightarrow> bool" for a mk where
  written_empty: "written a mk [] []"
| written_append:
    "written a mk file ps \<Longrightarrow> length nonce = NONCE_BYTES \<Longrightarrow>
     append_update a mk nonce p file = Okay file' \<Longrightarrow>
     length file' \<le> length file + FRAME_HEADER_BYTES + MAX_UPDATE_BYTES \<Longrightarrow>
     written a mk file' (ps @ [p])"

lemma append_update_frame:
  assumes "append_update a mk nonce p file = Okay file'"
  obtains c where "encrypt_at_rest a mk nonce p = Okay c" "length c < 2 ^ 32" "file' = file @ wal_frame c"
  using assms by (auto simp: append_update_def split: sum.splits if_splits)

lemma written_frames:
  assumes "written a mk file ps" "aead_laws a"
  shows "\<exists>cs. file = concat (map wal_frame cs) \<and> list_all2 (readable (decrypt_at_rest a mk)) cs ps"
  using assms(1)
proof induction
  case (written_append file0 ps nonce p file')
  obtain cs where cs: "file0 = concat (map wal_frame cs)" "list_all2 (readable (decrypt_at_rest a mk)) cs ps"
    using written_append.IH by blast
  obtain c where c: "encrypt_at_rest a mk nonce p = Okay c" "file' = file0 @ wal_frame c"
    using append_update_frame [OF written_append.hyps(3)] by blast
  have "readable (decrypt_at_rest a mk) c p"
    using decrypt_encrypt_at_rest [OF assms(2) written_append.hyps(2) c(1)] c(2) written_append.hyps(4)
    by (simp add: readable_def FRAME_HEADER_BYTES_def)
  then show ?case using cs c
    by (intro exI [of _ "cs @ [c]"]) (simp add: list_all2_appendI)
qed simp

lemma replay_written:
  assumes "written a mk file ps" "aead_laws a" "length ps \<le> usize_max"
    and "apply_all f (drop start ps) s = Okay s'"
    and rest: "replay_loop (decrypt_at_rest a mk) start f rest (length file) (length ps - start) (length ps) s' =
      Okay (s'', app, valid, trunc, failed)"
  shows "replay_from_frame a mk start f (file @ rest) s =
    Okay (\<lparr>applied = app, valid_frames = valid, truncated = trunc \<noteq> None, checksum_failed = failed\<rparr>,
          (case trunc of Some offset \<Rightarrow> take offset (file @ rest) | None \<Rightarrow> file @ rest), s'')"
proof -
  obtain cs where cs: "file = concat (map wal_frame cs)" "list_all2 (readable (decrypt_at_rest a mk)) cs ps"
    using written_frames [OF assms(1,2)] by blast
  have "replay_loop (decrypt_at_rest a mk) start f (file @ rest) 0 0 0 s =
      replay_loop (decrypt_at_rest a mk) start f rest (length file) (length ps - start) (length ps) s'"
    unfolding cs(1) using replay_loop_frames [OF cs(2), of 0 0 f start s s' rest 0] assms(3,4) by simp
  then show ?thesis using rest by (simp add: replay_from_frame_def)
qed

lemma replay_torn:
  assumes "aead_laws a" and "written a mk file ps" and "length ps \<le> usize_max"
    and "append_update a mk nonce p file = Okay file'"
    and "length file \<le> k" and "k < length file'"
    and "apply_all f (drop start ps) s = Okay s'"
  shows "replay_from_frame a mk start f (take k file') s =
    Okay (\<lparr>applied = length ps - start, valid_frames = length ps,
           truncated = (k \<noteq> length file), checksum_failed = False\<rparr>, file, s')"
proof -
  obtain c where c: "length c < 2 ^ 32" "file' = file @ wal_frame c"
    using append_update_frame [OF assms(4)] by blast
  let ?k = "k - length file"
  have tk: "take k file' = file @ take ?k (wal_frame c)" using c(2) assms(5) by simp
  have k: "?k < length (wal_frame c)" using assms(5,6) c(2) by simp
  show ?thesis unfolding tk
    using replay_written [OF assms(2,1,3,7) replay_loop_torn [OF k c(1)]] assms(5) by auto
qed

section \<open>Properties\<close>

text \<open>
  (C3) Crash safety of the log. Take a log written by successful appends and a further append
  that a crash cuts short after any number of its bytes. Replaying what is on disk from frame
  \<open>start\<close> hands exactly the completed updates from \<open>start\<close> on to the callback, in order, counts
  all completed frames, reports no checksum failure, and cuts the file back to the completed
  frames.
\<close>

theorem wal_replay_after_torn_append:
  assumes "aead_laws a" and "written a mk file ps" and "length ps \<le> usize_max"
    and "append_update a mk nonce p file = Okay file'"
    and "length file \<le> k" and "k < length file'"
    and "apply_all f (drop start ps) s = Okay s'"
  shows "replay_from_frame a mk start f (take k file') s =
    Okay (\<lparr>applied = length ps - start, valid_frames = length ps,
           truncated = (k \<noteq> length file), checksum_failed = False\<rparr>, file, s')"
  by (rule replay_torn [OF assms])

lemma null_append:
  "length p < 1000 \<Longrightarrow>
   append_update null_aead (Some k) zero_nonce p file =
     Okay (file @ wal_frame (ENVELOPE_MAGIC @ zero_nonce @ p))"
  by (simp add: append_update_def null_encrypt)

lemma null_written:
  "length p < 1000 \<Longrightarrow>
   written null_aead (Some k) (wal_frame (ENVELOPE_MAGIC @ zero_nonce @ p)) [p]"
  using written_append [OF written_empty _ null_append [of p k "[]"]]
  by (simp add: NONCE_BYTES_def FRAME_HEADER_BYTES_def MAX_UPDATE_BYTES_def)

theorem wal_replay_after_torn_append_witness:
  "replay_from_frame null_aead (Some []) 0 (\<lambda>p s. Okay (s @ p))
     (take 50 (wal_frame (ENVELOPE_MAGIC @ zero_nonce @ [7, 8]) @
               wal_frame (ENVELOPE_MAGIC @ zero_nonce @ [9]))) [1] =
   (Okay (\<lparr>applied = 1, valid_frames = 1, truncated = True, checksum_failed = False\<rparr>,
          wal_frame (ENVELOPE_MAGIC @ zero_nonce @ [7, 8]), [1, 7, 8]) ::
      (unit, wal_replay_summary \<times> byte list \<times> byte list) result)"
  using wal_replay_after_torn_append
    [OF null_aead_laws null_written [of "[7, 8]" "[]"] _ null_append [of "[9]" "[]"],
     where k = 50 and start = 0 and s = "[1]" and s' = "[1, 7, 8]" and f = "\<lambda>p s. Okay (s @ p)"]
  by (simp add: usize_max_def)

text \<open>
  An append of an update whose encrypted form is longer than \<open>MAX_UPDATE_BYTES\<close> succeeds,
  but the next replay drops that update and everything that was appended after it: only the
  updates before it are applied, and the file is cut back to them.
\<close>

theorem wal_oversized_update_lost:
  assumes "aead_laws a" and "written a mk file ps" and "length ps \<le> usize_max"
    and "append_update a mk nonce p file = Okay file'"
    and "length file + FRAME_HEADER_BYTES + MAX_UPDATE_BYTES < length file'"
    and "apply_all f (drop start ps) s = Okay s'"
  shows "replay_from_frame a mk start f (file' @ later) s =
    Okay (\<lparr>applied = length ps - start, valid_frames = length ps,
           truncated = True, checksum_failed = False\<rparr>, file, s')"
proof -
  obtain c where c: "length c < 2 ^ 32" "file' = file @ wal_frame c"
    using append_update_frame [OF assms(4)] by blast
  have stop: "replay_loop d start f (wal_frame c @ later) off app valid s' = Okay (s', app, valid, Some off, False)"
    for d off app valid
    using c assms(5)
    by (subst replay_loop.simps) (simp add: FRAME_HEADER_BYTES_def wal_frame_fields(1) [OF c(1)] Let_def)
  show ?thesis using replay_written [OF assms(2,1,3,6) stop] c(2) by simp
qed

text \<open>The same append in one step, on an update of one mebibyte more than the cap.\<close>

theorem wal_oversized_update_lost_witness:
  "\<exists>file'. append_update null_aead (Some []) zero_nonce (replicate (2 ^ 20 + 128) 0) [] = Okay file' \<and>
     replay_from_frame null_aead (Some []) 0 (\<lambda>p s. Okay (s @ p)) (file' @ wal_frame [5]) [1] =
     (Okay (\<lparr>applied = 0, valid_frames = 0, truncated = True, checksum_failed = False\<rparr>, [], [1]) ::
        (unit, wal_replay_summary \<times> byte list \<times> byte list) result)"
proof -
  let ?c = "ENVELOPE_MAGIC @ zero_nonce @ replicate (2 ^ 20 + 128) (0 :: byte)"
  have ap: "append_update null_aead (Some []) zero_nonce (replicate (2 ^ 20 + 128) 0) [] = Okay (wal_frame ?c)"
    by (simp add: append_update_def null_encrypt)
  show ?thesis
    using wal_oversized_update_lost [OF null_aead_laws written_empty _ ap, where start = 0 and later = "wal_frame [5]"
        and s = "[1]" and s' = "[1]" and f = "\<lambda>p s. Okay (s @ p)"] ap
    by (simp add: usize_max_def FRAME_HEADER_BYTES_def MAX_UPDATE_BYTES_def)
qed

text \<open>
  Replaying an encrypted log while the master key cannot be loaded erases it: nothing is
  applied, the summary reports a checksum failure, and the file is cut to nothing.
\<close>

theorem wal_replay_without_key_erases:
  assumes "written a (Some k) file ps" and "ps \<noteq> []"
  shows "replay_from_frame a None start f file s =
    Okay (\<lparr>applied = 0, valid_frames = 0, truncated = True, checksum_failed = True\<rparr>, [], s)"
proof -
  have "\<exists>c n p rest. file = wal_frame c @ rest \<and> encrypt_at_rest a (Some k) n p = Okay c \<and> length c \<le> MAX_UPDATE_BYTES"
    using assms
  proof induction
    case (written_append file0 ps nonce p file')
    obtain c where c: "encrypt_at_rest a (Some k) nonce p = Okay c" "file' = file0 @ wal_frame c"
      using append_update_frame [OF written_append.hyps(3)] by blast
    have len: "length c \<le> MAX_UPDATE_BYTES"
      using written_append.hyps(4) c(2) by (simp add: FRAME_HEADER_BYTES_def)
    show ?case
    proof (cases "ps = []")
      case True
      then have "file0 = []" using written_append.hyps(1) by (auto elim: written.cases)
      then show ?thesis using c len
        by (intro exI [of _ c] exI [of _ nonce] exI [of _ p] exI [of _ "[]"]) simp
    next
      case False
      then show ?thesis using written_append.IH c(2) by fastforce
    qed
  qed simp
  then obtain c n p rest where c: "file = wal_frame c @ rest" "encrypt_at_rest a (Some k) n p = Okay c"
    "length c \<le> MAX_UPDATE_BYTES" by blast
  then have "length c < 2 ^ 32" by (simp add: MAX_UPDATE_BYTES_def)
  note fields = wal_frame_fields [OF this]
  have "replay_loop (decrypt_at_rest a None) start f file 0 0 0 s = Okay (s, 0, 0, Some 0, True)"
    using c(1,3) envelope_needs_key [OF c(2)]
    by (subst replay_loop.simps) (simp add: FRAME_HEADER_BYTES_def fields Let_def)
  then show ?thesis by (simp add: replay_from_frame_def)
qed

theorem wal_replay_without_key_erases_witness:
  "replay_from_frame null_aead None 0 (\<lambda>p s. Okay (s @ p)) (wal_frame (ENVELOPE_MAGIC @ zero_nonce @ [7])) [1] =
   (Okay (\<lparr>applied = 0, valid_frames = 0, truncated = True, checksum_failed = True\<rparr>, [], [1]) ::
      (unit, wal_replay_summary \<times> byte list \<times> byte list) result)"
  by (rule wal_replay_without_key_erases [OF null_written]) simp_all

end
