(* ===== verification/SnapshotStore.thy ===== *)
theory SnapshotStore
  imports Security
begin

text \<open>
  \<open>daemon/src/store/snapshot.rs\<close>: full-document snapshots on disk, with run-length
  compression, a checked header and an atomic replacement of the previous snapshot. The
  directory of snapshots is a map from file names to bytes; the trace of a save is the
  directory after each file operation, which is what a crash can leave behind.
\<close>

section \<open>Run-length compression\<close>

fun rle_loop :: "byte list \<Rightarrow> byte \<Rightarrow> nat \<Rightarrow> byte list \<Rightarrow> byte list" where
  "rle_loop out run_byte run_len [] = out @ [of_nat run_len, run_byte]"
| "rle_loop out run_byte run_len (b # rest) =
     (if b = run_byte \<and> run_len < 255 then rle_loop out run_byte (min 255 (run_len + 1)) rest
      else rle_loop (out @ [of_nat run_len, run_byte]) b 1 rest)"

definition rle_compress :: "byte list \<Rightarrow> byte list" where
  "rle_compress input = (case input of [] \<Rightarrow> [] | b # rest \<Rightarrow> rle_loop [] b 1 rest)"

fun rle_expand :: "byte list \<Rightarrow> byte list" where
  "rle_expand (n # b # rest) = replicate (unat n) b @ rle_expand rest"
| "rle_expand _ = []"

datatype snapshot_error =
    SnapEncrypt sec_error
  | SnapTooLarge
  | TruncatedHeader
  | InvalidMagic
  | UnsupportedVersion byte
  | UnknownCodec byte
  | SnapDecrypt sec_error
  | InvalidRle nat
  | SnapLengthMismatch nat nat

definition rle_decompress :: "byte list \<Rightarrow> (snapshot_error, byte list) result" where
  "rle_decompress input =
     (if length input mod 2 \<noteq> 0 then Err (InvalidRle (length input)) else Okay (rle_expand input))"

datatype snapshot_codec = Raw | Rle

fun codec_to_u8 :: "snapshot_codec \<Rightarrow> byte" where
  "codec_to_u8 Raw = 0"
| "codec_to_u8 Rle = 1"

definition codec_from_u8 :: "byte \<Rightarrow> snapshot_codec option" where
  "codec_from_u8 v = (if v = 0 then Some Raw else if v = 1 then Some Rle else None)"

definition encode_payload :: "byte list \<Rightarrow> snapshot_codec \<times> byte list" where
  "encode_payload payload =
     (let rle = rle_compress payload in
      if length rle < length payload then (Rle, rle) else (Raw, payload))"

definition decode_payload :: "snapshot_codec \<Rightarrow> byte list \<Rightarrow> nat \<Rightarrow> (snapshot_error, byte list) result" where
  "decode_payload codec encoded expected_len =
     (case (case codec of Raw \<Rightarrow> Okay encoded | Rle \<Rightarrow> rle_decompress encoded) of
        Inl e \<Rightarrow> Err e
      | Inr decoded \<Rightarrow>
          if length decoded \<noteq> expected_len then Err (SnapLengthMismatch expected_len (length decoded))
          else Okay decoded)"

section \<open>Files\<close>

datatype snap_path = SnapshotPath uuid | TempPath uuid nat

type_synonym snap_dir = "snap_path \<Rightarrow> byte list option"

record snapshot_record =
  snapshot_seq :: int
  snapshot_payload :: "byte list"
  snapshot_codec :: snapshot_codec

definition SNAPSHOT_MAGIC :: "byte list" where
  "SNAPSHOT_MAGIC = [83, 78, 80, 49]"

definition SNAPSHOT_VERSION :: byte where
  "SNAPSHOT_VERSION = 1"

definition SNAPSHOT_HEADER_BYTES :: nat where
  "SNAPSHOT_HEADER_BYTES = 18"

definition snapshot_header :: "snapshot_codec \<Rightarrow> int \<Rightarrow> nat \<Rightarrow> byte list" where
  "snapshot_header codec seq len =
     SNAPSHOT_MAGIC @ [SNAPSHOT_VERSION] @ [codec_to_u8 codec] @ i64_to_le seq @ le_bytes 4 len"

definition save_snapshot_trace ::
  "aead \<Rightarrow> key option \<Rightarrow> byte list \<Rightarrow> nat \<Rightarrow> uuid \<Rightarrow> int \<Rightarrow> byte list \<Rightarrow> snap_dir \<Rightarrow>
   (snapshot_error, snap_dir list) result" where
  "save_snapshot_trace a master_key nonce tmp_nonce doc_id seq payload dir =
     (let (codec, encoded) = encode_payload payload in
      case encrypt_at_rest a master_key nonce encoded of
        Inl e \<Rightarrow> Err (SnapEncrypt e)
      | Inr encrypted \<Rightarrow>
          if length payload \<ge> 2 ^ 32 then Err SnapTooLarge
          else
            let header = snapshot_header codec seq (length payload);
                target_path = SnapshotPath doc_id;
                tmp_path = TempPath doc_id tmp_nonce
            in Okay [dir(tmp_path \<mapsto> []),
                     dir(tmp_path \<mapsto> header),
                     dir(tmp_path \<mapsto> header @ encrypted),
                     dir(tmp_path := None, target_path \<mapsto> header @ encrypted)])"

definition save_snapshot ::
  "aead \<Rightarrow> key option \<Rightarrow> byte list \<Rightarrow> nat \<Rightarrow> uuid \<Rightarrow> int \<Rightarrow> byte list \<Rightarrow> snap_dir \<Rightarrow>
   (snapshot_error, snap_dir) result" where
  "save_snapshot a master_key nonce tmp_nonce doc_id seq payload dir =
     map_sum id last (save_snapshot_trace a master_key nonce tmp_nonce doc_id seq payload dir)"

definition load_snapshot ::
  "aead \<Rightarrow> key option \<Rightarrow> uuid \<Rightarrow> snap_dir \<Rightarrow> (snapshot_error, snapshot_record option) result" where
  "load_snapshot a master_key doc_id dir =
     (case dir (SnapshotPath doc_id) of
        None \<Rightarrow> Okay None
      | Some contents \<Rightarrow>
          if length contents < SNAPSHOT_HEADER_BYTES then Err TruncatedHeader
          else
            let header = take SNAPSHOT_HEADER_BYTES contents;
                encoded = drop SNAPSHOT_HEADER_BYTES contents
            in if take 4 header \<noteq> SNAPSHOT_MAGIC then Err InvalidMagic
               else if header ! 4 \<noteq> SNAPSHOT_VERSION then Err (UnsupportedVersion (header ! 4))
               else case codec_from_u8 (header ! 5) of
                 None \<Rightarrow> Err (UnknownCodec (header ! 5))
               | Some codec \<Rightarrow>
                   let seq = i64_from_le (take 8 (drop 6 header));
                       expected_len = le_nat (take 4 (drop 14 header))
                   in case decrypt_at_rest a master_key encoded of
                        Inl e \<Rightarrow> Err (SnapDecrypt e)
                      | Inr plain \<Rightarrow>
                          (case decode_payload codec plain expected_len of
                             Inl e \<Rightarrow> Err e
                           | Inr payload \<Rightarrow>
                               Okay (Some \<lparr>snapshot_seq = seq, snapshot_payload = payload, snapshot_codec = codec\<rparr>)))"

definition SNAPSHOT_INTERVAL_UPDATES :: int where
  "SNAPSHOT_INTERVAL_UPDATES = 1000"

definition SNAPSHOT_INTERVAL_MINUTES :: int where
  "SNAPSHOT_INTERVAL_MINUTES = 10"

definition should_snapshot :: "int \<Rightarrow> int \<Rightarrow> timestamp \<Rightarrow> timestamp \<Rightarrow> bool" where
  "should_snapshot last_snapshot_seq current_seq last_snapshot_at now =
     (sat_i64 (current_seq - last_snapshot_seq) \<ge> SNAPSHOT_INTERVAL_UPDATES \<or>
      now - last_snapshot_at \<ge> SNAPSHOT_INTERVAL_MINUTES * 60 * 1000000000)"

section \<open>Round trips\<close>

lemma rle_expand_append:
  "even (length xs) \<Longrightarrow> rle_expand (xs @ ys) = rle_expand xs @ rle_expand ys"
  by (induction xs rule: rle_expand.induct) auto

lemma rle_loop_expand:
  "even (length out) \<Longrightarrow> 1 \<le> n \<Longrightarrow> n \<le> 255 \<Longrightarrow>
   rle_expand (rle_loop out b n rest) = rle_expand out @ replicate n b @ rest \<and>
   even (length (rle_loop out b n rest))"
proof (induction out b n rest rule: rle_loop.induct)
  case (1 out b n)
  then have "unat (of_nat n :: byte) = n" by (intro unat_lead) simp
  then show ?case using 1 by (simp add: rle_expand_append)
next
  case (2 out b n c rest)
  show ?case
  proof (cases "c = b \<and> n < 255")
    case True
    then have "min 255 (n + 1) = Suc n" by simp
    then show ?thesis using 2 True by (simp add: replicate_app_Cons_same)
  next
    case False
    have "unat (of_nat n :: byte) = n" using 2 by (intro unat_lead) simp
    moreover have "rle_expand (rle_loop (out @ [of_nat n, b]) c 1 rest) =
        rle_expand (out @ [of_nat n, b]) @ replicate 1 c @ rest \<and>
        even (length (rle_loop (out @ [of_nat n, b]) c 1 rest))"
      using False "2.prems" by (intro "2.IH"(2)) auto
    moreover have "rle_loop out b n (c # rest) = rle_loop (out @ [of_nat n, b]) c 1 rest"
      using False by auto
    ultimately show ?thesis using "2.prems" by (simp add: rle_expand_append)
  qed
qed

lemma rle_round_trip: "rle_decompress (rle_compress xs) = Okay xs"
proof (cases xs)
  case (Cons b rest)
  then show ?thesis using rle_loop_expand [of "[]" 1 b rest]
    by (auto simp: rle_compress_def rle_decompress_def even_iff_mod_2_eq_zero)
qed (simp add: rle_compress_def rle_decompress_def)

interpretation rle: codec_pair rle_compress "\<lambda>bs. case rle_decompress bs of Inr xs \<Rightarrow> Some xs | Inl _ \<Rightarrow> None" "\<lambda>_. True"
  by unfold_locales (simp add: rle_round_trip)

lemma decode_encode_payload:
  "encode_payload p = (codec, e) \<Longrightarrow> decode_payload codec e (length p) = Okay p"
  by (auto simp: encode_payload_def decode_payload_def rle_round_trip Let_def split: if_splits)

lemma encode_payload_shorter: "encode_payload p = (codec, e) \<Longrightarrow> length e \<le> length p"
  by (auto simp: encode_payload_def Let_def split: if_splits)

lemma codec_from_to_u8 [simp]: "codec_from_u8 (codec_to_u8 c) = Some c"
  by (cases c) (simp_all add: codec_from_u8_def)

lemma length_snapshot_header [simp]: "length (snapshot_header c seq len) = 18"
  by (simp add: snapshot_header_def SNAPSHOT_MAGIC_def)

lemma snapshot_header_fields:
  assumes "i64_min \<le> seq" "seq \<le> i64_max" "len < 2 ^ 32"
  shows "take 4 (snapshot_header c seq len) = SNAPSHOT_MAGIC"
    "snapshot_header c seq len ! 4 = SNAPSHOT_VERSION"
    "snapshot_header c seq len ! 5 = codec_to_u8 c"
    "i64_from_le (take 8 (drop 6 (snapshot_header c seq len))) = seq"
    "le_nat (drop 14 (snapshot_header c seq len)) = len"
proof -
  show "take 4 (snapshot_header c seq len) = SNAPSHOT_MAGIC"
    "snapshot_header c seq len ! 4 = SNAPSHOT_VERSION"
    "snapshot_header c seq len ! 5 = codec_to_u8 c"
    by (simp_all add: snapshot_header_def SNAPSHOT_MAGIC_def)
  show "i64_from_le (take 8 (drop 6 (snapshot_header c seq len))) = seq"
    using assms by (simp add: snapshot_header_def SNAPSHOT_MAGIC_def i64_from_to_le)
  show "le_nat (drop 14 (snapshot_header c seq len)) = len"
    using assms by (simp add: snapshot_header_def SNAPSHOT_MAGIC_def)
qed

text \<open>Loading what a save has written to the target.\<close>

lemma load_written:
  assumes "aead_laws a" "length nonce = NONCE_BYTES" "i64_min \<le> seq" "seq \<le> i64_max"
    and "encode_payload payload = (codec, encoded)" "length payload < 2 ^ 32"
    and "encrypt_at_rest a mk nonce encoded = Okay encrypted"
    and "dir (SnapshotPath i) = Some (snapshot_header codec seq (length payload) @ encrypted)"
  shows "load_snapshot a mk i dir =
    Okay (Some \<lparr>snapshot_seq = seq, snapshot_payload = payload, snapshot_codec = codec\<rparr>)"
  using assms(8) decode_encode_payload [OF assms(5)] decrypt_encrypt_at_rest [OF assms(1,2,7)]
  by (simp add: load_snapshot_def SNAPSHOT_HEADER_BYTES_def snapshot_header_fields [OF assms(3,4,6)])

lemma load_unchanged:
  "dir' (SnapshotPath i) = dir (SnapshotPath i) \<Longrightarrow> load_snapshot a mk i dir' = load_snapshot a mk i dir"
  by (simp add: load_snapshot_def)

lemma save_snapshot_trace_cases:
  assumes "save_snapshot_trace a mk nonce t i seq payload dir = Okay dirs"
  obtains codec encoded encrypted where
    "encode_payload payload = (codec, encoded)" "encrypt_at_rest a mk nonce encoded = Okay encrypted"
    "length payload < 2 ^ 32"
    "dirs = [dir(TempPath i t \<mapsto> []), dir(TempPath i t \<mapsto> snapshot_header codec seq (length payload)),
             dir(TempPath i t \<mapsto> snapshot_header codec seq (length payload) @ encrypted),
             dir(TempPath i t := None,
                 SnapshotPath i \<mapsto> snapshot_header codec seq (length payload) @ encrypted)]"
  using assms by (auto simp: save_snapshot_trace_def Let_def split: prod.splits sum.splits if_splits)

section \<open>Properties\<close>

text \<open>
  (C6) A saved snapshot is read back: after a successful save, loading the document gives its
  sequence number and its payload, and every other document loads as before.
\<close>

theorem snapshot_round_trip:
  assumes "aead_laws a" and "length nonce = NONCE_BYTES" and "i64_min \<le> seq" and "seq \<le> i64_max"
    and "save_snapshot a mk nonce t i seq payload dir = Okay dir'"
  shows "load_snapshot a mk i dir' =
      Okay (Some \<lparr>snapshot_seq = seq, snapshot_payload = payload, snapshot_codec = fst (encode_payload payload)\<rparr>) \<and>
    (\<forall>j. j \<noteq> i \<longrightarrow> load_snapshot a mk j dir' = load_snapshot a mk j dir)"
proof -
  obtain dirs where d: "save_snapshot_trace a mk nonce t i seq payload dir = Okay dirs" "dir' = last dirs"
    using assms(5) by (auto simp: save_snapshot_def map_sum_def split: sum.splits)
  obtain codec encoded encrypted where e: "encode_payload payload = (codec, encoded)"
    "encrypt_at_rest a mk nonce encoded = Okay encrypted" "length payload < 2 ^ 32"
    "last dirs = dir(TempPath i t := None,
       SnapshotPath i \<mapsto> snapshot_header codec seq (length payload) @ encrypted)"
    using save_snapshot_trace_cases [OF d(1)] by (metis last.simps list.discI)
  have "load_snapshot a mk i dir' =
      Okay (Some \<lparr>snapshot_seq = seq, snapshot_payload = payload, snapshot_codec = codec\<rparr>)"
    using assms(1-4) e d(2) by (intro load_written) auto
  moreover have "load_snapshot a mk j dir' = load_snapshot a mk j dir" if "j \<noteq> i" for j
    using that e(4) d(2) by (intro load_unchanged) simp
  ultimately show ?thesis using e(1) by simp
qed

lemma demo_save:
  "\<exists>dirs. save_snapshot_trace null_aead (Some []) zero_nonce 7 1 5 [9, 9, 9, 9] Map.empty = Okay dirs"
  by (simp add: save_snapshot_trace_def Let_def encode_payload_def rle_compress_def encrypt_at_rest_def
      encrypt_with_key_def null_aead_def split: prod.split)

theorem snapshot_round_trip_witness:
  "\<exists>dir'. save_snapshot null_aead (Some []) zero_nonce 7 1 5 [9, 9, 9, 9] Map.empty = Okay dir' \<and>
     load_snapshot null_aead (Some []) 1 dir' =
       Okay (Some \<lparr>snapshot_seq = 5, snapshot_payload = [9, 9, 9, 9], snapshot_codec = Rle\<rparr>)"
proof -
  obtain dirs where "save_snapshot_trace null_aead (Some []) zero_nonce 7 1 5 [9, 9, 9, 9] Map.empty = Okay dirs"
    using demo_save by blast
  then have s: "save_snapshot null_aead (Some []) zero_nonce 7 1 5 [9, 9, 9, 9] Map.empty = Okay (last dirs)"
    by (simp add: save_snapshot_def)
  have "fst (encode_payload [9, 9, 9, 9]) = Rle" by (simp add: encode_payload_def rle_compress_def)
  then show ?thesis
    using snapshot_round_trip [OF null_aead_laws _ _ _ s] s by (simp add: NONCE_BYTES_def i64_min_def i64_max_def)
qed

text \<open>
  (C5) Saving is atomic: in every state of the directory that a crash during a save can leave
  behind, every document loads either as it did before the save or, for the document being
  saved, as the new snapshot.
\<close>

theorem snapshot_save_atomic:
  assumes "aead_laws a" and "length nonce = NONCE_BYTES" and "i64_min \<le> seq" and "seq \<le> i64_max"
    and "save_snapshot_trace a mk nonce t i seq payload dir = Okay dirs"
    and "dir' \<in> set dirs"
  shows "load_snapshot a mk j dir' = load_snapshot a mk j dir \<or>
    (j = i \<and> load_snapshot a mk j dir' =
       Okay (Some \<lparr>snapshot_seq = seq, snapshot_payload = payload, snapshot_codec = fst (encode_payload payload)\<rparr>))"
proof -
  obtain codec encoded encrypted where e: "encode_payload payload = (codec, encoded)"
    "encrypt_at_rest a mk nonce encoded = Okay encrypted" "length payload < 2 ^ 32"
    "dirs = [dir(TempPath i t \<mapsto> []), dir(TempPath i t \<mapsto> snapshot_header codec seq (length payload)),
             dir(TempPath i t \<mapsto> snapshot_header codec seq (length payload) @ encrypted),
             dir(TempPath i t := None,
                 SnapshotPath i \<mapsto> snapshot_header codec seq (length payload) @ encrypted)]"
    using save_snapshot_trace_cases [OF assms(5)] by metis
  show ?thesis
  proof (cases "dir' (SnapshotPath j) = dir (SnapshotPath j)")
    case True
    then show ?thesis using load_unchanged by blast
  next
    case False
    then have "j = i" "dir' (SnapshotPath i) = Some (snapshot_header codec seq (length payload) @ encrypted)"
      using assms(6) e(4) by (auto split: if_splits)
    then show ?thesis using load_written [OF assms(1-4) e(1,3,2)] e(1) by simp
  qed
qed

theorem snapshot_save_atomic_witness:
  "\<exists>dirs. save_snapshot_trace null_aead (Some []) zero_nonce 7 1 5 [9, 9, 9, 9] Map.empty = Okay dirs \<and>
     (\<forall>dir' \<in> set dirs. load_snapshot null_aead (Some []) 1 dir' = Okay None \<or>
        load_snapshot null_aead (Some []) 1 dir' =
          Okay (Some \<lparr>snapshot_seq = 5, snapshot_payload = [9, 9, 9, 9], snapshot_codec = Rle\<rparr>))"
proof -
  obtain dirs where s: "save_snapshot_trace null_aead (Some []) zero_nonce 7 1 5 [9, 9, 9, 9] Map.empty = Okay dirs"
    using demo_save by blast
  have "fst (encode_payload [9, 9, 9, 9]) = Rle" by (simp add: encode_payload_def rle_compress_def)
  moreover have "load_snapshot null_aead (Some []) 1 Map.empty = Okay None" by (simp add: load_snapshot_def)
  ultimately show ?thesis
    using snapshot_save_atomic [OF null_aead_laws _ _ _ s, of _ 1] s
    by (simp add: NONCE_BYTES_def i64_min_def i64_max_def)
qed

end
