(* ===== verification/DocManager.thy ===== *)
theory DocManager
  imports Prelude "HOL-Library.AList"
begin

text \<open>
  \<open>daemon/src/engine/doc_manager.rs\<close>: the in-memory documents of the daemon, their
  subscriber counts and the least-recently-used cache of those nobody subscribes to. The hash
  map is an association list in its iteration order. The document itself (\<open>YDoc\<close>, on top of
  the \<open>yrs\<close> library) is a type parameter; \<open>est\<close> is the length of its encoded state and
  \<open>ydoc_new\<close> an empty document.
\<close>

section \<open>State\<close>

record 'd managed_doc =
  doc :: 'd
  subscribers :: nat
  estimated_bytes :: nat
  lru_tick :: nat

record 'd doc_manager =
  docs :: "(uuid \<times> 'd managed_doc) list"
  max_memory_bytes :: nat
  total_memory_bytes :: nat
  next_lru_tick :: nat

definition DEFAULT_MAX_MEMORY_BYTES :: nat where
  "DEFAULT_MAX_MEMORY_BYTES = 512 * 1024 * 1024"

definition doc_manager_new :: "nat \<Rightarrow> 'd doc_manager" where
  "doc_manager_new maxb = \<lparr>docs = [], max_memory_bytes = maxb, total_memory_bytes = 0, next_lru_tick = 1\<rparr>"

section \<open>Eviction\<close>

text \<open>\<open>Iterator::min_by_key\<close>: the first of the smallest.\<close>

fun min_by_key :: "('a \<Rightarrow> nat) \<Rightarrow> 'a list \<Rightarrow> 'a option" where
  "min_by_key key [] = None"
| "min_by_key key (x # xs) =
     (case min_by_key key xs of
        None \<Rightarrow> Some x
      | Some y \<Rightarrow> if key x \<le> key y then Some x else Some y)"

definition inactive :: "(uuid \<times> 'd managed_doc) list \<Rightarrow> (uuid \<times> nat) list" where
  "inactive ds = map (\<lambda>(i, e). (i, lru_tick e)) (filter (\<lambda>(i, e). subscribers e = 0) ds)"

definition evict_id :: "'d doc_manager \<Rightarrow> uuid option" where
  "evict_id m = map_option fst (min_by_key snd (inactive (docs m)))"

lemma min_by_key_None [simp]: "min_by_key key xs = None \<longleftrightarrow> xs = []"
  by (cases xs) (auto split: option.splits)

lemma min_by_key_Some:
  "min_by_key key xs = Some x \<Longrightarrow> x \<in> set xs \<and> (\<forall>y \<in> set xs. key x \<le> key y)"
proof (induction xs arbitrary: x)
  case (Cons a xs)
  show ?case
  proof (cases "min_by_key key xs")
    case None
    then show ?thesis using Cons.prems by simp
  next
    case (Some y)
    then show ?thesis using Cons.prems Cons.IH [OF Some] by (auto split: if_splits)
  qed
qed simp

lemma evict_id_Some:
  "evict_id m = Some i \<Longrightarrow>
   \<exists>e. (i, e) \<in> set (docs m) \<and> subscribers e = 0 \<and>
       (\<forall>(j, e') \<in> set (docs m). subscribers e' = 0 \<longrightarrow> lru_tick e \<le> lru_tick e')"
  by (fastforce simp: evict_id_def inactive_def dest: min_by_key_Some)

lemma evict_id_None: "evict_id m = None \<longleftrightarrow> (\<forall>(i, e) \<in> set (docs m). subscribers e \<noteq> 0)"
  by (auto simp: evict_id_def inactive_def filter_empty_conv)

definition remove_doc :: "uuid \<Rightarrow> 'd doc_manager \<Rightarrow> 'd doc_manager" where
  "remove_doc i m =
     (case map_of (docs m) i of
        None \<Rightarrow> m
      | Some e \<Rightarrow> m\<lparr>docs := AList.delete i (docs m),
                    total_memory_bytes := total_memory_bytes m - estimated_bytes e\<rparr>)"

lemma length_delete_less: "i \<in> fst ` set xs \<Longrightarrow> length (AList.delete i xs) < length xs"
  by (induction xs) (auto simp: AList.delete_eq le_imp_less_Suc length_filter_le)

function evict_under_pressure :: "'d doc_manager \<Rightarrow> 'd doc_manager" where
  "evict_under_pressure m =
     (if total_memory_bytes m > max_memory_bytes m then
        (case evict_id m of
           None \<Rightarrow> m
         | Some i \<Rightarrow> evict_under_pressure (remove_doc i m))
      else m)"
  by auto
termination
proof (relation "measure (\<lambda>m. length (docs m))")
  fix m :: "'d doc_manager" and i
  assume "evict_id m = Some i"
  then obtain e where "(i, e) \<in> set (docs m)" using evict_id_Some by blast
  then have i: "i \<in> fst ` set (docs m)" by (metis fst_conv image_eqI)
  then obtain e' where "map_of (docs m) i = Some e'" by (metis map_of_eq_None_iff not_Some_eq)
  then show "(remove_doc i m, m) \<in> measure (\<lambda>m. length (docs m))"
    using length_delete_less [OF i] by (simp add: remove_doc_def)
qed simp

declare evict_under_pressure.simps [simp del]

section \<open>Operations\<close>

definition bump_lru_tick :: "'d doc_manager \<Rightarrow> nat \<times> 'd doc_manager" where
  "bump_lru_tick m = (next_lru_tick m, m\<lparr>next_lru_tick := sat_usize (next_lru_tick m + 1)\<rparr>)"

definition subscribe_or_create ::
  "'d \<Rightarrow> ('d \<Rightarrow> nat) \<Rightarrow> uuid \<Rightarrow> 'd doc_manager \<Rightarrow> 'd \<times> 'd doc_manager" where
  "subscribe_or_create ydoc_new est doc_id m =
     (case map_of (docs m) doc_id of
        Some entry \<Rightarrow>
          (doc entry,
           m\<lparr>docs := AList.update doc_id
               (entry\<lparr>subscribers := sat_usize (subscribers entry + 1), lru_tick := 0\<rparr>) (docs m)\<rparr>)
      | None \<Rightarrow>
          let d = ydoc_new; b = est d;
              m1 = m\<lparr>total_memory_bytes := sat_usize (total_memory_bytes m + b)\<rparr>;
              m2 = m1\<lparr>docs := AList.update doc_id
                     \<lparr>doc = d, subscribers = 1, estimated_bytes = b, lru_tick = 0\<rparr> (docs m1)\<rparr>
          in (d, evict_under_pressure m2))"

definition put_doc :: "('d \<Rightarrow> nat) \<Rightarrow> uuid \<Rightarrow> 'd \<Rightarrow> 'd doc_manager \<Rightarrow> 'd \<times> 'd doc_manager" where
  "put_doc est doc_id d m =
     (let b = est d;
          m1 = remove_doc doc_id m;
          m2 = m1\<lparr>total_memory_bytes := sat_usize (total_memory_bytes m1 + b)\<rparr>;
          (tick, m3) = bump_lru_tick m2;
          m4 = m3\<lparr>docs := AList.update doc_id
                 \<lparr>doc = d, subscribers = 0, estimated_bytes = b, lru_tick = tick\<rparr> (docs m3)\<rparr>
      in (d, evict_under_pressure m4))"

definition unsubscribe :: "uuid \<Rightarrow> 'd doc_manager \<Rightarrow> bool \<times> 'd doc_manager" where
  "unsubscribe doc_id m =
     (case map_of (docs m) doc_id of
        None \<Rightarrow> (False, m)
      | Some entry \<Rightarrow>
          if subscribers entry = 0 then (False, m)
          else
            let entry1 = entry\<lparr>subscribers := subscribers entry - 1\<rparr>;
                m1 = m\<lparr>docs := AList.update doc_id entry1 (docs m)\<rparr>
            in if subscribers entry1 = 0 then
                 let (tick, m2) = bump_lru_tick m1;
                     m3 = m2\<lparr>docs := AList.update doc_id (entry1\<lparr>lru_tick := tick\<rparr>) (docs m2)\<rparr>
                 in (True, evict_under_pressure m3)
               else (True, m1))"

definition get_doc :: "uuid \<Rightarrow> 'd doc_manager \<Rightarrow> 'd option" where
  "get_doc doc_id m = map_option doc (map_of (docs m) doc_id)"

definition contains_doc :: "uuid \<Rightarrow> 'd doc_manager \<Rightarrow> bool" where
  "contains_doc doc_id m = (map_of (docs m) doc_id \<noteq> None)"

definition subscriber_count :: "uuid \<Rightarrow> 'd doc_manager \<Rightarrow> nat" where
  "subscriber_count doc_id m = (case map_of (docs m) doc_id of Some e \<Rightarrow> subscribers e | None \<Rightarrow> 0)"

definition cached_lru_doc_ids :: "'d doc_manager \<Rightarrow> uuid list" where
  "cached_lru_doc_ids m = map fst (sort_key snd (inactive (docs m)))"

section \<open>Invariant\<close>

definition memory_of :: "(uuid \<times> 'd managed_doc) list \<Rightarrow> nat" where
  "memory_of ds = sum_list (map (\<lambda>(i, e). estimated_bytes e) ds)"

text \<open>
  One entry per document, the total is the sum over the entries, every document nobody
  subscribes to has its own tick below the next one, and memory is above the limit only when
  every document is subscribed to.
\<close>

definition entries_ok :: "'d doc_manager \<Rightarrow> bool" where
  "entries_ok m \<longleftrightarrow>
     distinct (map fst (docs m)) \<and>
     total_memory_bytes m = memory_of (docs m) \<and>
     (\<forall>i e. map_of (docs m) i = Some e \<longrightarrow> subscribers e = 0 \<longrightarrow> lru_tick e < next_lru_tick m) \<and>
     (\<forall>i j e e'. map_of (docs m) i = Some e \<longrightarrow> map_of (docs m) j = Some e' \<longrightarrow>
        subscribers e = 0 \<longrightarrow> subscribers e' = 0 \<longrightarrow> lru_tick e = lru_tick e' \<longrightarrow> i = j)"

definition pressure_ok :: "'d doc_manager \<Rightarrow> bool" where
  "pressure_ok m \<longleftrightarrow>
     total_memory_bytes m \<le> max_memory_bytes m \<or>
     (\<forall>i e. map_of (docs m) i = Some e \<longrightarrow> subscribers e \<noteq> 0)"

lemma memory_of_simps [simp]:
  "memory_of [] = 0"
  "memory_of ((i, e) # ds) = estimated_bytes e + memory_of ds"
  by (simp_all add: memory_of_def)

lemma memory_of_delete:
  "distinct (map fst ds) \<Longrightarrow> map_of ds i = Some e \<Longrightarrow>
   memory_of (AList.delete i ds) + estimated_bytes e = memory_of ds"
proof (induction ds)
  case (Cons a ds)
  show ?case
  proof (cases "fst a = i")
    case True
    then have "i \<notin> fst ` set ds" using Cons.prems by auto
    then have "AList.delete i ds = ds" by (induction ds) auto
    then show ?thesis using True Cons.prems by (cases a) auto
  next
    case False
    then show ?thesis using Cons by (cases a) auto
  qed
qed simp

lemma memory_of_update_fresh:
  "map_of ds i = None \<Longrightarrow> memory_of (AList.update i e ds) = memory_of ds + estimated_bytes e"
  by (induction ds) (auto split: if_splits)

lemma memory_of_update_same:
  "map_of ds i = Some old \<Longrightarrow> estimated_bytes e = estimated_bytes old \<Longrightarrow>
   memory_of (AList.update i e ds) = memory_of ds"
  by (induction ds) (auto split: if_splits)

lemma entries_ok_remove:
  assumes "entries_ok m"
  shows "entries_ok (remove_doc i m)"
proof (cases "map_of (docs m) i")
  case (Some e)
  have "total_memory_bytes m - estimated_bytes e = memory_of (AList.delete i (docs m))"
    using assms memory_of_delete [of "docs m" i e] Some by (simp add: entries_ok_def)
  then show ?thesis using assms Some
    by (auto simp: entries_ok_def remove_doc_def distinct_delete delete_conv' split: if_splits)
qed (use assms in \<open>simp add: remove_doc_def\<close>)

lemma docs_remove: "map_of (docs (remove_doc i m)) = (map_of (docs m))(i := None)"
  by (auto simp: remove_doc_def delete_conv' fun_upd_idem split: option.split)

lemma remove_doc_other [simp]:
  "max_memory_bytes (remove_doc i m) = max_memory_bytes m"
  "next_lru_tick (remove_doc i m) = next_lru_tick m"
  by (auto simp: remove_doc_def split: option.split)

lemma evict_id_least:
  assumes "entries_ok m" "evict_id m = Some i"
  obtains e where "map_of (docs m) i = Some e" "subscribers e = 0"
    "\<And>j e'. map_of (docs m) j = Some e' \<Longrightarrow> subscribers e' = 0 \<Longrightarrow> j \<noteq> i \<Longrightarrow> lru_tick e < lru_tick e'"
proof -
  obtain e where e: "(i, e) \<in> set (docs m)" "subscribers e = 0"
    "\<forall>(j, e') \<in> set (docs m). subscribers e' = 0 \<longrightarrow> lru_tick e \<le> lru_tick e'"
    using evict_id_Some [OF assms(2)] by blast
  have mi: "map_of (docs m) i = Some e" using e(1) assms(1) by (simp add: entries_ok_def)
  have "lru_tick e < lru_tick e'" if "map_of (docs m) j = Some e'" "subscribers e' = 0" "j \<noteq> i" for j e'
  proof -
    have "lru_tick e \<le> lru_tick e'" using e(3) map_of_SomeD [OF that(1)] that(2) by auto
    moreover have "lru_tick e \<noteq> lru_tick e'"
      using assms(1) mi e(2) that unfolding entries_ok_def by metis
    ultimately show ?thesis by simp
  qed
  then show ?thesis using that mi e(2) by blast
qed

text \<open>What one round of eviction keeps and what it drops.\<close>

definition evicted :: "'d doc_manager \<Rightarrow> 'd doc_manager \<Rightarrow> bool" where
  "evicted m m' \<longleftrightarrow>
     entries_ok m' \<and> max_memory_bytes m' = max_memory_bytes m \<and> next_lru_tick m' = next_lru_tick m \<and>
     map_of (docs m') \<subseteq>\<^sub>m map_of (docs m) \<and>
     (\<forall>i e. map_of (docs m) i = Some e \<longrightarrow> subscribers e \<noteq> 0 \<longrightarrow> map_of (docs m') i = Some e) \<and>
     (\<forall>i e j e'. map_of (docs m) i = Some e \<longrightarrow> map_of (docs m') i = None \<longrightarrow>
        map_of (docs m') j = Some e' \<longrightarrow> subscribers e' = 0 \<longrightarrow> lru_tick e < lru_tick e')"

lemma evicted_sub: "evicted m m' \<Longrightarrow> map_of (docs m') j = Some e \<Longrightarrow> map_of (docs m) j = Some e"
  unfolding evicted_def map_le_def by (metis domI)

lemma evicted_refl: "entries_ok m \<Longrightarrow> evicted m m"
  by (auto simp: evicted_def)

lemma evicted_remove:
  assumes "entries_ok m" "evict_id m = Some i" "evicted (remove_doc i m) m'"
  shows "evicted m m'"
proof -
  obtain e where e: "map_of (docs m) i = Some e" "subscribers e = 0"
    "\<And>j e'. map_of (docs m) j = Some e' \<Longrightarrow> subscribers e' = 0 \<Longrightarrow> j \<noteq> i \<Longrightarrow> lru_tick e < lru_tick e'"
    using evict_id_least [OF assms(1,2)] by blast
  have sub: "map_of (docs m') \<subseteq>\<^sub>m (map_of (docs m))(i := None)"
    using assms(3) by (simp add: evicted_def docs_remove)
  have in_m: "map_of (docs m) j = Some e' \<and> j \<noteq> i" if "map_of (docs m') j = Some e'" for j e'
  proof -
    have "((map_of (docs m))(i := None)) j = Some e'" using sub that by (metis domI map_le_def)
    then show ?thesis by (simp split: if_splits)
  qed
  have "lru_tick f < lru_tick e'" if "map_of (docs m) k = Some f" "map_of (docs m') k = None"
    "map_of (docs m') j = Some e'" "subscribers e' = 0" for k f j e'
  proof (cases "k = i")
    case True
    then show ?thesis using that e in_m by auto
  next
    case False
    then have "((map_of (docs m))(i := None)) k = Some f" using that(1) by simp
    then show ?thesis using that(2-4) assms(3) unfolding evicted_def docs_remove by blast
  qed
  moreover have "map_of (docs m') k = Some f" if "map_of (docs m) k = Some f" "subscribers f \<noteq> 0" for k f
  proof -
    have "((map_of (docs m))(i := None)) k = Some f" using that e by auto
    then show ?thesis using that(2) assms(3) unfolding evicted_def docs_remove by blast
  qed
  moreover have "map_of (docs m') \<subseteq>\<^sub>m map_of (docs m)"
    using in_m by (auto simp: map_le_def dom_def)
  ultimately show ?thesis using assms(3) unfolding evicted_def by (auto simp: docs_remove)
qed

lemma evict_under_pressure_ok:
  "entries_ok m \<Longrightarrow> evicted m (evict_under_pressure m) \<and> pressure_ok (evict_under_pressure m)"
proof (induction m rule: evict_under_pressure.induct)
  case (1 m)
  show ?case
  proof (cases "total_memory_bytes m > max_memory_bytes m")
    case True
    show ?thesis
    proof (cases "evict_id m")
      case None
      then have "pressure_ok m"
        by (auto simp: pressure_ok_def evict_id_None dest: map_of_SomeD)
      then show ?thesis using True None "1.prems"
        by (subst (1 2) evict_under_pressure.simps) (simp add: evicted_refl)
    next
      case (Some i)
      then have "evict_under_pressure m = evict_under_pressure (remove_doc i m)"
        using True by (subst evict_under_pressure.simps) simp
      then show ?thesis
        using "1.IH" [OF True Some entries_ok_remove [OF "1.prems"]] evicted_remove [OF "1.prems" Some] by simp
    qed
  next
    case False
    then show ?thesis using "1.prems"
      by (subst (1 2) evict_under_pressure.simps) (auto simp: evicted_refl pressure_ok_def)
  qed
qed

section \<open>Runs of the manager\<close>

datatype 'd manager_op = Subscribe uuid | Put uuid 'd | Unsubscribe uuid

fun manager_step :: "'d \<Rightarrow> ('d \<Rightarrow> nat) \<Rightarrow> 'd doc_manager \<Rightarrow> 'd manager_op \<Rightarrow> 'd doc_manager" where
  "manager_step ydoc_new est m (Subscribe i) = snd (subscribe_or_create ydoc_new est i m)"
| "manager_step ydoc_new est m (Put i d) = snd (put_doc est i d m)"
| "manager_step ydoc_new est m (Unsubscribe i) = snd (unsubscribe i m)"

text \<open>No counter reaches the end of its type.\<close>

fun room :: "'d \<Rightarrow> ('d \<Rightarrow> nat) \<Rightarrow> 'd doc_manager \<Rightarrow> 'd manager_op \<Rightarrow> bool" where
  "room ydoc_new est m (Subscribe i) \<longleftrightarrow>
     total_memory_bytes m + est ydoc_new \<le> usize_max \<and> subscriber_count i m < usize_max"
| "room ydoc_new est m (Put i d) \<longleftrightarrow>
     total_memory_bytes m + est d \<le> usize_max \<and> next_lru_tick m < usize_max"
| "room ydoc_new est m (Unsubscribe i) \<longleftrightarrow> next_lru_tick m < usize_max"

definition manager_inv :: "'d doc_manager \<Rightarrow> bool" where
  "manager_inv m \<longleftrightarrow> entries_ok m \<and> pressure_ok m"

lemma manager_inv_evict: "entries_ok m \<Longrightarrow> manager_inv (evict_under_pressure m)"
  using evict_under_pressure_ok by (auto simp: manager_inv_def evicted_def)

lemma entries_ok_put_active:
  assumes "entries_ok m" "map_of (docs m) i = Some old" "estimated_bytes e = estimated_bytes old"
    "subscribers e \<noteq> 0"
  shows "entries_ok (m\<lparr>docs := AList.update i e (docs m)\<rparr>)"
  using assms by (auto simp: entries_ok_def update_conv' distinct_update memory_of_update_same split: if_splits)

lemma entries_ok_put_new_active:
  assumes "entries_ok m" "map_of (docs m) i = None" "subscribers e \<noteq> 0"
    "total_memory_bytes m + estimated_bytes e \<le> usize_max"
  shows "entries_ok (m\<lparr>total_memory_bytes := sat_usize (total_memory_bytes m + estimated_bytes e),
    docs := AList.update i e (docs m)\<rparr>)"
  using assms by (auto simp: entries_ok_def update_conv' distinct_update memory_of_update_fresh split: if_splits)

lemma entries_ok_put_tick:
  assumes "entries_ok m" "next_lru_tick m < usize_max" "lru_tick e = next_lru_tick m"
    "tot = memory_of (AList.update i e (docs m))"
  shows "entries_ok (m\<lparr>total_memory_bytes := tot, next_lru_tick := sat_usize (next_lru_tick m + 1),
    docs := AList.update i e (docs m)\<rparr>)"
proof -
  let ?m = "m\<lparr>total_memory_bytes := tot, next_lru_tick := sat_usize (next_lru_tick m + 1),
    docs := AList.update i e (docs m)\<rparr>"
  have t: "\<forall>j f. map_of (docs m) j = Some f \<longrightarrow> subscribers f = 0 \<longrightarrow> lru_tick f < next_lru_tick m"
    using assms(1) unfolding entries_ok_def by blast
  have u: "\<forall>j k f g. map_of (docs m) j = Some f \<longrightarrow> map_of (docs m) k = Some g \<longrightarrow>
      subscribers f = 0 \<longrightarrow> subscribers g = 0 \<longrightarrow> lru_tick f = lru_tick g \<longrightarrow> j = k"
    using assms(1) unfolding entries_ok_def by blast
  have ds: "map_of (docs ?m) = (map_of (docs m))(i \<mapsto> e)" by (simp add: update_conv')
  have "\<forall>j f. map_of (docs ?m) j = Some f \<longrightarrow> subscribers f = 0 \<longrightarrow> lru_tick f < next_lru_tick ?m"
    unfolding ds using t assms(2,3) by (auto simp: less_Suc_eq)
  moreover have "\<forall>j k f g. map_of (docs ?m) j = Some f \<longrightarrow> map_of (docs ?m) k = Some g \<longrightarrow>
      subscribers f = 0 \<longrightarrow> subscribers g = 0 \<longrightarrow> lru_tick f = lru_tick g \<longrightarrow> j = k"
    unfolding ds using t u assms(3) by (metis fun_upd_apply less_irrefl option.inject)
  moreover have "distinct (map fst (docs ?m))" using assms(1) by (simp add: entries_ok_def distinct_update)
  ultimately show ?thesis using assms(4) unfolding entries_ok_def by simp
qed

lemma manager_inv_subscribe:
  assumes "manager_inv m" "room n est m (Subscribe i)"
  shows "manager_inv (snd (subscribe_or_create n est i m))"
proof (cases "map_of (docs m) i")
  case None
  then show ?thesis
    using assms entries_ok_put_new_active [of m i "\<lparr>doc = n, subscribers = 1, estimated_bytes = est n, lru_tick = 0\<rparr>"]
    by (auto simp: subscribe_or_create_def Let_def manager_inv_def [of m] intro!: manager_inv_evict)
next
  case (Some e)
  let ?e = "e\<lparr>subscribers := sat_usize (subscribers e + 1), lru_tick := 0\<rparr>"
  have "entries_ok (m\<lparr>docs := AList.update i ?e (docs m)\<rparr>)"
    using assms Some by (intro entries_ok_put_active) (auto simp: manager_inv_def subscriber_count_def)
  moreover have "pressure_ok (m\<lparr>docs := AList.update i ?e (docs m)\<rparr>)"
    using assms Some by (auto simp: manager_inv_def pressure_ok_def update_conv' subscriber_count_def split: if_splits)
  ultimately show ?thesis using Some by (simp add: subscribe_or_create_def manager_inv_def)
qed

lemma manager_inv_put:
  assumes "manager_inv m" "room n est m (Put i d)"
  shows "manager_inv (snd (put_doc est i d m))"
proof -
  let ?m = "remove_doc i m" and ?e = "\<lparr>doc = d, subscribers = 0, estimated_bytes = est d, lru_tick = next_lru_tick m\<rparr>"
  have ok: "entries_ok ?m" using assms(1) by (auto simp: manager_inv_def intro: entries_ok_remove)
  have fresh: "map_of (docs ?m) i = None" by (simp add: docs_remove)
  have "total_memory_bytes ?m \<le> total_memory_bytes m" by (auto simp: remove_doc_def split: option.split)
  then have tot: "sat_usize (total_memory_bytes ?m + est d) = memory_of (AList.update i ?e (docs ?m))"
    using assms(2) ok memory_of_update_fresh [OF fresh, of ?e] by (simp add: entries_ok_def)
  have "entries_ok (?m\<lparr>total_memory_bytes := sat_usize (total_memory_bytes ?m + est d),
      next_lru_tick := sat_usize (next_lru_tick ?m + 1), docs := AList.update i ?e (docs ?m)\<rparr>)"
    using ok assms(2) tot by (intro entries_ok_put_tick) auto
  then show ?thesis by (auto simp: put_doc_def Let_def bump_lru_tick_def intro!: manager_inv_evict)
qed

lemma manager_inv_unsubscribe:
  assumes "manager_inv m" "next_lru_tick m < usize_max"
  shows "manager_inv (snd (unsubscribe i m))"
proof (cases "\<exists>e. map_of (docs m) i = Some e \<and> subscribers e \<noteq> 0")
  case True
  then obtain e where e: "map_of (docs m) i = Some e" "subscribers e \<noteq> 0" by blast
  let ?e = "e\<lparr>subscribers := subscribers e - 1\<rparr>"
  have ok: "entries_ok m" using assms(1) by (simp add: manager_inv_def)
  show ?thesis
  proof (cases "subscribers ?e = 0")
    case True
    let ?e' = "?e\<lparr>lru_tick := next_lru_tick m\<rparr>"
    have "entries_ok (m\<lparr>total_memory_bytes := total_memory_bytes m,
        next_lru_tick := sat_usize (next_lru_tick m + 1), docs := AList.update i ?e' (docs m)\<rparr>)"
      using ok assms(2) e memory_of_update_same [OF e(1), of ?e']
      by (intro entries_ok_put_tick) (auto simp: entries_ok_def)
    then show ?thesis using True e
      by (auto simp: unsubscribe_def Let_def bump_lru_tick_def intro!: manager_inv_evict)
  next
    case False
    then have "entries_ok (m\<lparr>docs := AList.update i ?e (docs m)\<rparr>)"
      using ok e by (intro entries_ok_put_active) auto
    moreover have "pressure_ok (m\<lparr>docs := AList.update i ?e (docs m)\<rparr>)"
      using assms e False by (auto simp: manager_inv_def pressure_ok_def update_conv' split: if_splits)
    ultimately show ?thesis using e False by (simp add: unsubscribe_def Let_def manager_inv_def)
  qed
qed (use assms in \<open>auto simp: unsubscribe_def split: option.splits\<close>)

lemma next_lru_tick_evict [simp]: "next_lru_tick (evict_under_pressure m) = next_lru_tick m"
proof (induction m rule: evict_under_pressure.induct)
  case (1 m)
  then show ?case by (subst evict_under_pressure.simps) (simp split: option.split)
qed

lemma next_lru_tick_subscribe [simp]: "next_lru_tick (snd (subscribe_or_create n est i m)) = next_lru_tick m"
  by (simp add: subscribe_or_create_def Let_def split: option.split)

text \<open>What one subscription and one cancellation do to the entries, for the components that hold the manager.\<close>

lemma subscribe_effect:
  assumes "manager_inv m" "room n est m (Subscribe i)" "subscribe_or_create n est i m = (a, m')"
  shows "\<exists>e. map_of (docs m') i = Some e \<and> doc e = a \<and> subscribers e = Suc (subscriber_count i m)"
    and "a = (case map_of (docs m) i of Some e \<Rightarrow> doc e | None \<Rightarrow> n)"
    and "j \<noteq> i \<Longrightarrow> map_of (docs m') j = Some e \<Longrightarrow> map_of (docs m) j = Some e"
    and "j \<noteq> i \<Longrightarrow> map_of (docs m) j = Some e \<Longrightarrow> subscribers e \<noteq> 0 \<Longrightarrow> map_of (docs m') j = Some e"
proof -
  have "(\<exists>e. map_of (docs m') i = Some e \<and> doc e = a \<and> subscribers e = Suc (subscriber_count i m)) \<and>
    a = (case map_of (docs m) i of Some e \<Rightarrow> doc e | None \<Rightarrow> n) \<and>
    (\<forall>j e. j \<noteq> i \<longrightarrow> map_of (docs m') j = Some e \<longrightarrow> map_of (docs m) j = Some e) \<and>
    (\<forall>j e. j \<noteq> i \<longrightarrow> map_of (docs m) j = Some e \<longrightarrow> subscribers e \<noteq> 0 \<longrightarrow> map_of (docs m') j = Some e)"
  proof (cases "map_of (docs m) i")
    case None
    let ?e = "\<lparr>doc = n, subscribers = 1, estimated_bytes = est n, lru_tick = 0\<rparr>"
    let ?m = "m\<lparr>total_memory_bytes := sat_usize (total_memory_bytes m + est n),
      docs := AList.update i ?e (docs m)\<rparr>"
    have "entries_ok ?m"
      using entries_ok_put_new_active [of m i ?e] assms(1,2) None by (simp add: manager_inv_def)
    then have ev: "evicted ?m m'" and a: "a = n"
      using evict_under_pressure_ok [of ?m] assms(3) None by (auto simp: subscribe_or_create_def Let_def)
    have d: "map_of (docs ?m) = (map_of (docs m))(i \<mapsto> ?e)" by (simp add: update_conv')
    show ?thesis
    proof (intro conjI allI impI)
      have "map_of (docs m') i = Some ?e" using ev d unfolding evicted_def by auto
      then show "\<exists>e. map_of (docs m') i = Some e \<and> doc e = a \<and> subscribers e = Suc (subscriber_count i m)"
        using a None by (simp add: subscriber_count_def)
      show "a = (case map_of (docs m) i of Some e \<Rightarrow> doc e | None \<Rightarrow> n)" using a None by simp
    next
      fix j e assume "j \<noteq> i" "map_of (docs m') j = Some e"
      then show "map_of (docs m) j = Some e" using evicted_sub [OF ev, of j e] d by simp
    next
      fix j e assume "j \<noteq> i" "map_of (docs m) j = Some e" "subscribers e \<noteq> 0"
      then show "map_of (docs m') j = Some e" using ev d unfolding evicted_def by simp
    qed
  next
    case (Some e)
    let ?e = "e\<lparr>subscribers := sat_usize (subscribers e + 1), lru_tick := 0\<rparr>"
    have m': "map_of (docs m') = (map_of (docs m))(i \<mapsto> ?e)" and a: "a = doc e"
      using assms(3) Some by (auto simp: subscribe_or_create_def update_conv')
    have "sat_usize (subscribers e + 1) = Suc (subscriber_count i m)"
      using assms(2) Some by (simp add: subscriber_count_def)
    then show ?thesis using a Some by (simp add: m')
  qed
  then show "\<exists>e. map_of (docs m') i = Some e \<and> doc e = a \<and> subscribers e = Suc (subscriber_count i m)"
    "a = (case map_of (docs m) i of Some e \<Rightarrow> doc e | None \<Rightarrow> n)"
    "j \<noteq> i \<Longrightarrow> map_of (docs m') j = Some e \<Longrightarrow> map_of (docs m) j = Some e"
    "j \<noteq> i \<Longrightarrow> map_of (docs m) j = Some e \<Longrightarrow> subscribers e \<noteq> 0 \<Longrightarrow> map_of (docs m') j = Some e"
    by blast+
qed

lemma unsubscribe_effect:
  assumes "manager_inv m" "next_lru_tick m < usize_max" "unsubscribe i m = (b, m')"
  shows "map_of (docs m') j = Some e' \<Longrightarrow> \<exists>e. map_of (docs m) j = Some e \<and> doc e = doc e'"
    and "map_of (docs m) j = Some e \<Longrightarrow> subscribers e > (if j = i then 1 else 0) \<Longrightarrow>
      \<exists>e'. map_of (docs m') j = Some e' \<and> doc e' = doc e \<and>
        subscribers e' = (if j = i then subscribers e - 1 else subscribers e)"
proof -
  have "(\<forall>j e'. map_of (docs m') j = Some e' \<longrightarrow> (\<exists>e. map_of (docs m) j = Some e \<and> doc e = doc e')) \<and>
    (\<forall>j e. map_of (docs m) j = Some e \<longrightarrow> subscribers e > (if j = i then 1 else 0) \<longrightarrow>
      (\<exists>e'. map_of (docs m') j = Some e' \<and> doc e' = doc e \<and>
        subscribers e' = (if j = i then subscribers e - 1 else subscribers e)))"
  proof (cases "\<exists>e. map_of (docs m) i = Some e \<and> subscribers e = 1")
    case True
    then obtain e where e: "map_of (docs m) i = Some e" "subscribers e = 1" by blast
    let ?e = "e\<lparr>subscribers := 0, lru_tick := next_lru_tick m\<rparr>"
    let ?m = "m\<lparr>next_lru_tick := sat_usize (next_lru_tick m + 1), docs := AList.update i ?e (docs m)\<rparr>"
    have "total_memory_bytes m = memory_of (AList.update i ?e (docs m))"
      using assms(1) e memory_of_update_same [of "docs m" i e ?e] by (simp add: manager_inv_def entries_ok_def)
    then have "entries_ok (m\<lparr>total_memory_bytes := total_memory_bytes m,
        next_lru_tick := sat_usize (next_lru_tick m + 1), docs := AList.update i ?e (docs m)\<rparr>)"
      using assms(1,2) by (intro entries_ok_put_tick) (simp_all add: manager_inv_def)
    then have "entries_ok ?m" by (cases m) simp
    moreover have "m' = evict_under_pressure ?m"
      using assms(3) e by (simp add: unsubscribe_def bump_lru_tick_def Let_def update_Some_unfold)
    ultimately have ev: "evicted ?m m'" using evict_under_pressure_ok [of ?m] by simp
    have d: "map_of (docs ?m) = (map_of (docs m))(i \<mapsto> ?e)" by (simp add: update_conv')
    have "\<exists>e. map_of (docs m) j = Some e \<and> doc e = doc e'" if j: "map_of (docs m') j = Some e'" for j e'
    proof -
      have "map_of (docs ?m) j = Some e'" using ev j by (rule evicted_sub)
      then show ?thesis using d e(1) by (auto split: if_splits)
    qed
    moreover have "map_of (docs m') j = Some e'" if "map_of (docs m) j = Some e'" "j \<noteq> i" "subscribers e' \<noteq> 0" for j e'
      using ev d that unfolding evicted_def by simp
    ultimately show ?thesis using e by auto
  next
    case False
    then show ?thesis
      using assms(3) by (auto simp: unsubscribe_def Let_def update_conv' split: option.splits if_splits prod.splits)
  qed
  then show "map_of (docs m') j = Some e' \<Longrightarrow> \<exists>e. map_of (docs m) j = Some e \<and> doc e = doc e'"
    "map_of (docs m) j = Some e \<Longrightarrow> subscribers e > (if j = i then 1 else 0) \<Longrightarrow>
      \<exists>e'. map_of (docs m') j = Some e' \<and> doc e' = doc e \<and>
        subscribers e' = (if j = i then subscribers e - 1 else subscribers e)"
    by blast+
qed

interpretation manager: init_system "manager_step n est" "room n est" manager_inv "doc_manager_new maxb"
  for n :: 'd and est and maxb
proof unfold_locales
  fix m :: "'d doc_manager" and op
  assume "manager_inv m" "room n est m op"
  then show "manager_inv (manager_step n est m op)"
    by (cases op) (auto intro: manager_inv_subscribe manager_inv_put manager_inv_unsubscribe)
qed (simp add: manager_inv_def doc_manager_new_def entries_ok_def pressure_ok_def)

section \<open>Properties\<close>

text \<open>
  (C9) In every state the daemon's document manager reaches from an empty one, whatever the
  order of subscriptions, insertions and unsubscriptions, there is one entry per document, the
  accounted memory is the sum over the entries, and memory exceeds the limit only when every
  document held is subscribed to.
\<close>

theorem doc_manager_reachable:
  assumes "run_ok (manager_step n est) (room n est) (doc_manager_new maxb) ops"
  shows "let m = foldl (manager_step n est) (doc_manager_new maxb) ops in
    distinct (map fst (docs m)) \<and> total_memory_bytes m = memory_of (docs m) \<and>
    (total_memory_bytes m \<le> max_memory_bytes m \<or>
     (\<forall>i e. map_of (docs m) i = Some e \<longrightarrow> subscribers e \<noteq> 0))"
  using manager.inv_reachable [OF assms]
  unfolding Let_def manager_inv_def entries_ok_def pressure_ok_def by blast

definition demo_ops :: "nat manager_op list" where
  "demo_ops = [Put 1 40, Put 2 50, Subscribe 3, Unsubscribe 3, Put 4 60]"

lemma demo_ops_ok: "run_ok (manager_step 5 id) (room 5 id) (doc_manager_new 120) demo_ops"
  by (simp add: demo_ops_def doc_manager_new_def put_doc_def subscribe_or_create_def unsubscribe_def Let_def
      bump_lru_tick_def remove_doc_def usize_max_def sat_usize_def evict_under_pressure.simps evict_id_def
      inactive_def subscriber_count_def)

theorem doc_manager_reachable_witness:
  "let m = foldl (manager_step 5 id) (doc_manager_new 120) demo_ops in
    distinct (map fst (docs m)) \<and> total_memory_bytes m = memory_of (docs m) \<and>
    (total_memory_bytes m \<le> max_memory_bytes m \<or>
     (\<forall>i e. map_of (docs m) i = Some e \<longrightarrow> subscribers e \<noteq> 0))"
  by (rule doc_manager_reachable [OF demo_ops_ok])

text \<open>
  Eviction under memory pressure never drops a document that somebody subscribes to,
  changes none it keeps, and drops cached documents in the order in which they became unused:
  everything it drops has been unused for longer than everything cached it keeps.
\<close>

theorem eviction_is_lru:
  assumes "entries_ok m" and "m' = evict_under_pressure m"
  shows "(\<forall>i e. map_of (docs m) i = Some e \<longrightarrow> subscribers e \<noteq> 0 \<longrightarrow> map_of (docs m') i = Some e) \<and>
    map_of (docs m') \<subseteq>\<^sub>m map_of (docs m) \<and>
    (\<forall>i e j e'. map_of (docs m) i = Some e \<longrightarrow> map_of (docs m') i = None \<longrightarrow>
       map_of (docs m') j = Some e' \<longrightarrow> subscribers e' = 0 \<longrightarrow> lru_tick e < lru_tick e') \<and>
    pressure_ok m'"
  using evict_under_pressure_ok [OF assms(1)] unfolding assms(2) evicted_def by blast

definition demo_manager :: "nat doc_manager" where
  "demo_manager =
     \<lparr>docs = [(1, \<lparr>doc = 40, subscribers = 0, estimated_bytes = 40, lru_tick = 2\<rparr>),
              (2, \<lparr>doc = 50, subscribers = 0, estimated_bytes = 50, lru_tick = 1\<rparr>),
              (3, \<lparr>doc = 60, subscribers = 1, estimated_bytes = 60, lru_tick = 0\<rparr>)],
      max_memory_bytes = 100, total_memory_bytes = 150, next_lru_tick = 3\<rparr>"

lemma demo_manager_ok: "entries_ok demo_manager"
  by (auto simp: entries_ok_def demo_manager_def split: if_splits)

lemma demo_evict: "map fst (docs (evict_under_pressure demo_manager)) = [1, 3]"
  by (simp add: demo_manager_def evict_under_pressure.simps evict_id_def inactive_def remove_doc_def)

theorem eviction_is_lru_witness:
  "map_of (docs (evict_under_pressure demo_manager)) \<subseteq>\<^sub>m map_of (docs demo_manager) \<and>
   map fst (docs (evict_under_pressure demo_manager)) = [1, 3] \<and> pressure_ok (evict_under_pressure demo_manager)"
  using eviction_is_lru [OF demo_manager_ok refl] demo_evict by blast

text \<open>
  Subscribing to a document the manager no longer holds, in particular to one that was
  evicted, hands out a new empty document.
\<close>

theorem subscribe_after_eviction_is_empty:
  assumes "get_doc i m = None"
  shows "fst (subscribe_or_create ydoc_new est i m) = ydoc_new"
  using assms by (simp add: get_doc_def subscribe_or_create_def Let_def)

theorem subscribe_after_eviction_is_empty_witness:
  "get_doc 2 demo_manager = Some 50 \<and>
   fst (subscribe_or_create 0 id 2 (evict_under_pressure demo_manager)) = 0"
proof -
  have "get_doc 2 (evict_under_pressure demo_manager) = None"
    by (simp add: get_doc_def demo_manager_def evict_under_pressure.simps evict_id_def inactive_def remove_doc_def)
  then show ?thesis using subscribe_after_eviction_is_empty [of 2 "evict_under_pressure demo_manager" 0 id]
    by (simp add: get_doc_def demo_manager_def)
qed

end
