(* ===== verification/Recovery.thy ===== *)
theory Recovery
  imports Wal SnapshotStore DocManager
begin

text \<open>
  \<open>daemon/src/store/recovery.rs\<close>: recovery of documents at startup from their snapshot and
  their write-ahead log. The CRDT document (\<open>YDoc\<close> over the \<open>yrs\<close> library) and the parser of
  UUIDs are parameters; a directory listing is the sorted list of its file names.
\<close>

section \<open>Documents\<close>

record 'd ydoc_ops =
  y_new :: 'd
  y_from_state :: "byte list \<Rightarrow> 'd option"
  y_encode_state :: "'d \<Rightarrow> byte list"
  y_apply_update :: "byte list \<Rightarrow> 'd \<Rightarrow> 'd option"

text \<open>What recovery relies on: a document loaded from an encoded state is that document.\<close>

definition ydoc_laws :: "'d ydoc_ops \<Rightarrow> bool" where
  "ydoc_laws y \<longleftrightarrow> (\<forall>d. y_from_state y (y_encode_state y d) = Some d)"

datatype recovery_error =
    RecoverySnapshot snapshot_error
  | BadSnapshotState
  | ApplyFailed

definition apply_update :: "'d ydoc_ops \<Rightarrow> byte list \<Rightarrow> 'd \<Rightarrow> (recovery_error, 'd) result" where
  "apply_update y update d = (case y_apply_update y update d of None \<Rightarrow> Err ApplyFailed | Some d' \<Rightarrow> Okay d')"

section \<open>One document\<close>

type_synonym wal_path = "string \<times> string"
type_synonym wal_dir = "wal_path \<Rightarrow> byte list option"

record 'd recovered_doc =
  rec_doc :: 'd
  rec_snapshot_seq :: int
  rec_replayed_updates :: nat
  rec_degraded :: bool

text \<open>\<open>usize::try_from(snapshot_seq).unwrap_or(usize::MAX)\<close> on a number that is not negative.\<close>

definition start_frame_of :: "int \<Rightarrow> nat" where
  "start_frame_of seq = (if 0 \<le> seq \<and> nat seq \<le> usize_max then nat seq else usize_max)"

definition recover_document ::
  "aead \<Rightarrow> key option \<Rightarrow> 'd ydoc_ops \<Rightarrow> snap_dir \<Rightarrow> uuid \<Rightarrow> wal_path option \<Rightarrow> wal_dir \<Rightarrow>
   (recovery_error, 'd recovered_doc \<times> wal_dir) result" where
  "recover_document a mk y snaps doc_id wal wals =
     (case (case load_snapshot a mk doc_id snaps of
              Inl e \<Rightarrow> Err (RecoverySnapshot e)
            | Inr None \<Rightarrow> Okay (y_new y, 0)
            | Inr (Some snapshot) \<Rightarrow>
                (case y_from_state y (snapshot_payload snapshot) of
                   None \<Rightarrow> Err BadSnapshotState
                 | Some d \<Rightarrow> Okay (d, max (snapshot_seq snapshot) 0))) of
        Inl e \<Rightarrow> Err e
      | Inr (d, seq) \<Rightarrow>
          let untouched = Okay (\<lparr>rec_doc = d, rec_snapshot_seq = seq, rec_replayed_updates = 0, rec_degraded = False\<rparr>, wals)
          in (case wal of
                None \<Rightarrow> untouched
              | Some path \<Rightarrow>
                  (case wals path of
                     None \<Rightarrow> untouched
                   | Some contents \<Rightarrow>
                       (case replay_from_frame a mk (start_frame_of seq) (apply_update y) contents d of
                          Inl e \<Rightarrow> Err e
                        | Inr (summary, contents', d') \<Rightarrow>
                            Okay (\<lparr>rec_doc = d', rec_snapshot_seq = seq,
                                   rec_replayed_updates = applied summary,
                                   rec_degraded = checksum_failed summary\<rparr>,
                                  wals(path \<mapsto> contents'))))))"

section \<open>Finding the documents\<close>

text \<open>\<open>Path::file_stem\<close> and \<open>Path::extension\<close> of a file name.\<close>

definition file_stem_ext :: "string \<Rightarrow> string \<times> string option" where
  "file_stem_ext name =
     (let parts = split_on (CHR ''.'') name in
      if name = ''..'' \<or> length parts = 1 \<or> join ''.'' (butlast parts) = [] then (name, None)
      else (join ''.'' (butlast parts), Some (last parts)))"

definition parse_doc_id :: "(string \<Rightarrow> uuid option) \<Rightarrow> string \<Rightarrow> string \<Rightarrow> uuid option" where
  "parse_doc_id parse_uuid name ext =
     (case file_stem_ext name of (stem, e) \<Rightarrow> if e \<noteq> Some ext then None else parse_uuid stem)"

definition add_snapshot_target ::
  "(string \<Rightarrow> uuid option) \<Rightarrow> (uuid \<times> wal_path option) list \<Rightarrow> string \<Rightarrow> (uuid \<times> wal_path option) list" where
  "add_snapshot_target parse_uuid targets name =
     (case parse_doc_id parse_uuid name ''snap'' of
        None \<Rightarrow> targets
      | Some doc_id \<Rightarrow> if map_of targets doc_id = None then AList.update doc_id None targets else targets)"

definition add_wal_target ::
  "(string \<Rightarrow> uuid option) \<Rightarrow> (uuid \<times> wal_path option) list \<Rightarrow> wal_path \<Rightarrow> (uuid \<times> wal_path option) list" where
  "add_wal_target parse_uuid targets path =
     (case parse_doc_id parse_uuid (snd path) ''wal'' of
        None \<Rightarrow> targets
      | Some doc_id \<Rightarrow>
          (case map_of targets doc_id of
             Some (Some current) \<Rightarrow> targets
           | _ \<Rightarrow> AList.update doc_id (Some path) targets))"

text \<open>The \<open>BTreeMap\<close> is read out in the order of its keys.\<close>

definition discover_targets ::
  "(string \<Rightarrow> uuid option) \<Rightarrow> string list option \<Rightarrow> (string \<times> string list) list option \<Rightarrow>
   (uuid \<times> wal_path option) list" where
  "discover_targets parse_uuid snapshot_files wal_dirs =
     (let t1 = foldl (add_snapshot_target parse_uuid) [] (case snapshot_files of Some fs \<Rightarrow> fs | None \<Rightarrow> []);
          paths = concat (map (\<lambda>(d, fs). map (Pair d) fs) (case wal_dirs of Some ds \<Rightarrow> ds | None \<Rightarrow> []))
      in sort_key fst (foldl (add_wal_target parse_uuid) t1 paths))"

section \<open>All documents\<close>

record startup_recovery_report =
  recovered_docs :: nat
  degraded_docs :: "uuid list"

fun recover_targets ::
  "aead \<Rightarrow> key option \<Rightarrow> 'd ydoc_ops \<Rightarrow> snap_dir \<Rightarrow> (uuid \<times> wal_path option) list \<Rightarrow> wal_dir \<Rightarrow>
   uuid list \<Rightarrow> 'd doc_manager \<Rightarrow> (recovery_error, uuid list \<times> wal_dir \<times> 'd doc_manager) result"
where
  "recover_targets a mk y snaps [] wals degraded m = Okay (degraded, wals, m)"
| "recover_targets a mk y snaps ((doc_id, wal) # targets) wals degraded m =
     (case recover_document a mk y snaps doc_id wal wals of
        Inl e \<Rightarrow> Err e
      | Inr (r, wals') \<Rightarrow>
          recover_targets a mk y snaps targets wals'
            (if rec_degraded r then degraded @ [doc_id] else degraded)
            (snd (put_doc (\<lambda>d. length (y_encode_state y d)) doc_id (rec_doc r) m)))"

definition recover_documents_into_manager ::
  "aead \<Rightarrow> key option \<Rightarrow> 'd ydoc_ops \<Rightarrow> (string \<Rightarrow> uuid option) \<Rightarrow> snap_dir \<Rightarrow> string list option \<Rightarrow>
   (string \<times> string list) list option \<Rightarrow> wal_dir \<Rightarrow> 'd doc_manager \<Rightarrow>
   (recovery_error, startup_recovery_report \<times> wal_dir \<times> 'd doc_manager) result" where
  "recover_documents_into_manager a mk y parse_uuid snaps snapshot_files wal_dirs wals m =
     (let targets = discover_targets parse_uuid snapshot_files wal_dirs in
      case recover_targets a mk y snaps targets wals [] m of
        Inl e \<Rightarrow> Err e
      | Inr (degraded, wals', m') \<Rightarrow>
          Okay (\<lparr>recovered_docs = length targets, degraded_docs = sort degraded\<rparr>, wals', m'))"

section \<open>Lemmas\<close>

lemma start_frame_of_nat [simp]: "n \<le> usize_max \<Longrightarrow> start_frame_of (int n) = n"
  by (simp add: start_frame_of_def)

lemma start_frame_of_0 [simp]: "start_frame_of 0 = 0"
  by (simp add: start_frame_of_def)

lemma apply_all_append:
  "apply_all f (ps @ qs) s = (case apply_all f ps s of Inl e \<Rightarrow> Err e | Inr s' \<Rightarrow> apply_all f qs s')"
  by (induction ps arbitrary: s) (auto split: sum.splits)

lemma apply_all_drop:
  assumes "apply_all f (take n ps) s = Okay s1" "apply_all f ps s = Okay s2"
  shows "apply_all f (drop n ps) s1 = Okay s2"
  using assms apply_all_append [of f "take n ps" "drop n ps" s] by simp

lemma map_of_add_snapshot:
  "distinct (map fst ts) \<Longrightarrow> distinct (map fst (add_snapshot_target p ts f))"
  by (auto simp: add_snapshot_target_def distinct_update split: option.split)

lemma distinct_add_wal:
  "distinct (map fst ts) \<Longrightarrow> distinct (map fst (add_wal_target p ts f))"
  by (auto simp: add_wal_target_def distinct_update split: option.split)

lemma distinct_fold_targets:
  "distinct (map fst ts) \<Longrightarrow> distinct (map fst (foldl (add_snapshot_target p) ts fs))"
  "distinct (map fst ts) \<Longrightarrow> distinct (map fst (foldl (add_wal_target p) ts ws))"
  by (induction fs arbitrary: ts; simp add: map_of_add_snapshot)
    (induction ws arbitrary: ts; simp add: distinct_add_wal)

lemma dom_fold_snapshot:
  "fst ` set (foldl (add_snapshot_target p) ts fs) =
   fst ` set ts \<union> {i. \<exists>f \<in> set fs. parse_doc_id p f ''snap'' = Some i}"
proof (induction fs arbitrary: ts)
  case (Cons f fs)
  have "fst ` set (add_snapshot_target p ts f) =
      fst ` set ts \<union> {i. parse_doc_id p f ''snap'' = Some i}"
    by (auto simp: add_snapshot_target_def dom_update map_of_eq_None_iff split: option.split)
  then show ?case using Cons by auto
qed simp

lemma dom_fold_wal:
  "fst ` set (foldl (add_wal_target p) ts ws) =
   fst ` set ts \<union> {i. \<exists>w \<in> set ws. parse_doc_id p (snd w) ''wal'' = Some i}"
proof (induction ws arbitrary: ts)
  case (Cons w ws)
  have "fst ` set (add_wal_target p ts w) =
      fst ` set ts \<union> {i. parse_doc_id p (snd w) ''wal'' = Some i}"
    by (auto simp: add_wal_target_def dom_update dest: map_of_SomeD split: option.split intro: rev_image_eqI)
  then show ?case using Cons by auto
qed simp

section \<open>Properties\<close>

text \<open>
  (C4) Lossless recovery. Suppose the updates \<open>ps\<close> were appended to a document's log, a
  further append was cut short by a crash after any number of bytes, and the stored snapshot, if
  there is one, is the state after the first \<open>n\<close> updates with sequence number \<open>n\<close>. Then recovery
  succeeds, is not degraded, replays exactly the updates after the snapshot, and yields the
  state after all completed updates.
\<close>

theorem recovery_lossless:
  assumes "aead_laws a" and "ydoc_laws y" and "length ps \<le> usize_max" and "n \<le> length ps"
    and "written a mk contents ps"
    and "append_update a mk nonce p contents = Okay contents'"
    and "length contents \<le> k" and "k < length contents'"
    and "wals path = Some (take k contents')"
    and "apply_all (apply_update y) (take n ps) (y_new y) = Okay dn"
    and "apply_all (apply_update y) ps (y_new y) = Okay d"
    and "(n = 0 \<and> load_snapshot a mk i snaps = Okay None) \<or>
         load_snapshot a mk i snaps =
           Okay (Some \<lparr>snapshot_seq = int n, snapshot_payload = y_encode_state y dn, snapshot_codec = cdc\<rparr>)"
  shows "recover_document a mk y snaps i (Some path) wals =
    Okay (\<lparr>rec_doc = d, rec_snapshot_seq = int n, rec_replayed_updates = length ps - n, rec_degraded = False\<rparr>,
          wals(path \<mapsto> contents))"
proof -
  have "apply_all (apply_update y) (drop n ps) dn = Okay d" by (rule apply_all_drop [OF assms(10,11)])
  then have replay: "replay_from_frame a mk n (apply_update y) (take k contents') dn =
      Okay (\<lparr>applied = length ps - n, valid_frames = length ps,
             truncated = (k \<noteq> length contents), checksum_failed = False\<rparr>, contents, d)"
    by (rule replay_torn [OF assms(1,5,3,6,7,8)])
  have "dn = y_new y" if "n = 0" using assms(10) that by simp
  then show ?thesis using assms(2,3,4,9,12) replay
    by (auto simp: recover_document_def ydoc_laws_def Let_def)
qed

text \<open>Documents that are byte strings and updates that append to them.\<close>

definition bytes_doc :: "byte list ydoc_ops" where
  "bytes_doc = \<lparr>y_new = [], y_from_state = Some, y_encode_state = id, y_apply_update = (\<lambda>u d. Some (d @ u))\<rparr>"

theorem recovery_lossless_witness:
  "recover_document null_aead (Some []) bytes_doc Map.empty 4 (Some (''w'', ''d.wal''))
     [(''w'', ''d.wal'') \<mapsto>
        take 50 (wal_frame (ENVELOPE_MAGIC @ zero_nonce @ [7, 8]) @ wal_frame (ENVELOPE_MAGIC @ zero_nonce @ [9]))] =
   Okay (\<lparr>rec_doc = [7, 8], rec_snapshot_seq = int 0, rec_replayed_updates = 1, rec_degraded = False\<rparr>,
         [(''w'', ''d.wal'') \<mapsto> wal_frame (ENVELOPE_MAGIC @ zero_nonce @ [7, 8])])"
  using recovery_lossless
    [OF null_aead_laws _ _ _ null_written [of "[7, 8]" "[]"] null_append [of "[9]" "[]"],
     where y = bytes_doc and n = 0 and k = 50 and i = 4 and path = "(''w'', ''d.wal'')" and snaps = Map.empty
       and d = "[7, 8]" and dn = "[]" and cdc = Raw
       and wals = "[(''w'', ''d.wal'') \<mapsto>
          take 50 (wal_frame (ENVELOPE_MAGIC @ zero_nonce @ [7, 8]) @ wal_frame (ENVELOPE_MAGIC @ zero_nonce @ [9]))]"]
  by (simp add: ydoc_laws_def bytes_doc_def usize_max_def apply_update_def load_snapshot_def)

text \<open>
  Startup finds every document once: the targets are in ascending order of their ids
  without repetition, and a document is a target exactly when a snapshot file or a log file is
  named after it.
\<close>

theorem discover_targets_complete:
  "let ts = discover_targets parse_uuid snapshot_files wal_dirs in
   sorted (map fst ts) \<and> distinct (map fst ts) \<and>
   fst ` set ts =
     {i. \<exists>fs f. snapshot_files = Some fs \<and> f \<in> set fs \<and> parse_doc_id parse_uuid f ''snap'' = Some i} \<union>
     {i. \<exists>ds d fs f. wal_dirs = Some ds \<and> (d, fs) \<in> set ds \<and> f \<in> set fs \<and>
        parse_doc_id parse_uuid f ''wal'' = Some i}"
proof -
  have in_paths: "(\<exists>w \<in> set (concat (map (\<lambda>(d, fs). map (Pair d) fs) ds)).
        parse_doc_id parse_uuid (snd w) ''wal'' = Some i) \<longleftrightarrow>
      (\<exists>d fs f. (d, fs) \<in> set ds \<and> f \<in> set fs \<and> parse_doc_id parse_uuid f ''wal'' = Some i)"
    for ds :: "(string \<times> string list) list" and i
    by fastforce
  have "fst ` set (discover_targets parse_uuid snapshot_files wal_dirs) =
     {i. \<exists>fs f. snapshot_files = Some fs \<and> f \<in> set fs \<and> parse_doc_id parse_uuid f ''snap'' = Some i} \<union>
     {i. \<exists>ds d fs f. wal_dirs = Some ds \<and> (d, fs) \<in> set ds \<and> f \<in> set fs \<and>
        parse_doc_id parse_uuid f ''wal'' = Some i}"
    unfolding discover_targets_def Let_def set_sort dom_fold_wal dom_fold_snapshot
    by (cases snapshot_files; cases wal_dirs) (simp_all only: in_paths option.case, auto)
  moreover have "distinct (map fst (discover_targets parse_uuid snapshot_files wal_dirs))"
    using distinct_fold_targets(2) [OF distinct_fold_targets(1), of "[]"]
    by (simp add: discover_targets_def Let_def distinct_map)
  ultimately show ?thesis by (simp add: Let_def discover_targets_def)
qed

end
