(* ===== verification/SqlText.thy ===== *)
theory SqlText
  imports Prelude
begin

text \<open>
  Time stamps as the daemon keeps them in SQLite: RFC 3339 text (\<open>DateTime::to_rfc3339\<close>),
  compared as text. Formatting, parsing and the collation are parameters.
\<close>

record text_clock =
  to_rfc3339 :: "timestamp \<Rightarrow> string"
  parse_rfc3339 :: "string \<Rightarrow> timestamp option"
  text_le :: "string \<Rightarrow> string \<Rightarrow> bool"

text \<open>
  For the instants in use (UTC, years of four digits) the text has a fixed layout, so that text
  order is time order, and it parses back.
\<close>

definition text_clock_laws :: "text_clock \<Rightarrow> (timestamp \<Rightarrow> bool) \<Rightarrow> bool" where
  "text_clock_laws c ok \<longleftrightarrow>
     (\<forall>t. ok t \<longrightarrow> parse_rfc3339 c (to_rfc3339 c t) = Some t) \<and>
     (\<forall>t u. ok t \<longrightarrow> ok u \<longrightarrow> (text_le c (to_rfc3339 c t) (to_rfc3339 c u) \<longleftrightarrow> t \<le> u))"

lemma text_clock_parse: "text_clock_laws c ok \<Longrightarrow> ok t \<Longrightarrow> parse_rfc3339 c (to_rfc3339 c t) = Some t"
  by (simp add: text_clock_laws_def)

lemma text_clock_le:
  "text_clock_laws c ok \<Longrightarrow> ok t \<Longrightarrow> ok u \<Longrightarrow> text_le c (to_rfc3339 c t) (to_rfc3339 c u) \<longleftrightarrow> t \<le> u"
  by (simp add: text_clock_laws_def)

text \<open>A clock text that writes an instant as that many strokes, to evaluate the stores on.\<close>

definition stroke_clock :: text_clock where
  "stroke_clock = \<lparr>to_rfc3339 = (\<lambda>t. replicate (nat t) (CHR ''x'')),
                   parse_rfc3339 = (\<lambda>s. Some (int (length s))),
                   text_le = (\<lambda>s t. length s \<le> length t)\<rparr>"

lemma stroke_clock_laws [simp]: "text_clock_laws stroke_clock (\<lambda>t. 0 \<le> t)"
  by (auto simp: text_clock_laws_def stroke_clock_def)

end
