(* ===== verification/Outbox.thy ===== *)
theory Outbox
  imports Security SqlText
begin

text \<open>
  \<open>daemon/src/outbox/mod.rs\<close>: the queue of updates on their way to the relay, a SQLite table
  driven through the states pending, sent, acked and dead, with retries, exponential backoff
  and a bound on what a workspace may have in flight.
\<close>

section \<open>Data\<close>

definition BASE_DELAY_MS :: nat where "BASE_DELAY_MS = 250"
definition MAX_DELAY_MS :: nat where "MAX_DELAY_MS = 30000"
definition MAX_ATTEMPTS :: nat where "MAX_ATTEMPTS = 8"
definition MAX_PENDING_UPDATES :: nat where "MAX_PENDING_UPDATES = 10000"
definition MAX_PENDING_BYTES :: nat where "MAX_PENDING_BYTES = 1073741824"

datatype update_state = Pending | Sent | Acked | Dead

fun state_str :: "update_state \<Rightarrow> string" where
  "state_str Pending = ''pending''"
| "state_str Sent = ''sent''"
| "state_str Acked = ''acked''"
| "state_str Dead = ''dead''"

definition parse_state :: "string \<Rightarrow> update_state option" where
  "parse_state s =
     (if s = ''pending'' then Some Pending else if s = ''sent'' then Some Sent
      else if s = ''acked'' then Some Acked else if s = ''dead'' then Some Dead else None)"

text \<open>A row of \<open>outbox_updates\<close> and the table with its autoincrement counter.\<close>

record outbox_row =
  row_id :: nat
  row_workspace :: string
  row_doc :: string
  row_client_update :: string
  row_payload :: "byte list"
  row_retry_count :: nat
  row_next_retry_at :: "string option"
  row_state :: string
  row_created_at :: string

record outbox_table =
  rows :: "outbox_row list"
  next_row_id :: nat

record outbox_update =
  upd_id :: nat
  upd_workspace :: string
  upd_doc :: string
  upd_client_update :: string
  upd_payload :: "byte list"
  upd_retry_count :: nat
  upd_next_retry_at :: "timestamp option"
  upd_state :: update_state
  upd_created_at :: timestamp

record backpressure_status =
  pending_count :: nat
  pending_bytes :: nat
  is_over_limit :: bool

datatype outbox_error =
    Backpressure string nat nat
  | OutboxEncrypt sec_error
  | OutboxDecrypt sec_error
  | NoSuchUpdate

section \<open>Operations\<close>

text \<open>\<open>backoff_delay\<close>, in milliseconds; the \<open>u64\<close> product cannot overflow at exponent 7.\<close>

definition backoff_delay :: "nat \<Rightarrow> nat" where
  "backoff_delay attempt = min (min usize_max (BASE_DELAY_MS * 2 ^ (min attempt 7))) MAX_DELAY_MS"

definition in_flight :: "string \<Rightarrow> outbox_row \<Rightarrow> bool" where
  "in_flight ws r \<longleftrightarrow> row_workspace r = ws \<and> row_state r \<in> {''pending'', ''sent''}"

definition check_backpressure :: "string \<Rightarrow> outbox_table \<Rightarrow> backpressure_status" where
  "check_backpressure ws t =
     (let rs = filter (in_flight ws) (rows t);
          count = length rs;
          bytes = sum_list (map (\<lambda>r. length (row_payload r)) rs)
      in \<lparr>pending_count = count, pending_bytes = bytes,
          is_over_limit = (count \<ge> MAX_PENDING_UPDATES \<or> bytes \<ge> MAX_PENDING_BYTES)\<rparr>)"

definition enqueue ::
  "aead \<Rightarrow> key option \<Rightarrow> byte list \<Rightarrow> text_clock \<Rightarrow> string \<Rightarrow> string \<Rightarrow> string \<Rightarrow> byte list \<Rightarrow> timestamp \<Rightarrow>
   outbox_table \<Rightarrow> (outbox_error, nat) result \<times> outbox_table" where
  "enqueue a mk nonce c ws d cid payload now t =
     (let status = check_backpressure ws t in
      if is_over_limit status then (Err (Backpressure ws (pending_count status) (pending_bytes status)), t)
      else case encrypt_at_rest a mk nonce payload of
        Inl e \<Rightarrow> (Err (OutboxEncrypt e), t)
      | Inr encrypted \<Rightarrow>
          (Okay (next_row_id t),
           t\<lparr>rows := rows t @ [\<lparr>row_id = next_row_id t, row_workspace = ws, row_doc = d, row_client_update = cid,
                               row_payload = encrypted, row_retry_count = 0, row_next_retry_at = None,
                               row_state = state_str Pending, row_created_at = to_rfc3339 c now\<rparr>],
             next_row_id := next_row_id t + 1\<rparr>))"

text \<open>An \<open>UPDATE ... WHERE\<close>: the number of rows it changed and the table after it.\<close>

definition update_where ::
  "(outbox_row \<Rightarrow> bool) \<Rightarrow> (outbox_row \<Rightarrow> outbox_row) \<Rightarrow> outbox_table \<Rightarrow> nat \<times> outbox_table" where
  "update_where P f t = (length (filter P (rows t)), t\<lparr>rows := map (\<lambda>r. if P r then f r else r) (rows t)\<rparr>)"

definition mark_sent :: "nat \<Rightarrow> outbox_table \<Rightarrow> bool \<times> outbox_table" where
  "mark_sent i t =
     (let (n, t') = update_where (\<lambda>r. row_id r = i \<and> row_state r = state_str Pending)
                      (row_state_update (\<lambda>_. state_str Sent)) t
      in (n > 0, t'))"

definition mark_acked :: "nat \<Rightarrow> outbox_table \<Rightarrow> bool \<times> outbox_table" where
  "mark_acked i t =
     (let (n, t') = update_where (\<lambda>r. row_id r = i \<and> row_state r = state_str Sent)
                      (row_state_update (\<lambda>_. state_str Acked)) t
      in (n > 0, t'))"

definition mark_failed ::
  "text_clock \<Rightarrow> nat \<Rightarrow> timestamp \<Rightarrow> outbox_table \<Rightarrow> (outbox_error, bool) result \<times> outbox_table" where
  "mark_failed c i now t =
     (case find (\<lambda>r. row_id r = i) (rows t) of
        None \<Rightarrow> (Err NoSuchUpdate, t)
      | Some r \<Rightarrow>
          if row_state r \<noteq> state_str Sent then (Okay False, t)
          else
            let new_retry_count = row_retry_count r + 1 in
            if new_retry_count \<ge> MAX_ATTEMPTS then
              (Okay True,
               snd (update_where (\<lambda>r. row_id r = i)
                 (\<lambda>r. r\<lparr>row_state := state_str Dead, row_retry_count := new_retry_count\<rparr>) t))
            else
              let next_retry = now + int (backoff_delay (row_retry_count r)) * 1000000 in
              (Okay True,
               snd (update_where (\<lambda>r. row_id r = i)
                 (\<lambda>r. r\<lparr>row_state := state_str Pending, row_retry_count := new_retry_count,
                        row_next_retry_at := Some (to_rfc3339 c next_retry)\<rparr>) t)))"

text \<open>\<open>row_to_update\<close>; an unreadable creation time becomes the current one.\<close>

definition row_to_update ::
  "aead \<Rightarrow> key option \<Rightarrow> text_clock \<Rightarrow> timestamp \<Rightarrow> outbox_row \<Rightarrow> (outbox_error, outbox_update) result" where
  "row_to_update a mk c wall_clock r =
     (case decrypt_at_rest a mk (row_payload r) of
        Inl e \<Rightarrow> Err (OutboxDecrypt e)
      | Inr payload \<Rightarrow>
          Okay \<lparr>upd_id = row_id r, upd_workspace = row_workspace r, upd_doc = row_doc r,
                upd_client_update = row_client_update r, upd_payload = payload,
                upd_retry_count = row_retry_count r,
                upd_next_retry_at = (case row_next_retry_at r of None \<Rightarrow> None | Some s \<Rightarrow> parse_rfc3339 c s),
                upd_state = (case parse_state (row_state r) of Some st \<Rightarrow> st | None \<Rightarrow> Pending),
                upd_created_at = (case parse_rfc3339 c (row_created_at r) of Some t \<Rightarrow> t | None \<Rightarrow> wall_clock)\<rparr>)"

fun collect_results :: "('e, 'a) result list \<Rightarrow> ('e, 'a list) result" where
  "collect_results [] = Okay []"
| "collect_results (Inl e # rs) = Err e"
| "collect_results (Inr x # rs) = (case collect_results rs of Inl e \<Rightarrow> Err e | Inr xs \<Rightarrow> Okay (x # xs))"

definition is_ready :: "text_clock \<Rightarrow> timestamp \<Rightarrow> outbox_row \<Rightarrow> bool" where
  "is_ready c now r \<longleftrightarrow>
     row_state r = state_str Pending \<and>
     (case row_next_retry_at r of None \<Rightarrow> True | Some s \<Rightarrow> text_le c s (to_rfc3339 c now))"

definition ready_to_send ::
  "aead \<Rightarrow> key option \<Rightarrow> text_clock \<Rightarrow> timestamp \<Rightarrow> outbox_table \<Rightarrow> (outbox_error, outbox_update list) result" where
  "ready_to_send a mk c now t =
     collect_results (map (row_to_update a mk c now) (sort_key row_id (filter (is_ready c now) (rows t))))"

section \<open>Runs\<close>

datatype outbox_op =
    Enqueue "byte list" string string string "byte list" timestamp
  | MarkSent nat
  | MarkAcked nat
  | MarkFailed nat timestamp

fun outbox_step :: "aead \<Rightarrow> key option \<Rightarrow> text_clock \<Rightarrow> outbox_table \<Rightarrow> outbox_op \<Rightarrow> outbox_table" where
  "outbox_step a mk c t (Enqueue nonce ws d cid p now) = snd (enqueue a mk nonce c ws d cid p now t)"
| "outbox_step a mk c t (MarkSent i) = snd (mark_sent i t)"
| "outbox_step a mk c t (MarkAcked i) = snd (mark_acked i t)"
| "outbox_step a mk c t (MarkFailed i now) = snd (mark_failed c i now t)"

definition empty_outbox :: outbox_table where
  "empty_outbox = \<lparr>rows = [], next_row_id = 1\<rparr>"

text \<open>The life of one row.\<close>

inductive row_step :: "string \<times> nat \<Rightarrow> string \<times> nat \<Rightarrow> bool" where
  row_stay: "row_step (s, n) (s, n)"
| row_sent: "row_step (''pending'', n) (''sent'', n)"
| row_acked: "row_step (''sent'', n) (''acked'', n)"
| row_retry: "n + 1 < MAX_ATTEMPTS \<Longrightarrow> row_step (''sent'', n) (''pending'', n + 1)"
| row_dead: "n + 1 \<ge> MAX_ATTEMPTS \<Longrightarrow> row_step (''sent'', n) (''dead'', n + 1)"

inductive_cases row_step_from_acked: "row_step (''acked'', n) q"
inductive_cases row_step_from_dead: "row_step (''dead'', n) q"
inductive_cases row_step_from_pending: "row_step (''pending'', n) q"

definition row_phase :: "outbox_row \<Rightarrow> string \<times> nat" where
  "row_phase r = (row_state r, row_retry_count r)"

definition phase_ok :: "string \<times> nat \<Rightarrow> bool" where
  "phase_ok p \<longleftrightarrow>
     (fst p \<in> {''pending'', ''sent'', ''acked''} \<and> snd p < MAX_ATTEMPTS) \<or> p = (''dead'', MAX_ATTEMPTS)"

definition outbox_inv :: "outbox_table \<Rightarrow> bool" where
  "outbox_inv t \<longleftrightarrow>
     sorted_wrt (<) (map row_id (rows t)) \<and> (\<forall>r \<in> set (rows t). row_id r < next_row_id t) \<and>
     (\<forall>r \<in> set (rows t). phase_ok (row_phase r)) \<and>
     (\<forall>ws. length (filter (in_flight ws) (rows t)) \<le> MAX_PENDING_UPDATES)"

lemma phase_ok_step: "row_step p q \<Longrightarrow> phase_ok p \<Longrightarrow> phase_ok q"
  by (induction rule: row_step.induct) (auto simp: phase_ok_def MAX_ATTEMPTS_def)

text \<open>Every operation keeps the rows in place and moves each along \<open>row_step\<close>; an enqueue adds one.\<close>

definition moved :: "outbox_row \<Rightarrow> outbox_row \<Rightarrow> bool" where
  "moved r r' \<longleftrightarrow> row_id r' = row_id r \<and> row_workspace r' = row_workspace r \<and> row_doc r' = row_doc r \<and>
     row_client_update r' = row_client_update r \<and> row_payload r' = row_payload r \<and>
     row_created_at r' = row_created_at r \<and> row_step (row_phase r) (row_phase r')"

lemma moved_refl [simp]: "moved r r"
  by (cases "row_phase r") (simp add: moved_def row_stay)

lemma list_all2_map_self: "(\<And>x. x \<in> set xs \<Longrightarrow> R x (f x)) \<Longrightarrow> list_all2 R xs (map f xs)"
  by (induction xs) auto

lemma update_where_moved:
  "(\<And>r. r \<in> set (rows t) \<Longrightarrow> P r \<Longrightarrow> moved r (f r)) \<Longrightarrow> list_all2 moved (rows t) (rows (snd (update_where P f t)))"
  by (auto simp: update_where_def intro!: list_all2_map_self)

lemma next_row_id_update_where [simp]: "next_row_id (snd (update_where P f t)) = next_row_id t"
  by (simp add: update_where_def)

lemma mark_sent_moved: "list_all2 moved (rows t) (rows (snd (mark_sent i t)))"
  using update_where_moved [of t "\<lambda>r. row_id r = i \<and> row_state r = state_str Pending" "row_state_update (\<lambda>_. state_str Sent)"]
  by (auto simp: mark_sent_def Let_def moved_def row_phase_def row_sent split: prod.split)

lemma mark_acked_moved: "list_all2 moved (rows t) (rows (snd (mark_acked i t)))"
  using update_where_moved [of t "\<lambda>r. row_id r = i \<and> row_state r = state_str Sent" "row_state_update (\<lambda>_. state_str Acked)"]
  by (auto simp: mark_acked_def Let_def moved_def row_phase_def row_acked split: prod.split)

lemma same_id_same_row:
  "sorted_wrt (<) (map row_id rs) \<Longrightarrow> r \<in> set rs \<Longrightarrow> q \<in> set rs \<Longrightarrow> row_id r = row_id q \<Longrightarrow> r = q"
  by (induction rs) fastforce+

lemma find_row: "find (\<lambda>r. row_id r = i) rs = Some r \<Longrightarrow> r \<in> set rs \<and> row_id r = i"
  by (auto simp: find_Some_iff)

lemma mark_failed_moved:
  assumes "sorted_wrt (<) (map row_id (rows t))"
  shows "list_all2 moved (rows t) (rows (snd (mark_failed c i now t)))"
proof (cases "find (\<lambda>r. row_id r = i) (rows t)")
  case (Some r)
  have only: "q = r" if "q \<in> set (rows t)" "row_id q = i" for q
    using find_row [OF Some] same_id_same_row [OF assms] that by blast
  show ?thesis
  proof (cases "row_state r = ''sent''")
    case True
    have "moved q (q\<lparr>row_state := ''dead'', row_retry_count := row_retry_count r + 1\<rparr>)"
      if "q \<in> set (rows t)" "row_id q = i" "row_retry_count r + 1 \<ge> MAX_ATTEMPTS" for q
      using only [OF that(1,2)] that True row_dead by (simp add: moved_def row_phase_def)
    moreover have "moved q (q\<lparr>row_state := ''pending'', row_retry_count := row_retry_count r + 1, row_next_retry_at := x\<rparr>)"
      if "q \<in> set (rows t)" "row_id q = i" "row_retry_count r + 1 < MAX_ATTEMPTS" for q x
      using only [OF that(1,2)] that True row_retry by (simp add: moved_def row_phase_def)
    ultimately show ?thesis using Some True
      by (auto simp: mark_failed_def Let_def intro!: update_where_moved)
  qed (use Some in \<open>simp add: mark_failed_def list_all2_refl\<close>)
qed (simp add: mark_failed_def list_all2_refl)

text \<open>One step of the queue: every row moves, and an accepted enqueue adds a fresh pending row.\<close>

lemma outbox_step_rows:
  assumes "outbox_inv t"
  obtains (moves) "list_all2 moved (rows t) (rows (outbox_step a mk c t op))"
      "next_row_id (outbox_step a mk c t op) = next_row_id t"
  | (adds) r where "rows (outbox_step a mk c t op) = rows t @ [r]"
      "next_row_id (outbox_step a mk c t op) = next_row_id t + 1"
      "row_id r = next_row_id t" "row_phase r = (''pending'', 0)"
      "length (filter (in_flight (row_workspace r)) (rows t)) < MAX_PENDING_UPDATES"
proof (cases op)
  case (Enqueue nonce ws d cid p now)
  then show ?thesis using that
    by (cases "is_over_limit (check_backpressure ws t)"; cases "encrypt_at_rest a mk nonce p")
      (fastforce simp: enqueue_def Let_def check_backpressure_def row_phase_def list_all2_refl)+
next
  case (MarkSent i)
  then show ?thesis using that(1) mark_sent_moved [of t i]
    by (auto simp: mark_sent_def Let_def update_where_def)
next
  case (MarkAcked i)
  then show ?thesis using that(1) mark_acked_moved [of t i]
    by (auto simp: mark_acked_def Let_def update_where_def)
next
  case (MarkFailed i now)
  then show ?thesis using that(1) mark_failed_moved [of t c i now] assms
    by (auto simp: mark_failed_def Let_def update_where_def outbox_inv_def split: option.split)
qed

lemma moved_in_flight: "moved r r' \<Longrightarrow> in_flight ws r' \<Longrightarrow> in_flight ws r"
  by (auto simp: moved_def in_flight_def row_phase_def elim: row_step.cases)

lemma count_moved:
  "list_all2 moved rs qs \<Longrightarrow> length (filter (in_flight ws) qs) \<le> length (filter (in_flight ws) rs)"
  by (induction rule: list_all2_induct) (auto dest: moved_in_flight)

lemma ids_moved: "list_all2 moved rs qs \<Longrightarrow> map row_id qs = map row_id rs"
  by (induction rule: list_all2_induct) (auto simp: moved_def)

lemma phases_moved:
  "list_all2 moved rs qs \<Longrightarrow> \<forall>r \<in> set rs. phase_ok (row_phase r) \<Longrightarrow> \<forall>q \<in> set qs. phase_ok (row_phase q)"
  by (induction rule: list_all2_induct) (auto simp: moved_def intro: phase_ok_step)

lemma outbox_inv_moved:
  assumes "outbox_inv t" "list_all2 moved (rows t) (rows t')" "next_row_id t' = next_row_id t"
  shows "outbox_inv t'"
proof -
  have "\<forall>r \<in> set (rows t'). row_id r < next_row_id t'"
    using assms ids_moved [OF assms(2)] unfolding outbox_inv_def by (metis (mono_tags, lifting) in_set_conv_nth length_map nth_map)
  moreover have "length (filter (in_flight ws) (rows t')) \<le> MAX_PENDING_UPDATES" for ws
    using assms(1) count_moved [OF assms(2), of ws] unfolding outbox_inv_def by (meson order_trans)
  ultimately show ?thesis
    using assms ids_moved [OF assms(2)] phases_moved [OF assms(2)] by (simp add: outbox_inv_def)
qed

lemma outbox_inv_step: "outbox_inv t \<Longrightarrow> outbox_inv (outbox_step a mk c t op)"
proof -
  assume inv: "outbox_inv t"
  then show ?thesis
  proof (cases rule: outbox_step_rows [of t a mk c op])
    case moves
    then show ?thesis using inv outbox_inv_moved by blast
  next
    case (adds r)
    have "length (filter (in_flight ws) (rows t @ [r])) \<le> MAX_PENDING_UPDATES" for ws
      using adds(5) inv by (cases "ws = row_workspace r") (auto simp: outbox_inv_def in_flight_def)
    moreover have "sorted_wrt (<) (map row_id (rows t @ [r]))"
      using inv adds(3) by (auto simp: outbox_inv_def sorted_wrt_append)
    moreover have "phase_ok (row_phase r)" using adds(4) by (simp add: phase_ok_def MAX_ATTEMPTS_def)
    ultimately show ?thesis using inv adds(1-3) by (auto simp: outbox_inv_def less_Suc_eq)
  qed
qed

interpretation outbox: init_system "outbox_step a mk c" "\<lambda>_ _. True" outbox_inv empty_outbox for a mk c
proof unfold_locales
  show "outbox_inv empty_outbox" by (simp add: empty_outbox_def outbox_inv_def)
qed (rule outbox_inv_step)

section \<open>Properties\<close>

text \<open>
  (C7) Whatever is enqueued, sent, acknowledged or failed, and in whatever order, the outbox
  keeps its rows under ascending distinct ids, no update has been tried more than eight times and
  the dead ones are exactly those that failed eight times, and no workspace has more than ten
  thousand updates in flight.
\<close>

theorem outbox_reachable:
  "let t = foldl (outbox_step a mk c) empty_outbox ops in
   sorted_wrt (<) (map row_id (rows t)) \<and>
   (\<forall>r \<in> set (rows t).
      (row_state r \<in> {''pending'', ''sent'', ''acked''} \<and> row_retry_count r < MAX_ATTEMPTS) \<or>
      (row_state r = ''dead'' \<and> row_retry_count r = MAX_ATTEMPTS)) \<and>
   (\<forall>ws. pending_count (check_backpressure ws t) \<le> MAX_PENDING_UPDATES)"
proof -
  have "outbox_inv (foldl (outbox_step a mk c) empty_outbox ops)"
    by (rule outbox.inv_reachable) simp
  then show ?thesis
    by (auto simp: Let_def outbox_inv_def phase_ok_def row_phase_def check_backpressure_def)
qed

theorem outbox_reachable_witness:
  "let t = foldl (outbox_step null_aead (Some []) stroke_clock) empty_outbox
     [Enqueue zero_nonce ''w'' ''d'' ''u'' [1] 0, MarkSent 1, MarkFailed 1 0] in
   \<forall>r \<in> set (rows t).
      (row_state r \<in> {''pending'', ''sent'', ''acked''} \<and> row_retry_count r < MAX_ATTEMPTS) \<or>
      (row_state r = ''dead'' \<and> row_retry_count r = MAX_ATTEMPTS)"
  using outbox_reachable [of null_aead "Some []" stroke_clock
      "[Enqueue zero_nonce ''w'' ''d'' ''u'' [1] 0, MarkSent 1, MarkFailed 1 0]"]
  unfolding Let_def by blast

text \<open>
  (C8) No operation loses an update or changes its number, its workspace, its document, its
  update id, its payload or its creation time; and none takes it along a transition other than
  pending to sent, sent to acked, sent back to pending with one more failure, or sent to dead at
  the eighth failure. In particular acked and dead updates never change state again, and, unlike
  what the module comment lists, a pending update never becomes dead directly.
\<close>

theorem outbox_transitions:
  assumes "outbox_inv t" and "r \<in> set (rows t)"
  shows "\<exists>r' \<in> set (rows (outbox_step a mk c t op)).
    row_id r' = row_id r \<and> row_workspace r' = row_workspace r \<and> row_doc r' = row_doc r \<and>
    row_client_update r' = row_client_update r \<and> row_payload r' = row_payload r \<and>
    row_created_at r' = row_created_at r \<and>
    row_step (row_state r, row_retry_count r) (row_state r', row_retry_count r') \<and>
    (row_state r \<in> {''acked'', ''dead''} \<longrightarrow> row_state r' = row_state r) \<and>
    (row_state r = ''pending'' \<longrightarrow> row_state r' \<in> {''pending'', ''sent''})"
proof -
  have "\<exists>r' \<in> set (rows (outbox_step a mk c t op)). moved r r'"
  proof (cases rule: outbox_step_rows [OF assms(1), of a mk c op])
    case 1
    then show ?thesis using assms(2)
      by (metis in_set_conv_nth list_all2_conv_all_nth)
  next
    case (2 q)
    then show ?thesis using assms(2) moved_refl [of r] by (intro bexI [of _ r]) auto
  qed
  then show ?thesis
    by (auto simp: moved_def row_phase_def elim: row_step_from_acked row_step_from_dead row_step_from_pending intro!: bexI)
qed

definition demo_row :: outbox_row where
  "demo_row = \<lparr>row_id = 1, row_workspace = ''w'', row_doc = ''d'', row_client_update = ''u'',
     row_payload = [9], row_retry_count = 7, row_next_retry_at = None, row_state = ''sent'', row_created_at = []\<rparr>"

definition demo_table :: outbox_table where
  "demo_table = \<lparr>rows = [demo_row], next_row_id = 2\<rparr>"

lemma demo_table_inv: "outbox_inv demo_table"
  by (simp add: outbox_inv_def demo_table_def demo_row_def phase_ok_def row_phase_def MAX_ATTEMPTS_def MAX_PENDING_UPDATES_def)

theorem outbox_transitions_witness:
  "\<exists>r' \<in> set (rows (outbox_step null_aead None stroke_clock demo_table (MarkFailed 1 0))).
    row_id r' = 1 \<and> row_doc r' = ''d'' \<and> row_payload r' = [9] \<and> row_client_update r' = ''u'' \<and>
    row_step (''sent'', 7) (row_state r', row_retry_count r')"
  using outbox_transitions [OF demo_table_inv, of demo_row null_aead None stroke_clock "MarkFailed 1 0"]
  by (auto simp: demo_table_def demo_row_def)

text \<open>
  A send that fails puts the update back in the queue with exponential backoff: it is not
  handed out again before \<open>250 * 2^n\<close> milliseconds have passed (30 seconds at most), where \<open>n\<close>
  is how often it had failed before, and it is handed out from then on.
\<close>

theorem failed_update_waits:
  assumes "text_clock_laws c ok" and "outbox_inv t" and "r \<in> set (rows t)" and "row_state r = ''sent''"
    and "row_retry_count r + 1 < MAX_ATTEMPTS"
    and "ok later" and "ok (now + int (backoff_delay (row_retry_count r)) * 1000000)"
    and "r' \<in> set (rows (snd (mark_failed c (row_id r) now t)))" and "row_id r' = row_id r"
  shows "is_ready c later r' \<longleftrightarrow> now + int (min (250 * 2 ^ row_retry_count r) 30000) * 1000000 \<le> later"
proof -
  have ids: "sorted_wrt (<) (map row_id (rows t))" using assms(2) by (simp add: outbox_inv_def)
  have f: "find (\<lambda>q. row_id q = row_id r) (rows t) = Some r"
  proof (cases "find (\<lambda>q. row_id q = row_id r) (rows t)")
    case None
    then show ?thesis using assms(3) by (auto simp: find_None_iff)
  next
    case (Some q)
    then show ?thesis using find_row [OF Some] same_id_same_row [OF ids _ assms(3)] by auto
  qed
  have bd: "backoff_delay (row_retry_count r) = min (250 * 2 ^ row_retry_count r) 30000"
  proof -
    have "row_retry_count r \<le> 7" using assms(5) by (simp add: MAX_ATTEMPTS_def)
    moreover from this have "(2::nat) ^ row_retry_count r \<le> 2 ^ 7" by (intro power_increasing) auto
    ultimately show ?thesis
      by (simp add: backoff_delay_def BASE_DELAY_MS_def MAX_DELAY_MS_def usize_max_def min_def)
  qed
  have "r' = r\<lparr>row_state := ''pending'', row_retry_count := row_retry_count r + 1,
      row_next_retry_at := Some (to_rfc3339 c (now + int (backoff_delay (row_retry_count r)) * 1000000))\<rparr>"
    using assms(4,5,8,9) f same_id_same_row [OF ids _ assms(3)]
    by (auto simp: mark_failed_def Let_def update_where_def split: if_splits)
  then show ?thesis using text_clock_le [OF assms(1,7,6)] by (simp add: is_ready_def bd)
qed

theorem failed_update_waits_witness:
  "let t = demo_table\<lparr>rows := [demo_row\<lparr>row_retry_count := 1\<rparr>]\<rparr>;
       r' = hd (rows (snd (mark_failed stroke_clock 1 0 t)))
   in is_ready stroke_clock 500000000 r' \<and> \<not> is_ready stroke_clock 499999999 r'"
proof -
  let ?r = "demo_row\<lparr>row_retry_count := 1\<rparr>" and ?t = "demo_table\<lparr>rows := [demo_row\<lparr>row_retry_count := 1\<rparr>]\<rparr>"
  have inv: "outbox_inv ?t"
    by (simp add: outbox_inv_def demo_table_def demo_row_def phase_ok_def row_phase_def MAX_ATTEMPTS_def MAX_PENDING_UPDATES_def)
  let ?r' = "hd (rows (snd (mark_failed stroke_clock 1 0 ?t)))"
  have r': "?r' \<in> set (rows (snd (mark_failed stroke_clock (row_id ?r) 0 ?t)))" "row_id ?r' = row_id ?r"
    by (simp_all add: mark_failed_def demo_row_def update_where_def Let_def MAX_ATTEMPTS_def)
  show ?thesis
    using failed_update_waits [OF stroke_clock_laws inv _ _ _ _ _ r', where later = 500000000]
      failed_update_waits [OF stroke_clock_laws inv _ _ _ _ _ r', where later = 499999999]
    by (simp add: demo_row_def MAX_ATTEMPTS_def backoff_delay_def BASE_DELAY_MS_def MAX_DELAY_MS_def usize_max_def)
qed

end
