(* ===== verification/Lease.thy ===== *)
theory Lease
  imports SqlText "HOL-Library.AList" "HOL-Library.Char_ord" "HOL-Library.List_Lexorder"
begin

text \<open>
  \<open>daemon/src/agent/lease.rs\<close>: advisory leases of agents on document sections, kept in memory
  and in SQLite. The hash map is an association list; the table \<open>agent_leases\<close> is a list of rows
  under its primary key. Strings are ordered by their characters, as \<open>String::cmp\<close> does.
\<close>

section \<open>Data\<close>

datatype lease_mode = Exclusive | Shared

fun mode_str :: "lease_mode \<Rightarrow> string" where
  "mode_str Exclusive = ''exclusive''"
| "mode_str Shared = ''shared''"

definition parse_mode :: "string \<Rightarrow> lease_mode option" where
  "parse_mode s = (if s = ''exclusive'' then Some Exclusive else if s = ''shared'' then Some Shared else None)"

record section_lease =
  l_workspace :: string
  l_doc :: string
  l_section :: string
  l_agent :: string
  l_ttl :: nat
  l_mode :: lease_mode
  l_note :: "string option"
  l_expires :: timestamp

record lease_claim =
  c_workspace :: string
  c_doc :: string
  c_section :: string
  c_agent :: string
  c_ttl :: nat
  c_mode :: lease_mode
  c_note :: "string option"

record lease_conflict =
  conflict_agent :: string
  conflict_section :: string

record claim_result =
  claimed_lease :: section_lease
  claim_conflicts :: "lease_conflict list"

type_synonym lease_key = "string \<times> string \<times> string \<times> string"

definition lease_key :: "section_lease \<Rightarrow> lease_key" where
  "lease_key l = (l_workspace l, l_doc l, l_section l, l_agent l)"

definition is_expired_at :: "section_lease \<Rightarrow> timestamp \<Rightarrow> bool" where
  "is_expired_at l now \<longleftrightarrow> l_expires l \<le> now"

type_synonym lease_store = "(lease_key \<times> section_lease) list"

text \<open>A row of \<open>agent_leases\<close> below its primary key.\<close>

record lease_row =
  r_ttl :: int
  r_mode :: string
  r_note :: "string option"
  r_expires :: string

type_synonym lease_table = "(lease_key \<times> lease_row) list"

datatype lease_error = ZeroTtl | InvalidTtl int | InvalidMode string | InvalidExpiry string

section \<open>Operations\<close>

definition upsert_lease :: "text_clock \<Rightarrow> section_lease \<Rightarrow> lease_table \<Rightarrow> lease_table" where
  "upsert_lease c l tbl =
     AList.update (lease_key l)
       \<lparr>r_ttl = int (l_ttl l), r_mode = mode_str (l_mode l), r_note = l_note l,
        r_expires = to_rfc3339 c (l_expires l)\<rparr> tbl"

definition prune_expired ::
  "text_clock \<Rightarrow> timestamp \<Rightarrow> lease_store \<Rightarrow> lease_table \<Rightarrow> nat \<times> lease_store \<times> lease_table" where
  "prune_expired c now store tbl =
     (let store' = filter (\<lambda>(k, l). \<not> is_expired_at l now) store;
          tbl' = filter (\<lambda>(k, r). \<not> text_le c (r_expires r) (to_rfc3339 c now)) tbl
      in (length store - length store', store', tbl'))"

definition row_to_lease :: "text_clock \<Rightarrow> lease_key \<Rightarrow> lease_row \<Rightarrow> (lease_error, section_lease) result" where
  "row_to_lease c k r =
     (if r_ttl r < 0 \<or> r_ttl r \<ge> 2 ^ 32 then Err (InvalidTtl (r_ttl r))
      else case parse_mode (r_mode r) of
        None \<Rightarrow> Err (InvalidMode (r_mode r))
      | Some m \<Rightarrow>
          (case parse_rfc3339 c (r_expires r) of
             None \<Rightarrow> Err (InvalidExpiry (r_expires r))
           | Some t \<Rightarrow>
               (case k of (ws, d, s, ag) \<Rightarrow>
                  Okay \<lparr>l_workspace = ws, l_doc = d, l_section = s, l_agent = ag, l_ttl = nat (r_ttl r),
                        l_mode = m, l_note = r_note r, l_expires = t\<rparr>)))"

fun load_rows ::
  "text_clock \<Rightarrow> (lease_key \<times> lease_row) list \<Rightarrow> lease_store \<Rightarrow> (lease_error, lease_store) result" where
  "load_rows c [] store = Okay store"
| "load_rows c ((k, r) # rs) store =
     (case row_to_lease c k r of
        Inl e \<Rightarrow> Err e
      | Inr l \<Rightarrow> load_rows c rs (AList.update (lease_key l) l store))"

definition load_from_sqlite ::
  "text_clock \<Rightarrow> timestamp \<Rightarrow> lease_table \<Rightarrow> lease_store \<Rightarrow> (lease_error, lease_store) result" where
  "load_from_sqlite c now tbl store =
     load_rows c (filter (\<lambda>(k, r). \<not> text_le c (r_expires r) (to_rfc3339 c now)) tbl) store"

definition lease_store_new ::
  "text_clock \<Rightarrow> timestamp \<Rightarrow> lease_table \<Rightarrow> (lease_error, lease_store) result \<times> lease_table" where
  "lease_store_new c now tbl =
     (let (_, store, tbl') = prune_expired c now [] tbl in (load_from_sqlite c now tbl' store, tbl'))"

definition on_section :: "string \<Rightarrow> string \<Rightarrow> string \<Rightarrow> section_lease \<Rightarrow> bool" where
  "on_section ws d s l \<longleftrightarrow> l_workspace l = ws \<and> l_doc l = d \<and> l_section l = s"

definition conflicts_for_section ::
  "lease_store \<Rightarrow> string \<Rightarrow> string \<Rightarrow> string \<Rightarrow> string option \<Rightarrow> timestamp \<Rightarrow> lease_conflict list" where
  "conflicts_for_section store ws d s excluding now =
     sort_key conflict_agent
       (map (\<lambda>l. \<lparr>conflict_agent = l_agent l, conflict_section = l_section l\<rparr>)
         (filter (\<lambda>l. on_section ws d s l \<and> \<not> is_expired_at l now \<and>
                      (case excluding of Some agent \<Rightarrow> l_agent l \<noteq> agent | None \<Rightarrow> True))
            (map snd store)))"

definition claim ::
  "text_clock \<Rightarrow> lease_claim \<Rightarrow> timestamp \<Rightarrow> lease_store \<Rightarrow> lease_table \<Rightarrow>
   (lease_error, claim_result) result \<times> lease_store \<times> lease_table" where
  "claim c cl now store tbl =
     (if c_ttl cl = 0 then (Err ZeroTtl, store, tbl)
      else
        let (_, store1, tbl1) = prune_expired c now store tbl;
            conflicts = conflicts_for_section store1 (c_workspace cl) (c_doc cl) (c_section cl) (Some (c_agent cl)) now;
            l = \<lparr>l_workspace = c_workspace cl, l_doc = c_doc cl, l_section = c_section cl, l_agent = c_agent cl,
                 l_ttl = c_ttl cl, l_mode = c_mode cl, l_note = c_note cl,
                 l_expires = now + int (c_ttl cl) * 1000000000\<rparr>
        in (Okay \<lparr>claimed_lease = l, claim_conflicts = conflicts\<rparr>,
            AList.update (lease_key l) l store1, upsert_lease c l tbl1))"

definition record_activity ::
  "text_clock \<Rightarrow> lease_key \<Rightarrow> timestamp \<Rightarrow> lease_store \<Rightarrow> lease_table \<Rightarrow>
   section_lease option \<times> lease_store \<times> lease_table" where
  "record_activity c k now store tbl =
     (let (_, store1, tbl1) = prune_expired c now store tbl in
      case map_of store1 k of
        None \<Rightarrow> (None, store1, tbl1)
      | Some l \<Rightarrow>
          let l' = l\<lparr>l_expires := now + int (l_ttl l) * 1000000000\<rparr>
          in (Some l', AList.update k l' store1, upsert_lease c l' tbl1))"

definition active_leases_for_section ::
  "text_clock \<Rightarrow> string \<Rightarrow> string \<Rightarrow> string \<Rightarrow> timestamp \<Rightarrow> lease_store \<Rightarrow> lease_table \<Rightarrow>
   section_lease list \<times> lease_store \<times> lease_table" where
  "active_leases_for_section c ws d s now store tbl =
     (let (_, store1, tbl1) = prune_expired c now store tbl
      in (sort_key l_agent (filter (\<lambda>l. on_section ws d s l \<and> \<not> is_expired_at l now) (map snd store1)), store1, tbl1))"

definition active_leases ::
  "text_clock \<Rightarrow> string \<Rightarrow> string option \<Rightarrow> timestamp \<Rightarrow> lease_store \<Rightarrow> lease_table \<Rightarrow>
   section_lease list \<times> lease_store \<times> lease_table" where
  "active_leases c ws d now store tbl =
     (let (_, store1, tbl1) = prune_expired c now store tbl
      in (sort_key l_doc (sort_key l_section (sort_key l_agent
            (filter (\<lambda>l. l_workspace l = ws \<and> (case d of Some d' \<Rightarrow> l_doc l = d' | None \<Rightarrow> True) \<and>
                         \<not> is_expired_at l now) (map snd store1)))), store1, tbl1))"

section \<open>Memory and table agree\<close>

text \<open>
  Under every key, the table holds the row of the lease in memory, and a lease is filed under its
  own key; all expiry times are in the range of the clock's text.
\<close>

definition row_of :: "text_clock \<Rightarrow> section_lease \<Rightarrow> lease_row" where
  "row_of c l = \<lparr>r_ttl = int (l_ttl l), r_mode = mode_str (l_mode l), r_note = l_note l,
                 r_expires = to_rfc3339 c (l_expires l)\<rparr>"

definition agree :: "text_clock \<Rightarrow> (timestamp \<Rightarrow> bool) \<Rightarrow> lease_store \<Rightarrow> lease_table \<Rightarrow> bool" where
  "agree c ok store tbl \<longleftrightarrow>
     distinct (map fst store) \<and> distinct (map fst tbl) \<and>
     (\<forall>k. map_of tbl k = map_option (row_of c) (map_of store k)) \<and>
     (\<forall>k l. map_of store k = Some l \<longrightarrow> lease_key l = k \<and> ok (l_expires l) \<and> l_ttl l < 2 ^ 32)"

lemma map_of_filter:
  "distinct (map fst xs) \<Longrightarrow>
   map_of (filter (\<lambda>(k, v). P v) xs) k = (case map_of xs k of Some v \<Rightarrow> if P v then Some v else None | None \<Rightarrow> None)"
proof (induction xs)
  case (Cons x xs)
  have "map_of (filter (\<lambda>(k, v). P v) xs) (fst x) = None"
    using Cons.prems by (auto simp: map_of_eq_None_iff)
  then show ?case using Cons by (cases x) auto
qed simp

lemma distinct_map_fst_filter: "distinct (map fst xs) \<Longrightarrow> distinct (map fst (filter P xs))"
  by (rule distinct_map_filter)

lemma agree_prune:
  assumes "text_clock_laws c ok" "ok now" "agree c ok store tbl"
    and "prune_expired c now store tbl = (n, store', tbl')"
  shows "agree c ok store' tbl' \<and>
    (\<forall>k. map_of store' k = (case map_of store k of Some l \<Rightarrow> if l_expires l \<le> now then None else Some l | None \<Rightarrow> None))"
proof -
  have st: "store' = filter (\<lambda>(k, l). \<not> l_expires l \<le> now) store"
    and tb: "tbl' = filter (\<lambda>(k, r). \<not> text_le c (r_expires r) (to_rfc3339 c now)) tbl"
    using assms(4) by (auto simp: prune_expired_def Let_def is_expired_at_def)
  have d: "distinct (map fst store)" "distinct (map fst tbl)" using assms(3) by (auto simp: agree_def)
  have s: "map_of store' k = (case map_of store k of Some l \<Rightarrow> if l_expires l \<le> now then None else Some l | None \<Rightarrow> None)" for k
    unfolding st using map_of_filter [OF d(1), of "\<lambda>l. \<not> l_expires l \<le> now" k] by (auto split: option.splits)
  have "map_of tbl' k = map_option (row_of c) (map_of store' k)" for k
  proof -
    have "map_of tbl k = map_option (row_of c) (map_of store k)"
      using assms(3) unfolding agree_def by blast
    moreover have "text_le c (r_expires (row_of c l)) (to_rfc3339 c now) \<longleftrightarrow> l_expires l \<le> now"
      if "map_of store k = Some l" for l
    proof -
      have "ok (l_expires l)" using that assms(3) unfolding agree_def by blast
      then show ?thesis using text_clock_le [OF assms(1) _ assms(2)] by (simp add: row_of_def)
    qed
    ultimately show ?thesis
      unfolding tb s using map_of_filter [OF d(2), of "\<lambda>r. \<not> text_le c (r_expires r) (to_rfc3339 c now)" k]
      by (auto split: option.splits)
  qed
  moreover have "\<forall>k l. map_of store' k = Some l \<longrightarrow> lease_key l = k \<and> ok (l_expires l) \<and> l_ttl l < 2 ^ 32"
    using assms(3) unfolding s agree_def by (auto split: option.splits if_splits)
  ultimately show ?thesis using s d unfolding agree_def st tb by (simp add: distinct_map_fst_filter)
qed

lemma agree_upsert:
  assumes "agree c ok store tbl" "k = lease_key l" "ok (l_expires l)" "l_ttl l < 2 ^ 32"
  shows "agree c ok (AList.update k l store) (upsert_lease c l tbl)"
  using assms by (auto simp: agree_def upsert_lease_def update_conv' distinct_update row_of_def)

lemma row_to_lease_row_of:
  assumes "text_clock_laws c ok" "ok (l_expires l)" "l_ttl l < 2 ^ 32" "lease_key l = k"
  shows "row_to_lease c k (row_of c l) = Okay l"
proof -
  have "parse_mode (mode_str (l_mode l)) = Some (l_mode l)" by (cases "l_mode l") (simp_all add: parse_mode_def)
  then show ?thesis using assms text_clock_parse [OF assms(1,2)]
    by (auto simp: row_to_lease_def row_of_def lease_key_def)
qed

lemma load_rows_ok:
  "distinct (map fst rs) \<Longrightarrow> \<forall>(k, r) \<in> set rs. \<exists>l. row_to_lease c k r = Okay l \<and> lease_key l = k \<Longrightarrow>
   \<exists>s'. load_rows c rs store = Okay s' \<and>
     (\<forall>k. map_of s' k = (case map_of rs k of Some r \<Rightarrow> Some (projr (row_to_lease c k r)) | None \<Rightarrow> map_of store k))"
proof (induction c rs store rule: load_rows.induct)
  case (2 c k r rs store)
  obtain l where l: "row_to_lease c k r = Okay l" "lease_key l = k" using "2.prems"(2) by auto
  obtain s' where s': "load_rows c rs (AList.update k l store) = Okay s'"
    "\<forall>j. map_of s' j = (case map_of rs j of Some r \<Rightarrow> Some (projr (row_to_lease c j r))
                        | None \<Rightarrow> map_of (AList.update k l store) j)"
    using "2.IH" [OF l(1)] "2.prems" l(2) by auto
  have "map_of rs k = None" using "2.prems"(1) by (simp add: map_of_eq_None_iff)
  then show ?case using s' l by (auto simp: update_conv' split: option.splits)
qed simp

text \<open>The lease in memory that is still active, under each key.\<close>

definition active_at :: "timestamp \<Rightarrow> lease_store \<Rightarrow> lease_key \<Rightarrow> section_lease option" where
  "active_at now store k = (case map_of store k of Some l \<Rightarrow> if l_expires l \<le> now then None else Some l | None \<Rightarrow> None)"

lemma restart_agrees:
  assumes "text_clock_laws c ok" "ok now" "agree c ok store tbl"
  shows "\<exists>store' tbl'. lease_store_new c now tbl = (Okay store', tbl') \<and> map_of store' = active_at now store"
proof -
  let ?tbl = "filter (\<lambda>(k, r). \<not> text_le c (r_expires r) (to_rfc3339 c now)) tbl"
  obtain n store1 where pr: "prune_expired c now store tbl = (n, store1, ?tbl)"
    by (simp add: prune_expired_def Let_def)
  have ag: "agree c ok store1 ?tbl" and st: "map_of store1 = active_at now store"
    using agree_prune [OF assms pr] by (auto simp: active_at_def)
  have rows: "map_of ?tbl k = map_option (row_of c) (map_of store1 k)" for k
    using ag unfolding agree_def by blast
  have leases: "row_to_lease c k (row_of c l) = Okay l \<and> lease_key l = k" if "map_of store1 k = Some l" for k l
    using ag that row_to_lease_row_of [OF assms(1)] unfolding agree_def by blast
  have d: "distinct (map fst ?tbl)" using ag unfolding agree_def by blast
  have "\<forall>(k, r) \<in> set ?tbl. \<exists>l. row_to_lease c k r = Okay l \<and> lease_key l = k"
  proof clarify
    fix ws dd s ag' r
    assume "((ws, dd, s, ag'), r) \<in> set ?tbl"
    then have "map_of ?tbl (ws, dd, s, ag') = Some r" using d by simp
    then obtain l where "map_of store1 (ws, dd, s, ag') = Some l" "r = row_of c l"
      using rows [of "(ws, dd, s, ag')"] by auto
    then show "\<exists>l. row_to_lease c (ws, dd, s, ag') r = Okay l \<and> lease_key l = (ws, dd, s, ag')"
      using leases by blast
  qed
  then obtain s' where s': "load_rows c ?tbl [] = Okay s'"
    "\<forall>k. map_of s' k = (case map_of ?tbl k of Some r \<Rightarrow> Some (projr (row_to_lease c k r)) | None \<Rightarrow> map_of [] k)"
    using load_rows_ok [OF d, of c "[]"] by blast
  have "map_of s' k = map_of store1 k" for k
    using spec [OF s'(2), of k] rows [of k] leases [of k] by (cases "map_of store1 k") auto
  moreover have "load_from_sqlite c now ?tbl [] = Okay s'"
    using s'(1) by (simp add: load_from_sqlite_def)
  ultimately show ?thesis using st by (auto simp: lease_store_new_def prune_expired_def Let_def)
qed

section \<open>Runs\<close>

datatype lease_op =
    Claim lease_claim timestamp
  | Activity lease_key timestamp
  | ListSection string string string timestamp
  | ListWorkspace string "string option" timestamp

fun lease_step :: "text_clock \<Rightarrow> lease_store \<times> lease_table \<Rightarrow> lease_op \<Rightarrow> lease_store \<times> lease_table" where
  "lease_step c (store, tbl) (Claim cl now) = snd (claim c cl now store tbl)"
| "lease_step c (store, tbl) (Activity k now) = snd (record_activity c k now store tbl)"
| "lease_step c (store, tbl) (ListSection ws d s now) = snd (active_leases_for_section c ws d s now store tbl)"
| "lease_step c (store, tbl) (ListWorkspace ws d now) = snd (active_leases c ws d now store tbl)"

text \<open>The instants and the durations of an operation are in range.\<close>

fun lease_op_ok :: "(timestamp \<Rightarrow> bool) \<Rightarrow> lease_store \<times> lease_table \<Rightarrow> lease_op \<Rightarrow> bool" where
  "lease_op_ok ok st (Claim cl now) \<longleftrightarrow> ok now \<and> ok (now + int (c_ttl cl) * 1000000000) \<and> c_ttl cl < 2 ^ 32"
| "lease_op_ok ok (store, tbl) (Activity k now) \<longleftrightarrow>
     ok now \<and> (case map_of store k of Some l \<Rightarrow> ok (now + int (l_ttl l) * 1000000000) | None \<Rightarrow> True)"
| "lease_op_ok ok st (ListSection ws d s now) \<longleftrightarrow> ok now"
| "lease_op_ok ok st (ListWorkspace ws d now) \<longleftrightarrow> ok now"

lemma agree_claim:
  assumes "text_clock_laws c ok" "agree c ok store tbl" "lease_op_ok ok (store, tbl) (Claim cl now)"
  shows "case snd (claim c cl now store tbl) of (store', tbl') \<Rightarrow> agree c ok store' tbl'"
proof (cases "c_ttl cl = 0")
  case False
  obtain n s1 t1 where pr: "prune_expired c now store tbl = (n, s1, t1)" by (rule prod_cases3)
  have "agree c ok s1 t1" using agree_prune [OF assms(1) _ assms(2) pr] assms(3) by simp
  then show ?thesis using False pr assms(3) by (auto simp: claim_def Let_def intro!: agree_upsert)
qed (use assms in \<open>simp add: claim_def\<close>)

lemma agree_activity:
  assumes "text_clock_laws c ok" "agree c ok store tbl" "lease_op_ok ok (store, tbl) (Activity k now)"
  shows "case snd (record_activity c k now store tbl) of (store', tbl') \<Rightarrow> agree c ok store' tbl'"
proof -
  obtain n s1 t1 where pr: "prune_expired c now store tbl = (n, s1, t1)" by (rule prod_cases3)
  have ag: "agree c ok s1 t1" and s1: "map_of s1 = active_at now store"
    using agree_prune [OF assms(1) _ assms(2) pr] assms(3) by (auto simp: active_at_def)
  show ?thesis
  proof (cases "map_of s1 k")
    case None
    then show ?thesis using pr ag by (simp add: record_activity_def)
  next
    case (Some l)
    let ?l = "l\<lparr>l_expires := now + int (l_ttl l) * 1000000000\<rparr>"
    have "map_of store k = Some l" using Some s1 by (auto simp: active_at_def split: option.splits if_splits)
    then have "ok (l_expires ?l)" using assms(3) by simp
    moreover have "lease_key l = k" "l_ttl l < 2 ^ 32" using ag Some unfolding agree_def by blast+
    moreover have "lease_key ?l = lease_key l" by (simp add: lease_key_def)
    ultimately have "agree c ok (AList.update k ?l s1) (upsert_lease c ?l t1)"
      using ag by (intro agree_upsert) auto
    then show ?thesis using pr Some by (simp add: record_activity_def Let_def)
  qed
qed

lemma agree_step:
  assumes "text_clock_laws c ok" "agree c ok store tbl" "lease_op_ok ok (store, tbl) op"
  shows "case lease_step c (store, tbl) op of (store', tbl') \<Rightarrow> agree c ok store' tbl'"
proof (cases op)
  case (Claim cl now)
  then show ?thesis using agree_claim assms by simp
next
  case (Activity k now)
  then show ?thesis using agree_activity assms by simp
next
  case (ListSection ws d s now)
  obtain n s1 t1 where pr: "prune_expired c now store tbl = (n, s1, t1)" by (rule prod_cases3)
  then show ?thesis using ListSection assms agree_prune [OF assms(1) _ assms(2) pr]
    by (simp add: active_leases_for_section_def)
next
  case (ListWorkspace ws d now)
  obtain n s1 t1 where pr: "prune_expired c now store tbl = (n, s1, t1)" by (rule prod_cases3)
  then show ?thesis using ListWorkspace assms agree_prune [OF assms(1) _ assms(2) pr]
    by (simp add: active_leases_def)
qed

text \<open>
  For every clock the state of memory and table is one in which they agree. The clock is a
  parameter, so the law it is taken to obey stands in the invariant.
\<close>

interpretation leases: init_system "lease_step c" "lease_op_ok ok"
  "\<lambda>(store, tbl). text_clock_laws c ok \<longrightarrow> agree c ok store tbl" "([], [])" for c ok
proof unfold_locales
  fix st op
  assume "case st of (store, tbl) \<Rightarrow> text_clock_laws c ok \<longrightarrow> agree c ok store tbl" "lease_op_ok ok st op"
  then show "case lease_step c st op of (store, tbl) \<Rightarrow> text_clock_laws c ok \<longrightarrow> agree c ok store tbl"
    using agree_step by (cases st; cases "lease_step c st op") fastforce
qed (simp add: agree_def)

section \<open>Properties\<close>

text \<open>
  (C10) The leases survive a restart. After any sequence of claims, activity and queries,
  loading the lease store from SQLite succeeds and finds exactly the leases that were active in
  memory.
\<close>

theorem lease_restart:
  assumes "text_clock_laws c ok" and "run_ok (lease_step c) (lease_op_ok ok) ([], []) ops" and "ok now"
  shows "case foldl (lease_step c) ([], []) ops of (store, tbl) \<Rightarrow>
    \<exists>store' tbl'. lease_store_new c now tbl = (Okay store', tbl') \<and>
      (\<forall>k. map_of store' k =
         (case map_of store k of Some l \<Rightarrow> if is_expired_at l now then None else Some l | None \<Rightarrow> None))"
proof -
  obtain store tbl where st: "foldl (lease_step c) ([], []) ops = (store, tbl)" by (rule prod.exhaust)
  then have "agree c ok store tbl" using leases.inv_reachable [OF assms(2)] assms(1) by simp
  then obtain store' tbl' where "lease_store_new c now tbl = (Okay store', tbl')" "map_of store' = active_at now store"
    using restart_agrees [OF assms(1,3)] by blast
  then show ?thesis using st by (auto simp: active_at_def is_expired_at_def cong: option.case_cong)
qed

definition demo_claim :: lease_claim where
  "demo_claim = \<lparr>c_workspace = ''w'', c_doc = ''d'', c_section = ''s'', c_agent = ''a'', c_ttl = 1,
                 c_mode = Shared, c_note = None\<rparr>"

theorem lease_restart_witness:
  "case foldl (lease_step stroke_clock) ([], []) [Claim demo_claim 5] of (store, tbl) \<Rightarrow>
    \<exists>store' tbl'. lease_store_new stroke_clock 6 tbl = (Okay store', tbl') \<and>
      (\<forall>k. map_of store' k =
         (case map_of store k of Some l \<Rightarrow> if is_expired_at l 6 then None else Some l | None \<Rightarrow> None))"
  by (rule lease_restart [OF stroke_clock_laws]) (simp_all add: demo_claim_def)

text \<open>
  A claim with a time to live of zero is refused and changes nothing. Any other claim
  succeeds, files a lease that expires the full time to live from now, and reports as conflicts,
  in ascending order, exactly the other agents that hold an unexpired lease on the section.
\<close>

theorem claim_reports_conflicts:
  assumes "distinct (map fst store)" and "claim c cl now store tbl = (r, store', tbl')"
  shows "if c_ttl cl = 0 then r = Err ZeroTtl \<and> store' = store \<and> tbl' = tbl
    else \<exists>res. r = Okay res \<and>
      l_expires (claimed_lease res) = now + int (c_ttl cl) * 1000000000 \<and>
      map_of store' (c_workspace cl, c_doc cl, c_section cl, c_agent cl) = Some (claimed_lease res) \<and>
      sorted (map conflict_agent (claim_conflicts res)) \<and>
      set (map conflict_agent (claim_conflicts res)) =
        {l_agent l | l. l \<in> snd ` set store \<and> on_section (c_workspace cl) (c_doc cl) (c_section cl) l \<and>
           now < l_expires l \<and> l_agent l \<noteq> c_agent cl}"
proof (cases "c_ttl cl = 0")
  case False
  let ?s = "filter (\<lambda>(k, l). \<not> is_expired_at l now) store"
  have "set (map conflict_agent
        (conflicts_for_section ?s (c_workspace cl) (c_doc cl) (c_section cl) (Some (c_agent cl)) now)) =
      {l_agent l | l. l \<in> snd ` set store \<and> on_section (c_workspace cl) (c_doc cl) (c_section cl) l \<and>
         now < l_expires l \<and> l_agent l \<noteq> c_agent cl}"
    by (force simp: conflicts_for_section_def is_expired_at_def)
  moreover have "sorted (map conflict_agent (conflicts_for_section ?s ws d s e now))" for ws d s e
    by (simp add: conflicts_for_section_def)
  ultimately show ?thesis using False assms(2)
    by (auto simp: claim_def Let_def prune_expired_def lease_key_def update_conv')
qed (use assms in \<open>simp add: claim_def\<close>)

theorem claim_reports_conflicts_witness:
  "\<exists>res store' tbl'.
     claim stroke_clock (demo_claim\<lparr>c_agent := ''b''\<rparr>) 7
       [((''w'', ''d'', ''s'', ''a''),
         \<lparr>l_workspace = ''w'', l_doc = ''d'', l_section = ''s'', l_agent = ''a'', l_ttl = 1, l_mode = Shared,
          l_note = None, l_expires = 9\<rparr>)] [] = (Okay res, store', tbl') \<and>
     set (map conflict_agent (claim_conflicts res)) = {''a''}"
proof -
  let ?l = "\<lparr>l_workspace = ''w'', l_doc = ''d'', l_section = ''s'', l_agent = ''a'', l_ttl = 1, l_mode = Shared,
          l_note = None, l_expires = 9 :: int\<rparr>"
  let ?st = "[((''w'', ''d'', ''s'', ''a''), ?l)]" and ?cl = "demo_claim\<lparr>c_agent := ''b''\<rparr>"
  obtain r store' tbl' where r: "claim stroke_clock ?cl 7 ?st [] = (r, store', tbl')" by (rule prod_cases3)
  have "c_ttl ?cl \<noteq> 0" by (simp add: demo_claim_def)
  then obtain res where res: "r = Okay res" "set (map conflict_agent (claim_conflicts res)) =
      {l_agent l | l. l \<in> snd ` set ?st \<and> on_section (c_workspace ?cl) (c_doc ?cl) (c_section ?cl) l \<and>
         7 < l_expires l \<and> l_agent l \<noteq> c_agent ?cl}"
    using claim_reports_conflicts [OF _ r] by auto
  have "{l_agent l | l. l \<in> snd ` set ?st \<and> on_section (c_workspace ?cl) (c_doc ?cl) (c_section ?cl) l \<and>
         7 < l_expires l \<and> l_agent l \<noteq> c_agent ?cl} = {''a''}"
    by (auto simp: demo_claim_def on_section_def)
  then show ?thesis using r res by auto
qed

end
