(* ===== verification/DocSync.thy ===== *)
theory DocSync
  imports Prelude
begin

text \<open>
  \<open>common/src/protocol/ws.rs\<close> and the \<open>DocSyncStore\<close> of \<open>relay/src/ws/session.rs\<close>: the messages
  of the sync protocol and the relay's ordered log of each document's updates, with
  deduplication of client retries and the messages that bring a subscriber up to date.
  Metrics and log lines are left out; payloads are the base64 text the relay passes on.
\<close>

section \<open>Messages\<close>

type_synonym json = string

datatype ws_message =
    Hello (hello_version: string) (hello_token: string) (hello_resume: "string option")
  | HelloAck string bool string string
  | SubscribeMsg uuid "int option"
  | YjsUpdate (yu_doc: uuid) (yu_client: uuid) (yu_update: uuid) (yu_base: int) (yu_payload: string)
  | Ack uuid uuid int bool
  | SnapshotMsg uuid int string
  | AwarenessUpdate uuid "json list"
  | ErrorMsg string string bool "uuid option"

section \<open>The log of a document\<close>

record attribution =
  user_id :: "uuid option"
  agent_id :: "string option"

record doc_snapshot_state =
  snap_seq :: int
  snap_payload :: string

record doc_update_state =
  server_seq :: int
  du_client :: uuid
  du_cuid :: uuid
  du_payload_b64 :: string
  du_actor_user :: "uuid option"
  du_actor_agent :: "string option"

record doc_sync_state =
  dss_snapshot :: "doc_snapshot_state option"
  updates :: "doc_update_state list"
  dedupe :: "uuid \<times> uuid \<Rightarrow> int option"
  head_server_seq :: int

definition empty_doc_sync :: doc_sync_state where
  "empty_doc_sync = \<lparr>dss_snapshot = None, updates = [], dedupe = Map.empty, head_server_seq = 0\<rparr>"

type_synonym doc_store = "uuid \<times> uuid \<Rightarrow> doc_sync_state option"

text \<open>\<open>guard.entry(key).or_default()\<close>.\<close>

definition doc_entry :: "uuid \<times> uuid \<Rightarrow> doc_store \<Rightarrow> doc_sync_state" where
  "doc_entry key store = (case store key of Some st \<Rightarrow> st | None \<Rightarrow> empty_doc_sync)"

definition set_snapshot :: "uuid \<Rightarrow> uuid \<Rightarrow> int \<Rightarrow> string \<Rightarrow> doc_store \<Rightarrow> doc_store" where
  "set_snapshot ws d seq payload store =
     (let st = doc_entry (ws, d) store
      in store((ws, d) \<mapsto> st\<lparr>dss_snapshot := Some \<lparr>snap_seq = seq, snap_payload = payload\<rparr>,
                             head_server_seq := max (head_server_seq st) seq\<rparr>))"

definition append_update :: "uuid \<Rightarrow> uuid \<Rightarrow> int \<Rightarrow> uuid \<Rightarrow> uuid \<Rightarrow> string \<Rightarrow> doc_store \<Rightarrow> doc_store" where
  "append_update ws d seq client upd payload store =
     (let st = doc_entry (ws, d) store;
          u = \<lparr>server_seq = seq, du_client = client, du_cuid = upd, du_payload_b64 = payload,
               du_actor_user = None, du_actor_agent = None\<rparr>
      in store((ws, d) \<mapsto> st\<lparr>updates := sort_key server_seq (updates st @ [u]),
                             dedupe := (dedupe st)((client, upd) \<mapsto> seq),
                             head_server_seq := max (head_server_seq st) seq\<rparr>))"

datatype apply_result =
    Applied int int
  | Duplicate int
  | RejectedBaseSeq int

definition apply_client_update ::
  "uuid \<Rightarrow> uuid \<Rightarrow> uuid \<Rightarrow> uuid \<Rightarrow> int \<Rightarrow> string \<Rightarrow> attribution \<Rightarrow> doc_store \<Rightarrow> apply_result \<times> doc_store" where
  "apply_client_update ws d client upd base payload attr store =
     (let st = doc_entry (ws, d) store; store0 = store((ws, d) \<mapsto> st) in
      case dedupe st (client, upd) of
        Some existing \<Rightarrow> (Duplicate existing, store0)
      | None \<Rightarrow>
          if base > head_server_seq st then (RejectedBaseSeq (head_server_seq st), store0)
          else
            let next = sat_i64 (head_server_seq st + 1);
                u = \<lparr>server_seq = next, du_client = client, du_cuid = upd, du_payload_b64 = payload,
                     du_actor_user = user_id attr, du_actor_agent = agent_id attr\<rparr>
            in (Applied next (sat_i64 (next - 1)),
                store0((ws, d) \<mapsto> st\<lparr>updates := sort_key server_seq (updates st @ [u]),
                                        dedupe := (dedupe st)((client, upd) \<mapsto> next),
                                        head_server_seq := next\<rparr>)))"

definition update_message :: "uuid \<Rightarrow> doc_update_state \<Rightarrow> ws_message" where
  "update_message d u =
     YjsUpdate d (du_client u) (du_cuid u) (sat_i64 (server_seq u - 1)) (du_payload_b64 u)"

definition build_state_sync_messages :: "uuid \<Rightarrow> uuid \<Rightarrow> int option \<Rightarrow> doc_store \<Rightarrow> ws_message list" where
  "build_state_sync_messages ws d last_server_seq store =
     (case store (ws, d) of
        None \<Rightarrow> []
      | Some st \<Rightarrow>
          let (cursor_seq, messages) =
                (case dss_snapshot st of
                   Some snap \<Rightarrow>
                     if (case last_server_seq of None \<Rightarrow> True | Some s \<Rightarrow> s < snap_seq snap)
                     then (snap_seq snap, [SnapshotMsg d (snap_seq snap) (snap_payload snap)])
                     else (case last_server_seq of Some s \<Rightarrow> s | None \<Rightarrow> 0, [])
                 | None \<Rightarrow> (case last_server_seq of Some s \<Rightarrow> s | None \<Rightarrow> 0, []))
          in messages @ map (update_message d) (filter (\<lambda>u. server_seq u > cursor_seq) (updates st)))"

definition update_attribution :: "uuid \<Rightarrow> uuid \<Rightarrow> uuid \<Rightarrow> uuid \<Rightarrow> doc_store \<Rightarrow> attribution option" where
  "update_attribution ws d client upd store =
     (case store (ws, d) of
        None \<Rightarrow> None
      | Some st \<Rightarrow>
          map_option (\<lambda>u. \<lparr>user_id = du_actor_user u, agent_id = du_actor_agent u\<rparr>)
            (find (\<lambda>u. du_client u = client \<and> du_cuid u = upd) (updates st)))"

section \<open>Invariant\<close>

text \<open>
  The sequence numbers of the log are consecutive up to the head, starting after \<open>base\<close> (the
  sequence number of the first snapshot the relay was given, or 0), and the deduplication
  table knows exactly the updates of the log.
\<close>

definition seqs_from :: "int \<Rightarrow> nat \<Rightarrow> int list" where
  "seqs_from base n = map (\<lambda>i. base + int i + 1) [0..<n]"

definition log_ok :: "int \<Rightarrow> doc_sync_state \<Rightarrow> bool" where
  "log_ok base st \<longleftrightarrow>
     0 \<le> base \<and> head_server_seq st \<le> i64_max \<and>
     map server_seq (updates st) = seqs_from base (length (updates st)) \<and>
     head_server_seq st = base + int (length (updates st)) \<and>
     (\<forall>k s. dedupe st k = Some s \<longleftrightarrow>
        (\<exists>u \<in> set (updates st). (du_client u, du_cuid u) = k \<and> server_seq u = s)) \<and>
     (case dss_snapshot st of None \<Rightarrow> base = 0 | Some snap \<Rightarrow> base \<le> snap_seq snap \<and> snap_seq snap \<le> head_server_seq st)"

lemma length_seqs_from [simp]: "length (seqs_from b n) = n"
  by (simp add: seqs_from_def)

lemma seqs_from_Suc: "seqs_from b (Suc n) = seqs_from b n @ [b + int n + 1]"
  by (simp add: seqs_from_def)

lemma sorted_seqs_from: "sorted (seqs_from b n)"
  by (simp add: seqs_from_def sorted_iff_nth_mono)

lemma in_seqs_from: "s \<in> set (seqs_from b n) \<longleftrightarrow> b < s \<and> s \<le> b + int n"
proof
  assume "b < s \<and> s \<le> b + int n"
  then have "s = b + int (nat (s - b - 1)) + 1" "nat (s - b - 1) < n" by auto
  then show "s \<in> set (seqs_from b n)" by (auto simp: seqs_from_def image_iff intro!: bexI)
qed (auto simp: seqs_from_def)

lemma distinct_seqs_from: "distinct (seqs_from b n)"
  by (auto simp: seqs_from_def distinct_map inj_on_def)

lemma drop_seqs_from: "drop k (seqs_from b n) = seqs_from (b + int k) (n - k)"
  by (rule nth_equalityI) (auto simp: seqs_from_def)

lemma empty_log_ok [simp]: "log_ok 0 empty_doc_sync"
  by (simp add: log_ok_def empty_doc_sync_def seqs_from_def i64_max_def)

lemma filter_seqs_drop:
  assumes "map server_seq us = seqs_from b (length us)" "b \<le> c" "c \<le> b + int (length us)"
  shows "filter (\<lambda>u. server_seq u > c) us = drop (nat (c - b)) us"
proof -
  let ?k = "nat (c - b)"
  have seq: "server_seq (us ! i) = b + int i + 1" if "i < length us" for i
    using arg_cong [OF assms(1), of "\<lambda>xs. xs ! i"] that by (simp add: seqs_from_def)
  have "filter (\<lambda>u. server_seq u > c) (take ?k us) = []"
    using assms(2) seq by (auto simp: filter_empty_conv in_set_conv_nth)
  moreover have "filter (\<lambda>u. server_seq u > c) (drop ?k us) = drop ?k us"
    using assms(2) seq by (auto simp: filter_id_conv in_set_conv_nth)
  ultimately show ?thesis by (metis append_Nil append_take_drop_id filter_append)
qed

lemma sort_key_snoc_id:
  "sorted (map f xs) \<Longrightarrow> \<forall>y \<in> set xs. f y \<le> f x \<Longrightarrow> sort_key f (xs @ [x]) = xs @ [x]"
  by (rule sort_key_id_if_sorted) (auto simp: sorted_append)

section \<open>Applying updates\<close>

lemma apply_fresh:
  assumes "log_ok b st" "doc_entry (ws, d) store = st" "dedupe st (client, upd) = None"
    "base \<le> head_server_seq st" "head_server_seq st < i64_max"
  shows "\<exists>u st'. apply_client_update ws d client upd base payload attr store =
       (Applied (head_server_seq st + 1) (head_server_seq st), store((ws, d) \<mapsto> st')) \<and>
     updates st' = updates st @ [u] \<and> server_seq u = head_server_seq st + 1 \<and>
     du_client u = client \<and> du_cuid u = upd \<and> du_payload_b64 u = payload \<and>
     du_actor_user u = user_id attr \<and> du_actor_agent u = agent_id attr \<and>
     dss_snapshot st' = dss_snapshot st \<and> log_ok b st'"
proof -
  let ?h = "head_server_seq st"
  let ?u = "\<lparr>server_seq = ?h + 1, du_client = client, du_cuid = upd, du_payload_b64 = payload,
             du_actor_user = user_id attr, du_actor_agent = agent_id attr\<rparr>"
  have h: "0 \<le> ?h" "sat_i64 (?h + 1) = ?h + 1" "sat_i64 ?h = ?h"
    using assms(1,5) by (auto simp: log_ok_def sat_i64_def i64_min_def)
  have seqs: "map server_seq (updates st) = seqs_from b (length (updates st))" "?h = b + int (length (updates st))"
    using assms(1) by (auto simp: log_ok_def)
  have le: "\<forall>v \<in> set (updates st). server_seq v \<le> ?h"
    using in_seqs_from [of _ b "length (updates st)"] seqs by (metis (mono_tags) image_eqI list.set_map)
  have sorted: "sort_key server_seq (updates st @ [?u]) = updates st @ [?u]"
    using le sorted_seqs_from seqs(1) by (intro sort_key_snoc_id) fastforce+
  let ?st = "st\<lparr>updates := updates st @ [?u], dedupe := (dedupe st)((client, upd) \<mapsto> ?h + 1), head_server_seq := ?h + 1\<rparr>"
  have fresh: "\<forall>v \<in> set (updates st). (du_client v, du_cuid v) \<noteq> (client, upd)"
    using assms(1,3) unfolding log_ok_def by (metis option.distinct(1))
  have "log_ok b ?st"
    using assms(1,5) seqs fresh by (auto simp: log_ok_def seqs_from_Suc split: option.splits)
  moreover have "apply_client_update ws d client upd base payload attr store =
      (Applied (?h + 1) ?h, store((ws, d) \<mapsto> ?st))"
    using assms(2-4) h sorted by (simp add: apply_client_update_def Let_def)
  ultimately show ?thesis by (intro exI [of _ ?u] exI [of _ ?st]) auto
qed

lemma apply_known:
  assumes "store (ws, d) = Some st" "dedupe st (client, upd) = Some s"
  shows "apply_client_update ws d client upd base payload attr store = (Duplicate s, store)"
  using assms by (simp add: apply_client_update_def doc_entry_def Let_def fun_upd_idem)

lemma apply_ahead:
  assumes "doc_entry (ws, d) store = st" "dedupe st (client, upd) = None" "head_server_seq st < base"
  shows "apply_client_update ws d client upd base payload attr store =
    (RejectedBaseSeq (head_server_seq st), store((ws, d) \<mapsto> st))"
  using assms by (simp add: apply_client_update_def Let_def)

section \<open>Runs\<close>

datatype sync_op =
    ClientUpdate uuid uuid uuid uuid int string attribution
  | InstallSnapshot uuid uuid int string

fun sync_step :: "doc_store \<Rightarrow> sync_op \<Rightarrow> doc_store" where
  "sync_step store (ClientUpdate ws d client upd base payload attr) =
     snd (apply_client_update ws d client upd base payload attr store)"
| "sync_step store (InstallSnapshot ws d seq payload) = set_snapshot ws d seq payload store"

text \<open>Sequence numbers stay below the end of \<open>i64\<close>; a snapshot is of a state the log has reached.\<close>

fun sync_op_ok :: "doc_store \<Rightarrow> sync_op \<Rightarrow> bool" where
  "sync_op_ok store (ClientUpdate ws d client upd base payload attr) \<longleftrightarrow>
     head_server_seq (doc_entry (ws, d) store) < i64_max"
| "sync_op_ok store (InstallSnapshot ws d seq payload) \<longleftrightarrow>
     0 \<le> seq \<and> seq \<le> head_server_seq (doc_entry (ws, d) store)"

definition store_ok :: "doc_store \<Rightarrow> bool" where
  "store_ok store \<longleftrightarrow> (\<forall>key st. store key = Some st \<longrightarrow> log_ok 0 st)"

lemma store_ok_entry: "store_ok store \<Longrightarrow> log_ok 0 (doc_entry key store)"
  by (cases key; cases "store key") (auto simp: store_ok_def doc_entry_def)

lemma store_ok_upd: "store_ok store \<Longrightarrow> log_ok 0 st \<Longrightarrow> store_ok (store(key \<mapsto> st))"
  by (auto simp: store_ok_def)

lemma store_ok_step: "store_ok store \<Longrightarrow> sync_op_ok store op \<Longrightarrow> store_ok (sync_step store op)"
proof (cases op)
  case (ClientUpdate ws d client upd base payload attr)
  assume s: "store_ok store" "sync_op_ok store op"
  let ?st = "doc_entry (ws, d) store"
  have ok: "log_ok 0 ?st" by (rule store_ok_entry [OF s(1)])
  consider (dup) x where "dedupe ?st (client, upd) = Some x"
    | (ahead) "dedupe ?st (client, upd) = None" "head_server_seq ?st < base"
    | (fresh) "dedupe ?st (client, upd) = None" "base \<le> head_server_seq ?st"
    by (meson not_None_eq not_le)
  then show ?thesis
  proof cases
    case dup
    then show ?thesis using ClientUpdate s(1) ok
      by (simp add: apply_client_update_def Let_def store_ok_upd)
  next
    case ahead
    then show ?thesis using ClientUpdate s(1) ok by (simp add: apply_ahead store_ok_upd)
  next
    case fresh
    then show ?thesis using ClientUpdate s apply_fresh [OF ok refl fresh, of payload attr]
      by (auto simp: store_ok_upd)
  qed
next
  case (InstallSnapshot ws d seq payload)
  assume s: "store_ok store" "sync_op_ok store op"
  have "log_ok 0 ((doc_entry (ws, d) store)\<lparr>dss_snapshot := Some \<lparr>snap_seq = seq, snap_payload = payload\<rparr>,
      head_server_seq := max (head_server_seq (doc_entry (ws, d) store)) seq\<rparr>)"
    using store_ok_entry [OF s(1), of "(ws, d)"] s(2) InstallSnapshot by (simp add: log_ok_def max_absorb1)
  then show ?thesis using s(1) InstallSnapshot by (simp add: set_snapshot_def Let_def store_ok_upd)
qed

interpretation sync: init_system sync_step sync_op_ok store_ok Map.empty
proof unfold_locales
  show "store_ok Map.empty" by (simp add: store_ok_def)
qed (rule store_ok_step)

section \<open>The abstract log\<close>

text \<open>
  What the store promises of a document: a list of updates without repetition of a client's
  update id, each of which has its position, counted from 1, as its sequence number.
\<close>

type_synonym log_entry = "(uuid \<times> uuid) \<times> string"

definition abs_log :: "doc_sync_state \<Rightarrow> log_entry list" where
  "abs_log st = map (\<lambda>u. ((du_client u, du_cuid u), du_payload_b64 u)) (updates st)"

fun position :: "'k \<Rightarrow> ('k \<times> 'v) list \<Rightarrow> nat option" where
  "position k [] = None"
| "position k (e # es) = (if fst e = k then Some 1 else map_option Suc (position k es))"

definition log_submit :: "uuid \<times> uuid \<Rightarrow> int \<Rightarrow> string \<Rightarrow> log_entry list \<Rightarrow> apply_result \<times> log_entry list" where
  "log_submit k base payload es =
     (case position k es of
        Some n \<Rightarrow> (Duplicate (int n), es)
      | None \<Rightarrow>
          if base > int (length es) then (RejectedBaseSeq (int (length es)), es)
          else (Applied (int (length es) + 1) (int (length es)), es @ [(k, payload)]))"

lemma position_Some: "position k es = Some n \<Longrightarrow> 0 < n \<and> n \<le> length es \<and> fst (es ! (n - 1)) = k"
proof (induction es arbitrary: n)
  case (Cons e es)
  then show ?case by (auto split: if_splits simp: nth_Cons')
qed simp

lemma position_None: "position k es = None \<longleftrightarrow> k \<notin> fst ` set es"
  by (induction es) auto

lemma dedupe_position:
  assumes "log_ok 0 st"
  shows "dedupe st k = map_option int (position k (abs_log st))"
proof (cases "position k (abs_log st)")
  case None
  then have "\<forall>u \<in> set (updates st). (du_client u, du_cuid u) \<noteq> k"
    by (auto simp: position_None abs_log_def image_iff)
  then have "dedupe st k \<noteq> Some s" for s using assms unfolding log_ok_def by blast
  then show ?thesis using None by (cases "dedupe st k") auto
next
  case (Some n)
  then have n: "0 < n" "n \<le> length (updates st)" "fst (abs_log st ! (n - 1)) = k"
    using position_Some [OF Some] by (auto simp: abs_log_def)
  let ?u = "updates st ! (n - 1)"
  have "map server_seq (updates st) ! (n - 1) = seqs_from 0 (length (updates st)) ! (n - 1)"
    using assms by (simp add: log_ok_def)
  then have "server_seq ?u = int n" using n(1,2) by (simp add: seqs_from_def)
  moreover have "?u \<in> set (updates st)" "(du_client ?u, du_cuid ?u) = k"
    using n by (auto simp: abs_log_def)
  ultimately show ?thesis using assms Some unfolding log_ok_def by auto
qed

section \<open>Properties\<close>

text \<open>
  (C11) The relay's store implements the abstract log. In every state reached from an empty
  store, a client update acts on the log of its document as \<open>log_submit\<close> does: a retry is
  answered with the position of the original and changes nothing, an update based on a sequence
  number the relay has not issued is rejected with the current length, and any other update is
  appended under the next position; the logs of other documents do not change.
\<close>

theorem store_implements_log:
  assumes "run_ok sync_step sync_op_ok Map.empty ops" and "store = foldl sync_step Map.empty ops"
    and "head_server_seq (doc_entry (ws, d) store) < i64_max"
  shows "case apply_client_update ws d client upd base payload attr store of (r, store') \<Rightarrow>
    (r, abs_log (doc_entry (ws, d) store')) =
      log_submit (client, upd) base payload (abs_log (doc_entry (ws, d) store)) \<and>
    (\<forall>key. key \<noteq> (ws, d) \<longrightarrow> store' key = store key)"
proof -
  let ?st = "doc_entry (ws, d) store"
  have ok: "log_ok 0 ?st" using sync.inv_reachable [OF assms(1)] assms(2) by (auto intro: store_ok_entry)
  have head: "head_server_seq ?st = int (length (abs_log ?st))" using ok by (simp add: log_ok_def abs_log_def)
  show ?thesis
  proof (cases "position (client, upd) (abs_log ?st)")
    case (Some n)
    then have "dedupe ?st (client, upd) = Some (int n)" using dedupe_position [OF ok] by simp
    then show ?thesis using Some
      by (auto simp: apply_client_update_def Let_def log_submit_def doc_entry_def)
  next
    case None
    then have dd: "dedupe ?st (client, upd) = None" using dedupe_position [OF ok] by simp
    show ?thesis
    proof (cases "base \<le> head_server_seq ?st")
      case True
      then show ?thesis using apply_fresh [OF ok refl dd True assms(3), of payload attr] None head
        by (auto simp: log_submit_def doc_entry_def abs_log_def)
    next
      case False
      then show ?thesis using apply_ahead [OF refl dd] None head
        by (auto simp: log_submit_def doc_entry_def)
    qed
  qed
qed

definition no_actor :: attribution where
  "no_actor = \<lparr>user_id = None, agent_id = None\<rparr>"

theorem store_implements_log_witness:
  "case apply_client_update 1 2 7 8 0 ''x'' no_actor (foldl sync_step Map.empty [ClientUpdate 1 2 7 8 0 ''x'' no_actor])
     of (r, store') \<Rightarrow>
    (r, abs_log (doc_entry (1, 2) store')) =
      log_submit (7, 8) 0 ''x''
        (abs_log (doc_entry (1, 2) (foldl sync_step Map.empty [ClientUpdate 1 2 7 8 0 ''x'' no_actor]))) \<and>
    (\<forall>key. key \<noteq> (1, 2) \<longrightarrow>
       store' key = foldl sync_step Map.empty [ClientUpdate 1 2 7 8 0 ''x'' no_actor] key)"
  by (rule store_implements_log [OF _ refl])
    (simp_all add: doc_entry_def empty_doc_sync_def i64_max_def i64_min_def apply_client_update_def sat_i64_def)

text \<open>
  A subscriber is brought up to date without a gap and without a repetition. In every
  state reached from an empty store, a client that knows the document up to sequence number \<open>k\<close>
  receives the snapshot if that is newer than \<open>k\<close>, followed by exactly the updates after the
  state it then has, in order, each based on the sequence number before it.
\<close>

theorem catch_up_complete:
  assumes "run_ok sync_step sync_op_ok Map.empty ops" and "foldl sync_step Map.empty ops (ws, d) = Some st"
    and "0 \<le> k" and "k \<le> head_server_seq st"
  shows "\<exists>c. (case dss_snapshot st of
           Some snap \<Rightarrow> c = max k (snap_seq snap) | None \<Rightarrow> c = k) \<and>
    build_state_sync_messages ws d (Some k) (foldl sync_step Map.empty ops) =
      (case dss_snapshot st of
         Some snap \<Rightarrow> if k < snap_seq snap then [SnapshotMsg d (snap_seq snap) (snap_payload snap)] else []
       | None \<Rightarrow> []) @
      map (update_message d) (drop (nat c) (updates st)) \<and>
    map yu_base (map (update_message d) (drop (nat c) (updates st))) =
      map (\<lambda>i. c + int i) [0..<nat (head_server_seq st - c)]"
proof -
  have ok: "log_ok 0 st" using sync.inv_reachable [OF assms(1)] assms(2) by (auto simp: store_ok_def)
  let ?c = "case dss_snapshot st of Some snap \<Rightarrow> max k (snap_seq snap) | None \<Rightarrow> k"
  have c: "0 \<le> ?c" "?c \<le> head_server_seq st"
    using ok assms(3,4) by (auto simp: log_ok_def split: option.split)
  have len: "head_server_seq st = int (length (updates st))"
    and seqs: "map server_seq (updates st) = seqs_from 0 (length (updates st))"
    and bnd: "head_server_seq st \<le> i64_max"
    using ok by (auto simp: log_ok_def)
  have f: "filter (\<lambda>u. server_seq u > ?c) (updates st) = drop (nat ?c) (updates st)"
    using filter_seqs_drop [OF seqs, of ?c] c len by simp
  have "map server_seq (drop (nat ?c) (updates st)) = seqs_from ?c (nat (head_server_seq st - ?c))"
    using seqs c len by (simp add: drop_map [symmetric] drop_seqs_from nat_diff_distrib)
  then have "map (\<lambda>u. sat_i64 (server_seq u - 1)) (drop (nat ?c) (updates st)) =
      map (\<lambda>s. sat_i64 (s - 1)) (seqs_from ?c (nat (head_server_seq st - ?c)))"
    by (metis (no_types, lifting) list.map_comp comp_apply map_eq_conv)
  also have "\<dots> = map (\<lambda>i. ?c + int i) [0..<nat (head_server_seq st - ?c)]"
    using c bnd by (auto simp: seqs_from_def sat_i64_def i64_min_def)
  finally have bases: "map yu_base (map (update_message d) (drop (nat ?c) (updates st))) =
      map (\<lambda>i. ?c + int i) [0..<nat (head_server_seq st - ?c)]"
    by (simp add: update_message_def comp_def)
  show ?thesis using f bases assms(2)
    by (intro exI [of _ ?c])
      (auto simp: build_state_sync_messages_def max_def split: option.split)
qed

theorem catch_up_complete_witness:
  "\<exists>st c. foldl sync_step Map.empty
       [ClientUpdate 1 2 7 8 0 ''x'' no_actor, ClientUpdate 1 2 7 9 1 ''y'' no_actor, InstallSnapshot 1 2 1 ''s''] (1, 2) = Some st \<and>
     c = 1 \<and>
     build_state_sync_messages 1 2 (Some 0) (foldl sync_step Map.empty
       [ClientUpdate 1 2 7 8 0 ''x'' no_actor, ClientUpdate 1 2 7 9 1 ''y'' no_actor, InstallSnapshot 1 2 1 ''s'']) =
     SnapshotMsg 2 1 ''s'' # map (update_message 2) (drop 1 (updates st))"
proof -
  let ?ops = "[ClientUpdate 1 2 7 8 0 ''x'' no_actor, ClientUpdate 1 2 7 9 1 ''y'' no_actor, InstallSnapshot 1 2 1 ''s'']"
  have ok: "run_ok sync_step sync_op_ok Map.empty ?ops"
    by (simp add: doc_entry_def empty_doc_sync_def i64_max_def i64_min_def apply_client_update_def sat_i64_def)
  obtain st where st: "foldl sync_step Map.empty ?ops (1, 2) = Some st"
    "dss_snapshot st = Some \<lparr>snap_seq = 1, snap_payload = ''s''\<rparr>" "head_server_seq st = 2"
    by (simp add: set_snapshot_def doc_entry_def empty_doc_sync_def i64_max_def i64_min_def apply_client_update_def
        sat_i64_def Let_def)
  show ?thesis using catch_up_complete [OF ok st(1), of 0] st by auto
qed

end
