(* ===== verification/Roles.thy ===== *)
theory Roles
  imports RustText
begin

text \<open>\<open>WorkspaceRole\<close> of \<open>relay/src/auth/middleware.rs\<close>, which the sync sessions and the API share.\<close>

datatype workspace_role = Viewer | Editor | Owner

fun role_rank :: "workspace_role \<Rightarrow> nat" where
  "role_rank Viewer = 0"
| "role_rank Editor = 1"
| "role_rank Owner = 2"

lemma role_rank_inj: "role_rank r = role_rank q \<Longrightarrow> r = q"
  by (cases r; cases q) simp_all

instantiation workspace_role :: linorder
begin

definition less_eq_workspace_role :: "workspace_role \<Rightarrow> workspace_role \<Rightarrow> bool" where
  "less_eq_workspace_role r q \<longleftrightarrow> role_rank r \<le> role_rank q"

definition less_workspace_role :: "workspace_role \<Rightarrow> workspace_role \<Rightarrow> bool" where
  "less_workspace_role r q \<longleftrightarrow> role_rank r < role_rank q"

instance
  by standard (auto simp: less_eq_workspace_role_def less_workspace_role_def intro: role_rank_inj)

end

definition role_from_db_value :: "rstr \<Rightarrow> workspace_role option" where
  "role_from_db_value s =
     (if s = lit ''viewer'' then Some Viewer else if s = lit ''editor'' then Some Editor
      else if s = lit ''owner'' then Some Owner else None)"

definition allows :: "workspace_role \<Rightarrow> workspace_role \<Rightarrow> bool" where
  "allows r required \<longleftrightarrow> r \<ge> required"

lemma allows_Viewer [simp]: "allows r Viewer"
  by (simp add: allows_def less_eq_workspace_role_def)

lemma allows_trans: "allows r q \<Longrightarrow> allows q p \<Longrightarrow> allows r p"
  by (simp add: allows_def)

end
