(* ===== verification/WsSession.thy ===== *)
theory WsSession
  imports DocSync RustText Roles "HOL-Library.AList"
begin

text \<open>
  \<open>relay/src/ws/session.rs\<close> (sessions), \<open>relay/src/ws/handler.rs\<close> (message handlers and the
  socket loop), \<open>relay/src/awareness/mod.rs\<close> and \<open>relay/src/protocol.rs\<close>. An asynchronous handler
  runs to completion on the relay's state, because each takes its locks one store at a time; the
  interleaving of sockets is an interleaving of these steps. Clock readings, fresh identifiers,
  the membership query and the JSON codec are arguments.
\<close>

section \<open>Protocol versions\<close>

definition CURRENT_VERSION :: string where
  "CURRENT_VERSION = ''scriptum-sync.v1''"

definition SUPPORTED_VERSIONS :: "string list" where
  "SUPPORTED_VERSIONS = [CURRENT_VERSION, ''scriptum-sync.v0'']"

definition is_supported :: "string \<Rightarrow> bool" where
  "is_supported v \<longleftrightarrow> v \<in> set SUPPORTED_VERSIONS"

datatype error_code = UpgradeRequired | AuthForbidden | InternalError | NotFound

definition require_supported :: "string \<Rightarrow> (error_code, unit) result" where
  "require_supported v = (if is_supported v then Okay () else Err UpgradeRequired)"

section \<open>State\<close>

definition HEARTBEAT_INTERVAL_MS :: int where "HEARTBEAT_INTERVAL_MS = 15000"
definition HEARTBEAT_TIMEOUT_MS :: int where "HEARTBEAT_TIMEOUT_MS = 10000"
definition MAX_FRAME_BYTES :: nat where "MAX_FRAME_BYTES = 262144"
definition SESSION_TOKEN_TTL_MINUTES :: int where "SESSION_TOKEN_TTL_MINUTES = 15"
definition RESUME_TOKEN_TTL_MINUTES :: int where "RESUME_TOKEN_TTL_MINUTES = 10"

definition minutes :: "int \<Rightarrow> int" where
  "minutes n = n * 60 * 1000000000"

definition millis :: "int \<Rightarrow> int" where
  "millis n = n * 1000000"

text \<open>An outbound sender is the number of the channel whose other end a socket holds.\<close>

record session_record =
  sr_workspace :: uuid
  sr_client :: uuid
  sr_device :: uuid
  sr_session_token :: string
  sr_resume_token :: string
  sr_expires_at :: timestamp
  sr_resume_expires_at :: timestamp
  sr_active_connections :: nat
  sr_subscriptions :: "uuid list"
  sr_outbound :: "nat option"
  sr_actor_user :: "uuid option"
  sr_actor_agent :: "string option"

type_synonym session_store = "(uuid \<times> session_record) list"
type_synonym awareness_store = "((uuid \<times> uuid) \<times> (uuid \<times> json list) list) list"

text \<open>A channel is the messages it holds, or \<open>None\<close> once its receiver is gone.\<close>

type_synonym channels = "nat \<Rightarrow> ws_message list option"

record relay =
  sessions :: session_store
  doc_store :: doc_store
  awareness :: awareness_store
  channels :: channels

section \<open>Sessions (session.rs)\<close>

definition create_session_with_actor ::
  "uuid \<Rightarrow> uuid \<Rightarrow> uuid \<Rightarrow> uuid \<Rightarrow> string \<Rightarrow> string \<Rightarrow> timestamp \<Rightarrow> timestamp \<Rightarrow> uuid option \<Rightarrow> string option \<Rightarrow>
   session_store \<Rightarrow> session_store" where
  "create_session_with_actor sid ws client device token resume expires resume_expires user agent ss =
     AList.update sid
       \<lparr>sr_workspace = ws, sr_client = client, sr_device = device, sr_session_token = token,
        sr_resume_token = resume, sr_expires_at = expires, sr_resume_expires_at = resume_expires,
        sr_active_connections = 0, sr_subscriptions = [], sr_outbound = None,
        sr_actor_user = user, sr_actor_agent = agent\<rparr> ss"

definition create_session ::
  "uuid \<Rightarrow> uuid \<Rightarrow> uuid \<Rightarrow> uuid \<Rightarrow> string \<Rightarrow> string \<Rightarrow> timestamp \<Rightarrow> timestamp \<Rightarrow> session_store \<Rightarrow> session_store" where
  "create_session sid ws client device token resume expires resume_expires ss =
     create_session_with_actor sid ws client device token resume expires resume_expires None None ss"

definition session_exists :: "uuid \<Rightarrow> session_store \<Rightarrow> bool" where
  "session_exists sid ss \<longleftrightarrow> map_of ss sid \<noteq> None"

datatype token_validation =
    TokenValid bool string timestamp
  | TokenInvalid
  | TokenExpired

text \<open>\<open>now\<close> and \<open>now'\<close> are the two readings of the clock, \<open>fresh\<close> the new resume token.\<close>

definition validate_session_token ::
  "uuid \<Rightarrow> string \<Rightarrow> string option \<Rightarrow> timestamp \<Rightarrow> timestamp \<Rightarrow> string \<Rightarrow> session_store \<Rightarrow>
   token_validation \<times> session_store" where
  "validate_session_token sid token resume now now' fresh ss =
     (case map_of ss sid of
        None \<Rightarrow> (TokenInvalid, ss)
      | Some s \<Rightarrow>
          if sr_session_token s \<noteq> token then (TokenInvalid, ss)
          else if now > sr_expires_at s then (TokenExpired, ss)
          else
            let accepted = (case resume of
                              Some t \<Rightarrow> if t = sr_resume_token s then now' \<le> sr_resume_expires_at s else False
                            | None \<Rightarrow> False);
                next_expires = now' + minutes RESUME_TOKEN_TTL_MINUTES
            in (TokenValid accepted fresh next_expires,
                AList.update sid (s\<lparr>sr_resume_token := fresh, sr_resume_expires_at := next_expires\<rparr>) ss))"

definition on_session :: "uuid \<Rightarrow> (session_record \<Rightarrow> session_record) \<Rightarrow> session_store \<Rightarrow> bool \<times> session_store" where
  "on_session sid f ss =
     (case map_of ss sid of
        Some s \<Rightarrow> (True, AList.update sid (f s) ss)
      | None \<Rightarrow> (False, ss))"

definition mark_connected :: "uuid \<Rightarrow> session_store \<Rightarrow> bool \<times> session_store" where
  "mark_connected sid ss = on_session sid (sr_active_connections_update Suc) ss"

definition mark_disconnected :: "uuid \<Rightarrow> session_store \<Rightarrow> session_store" where
  "mark_disconnected sid ss =
     snd (on_session sid
       (\<lambda>s. let s' = s\<lparr>sr_active_connections := sr_active_connections s - 1\<rparr>
            in if sr_active_connections s' = 0 then s'\<lparr>sr_subscriptions := [], sr_outbound := None\<rparr> else s') ss)"

definition register_outbound :: "uuid \<Rightarrow> nat \<Rightarrow> session_store \<Rightarrow> bool \<times> session_store" where
  "register_outbound sid ch ss = on_session sid (sr_outbound_update (\<lambda>_. Some ch)) ss"

definition track_subscription :: "uuid \<Rightarrow> uuid \<Rightarrow> session_store \<Rightarrow> bool \<times> session_store" where
  "track_subscription sid d ss =
     on_session sid (\<lambda>s. s\<lparr>sr_subscriptions := List.insert d (sr_subscriptions s)\<rparr>) ss"

definition session_is_subscribed :: "uuid \<Rightarrow> uuid \<Rightarrow> session_store \<Rightarrow> bool" where
  "session_is_subscribed sid d ss =
     (case map_of ss sid of Some s \<Rightarrow> d \<in> set (sr_subscriptions s) | None \<Rightarrow> False)"

definition attribution_for_session :: "uuid \<Rightarrow> session_store \<Rightarrow> attribution option" where
  "attribution_for_session sid ss =
     map_option (\<lambda>s. \<lparr>user_id = sr_actor_user s, agent_id = sr_actor_agent s\<rparr>) (map_of ss sid)"

definition workspace_for_session :: "uuid \<Rightarrow> session_store \<Rightarrow> uuid option" where
  "workspace_for_session sid ss = map_option sr_workspace (map_of ss sid)"

definition actor_user_for_session :: "uuid \<Rightarrow> session_store \<Rightarrow> uuid option" where
  "actor_user_for_session sid ss = (case map_of ss sid of Some s \<Rightarrow> sr_actor_user s | None \<Rightarrow> None)"

definition subscriptions_for_session :: "uuid \<Rightarrow> session_store \<Rightarrow> uuid list option" where
  "subscriptions_for_session sid ss = map_option (\<lambda>s. sort (sr_subscriptions s)) (map_of ss sid)"

text \<open>Sending on a channel: fails when its receiver is gone.\<close>

definition channel_send :: "ws_message \<Rightarrow> channels \<Rightarrow> nat \<Rightarrow> bool \<times> channels" where
  "channel_send m chs ch = (case chs ch of Some ms \<Rightarrow> (True, chs(ch \<mapsto> ms @ [m])) | None \<Rightarrow> (False, chs))"

fun send_all :: "ws_message \<Rightarrow> nat list \<Rightarrow> channels \<Rightarrow> nat \<times> channels" where
  "send_all m [] chs = (0, chs)"
| "send_all m (ch # rest) chs =
     (let (ok, chs1) = channel_send m chs ch; (n, chs2) = send_all m rest chs1
      in (if ok then n + 1 else n, chs2))"

definition recipients :: "uuid \<Rightarrow> uuid \<Rightarrow> (uuid \<Rightarrow> bool) \<Rightarrow> session_store \<Rightarrow> nat list" where
  "recipients ws d skip ss =
     List.map_filter
       (\<lambda>(sid, s). if \<not> skip sid \<and> sr_workspace s = ws \<and> d \<in> set (sr_subscriptions s) then sr_outbound s else None) ss"

definition broadcast_to_subscribers :: "uuid \<Rightarrow> uuid \<Rightarrow> ws_message \<Rightarrow> relay \<Rightarrow> nat \<times> relay" where
  "broadcast_to_subscribers ws d m r =
     (let (n, chs) = send_all m (recipients ws d (\<lambda>_. False) (sessions r)) (channels r) in (n, r\<lparr>channels := chs\<rparr>))"

definition broadcast_to_subscribers_excluding :: "uuid \<Rightarrow> uuid \<Rightarrow> ws_message \<Rightarrow> uuid \<Rightarrow> relay \<Rightarrow> nat \<times> relay" where
  "broadcast_to_subscribers_excluding ws d m exclude r =
     (let (n, chs) = send_all m (recipients ws d (\<lambda>sid. sid = exclude) (sessions r)) (channels r)
      in (n, r\<lparr>channels := chs\<rparr>))"

section \<open>Awareness (awareness/mod.rs)\<close>

definition aw_entry :: "uuid \<times> uuid \<Rightarrow> awareness_store \<Rightarrow> (uuid \<times> json list) list" where
  "aw_entry key aw = (case map_of aw key of Some m \<Rightarrow> m | None \<Rightarrow> [])"

definition aw_update :: "uuid \<Rightarrow> uuid \<Rightarrow> uuid \<Rightarrow> json list \<Rightarrow> awareness_store \<Rightarrow> awareness_store" where
  "aw_update ws d sid peers aw =
     AList.update (ws, d)
       (if peers = [] then AList.delete sid (aw_entry (ws, d) aw)
        else AList.update sid peers (aw_entry (ws, d) aw)) aw"

fun aw_remove_session :: "uuid \<Rightarrow> uuid list \<Rightarrow> uuid \<Rightarrow> awareness_store \<Rightarrow> awareness_store" where
  "aw_remove_session ws [] sid aw = aw"
| "aw_remove_session ws (d # ds) sid aw =
     aw_remove_session ws ds sid
       (case map_of aw (ws, d) of
          None \<Rightarrow> aw
        | Some m \<Rightarrow>
            let m' = AList.delete sid m
            in if m' = [] then AList.delete (ws, d) aw else AList.update (ws, d) m' aw)"

definition aw_aggregate :: "uuid \<Rightarrow> uuid \<Rightarrow> awareness_store \<Rightarrow> json list" where
  "aw_aggregate ws d aw = (case map_of aw (ws, d) of Some m \<Rightarrow> concat (map snd m) | None \<Rightarrow> [])"

definition aw_aggregate_excluding :: "uuid \<Rightarrow> uuid \<Rightarrow> uuid \<Rightarrow> awareness_store \<Rightarrow> json list" where
  "aw_aggregate_excluding ws d exclude aw =
     (case map_of aw (ws, d) of
        Some m \<Rightarrow> concat (map snd (filter (\<lambda>(sid, _). sid \<noteq> exclude) m))
      | None \<Rightarrow> [])"

definition aw_peers_for_doc :: "(json \<Rightarrow> 'p option) \<Rightarrow> uuid \<Rightarrow> uuid \<Rightarrow> awareness_store \<Rightarrow> 'p list" where
  "aw_peers_for_doc from_json ws d aw = List.map_filter from_json (aw_aggregate ws d aw)"

definition aw_who_is_where :: "(json \<Rightarrow> 'p option) \<Rightarrow> uuid \<Rightarrow> awareness_store \<Rightarrow> (uuid \<times> 'p list) list" where
  "aw_who_is_where from_json ws aw =
     List.map_filter
       (\<lambda>((w, d), m). if w \<noteq> ws then None
          else let peers = List.map_filter from_json (concat (map snd m))
               in if peers = [] then None else Some (d, peers)) aw"

definition aw_active_session_count :: "uuid \<Rightarrow> awareness_store \<Rightarrow> nat" where
  "aw_active_session_count ws aw =
     card (set (concat (map (\<lambda>((w, d), m). if w = ws then map fst m else []) aw)))"

definition aw_active_docs :: "uuid \<Rightarrow> awareness_store \<Rightarrow> uuid list" where
  "aw_active_docs ws aw = map (\<lambda>(k, _). snd k) (filter (\<lambda>(k, _). fst k = ws) aw)"

section \<open>Handlers (handler.rs)\<close>

text \<open>The membership query of the database: an error, or the role of an active member.\<close>

type_synonym membership = "uuid \<Rightarrow> uuid \<Rightarrow> (unit, workspace_role option) result"

record create_request =
  cr_protocol :: string
  cr_client :: uuid
  cr_device :: uuid
  cr_resume_token :: "string option"

record create_response =
  cs_session_id :: uuid
  cs_session_token :: string
  cs_ws_url :: string
  cs_heartbeat_interval_ms :: int
  cs_max_frame_bytes :: nat
  cs_resume_token :: string
  cs_resume_expires_at :: string

text \<open>\<open>fresh\<close> are the identifiers \<open>new_v4\<close> gives out, \<open>fmt\<close> and \<open>show_uuid\<close> the text of times and ids.\<close>

definition create_sync_session ::
  "membership \<Rightarrow> (timestamp \<Rightarrow> string) \<Rightarrow> (uuid \<Rightarrow> string) \<Rightarrow> string \<Rightarrow> uuid \<times> uuid \<times> uuid \<Rightarrow> timestamp \<Rightarrow> timestamp \<Rightarrow>
   uuid \<Rightarrow> uuid \<times> uuid \<Rightarrow> create_request \<Rightarrow> session_store \<Rightarrow>
   (error_code, create_response) result \<times> session_store" where
  "create_sync_session member fmt show_uuid base_url fresh now now' ws user req ss =
     (case require_supported (cr_protocol req) of
        Inl e \<Rightarrow> (Err e, ss)
      | Inr _ \<Rightarrow>
          if ws \<noteq> snd user then (Err AuthForbidden, ss)
          else case member ws (fst user) of
            Inl _ \<Rightarrow> (Err InternalError, ss)
          | Inr None \<Rightarrow> (Err AuthForbidden, ss)
          | Inr (Some role) \<Rightarrow>
              if \<not> allows role Viewer then (Err AuthForbidden, ss)
              else
                let sid = fst fresh;
                    token = show_uuid (fst (snd fresh));
                    resume = (case cr_resume_token req of
                                Some t \<Rightarrow> if t \<noteq> [] then t else show_uuid (snd (snd fresh))
                              | None \<Rightarrow> show_uuid (snd (snd fresh)));
                    resume_expires = now' + minutes RESUME_TOKEN_TTL_MINUTES
                in (Okay \<lparr>cs_session_id = sid, cs_session_token = token,
                          cs_ws_url = base_url @ ''/v1/ws/'' @ show_uuid sid,
                          cs_heartbeat_interval_ms = HEARTBEAT_INTERVAL_MS, cs_max_frame_bytes = MAX_FRAME_BYTES,
                          cs_resume_token = resume, cs_resume_expires_at = fmt resume_expires\<rparr>,
                    create_session_with_actor sid ws (cr_client req) (cr_device req) token resume
                      (now + minutes SESSION_TOKEN_TTL_MINUTES) resume_expires (Some (fst user)) None ss))"

definition session_invalid :: "uuid \<Rightarrow> ws_message" where
  "session_invalid d = ErrorMsg ''SYNC_SESSION_INVALID'' ''session is not available'' False (Some d)"

definition handle_hello_message ::
  "(timestamp \<Rightarrow> string) \<Rightarrow> uuid \<Rightarrow> string \<Rightarrow> string \<Rightarrow> string option \<Rightarrow> timestamp \<Rightarrow> timestamp \<Rightarrow> timestamp \<Rightarrow> string \<Rightarrow>
   session_store \<Rightarrow> (ws_message, ws_message) result \<times> session_store" where
  "handle_hello_message fmt sid version token resume now now' now'' fresh ss =
     (case require_supported version of
        Inl _ \<Rightarrow>
          (Err (ErrorMsg ''SYNC_PROTOCOL_UNSUPPORTED''
             (''unsupported protocol version `'' @ version @ ''`; supported versions: '' @
              join '', '' SUPPORTED_VERSIONS) False None), ss)
      | Inr _ \<Rightarrow>
          (case validate_session_token sid token resume now now' fresh ss of
             (TokenValid accepted resume_token expires, ss') \<Rightarrow>
               (Okay (HelloAck (fmt now'') accepted resume_token (fmt expires)), ss')
           | (TokenInvalid, ss') \<Rightarrow> (Err (ErrorMsg ''SYNC_TOKEN_INVALID'' ''invalid session token'' False None), ss')
           | (TokenExpired, ss') \<Rightarrow> (Err (ErrorMsg ''SYNC_TOKEN_EXPIRED'' ''session token expired'' False None), ss')))"

definition subscribe_denied :: "membership \<Rightarrow> uuid \<Rightarrow> uuid \<Rightarrow> uuid \<Rightarrow> session_store \<Rightarrow> ws_message option" where
  "subscribe_denied member ws sid d ss =
     (case actor_user_for_session sid ss of
        None \<Rightarrow> None
      | Some user \<Rightarrow>
          (case member ws user of
             Inl _ \<Rightarrow> Some (ErrorMsg ''INTERNAL_ERROR'' ''internal server error'' True (Some d))
           | Inr None \<Rightarrow> Some (ErrorMsg ''AUTH_FORBIDDEN'' ''caller lacks workspace access'' False (Some d))
           | Inr (Some role) \<Rightarrow>
               if \<not> allows role Viewer
               then Some (ErrorMsg ''AUTH_FORBIDDEN'' ''caller lacks required role'' False (Some d))
               else None))"

definition handle_subscribe_message ::
  "membership \<Rightarrow> uuid \<Rightarrow> uuid \<Rightarrow> int option \<Rightarrow> relay \<Rightarrow> (ws_message, ws_message list) result \<times> relay" where
  "handle_subscribe_message member sid d since r =
     (if (case since of Some s \<Rightarrow> s < 0 | None \<Rightarrow> False)
      then (Err (ErrorMsg ''SYNC_INVALID_LAST_SERVER_SEQ'' ''last_server_seq must be >= 0'' False (Some d)), r)
      else case workspace_for_session sid (sessions r) of
        None \<Rightarrow> (Err (session_invalid d), r)
      | Some ws \<Rightarrow>
          (case subscribe_denied member ws sid d (sessions r) of
             Some e \<Rightarrow> (Err e, r)
           | None \<Rightarrow>
               (case track_subscription sid d (sessions r) of
                  (False, _) \<Rightarrow> (Err (session_invalid d), r)
                | (True, ss) \<Rightarrow>
                    (Okay (build_state_sync_messages ws d since (doc_store r)), r\<lparr>sessions := ss\<rparr>))))"

record yjs_handling =
  yh_workspace :: uuid
  yh_ack :: ws_message
  yh_broadcast :: "ws_message option"

definition handle_yjs_update_message ::
  "(int \<Rightarrow> string) \<Rightarrow> uuid \<Rightarrow> uuid \<Rightarrow> uuid \<Rightarrow> uuid \<Rightarrow> int \<Rightarrow> string \<Rightarrow> relay \<Rightarrow> (ws_message, yjs_handling) result \<times> relay" where
  "handle_yjs_update_message show_seq sid d client upd base payload r =
     (if base < 0
      then (Err (ErrorMsg ''SYNC_INVALID_BASE_SERVER_SEQ'' ''base_server_seq must be >= 0'' False (Some d)), r)
      else case workspace_for_session sid (sessions r) of
        None \<Rightarrow> (Err (session_invalid d), r)
      | Some ws \<Rightarrow>
          if \<not> session_is_subscribed sid d (sessions r)
          then (Err (ErrorMsg ''SYNC_DOC_NOT_SUBSCRIBED'' ''subscribe before sending yjs_update'' False (Some d)), r)
          else case attribution_for_session sid (sessions r) of
            None \<Rightarrow> (Err (session_invalid d), r)
          | Some attr \<Rightarrow>
              (case apply_client_update ws d client upd base payload attr (doc_store r) of
                 (Applied seq bbase, docs) \<Rightarrow>
                   (Okay \<lparr>yh_workspace = ws, yh_ack = Ack d upd seq True,
                          yh_broadcast = Some (YjsUpdate d client upd bbase payload)\<rparr>, r\<lparr>doc_store := docs\<rparr>)
               | (Duplicate seq, docs) \<Rightarrow>
                   (Okay \<lparr>yh_workspace = ws, yh_ack = Ack d upd seq False, yh_broadcast = None\<rparr>, r\<lparr>doc_store := docs\<rparr>)
               | (RejectedBaseSeq seq, docs) \<Rightarrow>
                   (Err (ErrorMsg ''SYNC_BASE_SERVER_SEQ_MISMATCH''
                      (''base_server_seq exceeds head server sequence ('' @ show_seq seq @ '')'') True (Some d)),
                    r\<lparr>doc_store := docs\<rparr>)))"

definition handle_awareness_update ::
  "uuid \<Rightarrow> uuid \<Rightarrow> json list \<Rightarrow> relay \<Rightarrow> (ws_message, uuid \<times> ws_message) result \<times> relay" where
  "handle_awareness_update sid d peers r =
     (case workspace_for_session sid (sessions r) of
        None \<Rightarrow> (Err (session_invalid d), r)
      | Some ws \<Rightarrow>
          if \<not> session_is_subscribed sid d (sessions r)
          then (Err (ErrorMsg ''SYNC_DOC_NOT_SUBSCRIBED'' ''subscribe before sending awareness_update'' False (Some d)), r)
          else
            let r' = r\<lparr>awareness := aw_update ws d sid peers (awareness r)\<rparr>
            in (Okay (ws, AwarenessUpdate d (aw_aggregate ws d (awareness r'))), r'))"

section \<open>The socket (handler.rs, handle\_socket)\<close>

datatype sock_out = SendMsg ws_message | SendPing | SendPong | SendCloseTooLarge | SendClose

datatype frame_in =
    TextFrame rstr
  | PingFrame
  | PongFrame
  | CloseFrame
  | OtherFrame
  | RecvError bool
  | RecvEnd

text \<open>
  What wakes the loop: the heartbeat timer, a message on the socket's own channel, or something
  received, each with the instant at which the loop handles it.
\<close>

datatype sock_event = Tick timestamp | OutboundReady | Received timestamp frame_in

text \<open>
  What a socket works with: the JSON decoder, the membership query, the printing of sequence
  numbers and times, and whether the peer accepts a frame.
\<close>

record sock_env =
  decode :: "rstr \<Rightarrow> ws_message option"
  member :: membership
  show_seq :: "int \<Rightarrow> string"
  fmt_time :: "timestamp \<Rightarrow> string"
  send_ok :: "sock_out \<Rightarrow> bool"

text \<open>Frames are sent in order up to the first that is not accepted.\<close>

fun send_frames :: "sock_env \<Rightarrow> sock_out list \<Rightarrow> bool \<times> sock_out list" where
  "send_frames env [] = (True, [])"
| "send_frames env (f # fs) =
     (if send_ok env f then let (ok, sent) = send_frames env fs in (ok, f # sent) else (False, []))"

definition handle_inbound :: "sock_env \<Rightarrow> uuid \<Rightarrow> ws_message \<Rightarrow> relay \<Rightarrow> bool \<times> sock_out list \<times> relay" where
  "handle_inbound env sid m r =
     (case m of
        SubscribeMsg d since \<Rightarrow>
          (case handle_subscribe_message (member env) sid d since r of
             (Inr ms, r') \<Rightarrow> (case send_frames env (map SendMsg ms) of (ok, sent) \<Rightarrow> (ok, sent, r'))
           | (Inl e, r') \<Rightarrow> (case send_frames env [SendMsg e] of (ok, sent) \<Rightarrow> (ok, sent, r')))
      | YjsUpdate d client upd base payload \<Rightarrow>
          (case handle_yjs_update_message (show_seq env) sid d client upd base payload r of
             (Inr h, r') \<Rightarrow>
               (case send_frames env [SendMsg (yh_ack h)] of
                  (False, sent) \<Rightarrow> (False, sent, r')
                | (True, sent) \<Rightarrow>
                    (True, sent,
                     (case yh_broadcast h of
                        Some b \<Rightarrow> snd (broadcast_to_subscribers (yh_workspace h) d b r')
                      | None \<Rightarrow> r')))
           | (Inl e, r') \<Rightarrow> (case send_frames env [SendMsg e] of (ok, sent) \<Rightarrow> (ok, sent, r')))
      | AwarenessUpdate d peers \<Rightarrow>
          (case handle_awareness_update sid d peers r of
             (Inr (ws, b), r') \<Rightarrow> (True, [], snd (broadcast_to_subscribers_excluding ws d b sid r'))
           | (Inl e, r') \<Rightarrow> (case send_frames env [SendMsg e] of (ok, sent) \<Rightarrow> (ok, sent, r')))
      | _ \<Rightarrow>
          (case send_frames env [SendMsg (ErrorMsg ''SYNC_UNSUPPORTED_MESSAGE''
                   ''message type is not supported by this relay build'' True None)] of
             (ok, sent) \<Rightarrow> (ok, sent, r)))"

text \<open>One turn of the loop: whether it goes on, the last pong, what was sent, and the relay.\<close>

definition socket_turn ::
  "sock_env \<Rightarrow> uuid \<Rightarrow> nat \<Rightarrow> sock_event \<Rightarrow> timestamp \<times> relay \<Rightarrow> bool \<times> sock_out list \<times> timestamp \<times> relay" where
  "socket_turn env sid ch ev st =
     (case st of (last_pong, r) \<Rightarrow>
       (case ev of
          Tick now \<Rightarrow>
            if now - last_pong > millis HEARTBEAT_TIMEOUT_MS then (False, [], last_pong, r)
            else (case send_frames env [SendPing] of (ok, sent) \<Rightarrow> (ok, sent, last_pong, r))
        | OutboundReady \<Rightarrow>
            (case channels r ch of
               Some (m # ms) \<Rightarrow>
                 (case send_frames env [SendMsg m] of
                    (ok, sent) \<Rightarrow> (ok, sent, last_pong, r\<lparr>channels := (channels r)(ch \<mapsto> ms)\<rparr>))
             | _ \<Rightarrow> (False, [], last_pong, r))
        | Received now f \<Rightarrow>
            (case f of
               RecvEnd \<Rightarrow> (False, [], last_pong, r)
             | TextFrame raw \<Rightarrow>
                 if blen raw > MAX_FRAME_BYTES then (False, [SendCloseTooLarge], last_pong, r)
                 else (case decode env raw of
                    None \<Rightarrow>
                      (case send_frames env [SendMsg (ErrorMsg ''SYNC_INVALID_MESSAGE''
                               ''invalid websocket frame payload'' False None)] of
                         (ok, sent) \<Rightarrow> (ok, sent, last_pong, r))
                  | Some m \<Rightarrow>
                      (case handle_inbound env sid m r of (ok, sent, r') \<Rightarrow> (ok, sent, last_pong, r')))
             | PingFrame \<Rightarrow> (case send_frames env [SendPong] of (ok, sent) \<Rightarrow> (ok, sent, last_pong, r))
             | PongFrame \<Rightarrow> (True, [], now, r)
             | CloseFrame \<Rightarrow> (False, [], last_pong, r)
             | OtherFrame \<Rightarrow> (True, [], last_pong, r)
             | RecvError too_big \<Rightarrow> (False, if too_big then [SendCloseTooLarge] else [], last_pong, r))))"

fun broadcast_presence :: "uuid \<Rightarrow> uuid list \<Rightarrow> relay \<Rightarrow> relay" where
  "broadcast_presence ws [] r = r"
| "broadcast_presence ws (d # ds) r =
     broadcast_presence ws ds
       (snd (broadcast_to_subscribers ws d (AwarenessUpdate d (aw_aggregate ws d (awareness r))) r))"

text \<open>After the loop; the receiver of the socket's channel is dropped with the socket.\<close>

definition socket_cleanup :: "uuid \<Rightarrow> nat \<Rightarrow> relay \<Rightarrow> relay" where
  "socket_cleanup sid ch r =
     (let r1 = (case workspace_for_session sid (sessions r) of
                  Some ws \<Rightarrow>
                    (case subscriptions_for_session sid (sessions r) of
                       Some subs \<Rightarrow>
                         broadcast_presence ws subs (r\<lparr>awareness := aw_remove_session ws subs sid (awareness r)\<rparr>)
                     | None \<Rightarrow> r)
                | None \<Rightarrow> r)
      in r1\<lparr>sessions := mark_disconnected sid (sessions r1), channels := (channels r1)(ch := None)\<rparr>)"

text \<open>
  The handshake: refused with what is sent, or open with the acknowledgement sent, the outbound
  channel registered and the pong clock started.
\<close>

definition socket_hello ::
  "sock_env \<Rightarrow> uuid \<Rightarrow> nat \<Rightarrow> string \<Rightarrow> timestamp \<Rightarrow> timestamp \<Rightarrow> timestamp \<Rightarrow> timestamp \<Rightarrow> frame_in \<Rightarrow> relay \<Rightarrow>
   bool \<times> sock_out list \<times> timestamp \<times> relay" where
  "socket_hello env sid ch fresh now now' now'' opened f r =
     (case mark_connected sid (sessions r) of
        (False, _) \<Rightarrow> (False, [], opened, r)
      | (True, ss) \<Rightarrow>
          let refuse = (\<lambda>sent ss'. (False, sent, opened, r\<lparr>sessions := mark_disconnected sid ss'\<rparr>)) in
          (case f of
             TextFrame raw \<Rightarrow>
               if blen raw > MAX_FRAME_BYTES then refuse [SendCloseTooLarge] ss
               else (case decode env raw of
                  Some (Hello version token resume) \<Rightarrow>
                    (case handle_hello_message (fmt_time env) sid version token resume now now' now'' fresh ss of
                       (Inl e, ss') \<Rightarrow> refuse (snd (send_frames env [SendMsg e]) @ [SendClose]) ss'
                     | (Inr ack, ss') \<Rightarrow>
                         (case send_frames env [SendMsg ack] of
                            (False, sent) \<Rightarrow> refuse sent ss'
                          | (True, sent) \<Rightarrow>
                              (case register_outbound sid ch ss' of
                                 (False, _) \<Rightarrow> refuse sent ss'
                               | (True, ss'') \<Rightarrow>
                                   (True, sent, opened, r\<lparr>sessions := ss'', channels := (channels r)(ch \<mapsto> [])\<rparr>))))
                | _ \<Rightarrow>
                    refuse (snd (send_frames env [SendMsg (ErrorMsg ''SYNC_HELLO_REQUIRED''
                      ''first WebSocket message must be a hello frame'' False None)]) @ [SendClose]) ss)
           | RecvError too_big \<Rightarrow> refuse (if too_big then [SendCloseTooLarge] else []) ss
           | _ \<Rightarrow> refuse [] ss))"

text \<open>The loop over what wakes it; it stops at the first turn that does not go on, or when nothing more comes.\<close>

fun socket_loop ::
  "sock_env \<Rightarrow> uuid \<Rightarrow> nat \<Rightarrow> sock_event list \<Rightarrow> timestamp \<times> relay \<Rightarrow> bool \<times> sock_out list \<times> timestamp \<times> relay" where
  "socket_loop env sid ch [] (last_pong, r) = (True, [], last_pong, r)"
| "socket_loop env sid ch (ev # evs) (last_pong, r) =
     (case socket_turn env sid ch ev (last_pong, r) of
        (False, sent, last_pong', r') \<Rightarrow> (False, sent, last_pong', socket_cleanup sid ch r')
      | (True, sent, last_pong', r') \<Rightarrow>
          (case socket_loop env sid ch evs (last_pong', r') of
             (b, sent', st) \<Rightarrow> (b, sent @ sent', st)))"

text \<open>
  What can happen to the relay's stores: a session is created over HTTP, a socket does its
  handshake or one turn of its loop, or ends. Every event carries its own readings of the clock
  and fresh values, so that a list of events is one interleaving of any number of sockets.
\<close>

datatype ws_event =
    CreateSession membership "timestamp \<Rightarrow> string" "uuid \<Rightarrow> string" string "uuid \<times> uuid \<times> uuid"
      timestamp timestamp uuid "uuid \<times> uuid" create_request
  | OpenSocket sock_env uuid nat string timestamp timestamp timestamp timestamp frame_in
  | TurnSocket sock_env uuid nat sock_event timestamp
  | CloseSocket uuid nat

fun ws_apply :: "ws_event \<Rightarrow> relay \<Rightarrow> relay" where
  "ws_apply (CreateSession mem fmt shw url fresh now now' ws user req) r =
     r\<lparr>sessions := snd (create_sync_session mem fmt shw url fresh now now' ws user req (sessions r))\<rparr>"
| "ws_apply (OpenSocket env sid ch fresh now now' now'' opened f) r =
     snd (snd (snd (socket_hello env sid ch fresh now now' now'' opened f r)))"
| "ws_apply (TurnSocket env sid ch ev t) r = snd (snd (snd (socket_turn env sid ch ev (t, r))))"
| "ws_apply (CloseSocket sid ch) r = socket_cleanup sid ch r"

text \<open>The channels the handshakes of a run make, one per connection (\<open>unbounded_channel\<close>).\<close>

fun new_channels :: "ws_event list \<Rightarrow> nat list" where
  "new_channels [] = []"
| "new_channels (OpenSocket _ _ ch _ _ _ _ _ _ # evs) = ch # new_channels evs"
| "new_channels (_ # evs) = new_channels evs"

text \<open>Sessions have channels among those made so far, and no session's channel is another's.\<close>

definition session_channel :: "session_store \<Rightarrow> uuid \<Rightarrow> nat option" where
  "session_channel ss i = Option.bind (map_of ss i) sr_outbound"

definition own_channels :: "nat set \<Rightarrow> session_store \<Rightarrow> bool" where
  "own_channels used ss \<longleftrightarrow> distinct (map fst ss) \<and>
     (\<forall>i ch. session_channel ss i = Some ch \<longrightarrow> ch \<in> used) \<and>
     (\<forall>i j ch. session_channel ss i = Some ch \<longrightarrow> session_channel ss j = Some ch \<longrightarrow> i = j)"

text \<open>A session has gone on to another resume token than the one given.\<close>

definition token_spent :: "uuid \<Rightarrow> string \<Rightarrow> session_store \<Rightarrow> bool" where
  "token_spent sid t ss \<longleftrightarrow> (\<exists>s. map_of ss sid = Some s \<and> sr_resume_token s \<noteq> t)"

text \<open>The fresh values of an event: the id of a new session and the next resume token of a handshake.\<close>

definition fresh_values :: "(uuid \<Rightarrow> bool) \<Rightarrow> (string \<Rightarrow> bool) \<Rightarrow> ws_event \<Rightarrow> bool" where
  "fresh_values good_id good_token ev \<longleftrightarrow>
     (case ev of
        CreateSession _ _ _ _ fresh _ _ _ _ _ \<Rightarrow> good_id (fst fresh)
      | OpenSocket _ _ _ fresh _ _ _ _ _ \<Rightarrow> good_token fresh
      | _ \<Rightarrow> True)"

section \<open>Invariants of the session store\<close>

lemma broadcast_sessions [simp]:
  "sessions (snd (broadcast_to_subscribers ws d m r)) = sessions r"
  "sessions (snd (broadcast_to_subscribers_excluding ws d m x r)) = sessions r"
  by (auto simp: broadcast_to_subscribers_def broadcast_to_subscribers_excluding_def Let_def split: prod.split)

lemma broadcast_doc_store: "doc_store (snd (broadcast_to_subscribers ws d m r)) = doc_store r"
  by (auto simp: broadcast_to_subscribers_def Let_def split: prod.split)

lemma broadcast_presence_sessions [simp]: "sessions (broadcast_presence ws ds r) = sessions r"
  by (induction ds arbitrary: r) auto

lemma handle_yjs_sessions [simp]:
  "sessions (snd (handle_yjs_update_message shw sid d client upd base payload r)) = sessions r"
  by (auto simp: handle_yjs_update_message_def split: option.split prod.split apply_result.split)

lemma handle_awareness_sessions [simp]: "sessions (snd (handle_awareness_update sid d peers r)) = sessions r"
  by (auto simp: handle_awareness_update_def Let_def split: option.split)

text \<open>
  What an invariant of the session store has to promise to survive every run of the relay: the
  four ways in which handlers write to it. \<open>used\<close> are the channels made so far.
\<close>

locale session_invariant =
  fixes holds :: "nat set \<Rightarrow> session_store \<Rightarrow> bool"
    and good_token :: "string \<Rightarrow> bool" and good_id :: "uuid \<Rightarrow> bool"
  assumes modify: "holds used ss \<Longrightarrow>
      (\<And>s. sr_outbound (f s) = sr_outbound s \<or> sr_outbound (f s) = None) \<Longrightarrow>
      (\<And>s. sr_resume_token (f s) = sr_resume_token s) \<Longrightarrow> holds used (snd (on_session sid f ss))"
    and rotate: "holds used ss \<Longrightarrow> good_token fresh \<Longrightarrow>
      holds used (snd (validate_session_token sid token resume now now' fresh ss))"
    and register: "holds used ss \<Longrightarrow> ch \<notin> used \<Longrightarrow> holds (insert ch used) (snd (register_outbound sid ch ss))"
    and widen: "holds used ss \<Longrightarrow> holds (insert ch used) ss"
    and create: "holds used ss \<Longrightarrow> good_id sid \<Longrightarrow>
      holds used (create_session_with_actor sid ws client device token first expires rexp user agent ss)"
begin

lemma holds_connected: "holds used ss \<Longrightarrow> holds used (snd (mark_connected sid ss))"
  unfolding mark_connected_def by (rule modify) auto

lemma holds_disconnected: "holds used ss \<Longrightarrow> holds used (mark_disconnected sid ss)"
  unfolding mark_disconnected_def by (rule modify) (auto simp: Let_def)

lemma holds_track: "holds used ss \<Longrightarrow> holds used (snd (track_subscription sid d ss))"
  unfolding track_subscription_def by (rule modify) auto

lemma holds_create:
  "holds used ss \<Longrightarrow> good_id (fst fresh) \<Longrightarrow>
   holds used (snd (create_sync_session mem fmt shw url fresh now now' ws user req ss))"
  by (auto simp: create_sync_session_def Let_def intro: create split: sum.split option.split)

lemma holds_subscribe:
  "holds used (sessions r) \<Longrightarrow> holds used (sessions (snd (handle_subscribe_message mem sid d since r)))"
  using holds_track [of used "sessions r" sid d]
  by (auto simp: handle_subscribe_message_def split: option.split prod.split bool.split)

lemma holds_hello:
  "holds used ss \<Longrightarrow> good_token fresh \<Longrightarrow>
   holds used (snd (handle_hello_message fmt sid version token resume now now' now'' fresh ss))"
  using rotate [of used ss fresh sid token resume now now']
  by (auto simp: handle_hello_message_def split: sum.split prod.split token_validation.split)

lemma holds_inbound:
  assumes "holds used (sessions r)"
  shows "holds used (sessions (snd (snd (handle_inbound env sid m r))))"
proof -
  have sub: "holds used (sessions r')" if "handle_subscribe_message (member env) sid d since r = (x, r')" for d since x r'
    using holds_subscribe [OF assms, of "member env" sid d since] that by simp
  have yjs: "sessions r' = sessions r"
    if "handle_yjs_update_message (show_seq env) sid d client upd base payload r = (x, r')" for d client upd base payload x r'
    using handle_yjs_sessions [of "show_seq env" sid d client upd base payload r] that by simp
  have aw: "sessions r' = sessions r" if "handle_awareness_update sid d peers r = (x, r')" for d peers x r'
    using handle_awareness_sessions [of sid d peers r] that by simp
  show ?thesis using assms
    by (auto simp: handle_inbound_def simp del: send_frames.simps dest: sub yjs aw
        split: ws_message.split prod.split sum.split bool.split option.split)
qed

lemma holds_turn:
  assumes "holds used (sessions r)"
  shows "holds used (sessions (snd (snd (snd (socket_turn env sid ch ev (t, r))))))"
proof -
  have inb: "holds used (sessions r')" if "handle_inbound env sid m r = (ok, sent, r')" for m ok sent r'
    using holds_inbound [OF assms, of env sid m] that by simp
  show ?thesis using assms
    by (auto simp: socket_turn_def simp del: send_frames.simps dest: inb
        split: sock_event.split option.split list.split prod.split frame_in.split)
qed

lemma holds_cleanup: "holds used (sessions r) \<Longrightarrow> holds used (sessions (socket_cleanup sid ch r))"
  by (auto simp: socket_cleanup_def Let_def broadcast_presence_sessions intro!: holds_disconnected split: option.split)

lemma holds_open:
  assumes "holds used (sessions r)" "good_token fresh" "ch \<notin> used"
  shows "holds (insert ch used) (sessions (snd (snd (snd (socket_hello env sid ch fresh now now' now'' opened f r)))))"
proof (cases "mark_connected sid (sessions r)")
  case (Pair ok ss)
  have c: "holds used ss" using holds_connected [OF assms(1), of sid] Pair by simp
  have off: "holds (insert ch used) (mark_disconnected sid ss')" if "holds used ss'" for ss'
    using that by (intro holds_disconnected widen)
  have h: "holds used ss'"
    if "handle_hello_message (fmt_time env) sid version token resume now now' now'' fresh ss = (x, ss')"
    for version token resume x ss'
    using holds_hello [OF c assms(2), of "fmt_time env" sid version token resume now now' now''] that by simp
  have reg: "holds (insert ch used) ss''" if "register_outbound sid ch ss' = (x, ss'')" "holds used ss'" for ss' ss'' x
    using register [OF that(2) assms(3), of sid] that(1) by simp
  show ?thesis using Pair assms(1) c
    by (auto simp: socket_hello_def Let_def simp del: send_frames.simps intro!: off widen [OF assms(1)]
        dest: h intro: reg split: bool.split frame_in.split option.split ws_message.split prod.split sum.split)
qed

lemma holds_apply:
  assumes "holds used (sessions r)" "fresh_values good_id good_token ev" "set (new_channels [ev]) \<inter> used = {}"
  shows "holds (set (new_channels [ev]) \<union> used) (sessions (ws_apply ev r))"
proof (cases ev)
  case (OpenSocket env sid ch fresh now now' now'' opened f)
  then show ?thesis using assms holds_open [OF assms(1), of fresh ch] by (simp add: fresh_values_def)
qed (use assms in \<open>auto simp: fresh_values_def holds_create holds_turn holds_cleanup\<close>)

lemma new_channels_Cons: "new_channels (ev # evs) = new_channels [ev] @ new_channels evs"
  by (cases ev) auto

lemma holds_run:
  "holds used (sessions r) \<Longrightarrow> \<forall>ev \<in> set evs. fresh_values good_id good_token ev \<Longrightarrow>
   distinct (new_channels evs) \<Longrightarrow> set (new_channels evs) \<inter> used = {} \<Longrightarrow>
   holds (set (new_channels evs) \<union> used) (sessions (fold ws_apply evs r))"
proof (induction evs arbitrary: used r)
  case (Cons ev evs)
  have "holds (set (new_channels [ev]) \<union> used) (sessions (ws_apply ev r))"
    using Cons.prems by (intro holds_apply) (auto simp: new_channels_Cons [of ev evs])
  then have "holds (set (new_channels evs) \<union> (set (new_channels [ev]) \<union> used)) (sessions (fold ws_apply evs (ws_apply ev r)))"
    using Cons.prems by (intro Cons.IH) (auto simp: new_channels_Cons [of ev evs])
  then show ?case by (simp add: new_channels_Cons [of ev evs] Un_assoc Un_commute Un_left_commute)
qed simp

end

text \<open>Sessions keep to their own channels, and a session that has left a resume token does not return to it.\<close>

lemma session_channel_update: "session_channel (AList.update sid s ss) = (session_channel ss)(sid := sr_outbound s)"
  by (auto simp: session_channel_def update_conv')

lemma own_channels_update:
  assumes "own_channels used ss" and "sr_outbound s = None \<or> sr_outbound s = session_channel ss sid"
  shows "own_channels used (AList.update sid s ss)"
  using assms by (auto simp: own_channels_def distinct_update session_channel_update) metis+

lemma own_channels_modify:
  fixes f :: "session_record \<Rightarrow> session_record"
  assumes "own_channels used ss" "\<And>s. sr_outbound (f s) = sr_outbound s \<or> sr_outbound (f s) = None"
  shows "own_channels used (snd (on_session sid f ss))"
proof (cases "map_of ss sid")
  case (Some s)
  have "own_channels used (AList.update sid (f s) ss)"
    using assms(2) [of s] Some by (intro own_channels_update [OF assms(1)]) (auto simp: session_channel_def)
  then show ?thesis using Some by (simp only: on_session_def option.case snd_conv)
next
  case None
  then show ?thesis using assms(1) by (simp only: on_session_def option.case snd_conv)
qed

lemma own_channels_rotate:
  assumes "own_channels used ss"
  shows "own_channels used (snd (validate_session_token sid token resume now now' fresh ss))"
proof (cases "map_of ss sid")
  case (Some s)
  have "own_channels used (AList.update sid (s\<lparr>sr_resume_token := t, sr_resume_expires_at := e\<rparr>) ss)" for t e
    using Some by (intro own_channels_update [OF assms]) (auto simp: session_channel_def)
  then show ?thesis using Some assms by (simp only: validate_session_token_def option.case Let_def snd_conv split: if_split) simp
next
  case None
  then show ?thesis using assms by (simp only: validate_session_token_def option.case snd_conv)
qed

lemma own_channels_register:
  assumes "own_channels used ss" "ch \<notin> used"
  shows "own_channels (insert ch used) (snd (register_outbound sid ch ss))"
proof (cases "map_of ss sid")
  case (Some s)
  have "own_channels (insert ch used) (AList.update sid (s\<lparr>sr_outbound := Some ch\<rparr>) ss)"
    using assms by (auto simp: own_channels_def distinct_update session_channel_update)
  then show ?thesis using Some by (simp only: register_outbound_def on_session_def option.case snd_conv)
next
  case None
  then show ?thesis using assms by (auto simp only: register_outbound_def on_session_def option.case snd_conv own_channels_def)
qed

interpretation own: session_invariant own_channels "\<lambda>_. True" "\<lambda>_. True"
proof unfold_locales
  show "own_channels used ss \<Longrightarrow>
      own_channels used (create_session_with_actor sid ws client device token first expires rexp user agent ss)"
    for used ss sid ws client device token first expires rexp user agent
    unfolding create_session_with_actor_def by (rule own_channels_update) simp_all
  show "own_channels used ss \<Longrightarrow> own_channels (insert ch used) ss" for used ss ch
    by (auto simp: own_channels_def)
qed (simp_all add: own_channels_modify own_channels_rotate own_channels_register)

interpretation spent: session_invariant "\<lambda>_. token_spent sid resume" "\<lambda>t. t \<noteq> resume" "\<lambda>i. i \<noteq> sid"
  for sid resume
  by unfold_locales
     (auto simp: token_spent_def on_session_def validate_session_token_def register_outbound_def Let_def
       create_session_with_actor_def update_conv' split: option.split)

text \<open>
  Every run from a relay without sessions gives each session its own channel, because each
  handshake makes a new one.
\<close>

lemma runs_own_channels:
  assumes "sessions r = []" and "distinct (new_channels evs)"
  shows "own_channels (set (new_channels evs)) (sessions (fold ws_apply evs r))"
proof -
  have "own_channels {} (sessions r)" by (simp add: assms own_channels_def session_channel_def)
  from own.holds_run [OF this, of evs] assms(2) show ?thesis
    by (simp add: fresh_values_def split: ws_event.split)
qed

text \<open>The sessions that hear of a change are those of the workspace that are subscribed to the document.\<close>

definition hears :: "uuid \<Rightarrow> uuid \<Rightarrow> (uuid \<Rightarrow> bool) \<Rightarrow> uuid \<times> session_record \<Rightarrow> bool" where
  "hears ws d skip p \<longleftrightarrow> \<not> skip (fst p) \<and> sr_workspace (snd p) = ws \<and> d \<in> set (sr_subscriptions (snd p))"

definition out_channel :: "uuid \<times> session_record \<Rightarrow> nat option" where
  "out_channel p = sr_outbound (snd p)"

lemma recipients_Cons:
  "recipients ws d skip (p # ss) =
     (case if hears ws d skip p then out_channel p else None of
        Some ch \<Rightarrow> ch # recipients ws d skip ss | None \<Rightarrow> recipients ws d skip ss)"
  by (cases p) (auto simp: recipients_def hears_def out_channel_def List.map_filter_simps split: option.split)

lemma recipients_Nil: "recipients ws d skip [] = []"
  by (simp add: recipients_def List.map_filter_simps)

lemma recipients_iff:
  "ch \<in> set (recipients ws d skip ss) \<longleftrightarrow> (\<exists>p \<in> set ss. hears ws d skip p \<and> out_channel p = Some ch)"
proof (induction ss)
  case (Cons p ss)
  then show ?case by (cases "out_channel p") (simp_all add: recipients_Cons, blast)
qed (simp add: recipients_Nil)

lemma session_channel_mem:
  "distinct (map fst ss) \<Longrightarrow> p \<in> set ss \<Longrightarrow> session_channel ss (fst p) = out_channel p"
  by (cases p) (simp add: session_channel_def out_channel_def)

lemma own_channels_apart:
  assumes "own_channels used ss" "p \<in> set ss" "q \<in> set ss" "out_channel p = Some ch" "out_channel q = Some ch"
  shows "fst p = fst q"
proof -
  have "distinct (map fst ss)" using assms(1) by (simp add: own_channels_def)
  then have "session_channel ss (fst p) = Some ch" "session_channel ss (fst q) = Some ch"
    using assms session_channel_mem by metis+
  then show ?thesis using assms(1) unfolding own_channels_def by blast
qed

lemma recipients_distinct:
  "distinct (map fst ss) \<Longrightarrow>
   (\<And>p q ch. p \<in> set ss \<Longrightarrow> q \<in> set ss \<Longrightarrow> out_channel p = Some ch \<Longrightarrow> out_channel q = Some ch \<Longrightarrow> fst p = fst q) \<Longrightarrow>
   distinct (recipients ws d skip ss)"
proof (induction ss)
  case (Cons p ss)
  have "ch \<notin> set (recipients ws d skip ss)" if "out_channel p = Some ch" for ch
  proof
    assume "ch \<in> set (recipients ws d skip ss)"
    then obtain q where q: "q \<in> set ss" "out_channel q = Some ch" by (auto simp: recipients_iff)
    then have "fst p = fst q" using Cons.prems(2) [of p q ch] that by simp
    then show False using Cons.prems(1) q(1) by simp
  qed
  moreover have "distinct (recipients ws d skip ss)" using Cons.prems by (intro Cons.IH) auto
  ultimately show ?case by (cases "out_channel p") (simp_all add: recipients_Cons)
qed (simp add: recipients_Nil)

lemma distinct_count_list: "distinct xs \<Longrightarrow> count_list xs x = (if x \<in> set xs then 1 else 0)"
  by (induction xs) auto

lemma recipients_count:
  assumes "own_channels used ss"
  shows "count_list (recipients ws d skip ss) ch =
    (if \<exists>p \<in> set ss. hears ws d skip p \<and> out_channel p = Some ch then 1 else 0)"
proof -
  have "distinct (recipients ws d skip ss)"
  proof (rule recipients_distinct)
    show "distinct (map fst ss)" using assms by (simp add: own_channels_def)
  qed (rule own_channels_apart [OF assms])
  then show ?thesis by (simp add: distinct_count_list recipients_iff)
qed

section \<open>Lemmas\<close>

lemma send_frames_subset: "set (snd (send_frames env fs)) \<subseteq> set fs"
  by (induction fs) (auto simp: Let_def split: prod.splits)

lemma channel_send_other: "ch' \<noteq> ch \<Longrightarrow> snd (channel_send m chs ch) ch' = chs ch'"
  by (auto simp: channel_send_def split: option.split)

lemma send_all_channel:
  "snd (send_all m chans chs) ch =
     (case chs ch of Some ms \<Rightarrow> Some (ms @ replicate (count_list chans ch) m) | None \<Rightarrow> None)"
proof (induction chans arbitrary: chs)
  case (Cons c rest)
  have "snd (channel_send m chs c) ch =
      (case chs ch of Some ms \<Rightarrow> Some (if c = ch then ms @ [m] else ms) | None \<Rightarrow> None)"
    by (auto simp: channel_send_def split: option.split)
  then show ?case using Cons [of "snd (channel_send m chs c)"]
    by (auto simp: Let_def split: prod.splits option.splits)
qed (simp split: option.split)

text \<open>Before the first tick no ping is sent, and the pong clock stands still when no pong comes.\<close>

lemma handle_inbound_no_ping: "SendPing \<notin> set (fst (snd (handle_inbound env sid m r)))"
proof -
  have s: "SendPing \<notin> set (snd (send_frames env (map SendMsg ms)))" for ms
    using send_frames_subset [of env "map SendMsg ms"] by auto
  have s1: "SendPing \<notin> set (snd (send_frames env [SendMsg e]))" for e
    using s [of "[e]"] by simp
  show ?thesis
    using s s1 by (auto simp: handle_inbound_def split: ws_message.split prod.split sum.split bool.split
        dest!: arg_cong [where f = snd])
qed

definition quiet :: "sock_event \<Rightarrow> bool" where
  "quiet ev \<longleftrightarrow> (case ev of Tick _ \<Rightarrow> False | OutboundReady \<Rightarrow> True | Received _ f \<Rightarrow> f \<noteq> PongFrame)"

lemma quiet_turn:
  assumes "quiet ev" "socket_turn env sid ch ev (t, r) = (go, sent, t', r')"
  shows "t' = t \<and> SendPing \<notin> set sent"
proof -
  have s1: "SendPing \<notin> set s" if "send_frames env [SendMsg e] = (ok, s)" for e ok s
    using send_frames_subset [of env "[SendMsg e]"] that by auto
  have s2: "SendPing \<notin> set s" if "send_frames env [SendPong] = (ok, s)" for ok s
    using send_frames_subset [of env "[SendPong]"] that by auto
  show ?thesis
  proof (cases ev)
    case (Tick now)
    then show ?thesis using assms(1) by (simp add: quiet_def)
  next
    case OutboundReady
    then show ?thesis using assms(2) s1
      by (auto simp: socket_turn_def simp del: send_frames.simps split: option.splits list.splits prod.splits)
  next
    case (Received now f)
    show ?thesis
    proof (cases f)
      case (TextFrame raw)
      have "SendPing \<notin> set sent'" if "handle_inbound env sid m r = (ok, sent', r'')" for m ok sent' r''
        using handle_inbound_no_ping [of env sid m r] that by simp
      then show ?thesis using assms(2) s1 Received TextFrame
        by (auto simp: socket_turn_def simp del: send_frames.simps split: option.splits if_splits prod.splits)
    next
      case PingFrame
      then show ?thesis using assms(2) s2 Received
        by (auto simp: socket_turn_def simp del: send_frames.simps split: prod.splits)
    next
      case PongFrame
      then show ?thesis using assms(1) Received by (simp add: quiet_def)
    qed (use assms(2) Received in \<open>auto simp: socket_turn_def\<close>)
  qed
qed

lemma quiet_loop_tick:
  "\<forall>ev \<in> set evs. quiet ev \<Longrightarrow> now - t > millis HEARTBEAT_TIMEOUT_MS \<Longrightarrow>
   fst (socket_loop env sid ch (evs @ [Tick now]) (t, r)) = False \<and>
   SendPing \<notin> set (fst (snd (socket_loop env sid ch (evs @ [Tick now]) (t, r))))"
proof (induction evs arbitrary: r)
  case Nil
  then show ?case by (simp add: socket_turn_def)
next
  case (Cons ev evs)
  obtain go sent t' r' where turn: "socket_turn env sid ch ev (t, r) = (go, sent, t', r')"
    by (metis prod_cases4)
  have q: "t' = t" "SendPing \<notin> set sent" using quiet_turn [OF _ turn] Cons.prems(1) by auto
  show ?case
  proof (cases go)
    case True
    obtain b sent' st where l: "socket_loop env sid ch (evs @ [Tick now]) (t, r') = (b, sent', st)"
      by (metis prod_cases3)
    then show ?thesis using Cons.IH [of r'] Cons.prems turn q True by simp
  next
    case False
    then show ?thesis using turn q by simp
  qed
qed

section \<open>Properties\<close>

text \<open>
  A connection on which the client sends no unsolicited pong is closed by the first tick of
  its heartbeat, and no ping has been sent on it: the timer fires 15 seconds after it was armed,
  and by then the 10 seconds since the last pong, counted from the opening of the connection
  right after the arming, are over.
\<close>

theorem first_heartbeat_disconnects:
  assumes "\<forall>ev \<in> set evs. quiet ev" and "armed + millis HEARTBEAT_INTERVAL_MS \<le> now"
    and "opened < armed + millis (HEARTBEAT_INTERVAL_MS - HEARTBEAT_TIMEOUT_MS)"
  shows "case socket_loop env sid ch (evs @ [Tick now]) (opened, r) of
    (go, sent, _) \<Rightarrow> \<not> go \<and> SendPing \<notin> set sent"
proof -
  have "now - opened > millis HEARTBEAT_TIMEOUT_MS"
    using assms(2,3) by (simp add: millis_def algebra_simps)
  from quiet_loop_tick [OF assms(1) this, of env sid ch r] show ?thesis
    by (cases "socket_loop env sid ch (evs @ [Tick now]) (opened, r)") simp
qed

definition demo_env :: sock_env where
  "demo_env = \<lparr>decode = (\<lambda>_. None), member = (\<lambda>_ _. Okay (Some Editor)), show_seq = (\<lambda>_. ''''),
               fmt_time = (\<lambda>_. ''''), send_ok = (\<lambda>_. True)\<rparr>"

definition demo_relay :: relay where
  "demo_relay = \<lparr>sessions =
      [(1, \<lparr>sr_workspace = 5, sr_client = 7, sr_device = 0, sr_session_token = ''t'', sr_resume_token = ''r'',
            sr_expires_at = 100, sr_resume_expires_at = 50, sr_active_connections = 1, sr_subscriptions = [9],
            sr_outbound = Some 0, sr_actor_user = None, sr_actor_agent = None\<rparr>)],
     doc_store = Map.empty, awareness = [], channels = [0 \<mapsto> []]\<rparr>"

theorem first_heartbeat_disconnects_witness:
  "case socket_loop demo_env 1 0 ([Received 3 (TextFrame [])] @ [Tick 15000000000]) (1, demo_relay) of
    (go, sent, _) \<Rightarrow> \<not> go \<and> SendPing \<notin> set sent"
  by (rule first_heartbeat_disconnects [where armed = 0])
     (simp_all add: quiet_def millis_def HEARTBEAT_INTERVAL_MS_def HEARTBEAT_TIMEOUT_MS_def)

text \<open>
  (C12) An update that a subscribed session sends and the relay applies is stored, and no session
  changes. If the sender takes the acknowledgement, which carries the update's sequence number,
  the update is put exactly once on the outbound channel of every session of the same workspace
  that is subscribed to the document, and on no other channel. If sending the acknowledgement
  fails, the loop of the sender ends and no channel gets the update, although it is stored. The
  sessions have channels of their own, as after every run (\<open>runs_own_channels\<close>).
\<close>

theorem applied_update_is_broadcast:
  assumes "own_channels used (sessions r)"
    and "map_of (sessions r) sid = Some s" and "d \<in> set (sr_subscriptions s)" and "0 \<le> base"
    and "apply_client_update (sr_workspace s) d client upd base payload
           \<lparr>user_id = sr_actor_user s, agent_id = sr_actor_agent s\<rparr> (doc_store r) = (Applied seq bbase, docs)"
  shows "case handle_inbound env sid (YjsUpdate d client upd base payload) r of (go, sent, r') \<Rightarrow>
    doc_store r' = docs \<and> sessions r' = sessions r \<and>
    (if send_ok env (SendMsg (Ack d upd seq True)) then
       go \<and> sent = [SendMsg (Ack d upd seq True)] \<and>
       (\<forall>ch. channels r' ch =
          (if \<exists>p \<in> set (sessions r). sr_workspace (snd p) = sr_workspace s \<and>
                d \<in> set (sr_subscriptions (snd p)) \<and> sr_outbound (snd p) = Some ch
           then map_option (\<lambda>ms. ms @ [YjsUpdate d client upd bbase payload]) (channels r ch)
           else channels r ch))
     else \<not> go \<and> sent = [] \<and> channels r' = channels r)"
proof -
  have h: "handle_yjs_update_message (show_seq env) sid d client upd base payload r =
      (Okay \<lparr>yh_workspace = sr_workspace s, yh_ack = Ack d upd seq True,
             yh_broadcast = Some (YjsUpdate d client upd bbase payload)\<rparr>, r\<lparr>doc_store := docs\<rparr>)"
    using assms(2-5)
    by (simp add: handle_yjs_update_message_def workspace_for_session_def session_is_subscribed_def
        attribution_for_session_def del: map_of_eq_Some_iff)
  let ?m = "YjsUpdate d client upd bbase payload" and ?to = "recipients (sr_workspace s) d (\<lambda>_. False) (sessions r)"
  have b: "channels (snd (broadcast_to_subscribers (sr_workspace s) d ?m (r\<lparr>doc_store := docs\<rparr>))) ch =
      (if \<exists>p \<in> set (sessions r). hears (sr_workspace s) d (\<lambda>_. False) p \<and> out_channel p = Some ch
       then map_option (\<lambda>ms. ms @ [?m]) (channels r ch) else channels r ch)" for ch
    using send_all_channel [of ?m ?to "channels r" ch] recipients_count [OF assms(1), of "sr_workspace s" d "\<lambda>_. False" ch]
    by (auto simp: broadcast_to_subscribers_def Let_def split: prod.split option.split)
  show ?thesis using b
    by (simp add: handle_inbound_def h broadcast_doc_store hears_def out_channel_def split: prod.split)
qed

definition demo_sender :: session_record where
  "demo_sender = \<lparr>sr_workspace = 5, sr_client = 7, sr_device = 0, sr_session_token = ''t'', sr_resume_token = ''r'',
     sr_expires_at = 100, sr_resume_expires_at = 50, sr_active_connections = 1, sr_subscriptions = [9],
     sr_outbound = Some 0, sr_actor_user = None, sr_actor_agent = None\<rparr>"

definition demo_room :: relay where
  "demo_room = \<lparr>sessions =
      [(1, demo_sender),
       (2, demo_sender\<lparr>sr_outbound := Some 1\<rparr>),
       (3, demo_sender\<lparr>sr_outbound := Some 2, sr_workspace := 6\<rparr>),
       (4, demo_sender\<lparr>sr_outbound := Some 3, sr_subscriptions := [8]\<rparr>)],
     doc_store = Map.empty, awareness = [], channels = [0 \<mapsto> [], 1 \<mapsto> [], 2 \<mapsto> [], 3 \<mapsto> []]\<rparr>"

text \<open>Two sessions of the workspace are subscribed; one of another workspace and one of another document are not told.\<close>

theorem applied_update_is_broadcast_witness:
  "case handle_inbound demo_env 1 (YjsUpdate 9 7 3 0 ''p'') demo_room of (go, sent, r') \<Rightarrow>
    go \<and> sent = [SendMsg (Ack 9 3 1 True)] \<and>
    channels r' 0 = Some [YjsUpdate 9 7 3 0 ''p''] \<and> channels r' 1 = Some [YjsUpdate 9 7 3 0 ''p''] \<and>
    channels r' 2 = Some [] \<and> channels r' 3 = Some []"
proof -
  obtain docs where a: "apply_client_update 5 9 7 3 0 ''p'' \<lparr>user_id = None, agent_id = None\<rparr> Map.empty = (Applied 1 0, docs)"
    by (simp add: apply_client_update_def doc_entry_def empty_doc_sync_def Let_def sat_i64_def i64_min_def i64_max_def)
  have own: "own_channels UNIV (sessions demo_room)"
    by (auto simp: own_channels_def session_channel_def demo_room_def demo_sender_def split: if_splits)
  show ?thesis
    using applied_update_is_broadcast [OF own, of 1 demo_sender 9 0 7 3 "''p''" 1 0 docs demo_env] a
    by (auto simp: demo_room_def demo_sender_def demo_env_def split: prod.splits)
qed

text \<open>
  A session that does not exist or is not subscribed to a document cannot change it: its
  updates are answered with an error, and no document, session or channel changes.
\<close>

theorem unsubscribed_update_refused:
  assumes "\<not> session_is_subscribed sid d (sessions r)"
  shows "\<exists>e. handle_yjs_update_message shw sid d client upd base payload r = (Err e, r)"
  using assms by (auto simp: handle_yjs_update_message_def split: option.split)

theorem unsubscribed_update_refused_witness:
  "\<exists>e. handle_yjs_update_message (\<lambda>_. '''') 1 8 7 3 0 ''p'' demo_relay = (Err e, demo_relay)"
  by (rule unsubscribed_update_refused) (simp add: session_is_subscribed_def demo_relay_def)

text \<open>
  (C13) A session accepts a resume token once. When a handshake of a session accepts a resume
  token, the token was the session's and had not expired, and the session gets the fresh one;
  after that, whatever sessions are created and whatever the sockets of the relay do, no
  handshake of that session accepts the old token again. The ids of later sessions and the tokens
  of later handshakes are assumed to differ from this session's id and its old token
  (\<open>new_v4\<close>). The token is spent for its session only: a session newly created with it takes it.
\<close>

theorem resume_token_single_use:
  assumes "validate_session_token sid token (Some resume) now now' fresh (sessions r) = (TokenValid True new expires, ss')"
    and "resume \<noteq> fresh" and "distinct (new_channels evs)"
    and "\<forall>ev \<in> set evs. fresh_values (\<lambda>i. i \<noteq> sid) (\<lambda>t. t \<noteq> resume) ev"
  shows "new = fresh \<and> expires = now' + minutes RESUME_TOKEN_TTL_MINUTES \<and>
    (\<exists>s. map_of (sessions r) sid = Some s \<and> resume = sr_resume_token s \<and> now' \<le> sr_resume_expires_at s) \<and>
    (case fst (validate_session_token sid token2 (Some resume) n n' fresh2
                 (sessions (fold ws_apply evs (r\<lparr>sessions := ss'\<rparr>)))) of
       TokenValid accepted _ _ \<Rightarrow> \<not> accepted | _ \<Rightarrow> True)"
proof -
  have "token_spent sid resume ss'"
    using assms(1,2) by (auto simp: token_spent_def validate_session_token_def Let_def update_conv' split: option.splits if_splits)
  then have "token_spent sid resume (sessions (fold ws_apply evs (r\<lparr>sessions := ss'\<rparr>)))"
    using assms(3,4) by (intro spent.holds_run [where used = "{}"]) auto
  then show ?thesis using assms(1)
    by (auto simp: token_spent_def validate_session_token_def Let_def split: option.splits if_splits)
qed

theorem resume_token_single_use_witness:
  "case validate_session_token 1 ''t'' (Some ''r'') 10 10 ''n'' (sessions demo_relay) of (v, ss') \<Rightarrow>
     v = TokenValid True ''n'' (10 + minutes 10) \<and>
     (case fst (validate_session_token 1 ''t'' (Some ''r'') 11 11 ''m''
                 (sessions (fold ws_apply [CloseSocket 1 0, OpenSocket demo_env 1 4 ''k'' 10 10 10 10 RecvEnd]
                    (demo_relay\<lparr>sessions := ss'\<rparr>)))) of
        TokenValid accepted _ _ \<Rightarrow> \<not> accepted | _ \<Rightarrow> True)"
proof -
  obtain ss' where v: "validate_session_token 1 ''t'' (Some ''r'') 10 10 ''n'' (sessions demo_relay) =
      (TokenValid True ''n'' (10 + minutes 10), ss')"
    by (simp add: validate_session_token_def demo_relay_def RESUME_TOKEN_TTL_MINUTES_def Let_def)
  show ?thesis
    using resume_token_single_use [OF v, of "[CloseSocket 1 0, OpenSocket demo_env 1 4 ''k'' 10 10 10 10 RecvEnd]"] v
    by (auto simp: fresh_values_def)
qed

end
