(* ===== verification/Sequencer.thy ===== *)
theory Sequencer
  imports Prelude
begin

text \<open>
  \<open>relay/src/sync/sequencer.rs\<close>: the counters that number the updates of every document, their
  recovery from the database and the batched writes to it.

  The counters are shared between tasks: \<open>next_server_seq\<close> is one atomic increment,
  \<open>seed_counter\<close> a compare-and-exchange loop. The functions below are the operations run alone;
  \<open>seq_step\<close> is the relation of the atomic steps of any number of tasks on one counter in any
  interleaving.
\<close>

section \<open>Data\<close>

record pending_update =
  pu_workspace :: uuid
  pu_doc :: uuid
  pu_client :: uuid
  pu_cuid :: uuid
  pu_payload :: "byte list"

record sequenced_update =
  su_workspace :: uuid
  su_doc :: uuid
  su_seq :: int
  su_client :: uuid
  su_cuid :: uuid
  su_payload :: "byte list"

record snapshot_row =
  sn_workspace :: uuid
  sn_doc :: uuid
  sn_seq :: int
  sn_payload :: "byte list"
  sn_created_at :: timestamp

text \<open>The tables \<open>yjs_update_log\<close> and \<open>yjs_snapshots\<close>; the creation time of a logged update is never read.\<close>

record relay_db =
  update_log :: "sequenced_update list"
  snapshots :: "snapshot_row list"

type_synonym counters = "uuid \<times> uuid \<Rightarrow> int option"

section \<open>Counters\<close>

text \<open>\<open>AtomicI64::fetch_add\<close> wraps around.\<close>

definition wrap_i64 :: "int \<Rightarrow> int" where
  "wrap_i64 x = (x + 2 ^ 63) mod 2 ^ 64 - 2 ^ 63"

definition counter_for_key :: "uuid \<times> uuid \<Rightarrow> counters \<Rightarrow> int \<times> counters" where
  "counter_for_key key cs = (case cs key of Some c \<Rightarrow> (c, cs) | None \<Rightarrow> (0, cs(key \<mapsto> 0)))"

definition next_server_seq :: "uuid \<Rightarrow> uuid \<Rightarrow> counters \<Rightarrow> int \<times> counters" where
  "next_server_seq ws d cs =
     (case counter_for_key (ws, d) cs of (c, cs') \<Rightarrow> (wrap_i64 (c + 1), cs'((ws, d) \<mapsto> wrap_i64 (c + 1))))"

definition seed_counter :: "uuid \<Rightarrow> uuid \<Rightarrow> int \<Rightarrow> counters \<Rightarrow> counters" where
  "seed_counter ws d max_server_seq cs =
     (case counter_for_key (ws, d) cs of
        (c, cs') \<Rightarrow> if max_server_seq > c then cs'((ws, d) \<mapsto> max_server_seq) else cs')"

definition sequence_update :: "pending_update \<Rightarrow> counters \<Rightarrow> sequenced_update \<times> counters" where
  "sequence_update u cs =
     (case next_server_seq (pu_workspace u) (pu_doc u) cs of
        (seq, cs') \<Rightarrow>
          (\<lparr>su_workspace = pu_workspace u, su_doc = pu_doc u, su_seq = seq, su_client = pu_client u,
            su_cuid = pu_cuid u, su_payload = pu_payload u\<rparr>, cs'))"

text \<open>
  The rows of the recovery query: the greatest number of every document over both tables. The
  query has no order; here the documents come in the order of their first row.
\<close>

definition seq_rows :: "relay_db \<Rightarrow> ((uuid \<times> uuid) \<times> int) list" where
  "seq_rows db =
     map (\<lambda>u. ((su_workspace u, su_doc u), su_seq u)) (update_log db) @
     map (\<lambda>s. ((sn_workspace s, sn_doc s), sn_seq s)) (snapshots db)"

definition max_seq_rows :: "relay_db \<Rightarrow> ((uuid \<times> uuid) \<times> int) list" where
  "max_seq_rows db =
     map (\<lambda>key. (key, Max (set (map snd (filter (\<lambda>row. fst row = key) (seq_rows db))))))
       (remdups (map fst (seq_rows db)))"

fun seed_rows :: "((uuid \<times> uuid) \<times> int) list \<Rightarrow> counters \<Rightarrow> counters" where
  "seed_rows [] cs = cs"
| "seed_rows (((ws, d), m) # rows) cs = seed_rows rows (seed_counter ws d m cs)"

definition recover_from_max_server_seq :: "relay_db \<Rightarrow> counters \<Rightarrow> counters" where
  "recover_from_max_server_seq db cs = seed_rows (max_seq_rows db) cs"

text \<open>
  The multi-row insert: a row whose client update is already there, also from an earlier row of
  the batch, is skipped; a row whose number is taken by another update violates the primary key
  and the whole statement is undone.
\<close>

definition same_client_update :: "sequenced_update \<Rightarrow> sequenced_update \<Rightarrow> bool" where
  "same_client_update u v \<longleftrightarrow>
     su_workspace u = su_workspace v \<and> su_doc u = su_doc v \<and> su_client u = su_client v \<and> su_cuid u = su_cuid v"

definition same_number :: "sequenced_update \<Rightarrow> sequenced_update \<Rightarrow> bool" where
  "same_number u v \<longleftrightarrow> su_workspace u = su_workspace v \<and> su_doc u = su_doc v \<and> su_seq u = su_seq v"

fun insert_updates :: "sequenced_update list \<Rightarrow> sequenced_update list \<Rightarrow> sequenced_update list option" where
  "insert_updates [] rows = Some rows"
| "insert_updates (u # us) rows =
     (if list_ex (same_client_update u) rows then insert_updates us rows
      else if list_ex (same_number u) rows then None
      else insert_updates us (rows @ [u]))"

definition flush_batch_to_postgres :: "sequenced_update list \<Rightarrow> relay_db \<Rightarrow> (unit, unit) result \<times> relay_db" where
  "flush_batch_to_postgres us db =
     (if us = [] then (Okay (), db)
      else (case insert_updates us (update_log db) of
              None \<Rightarrow> (Err (), db)
            | Some rows \<Rightarrow> (Okay (), db\<lparr>update_log := rows\<rparr>)))"

section \<open>Tasks on one counter\<close>

text \<open>
  A seeding task first loads the counter, then tries to exchange the value it knows for its own
  as long as that is greater, learning the current value from a failed exchange.
\<close>

datatype seeder =
    SeedLoad int
  | SeedTry int int
  | SeedDone int

fun seed_of :: "seeder \<Rightarrow> int" where
  "seed_of (SeedLoad m) = m"
| "seed_of (SeedTry m _) = m"
| "seed_of (SeedDone m) = m"

text \<open>\<open>issued\<close> records the numbers handed out, latest last.\<close>

record seq_state =
  ctr :: int
  issued :: "int list"
  seeders :: "nat \<Rightarrow> seeder"

inductive seq_step :: "seq_state \<Rightarrow> seq_state \<Rightarrow> bool" where
  fetch_add: "seq_step s (s\<lparr>ctr := wrap_i64 (ctr s + 1), issued := issued s @ [wrap_i64 (ctr s + 1)]\<rparr>)"
| seed_load: "seeders s i = SeedLoad m \<Longrightarrow> seq_step s (s\<lparr>seeders := (seeders s)(i := SeedTry m (ctr s))\<rparr>)"
| cas_ok: "seeders s i = SeedTry m cur \<Longrightarrow> m > cur \<Longrightarrow> ctr s = cur \<Longrightarrow>
    seq_step s (s\<lparr>ctr := m, seeders := (seeders s)(i := SeedDone m)\<rparr>)"
| cas_fail: "seeders s i = SeedTry m cur \<Longrightarrow> m > cur \<Longrightarrow> ctr s \<noteq> cur \<Longrightarrow>
    seq_step s (s\<lparr>seeders := (seeders s)(i := SeedTry m (ctr s))\<rparr>)"
| seed_exit: "seeders s i = SeedTry m cur \<Longrightarrow> \<not> m > cur \<Longrightarrow>
    seq_step s (s\<lparr>seeders := (seeders s)(i := SeedDone m)\<rparr>)"

inductive_cases seq_step_cases: "seq_step s t"

text \<open>Runs in which the counter stays away from the end of the 64-bit range.\<close>

inductive seq_reach :: "seq_state \<Rightarrow> seq_state \<Rightarrow> bool" where
  seq_refl: "seq_reach s s"
| seq_trans: "seq_reach s t \<Longrightarrow> ctr t < i64_max \<Longrightarrow> seq_step t u \<Longrightarrow> seq_reach s u"

definition seq_start :: "int \<Rightarrow> seq_state \<Rightarrow> bool" where
  "seq_start c s \<longleftrightarrow> ctr s = c \<and> issued s = [] \<and> (\<forall>i. \<exists>m. seeders s i = SeedLoad m)"

text \<open>
  The invariant: the numbers handed out ascend and lie between the first and the current value of
  the counter, what a task knows of the counter is not beyond it, and a finished task's number is
  not either.
\<close>

definition seq_inv :: "int \<Rightarrow> seq_state \<Rightarrow> bool" where
  "seq_inv c s \<longleftrightarrow>
     i64_min \<le> ctr s \<and> c \<le> ctr s \<and> sorted_wrt (<) (issued s) \<and> (\<forall>n \<in> set (issued s). c < n \<and> n \<le> ctr s) \<and>
     (\<forall>i m cur. seeders s i = SeedTry m cur \<longrightarrow> cur \<le> ctr s) \<and> (\<forall>i m. seeders s i = SeedDone m \<longrightarrow> m \<le> ctr s)"

lemma wrap_i64_id: "i64_min \<le> x \<Longrightarrow> x \<le> i64_max \<Longrightarrow> wrap_i64 x = x"
  by (simp add: wrap_i64_def i64_min_def i64_max_def)

lemma wrap_i64_suc [simp]: "i64_min \<le> x \<Longrightarrow> x < i64_max \<Longrightarrow> wrap_i64 (x + 1) = x + 1"
  by (rule wrap_i64_id) auto

lemma seq_step_inv:
  assumes "seq_inv c s" "ctr s < i64_max" "seq_step s t"
  shows "seq_inv c t \<and> ctr s \<le> ctr t \<and> (\<exists>new. issued t = issued s @ new \<and> (\<forall>n \<in> set new. ctr s < n))"
  using assms(3)
proof cases
  case fetch_add
  then show ?thesis using assms(1,2) by (fastforce simp: seq_inv_def sorted_wrt_append)
next
  case (cas_ok i m cur)
  then show ?thesis using assms(1) by (fastforce simp: seq_inv_def)
qed (use assms(1) in \<open>fastforce simp: seq_inv_def\<close>)+

lemma seq_reach_inv:
  assumes "seq_reach s t" "seq_inv c s"
  shows "seq_inv c t \<and> ctr s \<le> ctr t \<and> (\<exists>new. issued t = issued s @ new \<and> (\<forall>n \<in> set new. ctr s < n))"
  using assms
proof induction
  case (seq_trans s t u)
  then show ?case using seq_step_inv [of c t u] by fastforce
qed simp

lemma seq_reach_trans: "seq_reach t u \<Longrightarrow> seq_reach s t \<Longrightarrow> seq_reach s u"
  by (induction rule: seq_reach.induct) (auto intro: seq_reach.intros)

text \<open>Seeding alone is the loop run to its end without another task in between.\<close>

lemma seed_counter_alone:
  assumes "seeders s i = SeedLoad m"
  shows "\<exists>t. seq_step\<^sup>*\<^sup>* s t \<and> seeders t i = SeedDone m \<and> ctr t = max m (ctr s) \<and> issued t = issued s"
proof -
  define t where "t = s\<lparr>seeders := (seeders s)(i := SeedTry m (ctr s))\<rparr>"
  have t: "seq_step s t" "seeders t i = SeedTry m (ctr s)" "ctr t = ctr s" "issued t = issued s"
    using seed_load [OF assms] by (simp_all add: t_def)
  show ?thesis
  proof (cases "m > ctr s")
    case True
    with t(2,3) have "seq_step t (t\<lparr>ctr := m, seeders := (seeders t)(i := SeedDone m)\<rparr>)" by (intro cas_ok) auto
    with t(1) have "seq_step\<^sup>*\<^sup>* s (t\<lparr>ctr := m, seeders := (seeders t)(i := SeedDone m)\<rparr>)" by auto
    then show ?thesis using True t(4) by (intro exI conjI) (assumption, auto)
  next
    case False
    with t(2) have "seq_step t (t\<lparr>seeders := (seeders t)(i := SeedDone m)\<rparr>)" by (intro seed_exit) auto
    with t(1) have "seq_step\<^sup>*\<^sup>* s (t\<lparr>seeders := (seeders t)(i := SeedDone m)\<rparr>)" by auto
    then show ?thesis using False t(3,4) by (intro exI conjI) (assumption, auto)
  qed
qed

section \<open>Properties\<close>

text \<open>
  However the tasks on a document's counter are interleaved, the numbers handed out are
  strictly ascending, so pairwise different; and once a task has finished seeding the counter with
  a number, every update numbered from then on gets a greater one.
\<close>

theorem sequence_numbers_ascend:
  assumes "seq_start c s" "i64_min \<le> c" "seq_reach s t" "seq_reach t u"
  shows "sorted_wrt (<) (issued u) \<and>
    (\<exists>new. issued u = issued t @ new \<and> (\<forall>i m. seeders t i = SeedDone m \<longrightarrow> (\<forall>n \<in> set new. m < n)))"
proof -
  have s: "seq_inv c s" using assms(1,2) by (auto simp: seq_inv_def seq_start_def) (metis seeder.distinct)+
  then have t: "seq_inv c t" using seq_reach_inv [OF assms(3)] by blast
  then have "seq_inv c u" and "\<exists>new. issued u = issued t @ new \<and> (\<forall>n \<in> set new. ctr t < n)"
    using seq_reach_inv [OF assms(4)] by blast+
  then show ?thesis using t unfolding seq_inv_def by (metis order_le_less_trans)
qed

theorem sequence_numbers_ascend_witness:
  "\<exists>s t u. seq_start 0 s \<and> seq_reach s t \<and> seq_reach t u \<and> seeders t 0 = SeedDone 4 \<and> issued u = [1, 5] \<and>
    sorted_wrt (<) (issued u) \<and> (\<exists>new. issued u = issued t @ new \<and> (\<forall>n \<in> set new. 4 < n))"
proof -
  define s where "s = \<lparr>ctr = 0, issued = [], seeders = (\<lambda>_. SeedLoad 4)\<rparr>"
  define s1 where "s1 = \<lparr>ctr = 0, issued = [], seeders = (\<lambda>_. SeedLoad 4)(0 := SeedTry 4 0)\<rparr>"
  define s2 where "s2 = \<lparr>ctr = 1, issued = [1], seeders = (\<lambda>_. SeedLoad 4)(0 := SeedTry 4 0)\<rparr>"
  define s3 where "s3 = \<lparr>ctr = 1, issued = [1], seeders = (\<lambda>_. SeedLoad 4)(0 := SeedTry 4 1)\<rparr>"
  define s4 where "s4 = \<lparr>ctr = 4, issued = [1], seeders = (\<lambda>_. SeedLoad 4)(0 := SeedDone 4)\<rparr>"
  define s5 where "s5 = \<lparr>ctr = 5, issued = [1, 5], seeders = (\<lambda>_. SeedLoad 4)(0 := SeedDone 4)\<rparr>"
  note defs = s_def s1_def s2_def s3_def s4_def s5_def
  have "seq_step s s1" "seq_step s1 s2" "seq_step s2 s3" "seq_step s3 s4" "seq_step s4 s5"
    using seed_load [of s 0 4] fetch_add [of s1] cas_fail [of s2 0 4 0] cas_ok [of s3 0 4 1] fetch_add [of s4]
    by (simp_all add: defs wrap_i64_def)
  moreover have "\<forall>x \<in> {s, s1, s2, s3, s4}. ctr x < i64_max" by (simp add: defs i64_max_def)
  ultimately have r: "seq_reach s s4" "seq_reach s4 s5"
    using seq_trans [OF seq_trans [OF seq_trans [OF seq_trans [OF seq_refl]]], of s s1 s2 s3 s4]
      seq_trans [OF seq_refl, of s4 s5] by simp_all
  have start: "seq_start 0 s" by (simp add: seq_start_def s_def)
  have fin: "seeders s4 0 = SeedDone 4" by (simp add: s4_def)
  from sequence_numbers_ascend [OF start _ r] fin
  have "sorted_wrt (<) (issued s5) \<and> (\<exists>new. issued s5 = issued s4 @ new \<and> (\<forall>n \<in> set new. 4 < n))"
    by (auto simp: i64_min_def)
  then show ?thesis using start r fin by (intro exI [of _ s] exI [of _ s4] exI [of _ s5]) (simp add: s5_def)
qed

text \<open>Numbering a batch.\<close>

fun sequence_all :: "pending_update list \<Rightarrow> counters \<Rightarrow> sequenced_update list \<times> counters" where
  "sequence_all [] cs = ([], cs)"
| "sequence_all (u # us) cs =
     (case sequence_update u cs of (v, cs') \<Rightarrow> (case sequence_all us cs' of (vs, cs'') \<Rightarrow> (v # vs, cs'')))"

definition su_key :: "sequenced_update \<Rightarrow> uuid \<times> uuid" where
  "su_key u = (su_workspace u, su_doc u)"

definition counter :: "counters \<Rightarrow> uuid \<times> uuid \<Rightarrow> int" where
  "counter cs key = (case cs key of Some c \<Rightarrow> c | None \<Rightarrow> 0)"

lemma counter_seed: "counter (seed_counter ws d m cs) key = (if key = (ws, d) then max m (counter cs key) else counter cs key)"
  by (auto simp: counter_def seed_counter_def counter_for_key_def split: option.splits)

lemma counter_seed_rows_mono: "counter cs key \<le> counter (seed_rows rows cs) key"
proof (induction rows cs rule: seed_rows.induct)
  case (2 ws d m rows cs)
  then show ?case by (auto simp: counter_seed intro: order_trans split: if_splits)
qed simp

lemma counter_seed_rows: "(key, m) \<in> set rows \<Longrightarrow> m \<le> counter (seed_rows rows cs) key"
proof (induction rows cs rule: seed_rows.induct)
  case (2 ws d m' rows cs)
  have "m' \<le> counter (seed_rows rows (seed_counter ws d m' cs)) (ws, d)"
    by (rule order_trans [OF _ counter_seed_rows_mono]) (simp add: counter_seed)
  then show ?case using 2 by auto
qed simp

lemma recover_covers: "(key, n) \<in> set (seq_rows db) \<Longrightarrow> n \<le> counter (recover_from_max_server_seq db cs) key"
proof -
  assume a: "(key, n) \<in> set (seq_rows db)"
  let ?m = "Max (set (map snd (filter (\<lambda>row. fst row = key) (seq_rows db))))"
  have "n \<le> ?m" using a by (intro Max_ge) force+
  moreover have "(key, ?m) \<in> set (max_seq_rows db)" using a by (force simp: max_seq_rows_def)
  ultimately show ?thesis
    unfolding recover_from_max_server_seq_def by (meson counter_seed_rows order_trans)
qed

lemma counter_seed_rows_le:
  "counter cs key \<le> b \<Longrightarrow> (\<And>m. (key, m) \<in> set rows \<Longrightarrow> m \<le> b) \<Longrightarrow> counter (seed_rows rows cs) key \<le> b"
proof (induction rows cs rule: seed_rows.induct)
  case (2 ws d m rows cs)
  have "counter (seed_counter ws d m cs) key \<le> b" using 2(2) 2(3) [of m] by (auto simp: counter_seed)
  then show ?case using 2(1) 2(3) by simp
qed simp

lemma recover_le:
  "(\<And>n. (key, n) \<in> set (seq_rows db) \<Longrightarrow> n \<le> b) \<Longrightarrow> counter cs key \<le> b \<Longrightarrow>
   counter (recover_from_max_server_seq db cs) key \<le> b"
  unfolding recover_from_max_server_seq_def
proof (rule counter_seed_rows_le)
  fix m assume b: "\<And>n. (key, n) \<in> set (seq_rows db) \<Longrightarrow> n \<le> b" and m: "(key, m) \<in> set (max_seq_rows db)"
  then have k: "key \<in> set (map fst (seq_rows db))"
    and m': "m = Max (set (map snd (filter (\<lambda>row. fst row = key) (seq_rows db))))" by (auto simp: max_seq_rows_def)
  from k have "m \<in> set (map snd (filter (\<lambda>row. fst row = key) (seq_rows db)))"
    unfolding m' by (intro Max_in) (auto simp: filter_empty_conv)
  then show "m \<le> b" using b by auto
qed auto

lemma sequence_update_counter:
  assumes "sequence_update u cs = (v, cs')" "0 \<le> counter cs (pu_workspace u, pu_doc u)"
    and "counter cs (pu_workspace u, pu_doc u) < i64_max"
  shows "su_key v = (pu_workspace u, pu_doc u)" "su_client v = pu_client u" "su_cuid v = pu_cuid u"
    "su_payload v = pu_payload u" "su_seq v = counter cs (su_key v) + 1"
    "counter cs' = (counter cs)(su_key v := su_seq v)"
proof -
  have w: "wrap_i64 (counter cs (pu_workspace u, pu_doc u) + 1) = counter cs (pu_workspace u, pu_doc u) + 1"
    using assms(2,3) by (intro wrap_i64_suc) (auto simp: i64_min_def)
  show "su_key v = (pu_workspace u, pu_doc u)" "su_client v = pu_client u" "su_cuid v = pu_cuid u"
    "su_payload v = pu_payload u" "su_seq v = counter cs (su_key v) + 1"
    "counter cs' = (counter cs)(su_key v := su_seq v)"
    using assms(1) w
    by (auto simp: sequence_update_def next_server_seq_def counter_for_key_def counter_def su_key_def
        split: option.splits prod.splits)
qed

lemma sequence_all_numbers:
  assumes "sequence_all us cs = (vs, cs')"
    and "\<And>key. 0 \<le> counter cs key" "\<And>key. counter cs key + int (length us) \<le> i64_max"
  shows "map (\<lambda>v. (su_key v, su_client v, su_cuid v, su_payload v)) vs =
           map (\<lambda>u. ((pu_workspace u, pu_doc u), pu_client u, pu_cuid u, pu_payload u)) us"
    and "\<forall>v \<in> set vs. counter cs (su_key v) < su_seq v"
    and "sorted_wrt (\<lambda>v w. su_key v = su_key w \<longrightarrow> su_seq v < su_seq w) vs"
proof -
  have "map (\<lambda>v. (su_key v, su_client v, su_cuid v, su_payload v)) vs =
           map (\<lambda>u. ((pu_workspace u, pu_doc u), pu_client u, pu_cuid u, pu_payload u)) us \<and>
     (\<forall>v \<in> set vs. counter cs (su_key v) < su_seq v) \<and>
     sorted_wrt (\<lambda>v w. su_key v = su_key w \<longrightarrow> su_seq v < su_seq w) vs"
    using assms
  proof (induction us arbitrary: cs vs)
    case (Cons u us)
    obtain v cs1 where v: "sequence_update u cs = (v, cs1)" by force
    obtain ws cs2 where ws: "sequence_all us cs1 = (ws, cs2)" by force
    have vs: "vs = v # ws" "cs2 = cs'" using Cons.prems(1) v ws by auto
    have lt: "counter cs (pu_workspace u, pu_doc u) < i64_max" 
      using Cons.prems(3) [of "(pu_workspace u, pu_doc u)"] by simp
    note c = sequence_update_counter [OF v Cons.prems(2) lt]
    have pos: "0 \<le> counter cs1 key" for key using Cons.prems(2) by (simp add: c(5,6) add_nonneg_nonneg)
    have up: "counter cs1 key + int (length us) \<le> i64_max" for key
      using Cons.prems(3) [of key] by (auto simp: c(5,6))
    have ih: "map (\<lambda>v. (su_key v, su_client v, su_cuid v, su_payload v)) ws =
           map (\<lambda>u. ((pu_workspace u, pu_doc u), pu_client u, pu_cuid u, pu_payload u)) us"
       "\<forall>w \<in> set ws. counter cs1 (su_key w) < su_seq w"
       "sorted_wrt (\<lambda>v w. su_key v = su_key w \<longrightarrow> su_seq v < su_seq w) ws"
      using Cons.IH [of cs1 ws] ws vs(2) pos up by auto
    have "counter cs key \<le> counter cs1 key" for key by (simp add: c(6) c(5))
    then have "\<forall>w \<in> set ws. counter cs (su_key w) < su_seq w" using ih(2) order_le_less_trans by blast
    moreover have "\<forall>w \<in> set ws. su_key v = su_key w \<longrightarrow> su_seq v < su_seq w"
      using ih(2) unfolding c(6) by (metis fun_upd_same)
    moreover have "counter cs (su_key v) < su_seq v" using c(5) by simp
    ultimately show ?case using ih(1,3) vs(1) c(1-4) by simp
  qed simp
  then show "map (\<lambda>v. (su_key v, su_client v, su_cuid v, su_payload v)) vs =
           map (\<lambda>u. ((pu_workspace u, pu_doc u), pu_client u, pu_cuid u, pu_payload u)) us"
    and "\<forall>v \<in> set vs. counter cs (su_key v) < su_seq v"
    and "sorted_wrt (\<lambda>v w. su_key v = su_key w \<longrightarrow> su_seq v < su_seq w) vs" by blast+
qed

lemma insert_updates_fresh:
  assumes "\<forall>u \<in> set us. \<forall>r \<in> set rows. su_key r = su_key u \<longrightarrow> su_seq r < su_seq u"
    and "sorted_wrt (\<lambda>v w. su_key v = su_key w \<longrightarrow> su_seq v < su_seq w) us"
  shows "\<exists>new. insert_updates us rows = Some (rows @ new) \<and> set new \<subseteq> set us \<and>
    (\<forall>u \<in> set us. \<exists>r \<in> set (rows @ new). same_client_update u r)"
  using assms
proof (induction us arbitrary: rows)
  case (Cons u us)
  have nn: "\<not> list_ex (same_number u) rows"
    using Cons.prems(1) by (fastforce simp: list_ex_iff same_number_def su_key_def)
  show ?case
  proof (cases "list_ex (same_client_update u) rows")
    case True
    then obtain new where "insert_updates us rows = Some (rows @ new)" "set new \<subseteq> set us"
      "\<forall>u \<in> set us. \<exists>r \<in> set (rows @ new). same_client_update u r"
      using Cons.IH [of rows] Cons.prems by auto
    then show ?thesis using True by (auto simp: list_ex_iff)
  next
    case False
    obtain new where new: "insert_updates us (rows @ [u]) = Some ((rows @ [u]) @ new)" "set new \<subseteq> set us"
      "\<forall>u' \<in> set us. \<exists>r \<in> set ((rows @ [u]) @ new). same_client_update u' r"
      using Cons.IH [of "rows @ [u]"] Cons.prems by auto
    have "same_client_update u u" by (simp add: same_client_update_def)
    then show ?thesis using False nn new by (intro exI [of _ "u # new"]) auto
  qed
qed auto

text \<open>
  A restart keeps the numbering. When the counters of a fresh process are recovered from the
  database and a batch of pending updates is numbered and written, the write succeeds: no number
  collides with one that is stored, no stored update is lost, and every update of the batch is in
  the log afterwards, stored by this batch or before.
\<close>

theorem restart_keeps_numbering:
  assumes "\<forall>(key, n) \<in> set (seq_rows db). n + int (length us) \<le> i64_max"
    and "int (length us) \<le> i64_max"
    and "sequence_all us (recover_from_max_server_seq db Map.empty) = (vs, cs)"
  shows "\<exists>new. flush_batch_to_postgres vs db = (Okay (), db\<lparr>update_log := update_log db @ new\<rparr>) \<and> set new \<subseteq> set vs \<and>
    (\<forall>r \<in> set (update_log db). \<forall>v \<in> set vs. su_key r = su_key v \<longrightarrow> su_seq r < su_seq v) \<and>
    (\<forall>u \<in> set us. \<exists>r \<in> set (update_log db @ new).
       su_key r = (pu_workspace u, pu_doc u) \<and> su_client r = pu_client u \<and> su_cuid r = pu_cuid u)"
proof -
  let ?cs = "recover_from_max_server_seq db Map.empty"
  have pos: "0 \<le> counter ?cs key" for key
    using counter_seed_rows_mono [of Map.empty key] by (simp add: recover_from_max_server_seq_def counter_def)
  have "counter ?cs key \<le> i64_max - int (length us)" for key
    using assms(1,2) by (intro recover_le) (auto simp: counter_def)
  then have up: "counter ?cs key + int (length us) \<le> i64_max" for key by (simp add: le_diff_eq)
  note n = sequence_all_numbers [OF assms(3) pos up]
  have less: "\<forall>v \<in> set vs. \<forall>r \<in> set (update_log db). su_key r = su_key v \<longrightarrow> su_seq r < su_seq v"
  proof (intro ballI impI)
    fix v r assume v: "v \<in> set vs" and r: "r \<in> set (update_log db)" and k: "su_key r = su_key v"
    from r have "(su_key r, su_seq r) \<in> set (seq_rows db)" by (force simp: seq_rows_def su_key_def)
    from recover_covers [OF this] show "su_seq r < su_seq v" using n(2) v k by (metis order_le_less_trans)
  qed
  obtain new where new: "insert_updates vs (update_log db) = Some (update_log db @ new)" "set new \<subseteq> set vs"
    "\<forall>v \<in> set vs. \<exists>r \<in> set (update_log db @ new). same_client_update v r"
    using insert_updates_fresh [OF less n(3)] by auto
  have flush: "flush_batch_to_postgres vs db = (Okay (), db\<lparr>update_log := update_log db @ new\<rparr>)"
    using new(1,2) by (auto simp: flush_batch_to_postgres_def)
  have "\<exists>r \<in> set (update_log db @ new).
       su_key r = (pu_workspace u, pu_doc u) \<and> su_client r = pu_client u \<and> su_cuid r = pu_cuid u" if "u \<in> set us" for u
  proof -
    have "((pu_workspace u, pu_doc u), pu_client u, pu_cuid u, pu_payload u) \<in>
        set (map (\<lambda>v. (su_key v, su_client v, su_cuid v, su_payload v)) vs)"
      unfolding n(1) using that by force
    then show ?thesis using new(3) by (fastforce simp: same_client_update_def su_key_def)
  qed
  then show ?thesis using flush new(2) less by blast
qed

definition demo_db :: relay_db where
  "demo_db = \<lparr>update_log = [\<lparr>su_workspace = 1, su_doc = 2, su_seq = 7, su_client = 3, su_cuid = 4, su_payload = []\<rparr>],
              snapshots = [\<lparr>sn_workspace = 1, sn_doc = 2, sn_seq = 5, sn_payload = [], sn_created_at = 0\<rparr>]\<rparr>"

definition demo_pending :: "uuid \<Rightarrow> pending_update" where
  "demo_pending cuid = \<lparr>pu_workspace = 1, pu_doc = 2, pu_client = 3, pu_cuid = cuid, pu_payload = [9]\<rparr>"

theorem restart_keeps_numbering_witness:
  "case sequence_all [demo_pending 4, demo_pending 5] (recover_from_max_server_seq demo_db Map.empty) of (vs, _) \<Rightarrow>
     map su_seq vs = [8, 9] \<and> (\<exists>new. fst (flush_batch_to_postgres vs demo_db) = Okay () \<and> set new \<subseteq> set vs)"
proof -
  let ?us = "[demo_pending 4, demo_pending 5]"
  obtain vs cs where v: "sequence_all ?us (recover_from_max_server_seq demo_db Map.empty) = (vs, cs)" by force
  have "\<exists>new. flush_batch_to_postgres vs demo_db = (Okay (), demo_db\<lparr>update_log := update_log demo_db @ new\<rparr>) \<and> set new \<subseteq> set vs"
    using restart_keeps_numbering [OF _ _ v] by (simp add: demo_db_def seq_rows_def i64_max_def) blast
  moreover have "map su_seq vs = [8, 9]"
    using v by (auto simp: demo_db_def demo_pending_def recover_from_max_server_seq_def max_seq_rows_def seq_rows_def
        seed_counter_def counter_for_key_def sequence_update_def next_server_seq_def wrap_i64_def)
  ultimately show ?thesis using v by auto
qed

end
