(* ===== verification/RelayStore.thy ===== *)
theory RelayStore
  imports Sequencer "HOL-Library.AList"
begin

text \<open>
  \<open>relay/src/sync/snapshot.rs\<close> and \<open>relay/src/sync/doc_manager.rs\<close>: when the relay takes
  snapshots, how it compacts the two tables, how it rebuilds a document from them, and the
  documents it keeps loaded. The CRDT (\<open>yrs\<close>) is a parameter: \<open>new\<close> is the empty document and
  \<open>apply payload doc\<close> decodes and applies an update, \<open>None\<close> when either fails. The object store
  is the parameter \<open>put\<close>. The database is the pair of tables; its own failures are left out.
\<close>

section \<open>When to take a snapshot\<close>

definition SNAPSHOT_INTERVAL_UPDATES :: int where "SNAPSHOT_INTERVAL_UPDATES = 1000"
definition SNAPSHOT_INTERVAL_MINUTES :: int where "SNAPSHOT_INTERVAL_MINUTES = 10"
definition SNAPSHOT_RETAIN_COUNT :: nat where "SNAPSHOT_RETAIN_COUNT = 2"
definition DEFAULT_LARGE_SNAPSHOT_THRESHOLD_BYTES :: nat where
  "DEFAULT_LARGE_SNAPSHOT_THRESHOLD_BYTES = 256 * 1024"

record snapshot_policy =
  interval_updates :: int
  interval :: int

definition default_policy :: snapshot_policy where
  "default_policy = \<lparr>interval_updates = SNAPSHOT_INTERVAL_UPDATES,
                     interval = SNAPSHOT_INTERVAL_MINUTES * 60 * 1000000000\<rparr>"

text \<open>
  \<open>chrono::Duration::from_std\<close> fails on intervals beyond \<open>i64::MAX\<close> milliseconds.
\<close>

definition policy_should_snapshot :: "snapshot_policy \<Rightarrow> int \<Rightarrow> int \<Rightarrow> timestamp \<Rightarrow> timestamp \<Rightarrow> bool" where
  "policy_should_snapshot p last_snapshot_seq current_seq last_snapshot_at now =
     (if current_seq \<le> last_snapshot_seq then False
      else if sat_i64 (current_seq - last_snapshot_seq) \<ge> interval_updates p then True
      else if interval p > i64_max * 1000000 then False
      else now - last_snapshot_at \<ge> interval p)"

record compactor_config =
  policy :: snapshot_policy
  retain_snapshots :: nat
  large_snapshot_threshold_bytes :: nat

definition default_config :: compactor_config where
  "default_config = \<lparr>policy = default_policy, retain_snapshots = SNAPSHOT_RETAIN_COUNT,
                     large_snapshot_threshold_bytes = DEFAULT_LARGE_SNAPSHOT_THRESHOLD_BYTES\<rparr>"

section \<open>Compaction\<close>

record snapshot_candidate =
  cand_workspace :: uuid
  cand_doc :: uuid
  cand_seq :: int
  cand_payload :: "byte list"
  cand_now :: timestamp

datatype skip_reason = StaleSequence | PolicyNotSatisfied

record persist_outcome =
  po_seq :: int
  po_uploaded :: bool
  po_deleted_snapshots :: nat
  po_deleted_updates :: nat

datatype write_result = Skipped skip_reason | Persisted persist_outcome

record compaction_plan =
  delete_snapshots_below_seq :: "int option"
  delete_updates_at_or_below_seq :: "int option"

definition build_compaction_plan :: "int list \<Rightarrow> nat \<Rightarrow> compaction_plan" where
  "build_compaction_plan seqs retain =
     (if seqs = [] then \<lparr>delete_snapshots_below_seq = None, delete_updates_at_or_below_seq = None\<rparr>
      else
        let sorted_desc = rev (sort seqs);
            retain_count = max retain 1;
            oldest_retained = sorted_desc ! min (retain_count - 1) (length sorted_desc - 1)
        in \<lparr>delete_snapshots_below_seq = Some oldest_retained,
            delete_updates_at_or_below_seq =
              (if length sorted_desc \<ge> retain_count then Some oldest_retained else None)\<rparr>)"

definition of_doc :: "uuid \<Rightarrow> uuid \<Rightarrow> snapshot_row \<Rightarrow> bool" where
  "of_doc ws d s \<longleftrightarrow> sn_workspace s = ws \<and> sn_doc s = d"

definition logged_for :: "uuid \<Rightarrow> uuid \<Rightarrow> sequenced_update \<Rightarrow> bool" where
  "logged_for ws d u \<longleftrightarrow> su_workspace u = ws \<and> su_doc u = d"

text \<open>The rows of \<open>ORDER BY snapshot_seq DESC\<close>.\<close>

definition snapshots_desc :: "uuid \<Rightarrow> uuid \<Rightarrow> relay_db \<Rightarrow> snapshot_row list" where
  "snapshots_desc ws d db = rev (sort_key sn_seq (filter (of_doc ws d) (snapshots db)))"

definition should_upload_to_object_store :: "compactor_config \<Rightarrow> bool \<Rightarrow> nat \<Rightarrow> bool" where
  "should_upload_to_object_store cfg has_store payload_len \<longleftrightarrow>
     has_store \<and> payload_len \<ge> large_snapshot_threshold_bytes cfg"

definition snapshot_object_storage_key :: "(uuid \<Rightarrow> string) \<Rightarrow> (int \<Rightarrow> string) \<Rightarrow> uuid \<Rightarrow> uuid \<Rightarrow> int \<Rightarrow> string" where
  "snapshot_object_storage_key show_uuid show_int ws d seq =
     show_uuid ws @ ''/'' @ show_uuid d @ ''/'' @ show_int seq @ ''.snap''"

text \<open>\<open>INSERT ... ON CONFLICT DO NOTHING\<close> with the database's clock for the creation time.\<close>

definition insert_snapshot :: "timestamp \<Rightarrow> snapshot_candidate \<Rightarrow> relay_db \<Rightarrow> relay_db" where
  "insert_snapshot db_now c db =
     (if list_ex (\<lambda>s. of_doc (cand_workspace c) (cand_doc c) s \<and> sn_seq s = cand_seq c) (snapshots db) then db
      else db\<lparr>snapshots := snapshots db @
             [\<lparr>sn_workspace = cand_workspace c, sn_doc = cand_doc c, sn_seq = cand_seq c,
               sn_payload = cand_payload c, sn_created_at = db_now\<rparr>]\<rparr>)"

definition delete_snapshots :: "uuid \<Rightarrow> uuid \<Rightarrow> int option \<Rightarrow> relay_db \<Rightarrow> nat \<times> relay_db" where
  "delete_snapshots ws d below db =
     (case below of
        None \<Rightarrow> (0, db)
      | Some b \<Rightarrow>
          (length (filter (\<lambda>s. of_doc ws d s \<and> sn_seq s < b) (snapshots db)),
           db\<lparr>snapshots := filter (\<lambda>s. \<not> (of_doc ws d s \<and> sn_seq s < b)) (snapshots db)\<rparr>))"

definition delete_updates :: "uuid \<Rightarrow> uuid \<Rightarrow> int option \<Rightarrow> relay_db \<Rightarrow> nat \<times> relay_db" where
  "delete_updates ws d at_or_below db =
     (case at_or_below of
        None \<Rightarrow> (0, db)
      | Some b \<Rightarrow>
          (length (filter (\<lambda>u. logged_for ws d u \<and> su_seq u \<le> b) (update_log db)),
           db\<lparr>update_log := filter (\<lambda>u. \<not> (logged_for ws d u \<and> su_seq u \<le> b)) (update_log db)\<rparr>))"

text \<open>The transaction: insert, read the retained snapshots, delete what the plan says.\<close>

definition compaction_tx :: "compactor_config \<Rightarrow> timestamp \<Rightarrow> snapshot_candidate \<Rightarrow> relay_db \<Rightarrow> nat \<times> nat \<times> relay_db" where
  "compaction_tx cfg db_now c db =
     (let ws = cand_workspace c; d = cand_doc c;
          db1 = insert_snapshot db_now c db;
          retain_limit = min (max (retain_snapshots cfg) 1) (nat i64_max);
          snapshot_seqs = map sn_seq (take retain_limit (snapshots_desc ws d db1));
          plan = build_compaction_plan snapshot_seqs (retain_snapshots cfg);
          (deleted_snapshots, db2) = delete_snapshots ws d (delete_snapshots_below_seq plan) db1;
          (deleted_updates, db3) = delete_updates ws d (delete_updates_at_or_below_seq plan) db2
      in (deleted_snapshots, deleted_updates, db3))"

definition maybe_snapshot_and_compact ::
  "compactor_config \<Rightarrow> (string \<Rightarrow> byte list \<Rightarrow> bool) option \<Rightarrow> (uuid \<Rightarrow> string) \<Rightarrow> (int \<Rightarrow> string) \<Rightarrow> timestamp \<Rightarrow>
   snapshot_candidate \<Rightarrow> relay_db \<Rightarrow> (unit, write_result) result \<times> relay_db" where
  "maybe_snapshot_and_compact cfg put show_uuid show_int db_now c db =
     (let persist =
        (let uploaded = should_upload_to_object_store cfg (put \<noteq> None) (length (cand_payload c));
             stored = (case put of
                         Some p \<Rightarrow> uploaded \<longrightarrow>
                           p (snapshot_object_storage_key show_uuid show_int (cand_workspace c) (cand_doc c) (cand_seq c))
                             (cand_payload c)
                       | None \<Rightarrow> True)
         in if \<not> stored then (Err (), db)
            else (case compaction_tx cfg db_now c db of
                    (ns, nu, db') \<Rightarrow>
                      (Okay (Persisted \<lparr>po_seq = cand_seq c, po_uploaded = uploaded,
                                       po_deleted_snapshots = ns, po_deleted_updates = nu\<rparr>), db')))
      in (case snapshots_desc (cand_workspace c) (cand_doc c) db of
            [] \<Rightarrow> persist
          | latest # _ \<Rightarrow>
              if cand_seq c \<le> sn_seq latest then (Okay (Skipped StaleSequence), db)
              else if \<not> policy_should_snapshot (policy cfg) (sn_seq latest) (cand_seq c)
                           (sn_created_at latest) (cand_now c)
              then (Okay (Skipped PolicyNotSatisfied), db)
              else persist))"

section \<open>Loading a document\<close>

record doc_history =
  history_snapshot :: "(int \<times> byte list) option"
  history_updates :: "(int \<times> byte list) list"

datatype doc_manager_error =
    InvalidSnapshotPayload uuid uuid int
  | InvalidUpdatePayload uuid uuid int
  | DocumentNotLoaded uuid uuid
  | BaseServerSeqAhead int int
  | NonMonotonicServerSeq int int

definition load_doc_history :: "uuid \<Rightarrow> uuid \<Rightarrow> relay_db \<Rightarrow> doc_history" where
  "load_doc_history ws d db =
     (let snapshot = (case snapshots_desc ws d db of [] \<Rightarrow> None | s # _ \<Rightarrow> Some (sn_seq s, sn_payload s));
          min_server_seq = (case snapshot of Some (seq, _) \<Rightarrow> seq | None \<Rightarrow> 0)
      in \<lparr>history_snapshot = snapshot,
          history_updates =
            map (\<lambda>u. (su_seq u, su_payload u))
              (sort_key su_seq (filter (\<lambda>u. logged_for ws d u \<and> su_seq u > min_server_seq) (update_log db)))\<rparr>)"

fun hydrate_loop ::
  "(byte list \<Rightarrow> 'd \<Rightarrow> 'd option) \<Rightarrow> uuid \<Rightarrow> uuid \<Rightarrow> (int \<times> byte list) list \<Rightarrow> 'd \<times> int \<Rightarrow>
   (doc_manager_error, 'd \<times> int) result" where
  "hydrate_loop apply ws d [] (doc, head) = Okay (doc, head)"
| "hydrate_loop apply ws d ((seq, payload) # us) (doc, head) =
     (if seq \<le> head then hydrate_loop apply ws d us (doc, head)
      else (case apply payload doc of
              None \<Rightarrow> Err (InvalidUpdatePayload ws d seq)
            | Some doc' \<Rightarrow> hydrate_loop apply ws d us (doc', seq)))"

definition hydrate_document ::
  "'d \<Rightarrow> (byte list \<Rightarrow> 'd \<Rightarrow> 'd option) \<Rightarrow> uuid \<Rightarrow> uuid \<Rightarrow> doc_history \<Rightarrow> (doc_manager_error, 'd \<times> int) result" where
  "hydrate_document new apply ws d h =
     (case (case history_snapshot h of
              None \<Rightarrow> Okay (new, 0)
            | Some (seq, payload) \<Rightarrow>
                (case apply payload new of
                   None \<Rightarrow> Err (InvalidSnapshotPayload ws d seq)
                 | Some doc \<Rightarrow> Okay (doc, seq))) of
        Inl e \<Rightarrow> Err e
      | Inr st \<Rightarrow> hydrate_loop apply ws d (sort_key fst (history_updates h)) st)"

section \<open>Loaded documents\<close>

record 'd loaded_doc =
  ld_doc :: 'd
  ld_head :: int
  ld_subscribers :: nat
  ld_last_touched :: timestamp

type_synonym 'd relay_docs = "((uuid \<times> uuid) \<times> 'd loaded_doc) list"

definition DEFAULT_INACTIVE_AFTER :: int where "DEFAULT_INACTIVE_AFTER = 300 * 1000000000"

text \<open>The first critical section of \<open>subscribe\<close> and the entry of the second one that finds a document.\<close>

definition touch_subscribed :: "timestamp \<Rightarrow> uuid \<times> uuid \<Rightarrow> 'd relay_docs \<Rightarrow> (int \<times> 'd relay_docs) option" where
  "touch_subscribed now key docs =
     (case map_of docs key of
        None \<Rightarrow> None
      | Some l \<Rightarrow>
          Some (ld_head l, AList.update key (l\<lparr>ld_subscribers := ld_subscribers l + 1, ld_last_touched := now\<rparr>) docs))"

text \<open>The second critical section, entered with the hydrated document; \<open>docs\<close> may have changed meanwhile.\<close>

definition insert_hydrated :: "timestamp \<Rightarrow> uuid \<times> uuid \<Rightarrow> 'd \<times> int \<Rightarrow> 'd relay_docs \<Rightarrow> int \<times> 'd relay_docs" where
  "insert_hydrated now key hydrated docs =
     (case touch_subscribed now key docs of
        Some r \<Rightarrow> r
      | None \<Rightarrow>
          (snd hydrated,
           AList.update key \<lparr>ld_doc = fst hydrated, ld_head = snd hydrated, ld_subscribers = 1, ld_last_touched = now\<rparr> docs))"

definition subscribe ::
  "'d \<Rightarrow> (byte list \<Rightarrow> 'd \<Rightarrow> 'd option) \<Rightarrow> timestamp \<Rightarrow> uuid \<Rightarrow> uuid \<Rightarrow> doc_history \<Rightarrow> 'd relay_docs \<Rightarrow>
   (doc_manager_error, int) result \<times> 'd relay_docs" where
  "subscribe new apply now ws d h docs =
     (case touch_subscribed now (ws, d) docs of
        Some (head, docs') \<Rightarrow> (Okay head, docs')
      | None \<Rightarrow>
          (case hydrate_document new apply ws d h of
             Inl e \<Rightarrow> (Err e, docs)
           | Inr hydrated \<Rightarrow>
               (case insert_hydrated now (ws, d) hydrated docs of (head, docs') \<Rightarrow> (Okay head, docs'))))"

definition unsubscribe :: "timestamp \<Rightarrow> uuid \<Rightarrow> uuid \<Rightarrow> 'd relay_docs \<Rightarrow> bool \<times> 'd relay_docs" where
  "unsubscribe now ws d docs =
     (case map_of docs (ws, d) of
        None \<Rightarrow> (False, docs)
      | Some l \<Rightarrow>
          (True, AList.update (ws, d) (l\<lparr>ld_subscribers := ld_subscribers l - 1, ld_last_touched := now\<rparr>) docs))"

definition apply_sequenced_update ::
  "(byte list \<Rightarrow> 'd \<Rightarrow> 'd option) \<Rightarrow> timestamp \<Rightarrow> uuid \<Rightarrow> uuid \<Rightarrow> int \<Rightarrow> int \<Rightarrow> byte list \<Rightarrow> 'd relay_docs \<Rightarrow>
   (doc_manager_error, unit) result \<times> 'd relay_docs" where
  "apply_sequenced_update apply now ws d base seq payload docs =
     (case map_of docs (ws, d) of
        None \<Rightarrow> (Err (DocumentNotLoaded ws d), docs)
      | Some l \<Rightarrow>
          if base > ld_head l then (Err (BaseServerSeqAhead base (ld_head l)), docs)
          else if seq \<le> ld_head l then (Err (NonMonotonicServerSeq seq (ld_head l)), docs)
          else (case apply payload (ld_doc l) of
                  None \<Rightarrow> (Err (InvalidUpdatePayload ws d seq), docs)
                | Some doc \<Rightarrow>
                    (Okay (), AList.update (ws, d) (l\<lparr>ld_doc := doc, ld_head := seq, ld_last_touched := now\<rparr>) docs)))"

text \<open>The documents that stay, and which keys are reported.\<close>

definition is_inactive :: "int \<Rightarrow> timestamp \<Rightarrow> 'd loaded_doc \<Rightarrow> bool" where
  "is_inactive inactive_after now l \<longleftrightarrow> ld_subscribers l = 0 \<and> max 0 (now - ld_last_touched l) \<ge> inactive_after"

definition unload_inactive :: "int \<Rightarrow> timestamp \<Rightarrow> 'd relay_docs \<Rightarrow> (uuid \<times> uuid) list \<times> 'd relay_docs" where
  "unload_inactive inactive_after now docs =
     (map fst (filter (\<lambda>(key, l). is_inactive inactive_after now l) docs),
      filter (\<lambda>(key, l). \<not> is_inactive inactive_after now l) docs)"

definition doc_head_server_seq :: "uuid \<Rightarrow> uuid \<Rightarrow> 'd relay_docs \<Rightarrow> int option" where
  "doc_head_server_seq ws d docs = map_option ld_head (map_of docs (ws, d))"

definition text_content :: "('d \<Rightarrow> string \<Rightarrow> string) \<Rightarrow> uuid \<Rightarrow> uuid \<Rightarrow> string \<Rightarrow> 'd relay_docs \<Rightarrow> string option" where
  "text_content get_string ws d text_name docs = map_option (\<lambda>l. get_string (ld_doc l) text_name) (map_of docs (ws, d))"

section \<open>What the tables stand for\<close>

text \<open>Applying payloads one after the other.\<close>

fun replay :: "(byte list \<Rightarrow> 'd \<Rightarrow> 'd option) \<Rightarrow> (int \<times> byte list) list \<Rightarrow> 'd \<Rightarrow> 'd option" where
  "replay apply [] doc = Some doc"
| "replay apply (u # us) doc = (case apply (snd u) doc of None \<Rightarrow> None | Some doc' \<Rightarrow> replay apply us doc')"

text \<open>A history: all numbered updates of a document since its creation, every one of which applies.\<close>

definition history_ok :: "(byte list \<Rightarrow> 'd \<Rightarrow> 'd option) \<Rightarrow> 'd \<Rightarrow> (int \<times> byte list) list \<Rightarrow> bool" where
  "history_ok apply new hist \<longleftrightarrow>
     sorted_wrt (<) (map fst hist) \<and> (\<forall>u \<in> set hist. 0 < fst u) \<and> replay apply hist new \<noteq> None"

definition head_of :: "(int \<times> byte list) list \<Rightarrow> int" where
  "head_of hist = last (0 # map fst hist)"

text \<open>A snapshot's payload turns the empty document into the state after the updates up to its number.\<close>

definition snapshot_valid :: "(byte list \<Rightarrow> 'd \<Rightarrow> 'd option) \<Rightarrow> 'd \<Rightarrow> (int \<times> byte list) list \<Rightarrow> int \<Rightarrow> byte list \<Rightarrow> bool" where
  "snapshot_valid apply new hist seq payload \<longleftrightarrow>
     seq \<in> fst ` set hist \<and> apply payload new = replay apply (filter (\<lambda>u. fst u \<le> seq) hist) new"

definition log_entries :: "uuid \<Rightarrow> uuid \<Rightarrow> relay_db \<Rightarrow> (int \<times> byte list) list" where
  "log_entries ws d db = map (\<lambda>u. (su_seq u, su_payload u)) (filter (logged_for ws d) (update_log db))"

text \<open>
  The tables store a history: numbers are unique, snapshots are valid, logged updates are of the
  history, and what is missing from the log is covered by every snapshot, of which there is one.
\<close>

definition doc_stored ::
  "(byte list \<Rightarrow> 'd \<Rightarrow> 'd option) \<Rightarrow> 'd \<Rightarrow> (int \<times> byte list) list \<Rightarrow> uuid \<Rightarrow> uuid \<Rightarrow> relay_db \<Rightarrow> bool" where
  "doc_stored apply new hist ws d db \<longleftrightarrow>
     history_ok apply new hist \<and>
     distinct (map sn_seq (filter (of_doc ws d) (snapshots db))) \<and>
     (\<forall>s \<in> set (snapshots db). of_doc ws d s \<longrightarrow> snapshot_valid apply new hist (sn_seq s) (sn_payload s)) \<and>
     distinct (map fst (log_entries ws d db)) \<and> set (log_entries ws d db) \<subseteq> set hist \<and>
     (\<forall>u \<in> set hist - set (log_entries ws d db).
        filter (of_doc ws d) (snapshots db) \<noteq> [] \<and> (\<forall>s \<in> set (snapshots db). of_doc ws d s \<longrightarrow> fst u \<le> sn_seq s))"

lemma replay_append: "replay apply (us @ vs) doc = (case replay apply us doc of None \<Rightarrow> None | Some doc' \<Rightarrow> replay apply vs doc')"
  by (induction us arbitrary: doc) (auto split: option.split)

lemma hydrate_loop_skip:
  "b \<le> h \<Longrightarrow> hydrate_loop apply ws d us (doc, h) = hydrate_loop apply ws d (filter (\<lambda>u. b < fst u) us) (doc, h)"
proof (induction us arbitrary: doc h)
  case (Cons u us)
  show ?case
  proof (cases "fst u \<le> h")
    case False
    then have "\<And>doc'. hydrate_loop apply ws d us (doc', fst u) = hydrate_loop apply ws d (filter (\<lambda>u. b < fst u) us) (doc', fst u)"
      using Cons by simp
    then show ?thesis using False Cons.prems by (cases u) (simp split: option.split)
  qed (use Cons in \<open>cases u; auto\<close>)
qed simp

lemma hydrate_loop_replay:
  "sorted_wrt (<) (map fst us) \<Longrightarrow> \<forall>u \<in> set us. h < fst u \<Longrightarrow> replay apply us doc = Some doc' \<Longrightarrow>
   hydrate_loop apply ws d us (doc, h) = Okay (doc', last (h # map fst us))"
  by (induction us arbitrary: doc h) (auto split: option.splits)

lemma sorted_filter_split:
  "sorted_wrt (<) (map fst us) \<Longrightarrow> us = filter (\<lambda>u. fst u \<le> (b::int)) us @ filter (\<lambda>u. b < fst u) us"
proof (induction us)
  case (Cons u us)
  show ?case
  proof (cases "fst u \<le> b")
    case False
    then have "filter (\<lambda>u. fst u \<le> b) us = []" "filter (\<lambda>u. b < fst u) us = us"
      using Cons.prems by (auto simp: filter_empty_conv filter_id_conv)
    then show ?thesis using False by simp
  qed (use Cons in simp)
qed simp

text \<open>What a sorted part of the log is, when nothing above its bound is missing.\<close>

lemma log_above:
  assumes "doc_stored apply new hist ws d db" "\<forall>u \<in> set hist - set (log_entries ws d db). fst u \<le> b"
  shows "sort_key fst (filter (\<lambda>u. b < fst u) (log_entries ws d db)) = filter (\<lambda>u. b < fst u) hist"
proof (rule map_sorted_distinct_set_unique [where f = fst])
  have st: "sorted_wrt (<) (map fst hist)" "distinct (map fst (log_entries ws d db))" "set (log_entries ws d db) \<subseteq> set hist"
    using assms(1) by (auto simp: doc_stored_def history_ok_def)
  have strict: "sorted_wrt (<) (map fst (filter (\<lambda>u. b < fst u) hist))"
    using st(1) by (simp add: sorted_wrt_map sorted_wrt_filter)
  then show "sorted (map fst (filter (\<lambda>u. b < fst u) hist))" "distinct (map fst (filter (\<lambda>u. b < fst u) hist))"
    by (auto intro: strict_sorted_imp_sorted strict_sorted_iff [THEN iffD1, THEN conjunct2] simp: strict_sorted_iff)
  show "set (sort_key fst (filter (\<lambda>u. b < fst u) (log_entries ws d db))) = set (filter (\<lambda>u. b < fst u) hist)"
    using assms(2) st(3) by force
  then show "inj_on fst (set (sort_key fst (filter (\<lambda>u. b < fst u) (log_entries ws d db))) \<union> set (filter (\<lambda>u. b < fst u) hist))"
    using \<open>distinct (map fst (filter (\<lambda>u. b < fst u) hist))\<close> by (simp add: distinct_map)
  have "distinct (map fst (filter (\<lambda>u. b < fst u) (log_entries ws d db)))"
    using st(2) by (simp add: distinct_map_filter)
  then show "distinct (map fst (sort_key fst (filter (\<lambda>u. b < fst u) (log_entries ws d db))))"
    by (auto simp: distinct_map)
qed simp

text \<open>Any snapshot of the document and the log rebuild it; so does the log alone when it is complete.\<close>

lemma fst_le_last: "sorted_wrt (<) (map fst us) \<Longrightarrow> u \<in> set us \<Longrightarrow> (fst u :: int) \<le> fst (last us)"
proof (induction us)
  case (Cons v us)
  then show ?case by (cases "us = []") (auto simp: less_imp_le)
qed simp

lemma history_sorted: "history_ok apply new hist \<Longrightarrow> sort_key fst (filter P hist) = filter P hist"
  by (intro sort_key_id_if_sorted strict_sorted_imp_sorted) (simp add: history_ok_def sorted_wrt_map sorted_wrt_filter)

lemma sort_key_filter: "filter P (sort_key f xs) = sort_key f (filter P xs)"
  by (simp add: filter_sort)

lemma hydrate_from_snapshot:
  assumes "doc_stored apply new hist ws d db" "s \<in> set (snapshots db)" "of_doc ws d s"
    and us: "sort_key fst (filter (\<lambda>u. sn_seq s < fst u) us) = filter (\<lambda>u. sn_seq s < fst u) hist"
  shows "hydrate_document new apply ws d \<lparr>history_snapshot = Some (sn_seq s, sn_payload s), history_updates = us\<rparr> =
    Okay (the (replay apply hist new), head_of hist)"
proof -
  let ?lo = "filter (\<lambda>u. fst u \<le> sn_seq s) hist" and ?hi = "filter (\<lambda>u. sn_seq s < fst u) hist"
  have h: "history_ok apply new hist" "snapshot_valid apply new hist (sn_seq s) (sn_payload s)"
    using assms(1-3) by (auto simp: doc_stored_def)
  have sorted: "sorted_wrt (<) (map fst hist)" using h(1) by (simp add: history_ok_def)
  have split: "hist = ?lo @ ?hi" by (rule sorted_filter_split [OF sorted])
  obtain full where full: "replay apply hist new = Some full" using h(1) by (auto simp: history_ok_def)
  then obtain mid where mid: "replay apply ?lo new = Some mid" "replay apply ?hi mid = Some full"
    by (subst (asm) split) (auto simp: replay_append split: option.splits)
  have loop: "hydrate_loop apply ws d ?hi (mid, sn_seq s) = Okay (full, last (sn_seq s # map fst ?hi))"
    using sorted mid(2) by (intro hydrate_loop_replay) (simp_all add: sorted_wrt_map sorted_wrt_filter)
  have "filter (\<lambda>u. sn_seq s < fst u) (sort_key fst us) = ?hi"
    unfolding sort_key_filter by (rule us)
  then have "hydrate_loop apply ws d (sort_key fst us) (mid, sn_seq s) = Okay (full, last (sn_seq s # map fst ?hi))"
    using loop hydrate_loop_skip [of "sn_seq s" "sn_seq s" "apply" ws d "sort_key fst us" mid] by simp
  moreover have "last (sn_seq s # map fst ?hi) = head_of hist"
  proof (cases "?hi = []")
    case True
    then have "?lo = hist" using split by simp
    moreover have "hist \<noteq> []" "sn_seq s \<in> fst ` set hist" using h(2) by (auto simp: snapshot_valid_def)
    ultimately have "fst (last hist) = sn_seq s"
      using fst_le_last [OF sorted] by (metis (mono_tags, lifting) antisym filter_id_conv imageE last_in_set)
    then show ?thesis using True \<open>hist \<noteq> []\<close> by (simp add: head_of_def last_map)
  next
    case False
    then show ?thesis using split by (metis (no_types, lifting) head_of_def last_ConsR last_appendR map_append map_is_Nil_conv append_is_Nil_conv)
  qed
  ultimately show ?thesis using h(2) mid(1) full by (simp add: hydrate_document_def snapshot_valid_def)
qed

lemma load_updates:
  "map (\<lambda>u. (su_seq u, su_payload u)) (sort_key su_seq (filter (\<lambda>u. logged_for ws d u \<and> su_seq u > b) (update_log db))) =
   sort_key fst (filter (\<lambda>u. b < fst u) (log_entries ws d db))"
proof -
  have m: "map f (sort_key (fst \<circ> f) xs) = sort_key fst (map f xs)" for f :: "sequenced_update \<Rightarrow> int \<times> byte list" and xs
  proof (induction xs)
    case (Cons x xs)
    have "map f (insort_key (fst \<circ> f) x ys) = insort_key fst (f x) (map f ys)" for ys by (induction ys) auto
    then show ?case using Cons by (simp add: comp_def)
  qed simp
  have "filter (\<lambda>u. b < fst u) (log_entries ws d db) =
      map (\<lambda>u. (su_seq u, su_payload u)) (filter (\<lambda>u. logged_for ws d u \<and> su_seq u > b) (update_log db))"
    by (simp add: log_entries_def filter_map comp_def conj_commute)
  then show ?thesis using m [of "\<lambda>u. (su_seq u, su_payload u)"] by (simp add: comp_def)
qed

lemma stored_document_loads:
  assumes "doc_stored apply new hist ws d db"
  shows "hydrate_document new apply ws d (load_doc_history ws d db) = Okay (the (replay apply hist new), head_of hist)"
proof (cases "snapshots_desc ws d db")
  case Nil
  then have none: "filter (of_doc ws d) (snapshots db) = []" by (metis snapshots_desc_def rev_is_Nil_conv set_empty2 set_sort)
  have h: "history_ok apply new hist" using assms by (simp add: doc_stored_def)
  have "sort_key fst (filter (\<lambda>u. 0 < fst u) (log_entries ws d db)) = filter (\<lambda>u. 0 < fst u) hist"
    using assms none by (intro log_above) (auto simp: doc_stored_def)
  also have "\<dots> = hist" using h by (simp add: history_ok_def filter_id_conv)
  finally have "sort_key fst (filter (\<lambda>u. 0 < fst u) (log_entries ws d db)) = hist" .
  moreover have "hydrate_loop apply ws d hist (new, 0) = Okay (the (replay apply hist new), last (0 # map fst hist))"
    using h by (intro hydrate_loop_replay) (auto simp: history_ok_def)
  moreover have "sort_key fst hist = hist"
    using h by (intro sort_key_id_if_sorted strict_sorted_imp_sorted) (simp add: history_ok_def)
  ultimately show ?thesis
    using Nil by (simp add: load_doc_history_def load_updates hydrate_document_def head_of_def)
next
  case (Cons s ss)
  then have "s \<in> set (snapshots_desc ws d db)" by simp
  then have s: "s \<in> set (snapshots db)" "of_doc ws d s" by (auto simp: snapshots_desc_def)
  have "sort_key fst (filter (\<lambda>u. sn_seq s < fst u) (sort_key fst (filter (\<lambda>u. sn_seq s < fst u) (log_entries ws d db)))) =
      filter (\<lambda>u. sn_seq s < fst u) hist"
    using log_above [OF assms, of "sn_seq s"] assms s by (auto simp: history_sorted doc_stored_def sort_key_filter)
  from hydrate_from_snapshot [OF assms s this] show ?thesis
    using Cons by (simp add: load_doc_history_def load_updates)
qed

section \<open>Compaction keeps the history\<close>

lemma plan_cutoff:
  assumes "seqs \<noteq> []"
  obtains c where "c \<in> set seqs" "delete_snapshots_below_seq (build_compaction_plan seqs retain) = Some c"
    "delete_updates_at_or_below_seq (build_compaction_plan seqs retain) \<in> {None, Some c}"
proof
  let ?c = "rev (sort seqs) ! min (max retain 1 - 1) (length (rev (sort seqs)) - 1)"
  have "?c \<in> set (rev (sort seqs))" using assms by (intro nth_mem) (cases seqs; simp add: min_def)
  then show "?c \<in> set seqs" by simp
  show "delete_snapshots_below_seq (build_compaction_plan seqs retain) = Some ?c"
    "delete_updates_at_or_below_seq (build_compaction_plan seqs retain) \<in> {None, Some ?c}"
    using assms by (simp_all add: build_compaction_plan_def Let_def)
qed

lemma deleted_rows:
  "filter (of_doc ws d) (snapshots (snd (delete_updates ws d x (snd (delete_snapshots ws d (Some b) db))))) =
   filter (\<lambda>s. \<not> sn_seq s < b) (filter (of_doc ws d) (snapshots db))"
proof -
  have "filter (of_doc ws d) (filter (\<lambda>s. \<not> (of_doc ws d s \<and> sn_seq s < b)) ss) =
      filter (\<lambda>s. \<not> sn_seq s < b) (filter (of_doc ws d) ss)" for ss by (induction ss) auto
  then show ?thesis by (simp add: delete_updates_def delete_snapshots_def split: option.split)
qed

lemma insert_snapshot_rows:
  assumes "\<forall>s \<in> set (snapshots db). of_doc (cand_workspace c) (cand_doc c) s \<longrightarrow> sn_seq s < cand_seq c"
  shows "insert_snapshot db_now c db = db\<lparr>snapshots := snapshots db @
             [\<lparr>sn_workspace = cand_workspace c, sn_doc = cand_doc c, sn_seq = cand_seq c,
               sn_payload = cand_payload c, sn_created_at = db_now\<rparr>]\<rparr>"
  using assms by (fastforce simp: insert_snapshot_def list_ex_iff)

lemma doc_stored_insert:
  assumes "doc_stored apply new hist (cand_workspace c) (cand_doc c) db"
    and "snapshot_valid apply new hist (cand_seq c) (cand_payload c)"
    and "\<forall>s \<in> set (snapshots db). of_doc (cand_workspace c) (cand_doc c) s \<longrightarrow> sn_seq s < cand_seq c"
  shows "doc_stored apply new hist (cand_workspace c) (cand_doc c) (insert_snapshot db_now c db)"
proof -
  let ?ws = "cand_workspace c" and ?d = "cand_doc c"
  have le: "fst u \<le> cand_seq c" if u: "u \<in> set hist - set (log_entries ?ws ?d db)" for u
  proof -
    have "filter (of_doc ?ws ?d) (snapshots db) \<noteq> []" using assms(1) u unfolding doc_stored_def by blast
    then obtain s where "s \<in> set (snapshots db)" "of_doc ?ws ?d s" by (auto simp: filter_empty_conv)
    then show ?thesis using assms(1,3) u unfolding doc_stored_def by (meson less_imp_le order_trans)
  qed
  have e: "log_entries ?ws ?d (db\<lparr>snapshots := x\<rparr>) = log_entries ?ws ?d db" for x by (simp add: log_entries_def)
  show ?thesis
    unfolding insert_snapshot_rows [OF assms(3)] doc_stored_def e
    using assms le unfolding doc_stored_def by (auto simp: of_doc_def)
qed

lemma doc_stored_delete:
  assumes "doc_stored apply new hist ws d db" "s0 \<in> set (snapshots db)" "of_doc ws d s0" "sn_seq s0 = b"
    and "at_or_below \<in> {None, Some b}"
  shows "doc_stored apply new hist ws d (snd (delete_updates ws d at_or_below (snd (delete_snapshots ws d (Some b) db))))"
proof -
  let ?db = "snd (delete_updates ws d at_or_below (snd (delete_snapshots ws d (Some b) db)))"
  have sn: "snapshots ?db = filter (\<lambda>s. \<not> (of_doc ws d s \<and> sn_seq s < b)) (snapshots db)"
    by (simp add: delete_updates_def delete_snapshots_def split: option.split)
  have keep: "s0 \<in> set (filter (of_doc ws d) (snapshots ?db))" using assms(2-4) by (simp add: sn)
  obtain P where P: "log_entries ws d ?db = filter P (log_entries ws d db)" "\<And>u. \<not> P u \<Longrightarrow> fst u \<le> b"
  proof (cases at_or_below)
    case None
    then show ?thesis using that [of "\<lambda>_. True"]
      by (simp add: delete_updates_def delete_snapshots_def log_entries_def)
  next
    case (Some b')
    have "filter (logged_for ws d) (filter (\<lambda>u. logged_for ws d u \<longrightarrow> \<not> su_seq u \<le> b) us) =
        filter (\<lambda>u. \<not> su_seq u \<le> b) (filter (logged_for ws d) us)" for us by (induction us) auto
    then show ?thesis using that [of "\<lambda>u. \<not> fst u \<le> b"] Some assms(5)
      by (simp add: delete_updates_def delete_snapshots_def log_entries_def filter_map comp_def)
  qed
  have "fst u \<le> sn_seq s"
    if "u \<in> set hist - set (log_entries ws d ?db)" "s \<in> set (snapshots ?db)" "of_doc ws d s" for u s
  proof (cases "u \<in> set (log_entries ws d db)")
    case True
    then have "fst u \<le> b" using that P by auto
    then show ?thesis using that(2,3) by (simp add: sn)
  next
    case False
    then show ?thesis using assms(1) that(1,2,3) unfolding doc_stored_def by (auto simp: sn)
  qed
  moreover have "filter (of_doc ws d) (snapshots ?db) \<noteq> []" using keep by (metis empty_iff empty_set)
  moreover have "distinct (map sn_seq (filter (of_doc ws d) (snapshots ?db)))"
    unfolding deleted_rows using assms(1) by (intro distinct_map_filter [where xs = "filter (of_doc ws d) (snapshots db)"]) (simp add: doc_stored_def)
  ultimately show ?thesis using assms(1) P(1) unfolding doc_stored_def
    by (auto simp: sn distinct_map_filter)
qed

lemma snapshots_desc_strict:
  "distinct (map sn_seq (filter (of_doc ws d) (snapshots db))) \<Longrightarrow> sorted_wrt (>) (map sn_seq (snapshots_desc ws d db))"
  unfolding snapshots_desc_def rev_map [symmetric] sorted_wrt_rev
  by (subst strict_sorted_iff) (auto simp: distinct_map)

text \<open>The plan's bound on the newest rows keeps exactly the newest rows.\<close>

lemma filter_ge_take:
  fixes f :: "'a \<Rightarrow> int"
  shows "sorted_wrt (>) (map f xs) \<Longrightarrow> k < length xs \<Longrightarrow> filter (\<lambda>x. \<not> f x < f (xs ! k)) xs = take (Suc k) xs"
proof (induction xs arbitrary: k)
  case (Cons x xs)
  show ?case
  proof (cases k)
    case 0
    then show ?thesis using Cons.prems(1) by (auto simp: filter_empty_conv)
  next
    case (Suc j)
    then have "xs ! j \<in> set xs" using Cons.prems(2) by simp
    then have "\<not> f x < f (xs ! j)" using Cons.prems(1) by fastforce
    then show ?thesis using Suc Cons by simp
  qed
qed simp

lemma rev_sort_desc: "sorted_wrt (>) xs \<Longrightarrow> rev (sort xs) = (xs::int list)"
proof -
  assume "sorted_wrt (>) xs"
  have "sorted (rev xs)" using \<open>sorted_wrt (>) xs\<close> by (intro strict_sorted_imp_sorted) (simp add: sorted_wrt_rev)
  moreover have "distinct (rev xs)" using \<open>sorted_wrt (>) xs\<close> by (metis sorted_wrt_rev strict_sorted_iff)
  ultimately have "sort xs = rev xs" by (intro sorted_distinct_set_unique) simp_all
  then show ?thesis by simp
qed

lemma take_min_length: "take (min r (length xs)) xs = take r xs"
  by (simp add: min_def)

lemma compaction_tx_retains:
  assumes "doc_stored apply new hist (cand_workspace c) (cand_doc c) (insert_snapshot db_now c db)"
    and "max (retain_snapshots cfg) 1 \<le> nat i64_max"
  shows "snapshots_desc (cand_workspace c) (cand_doc c) (snd (snd (compaction_tx cfg db_now c db))) =
    take (max (retain_snapshots cfg) 1) (snapshots_desc (cand_workspace c) (cand_doc c) (insert_snapshot db_now c db))"
proof -
  let ?ws = "cand_workspace c" and ?d = "cand_doc c" and ?db = "insert_snapshot db_now c db"
  let ?L = "snapshots_desc ?ws ?d ?db" and ?r = "max (retain_snapshots cfg) 1"
  let ?plan = "build_compaction_plan (map sn_seq (take ?r ?L)) (retain_snapshots cfg)"
  have strict: "sorted_wrt (>) (map sn_seq ?L)"
    using assms(1) by (intro snapshots_desc_strict) (simp add: doc_stored_def)
  have desc: "snapshots_desc ?ws ?d (snd (delete_updates ?ws ?d x (snd (delete_snapshots ?ws ?d (Some b) ?db)))) =
      filter (\<lambda>s. \<not> sn_seq s < b) ?L" for x b
    unfolding snapshots_desc_def deleted_rows by (simp only: sort_key_filter [symmetric] rev_filter)
  show ?thesis
  proof (cases "?L = []")
    case True
    then show ?thesis using assms(2)
      by (simp add: compaction_tx_def Let_def build_compaction_plan_def delete_snapshots_def delete_updates_def)
  next
    case False
    let ?k = "min (?r - 1) (length (take ?r ?L) - 1)"
    have "sorted_wrt (>) (map sn_seq (take ?r ?L))" using strict by (simp only: take_map [symmetric] sorted_wrt_take)
    from rev_sort_desc [OF this] have below: "delete_snapshots_below_seq ?plan = Some (sn_seq (?L ! ?k))"
      using False by (cases ?L) (auto simp: build_compaction_plan_def Let_def min_def)
    have "0 < length ?L" "0 < ?r" using False by auto
    then have "Suc ?k = min ?r (length ?L)" unfolding length_take by linarith
    moreover have "take (min ?r (length ?L)) ?L = take ?r ?L" by (rule take_min_length)
    ultimately have k: "?k < length ?L" "take (Suc ?k) ?L = take ?r ?L" by (linarith, simp only:)
    have tx: "snd (snd (compaction_tx cfg db_now c db)) =
        snd (delete_updates ?ws ?d (delete_updates_at_or_below_seq ?plan)
          (snd (delete_snapshots ?ws ?d (delete_snapshots_below_seq ?plan) ?db)))"
      unfolding compaction_tx_def Let_def split_beta min_absorb1 [OF assms(2)] by simp
    show ?thesis unfolding tx below desc filter_ge_take [OF strict k(1)] by (rule k(2))
  qed
qed

lemma compaction_tx_stored:
  assumes "doc_stored apply new hist (cand_workspace c) (cand_doc c) (insert_snapshot db_now c db)"
  shows "doc_stored apply new hist (cand_workspace c) (cand_doc c) (snd (snd (compaction_tx cfg db_now c db)))"
proof -
  let ?ws = "cand_workspace c" and ?d = "cand_doc c" and ?db = "insert_snapshot db_now c db"
  define rows where "rows = take (min (max (retain_snapshots cfg) 1) (nat i64_max)) (snapshots_desc ?ws ?d ?db)"
  define plan where "plan = build_compaction_plan (map sn_seq rows) (retain_snapshots cfg)"
  have tx: "snd (snd (compaction_tx cfg db_now c db)) =
      snd (delete_updates ?ws ?d (delete_updates_at_or_below_seq plan)
        (snd (delete_snapshots ?ws ?d (delete_snapshots_below_seq plan) ?db)))"
    by (simp add: compaction_tx_def Let_def split_beta plan_def rows_def)
  show ?thesis
  proof (cases "rows = []")
    case True
    then show ?thesis using assms unfolding tx
      by (simp add: plan_def build_compaction_plan_def delete_snapshots_def delete_updates_def)
  next
    case False
    then obtain b where b: "b \<in> set (map sn_seq rows)" "delete_snapshots_below_seq plan = Some b"
      "delete_updates_at_or_below_seq plan \<in> {None, Some b}"
      unfolding plan_def by (metis plan_cutoff map_is_Nil_conv)
    then obtain s0 where "s0 \<in> set rows" "sn_seq s0 = b" by auto
    then have "s0 \<in> set (snapshots ?db)" "of_doc ?ws ?d s0"
      unfolding rows_def snapshots_desc_def by (auto dest!: in_set_takeD)
    then show ?thesis unfolding tx b(2) using assms b(3) \<open>sn_seq s0 = b\<close> by (intro doc_stored_delete)
  qed
qed

lemma compaction_tx_other_rows:
  assumes "(ws, d) \<noteq> (cand_workspace c, cand_doc c)"
  shows "filter (of_doc ws d) (snapshots (snd (snd (compaction_tx cfg db_now c db)))) = filter (of_doc ws d) (snapshots db)"
    and "filter (logged_for ws d) (update_log (snd (snd (compaction_tx cfg db_now c db)))) = filter (logged_for ws d) (update_log db)"
proof -
  have sn: "filter (of_doc ws d) (filter (\<lambda>s. \<not> (of_doc (cand_workspace c) (cand_doc c) s \<and> sn_seq s < b)) ss) =
      filter (of_doc ws d) ss" for b ss using assms by (induction ss) (auto simp: of_doc_def)
  have lg: "filter (logged_for ws d)
        (filter (\<lambda>u. \<not> (logged_for (cand_workspace c) (cand_doc c) u \<and> su_seq u \<le> b)) us) =
      filter (logged_for ws d) us" for b us using assms by (induction us) (auto simp: logged_for_def)
  let ?del = "\<lambda>x y db. snd (delete_updates (cand_workspace c) (cand_doc c) y
      (snd (delete_snapshots (cand_workspace c) (cand_doc c) x db)))"
  have del: "filter (of_doc ws d) (snapshots (?del x y db)) = filter (of_doc ws d) (snapshots db)"
    "filter (logged_for ws d) (update_log (?del x y db)) = filter (logged_for ws d) (update_log db)" for x y db
    using sn lg by (simp_all add: delete_updates_def delete_snapshots_def split: option.split)
  have ins: "filter (of_doc ws d) (snapshots (insert_snapshot db_now c db)) = filter (of_doc ws d) (snapshots db)"
    "update_log (insert_snapshot db_now c db) = update_log db"
    using assms by (auto simp: insert_snapshot_def of_doc_def)
  show "filter (of_doc ws d) (snapshots (snd (snd (compaction_tx cfg db_now c db)))) = filter (of_doc ws d) (snapshots db)"
    "filter (logged_for ws d) (update_log (snd (snd (compaction_tx cfg db_now c db)))) = filter (logged_for ws d) (update_log db)"
    by (simp_all add: compaction_tx_def Let_def split_beta del ins)
qed

text \<open>What is stored of a document, and what is loaded, depends only on its own rows.\<close>

lemma same_rows:
  assumes "filter (of_doc ws d) (snapshots db') = filter (of_doc ws d) (snapshots db)"
    and "filter (logged_for ws d) (update_log db') = filter (logged_for ws d) (update_log db)"
  shows "load_doc_history ws d db' = load_doc_history ws d db"
    and "doc_stored apply new hist ws d db' = doc_stored apply new hist ws d db"
proof -
  have "filter (\<lambda>u. logged_for ws d u \<and> su_seq u > m) us = filter (\<lambda>u. su_seq u > m) (filter (logged_for ws d) us)" for m us
    by (simp add: conj_commute)
  then show "load_doc_history ws d db' = load_doc_history ws d db"
    by (simp only: load_doc_history_def snapshots_desc_def assms)
  have s: "(s \<in> set (snapshots db) \<and> of_doc ws d s) = (s \<in> set (snapshots db') \<and> of_doc ws d s)" for s
    using arg_cong [OF assms(1), of set] by auto
  have e: "log_entries ws d db' = log_entries ws d db" by (simp only: log_entries_def assms(2))
  have q: "(\<forall>s \<in> set (snapshots db'). of_doc ws d s \<longrightarrow> P s) = (\<forall>s \<in> set (snapshots db). of_doc ws d s \<longrightarrow> P s)" for P
    using s by blast
  show "doc_stored apply new hist ws d db' = doc_stored apply new hist ws d db"
    unfolding doc_stored_def e q assms(1) ..
qed

lemmas compaction_tx_other = same_rows [OF compaction_tx_other_rows]

text \<open>A compaction that writes is of a candidate newer than every stored snapshot.\<close>

lemma maybe_snapshot_cases:
  assumes "maybe_snapshot_and_compact cfg put show_uuid show_int db_now c db = (res, db')"
  obtains (unchanged) "db' = db" "\<And>out. res \<noteq> Okay (Persisted out)"
  | (written) "db' = snd (snd (compaction_tx cfg db_now c db))"
      "\<forall>s \<in> set (snapshots db). of_doc (cand_workspace c) (cand_doc c) s \<longrightarrow> sn_seq s < cand_seq c"
proof (cases "snapshots_desc (cand_workspace c) (cand_doc c) db")
  case Nil
  then have "filter (of_doc (cand_workspace c) (cand_doc c)) (snapshots db) = []"
    by (metis snapshots_desc_def rev_is_Nil_conv set_empty2 set_sort)
  then show ?thesis using assms Nil that
    by (auto simp: maybe_snapshot_and_compact_def Let_def filter_empty_conv split: prod.splits if_splits)
next
  case (Cons latest rest)
  have "sn_seq s \<le> sn_seq latest" if "s \<in> set (snapshots db)" "of_doc (cand_workspace c) (cand_doc c) s" for s
  proof -
    have "sorted (map sn_seq (rev (latest # rest)))"
      using Cons unfolding snapshots_desc_def by (metis rev_rev_ident sorted_sort_key)
    moreover have "s \<in> set (latest # rest)" using that unfolding Cons [symmetric] snapshots_desc_def by simp
    ultimately show ?thesis by (auto simp: sorted_append rev_map)
  qed
  then show ?thesis using assms Cons that
    by (fastforce simp: maybe_snapshot_and_compact_def Let_def split: prod.splits if_splits)
qed

lemma sort_key_snoc_max:
  fixes f :: "'a \<Rightarrow> int"
  assumes "\<forall>y \<in> set xs. f y \<le> f x"
  shows "sort_key f (xs @ [x]) = sort_key f xs @ [x]"
proof -
  have "insort_key f y (ys @ [x]) = insort_key f y ys @ [x]" if "f y \<le> f x" for y ys
    using that by (induction ys) auto
  then show ?thesis using assms by (induction xs) auto
qed

section \<open>Properties\<close>

text \<open>
  Compaction never changes a document. When the tables store a document's history and the
  candidate is a snapshot of it, then after \<open>maybe_snapshot_and_compact\<close>, whatever it decides,
  loading the document yields the state after its whole history and the number of its last
  update; so does every retained snapshot with the remaining log, should newer ones be lost; and
  every other document loads as before.
\<close>

theorem compaction_keeps_document:
  assumes stored: "doc_stored apply new hist (cand_workspace c) (cand_doc c) db"
    and valid: "snapshot_valid apply new hist (cand_seq c) (cand_payload c)"
    and run: "maybe_snapshot_and_compact cfg put show_uuid show_int db_now c db = (res, db')"
  shows "doc_stored apply new hist (cand_workspace c) (cand_doc c) db' \<and>
    hydrate_document new apply (cand_workspace c) (cand_doc c) (load_doc_history (cand_workspace c) (cand_doc c) db') =
      Okay (the (replay apply hist new), head_of hist) \<and>
    (\<forall>s \<in> set (snapshots db'). of_doc (cand_workspace c) (cand_doc c) s \<longrightarrow>
       hydrate_document new apply (cand_workspace c) (cand_doc c)
         \<lparr>history_snapshot = Some (sn_seq s, sn_payload s),
          history_updates = log_entries (cand_workspace c) (cand_doc c) db'\<rparr> =
       Okay (the (replay apply hist new), head_of hist)) \<and>
    (\<forall>ws d. (ws, d) \<noteq> (cand_workspace c, cand_doc c) \<longrightarrow> load_doc_history ws d db' = load_doc_history ws d db)"
proof -
  have st: "doc_stored apply new hist (cand_workspace c) (cand_doc c) db'"
    using run
  proof (cases rule: maybe_snapshot_cases)
    case written
    then show ?thesis using doc_stored_insert [OF stored valid] compaction_tx_stored by metis
  qed (use stored in simp)
  have others: "load_doc_history ws d db' = load_doc_history ws d db"
    if "(ws, d) \<noteq> (cand_workspace c, cand_doc c)" for ws d
    using run by (cases rule: maybe_snapshot_cases) (simp_all add: compaction_tx_other(1) [OF that that])
  have "hydrate_document new apply (cand_workspace c) (cand_doc c)
         \<lparr>history_snapshot = Some (sn_seq s, sn_payload s),
          history_updates = log_entries (cand_workspace c) (cand_doc c) db'\<rparr> =
       Okay (the (replay apply hist new), head_of hist)"
    if "s \<in> set (snapshots db')" "of_doc (cand_workspace c) (cand_doc c) s" for s
    using st that by (intro hydrate_from_snapshot log_above) (auto simp: doc_stored_def)
  then show ?thesis using st others stored_document_loads [OF st] by blast
qed

text \<open>An instance: documents are byte strings and updates append to them.\<close>

definition append_bytes :: "byte list \<Rightarrow> byte list \<Rightarrow> byte list option" where
  "append_bytes payload doc = Some (doc @ payload)"

definition demo_history :: "(int \<times> byte list) list" where
  "demo_history = [(1, [1]), (3, [2])]"

definition demo_tables :: relay_db where
  "demo_tables = \<lparr>update_log = map (\<lambda>(n, p). \<lparr>su_workspace = 1, su_doc = 2, su_seq = n, su_client = 5, su_cuid = nat n, su_payload = p\<rparr>)
      demo_history, snapshots = []\<rparr>"

definition demo_candidate :: snapshot_candidate where
  "demo_candidate = \<lparr>cand_workspace = 1, cand_doc = 2, cand_seq = 3, cand_payload = [1, 2], cand_now = 0\<rparr>"

lemma demo_stored: "doc_stored append_bytes [] demo_history 1 2 demo_tables"
  by (simp add: doc_stored_def history_ok_def demo_history_def demo_tables_def log_entries_def logged_for_def append_bytes_def)

lemma demo_valid: "snapshot_valid append_bytes [] demo_history 3 [1, 2]"
  by (simp add: snapshot_valid_def demo_history_def append_bytes_def)

theorem compaction_keeps_document_witness:
  "case maybe_snapshot_and_compact (default_config\<lparr>retain_snapshots := 1\<rparr>) None (\<lambda>_. []) (\<lambda>_. []) 0 demo_candidate demo_tables of
     (res, db') \<Rightarrow> update_log db' = [] \<and>
       hydrate_document [] append_bytes 1 2 (load_doc_history 1 2 db') = Okay ([1, 2], 3)"
proof -
  let ?run = "maybe_snapshot_and_compact (default_config\<lparr>retain_snapshots := 1\<rparr>) None (\<lambda>_. []) (\<lambda>_. []) 0 demo_candidate demo_tables"
  obtain res db' where run: "?run = (res, db')" by force
  have "update_log (snd ?run) = []"
    by (simp add: maybe_snapshot_and_compact_def snapshots_desc_def demo_tables_def demo_candidate_def Let_def
        should_upload_to_object_store_def compaction_tx_def insert_snapshot_def build_compaction_plan_def
        delete_snapshots_def delete_updates_def of_doc_def logged_for_def demo_history_def i64_max_def)
  moreover have "hydrate_document [] append_bytes 1 2 (load_doc_history 1 2 db') =
      Okay (the (replay append_bytes demo_history []), head_of demo_history)"
    using compaction_keeps_document [OF _ _ run, of append_bytes "[]" demo_history] demo_stored demo_valid
    by (simp add: demo_candidate_def)
  ultimately show ?thesis using run by (simp add: demo_history_def append_bytes_def head_of_def)
qed

text \<open>
  Retention: when a snapshot is written, the snapshots of the document are afterwards the new
  one and the newest of the old ones, \<open>retain_snapshots\<close> (at least one) in all.
\<close>

theorem compaction_retention:
  assumes stored: "doc_stored apply new hist (cand_workspace c) (cand_doc c) db"
    and valid: "snapshot_valid apply new hist (cand_seq c) (cand_payload c)"
    and run: "maybe_snapshot_and_compact cfg put show_uuid show_int db_now c db = (Okay (Persisted out), db')"
    and lim: "max (retain_snapshots cfg) 1 \<le> nat i64_max"
  shows "map sn_seq (snapshots_desc (cand_workspace c) (cand_doc c) db') =
    take (max (retain_snapshots cfg) 1) (cand_seq c # map sn_seq (snapshots_desc (cand_workspace c) (cand_doc c) db))"
  using run
proof (cases rule: maybe_snapshot_cases)
  case written
  have "snapshots_desc (cand_workspace c) (cand_doc c) (insert_snapshot db_now c db) =
      \<lparr>sn_workspace = cand_workspace c, sn_doc = cand_doc c, sn_seq = cand_seq c,
       sn_payload = cand_payload c, sn_created_at = db_now\<rparr> # snapshots_desc (cand_workspace c) (cand_doc c) db"
    using written(2) unfolding insert_snapshot_rows [OF written(2)] snapshots_desc_def
    by (simp add: of_doc_def, subst sort_key_snoc_max) (auto simp: less_imp_le)
  then show ?thesis
    using compaction_tx_retains [OF doc_stored_insert [OF stored valid written(2)] lim] written(1)
    by (simp only: take_map [symmetric] list.map snapshot_row.simps)
qed auto

theorem compaction_retention_witness:
  "map sn_seq (snapshots_desc 1 2 (snd (maybe_snapshot_and_compact default_config None (\<lambda>_. []) (\<lambda>_. []) 0 demo_candidate demo_tables))) = [3]"
proof -
  let ?run = "maybe_snapshot_and_compact default_config None (\<lambda>_. []) (\<lambda>_. []) 0 demo_candidate demo_tables"
  obtain out db' where run: "?run = (Okay (Persisted out), db')"
    by (simp add: maybe_snapshot_and_compact_def snapshots_desc_def demo_tables_def Let_def split_beta)
  show ?thesis
    using compaction_retention [OF _ _ run, of append_bytes "[]" demo_history] demo_stored demo_valid run
    by (simp add: demo_candidate_def default_config_def SNAPSHOT_RETAIN_COUNT_def i64_max_def demo_tables_def snapshots_desc_def)
qed

end
