(* ===== verification/RelayDocs.thy ===== *)
theory RelayDocs
  imports RelayStore
begin

text \<open>
  The relay's loaded documents (\<open>relay/src/sync/doc_manager.rs\<close>) together with the tables they
  are loaded from (\<open>sequencer.rs\<close>, \<open>snapshot.rs\<close>): whatever sequence of subscriptions, commits,
  compactions and unloads is run, every loaded document is the state after its whole history.
  A commit writes a numbered update to the log and applies it to the document if that is loaded.
\<close>

section \<open>Operations on tables and documents\<close>

text \<open>\<open>rw_hist\<close> is not part of the program: it records all updates committed so far.\<close>

record 'd relay_world =
  rw_hist :: "uuid \<times> uuid \<Rightarrow> (int \<times> byte list) list"
  rw_db :: relay_db
  rw_docs :: "'d relay_docs"

datatype relay_op =
    Subscribe timestamp uuid uuid
  | Unsubscribe timestamp uuid uuid
  | Commit timestamp int sequenced_update
  | Compact timestamp snapshot_candidate
  | Unload timestamp

text \<open>The parameters of the operations: the CRDT, the compactor's settings and the idle time.\<close>

record 'd relay_env =
  re_new :: 'd
  re_apply :: "byte list \<Rightarrow> 'd \<Rightarrow> 'd option"
  re_config :: compactor_config
  re_put :: "(string \<Rightarrow> byte list \<Rightarrow> bool) option"
  re_show_uuid :: "uuid \<Rightarrow> string"
  re_show_int :: "int \<Rightarrow> string"
  re_inactive_after :: int

fun relay_step :: "'d relay_env \<Rightarrow> 'd relay_world \<Rightarrow> relay_op \<Rightarrow> 'd relay_world" where
  "relay_step e w (Subscribe now ws d) =
     w\<lparr>rw_docs := snd (subscribe (re_new e) (re_apply e) now ws d (load_doc_history ws d (rw_db w)) (rw_docs w))\<rparr>"
| "relay_step e w (Unsubscribe now ws d) = w\<lparr>rw_docs := snd (unsubscribe now ws d (rw_docs w))\<rparr>"
| "relay_step e w (Commit now base u) =
     w\<lparr>rw_hist := (rw_hist w)(su_key u := rw_hist w (su_key u) @ [(su_seq u, su_payload u)]),
       rw_db := snd (flush_batch_to_postgres [u] (rw_db w)),
       rw_docs := snd (apply_sequenced_update (re_apply e) now (su_workspace u) (su_doc u) base (su_seq u)
                        (su_payload u) (rw_docs w))\<rparr>"
| "relay_step e w (Compact db_now c) =
     w\<lparr>rw_db := snd (maybe_snapshot_and_compact (re_config e) (re_put e) (re_show_uuid e) (re_show_int e) db_now c (rw_db w))\<rparr>"
| "relay_step e w (Unload now) = w\<lparr>rw_docs := snd (unload_inactive (re_inactive_after e) now (rw_docs w))\<rparr>"

definition doc_state :: "'d relay_env \<Rightarrow> (int \<times> byte list) list \<Rightarrow> 'd" where
  "doc_state e hist = the (replay (re_apply e) hist (re_new e))"

text \<open>
  A commit carries a new client update with a number above the document's last one, made against
  a number the relay has reached, whose payload applies; a compaction is given a snapshot of the
  document.
\<close>

fun relay_op_ok :: "'d relay_env \<Rightarrow> 'd relay_world \<Rightarrow> relay_op \<Rightarrow> bool" where
  "relay_op_ok e w (Commit now base u) \<longleftrightarrow>
     base \<le> head_of (rw_hist w (su_key u)) \<and> head_of (rw_hist w (su_key u)) < su_seq u \<and>
     re_apply e (su_payload u) (doc_state e (rw_hist w (su_key u))) \<noteq> None \<and>
     \<not> list_ex (same_client_update u) (update_log (rw_db w))"
| "relay_op_ok e w (Compact db_now c) \<longleftrightarrow>
     snapshot_valid (re_apply e) (re_new e) (rw_hist w (cand_workspace c, cand_doc c)) (cand_seq c) (cand_payload c)"
| "relay_op_ok e w _ \<longleftrightarrow> True"

definition empty_world :: "'d relay_world" where
  "empty_world = \<lparr>rw_hist = (\<lambda>_. []), rw_db = \<lparr>update_log = [], snapshots = []\<rparr>, rw_docs = []\<rparr>"

definition world_ok :: "'d relay_env \<Rightarrow> 'd relay_world \<Rightarrow> bool" where
  "world_ok e w \<longleftrightarrow>
     distinct (map fst (rw_docs w)) \<and>
     (\<forall>ws d. doc_stored (re_apply e) (re_new e) (rw_hist w (ws, d)) ws d (rw_db w)) \<and>
     (\<forall>key l. map_of (rw_docs w) key = Some l \<longrightarrow>
        ld_doc l = doc_state e (rw_hist w key) \<and> ld_head l = head_of (rw_hist w key))"

section \<open>Every operation keeps the documents true to their history\<close>

lemma docs_update:
  "map_of (AList.update key l docs) = (map_of docs)(key \<mapsto> l)" "distinct (map fst docs) \<Longrightarrow> distinct (map fst (AList.update key l docs))"
  by (simp_all add: update_conv' distinct_update)

text \<open>Subscribing, whether it finds the document or loads it.\<close>

lemma subscribe_result:
  assumes "world_ok e w"
  shows "\<exists>docs l. subscribe (re_new e) (re_apply e) now ws d (load_doc_history ws d (rw_db w)) (rw_docs w) =
      (Okay (head_of (rw_hist w (ws, d))), docs) \<and> docs = AList.update (ws, d) l (rw_docs w) \<and>
      ld_doc l = doc_state e (rw_hist w (ws, d)) \<and> ld_head l = head_of (rw_hist w (ws, d)) \<and> 0 < ld_subscribers l"
proof (cases "map_of (rw_docs w) (ws, d)")
  case None
  have "hydrate_document (re_new e) (re_apply e) ws d (load_doc_history ws d (rw_db w)) =
      Okay (doc_state e (rw_hist w (ws, d)), head_of (rw_hist w (ws, d)))"
    using assms stored_document_loads [of "re_apply e" "re_new e"] by (simp add: world_ok_def doc_state_def)
  then show ?thesis using None
    by (intro exI [of _ "AList.update (ws, d) \<lparr>ld_doc = doc_state e (rw_hist w (ws, d)),
          ld_head = head_of (rw_hist w (ws, d)), ld_subscribers = 1, ld_last_touched = now\<rparr> (rw_docs w)"]
        exI [of _ "\<lparr>ld_doc = doc_state e (rw_hist w (ws, d)), ld_head = head_of (rw_hist w (ws, d)),
          ld_subscribers = 1, ld_last_touched = now\<rparr>"])
      (simp add: subscribe_def touch_subscribed_def insert_hydrated_def)
next
  case (Some l)
  then have "ld_doc l = doc_state e (rw_hist w (ws, d))" "ld_head l = head_of (rw_hist w (ws, d))"
    using assms unfolding world_ok_def by blast+
  then show ?thesis using Some
    by (intro exI [of _ "AList.update (ws, d) (l\<lparr>ld_subscribers := ld_subscribers l + 1, ld_last_touched := now\<rparr>) (rw_docs w)"]
        exI [of _ "l\<lparr>ld_subscribers := ld_subscribers l + 1, ld_last_touched := now\<rparr>"])
      (simp add: subscribe_def touch_subscribed_def)
qed

lemma history_snoc:
  assumes "history_ok apply new hist" "head_of hist < n" "apply p (the (replay apply hist new)) = Some doc"
  shows "history_ok apply new (hist @ [(n, p)])" "the (replay apply (hist @ [(n, p)]) new) = doc"
    "head_of (hist @ [(n, p)]) = n"
proof -
  have sorted: "sorted_wrt (<) (map fst hist)" and pos: "\<forall>u \<in> set hist. 0 < fst u" using assms(1) by (auto simp: history_ok_def)
  have le: "fst u < n" if "u \<in> set hist" for u
    using fst_le_last [OF sorted that] assms(2) that by (cases "hist = []") (auto simp: head_of_def last_map)
  have "0 < n"
  proof (cases "hist = []")
    case False
    then have "last hist \<in> set hist" by simp
    then show ?thesis using le pos by (meson less_trans)
  qed (use assms(2) in \<open>simp add: head_of_def\<close>)
  then show "history_ok apply new (hist @ [(n, p)])" "the (replay apply (hist @ [(n, p)]) new) = doc"
    "head_of (hist @ [(n, p)]) = n"
    using assms le pos sorted by (auto simp: history_ok_def sorted_wrt_append replay_append head_of_def split: option.splits)
qed

lemma snapshot_valid_snoc:
  assumes "snapshot_valid apply new hist seq payload" "head_of hist < n" "history_ok apply new hist"
  shows "snapshot_valid apply new (hist @ [(n, p)]) seq payload"
proof -
  obtain u where u: "u \<in> set hist" "seq = fst u" using assms(1) by (auto simp: snapshot_valid_def)
  then have "fst u \<le> fst (last hist)" using assms(3) by (intro fst_le_last) (simp_all add: history_ok_def)
  moreover have "hist \<noteq> []" using u by auto
  ultimately have "\<not> n \<le> seq" using assms(2) u by (simp add: head_of_def last_map)
  then show ?thesis using assms(1) by (auto simp: snapshot_valid_def)
qed

lemma commit_stored:
  assumes "doc_stored apply new hist (su_workspace u) (su_doc u) db" "head_of hist < su_seq u"
    and "apply (su_payload u) (the (replay apply hist new)) \<noteq> None"
    and "\<not> list_ex (same_client_update u) (update_log db)"
  shows "snd (flush_batch_to_postgres [u] db) = db\<lparr>update_log := update_log db @ [u]\<rparr>"
    and "doc_stored apply new (hist @ [(su_seq u, su_payload u)]) (su_workspace u) (su_doc u) (db\<lparr>update_log := update_log db @ [u]\<rparr>)"
proof -
  let ?es = "log_entries (su_workspace u) (su_doc u) db" and ?hist = "hist @ [(su_seq u, su_payload u)]"
  obtain doc where doc: "apply (su_payload u) (the (replay apply hist new)) = Some doc" using assms(3) by blast
  have h: "history_ok apply new hist" "set ?es \<subseteq> set hist" using assms(1) by (simp_all add: doc_stored_def)
  note snoc = history_snoc [OF h(1) assms(2) doc]
  have fresh: "su_seq u \<noteq> fst x" if "x \<in> set hist" for x
    using snoc(1) that by (force simp: history_ok_def sorted_wrt_append)
  have es: "log_entries (su_workspace u) (su_doc u) (db\<lparr>update_log := update_log db @ [u]\<rparr>) = ?es @ [(su_seq u, su_payload u)]"
    by (simp add: log_entries_def logged_for_def)
  have "\<not> list_ex (same_number u) (update_log db)"
  proof
    assume "list_ex (same_number u) (update_log db)"
    then obtain r where "r \<in> set (update_log db)" "same_number u r" by (auto simp: list_ex_iff)
    then have "(su_seq u, su_payload r) \<in> set ?es" by (force simp: same_number_def log_entries_def logged_for_def)
    then show False using h(2) fresh by fastforce
  qed
  then show "snd (flush_batch_to_postgres [u] db) = db\<lparr>update_log := update_log db @ [u]\<rparr>"
    using assms(4) by (simp add: flush_batch_to_postgres_def)
  show "doc_stored apply new ?hist (su_workspace u) (su_doc u) (db\<lparr>update_log := update_log db @ [u]\<rparr>)"
    using assms(1) h fresh snoc(1) snapshot_valid_snoc [OF _ assms(2) h(1)] unfolding doc_stored_def es
    by (auto simp: in_mono)
qed

lemma world_ok_docs:
  assumes "world_ok e w" "distinct (map fst docs)"
    and "\<And>key l. map_of docs key = Some l \<Longrightarrow>
      ld_doc l = doc_state e (rw_hist w key) \<and> ld_head l = head_of (rw_hist w key)"
  shows "world_ok e (w\<lparr>rw_docs := docs\<rparr>)"
  using assms by (simp add: world_ok_def)

lemma world_okD:
  assumes "world_ok e w"
  shows "distinct (map fst (rw_docs w))" "doc_stored (re_apply e) (re_new e) (rw_hist w (ws, d)) ws d (rw_db w)"
    "map_of (rw_docs w) key = Some l \<Longrightarrow> ld_doc l = doc_state e (rw_hist w key)"
    "map_of (rw_docs w) key = Some l \<Longrightarrow> ld_head l = head_of (rw_hist w key)"
  using assms unfolding world_ok_def by blast+

lemma world_ok_commit:
  assumes ok: "world_ok e w" and guard: "relay_op_ok e w (Commit now base u)"
  shows "world_ok e (relay_step e w (Commit now base u))"
proof -
  let ?key = "su_key u" and ?hist = "rw_hist w (su_key u)"
  have key: "?key = (su_workspace u, su_doc u)" by (simp add: su_key_def)
  obtain doc where doc: "re_apply e (su_payload u) (doc_state e ?hist) = Some doc" using guard by auto
  have stored: "doc_stored (re_apply e) (re_new e) ?hist (su_workspace u) (su_doc u) (rw_db w)"
    using world_okD(2) [OF ok] key by simp
  have commit: "snd (flush_batch_to_postgres [u] (rw_db w)) = (rw_db w)\<lparr>update_log := update_log (rw_db w) @ [u]\<rparr>"
    "doc_stored (re_apply e) (re_new e) (?hist @ [(su_seq u, su_payload u)]) (su_workspace u) (su_doc u)
       ((rw_db w)\<lparr>update_log := update_log (rw_db w) @ [u]\<rparr>)"
    using commit_stored [OF stored] guard by (simp_all add: doc_state_def)
  have others: "doc_stored (re_apply e) (re_new e) (rw_hist w (ws, d)) ws d ((rw_db w)\<lparr>update_log := update_log (rw_db w) @ [u]\<rparr>)"
    if "(ws, d) \<noteq> ?key" for ws d
    using world_okD(2) [OF ok, of ws d] that key
    by (subst same_rows(2) [where db = "rw_db w"]) (auto simp: logged_for_def)
  have snoc: "doc_state e (?hist @ [(su_seq u, su_payload u)]) = doc" "head_of (?hist @ [(su_seq u, su_payload u)]) = su_seq u"
    using history_snoc [of "re_apply e" "re_new e" ?hist "su_seq u" "su_payload u" doc] stored guard doc
    by (simp_all add: doc_stored_def doc_state_def)
  define docs where "docs = snd (apply_sequenced_update (re_apply e) now (su_workspace u) (su_doc u) base (su_seq u)
                        (su_payload u) (rw_docs w))"
  have "distinct (map fst docs) \<and> (\<forall>key l. map_of docs key = Some l \<longrightarrow>
     ld_doc l = doc_state e (if key = ?key then ?hist @ [(su_seq u, su_payload u)] else rw_hist w key) \<and>
     ld_head l = head_of (if key = ?key then ?hist @ [(su_seq u, su_payload u)] else rw_hist w key))"
  proof (cases "map_of (rw_docs w) ?key")
    case None
    then have "docs = rw_docs w" by (simp add: docs_def apply_sequenced_update_def key)
    then show ?thesis using None world_okD [OF ok] by auto
  next
    case (Some l)
    then have "docs = AList.update ?key (l\<lparr>ld_doc := doc, ld_head := su_seq u, ld_last_touched := now\<rparr>) (rw_docs w)"
      using guard doc world_okD(3,4) [OF ok Some] by (simp add: docs_def apply_sequenced_update_def key)
    then show ?thesis using world_okD(1,3,4) [OF ok] snoc by (simp add: docs_update)
  qed
  then show ?thesis using commit others unfolding world_ok_def
    by (auto simp: docs_def [symmetric] fun_upd_def key)
qed

lemma world_ok_compact:
  assumes ok: "world_ok e w" and guard: "relay_op_ok e w (Compact db_now c)"
  shows "world_ok e (relay_step e w (Compact db_now c))"
proof -
  obtain res db' where run: "maybe_snapshot_and_compact (re_config e) (re_put e) (re_show_uuid e) (re_show_int e) db_now c (rw_db w) = (res, db')"
    by force
  have "doc_stored (re_apply e) (re_new e) (rw_hist w (ws, d)) ws d db'" for ws d
    using run
  proof (cases rule: maybe_snapshot_cases)
    case written
    show ?thesis
    proof (cases "(ws, d) = (cand_workspace c, cand_doc c)")
      case True
      then show ?thesis using written guard world_okD(2) [OF ok, of ws d]
        by (auto intro!: compaction_tx_stored doc_stored_insert)
    next
      case False
      then show ?thesis using written world_okD(2) [OF ok, of ws d] by (simp add: compaction_tx_other(2) [OF False False])
    qed
  qed (simp add: world_okD(2) [OF ok])
  then show ?thesis using ok run by (simp add: world_ok_def)
qed

lemma world_ok_step: "world_ok e w \<Longrightarrow> relay_op_ok e w op \<Longrightarrow> world_ok e (relay_step e w op)"
proof (cases op)
  case (Subscribe now ws d)
  assume ok: "world_ok e w"
  obtain l where "snd (subscribe (re_new e) (re_apply e) now ws d (load_doc_history ws d (rw_db w)) (rw_docs w)) =
      AList.update (ws, d) l (rw_docs w)" "ld_doc l = doc_state e (rw_hist w (ws, d))" "ld_head l = head_of (rw_hist w (ws, d))"
    using subscribe_result [OF ok, of now ws d] by auto
  then show ?thesis using Subscribe world_okD [OF ok]
    by (auto intro!: world_ok_docs [OF ok] simp: docs_update split: if_splits)
next
  case (Unsubscribe now ws d)
  assume ok: "world_ok e w"
  then show ?thesis using Unsubscribe world_okD [OF ok]
    by (auto intro!: world_ok_docs [OF ok] simp: unsubscribe_def docs_update split: if_splits option.splits)
next
  case (Unload now)
  assume ok: "world_ok e w"
  have "map_of (rw_docs w) key = Some l" if "map_of (filter P (rw_docs w)) key = Some l" for P key l
    using that world_okD(1) [OF ok] by (metis distinct_map_filter filter_is_subset map_of_eq_Some_iff subsetD)
  then show ?thesis using Unload world_okD [OF ok]
    by (auto intro!: world_ok_docs [OF ok] simp: unload_inactive_def distinct_map_filter)
qed (auto intro: world_ok_commit world_ok_compact simp del: relay_step.simps relay_op_ok.simps)

interpretation relay: init_system "relay_step e" "relay_op_ok e" "world_ok e" empty_world for e
proof unfold_locales
  show "world_ok e empty_world" for e :: "'a relay_env"
    by (simp add: world_ok_def empty_world_def doc_stored_def history_ok_def log_entries_def)
qed (rule world_ok_step)

lemma head_grows:
  assumes "relay_op_ok e w op"
  shows "head_of (rw_hist w key) \<le> head_of (rw_hist (relay_step e w op) key)"
  using assms by (cases op) (auto simp: head_of_def)

interpretation relay_heads: grow_system "relay_step e" "relay_op_ok e" "world_ok e" "\<lambda>w. head_of (rw_hist w key)" for e key
  by unfold_locales (simp add: head_grows)

section \<open>Properties\<close>

text \<open>
  (C14) A client that subscribes to a document is always served its whole history. After any
  sequence of subscriptions, commits, compactions and unloads, a subscription succeeds, reports
  the number of the last committed update, and leaves loaded the document that all committed
  updates, in order, make of the empty one; and the reported number never goes back as more
  operations are run.
\<close>

theorem relay_serves_history:
  assumes "run_ok (relay_step e) (relay_op_ok e) empty_world (ops @ later)"
  shows "let w = foldl (relay_step e) empty_world ops;
             w' = foldl (relay_step e) empty_world (ops @ later);
             hist = rw_hist w (ws, d)
         in history_ok (re_apply e) (re_new e) hist \<and>
            (\<exists>docs l. subscribe (re_new e) (re_apply e) now ws d (load_doc_history ws d (rw_db w)) (rw_docs w) =
                (Okay (head_of hist), docs) \<and> map_of docs (ws, d) = Some l \<and>
                replay (re_apply e) hist (re_new e) = Some (ld_doc l)) \<and>
            head_of hist \<le> head_of (rw_hist w' (ws, d))"
proof -
  let ?w = "foldl (relay_step e) empty_world ops"
  have split: "run_ok (relay_step e) (relay_op_ok e) s (xs @ ys) \<longleftrightarrow>
      run_ok (relay_step e) (relay_op_ok e) s xs \<and> run_ok (relay_step e) (relay_op_ok e) (foldl (relay_step e) s xs) ys" for s xs ys
    by (induction xs arbitrary: s) auto
  have ok: "world_ok e ?w" using assms by (intro relay.inv_reachable) (simp add: split)
  have "doc_stored (re_apply e) (re_new e) (rw_hist ?w (ws, d)) ws d (rw_db ?w)" by (rule world_okD(2) [OF ok])
  then have hist: "history_ok (re_apply e) (re_new e) (rw_hist ?w (ws, d))" by (simp add: doc_stored_def)
  then obtain doc where doc: "replay (re_apply e) (rw_hist ?w (ws, d)) (re_new e) = Some doc" by (auto simp: history_ok_def)
  obtain l where l: "subscribe (re_new e) (re_apply e) now ws d (load_doc_history ws d (rw_db ?w)) (rw_docs ?w) =
      (Okay (head_of (rw_hist ?w (ws, d))), AList.update (ws, d) l (rw_docs ?w))"
      "ld_doc l = doc_state e (rw_hist ?w (ws, d))"
    using subscribe_result [OF ok, of now ws d] by auto
  have "head_of (rw_hist ?w (ws, d)) \<le> head_of (rw_hist (foldl (relay_step e) empty_world (ops @ later)) (ws, d))"
    using relay_heads.grow_run [OF ok, of later] assms by (simp add: split)
  moreover have "ld_doc l = doc" using l(2) doc by (simp add: doc_state_def)
  ultimately show ?thesis using hist doc l(1) by (auto simp: Let_def docs_update)
qed

definition demo_env :: "byte list relay_env" where
  "demo_env = \<lparr>re_new = [], re_apply = append_bytes, re_config = default_config\<lparr>retain_snapshots := 1\<rparr>, re_put = None,
               re_show_uuid = (\<lambda>_. []), re_show_int = (\<lambda>_. []), re_inactive_after = 10\<rparr>"

definition demo_update :: "int \<Rightarrow> byte \<Rightarrow> sequenced_update" where
  "demo_update n b = \<lparr>su_workspace = 1, su_doc = 2, su_seq = n, su_client = 5, su_cuid = nat n, su_payload = [b]\<rparr>"

definition demo_ops :: "relay_op list" where
  "demo_ops = [Commit 0 0 (demo_update 1 1), Subscribe 1 1 2, Commit 2 1 (demo_update 3 2),
               Compact 3 demo_candidate, Unsubscribe 4 1 2, Unload 20]"

lemma demo_relay_ops_ok: "run_ok (relay_step demo_env) (relay_op_ok demo_env) empty_world (demo_ops @ [])"
  by (simp add: demo_ops_def empty_world_def demo_env_def demo_update_def su_key_def head_of_def doc_state_def
      append_bytes_def flush_batch_to_postgres_def same_client_update_def same_number_def snapshot_valid_def demo_candidate_def)

theorem relay_serves_history_witness:
  "let w = foldl (relay_step demo_env) empty_world demo_ops in
   rw_docs w = [] \<and>
   (\<exists>docs l. subscribe [] append_bytes 30 1 2 (load_doc_history 1 2 (rw_db w)) (rw_docs w) = (Okay 3, docs) \<and>
      map_of docs (1, 2) = Some l \<and> ld_doc l = [1, 2])"
proof -
  let ?w = "foldl (relay_step demo_env) empty_world demo_ops"
  have hist: "rw_hist ?w (1, 2) = [(1, [1]), (3, [2])]"
    by (simp add: demo_ops_def empty_world_def demo_update_def su_key_def)
  have docs: "rw_docs ?w = []"
    by (simp add: demo_ops_def empty_world_def demo_env_def demo_update_def append_bytes_def subscribe_def touch_subscribed_def
        hydrate_document_def load_doc_history_def snapshots_desc_def flush_batch_to_postgres_def insert_hydrated_def
        apply_sequenced_update_def unsubscribe_def unload_inactive_def is_inactive_def logged_for_def)
  show ?thesis
    using relay_serves_history [OF demo_relay_ops_ok, of 1 2 30] docs
    unfolding Let_def hist by (auto simp: demo_env_def append_bytes_def head_of_def)
qed

end
