(* ===== verification/SectionTracker.thy ===== *)
theory SectionTracker
  imports Sections Origin
begin

text \<open>
  \<open>daemon/src/section/mod.rs\<close>: what changed between two section trees of a document, and the
  tracker that keeps the current tree and who last edited each section. The standard library's
  \<open>DefaultHasher\<close> is the parameter \<open>hash\<close>: what \<open>finish\<close> returns after the given lines were fed
  to a new hasher. A panic is \<open>None\<close>.
\<close>

section \<open>Lines\<close>

text \<open>\<open>str::lines\<close>: a line break and one carriage return before it are cut off.\<close>

definition strip_eol :: "rstr \<Rightarrow> rstr" where
  "strip_eol l =
     (if l \<noteq> [] \<and> last l = 10
      then (if butlast l \<noteq> [] \<and> last (butlast l) = 13 then butlast (butlast l) else butlast l)
      else l)"

definition lines :: "rstr \<Rightarrow> rstr list" where
  "lines s = map strip_eol (split_inclusive 10 [] s)"

lemma length_lines: "length (lines s) = line_count s"
  by (simp add: lines_def line_count_def)

section \<open>Differences\<close>

datatype section_change =
    Added doc_section
  | Removed doc_section
  | Modified doc_section doc_section

text \<open>The lines of a section, \<open>lines[start..end]\<close>.\<close>

definition section_lines :: "rstr list \<Rightarrow> doc_section \<Rightarrow> rstr list option" where
  "section_lines ls s =
     (let start = sec_start s - 1; stop = min (sec_end s - 1) (length ls) in
      if start \<le> stop then Some (take (stop - start) (drop start ls)) else None)"

fun hash_sections :: "(rstr list \<Rightarrow> nat) \<Rightarrow> rstr list \<Rightarrow> doc_section list \<Rightarrow> nat list option" where
  "hash_sections hash ls [] = Some []"
| "hash_sections hash ls (s # ss) = do {
     content \<leftarrow> section_lines ls s;
     hs \<leftarrow> hash_sections hash ls ss;
     Some (hash content # hs)
   }"

definition content_hashes :: "(rstr list \<Rightarrow> nat) \<Rightarrow> rstr \<Rightarrow> doc_section list \<Rightarrow> nat list option" where
  "content_hashes hash markdown sections =
     (if sections = [] then Some [] else hash_sections hash (lines markdown) sections)"

definition section_metadata_differs :: "doc_section \<Rightarrow> doc_section \<Rightarrow> bool" where
  "section_metadata_differs a b \<longleftrightarrow>
     sec_heading a \<noteq> sec_heading b \<or> sec_level a \<noteq> sec_level b \<or> sec_parent a \<noteq> sec_parent b"

text \<open>The hash map from ids to positions and sections; of several entries the last counts.\<close>

definition index_map :: "doc_section list \<Rightarrow> rstr \<Rightarrow> (nat \<times> doc_section) option" where
  "index_map ss = map_of (rev (map (\<lambda>(i, s). (sec_id s, (i, s))) (enumerate 0 ss)))"

fun diff_old ::
  "(rstr \<Rightarrow> (nat \<times> doc_section) option) \<Rightarrow> nat list \<Rightarrow> nat list \<Rightarrow> (nat \<times> doc_section) list \<Rightarrow> section_change list option" where
  "diff_old new_map old_hashes new_hashes [] = Some []"
| "diff_old new_map old_hashes new_hashes ((idx, old_section) # rest) = do {
     change \<leftarrow> (case new_map (sec_id old_section) of
       None \<Rightarrow> Some [Removed old_section]
     | Some (new_idx, new_section) \<Rightarrow>
         if section_metadata_differs old_section new_section then Some [Modified old_section new_section]
         else do {
           h \<leftarrow> nget old_hashes idx;
           h' \<leftarrow> nget new_hashes new_idx;
           Some (if h \<noteq> h' then [Modified old_section new_section] else [])
         });
     changes \<leftarrow> diff_old new_map old_hashes new_hashes rest;
     Some (change @ changes)
   }"

definition diff_sections ::
  "(rstr list \<Rightarrow> nat) \<Rightarrow> doc_section list \<Rightarrow> rstr \<Rightarrow> doc_section list \<Rightarrow> rstr \<Rightarrow> section_change list option" where
  "diff_sections hash old old_md new new_md = do {
     old_hashes \<leftarrow> content_hashes hash old_md old;
     new_hashes \<leftarrow> content_hashes hash new_md new;
     changes \<leftarrow> diff_old (index_map new) old_hashes new_hashes (enumerate 0 old);
     Some (changes @ map Added (filter (\<lambda>s. index_map old (sec_id s) = None) new))
   }"

section \<open>The tracker\<close>

record section_tracker =
  tr_sections :: "doc_section list"
  tr_markdown :: rstr
  tr_last_edited_by :: "rstr \<Rightarrow> origin_tag option"

definition tracker_new :: section_tracker where
  "tracker_new = \<lparr>tr_sections = [], tr_markdown = [], tr_last_edited_by = Map.empty\<rparr>"

fun note_change :: "origin_tag \<Rightarrow> (rstr \<Rightarrow> origin_tag option) \<Rightarrow> section_change \<Rightarrow> rstr \<Rightarrow> origin_tag option" where
  "note_change origin edited (Added s) = edited(sec_id s \<mapsto> origin)"
| "note_change origin edited (Modified old new) = edited(sec_id new \<mapsto> origin)"
| "note_change origin edited (Removed s) = edited(sec_id s := None)"

definition tracker_update ::
  "(rstr \<Rightarrow> rstr) \<Rightarrow> md_parser \<Rightarrow> (rstr list \<Rightarrow> nat) \<Rightarrow> rstr \<Rightarrow> origin_tag option \<Rightarrow> section_tracker \<Rightarrow>
   (section_change list \<times> section_tracker) option" where
  "tracker_update lower parser hash markdown edited_by t = do {
     new_sections \<leftarrow> parse_sections lower parser markdown;
     diff \<leftarrow> diff_sections hash (tr_sections t) (tr_markdown t) new_sections markdown;
     let edited = (case edited_by of
                     Some origin \<Rightarrow> foldl (note_change origin) (tr_last_edited_by t) diff
                   | None \<Rightarrow> tr_last_edited_by t);
     Some (diff, \<lparr>tr_sections = new_sections, tr_markdown = markdown, tr_last_edited_by = edited\<rparr>)
   }"

section \<open>Lemmas\<close>

definition section_text :: "rstr \<Rightarrow> doc_section \<Rightarrow> rstr list" where
  "section_text md s = the (section_lines (lines md) s)"

definition lines_fit :: "rstr \<Rightarrow> doc_section list \<Rightarrow> bool" where
  "lines_fit md ss \<longleftrightarrow> (\<forall>s \<in> set ss. section_lines (lines md) s \<noteq> None)"

lemma content_hashes_eq: "lines_fit md ss \<Longrightarrow> content_hashes hash md ss = Some (map (\<lambda>s. hash (section_text md s)) ss)"
proof -
  have "\<forall>s \<in> set ss. section_lines (lines md) s \<noteq> None \<Longrightarrow>
      hash_sections hash (lines md) ss = Some (map (\<lambda>s. hash (section_text md s)) ss)"
    by (induction ss) (auto simp: section_text_def)
  then show "lines_fit md ss \<Longrightarrow> ?thesis" by (simp add: content_hashes_def lines_fit_def)
qed

lemma index_map_Some:
  assumes "distinct (map sec_id ss)"
  shows "index_map ss k = Some (i, s) \<longleftrightarrow> i < length ss \<and> ss ! i = s \<and> sec_id s = k"
proof -
  have "distinct (map fst (rev (map (\<lambda>(i, s). (sec_id s, (i, s))) (enumerate 0 ss))))"
    using assms by (simp add: rev_map [symmetric] comp_def split_beta flip: map_map [of sec_id snd, unfolded comp_def])
  then show ?thesis unfolding index_map_def
    by (subst map_of_eq_Some_iff) (auto simp: in_set_enumerate_eq)
qed

lemma index_map_None: "index_map ss k = None \<longleftrightarrow> k \<notin> sec_id ` set ss"
proof -
  have "fst ` set (map (\<lambda>(i, s). (sec_id s, (i, s))) (enumerate 0 ss)) = sec_id ` snd ` set (enumerate 0 ss)"
    by (simp add: image_image split_beta)
  also have "snd ` set (enumerate 0 ss) = set ss"
    by (metis map_snd_enumerate set_map)
  finally show ?thesis unfolding index_map_def by (simp only: map_of_eq_None_iff set_rev)
qed

lemma sections_fit:
  assumes "sorted (map sec_start ss)" "\<forall>s \<in> set ss. 1 \<le> sec_start s \<and> sec_start s \<le> line_count md"
    and "map sec_end ss = end_lines (line_count md + 1) (map sec_start ss)"
  shows "lines_fit md ss"
  unfolding lines_fit_def
proof
  fix s assume "s \<in> set ss"
  then obtain i where i: "i < length ss" "s = ss ! i" by (auto simp: in_set_conv_nth)
  have "sec_start s \<le> sec_end s"
  proof (cases "Suc i < length ss")
    case True
    then have "sec_start (ss ! i) \<le> sec_start (ss ! Suc i)"
      using sorted_nth_mono [OF assms(1), of i "Suc i"] by simp
    then show ?thesis using section_end_at [OF assms(3) i(1)] True i(2) by simp
  next
    case False
    then show ?thesis using section_end_at [OF assms(3) i(1)] assms(2) \<open>s \<in> set ss\<close> i(2) by fastforce
  qed
  then show "section_lines (lines md) s \<noteq> None"
    using assms(2) \<open>s \<in> set ss\<close> by (fastforce simp: section_lines_def Let_def length_lines intro: diff_le_mono le_trans [OF diff_le_self])
qed

text \<open>What the tracker holds between updates: the sections of its markdown.\<close>

definition tracked :: "section_tracker \<Rightarrow> bool" where
  "tracked t \<longleftrightarrow> distinct (map sec_id (tr_sections t)) \<and> lines_fit (tr_markdown t) (tr_sections t)"

lemma tracked_new: "tracked tracker_new"
  by (simp add: tracked_def tracker_new_def lines_fit_def)

lemma parse_tracked:
  assumes "events_ok md (parser md)" "line_count md + 1 < 2 ^ 32"
  shows "\<exists>ss. parse_sections lower parser md = Some ss \<and> distinct (map sec_id ss) \<and> lines_fit md ss"
  using parse_sections_shape [of md parser lower] assms sections_fit by blast

text \<open>The changes of the first loop, one old section at a time.\<close>

definition old_change :: "(rstr list \<Rightarrow> nat) \<Rightarrow> rstr \<Rightarrow> doc_section list \<Rightarrow> rstr \<Rightarrow> doc_section \<Rightarrow> section_change list" where
  "old_change hash old_md new new_md s =
     (case index_map new (sec_id s) of
        None \<Rightarrow> [Removed s]
      | Some (_, n) \<Rightarrow>
          if section_metadata_differs s n \<or> hash (section_text old_md s) \<noteq> hash (section_text new_md n)
          then [Modified s n] else [])"

lemma diff_old_eq:
  assumes "distinct (map sec_id new)" "\<forall>(i, s) \<in> set rows. i < length old \<and> old ! i = s"
  shows "diff_old (index_map new) (map (\<lambda>s. hash (section_text old_md s)) old) (map (\<lambda>s. hash (section_text new_md s)) new) rows =
    Some (concat (map (old_change hash old_md new new_md \<circ> snd) rows))"
  using assms(2)
proof (induction rows)
  case (Cons row rows)
  obtain i s where row: "row = (i, s)" "i < length old" "old ! i = s" using Cons.prems by (cases row) auto
  have "j < length new \<and> new ! j = n" if "index_map new (sec_id s) = Some (j, n)" for j n
    using that index_map_Some [OF assms(1)] by simp
  then show ?case using Cons row by (auto simp: old_change_def nget_def split: option.split)
qed simp

lemma diff_sections_eq:
  assumes "distinct (map sec_id new)" "lines_fit old_md old" "lines_fit new_md new"
  shows "diff_sections hash old old_md new new_md =
    Some (concat (map (old_change hash old_md new new_md) old) @ map Added (filter (\<lambda>s. sec_id s \<notin> sec_id ` set old) new))"
proof -
  have "\<forall>(i, s) \<in> set (enumerate 0 old). i < length old \<and> old ! i = s" by (auto simp: in_set_enumerate_eq)
  from diff_old_eq [OF assms(1) this] show ?thesis
    by (simp add: diff_sections_def content_hashes_eq assms(2,3) index_map_None flip: map_map)
qed

text \<open>Every section occurs in at most one change, under its id.\<close>

fun change_id :: "section_change \<Rightarrow> rstr" where
  "change_id (Added s) = sec_id s"
| "change_id (Removed s) = sec_id s"
| "change_id (Modified s n) = sec_id s"

definition edit_of :: "section_change \<Rightarrow> bool" where
  "edit_of c \<longleftrightarrow> (case c of Removed _ \<Rightarrow> False | _ \<Rightarrow> True)"

lemma note_change_eq:
  "(\<forall>s n. c = Modified s n \<longrightarrow> sec_id n = sec_id s) \<Longrightarrow>
   note_change origin edited c = edited(change_id c := if edit_of c then Some origin else None)"
  by (cases c) (auto simp: edit_of_def)

lemma fold_note_changes:
  assumes "distinct (map change_id cs)" "\<forall>s n. Modified s n \<in> set cs \<longrightarrow> sec_id n = sec_id s"
  shows "foldl (note_change origin) edited cs k =
    (if \<exists>c \<in> set cs. change_id c = k \<and> edit_of c then Some origin
     else if \<exists>c \<in> set cs. change_id c = k then None else edited k)"
  using assms
proof (induction cs arbitrary: edited)
  case (Cons c cs)
  have "note_change origin edited c = edited(change_id c := if edit_of c then Some origin else None)"
    by (rule note_change_eq) (metis Cons.prems(2) list.set_intros(1))
  moreover have "\<forall>c' \<in> set cs. change_id c' \<noteq> change_id c" using Cons.prems(1) by (auto simp: image_iff)
  moreover have "distinct (map change_id cs)" "\<forall>s n. Modified s n \<in> set cs \<longrightarrow> sec_id n = sec_id s"
    using Cons.prems by simp_all
  ultimately show ?case using Cons.IH by (cases "change_id c = k") simp_all
qed simp

lemma old_change_id: "distinct (map sec_id new) \<Longrightarrow> c \<in> set (old_change hash old_md new new_md s) \<Longrightarrow>
    change_id c = sec_id s \<and> (\<forall>a n. c = Modified a n \<longrightarrow> a = s \<and> n \<in> set new \<and> sec_id n = sec_id s)"
  by (auto simp: old_change_def index_map_Some split: option.splits if_splits)

lemma diff_distinct:
  assumes "distinct (map sec_id old)" "distinct (map sec_id new)"
  shows "distinct (map change_id (concat (map (old_change hash old_md new new_md) old) @
    map Added (filter (\<lambda>s. sec_id s \<notin> sec_id ` set old) new)))"
proof -
  have one: "length (old_change hash old_md new new_md s) \<le> 1" for s
    by (auto simp: old_change_def split: option.split)
  have ids: "set (map change_id (concat (map (old_change hash old_md new new_md) ss))) \<subseteq> sec_id ` set ss" for ss
    using old_change_id [OF assms(2)] by fastforce
  have "distinct (map change_id (concat (map (old_change hash old_md new new_md) old)))"
    using assms(1)
  proof (induction old)
    case (Cons s ss)
    have "set (map change_id (old_change hash old_md new new_md s)) \<subseteq> {sec_id s}"
      using old_change_id [OF assms(2)] by fastforce
    moreover have "distinct (map change_id (old_change hash old_md new new_md s))"
      using one [of s] by (cases "old_change hash old_md new new_md s") auto
    moreover have "sec_id s \<notin> sec_id ` set ss" "distinct (map change_id (concat (map (old_change hash old_md new new_md) ss)))"
      using Cons by simp_all
    ultimately show ?case using ids [of ss]
      unfolding list.map(2) concat.simps(2) map_append distinct_append by blast
  qed simp
  moreover have "distinct (map change_id (map Added (filter (\<lambda>s. sec_id s \<notin> sec_id ` set old) new)))"
    using assms(2) by (simp add: comp_def distinct_map_filter)
  moreover have "set (map change_id (map Added (filter (\<lambda>s. sec_id s \<notin> sec_id ` set old) new))) \<inter> sec_id ` set old = {}"
    by auto
  ultimately show ?thesis using ids [of old] unfolding map_append distinct_append by blast
qed

text \<open>Two sections have the same text as far as the hash can tell.\<close>

definition no_collision :: "(rstr list \<Rightarrow> nat) \<Rightarrow> rstr \<Rightarrow> doc_section list \<Rightarrow> rstr \<Rightarrow> doc_section list \<Rightarrow> bool" where
  "no_collision hash old_md old new_md new \<longleftrightarrow>
     (\<forall>s \<in> set old. \<forall>n \<in> set new. hash (section_text old_md s) = hash (section_text new_md n) \<longrightarrow> section_text old_md s = section_text new_md n)"

lemma diff_members:
  fixes hash old_md new_md
  assumes "distinct (map sec_id old)" "distinct (map sec_id new)"
  defines "cs \<equiv> concat (map (old_change hash old_md new new_md) old) @ map Added (filter (\<lambda>s. sec_id s \<notin> sec_id ` set old) new)"
  shows "Added s \<in> set cs \<longleftrightarrow> s \<in> set new \<and> sec_id s \<notin> sec_id ` set old"
    and "Removed s \<in> set cs \<longleftrightarrow> s \<in> set old \<and> sec_id s \<notin> sec_id ` set new"
    and "Modified s n \<in> set cs \<longleftrightarrow> s \<in> set old \<and> n \<in> set new \<and> sec_id s = sec_id n \<and>
      (section_metadata_differs s n \<or> hash (section_text old_md s) \<noteq> hash (section_text new_md n))"
proof -
  have added: "Added a \<notin> set (old_change hash old_md new new_md b)" for a b
    by (auto simp: old_change_def split: option.split)
  show "Added s \<in> set cs \<longleftrightarrow> s \<in> set new \<and> sec_id s \<notin> sec_id ` set old" using added by (auto simp: cs_def)
  have removed: "Removed a \<in> set (old_change hash old_md new new_md b) \<longleftrightarrow> a = b \<and> sec_id b \<notin> sec_id ` set new" for a b
    unfolding old_change_def by (auto simp: index_map_None [symmetric] split: option.split)
  show "Removed s \<in> set cs \<longleftrightarrow> s \<in> set old \<and> sec_id s \<notin> sec_id ` set new" using removed by (auto simp: cs_def)
  have look: "(\<exists>i. index_map new (sec_id b) = Some (i, n)) \<longleftrightarrow> n \<in> set new \<and> sec_id b = sec_id n" for b
    using index_map_Some [OF assms(2)] by (metis in_set_conv_nth)
  have "Modified a n \<in> set (old_change hash old_md new new_md b) \<longleftrightarrow> a = b \<and> (\<exists>i. index_map new (sec_id b) = Some (i, n)) \<and>
      (section_metadata_differs b n \<or> hash (section_text old_md b) \<noteq> hash (section_text new_md n))" for a b
    by (auto simp: old_change_def split: option.split)
  then show "Modified s n \<in> set cs \<longleftrightarrow> s \<in> set old \<and> n \<in> set new \<and> sec_id s = sec_id n \<and>
      (section_metadata_differs s n \<or> hash (section_text old_md s) \<noteq> hash (section_text new_md n))"
    unfolding look by (auto simp: cs_def)
qed

text \<open>An update never panics, and what it does to the tracker.\<close>

lemma tracker_update_eq:
  assumes "tracked t" "events_ok md (parser md)" "line_count md + 1 < 2 ^ 32"
  obtains new diff where "parse_sections lower parser md = Some new" "distinct (map sec_id new)" "lines_fit md new"
    "diff = concat (map (old_change hash (tr_markdown t) new md) (tr_sections t)) @
       map Added (filter (\<lambda>s. sec_id s \<notin> sec_id ` set (tr_sections t)) new)"
    "tracker_update lower parser hash md edited_by t =
       Some (diff, \<lparr>tr_sections = new, tr_markdown = md, tr_last_edited_by =
         (case edited_by of Some origin \<Rightarrow> foldl (note_change origin) (tr_last_edited_by t) diff | None \<Rightarrow> tr_last_edited_by t)\<rparr>)"
proof -
  obtain new where new: "parse_sections lower parser md = Some new" "distinct (map sec_id new)" "lines_fit md new"
    using parse_tracked [of md parser lower] assms(2,3) by blast
  have "lines_fit (tr_markdown t) (tr_sections t)" using assms(1) by (simp add: tracked_def)
  from diff_sections_eq [OF new(2) this new(3)] show ?thesis
    by (intro that [OF new refl]) (simp add: tracker_update_def new(1) Let_def)
qed

text \<open>Whose edits the tracker remembers, when every update is attributed.\<close>

definition attributed :: "section_tracker \<Rightarrow> bool" where
  "attributed t \<longleftrightarrow> dom (tr_last_edited_by t) = sec_id ` set (tr_sections t)"

lemma attribution_step:
  assumes "tracked t" "attributed t" "events_ok md (parser md)" "line_count md + 1 < 2 ^ 32"
    and "tracker_update lower parser hash md (Some origin) t = Some (diff, t')"
  shows "tracked t' \<and> attributed t' \<and>
    (\<forall>s \<in> set (tr_sections t'). tr_last_edited_by t' (sec_id s) =
      (if \<exists>c \<in> set diff. edit_of c \<and> change_id c = sec_id s then Some origin else tr_last_edited_by t (sec_id s)))"
proof -
  obtain new where new: "distinct (map sec_id new)" "lines_fit md new"
    and d: "diff = concat (map (old_change hash (tr_markdown t) new md) (tr_sections t)) @
       map Added (filter (\<lambda>s. sec_id s \<notin> sec_id ` set (tr_sections t)) new)"
    and t': "t' = \<lparr>tr_sections = new, tr_markdown = md, tr_last_edited_by = foldl (note_change origin) (tr_last_edited_by t) diff\<rparr>"
    using tracker_update_eq [of t md parser lower hash "Some origin"] assms by auto
  have old: "distinct (map sec_id (tr_sections t))" using assms(1) by (simp add: tracked_def)
  have mem: "Added s \<in> set diff \<longleftrightarrow> s \<in> set new \<and> sec_id s \<notin> sec_id ` set (tr_sections t)"
    "Removed s \<in> set diff \<longleftrightarrow> s \<in> set (tr_sections t) \<and> sec_id s \<notin> sec_id ` set new"
    "Modified s n \<in> set diff \<Longrightarrow> s \<in> set (tr_sections t) \<and> n \<in> set new \<and> sec_id s = sec_id n" for s n
    unfolding d using diff_members [OF old new(1)] by blast+
  have dist: "distinct (map change_id diff)" unfolding d by (rule diff_distinct [OF old new(1)])
  have "\<forall>s n. Modified s n \<in> set diff \<longrightarrow> sec_id n = sec_id s" using mem(3) by metis
  note fold = fold_note_changes [OF dist this, of origin "tr_last_edited_by t"]
  have removed: "change_id c \<notin> sec_id ` set new" if "c \<in> set diff" "\<not> edit_of c" for c
  proof (cases c)
    case (Removed s)
    then show ?thesis using that(1) mem(2) by auto
  qed (use that(2) in \<open>simp_all add: edit_of_def\<close>)
  have edited: "change_id c \<in> sec_id ` set new" if "c \<in> set diff" "edit_of c" for c
  proof (cases c)
    case (Added s)
    then show ?thesis using that(1) mem(1) by auto
  next
    case (Modified s n)
    then show ?thesis using that(1) mem(3) [of s n] by auto
  qed (use that(2) in \<open>simp add: edit_of_def\<close>)
  have gone: "\<exists>c \<in> set diff. change_id c = k" if "k \<in> sec_id ` set (tr_sections t)" "k \<notin> sec_id ` set new" for k
    using that mem(2) by (metis change_id.simps(2) imageE)
  have came: "\<exists>c \<in> set diff. change_id c = k \<and> edit_of c" if "k \<notin> sec_id ` set (tr_sections t)" "k \<in> sec_id ` set new" for k
    using that mem(1) by (fastforce simp: edit_of_def)
  have "attributed t'"
  proof -
    have "tr_last_edited_by t' k \<noteq> None \<longleftrightarrow> k \<in> sec_id ` set new" for k
    proof (cases "\<exists>c \<in> set diff. change_id c = k")
      case True
      show ?thesis
      proof (cases "\<exists>c \<in> set diff. change_id c = k \<and> edit_of c")
        case True
        then have "k \<in> sec_id ` set new" using edited by blast
        then show ?thesis using True by (simp add: t' fold)
      next
        case False
        then have "k \<notin> sec_id ` set new" using \<open>\<exists>c \<in> set diff. change_id c = k\<close> removed by blast
        then show ?thesis using False \<open>\<exists>c \<in> set diff. change_id c = k\<close> by (simp add: t' fold)
      qed
    next
      case False
      then have "tr_last_edited_by t' k = tr_last_edited_by t k" by (auto simp: t' fold)
      moreover have "tr_last_edited_by t k \<noteq> None \<longleftrightarrow> k \<in> sec_id ` set (tr_sections t)"
        using assms(2) unfolding attributed_def by (metis domIff)
      ultimately show ?thesis using False gone came by metis
    qed
    then show ?thesis by (auto simp: attributed_def t')
  qed
  moreover have "tr_last_edited_by t' (sec_id s) =
      (if \<exists>c \<in> set diff. edit_of c \<and> change_id c = sec_id s then Some origin else tr_last_edited_by t (sec_id s))"
    if "s \<in> set new" for s
    using that removed by (auto simp: t' fold)
  moreover have "tracked t'" using new by (simp add: tracked_def t')
  ultimately show ?thesis by (simp add: t')
qed

definition track_step ::
  "(rstr \<Rightarrow> rstr) \<Rightarrow> md_parser \<Rightarrow> (rstr list \<Rightarrow> nat) \<Rightarrow> section_tracker \<Rightarrow> rstr \<times> origin_tag \<Rightarrow> section_tracker" where
  "track_step lower parser hash t op =
     (case tracker_update lower parser hash (fst op) (Some (snd op)) t of Some (_, t') \<Rightarrow> t' | None \<Rightarrow> t)"

definition track_ok :: "md_parser \<Rightarrow> section_tracker \<Rightarrow> rstr \<times> origin_tag \<Rightarrow> bool" where
  "track_ok parser t op \<longleftrightarrow> events_ok (fst op) (parser (fst op)) \<and> line_count (fst op) + 1 < 2 ^ 32"

interpretation tracker: init_system "track_step lower parser hash" "track_ok parser" "\<lambda>t. tracked t \<and> attributed t" tracker_new
  for lower parser hash
proof unfold_locales
  fix t and op :: "rstr \<times> origin_tag"
  assume "tracked t \<and> attributed t" "track_ok parser t op"
  then show "tracked (track_step lower parser hash t op) \<and> attributed (track_step lower parser hash t op)"
    using attribution_step [of t "fst op" parser lower hash "snd op"]
    by (auto simp: track_step_def track_ok_def split: option.split)
next
  show "tracked tracker_new \<and> attributed tracker_new"
    using tracked_new by (simp add: attributed_def tracker_new_def)
qed

section \<open>Properties\<close>

text \<open>
  (C15) An update of a tracker never panics and reports exactly what changed. A section is reported
  added when its id is new, removed when its id is gone, each section in one change at most; and,
  unless two different texts have the same hash, modified exactly when its heading, level, parent
  or text changed, so a section that only moved to other lines is not reported.
\<close>

theorem tracker_reports_changes:
  assumes "tracked t" "events_ok md (parser md)" "line_count md + 1 < 2 ^ 32"
  shows "\<exists>new diff t'. parse_sections lower parser md = Some new \<and>
    tracker_update lower parser hash md edited_by t = Some (diff, t') \<and>
    tracked t' \<and> tr_sections t' = new \<and> tr_markdown t' = md \<and> distinct (map change_id diff) \<and>
    (\<forall>s. Added s \<in> set diff \<longleftrightarrow> s \<in> set new \<and> sec_id s \<notin> sec_id ` set (tr_sections t)) \<and>
    (\<forall>s. Removed s \<in> set diff \<longleftrightarrow> s \<in> set (tr_sections t) \<and> sec_id s \<notin> sec_id ` set new) \<and>
    (no_collision hash (tr_markdown t) (tr_sections t) md new \<longrightarrow>
      (\<forall>s n. Modified s n \<in> set diff \<longleftrightarrow> s \<in> set (tr_sections t) \<and> n \<in> set new \<and> sec_id s = sec_id n \<and>
         (section_metadata_differs s n \<or> section_text (tr_markdown t) s \<noteq> section_text md n)))"
proof -
  obtain new diff where new: "parse_sections lower parser md = Some new" "distinct (map sec_id new)" "lines_fit md new"
    and d: "diff = concat (map (old_change hash (tr_markdown t) new md) (tr_sections t)) @
       map Added (filter (\<lambda>s. sec_id s \<notin> sec_id ` set (tr_sections t)) new)"
    and u: "tracker_update lower parser hash md edited_by t =
       Some (diff, \<lparr>tr_sections = new, tr_markdown = md, tr_last_edited_by =
         (case edited_by of Some origin \<Rightarrow> foldl (note_change origin) (tr_last_edited_by t) diff | None \<Rightarrow> tr_last_edited_by t)\<rparr>)"
    using tracker_update_eq [of t md parser lower hash edited_by] assms by metis
  have old: "distinct (map sec_id (tr_sections t))" using assms(1) by (simp add: tracked_def)
  note mem = diff_members [OF old new(2), where hash = hash and old_md = "tr_markdown t" and new_md = md, folded d]
  have "Modified s n \<in> set diff \<longleftrightarrow> s \<in> set (tr_sections t) \<and> n \<in> set new \<and> sec_id s = sec_id n \<and>
         (section_metadata_differs s n \<or> section_text (tr_markdown t) s \<noteq> section_text md n)"
    if "no_collision hash (tr_markdown t) (tr_sections t) md new" for s n
    using that mem(3) [of s n] unfolding no_collision_def by metis
  then show ?thesis
    using new u mem(1,2) diff_distinct [OF old new(2), of hash "tr_markdown t" md, folded d]
    by (intro exI [of _ new] exI [of _ diff]) (auto simp: tracked_def)
qed

theorem tracker_reports_changes_witness:
  "\<exists>new diff t'. parse_sections to_ascii_lowercase demo_parser demo_md = Some new \<and>
    tracker_update to_ascii_lowercase demo_parser length demo_md None tracker_new = Some (diff, t') \<and>
    tr_sections t' = new \<and> (\<forall>s. Added s \<in> set diff \<longleftrightarrow> s \<in> set new)"
proof -
  have "line_count demo_md = 3" by code_simp
  then have "line_count demo_md + 1 < 2 ^ 32" by simp
  from tracker_reports_changes [where parser = demo_parser, OF tracked_new demo_events_ok this, of to_ascii_lowercase length None]
  show ?thesis by (auto simp: tracker_new_def)
qed

text \<open>
  Attribution: after any sequence of attributed updates, the tracker names a last editor for
  exactly the sections of the current document; and one more update gives its own tag to the
  sections it added or modified and leaves the others their editor.
\<close>

theorem tracker_attribution:
  assumes "run_ok (track_step lower parser hash) (track_ok parser) tracker_new ops"
    and "t = foldl (track_step lower parser hash) tracker_new ops"
    and "track_ok parser t (md, origin)"
  shows "dom (tr_last_edited_by t) = sec_id ` set (tr_sections t) \<and>
    (\<exists>diff t'. tracker_update lower parser hash md (Some origin) t = Some (diff, t') \<and>
      (\<forall>s \<in> set (tr_sections t'). tr_last_edited_by t' (sec_id s) =
        (if \<exists>c \<in> set diff. edit_of c \<and> change_id c = sec_id s then Some origin else tr_last_edited_by t (sec_id s))))"
proof -
  have inv: "tracked t" "attributed t" using tracker.inv_reachable [OF assms(1)] assms(2) by auto
  have ok: "events_ok md (parser md)" "line_count md + 1 < 2 ^ 32" using assms(3) by (auto simp: track_ok_def)
  obtain diff t' where u: "tracker_update lower parser hash md (Some origin) t = Some (diff, t')"
    using tracker_update_eq [of t md parser lower hash "Some origin"] inv(1) ok by metis
  show ?thesis using attribution_step [OF inv _ _ u] ok u inv(2) by (auto simp: attributed_def)
qed

definition demo_tag :: origin_tag where
  "demo_tag = \<lparr>author_id = [97], author_type = Human, tag_timestamp = 0\<rparr>"

theorem tracker_attribution_witness:
  "let t = track_step to_ascii_lowercase demo_parser length tracker_new (demo_md, demo_tag) in
   dom (tr_last_edited_by t) = sec_id ` set (tr_sections t) \<and>
   (\<exists>diff t'. tracker_update to_ascii_lowercase demo_parser length demo_md (Some demo_tag) t = Some (diff, t'))"
proof -
  have "line_count demo_md = 3" by code_simp
  then have "\<And>t. track_ok demo_parser t (demo_md, demo_tag)" using demo_events_ok by (simp add: track_ok_def)
  then show ?thesis
    using tracker_attribution [of to_ascii_lowercase demo_parser length "[(demo_md, demo_tag)]"]
    by (fastforce simp: Let_def)
qed

end
