(* ===== verification/Overlap.thy ===== *)
theory Overlap
  imports SectionTracker "HOL-Library.AList" "HOL-Library.List_Lexorder"
begin

text \<open>
  \<open>daemon/src/section/overlap.rs\<close>: which editors work in the same section of a document, and
  whether two of them are in the same paragraph. Line numbers and offsets are \<open>u32\<close>; sums that
  leave the range wrap as in release builds.
\<close>

section \<open>Positions and overlaps\<close>

datatype editor_type = EditorHuman | EditorAgent

record editor_position =
  ep_name :: rstr
  ep_type :: editor_type
  ep_line :: nat
  ep_ch :: nat
  ep_last_edit_at :: timestamp

record overlap_editor =
  oe_name :: rstr
  oe_type :: editor_type
  oe_cursor_offset :: nat
  oe_last_edit_at :: timestamp

datatype overlap_severity = Info | Warning

record section_overlap =
  so_section :: doc_section
  so_editors :: "overlap_editor list"
  so_severity :: overlap_severity

text \<open>\<open>Iterator::max_by_key\<close>: of several greatest elements the last one.\<close>

definition max_by_key :: "('a \<Rightarrow> nat) \<Rightarrow> 'a list \<Rightarrow> 'a option" where
  "max_by_key f xs = fold (\<lambda>x acc. case acc of None \<Rightarrow> Some x | Some y \<Rightarrow> if f y \<le> f x then Some x else Some y) xs None"

definition find_section_for_line :: "doc_section list \<Rightarrow> nat \<Rightarrow> doc_section option" where
  "find_section_for_line sections line =
     max_by_key sec_level (filter (\<lambda>s. line \<ge> sec_start s \<and> line < sec_end s) sections)"

definition compute_cursor_offset :: "doc_section \<Rightarrow> nat \<Rightarrow> nat \<Rightarrow> nat" where
  "compute_cursor_offset s line ch = u32 (u32 ((line - sec_start s) * 80) + ch)"

text \<open>The loop of \<open>build_paragraph_map\<close> from the line with index \<open>i\<close> on.\<close>

fun paragraph_loop :: "rstr list \<Rightarrow> nat \<Rightarrow> nat \<Rightarrow> bool \<Rightarrow> (nat \<Rightarrow> nat option) \<Rightarrow> nat \<Rightarrow> nat option" where
  "paragraph_loop [] i idx in_paragraph m = m"
| "paragraph_loop (line # rest) i idx in_paragraph m =
     (let line_num = u32 (i + 1) in
      if trim line = []
      then let idx1 = u32 (idx + 1) in paragraph_loop rest (i + 1) (u32 (idx1 + 1)) False (m(line_num \<mapsto> idx1))
      else let idx1 = (if in_paragraph then idx else u32 (idx + 1))
           in paragraph_loop rest (i + 1) idx1 True (m(line_num \<mapsto> idx1)))"

definition build_paragraph_map :: "rstr \<Rightarrow> nat \<Rightarrow> nat option" where
  "build_paragraph_map content = paragraph_loop (lines content) 0 0 False Map.empty"

fun has_pair :: "nat option list \<Rightarrow> bool" where
  "has_pair [] \<longleftrightarrow> False"
| "has_pair (p # ps) \<longleftrightarrow> p \<noteq> None \<and> list_ex (\<lambda>q. q = p) ps \<or> has_pair ps"

definition classify_severity :: "(doc_section \<times> editor_position) list \<Rightarrow> (nat \<Rightarrow> nat option) \<Rightarrow> overlap_severity" where
  "classify_severity grp paragraph_map =
     (if has_pair (map (\<lambda>(_, e). paragraph_map (ep_line e)) grp) then Warning else Info)"

type_synonym groups = "(rstr \<times> (doc_section \<times> editor_position) list) list"

text \<open>
  The hash map from section ids to editors, its keys in the order of their first editor; the
  order does not matter, since the overlaps are sorted by it afterwards.
\<close>

definition push_editor :: "doc_section list \<Rightarrow> editor_position \<Rightarrow> groups \<Rightarrow> groups" where
  "push_editor sections e gs =
     (case find_section_for_line sections (ep_line e) of
        None \<Rightarrow> gs
      | Some s \<Rightarrow>
          AList.update (sec_id s) ((case map_of gs (sec_id s) of Some g \<Rightarrow> g | None \<Rightarrow> []) @ [(s, e)]) gs)"

definition overlap_of :: "(nat \<Rightarrow> nat option) \<Rightarrow> (doc_section \<times> editor_position) list \<Rightarrow> section_overlap" where
  "overlap_of paragraph_map grp =
     \<lparr>so_section = fst (grp ! 0),
      so_editors = map (\<lambda>(s, e). \<lparr>oe_name = ep_name e, oe_type = ep_type e,
         oe_cursor_offset = compute_cursor_offset s (ep_line e) (ep_ch e), oe_last_edit_at = ep_last_edit_at e\<rparr>) grp,
      so_severity = classify_severity grp paragraph_map\<rparr>"

definition detect_overlaps :: "doc_section list \<Rightarrow> editor_position list \<Rightarrow> rstr \<Rightarrow> section_overlap list" where
  "detect_overlaps sections editors content =
     (if length editors < 2 \<or> sections = [] then []
      else
        let editors_by_section = fold (push_editor sections) editors [];
            paragraph_map = build_paragraph_map content
        in sort_key (\<lambda>o'. sec_id (so_section o'))
             (map (\<lambda>(_, grp). overlap_of paragraph_map grp)
                (filter (\<lambda>(_, grp). length grp \<ge> 2) editors_by_section)))"

section \<open>Paragraphs\<close>

text \<open>
  Two lines are in the same paragraph when they are the same line of the document or every line
  from one to the other is not blank.
\<close>

definition same_paragraph :: "rstr \<Rightarrow> nat \<Rightarrow> nat \<Rightarrow> bool" where
  "same_paragraph content a b \<longleftrightarrow>
     1 \<le> min a b \<and> max a b \<le> line_count content \<and>
     (a = b \<or> (\<forall>k \<in> {min a b..max a b}. trim (lines content ! (k - 1)) \<noteq> []))"

text \<open>The paragraph numbers of the lines, without wrapping.\<close>

fun par_ids :: "bool list \<Rightarrow> nat \<Rightarrow> bool \<Rightarrow> nat list" where
  "par_ids [] idx inp = []"
| "par_ids (blank # bs) idx inp =
     (if blank then (idx + 1) # par_ids bs (idx + 2) False
      else let idx1 = (if inp then idx else idx + 1) in idx1 # par_ids bs idx1 True)"

lemma length_par_ids [simp]: "length (par_ids bs idx inp) = length bs"
  by (induction bs arbitrary: idx inp) (auto simp: Let_def)

lemma par_ids_ge: "k < length bs \<Longrightarrow> idx \<le> par_ids bs idx inp ! k"
proof (induction bs arbitrary: idx inp k)
  case (Cons b bs)
  show ?case
  proof (cases k)
    case (Suc j)
    then have "idx + 2 \<le> par_ids bs (idx + 2) False ! j" "idx \<le> par_ids bs idx True ! j" "idx + 1 \<le> par_ids bs (idx + 1) True ! j"
      using Cons.prems Cons.IH [of j] by simp_all
    then show ?thesis using Suc by (auto simp: Let_def)
  qed (auto simp: Let_def)
qed simp

lemma par_ids_eq_start:
  "k < length bs \<Longrightarrow> par_ids bs idx inp ! k = idx \<longleftrightarrow> inp \<and> (\<forall>j \<le> k. \<not> bs ! j)"
proof (induction bs arbitrary: idx inp k)
  case (Cons b bs)
  show ?case
  proof (cases k)
    case (Suc j)
    have all: "(\<forall>i \<le> Suc j. \<not> (b # bs) ! i) \<longleftrightarrow> \<not> b \<and> (\<forall>i \<le> j. \<not> bs ! i)"
      by (simp add: All_less_Suc2 less_Suc_eq_le [symmetric] del: less_Suc_eq_le)
    have ge: "idx + 2 \<le> par_ids bs (idx + 2) False ! j" "idx + 1 \<le> par_ids bs (idx + 1) True ! j"
      using Cons.prems Suc par_ids_ge by simp_all
    show ?thesis using Suc Cons.prems Cons.IH [of j idx True] ge all by (auto simp: Let_def)
  qed (auto simp: Let_def)
qed simp

lemma par_ids_eq:
  "a < b \<Longrightarrow> b < length bs \<Longrightarrow> par_ids bs idx inp ! a = par_ids bs idx inp ! b \<longleftrightarrow> (\<forall>k. a \<le> k \<and> k \<le> b \<longrightarrow> \<not> bs ! k)"
proof (induction bs arbitrary: idx inp a b)
  case (Cons c bs)
  obtain j where b: "b = Suc j" using Cons.prems(1) by (cases b) auto
  show ?case
  proof (cases a)
    case 0
    have all: "(\<forall>k. 0 \<le> k \<and> k \<le> Suc j \<longrightarrow> \<not> (c # bs) ! k) \<longleftrightarrow> \<not> c \<and> (\<forall>i \<le> j. \<not> bs ! i)"
      by (simp add: All_less_Suc2 less_Suc_eq_le [symmetric] del: less_Suc_eq_le)
    have ge: "idx + 2 \<le> par_ids bs (idx + 2) False ! j" using Cons.prems b par_ids_ge by simp
    have "x = par_ids bs x True ! j \<longleftrightarrow> (\<forall>i \<le> j. \<not> bs ! i)" for x
      using par_ids_eq_start [of j bs x True] Cons.prems b by (metis length_Cons Suc_less_eq)
    then show ?thesis unfolding 0 b all using ge by (auto simp: Let_def)
  next
    case (Suc i)
    have "(\<forall>k. Suc i \<le> k \<and> k \<le> Suc j \<longrightarrow> \<not> (c # bs) ! k) \<longleftrightarrow> (\<forall>k. i \<le> k \<and> k \<le> j \<longrightarrow> \<not> bs ! k)"
      by (metis Suc_le_D Suc_le_mono nth_Cons_Suc)
    then show ?thesis unfolding Suc b using Cons.IH [of i j] Cons.prems Suc b by (simp add: Let_def)
  qed
qed simp

lemma paragraph_loop_eq:
  "i + length ls < 2 ^ 32 \<Longrightarrow> idx + 2 * length ls < 2 ^ 32 \<Longrightarrow>
   paragraph_loop ls i idx inp m k =
     (if i < k \<and> k \<le> i + length ls then Some (par_ids (map (\<lambda>l. trim l = []) ls) idx inp ! (k - i - 1)) else m k)"
proof (induction ls arbitrary: i idx inp m)
  case (Cons l ls)
  have k: "k - i - 1 = Suc (k - Suc i - 1)" if "Suc i < k" using that by simp
  have cases: "k \<le> i \<or> k = Suc i \<or> Suc i < k" by linarith
  show ?case
  proof (cases "trim l = []")
    case True
    then show ?thesis using Cons.prems Cons.IH [of "Suc i" "idx + 2" False] cases k by (auto simp: Let_def)
  next
    case False
    then show ?thesis
      using Cons.prems Cons.IH [of "Suc i" idx True] Cons.IH [of "Suc i" "Suc idx" True] cases k by (auto simp: Let_def)
  qed
qed auto

lemma paragraph_map_same:
  assumes "2 * line_count content < 2 ^ 32"
  shows "build_paragraph_map content a \<noteq> None \<and> build_paragraph_map content a = build_paragraph_map content b \<longleftrightarrow>
    same_paragraph content a b"
proof -
  let ?n = "line_count content" and ?ids = "par_ids (map (\<lambda>l. trim l = []) (lines content)) 0 False"
  have pm: "build_paragraph_map content k = (if 1 \<le> k \<and> k \<le> ?n then Some (?ids ! (k - 1)) else None)" for k
    using assms by (simp add: build_paragraph_map_def paragraph_loop_eq length_lines Suc_le_eq)
  have ids: "?ids ! (x - 1) = ?ids ! (y - 1) \<longleftrightarrow> (\<forall>k \<in> {x..y}. trim (lines content ! (k - 1)) \<noteq> [])"
    if "1 \<le> x" "x < y" "y \<le> ?n" for x y
  proof -
    have "?ids ! (x - 1) = ?ids ! (y - 1) \<longleftrightarrow> (\<forall>k. x - 1 \<le> k \<and> k \<le> y - 1 \<longrightarrow> trim (lines content ! k) \<noteq> [])"
      using that by (subst par_ids_eq) (auto simp: length_lines)
    also have "\<dots> \<longleftrightarrow> (\<forall>k \<in> {x..y}. trim (lines content ! (k - 1)) \<noteq> [])"
    proof (intro iffI ballI allI impI)
      fix k assume h: "\<forall>k. x - 1 \<le> k \<and> k \<le> y - 1 \<longrightarrow> trim (lines content ! k) \<noteq> []" and "k \<in> {x..y}"
      then show "trim (lines content ! (k - 1)) \<noteq> []" by (simp add: diff_le_mono)
    next
      fix k assume h: "\<forall>k \<in> {x..y}. trim (lines content ! (k - 1)) \<noteq> []" and "x - 1 \<le> k \<and> k \<le> y - 1"
      then have "Suc k \<in> {x..y}" using that by auto
      then show "trim (lines content ! k) \<noteq> []" using h by fastforce
    qed
    finally show ?thesis .
  qed
  consider "a = b" | "a < b" | "b < a" by linarith
  then show ?thesis
  proof cases
    case 1
    then show ?thesis by (simp add: pm same_paragraph_def)
  next
    case 2
    then show ?thesis using ids [of a b] by (auto simp: pm same_paragraph_def min_def max_def)
  next
    case 3
    then show ?thesis using ids [of b a] by (auto simp: pm same_paragraph_def min_def max_def)
  qed
qed

section \<open>Groups\<close>

lemma max_by_key_fold:
  fixes f :: "'a \<Rightarrow> nat"
  defines "step \<equiv> \<lambda>x acc. case acc of None \<Rightarrow> Some x | Some y \<Rightarrow> if f y \<le> f x then Some x else Some y"
  shows "\<exists>z. fold step xs (Some y) = Some z \<and> z \<in> insert y (set xs) \<and> (\<forall>x \<in> insert y (set xs). f x \<le> f z)"
proof (induction xs arbitrary: y)
  case (Cons x xs)
  obtain z where "fold step xs (Some (if f y \<le> f x then x else y)) = Some z"
    "z \<in> insert (if f y \<le> f x then x else y) (set xs)" "\<forall>w \<in> insert (if f y \<le> f x then x else y) (set xs). f w \<le> f z"
    using Cons.IH by blast
  then show ?case by (intro exI [of _ z]) (auto simp: step_def split: if_splits)
qed simp

lemma max_by_key_props:
  "max_by_key f xs = Some z \<Longrightarrow> z \<in> set xs \<and> (\<forall>x \<in> set xs. f x \<le> f z)"
  "max_by_key f xs = None \<longleftrightarrow> xs = []"
proof -
  have "xs = [] \<or> (\<exists>z. max_by_key f xs = Some z \<and> z \<in> set xs \<and> (\<forall>x \<in> set xs. f x \<le> f z))"
    using max_by_key_fold [of f "tl xs" "hd xs"] by (cases xs) (auto simp: max_by_key_def)
  then show "max_by_key f xs = Some z \<Longrightarrow> z \<in> set xs \<and> (\<forall>x \<in> set xs. f x \<le> f z)" "max_by_key f xs = None \<longleftrightarrow> xs = []"
    by (auto simp: max_by_key_def)
qed

text \<open>The innermost section of a line, and no section when none contains the line.\<close>

lemma find_section_props:
  "find_section_for_line sections line = Some s \<Longrightarrow>
   s \<in> set sections \<and> sec_start s \<le> line \<and> line < sec_end s \<and>
   (\<forall>t \<in> set sections. sec_start t \<le> line \<and> line < sec_end t \<longrightarrow> sec_level t \<le> sec_level s)"
  "find_section_for_line sections line = None \<longleftrightarrow> (\<forall>s \<in> set sections. \<not> (sec_start s \<le> line \<and> line < sec_end s))"
  unfolding find_section_for_line_def
  by (auto dest!: max_by_key_props(1) simp: max_by_key_props(2) filter_empty_conv)

definition group_of :: "doc_section list \<Rightarrow> editor_position list \<Rightarrow> rstr \<Rightarrow> (doc_section \<times> editor_position) list" where
  "group_of sections es k =
     List.map_filter (\<lambda>e. case find_section_for_line sections (ep_line e) of
        Some s \<Rightarrow> if sec_id s = k then Some (s, e) else None | None \<Rightarrow> None) es"

lemma group_of_snoc:
  "group_of sections (es @ [e]) k = group_of sections es k @
     (case find_section_for_line sections (ep_line e) of Some s \<Rightarrow> if sec_id s = k then [(s, e)] else [] | None \<Rightarrow> [])"
  by (simp add: group_of_def List.map_filter_def split: option.split)

lemma groups_eq:
  "map_of (fold (push_editor sections) es []) k =
     (if group_of sections es k = [] then None else Some (group_of sections es k)) \<and>
   distinct (map fst (fold (push_editor sections) es []))"
proof (induction es arbitrary: k rule: rev_induct)
  case (snoc e es)
  show ?case
  proof (cases "find_section_for_line sections (ep_line e)")
    case None
    then show ?thesis using snoc [of k] by (simp add: push_editor_def group_of_snoc)
  next
    case (Some s)
    then show ?thesis using snoc [of k] snoc [of "sec_id s"]
      by (simp add: push_editor_def group_of_snoc update_conv' distinct_update)
  qed
qed (simp add: group_of_def List.map_filter_def)

definition occupants :: "doc_section list \<Rightarrow> editor_position list \<Rightarrow> doc_section \<Rightarrow> editor_position list" where
  "occupants sections editors s = filter (\<lambda>e. find_section_for_line sections (ep_line e) = Some s) editors"

lemma group_of_occupants:
  assumes "distinct (map sec_id sections)" "s \<in> set sections"
  shows "group_of sections es (sec_id s) = map (Pair s) (occupants sections es s)"
proof (induction es)
  case (Cons e es)
  have "t = s" if "find_section_for_line sections (ep_line e) = Some t" "sec_id t = sec_id s" for t
    using find_section_props(1) [OF that(1)] assms that(2) by (metis distinct_map inj_onD)
  then show ?case using Cons
    by (auto simp: group_of_def occupants_def List.map_filter_def split: option.split)
qed (simp add: group_of_def occupants_def List.map_filter_def)

lemma group_of_nonempty:
  assumes "group_of sections es k \<noteq> []"
  obtains s where "s \<in> set sections" "sec_id s = k"
proof -
  obtain s e where "(s, e) \<in> set (group_of sections es k)" using assms by (metis list.set_intros(1) neq_Nil_conv surj_pair)
  then have "find_section_for_line sections (ep_line e) = Some s" "sec_id s = k"
    by (auto simp: group_of_def List.map_filter_def split: option.splits if_splits)
  then show ?thesis using that find_section_props(1) by blast
qed

lemma has_pair_iff:
  "has_pair ps \<longleftrightarrow> (\<exists>i j. i < j \<and> j < length ps \<and> ps ! i \<noteq> None \<and> ps ! i = ps ! j)"
proof (induction ps)
  case (Cons p ps)
  show ?case
  proof
    assume "has_pair (p # ps)"
    then consider "p \<noteq> None" "p \<in> set ps" | "has_pair ps" by (auto simp: list_ex_iff)
    then show "\<exists>i j. i < j \<and> j < length (p # ps) \<and> (p # ps) ! i \<noteq> None \<and> (p # ps) ! i = (p # ps) ! j"
    proof cases
      case 1
      then obtain j where "j < length ps" "ps ! j = p" by (auto simp: in_set_conv_nth)
      then show ?thesis using 1 by (intro exI [of _ 0] exI [of _ "Suc j"]) auto
    next
      case 2
      then obtain i j where "i < j" "j < length ps" "ps ! i \<noteq> None" "ps ! i = ps ! j" using Cons.IH by blast
      then show ?thesis by (intro exI [of _ "Suc i"] exI [of _ "Suc j"]) auto
    qed
  next
    assume "\<exists>i j. i < j \<and> j < length (p # ps) \<and> (p # ps) ! i \<noteq> None \<and> (p # ps) ! i = (p # ps) ! j"
    then obtain i j where ij: "i < j" "j < length (p # ps)" "(p # ps) ! i \<noteq> None" "(p # ps) ! i = (p # ps) ! j" by blast
    then obtain j' where "j = Suc j'" by (cases j) auto
    show "has_pair (p # ps)"
    proof (cases i)
      case 0
      then have "p \<noteq> None" "ps ! j' = p" "j' < length ps" using ij \<open>j = Suc j'\<close> by auto
      then show ?thesis by (auto simp: list_ex_iff in_set_conv_nth)
    next
      case (Suc i')
      then have "i' < j'" "j' < length ps" "ps ! i' \<noteq> None" "ps ! i' = ps ! j'" using ij \<open>j = Suc j'\<close> by auto
      then have "has_pair ps" using Cons.IH by blast
      then show ?thesis by simp
    qed
  qed
qed simp

section \<open>Properties\<close>

text \<open>The overlap of a section with its editors, as it should be reported.\<close>

definition report_for :: "doc_section list \<Rightarrow> editor_position list \<Rightarrow> rstr \<Rightarrow> doc_section \<Rightarrow> section_overlap" where
  "report_for sections editors md s =
     (let es = occupants sections editors s in
      \<lparr>so_section = s,
       so_editors = map (\<lambda>e. \<lparr>oe_name = ep_name e, oe_type = ep_type e,
         oe_cursor_offset = compute_cursor_offset s (ep_line e) (ep_ch e), oe_last_edit_at = ep_last_edit_at e\<rparr>) es,
       so_severity =
         (if \<exists>i j. i < j \<and> j < length es \<and> same_paragraph md (ep_line (es ! i)) (ep_line (es ! j))
          then Warning else Info)\<rparr>)"

lemma overlap_of_group:
  assumes "occupants sections editors s \<noteq> []" "2 * line_count md < 2 ^ 32"
  shows "overlap_of (build_paragraph_map md) (map (Pair s) (occupants sections editors s)) = report_for sections editors md s"
proof -
  let ?es = "occupants sections editors s" and ?pm = "build_paragraph_map md"
  have "has_pair (map (\<lambda>e. ?pm (ep_line e)) ?es) \<longleftrightarrow>
      (\<exists>i j. i < j \<and> j < length ?es \<and> same_paragraph md (ep_line (?es ! i)) (ep_line (?es ! j)))"
  proof -
    have "(i < j \<and> j < length ?es \<and> map (\<lambda>e. ?pm (ep_line e)) ?es ! i \<noteq> None \<and>
        map (\<lambda>e. ?pm (ep_line e)) ?es ! i = map (\<lambda>e. ?pm (ep_line e)) ?es ! j) \<longleftrightarrow>
        (i < j \<and> j < length ?es \<and> same_paragraph md (ep_line (?es ! i)) (ep_line (?es ! j)))" for i j
      using paragraph_map_same [OF assms(2), of "ep_line (?es ! i)" "ep_line (?es ! j)"]
      by (metis (no_types, lifting) dual_order.strict_trans nth_map)
    then show ?thesis unfolding has_pair_iff by simp
  qed
  moreover have "fst (map (Pair s) ?es ! 0) = s" using assms(1) by (cases ?es) auto
  ultimately show ?thesis
    by (simp add: overlap_of_def report_for_def Let_def classify_severity_def comp_def)
qed

text \<open>
  The overlaps are exact. Every line belongs to its innermost section; the overlaps are in
  strictly ascending order of section ids; there is one for exactly the sections that at least
  two editors are in, and it lists these editors in order, with severity \<open>Warning\<close> exactly when
  two of them are in the same paragraph.
\<close>

theorem overlaps_exact:
  assumes "distinct (map sec_id sections)" "2 * line_count md < 2 ^ 32"
  shows "sorted_wrt (<) (map (\<lambda>r. sec_id (so_section r)) (detect_overlaps sections editors md)) \<and>
    set (detect_overlaps sections editors md) =
      report_for sections editors md ` {s \<in> set sections. 2 \<le> length (occupants sections editors s)} \<and>
    (\<forall>s e. e \<in> set (occupants sections editors s) \<longleftrightarrow>
      e \<in> set editors \<and> find_section_for_line sections (ep_line e) = Some s)"
proof (cases "length editors < 2 \<or> sections = []")
  case True
  have "length (occupants sections editors s) \<le> length editors" for s by (simp add: occupants_def)
  then have "{s \<in> set sections. 2 \<le> length (occupants sections editors s)} = {}"
    using True by (auto simp: not_le) (meson order_le_less_trans not_le)+
  then show ?thesis using True by (auto simp: detect_overlaps_def occupants_def)
next
  case False
  let ?gs = "fold (push_editor sections) editors []" and ?pm = "build_paragraph_map md"
  let ?big = "filter (\<lambda>(_, grp). length grp \<ge> 2) ?gs" and ?id = "\<lambda>r. sec_id (so_section r)"
  have groups: "map_of ?gs k = (if group_of sections editors k = [] then None else Some (group_of sections editors k))"
    "distinct (map fst ?gs)" for k using groups_eq [of sections editors] by blast+
  have entry: "\<exists>s \<in> set sections. k = sec_id s \<and> grp = map (Pair s) (occupants sections editors s)"
    if "(k, grp) \<in> set ?gs" for k grp
  proof -
    have "map_of ?gs k = Some grp" using that groups(2) by simp
    then have grp: "grp = group_of sections editors k" "grp \<noteq> []" using groups(1) by (auto split: if_splits)
    then obtain s where "s \<in> set sections" "sec_id s = k" by (metis group_of_nonempty)
    then show ?thesis using grp group_of_occupants [OF assms(1)] by metis
  qed
  have report: "overlap_of ?pm grp = report_for sections editors md s"
    if "grp = map (Pair s) (occupants sections editors s)" "2 \<le> length grp" for s grp
    using overlap_of_group [of sections editors s md] that assms(2) by fastforce
  have ids: "?id (overlap_of ?pm (snd row)) = fst row" if row: "row \<in> set ?big" for row
  proof -
    obtain k grp where kg: "row = (k, grp)" "(k, grp) \<in> set ?gs" "2 \<le> length grp"
      using row by (auto simp: split_beta) (metis prod.collapse)
    from entry [OF kg(2)] obtain s where s: "k = sec_id s" "grp = map (Pair s) (occupants sections editors s)" by blast
    show ?thesis using report [OF s(2) kg(3)] kg(1) s(1) by (simp add: report_for_def Let_def)
  qed
  define out where "out = map (\<lambda>(_, grp). overlap_of ?pm grp) ?big"
  have run: "detect_overlaps sections editors md = sort_key ?id out"
    using False by (simp add: detect_overlaps_def Let_def out_def)
  have "map ?id out = map fst ?big" unfolding out_def using ids by (simp add: split_beta)
  then have "distinct (map ?id out)" using groups(2) by (simp add: distinct_map_filter)
  then have sorted: "sorted_wrt (<) (map ?id (sort_key ?id out))"
    by (subst strict_sorted_iff) (auto simp: distinct_map)
  have "set out = report_for sections editors md ` {s \<in> set sections. 2 \<le> length (occupants sections editors s)}"
  proof (intro equalityI subsetI)
    fix r assume "r \<in> set out"
    then obtain k grp where kg: "(k, grp) \<in> set ?gs" "2 \<le> length grp" "r = overlap_of ?pm grp" by (auto simp: out_def)
    from entry [OF kg(1)] obtain s where "s \<in> set sections" "grp = map (Pair s) (occupants sections editors s)" by blast
    then show "r \<in> report_for sections editors md ` {s \<in> set sections. 2 \<le> length (occupants sections editors s)}"
      using report kg(2,3) by auto
  next
    fix r assume "r \<in> report_for sections editors md ` {s \<in> set sections. 2 \<le> length (occupants sections editors s)}"
    then obtain s where s: "s \<in> set sections" "2 \<le> length (occupants sections editors s)" "r = report_for sections editors md s" by blast
    let ?grp = "map (Pair s) (occupants sections editors s)"
    have "map_of ?gs (sec_id s) = Some ?grp" using groups(1) group_of_occupants [OF assms(1) s(1)] s(2) by auto
    then have "(sec_id s, ?grp) \<in> set ?big" using s(2) by (auto dest: map_of_SomeD)
    then have "overlap_of ?pm ?grp \<in> set out" unfolding out_def by force
    then show "r \<in> set out" using report [of ?grp s] s(2,3) by simp
  qed
  then show ?thesis using sorted run by (auto simp: occupants_def)
qed

definition demo_editor :: "nat \<Rightarrow> editor_position" where
  "demo_editor line = \<lparr>ep_name = [97], ep_type = EditorHuman, ep_line = line, ep_ch = 1, ep_last_edit_at = 0\<rparr>"

definition demo_section :: doc_section where
  "demo_section = \<lparr>sec_id = [97], sec_parent = None, sec_heading = [65], sec_level = 1, sec_start = 1, sec_end = 4\<rparr>"

theorem overlaps_exact_witness:
  "report_for [demo_section] [demo_editor 2, demo_editor 3] demo_md demo_section
     \<in> set (detect_overlaps [demo_section] [demo_editor 2, demo_editor 3] demo_md)"
proof -
  have "2 * line_count demo_md < 2 ^ 32"
  proof -
    have "line_count demo_md = 3" by code_simp
    then show ?thesis by simp
  qed
  from overlaps_exact [OF _ this, of "[demo_section]" "[demo_editor 2, demo_editor 3]"] show ?thesis
    by (simp add: occupants_def find_section_for_line_def max_by_key_def demo_section_def demo_editor_def)
qed

end
