(* ===== verification/Leader.thy ===== *)
theory Leader
  imports Prelude "HOL-Library.AList"
begin

text \<open>
  Git leader election. \<open>relay/src/leader/mod.rs\<close> keeps one lease per workspace in a table;
  \<open>daemon/src/git/leader.rs\<close> is the loop by which a daemon acquires and renews it. The loop talks
  to the relay through the trait \<open>LeaseClient\<close>, of which the repository has no implementation: its
  requests are parameters of the loop, and \<open>lease_client\<close> states what the trait documents of
  them. Every operation is given the time at which it reads the clock; the table's \<open>CHECK\<close> on the order of its
  two times cannot fail for a positive time to live and is left out, as are database errors.
\<close>

section \<open>The relay's lease table\<close>

record git_lease =
  gl_holder :: uuid
  gl_lease_id :: uuid
  gl_granted_at :: timestamp
  gl_expires_at :: timestamp

type_synonym lease_table = "(uuid \<times> git_lease) list"

definition DEFAULT_LEASE_TTL :: int where
  "DEFAULT_LEASE_TTL = 60 * 1000000000"

definition lease_is_expired_at :: "timestamp \<Rightarrow> git_lease \<Rightarrow> bool" where
  "lease_is_expired_at now l \<longleftrightarrow> now \<ge> gl_expires_at l"

definition remaining :: "timestamp \<Rightarrow> timestamp \<Rightarrow> git_lease \<Rightarrow> int" where
  "remaining now now' l = (if lease_is_expired_at now l then 0 else max 0 (gl_expires_at l - now'))"

datatype acquire_result = AGranted uuid | ADenied uuid | ARenewed uuid
datatype renew_result = RRenewed | RNotFound | RWrongHolder
datatype release_result = LReleased | LNotFound | LWrongHolder

definition expires_at_with_ttl :: "timestamp \<Rightarrow> int \<Rightarrow> timestamp" where
  "expires_at_with_ttl now ttl = now + ttl"

text \<open>The row after \<open>INSERT ... ON CONFLICT (workspace_id) DO UPDATE\<close>.\<close>

definition upsert_lease_row :: "timestamp \<Rightarrow> timestamp \<Rightarrow> uuid \<Rightarrow> uuid \<Rightarrow> git_lease option \<Rightarrow> git_lease" where
  "upsert_lease_row now expires client proposed row =
     (case row of
        None \<Rightarrow> \<lparr>gl_holder = client, gl_lease_id = proposed, gl_granted_at = now, gl_expires_at = expires\<rparr>
      | Some r \<Rightarrow>
          \<lparr>gl_holder = (if gl_expires_at r \<le> now then client else gl_holder r),
           gl_lease_id = (if gl_expires_at r \<le> now then proposed else gl_lease_id r),
           gl_granted_at = (if gl_expires_at r \<le> now then now else gl_granted_at r),
           gl_expires_at = (if gl_expires_at r \<le> now \<or> gl_holder r = client then expires else gl_expires_at r)\<rparr>)"

definition acquire :: "int \<Rightarrow> timestamp \<Rightarrow> uuid \<Rightarrow> uuid \<Rightarrow> uuid \<Rightarrow> lease_table \<Rightarrow> acquire_result \<times> lease_table" where
  "acquire ttl now proposed ws client tbl =
     (let row = upsert_lease_row now (expires_at_with_ttl now ttl) client proposed (map_of tbl ws);
          tbl' = AList.update ws row tbl
      in if gl_holder row \<noteq> client then (ADenied (gl_holder row), tbl')
         else if gl_lease_id row = proposed then (AGranted (gl_lease_id row), tbl')
         else (ARenewed (gl_lease_id row), tbl'))"

definition active_lease :: "timestamp \<Rightarrow> uuid \<Rightarrow> lease_table \<Rightarrow> git_lease option" where
  "active_lease now ws tbl =
     (case map_of tbl ws of Some r \<Rightarrow> if gl_expires_at r > now then Some r else None | None \<Rightarrow> None)"

definition renew :: "int \<Rightarrow> timestamp \<Rightarrow> uuid \<Rightarrow> uuid \<Rightarrow> uuid \<Rightarrow> lease_table \<Rightarrow> renew_result \<times> lease_table" where
  "renew ttl now ws client lease_id tbl =
     (case active_lease now ws tbl of
        Some r \<Rightarrow>
          if gl_holder r = client \<and> gl_lease_id r = lease_id
          then (RRenewed, AList.update ws (r\<lparr>gl_expires_at := expires_at_with_ttl now ttl\<rparr>) tbl)
          else (RWrongHolder, tbl)
      | None \<Rightarrow> (RNotFound, tbl))"

definition release :: "timestamp \<Rightarrow> uuid \<Rightarrow> uuid \<Rightarrow> lease_table \<Rightarrow> release_result \<times> lease_table" where
  "release now ws client tbl =
     (case active_lease now ws tbl of
        Some r \<Rightarrow> if gl_holder r = client then (LReleased, AList.delete ws tbl) else (LWrongHolder, tbl)
      | None \<Rightarrow> (LNotFound, tbl))"

definition current_leader :: "timestamp \<Rightarrow> uuid \<Rightarrow> lease_table \<Rightarrow> uuid option" where
  "current_leader now ws tbl = map_option gl_holder (active_lease now ws tbl)"

definition evict_expired :: "timestamp \<Rightarrow> lease_table \<Rightarrow> nat \<times> lease_table" where
  "evict_expired now tbl =
     (length (filter (\<lambda>(_, r). gl_expires_at r \<le> now) tbl), filter (\<lambda>(_, r). \<not> gl_expires_at r \<le> now) tbl)"

definition active_count :: "timestamp \<Rightarrow> lease_table \<Rightarrow> nat" where
  "active_count now tbl = length (filter (\<lambda>(_, r). gl_expires_at r > now) tbl)"

section \<open>The daemon's loop\<close>

datatype acquire_response = Granted uuid | Denied uuid
datatype renew_response = Renewed | Lost
datatype release_response = Released | NotHeld
datatype lease_client_error = ConnectionFailed | RelayError string

datatype leader_state = IsLeader uuid | Follower | Unknown

record leader_config =
  lc_workspace :: uuid
  lc_client :: uuid
  heartbeat_interval :: int
  retry_interval :: int

definition leader_config_new :: "uuid \<Rightarrow> uuid \<Rightarrow> leader_config" where
  "leader_config_new ws client =
     \<lparr>lc_workspace = ws, lc_client = client,
      heartbeat_interval = 24 * 1000000000, retry_interval = 5 * 1000000000\<rparr>"

text \<open>The lease the loop holds and the state it last published.\<close>

record leader_inner =
  current_lease_id :: "uuid option"
  published :: leader_state


text \<open>What one turn does with the answer, and how long it sleeps then.\<close>

definition after_renew ::
  "leader_config \<Rightarrow> (lease_client_error, renew_response) result \<Rightarrow> leader_inner \<Rightarrow> int \<times> leader_inner" where
  "after_renew cfg answer d =
     (case answer of
        Inr Renewed \<Rightarrow> (heartbeat_interval cfg, d)
      | Inr Lost \<Rightarrow> (0, \<lparr>current_lease_id = None, published = Follower\<rparr>)
      | Inl e \<Rightarrow> (heartbeat_interval cfg, d))"

definition after_acquire ::
  "leader_config \<Rightarrow> (lease_client_error, acquire_response) result \<Rightarrow> leader_inner \<Rightarrow> int \<times> leader_inner" where
  "after_acquire cfg answer d =
     (case answer of
        Inr (Granted lease_id) \<Rightarrow> (heartbeat_interval cfg, \<lparr>current_lease_id = Some lease_id, published = IsLeader lease_id\<rparr>)
      | Inr (Denied holder) \<Rightarrow> (retry_interval cfg, d\<lparr>published := Follower\<rparr>)
      | Inl e \<Rightarrow> (retry_interval cfg, d\<lparr>published := Unknown\<rparr>))"

text \<open>
  The two requests of the loop: \<open>acquire_req now client s\<close> and \<open>renew_req now client lease s\<close>,
  where \<open>s\<close> is the state of the service.
\<close>

type_synonym 's acquire_fn = "timestamp \<Rightarrow> uuid \<Rightarrow> 's \<Rightarrow> (lease_client_error, acquire_response) result \<times> 's"
type_synonym 's renew_fn = "timestamp \<Rightarrow> uuid \<Rightarrow> uuid \<Rightarrow> 's \<Rightarrow> (lease_client_error, renew_response) result \<times> 's"

definition leader_turn ::
  "'s acquire_fn \<Rightarrow> 's renew_fn \<Rightarrow> leader_config \<Rightarrow> timestamp \<Rightarrow> leader_inner \<times> 's \<Rightarrow> int \<times> leader_inner \<times> 's" where
  "leader_turn acq ren cfg now st =
     (case st of (d, s) \<Rightarrow>
       (case current_lease_id d of
          Some lid \<Rightarrow> (case ren now (lc_client cfg) lid s of (answer, s') \<Rightarrow>
            (case after_renew cfg answer d of (sleep, d') \<Rightarrow> (sleep, d', s')))
        | None \<Rightarrow> (case acq now (lc_client cfg) s of (answer, s') \<Rightarrow>
            (case after_acquire cfg answer d of (sleep, d') \<Rightarrow> (sleep, d', s')))))"

text \<open>
  The loop, turn by turn: the time of the next turn, the daemon and the service. Every turn has
  the time its request is under way before it is answered.
\<close>

fun leader_loop ::
  "'s acquire_fn \<Rightarrow> 's renew_fn \<Rightarrow> leader_config \<Rightarrow> int list \<Rightarrow> timestamp \<times> leader_inner \<times> 's \<Rightarrow> timestamp \<times> leader_inner \<times> 's" where
  "leader_loop acq ren cfg [] st = st"
| "leader_loop acq ren cfg (lag # lags) (now, st) =
     (case leader_turn acq ren cfg (now + lag) st of (sleep, st') \<Rightarrow> leader_loop acq ren cfg lags (now + lag + sleep, st'))"

text \<open>\<open>LeaderHandle::shutdown\<close>: the lease is dropped and released with the relay if one is held.\<close>

definition shutdown ::
  "(timestamp \<Rightarrow> uuid \<Rightarrow> 's \<Rightarrow> (lease_client_error, release_response) result \<times> 's) \<Rightarrow> leader_config \<Rightarrow> timestamp \<Rightarrow>
   leader_inner \<times> 's \<Rightarrow> leader_inner \<times> 's" where
  "shutdown rel cfg now st =
     (case st of (d, s) \<Rightarrow>
       (case current_lease_id d of
          None \<Rightarrow> (d, s)
        | Some _ \<Rightarrow> (\<lparr>current_lease_id = None, published = Follower\<rparr>, snd (rel now (lc_client cfg) s))))"

section \<open>The lease table under requests\<close>

lemma update_same: "map_of xs k = Some v \<Longrightarrow> AList.update k v xs = xs"
  by (induction xs) auto

lemma active_lease_update:
  "active_lease t ws (AList.update ws r tbl) = (if t < gl_expires_at r then Some r else None)"
  by (simp add: active_lease_def update_conv')

lemma active_leaseD:
  "active_lease t ws tbl = Some r \<Longrightarrow> map_of tbl ws = Some r \<and> t < gl_expires_at r"
  by (auto simp: active_lease_def split: option.splits if_splits)

text \<open>The three ways an acquisition goes.\<close>

lemma acquire_free:
  assumes "active_lease now ws tbl = None"
  shows "acquire ttl now proposed ws c tbl = (AGranted proposed, AList.update ws
     \<lparr>gl_holder = c, gl_lease_id = proposed, gl_granted_at = now, gl_expires_at = now + ttl\<rparr> tbl)"
proof (cases "map_of tbl ws")
  case (Some r)
  then have "gl_expires_at r \<le> now" using assms by (auto simp: active_lease_def split: if_splits)
  then show ?thesis using Some by (simp add: acquire_def upsert_lease_row_def expires_at_with_ttl_def Let_def)
qed (simp add: acquire_def upsert_lease_row_def expires_at_with_ttl_def Let_def)

lemma acquire_held:
  assumes "active_lease now ws tbl = Some r"
  shows "acquire ttl now proposed ws c tbl =
    (if gl_holder r = c
     then (if gl_lease_id r = proposed then AGranted (gl_lease_id r) else ARenewed (gl_lease_id r),
           AList.update ws (r\<lparr>gl_expires_at := now + ttl\<rparr>) tbl)
     else (ADenied (gl_holder r), tbl))"
  using active_leaseD [OF assms] update_same [of tbl ws r]
  by (cases r) (auto simp: acquire_def upsert_lease_row_def expires_at_with_ttl_def Let_def)

section \<open>Exclusion\<close>

text \<open>
  Requests of any clients in any order, with the times at which they are served, and what every
  client was promised: until when it may consider itself the holder.
\<close>

datatype lease_op =
    Acquire uuid uuid uuid
  | Renew uuid uuid uuid
  | Release uuid uuid
  | Evict

record lease_world =
  lw_table :: lease_table
  lw_now :: timestamp
  lw_promised :: "uuid \<times> uuid \<Rightarrow> timestamp option"

fun serve :: "int \<Rightarrow> timestamp \<Rightarrow> lease_op \<Rightarrow> lease_world \<Rightarrow> lease_world" where
  "serve ttl now (Acquire ws c proposed) w =
     (case acquire ttl now proposed ws c (lw_table w) of (res, tbl) \<Rightarrow>
        \<lparr>lw_table = tbl, lw_now = now, lw_promised =
          (case res of ADenied _ \<Rightarrow> lw_promised w | _ \<Rightarrow> (lw_promised w)((ws, c) \<mapsto> now + ttl))\<rparr>)"
| "serve ttl now (Renew ws c lid) w =
     (case renew ttl now ws c lid (lw_table w) of (res, tbl) \<Rightarrow>
        \<lparr>lw_table = tbl, lw_now = now, lw_promised =
          (if res = RRenewed then (lw_promised w)((ws, c) \<mapsto> now + ttl) else lw_promised w)\<rparr>)"
| "serve ttl now (Release ws c) w =
     (case release now ws c (lw_table w) of (res, tbl) \<Rightarrow>
        \<lparr>lw_table = tbl, lw_now = now, lw_promised =
          (if res = LReleased then (lw_promised w)((ws, c) := None) else lw_promised w)\<rparr>)"
| "serve ttl now Evict w = w\<lparr>lw_table := snd (evict_expired now (lw_table w)), lw_now := now\<rparr>"

definition serve_ok :: "lease_world \<Rightarrow> timestamp \<times> lease_op \<Rightarrow> bool" where
  "serve_ok w op \<longleftrightarrow> lw_now w \<le> fst op"

definition empty_leases :: "timestamp \<Rightarrow> lease_world" where
  "empty_leases now = \<lparr>lw_table = [], lw_now = now, lw_promised = Map.empty\<rparr>"

text \<open>A promise that has not run out is the lease in the table.\<close>

definition promises_kept :: "lease_world \<Rightarrow> bool" where
  "promises_kept w \<longleftrightarrow>
     distinct (map fst (lw_table w)) \<and>
     (\<forall>ws c p. lw_promised w (ws, c) = Some p \<longrightarrow> lw_now w < p \<longrightarrow>
        (\<exists>r. map_of (lw_table w) ws = Some r \<and> gl_holder r = c \<and> gl_expires_at r = p))"

lemma promises_keptD:
  assumes "promises_kept w" "lw_promised w (ws, c) = Some p" "lw_now w \<le> now" "now < p"
  shows "\<exists>r. map_of (lw_table w) ws = Some r \<and> gl_holder r = c \<and> gl_expires_at r = p \<and> active_lease now ws (lw_table w) = Some r"
proof -
  have "lw_now w < p" using assms(3,4) by linarith
  then show ?thesis using assms(1,2,4) by (fastforce simp: promises_kept_def active_lease_def)
qed

text \<open>A table that only changes at one workspace, where the promise for its new row is the last one made.\<close>

lemma promises_kept_put:
  assumes "promises_kept w" "lw_now w \<le> now" "gl_expires_at r = p"
    and "active_lease now ws (lw_table w) = None \<or> (\<exists>r'. active_lease now ws (lw_table w) = Some r' \<and> gl_holder r' = gl_holder r)"
  shows "promises_kept \<lparr>lw_table = AList.update ws r (lw_table w), lw_now = now, lw_promised = (lw_promised w)((ws, gl_holder r) \<mapsto> p)\<rparr>"
proof -
  have "\<exists>r'. ((map_of (lw_table w))(ws \<mapsto> r)) ws' = Some r' \<and> gl_holder r' = c \<and> gl_expires_at r' = q"
    if q: "((lw_promised w)((ws, gl_holder r) \<mapsto> p)) (ws', c) = Some q" "now < q" for ws' c q
  proof (cases "(ws', c) = (ws, gl_holder r)")
    case False
    then have "lw_promised w (ws', c) = Some q" using q(1) by auto
    from promises_keptD [OF assms(1) this assms(2) q(2)] obtain r' where r': "map_of (lw_table w) ws' = Some r'"
      "gl_holder r' = c" "gl_expires_at r' = q" "active_lease now ws' (lw_table w) = Some r'" by blast
    then have "ws' \<noteq> ws" using assms(4) False by auto
    then show ?thesis using r' by simp
  qed (use q assms(3) in auto)
  moreover have "distinct (map fst (AList.update ws r (lw_table w)))"
    using assms(1) by (simp add: promises_kept_def distinct_update)
  ultimately show ?thesis by (simp add: promises_kept_def update_conv')
qed

lemma promises_kept_serve:
  assumes ok: "promises_kept w" and now: "lw_now w \<le> now"
  shows "promises_kept (serve ttl now op w)"
proof -
  have later: "promises_kept \<lparr>lw_table = lw_table w, lw_now = now, lw_promised = lw_promised w\<rparr>"
    using assms unfolding promises_kept_def by (simp only: lease_world.simps) (meson order_le_less_trans)
  show ?thesis
  proof (cases op)
    case (Acquire ws c proposed)
    show ?thesis
    proof (cases "active_lease now ws (lw_table w)")
      case None
      then show ?thesis using promises_kept_put [OF ok now, of "\<lparr>gl_holder = c, gl_lease_id = proposed, gl_granted_at = now,
          gl_expires_at = now + ttl\<rparr>" "now + ttl" ws] Acquire by (simp add: acquire_free)
    next
      case (Some r)
      then show ?thesis using promises_kept_put [OF ok now, of "r\<lparr>gl_expires_at := now + ttl\<rparr>" "now + ttl" ws] Acquire later
        by (auto simp: acquire_held)
    qed
  next
    case (Renew ws c lid)
    show ?thesis
    proof (cases "active_lease now ws (lw_table w)")
      case None
      then show ?thesis using later Renew by (simp add: renew_def)
    next
      case (Some r)
      then show ?thesis using promises_kept_put [OF ok now, of "r\<lparr>gl_expires_at := now + ttl\<rparr>" "now + ttl" ws] Renew later
        by (auto simp: renew_def expires_at_with_ttl_def)
    qed
  next
    case (Release ws c)
    have "\<exists>r'. map_of (AList.delete ws (lw_table w)) ws' = Some r' \<and> gl_holder r' = c' \<and> gl_expires_at r' = q"
      if a: "active_lease now ws (lw_table w) = Some r" "gl_holder r = c"
        "((lw_promised w)((ws, c) := None)) (ws', c') = Some q" "now < q" for r ws' c' q
    proof -
      have p: "lw_promised w (ws', c') = Some q" "(ws', c') \<noteq> (ws, c)" using a(3) by (auto split: if_splits)
      obtain r' where r': "map_of (lw_table w) ws' = Some r'" "gl_holder r' = c'" "gl_expires_at r' = q"
        "active_lease now ws' (lw_table w) = Some r'" using promises_keptD [OF ok p(1) now a(4)] by blast
      then have "ws' \<noteq> ws" using a(1,2) p(2) by auto
      then show ?thesis using r' by (simp add: delete_conv')
    qed
    then have "promises_kept \<lparr>lw_table = AList.delete ws (lw_table w), lw_now = now, lw_promised = (lw_promised w)((ws, c) := None)\<rparr>"
      if "active_lease now ws (lw_table w) = Some r" "gl_holder r = c" for r
      using that ok unfolding promises_kept_def by (simp only: lease_world.simps distinct_delete) blast
    then show ?thesis using Release later by (auto simp: release_def split: option.split)
  next
    case Evict
    have "map_of (filter (\<lambda>(_, r). \<not> gl_expires_at r \<le> now) (lw_table w)) ws = Some r"
      if "map_of (lw_table w) ws = Some r" "now < gl_expires_at r" for ws r
      using that ok by (auto simp: promises_kept_def distinct_map_filter)
    moreover have "lw_now w < p" if "now < p" for p using that now by linarith
    ultimately show ?thesis using Evict ok
      by (fastforce simp: evict_expired_def promises_kept_def distinct_map_filter)
  qed
qed

interpretation served: init_system "\<lambda>w op. serve ttl (fst op) (snd op) w" serve_ok promises_kept "empty_leases start" for ttl start
proof unfold_locales
  show "promises_kept (empty_leases start)" for start by (simp add: empty_leases_def promises_kept_def)
qed (simp add: serve_ok_def promises_kept_serve)

section \<open>A client of the relay\<close>
















section \<open>Properties\<close>

text \<open>
  (C16) At most one leader per workspace, as far as the relay grants it. Whatever requests clients
  make in whatever order, as long as the clock does not run backwards, two clients that were
  promised the lease of a workspace for longer than the present moment are the same client, and
  it is the one the relay names as leader.
\<close>

theorem lease_exclusive:
  assumes "run_ok (\<lambda>w op. serve ttl (fst op) (snd op) w) serve_ok (empty_leases start) ops"
    and "w = foldl (\<lambda>w op. serve ttl (fst op) (snd op) w) (empty_leases start) ops"
    and "lw_now w \<le> now" "lw_promised w (ws, c) = Some p" "now < p" "lw_promised w (ws, c') = Some p'" "now < p'"
  shows "c = c' \<and> current_leader now ws (lw_table w) = Some c"
proof -
  have ok: "promises_kept w" using served.inv_reachable [OF assms(1)] assms(2) by simp
  obtain r where "gl_holder r = c" "active_lease now ws (lw_table w) = Some r"
    using promises_keptD [OF ok assms(4,3,5)] by blast
  moreover obtain r' where "gl_holder r' = c'" "active_lease now ws (lw_table w) = Some r'"
    using promises_keptD [OF ok assms(6,3,7)] by blast
  ultimately show ?thesis by (simp add: current_leader_def)
qed

theorem lease_exclusive_witness:
  "let w = foldl (\<lambda>w op. serve 60 (fst op) (snd op) w) (empty_leases 0)
       [(0, Acquire 1 7 100), (10, Acquire 1 8 101), (20, Renew 1 7 100), (90, Acquire 1 8 102), (91, Acquire 1 7 103)]
   in lw_promised w (1, 7) = Some 80 \<and> lw_promised w (1, 8) = Some 150 \<and> current_leader 100 1 (lw_table w) = Some 8"
proof -
  let ?ops = "[(0, Acquire 1 7 100), (10, Acquire 1 8 101), (20, Renew 1 7 100), (90, Acquire 1 8 102), (91, Acquire 1 7 103)]"
  let ?step = "\<lambda>w op. serve 60 (fst op) (snd op) w"
  define w where "w = foldl ?step (empty_leases 0) ?ops"
  have eval: "lw_now w = 91" "lw_promised w (1, 7) = Some 80" "lw_promised w (1, 8) = Some 150"
    by (simp_all add: w_def empty_leases_def acquire_def upsert_lease_row_def expires_at_with_ttl_def renew_def active_lease_def Let_def)
  have "run_ok ?step serve_ok (empty_leases 0) ?ops"
    by (simp add: serve_ok_def empty_leases_def acquire_def upsert_lease_row_def expires_at_with_ttl_def renew_def active_lease_def Let_def)
  from lease_exclusive [OF this w_def, of 100 1 8 150 8 150] eval
  show ?thesis unfolding Let_def w_def [symmetric] by simp
qed











text \<open>
  Two daemons can believe to be leader at once. A daemon whose renewals fail, for however
  long, keeps calling itself leader; the relay meanwhile grants the lease to the next daemon that
  asks once the time to live is over.
\<close>

theorem cut_off_leader_stays:
  assumes "\<forall>now c lid s. fst (ren now c lid s) = Err (e now) \<and> snd (ren now c lid s) = s"
    and "d = \<lparr>current_lease_id = Some lid, published = IsLeader lid\<rparr>"
    and "map_of tbl ws = Some r" "gl_expires_at r \<le> later" "c \<noteq> gl_holder r"
  shows "published (fst (snd (leader_loop acq ren cfg lags (now, d, s)))) = IsLeader lid \<and>
    fst (acquire ttl later fresh ws c tbl) = AGranted fresh"
proof -
  have "fst (snd (leader_loop acq ren cfg lags (now, d, s))) = d"
  proof (induction lags arbitrary: now)
    case (Cons lag lags)
    have "ren (now + lag) (lc_client cfg) lid s = (Err (e (now + lag)), s)" using assms(1) by (metis prod.collapse)
    then show ?case using Cons assms(2) by (simp add: leader_turn_def after_renew_def)
  qed simp
  moreover have "active_lease later ws tbl = None" using assms(3,4) by (simp add: active_lease_def)
  ultimately show ?thesis using assms(2) by (simp add: acquire_free)
qed

theorem cut_off_leader_stays_witness:
  "published (fst (snd (leader_loop (\<lambda>_ _ s. (Err ConnectionFailed, s)) (\<lambda>_ _ _ s. (Err ConnectionFailed, s)) (leader_config_new 1 7)
      [2, 3, 2] (0, \<lparr>current_lease_id = Some 5, published = IsLeader 5\<rparr>, ())))) = IsLeader 5 \<and>
   fst (acquire DEFAULT_LEASE_TTL DEFAULT_LEASE_TTL 9 1 8
      [(1, \<lparr>gl_holder = 7, gl_lease_id = 5, gl_granted_at = 0, gl_expires_at = DEFAULT_LEASE_TTL\<rparr>)]) = AGranted 9"
  by (rule cut_off_leader_stays [where e = "\<lambda>_. ConnectionFailed" and
        r = "\<lparr>gl_holder = 7, gl_lease_id = 5, gl_granted_at = 0, gl_expires_at = DEFAULT_LEASE_TTL\<rparr>"]) simp_all

end
