(* ===== verification/Debounce.thy ===== *)
theory Debounce
  imports RustText "HOL-Library.AList"
begin

text \<open>
  The first two stages of the file watcher. \<open>daemon/src/watcher/mod.rs\<close>: the translation of
  events of the \<open>notify\<close> crate into events of single markdown files. \<open>watcher/debounce.rs\<close>: the
  debouncer, which holds an event back until its path has been quiet for the configured window.
  A path is its list of components, the root directory being the component \<open>/\<close>; instants and
  durations are nanoseconds; the hash map of pending events is an association list in its
  iteration order.
\<close>

section \<open>Paths\<close>

type_synonym fpath = "rstr list"

definition starts_with_path :: "fpath \<Rightarrow> fpath \<Rightarrow> bool" where
  "starts_with_path path base = (take (length base) path = base)"

text \<open>\<open>Path::file_name\<close> and \<open>Path::extension\<close>.\<close>

definition file_name :: "fpath \<Rightarrow> rstr option" where
  "file_name path =
     (if path = [] \<or> last path \<in> {lit ''/'', lit ''.'', lit ''..''} then None else Some (last path))"

definition extension :: "fpath \<Rightarrow> rstr option" where
  "extension path =
     (case file_name path of
        None \<Rightarrow> None
      | Some name \<Rightarrow>
          let after = rev (takeWhile (\<lambda>c. c \<noteq> 46) (rev name)) in
          if 46 \<notin> set name \<or> length name = length after + 1 then None else Some after)"

section \<open>Events\<close>

datatype fs_event_kind = Create | Modify | Remove

record raw_fs_event =
  ev_kind :: fs_event_kind
  ev_path :: fpath

text \<open>The kinds of \<open>notify::Event\<close> the code distinguishes.\<close>

datatype modify_kind = ModifyData | ModifyName | ModifyMetadata | ModifyOther

datatype event_kind =
    NotifyCreate
  | NotifyModify modify_kind
  | NotifyRemove
  | NotifyOther

definition is_markdown :: "fpath \<Rightarrow> bool" where
  "is_markdown path =
     (case extension path of None \<Rightarrow> False | Some ext \<Rightarrow> eq_ignore_ascii_case ext (lit ''md''))"

definition is_inside_root :: "fpath \<Rightarrow> fpath \<Rightarrow> bool" where
  "is_inside_root path root = starts_with_path path root"

definition translate_event :: "event_kind \<Rightarrow> fpath list \<Rightarrow> fpath \<Rightarrow> raw_fs_event list option" where
  "translate_event kind paths root =
     (case (case kind of
              NotifyCreate \<Rightarrow> Some Create
            | NotifyModify ModifyData \<Rightarrow> Some Modify
            | NotifyModify ModifyName \<Rightarrow> Some Modify
            | NotifyModify ModifyMetadata \<Rightarrow> None
            | NotifyModify ModifyOther \<Rightarrow> Some Modify
            | NotifyRemove \<Rightarrow> Some Remove
            | NotifyOther \<Rightarrow> None) of
        None \<Rightarrow> None
      | Some k \<Rightarrow>
          let events = map (\<lambda>p. \<lparr>ev_kind = k, ev_path = p\<rparr>)
                (filter (\<lambda>p. is_inside_root p root) (filter is_markdown paths))
          in if events = [] then None else Some events)"

section \<open>The debouncer\<close>

definition DEFAULT_DEBOUNCE_MS :: nat where "DEFAULT_DEBOUNCE_MS = 100"
definition MIN_DEBOUNCE_MS :: nat where "MIN_DEBOUNCE_MS = 50"
definition MAX_DEBOUNCE_MS :: nat where "MAX_DEBOUNCE_MS = 500"

definition from_millis :: "nat \<Rightarrow> nat" where
  "from_millis ms = ms * 1000000"

definition debounce_default :: nat where
  "debounce_default = from_millis DEFAULT_DEBOUNCE_MS"

definition with_millis :: "nat \<Rightarrow> nat" where
  "with_millis ms = from_millis (min MAX_DEBOUNCE_MS (max MIN_DEBOUNCE_MS ms))"

record pending_event =
  pe_kind :: fs_event_kind
  last_seen :: nat

record debouncer =
  window :: nat
  pending :: "(fpath \<times> pending_event) list"

definition debouncer_new :: "nat \<Rightarrow> debouncer" where
  "debouncer_new w = \<lparr>window = w, pending = []\<rparr>"

definition push_at :: "raw_fs_event \<Rightarrow> nat \<Rightarrow> debouncer \<Rightarrow> debouncer" where
  "push_at ev now d =
     d\<lparr>pending := AList.update (ev_path ev) \<lparr>pe_kind = ev_kind ev, last_seen = now\<rparr> (pending d)\<rparr>"

text \<open>\<open>Instant::duration_since\<close> gives zero when the other instant is later.\<close>

definition elapsed :: "nat \<Rightarrow> nat \<Rightarrow> pending_event \<Rightarrow> bool" where
  "elapsed w now pe \<longleftrightarrow> now - last_seen pe \<ge> w"

definition drain_ready_at :: "nat \<Rightarrow> debouncer \<Rightarrow> raw_fs_event list \<times> debouncer" where
  "drain_ready_at now d =
     (map (\<lambda>(path, pe). \<lparr>ev_kind = pe_kind pe, ev_path = path\<rparr>)
        (filter (\<lambda>(path, pe). elapsed (window d) now pe) (pending d)),
      d\<lparr>pending := filter (\<lambda>(path, pe). \<not> elapsed (window d) now pe) (pending d)\<rparr>)"

definition pending_count :: "debouncer \<Rightarrow> nat" where
  "pending_count d = length (pending d)"

definition next_deadline :: "debouncer \<Rightarrow> nat option" where
  "next_deadline d =
     (if pending d = [] then None
      else Some (Min (set (map (\<lambda>(path, pe). last_seen pe + window d) (pending d)))))"

section \<open>What the watcher lets through\<close>

lemma with_millis_bounds: "from_millis 50 \<le> with_millis ms" "with_millis ms \<le> from_millis 500"
  by (auto simp: with_millis_def from_millis_def MIN_DEBOUNCE_MS_def MAX_DEBOUNCE_MS_def)

lemma starts_with_path_iff: "starts_with_path path base \<longleftrightarrow> (\<exists>rest. path = base @ rest)"
  by (metis append_eq_conv_conj append_take_drop_id starts_with_path_def)

lemma translate_event_sound:
  "translate_event kind paths root = Some evs \<Longrightarrow> ev \<in> set evs \<Longrightarrow>
   ev_path ev \<in> set paths \<and> is_markdown (ev_path ev) \<and> (\<exists>rest. ev_path ev = root @ rest)"
  by (auto simp: translate_event_def Let_def is_inside_root_def starts_with_path_iff
      split: event_kind.splits modify_kind.splits if_splits)

section \<open>Invariant and delivery\<close>

definition deb_inv :: "debouncer \<Rightarrow> bool" where
  "deb_inv d \<longleftrightarrow> distinct (map fst (pending d))"

lemma deb_inv_new: "deb_inv (debouncer_new w)"
  by (simp add: deb_inv_def debouncer_new_def)

lemma deb_inv_push: "deb_inv d \<Longrightarrow> deb_inv (push_at ev now d)"
  by (simp add: deb_inv_def push_at_def distinct_update)

lemma deb_inv_drain: "deb_inv d \<Longrightarrow> deb_inv (snd (drain_ready_at now d))"
  by (simp add: deb_inv_def drain_ready_at_def distinct_map_filter)

lemma window_ops [simp]:
  "window (push_at ev now d) = window d"
  "window (snd (drain_ready_at now d)) = window d"
  "window (debouncer_new w) = w"
  by (simp_all add: push_at_def drain_ready_at_def debouncer_new_def)

lemma pending_push:
  "map_of (pending (push_at ev now d)) =
     (map_of (pending d))(ev_path ev \<mapsto> \<lparr>pe_kind = ev_kind ev, last_seen = now\<rparr>)"
  by (simp add: push_at_def update_conv')

lemma map_of_filter_snd:
  "distinct (map fst xs) \<Longrightarrow>
   map_of (filter (\<lambda>(k, v). Q v) xs) k =
     (case map_of xs k of None \<Rightarrow> None | Some v \<Rightarrow> if Q v then Some v else None)"
proof (induction xs)
  case (Cons x xs)
  obtain k' v where x: "x = (k', v)" by (cases x)
  have "map_of xs k' = None" using Cons.prems x by (simp add: map_of_eq_None_iff)
  then show ?case using Cons x by (auto split: option.splits)
qed simp

lemma pending_drain:
  assumes "deb_inv d"
  shows "map_of (pending (snd (drain_ready_at now d))) p =
    (case map_of (pending d) p of
       None \<Rightarrow> None
     | Some pe \<Rightarrow> if elapsed (window d) now pe then None else Some pe)"
proof -
  have "map_of (filter (\<lambda>(k, pe). \<not> elapsed (window d) now pe) (pending d)) p =
    (case map_of (pending d) p of
       None \<Rightarrow> None
     | Some pe \<Rightarrow> if \<not> elapsed (window d) now pe then Some pe else None)"
    using assms unfolding deb_inv_def by (rule map_of_filter_snd)
  then show ?thesis by (simp add: drain_ready_at_def split: option.split)
qed

lemma drained_iff:
  assumes "deb_inv d"
  shows "ev \<in> set (fst (drain_ready_at now d)) \<longleftrightarrow>
    (\<exists>pe. map_of (pending d) (ev_path ev) = Some pe \<and> pe_kind pe = ev_kind ev \<and> elapsed (window d) now pe)"
  using assms unfolding deb_inv_def
  by (cases ev) (fastforce simp: drain_ready_at_def dest: map_of_SomeD)

lemma drained_distinct:
  assumes "deb_inv d"
  shows "distinct (map ev_path (fst (drain_ready_at now d)))"
proof -
  have "map ev_path (fst (drain_ready_at now d)) =
    map fst (filter (\<lambda>(path, pe). elapsed (window d) now pe) (pending d))"
    by (simp add: drain_ready_at_def comp_def case_prod_beta)
  then show ?thesis using assms by (simp add: deb_inv_def distinct_map_filter)
qed

section \<open>Runs\<close>

datatype deb_op = Push raw_fs_event | Drain

text \<open>A run of the debouncer: what its drains returned, with their times, and its last state.\<close>

fun deb_run :: "(nat \<times> deb_op) list \<Rightarrow> debouncer \<Rightarrow> (nat \<times> raw_fs_event) list \<times> debouncer" where
  "deb_run [] d = ([], d)"
| "deb_run ((now, Push ev) # ops) d = deb_run ops (push_at ev now d)"
| "deb_run ((now, Drain) # ops) d =
     (let (ready, d1) = drain_ready_at now d; (delivered, d2) = deb_run ops d1
      in (map (Pair now) ready @ delivered, d2))"

lemma deb_inv_run: "deb_inv d \<Longrightarrow> deb_inv (snd (deb_run ops d)) \<and> window (snd (deb_run ops d)) = window d"
proof (induction ops d rule: deb_run.induct)
  case (3 now ops d)
  have d1: "deb_inv (snd (drain_ready_at now d))" using "3.prems" by (rule deb_inv_drain)
  show ?case using "3.IH" [OF refl prod.collapse d1] by (simp add: Let_def case_prod_beta)
qed (simp_all add: deb_inv_push)

lemma elapsed_pos: "w > 0 \<Longrightarrow> elapsed w now pe \<longleftrightarrow> last_seen pe + w \<le> now"
  by (auto simp: elapsed_def)

definition delivered_for :: "fpath \<Rightarrow> (nat \<times> raw_fs_event) list \<Rightarrow> (nat \<times> raw_fs_event) list" where
  "delivered_for p xs = filter (\<lambda>(s, ev). ev_path ev = p) xs"

lemma delivered_list:
  "distinct (map fst xs) \<Longrightarrow>
   delivered_for p (map (Pair now) (map (\<lambda>(path, pe). \<lparr>ev_kind = pe_kind pe, ev_path = path\<rparr>)
     (filter (\<lambda>(path, pe). elapsed w now pe) xs))) =
   (case map_of xs p of
      None \<Rightarrow> []
    | Some pe \<Rightarrow> if elapsed w now pe then [(now, \<lparr>ev_kind = pe_kind pe, ev_path = p\<rparr>)] else [])"
proof (induction xs)
  case (Cons x xs)
  obtain q pe where x: "x = (q, pe)" by (cases x)
  have "map_of xs q = None" using Cons.prems x by (simp add: map_of_eq_None_iff)
  then show ?case using Cons x by (auto simp: delivered_for_def split: option.splits)
qed (simp add: delivered_for_def)

lemma drained_for:
  "deb_inv d \<Longrightarrow> delivered_for p (map (Pair now) (fst (drain_ready_at now d))) =
    (case map_of (pending d) p of
       None \<Rightarrow> []
     | Some pe \<Rightarrow> if elapsed (window d) now pe then [(now, \<lparr>ev_kind = pe_kind pe, ev_path = p\<rparr>)] else [])"
  unfolding deb_inv_def drain_ready_at_def fst_conv by (rule delivered_list)

lemma quiet_path_delivery:
  assumes "deb_inv d" "window d > 0" "\<forall>(s, op) \<in> set ops. \<forall>e. op = Push e \<longrightarrow> ev_path e \<noteq> p"
  shows "delivered_for p (fst (deb_run ops d)) =
    (case map_of (pending d) p of
       None \<Rightarrow> []
     | Some pe \<Rightarrow>
         (case find (\<lambda>(s, op). op = Drain \<and> last_seen pe + window d \<le> s) ops of
            None \<Rightarrow> []
          | Some (s, _) \<Rightarrow> [(s, \<lparr>ev_kind = pe_kind pe, ev_path = p\<rparr>)]))"
  using assms
proof (induction ops d rule: deb_run.induct)
  case (1 d)
  then show ?case by (simp add: delivered_for_def split: option.split)
next
  case (2 now ev ops d)
  then show ?case by (auto simp: deb_inv_push pending_push split: option.split)
next
  case (3 now ops d)
  let ?d1 = "snd (drain_ready_at now d)"
  have inv: "deb_inv ?d1" using "3.prems"(1) by (rule deb_inv_drain)
  have IH: "delivered_for p (fst (deb_run ops ?d1)) =
    (case map_of (pending ?d1) p of
       None \<Rightarrow> []
     | Some pe \<Rightarrow>
         (case find (\<lambda>(s, op). op = Drain \<and> last_seen pe + window d \<le> s) ops of
            None \<Rightarrow> []
          | Some (s, _) \<Rightarrow> [(s, \<lparr>ev_kind = pe_kind pe, ev_path = p\<rparr>)]))"
    using "3.IH" [OF refl prod.collapse inv, unfolded window_ops] "3.prems" by simp
  have "delivered_for p (fst (deb_run ((now, Drain) # ops) d)) =
      delivered_for p (map (Pair now) (fst (drain_ready_at now d))) @ delivered_for p (fst (deb_run ops ?d1))"
    by (simp add: Let_def case_prod_beta delivered_for_def)
  then show ?case
    using IH "3.prems"(1,2)
    by (auto simp: drained_for pending_drain elapsed_pos split: option.splits)
qed

section \<open>Properties\<close>

text \<open>
  The debouncer coalesces and delivers: after an event for a path, and as long as no other
  event for that path arrives, the path is handed over exactly once, with the kind of that last
  event, by the first drain at which the window has passed since it, and by no other; this
  holds after any history and for every window the configuration allows.
\<close>

theorem debounce_delivers_last:
  assumes "\<forall>(s, op) \<in> set ops. \<forall>e. op = Push e \<longrightarrow> ev_path e \<noteq> ev_path ev"
  shows "delivered_for (ev_path ev)
      (fst (deb_run ops (push_at ev t (snd (deb_run history (debouncer_new (with_millis ms))))))) =
    (case find (\<lambda>(s, op). op = Drain \<and> t + with_millis ms \<le> s) ops of
       None \<Rightarrow> []
     | Some (s, _) \<Rightarrow> [(s, ev)])"
proof -
  let ?d = "snd (deb_run history (debouncer_new (with_millis ms)))"
  have inv: "deb_inv ?d" and w: "window ?d = with_millis ms"
    using deb_inv_run [OF deb_inv_new] by auto
  have "with_millis ms > 0" using with_millis_bounds(1) [of ms] by (simp add: from_millis_def)
  then show ?thesis
    using quiet_path_delivery [OF deb_inv_push [OF inv, of ev t] _ assms] w
    by (cases "find (\<lambda>(s, op). op = Drain \<and> t + with_millis ms \<le> s) ops") (auto simp: pending_push)
qed

definition demo_event :: raw_fs_event where
  "demo_event = \<lparr>ev_kind = Modify, ev_path = [lit ''/'', lit ''a.md'']\<rparr>"

theorem debounce_delivers_last_witness:
  "delivered_for (ev_path demo_event)
     (fst (deb_run [(60000000, Drain), (130000000, Drain), (300000000, Drain)]
       (push_at demo_event 30000000 (snd (deb_run [(0, Push demo_event)] (debouncer_new (with_millis 100))))))) =
   [(130000000, demo_event)]"
  using debounce_delivers_last [of "[(60000000, Drain), (130000000, Drain), (300000000, Drain)]" demo_event
      30000000 "[(0, Push demo_event)]" 100]
  by (simp add: with_millis_def from_millis_def MIN_DEBOUNCE_MS_def MAX_DEBOUNCE_MS_def)

lemma drain_deadline:
  assumes "window d > 0"
  shows "fst (drain_ready_at now d) = [] \<longleftrightarrow>
    (case next_deadline d of None \<Rightarrow> True | Some t \<Rightarrow> now < t)"
  using assms
  by (auto simp: drain_ready_at_def next_deadline_def filter_empty_conv elapsed_pos Min_gr_iff not_le)

end
