(* ===== verification/Pipeline.thy ===== *)
theory Pipeline
  imports Debounce Patch Bytes DocManager
begin

text \<open>
  The rest of the file watcher. \<open>daemon/src/watcher/hash.rs\<close>: the content hash stored per
  document in SQLite. \<open>watcher/pipeline.rs\<close>: the pause controller, the processing of one
  debounced event into an edit of the shared document, the writing of remote updates to disk,
  and the loop that ties the stages together. Documents are handed out as \<open>Arc<YDoc>\<close>: the
  document manager holds addresses and \<open>p_heap\<close> holds the documents. The traits
  \<open>PathResolver\<close> and \<open>HashStore\<close>, the SHA-256 digest, the text of a UUID and the \<open>yrs\<close>
  document are parameters, collected in \<open>pipe_env\<close>.
\<close>

section \<open>Content hashes\<close>

definition hex_digit :: "nat \<Rightarrow> rchar" where
  "hex_digit n = (if n < 10 then 48 + n else 87 + n)"

definition hex_encode :: "byte list \<Rightarrow> rstr" where
  "hex_encode bs = concat (map (\<lambda>b. [hex_digit (unat b div 16), hex_digit (unat b mod 16)]) bs)"

definition sha256_hex :: "(byte list \<Rightarrow> byte list) \<Rightarrow> byte list \<Rightarrow> rstr" where
  "sha256_hex sha content = hex_encode (sha content)"

text \<open>The table \<open>documents_local\<close>, as its key and its column \<open>last_content_hash\<close>.\<close>

type_synonym documents_local = "(rstr \<times> rstr) list"

datatype sql_error = SqlError

definition get_stored_hash :: "rstr \<Rightarrow> documents_local \<Rightarrow> (sql_error, rstr option) result" where
  "get_stored_hash doc_id conn = Okay (map_of conn doc_id)"

definition update_stored_hash ::
  "rstr \<Rightarrow> rstr \<Rightarrow> documents_local \<Rightarrow> (sql_error, bool) result \<times> documents_local" where
  "update_stored_hash doc_id h conn =
     (Okay (\<exists>row \<in> set conn. fst row = doc_id),
      map (\<lambda>(i, old). if i = doc_id then (i, h) else (i, old)) conn)"

definition check_content_changed ::
  "(byte list \<Rightarrow> byte list) \<Rightarrow> rstr \<Rightarrow> byte list \<Rightarrow> documents_local \<Rightarrow> (sql_error, rstr option) result" where
  "check_content_changed sha doc_id content conn =
     (let new_hash = sha256_hex sha content in
      case get_stored_hash doc_id conn of
        Inl e \<Rightarrow> Err e
      | Inr stored \<Rightarrow> if stored = Some new_hash then Okay None else Okay (Some new_hash))"

text \<open>What the pipeline expects of a \<open>HashStore\<close>, for the documents the store tracks.\<close>

locale hash_store =
  fixes get_hash :: "rstr \<Rightarrow> 'h \<Rightarrow> ('e, rstr option) result"
    and set_hash :: "rstr \<Rightarrow> rstr \<Rightarrow> 'h \<Rightarrow> ('e, 'u) result \<times> 'h"
    and tracked :: "rstr \<Rightarrow> 'h \<Rightarrow> bool"
  assumes get_set: "tracked i h \<Longrightarrow> get_hash i (snd (set_hash i x h)) = Okay (Some x)"
    and get_set_other: "j \<noteq> i \<Longrightarrow> get_hash j (snd (set_hash i x h)) = get_hash j h"
    and tracked_set: "tracked j (snd (set_hash i x h)) = tracked j h"

definition row_tracked :: "rstr \<Rightarrow> documents_local \<Rightarrow> bool" where
  "row_tracked doc_id conn = (doc_id \<in> fst ` set conn)"

lemma fst_update_stored: "fst ` set (map (\<lambda>(i, old). if i = d then (i, h) else (i, old)) conn) = fst ` set conn"
  by (induction conn) auto

lemma map_of_update_stored:
  "map_of (map (\<lambda>(i, old). if i = d then (i, h) else (i, old)) conn) j =
     (if j = d then map_option (\<lambda>_. h) (map_of conn j) else map_of conn j)"
  by (induction conn) auto

interpretation sqlite_hashes: hash_store get_stored_hash update_stored_hash row_tracked
proof unfold_locales
  fix i x :: rstr and h
  assume "row_tracked i h"
  then have "map_of h i \<noteq> None" by (simp add: row_tracked_def map_of_eq_None_iff)
  then show "get_stored_hash i (snd (update_stored_hash i x h)) = Okay (Some x)"
    by (auto simp: get_stored_hash_def update_stored_hash_def map_of_update_stored)
next
  fix i j x :: rstr and h
  show "row_tracked j (snd (update_stored_hash i x h)) = row_tracked j h"
    unfolding row_tracked_def update_stored_hash_def snd_conv fst_update_stored ..
qed (simp add: get_stored_hash_def update_stored_hash_def map_of_update_stored)

section \<open>The pipeline's state\<close>

datatype disk_file = Missing | Unreadable | FileText rstr

record ('d, 'h) pipe =
  p_heap :: "nat \<Rightarrow> 'd"
  p_next :: nat
  p_manager :: "nat doc_manager"
  p_hashes :: 'h
  paused_until :: "(fpath \<times> nat) list"
  p_disk :: "fpath \<Rightarrow> disk_file"

record ('d, 'h, 'e) pipe_env =
  e_text :: "'d ytext_ops"
  e_new :: 'd
  e_size :: "'d \<Rightarrow> nat"
  e_apply :: "byte list \<Rightarrow> 'd \<Rightarrow> bool \<times> 'd"
  e_resolve :: "fpath \<Rightarrow> (uuid \<times> uuid) option"
  e_uuid_str :: "uuid \<Rightarrow> rstr"
  e_sha256 :: "byte list \<Rightarrow> byte list"
  e_get_hash :: "rstr \<Rightarrow> 'h \<Rightarrow> ('e, rstr option) result"
  e_set_hash :: "rstr \<Rightarrow> rstr \<Rightarrow> 'h \<Rightarrow> ('e, bool) result \<times> 'h"

datatype 'e pipeline_error =
    NotInWorkspace fpath
  | ReadFailed fpath
  | HashStoreFailed 'e
  | UpdateRejected
  | CreateDirFailed fpath
  | WriteFailed fpath

datatype 'e pipeline_event =
    DocUpdated uuid uuid fpath rstr nat
  | DocRemoved uuid uuid fpath
  | PipeError fpath "'e pipeline_error"

section \<open>Pausing\<close>

definition pause_path_for :: "fpath \<Rightarrow> nat \<Rightarrow> nat \<Rightarrow> (fpath \<times> nat) list \<Rightarrow> (fpath \<times> nat) list" where
  "pause_path_for path duration now pauses = AList.update path (now + duration) pauses"

definition is_paused :: "fpath \<Rightarrow> nat \<Rightarrow> (fpath \<times> nat) list \<Rightarrow> bool \<times> (fpath \<times> nat) list" where
  "is_paused path now pauses =
     (let kept = filter (\<lambda>(p, til). til > now) pauses in
      (case map_of kept path of None \<Rightarrow> False | Some til \<Rightarrow> til > now, kept))"

section \<open>Processing one event\<close>

text \<open>\<open>subscribe_or_create\<close> on the shared manager; a new document goes to a new address.\<close>

definition open_doc :: "('d, 'h, 'e) pipe_env \<Rightarrow> uuid \<Rightarrow> ('d, 'h) pipe \<Rightarrow> nat \<times> ('d, 'h) pipe" where
  "open_doc E doc_id st =
     (let fresh = p_next st; heap = (p_heap st)(fresh := e_new E);
          (a, m) = subscribe_or_create fresh (\<lambda>x. e_size E (heap x)) doc_id (p_manager st)
      in (a, st\<lparr>p_heap := heap, p_next := (if a = fresh then fresh + 1 else fresh), p_manager := m\<rparr>))"

text \<open>The part after the check of the pause controller; None is a panic while patching.\<close>

definition process_unpaused ::
  "('d, 'h, 'e) pipe_env \<Rightarrow> raw_fs_event \<Rightarrow> ('d, 'h) pipe \<Rightarrow>
   (('e pipeline_error, 'e pipeline_event option) result \<times> ('d, 'h) pipe) option" where
  "process_unpaused E ev st =
     (case e_resolve E (ev_path ev) of
        None \<Rightarrow> Some (Err (NotInWorkspace (ev_path ev)), st)
      | Some (workspace_id, doc_id) \<Rightarrow>
          if ev_kind ev = Remove then Some (Okay (Some (DocRemoved workspace_id doc_id (ev_path ev))), st)
          else case p_disk st (ev_path ev) of
            Missing \<Rightarrow> Some (Err (ReadFailed (ev_path ev)), st)
          | Unreadable \<Rightarrow> Some (Err (ReadFailed (ev_path ev)), st)
          | FileText content \<Rightarrow>
              let new_hash = sha256_hex (e_sha256 E) (as_bytes content) in
              (case e_get_hash E (e_uuid_str E doc_id) (p_hashes st) of
                 Inl e \<Rightarrow> Some (Err (HashStoreFailed e), st)
               | Inr stored \<Rightarrow>
                   if stored = Some new_hash then Some (Okay None, st)
                   else
                     let (a, st1) = open_doc E doc_id st;
                         current_text = yt_get_string (e_text E) (p_heap st1 a)
                     in do {
                       (d, ops) \<leftarrow> apply_text_diff_to_ytext (e_text E) (p_heap st1 a) current_text content;
                       let st2 = st1\<lparr>p_heap := (p_heap st1)(a := d)\<rparr>;
                       let st3 = st2\<lparr>p_hashes := snd (e_set_hash E (e_uuid_str E doc_id) new_hash (p_hashes st2))\<rparr>;
                       Some (Okay (Some (DocUpdated workspace_id doc_id (ev_path ev) new_hash (length ops))), st3)
                     }))"

definition process_event_with_pause ::
  "('d, 'h, 'e) pipe_env \<Rightarrow> bool \<Rightarrow> nat \<Rightarrow> raw_fs_event \<Rightarrow> ('d, 'h) pipe \<Rightarrow>
   (('e pipeline_error, 'e pipeline_event option) result \<times> ('d, 'h) pipe) option" where
  "process_event_with_pause E controller now ev st =
     (if ev_kind ev \<noteq> Remove \<and> controller then
        let (paused, kept) = is_paused (ev_path ev) now (paused_until st);
            st1 = st\<lparr>paused_until := kept\<rparr>
        in if paused then Some (Okay None, st1) else process_unpaused E ev st1
      else process_unpaused E ev st)"

section \<open>Writing remote updates to disk\<close>

text \<open>What the file system answers: whether directories can be made, and the file a failed write leaves.\<close>

record io_outcome =
  mkdir_ok :: bool
  write_fault :: "disk_file option"

definition has_parent :: "fpath \<Rightarrow> bool" where
  "has_parent path = (path \<noteq> [] \<and> path \<noteq> [lit ''/''])"

definition apply_remote_update_to_disk ::
  "('d, 'h, 'e) pipe_env \<Rightarrow> io_outcome \<Rightarrow> bool \<Rightarrow> nat \<Rightarrow> nat \<Rightarrow> uuid \<Rightarrow> fpath \<Rightarrow> byte list \<Rightarrow>
   ('d, 'h) pipe \<Rightarrow> ('e pipeline_error, bool) result \<times> ('d, 'h) pipe" where
  "apply_remote_update_to_disk E io controller now pause_duration doc_id path update st =
     (let (a, st1) = open_doc E doc_id st;
          (ok, d) = e_apply E update (p_heap st1 a);
          st2 = st1\<lparr>p_heap := (p_heap st1)(a := d)\<rparr>
      in if \<not> ok then (Err UpdateRejected, st2)
         else
           let rendered_markdown = yt_get_string (e_text E) d;
               st3 = st2\<lparr>p_manager := snd (unsubscribe doc_id (p_manager st2))\<rparr>
           in case (case p_disk st3 path of
                      FileText content \<Rightarrow> Some content
                    | Missing \<Rightarrow> Some []
                    | Unreadable \<Rightarrow> None) of
                None \<Rightarrow> (Err (ReadFailed path), st3)
              | Some existing_markdown \<Rightarrow>
                  if existing_markdown = rendered_markdown then (Okay False, st3)
                  else if has_parent path \<and> \<not> mkdir_ok io then (Err (CreateDirFailed path), st3)
                  else
                    let st4 = (if controller
                          then st3\<lparr>paused_until := pause_path_for path pause_duration now (paused_until st3)\<rparr>
                          else st3)
                    in case write_fault io of
                         Some left \<Rightarrow> (Err (WriteFailed path), st4\<lparr>p_disk := (p_disk st4)(path := left)\<rparr>)
                       | None \<Rightarrow>
                           let st5 = st4\<lparr>p_disk := (p_disk st4)(path := FileText rendered_markdown)\<rparr>;
                               new_hash = sha256_hex (e_sha256 E) (as_bytes rendered_markdown);
                               (r, hs) = e_set_hash E (e_uuid_str E doc_id) new_hash (p_hashes st5);
                               st6 = st5\<lparr>p_hashes := hs\<rparr>
                           in (case r of
                                 Inl e \<Rightarrow> (Err (HashStoreFailed e), st6)
                               | Inr _ \<Rightarrow> (Okay True, st6)))"

section \<open>The loop\<close>

text \<open>What ends the wait of one turn of \<open>run_pipeline\<close>.\<close>

datatype wake = ShutdownSignal | RawEvent "raw_fs_event option" | PollTick

text \<open>
  The events a drain handed over, processed at the times \<open>clock\<close>; \<open>receiver_open i\<close> tells
  whether the channel still takes the answer to the i-th of them. None is a panic of the task;
  the flag says whether the loop goes on.
\<close>

fun process_ready ::
  "('d, 'h, 'e) pipe_env \<Rightarrow> bool \<Rightarrow> (nat \<Rightarrow> nat) \<Rightarrow> (nat \<Rightarrow> bool) \<Rightarrow> nat \<Rightarrow> raw_fs_event list \<Rightarrow>
   ('d, 'h) pipe \<Rightarrow> (bool \<times> 'e pipeline_event list \<times> ('d, 'h) pipe) option"
where
  "process_ready E controller clock receiver_open i [] st = Some (True, [], st)"
| "process_ready E controller clock receiver_open i (ev # evs) st =
     do {
       (r, st1) \<leftarrow> process_event_with_pause E controller (clock i) ev st;
       let pe = (case r of Inr out \<Rightarrow> out | Inl e \<Rightarrow> Some (PipeError (ev_path ev) e));
       case pe of
         None \<Rightarrow> process_ready E controller clock receiver_open (Suc i) evs st1
       | Some x \<Rightarrow>
           if receiver_open i then do {
             (cont, out, st2) \<leftarrow> process_ready E controller clock receiver_open (Suc i) evs st1;
             Some (cont, x # out, st2)
           } else Some (False, [], st1)
     }"

record turn =
  t_wake :: wake
  t_push_at :: nat
  t_drain_at :: nat
  t_clock :: "nat \<Rightarrow> nat"
  t_receiver :: "nat \<Rightarrow> bool"

definition pipeline_turn ::
  "('d, 'h, 'e) pipe_env \<Rightarrow> bool \<Rightarrow> turn \<Rightarrow> debouncer \<Rightarrow> ('d, 'h) pipe \<Rightarrow>
   (bool \<times> 'e pipeline_event list \<times> debouncer \<times> ('d, 'h) pipe) option" where
  "pipeline_turn E controller t deb st =
     (if t_wake t = ShutdownSignal \<or> t_wake t = RawEvent None then Some (False, [], deb, st)
      else
        let deb1 = (case t_wake t of RawEvent (Some ev) \<Rightarrow> push_at ev (t_push_at t) deb | _ \<Rightarrow> deb);
            (ready, deb2) = drain_ready_at (t_drain_at t) deb1
        in do {
          (cont, out, st1) \<leftarrow> process_ready E controller (t_clock t) (t_receiver t) 0 ready st;
          Some (cont, out, deb2, st1)
        })"

fun run_pipeline ::
  "('d, 'h, 'e) pipe_env \<Rightarrow> bool \<Rightarrow> turn list \<Rightarrow> debouncer \<Rightarrow> ('d, 'h) pipe \<Rightarrow>
   ('e pipeline_event list \<times> debouncer \<times> ('d, 'h) pipe) option"
where
  "run_pipeline E controller [] deb st = Some ([], deb, st)"
| "run_pipeline E controller (t # ts) deb st =
     do {
       (cont, out, deb1, st1) \<leftarrow> pipeline_turn E controller t deb st;
       if cont then do {
         (out', deb2, st2) \<leftarrow> run_pipeline E controller ts deb1 st1;
         Some (out @ out', deb2, st2)
       } else Some (out, deb1, st1)
     }"

section \<open>Invariant\<close>

text \<open>
  The manager's own invariant holds, every managed document has an address that was handed out,
  and no two documents share one.
\<close>

definition pipe_inv :: "('d, 'h) pipe \<Rightarrow> bool" where
  "pipe_inv st \<longleftrightarrow>
     manager_inv (p_manager st) \<and>
     (\<forall>i e. map_of (docs (p_manager st)) i = Some e \<longrightarrow> doc e < p_next st) \<and>
     (\<forall>i j e e'. map_of (docs (p_manager st)) i = Some e \<longrightarrow> map_of (docs (p_manager st)) j = Some e' \<longrightarrow>
        doc e = doc e' \<longrightarrow> i = j)"

text \<open>The text of a managed document, and that no counter of the manager is at its end.\<close>

definition doc_text :: "('d, 'h, 'e) pipe_env \<Rightarrow> ('d, 'h) pipe \<Rightarrow> uuid \<Rightarrow> rstr option" where
  "doc_text E st i = map_option (\<lambda>a. yt_get_string (e_text E) (p_heap st a)) (get_doc i (p_manager st))"

definition pipe_room :: "('d, 'h, 'e) pipe_env \<Rightarrow> ('d, 'h) pipe \<Rightarrow> uuid \<Rightarrow> bool" where
  "pipe_room E st i \<longleftrightarrow>
     total_memory_bytes (p_manager st) + e_size E (e_new E) \<le> usize_max \<and>
     subscriber_count i (p_manager st) < usize_max \<and> next_lru_tick (p_manager st) < usize_max"

definition subscribed :: "('d, 'h) pipe \<Rightarrow> uuid set" where
  "subscribed st = {i. subscriber_count i (p_manager st) > 0}"

lemma subscribed_iff:
  "i \<in> subscribed st \<longleftrightarrow> (\<exists>e. map_of (docs (p_manager st)) i = Some e \<and> subscribers e \<noteq> 0)"
  by (auto simp: subscribed_def subscriber_count_def split: option.splits)

lemma pipe_inv_other [simp]:
  "pipe_inv (st\<lparr>p_hashes := h\<rparr>) = pipe_inv st" "pipe_inv (st\<lparr>p_disk := dk\<rparr>) = pipe_inv st"
  "pipe_inv (st\<lparr>paused_until := ps\<rparr>) = pipe_inv st" "pipe_inv (st\<lparr>p_heap := hp\<rparr>) = pipe_inv st"
  by (simp_all add: pipe_inv_def)

lemma subscribed_other [simp]:
  "subscribed (st\<lparr>p_hashes := h\<rparr>) = subscribed st" "subscribed (st\<lparr>p_disk := dk\<rparr>) = subscribed st"
  "subscribed (st\<lparr>paused_until := ps\<rparr>) = subscribed st" "subscribed (st\<lparr>p_heap := hp\<rparr>) = subscribed st"
  by (simp_all add: subscribed_def)

lemma doc_text_other [simp]:
  "doc_text E (st\<lparr>p_hashes := h\<rparr>) = doc_text E st" "doc_text E (st\<lparr>p_disk := dk\<rparr>) = doc_text E st"
  "doc_text E (st\<lparr>paused_until := ps\<rparr>) = doc_text E st"
  by (simp_all add: doc_text_def fun_eq_iff)

lemma open_doc_effect:
  assumes inv: "pipe_inv st" and room: "pipe_room E st i" and run: "open_doc E i st = (a, st1)"
  shows "pipe_inv st1"
    and "get_doc i (p_manager st1) = Some a"
    and "subscriber_count i (p_manager st1) = Suc (subscriber_count i (p_manager st))"
    and "yt_get_string (e_text E) (p_heap st1 a) =
      (case doc_text E st i of Some t \<Rightarrow> t | None \<Rightarrow> yt_get_string (e_text E) (e_new E))"
    and "j \<noteq> i \<Longrightarrow> doc_text E st1 j \<in> {None, doc_text E st j}"
    and "subscribed st \<subseteq> subscribed st1"
    and "p_hashes st1 = p_hashes st \<and> paused_until st1 = paused_until st \<and> p_disk st1 = p_disk st"
    and "next_lru_tick (p_manager st1) = next_lru_tick (p_manager st)"
proof -
  let ?heap = "(p_heap st)(p_next st := e_new E)" and ?m = "p_manager st" and ?n = "p_next st"
  let ?est = "\<lambda>x. e_size E (?heap x)"
  obtain m where sub: "subscribe_or_create ?n ?est i ?m = (a, m)"
    and st1: "st1 = st\<lparr>p_heap := ?heap, p_next := (if a = ?n then ?n + 1 else ?n), p_manager := m\<rparr>"
    using run by (auto simp: open_doc_def Let_def split: prod.splits)
  have minv: "manager_inv ?m" and mroom: "room ?n ?est ?m (Subscribe i)"
    using inv room by (auto simp: pipe_inv_def pipe_room_def)
  note eff = subscribe_effect [OF minv mroom sub]
  obtain e where e: "map_of (docs m) i = Some e" "doc e = a" "subscribers e = Suc (subscriber_count i ?m)"
    using eff(1) by blast
  have old: "doc f < ?n" if "map_of (docs ?m) j = Some f" for j f
    using inv that by (auto simp: pipe_inv_def)
  have a: "a = ?n \<and> map_of (docs ?m) i = None \<or> (\<exists>f. map_of (docs ?m) i = Some f \<and> doc f = a \<and> a < ?n)"
    using eff(2) old by (cases "map_of (docs ?m) i") auto
  have other: "doc f < ?n \<and> doc f \<noteq> a \<and> map_of (docs ?m) j = Some f" if "map_of (docs m) j = Some f" "j \<noteq> i" for j f
  proof -
    have jm: "map_of (docs ?m) j = Some f" using eff(3) that by blast
    have "doc f \<noteq> a" using a old [OF jm] jm inv that(2) unfolding pipe_inv_def by (metis less_irrefl)
    then show ?thesis using old [OF jm] jm by simp
  qed
  have "manager_inv m" using manager_inv_subscribe [OF minv mroom] sub by simp
  moreover have "doc f < p_next st1" if "map_of (docs m) j = Some f" for j f
    using other [of j f] that e a by (cases "j = i") (auto simp: st1)
  moreover have "j = k" if "map_of (docs m) j = Some f" "map_of (docs m) k = Some f'" "doc f = doc f'" for j k f f'
    using other [of j f] other [of k f'] that e inv unfolding pipe_inv_def by (metis option.inject)
  ultimately show "pipe_inv st1" unfolding pipe_inv_def by (simp add: st1)
  show "get_doc i (p_manager st1) = Some a" using e by (simp add: get_doc_def st1)
  show "subscriber_count i (p_manager st1) = Suc (subscriber_count i (p_manager st))"
    using e by (simp add: subscriber_count_def [of i m] st1)
  show "yt_get_string (e_text E) (p_heap st1 a) =
      (case doc_text E st i of Some t \<Rightarrow> t | None \<Rightarrow> yt_get_string (e_text E) (e_new E))"
    using a by (auto simp: doc_text_def get_doc_def st1)
  show "doc_text E st1 j \<in> {None, doc_text E st j}" if "j \<noteq> i"
    using other [of j] that by (cases "map_of (docs m) j") (auto simp: doc_text_def get_doc_def st1)
  show "subscribed st \<subseteq> subscribed st1"
  proof
    fix j assume "j \<in> subscribed st"
    then obtain f where "map_of (docs ?m) j = Some f" "subscribers f \<noteq> 0" by (auto simp: subscribed_iff)
    then show "j \<in> subscribed st1" using eff(4) [of j f] e by (cases "j = i") (auto simp: subscribed_iff st1)
  qed
  show "p_hashes st1 = p_hashes st \<and> paused_until st1 = paused_until st \<and> p_disk st1 = p_disk st"
    by (simp add: st1)
  show "next_lru_tick (p_manager st1) = next_lru_tick (p_manager st)"
  proof -
    have "m = snd (subscribe_or_create ?n ?est i ?m)" using sub by simp
    then show ?thesis by (simp add: st1)
  qed
qed

lemma doc_text_write:
  assumes "pipe_inv st" "get_doc i (p_manager st) = Some a"
  shows "doc_text E (st\<lparr>p_heap := (p_heap st)(a := d)\<rparr>) =
    (doc_text E st)(i \<mapsto> yt_get_string (e_text E) d)"
proof
  fix j
  show "doc_text E (st\<lparr>p_heap := (p_heap st)(a := d)\<rparr>) j = ((doc_text E st)(i \<mapsto> yt_get_string (e_text E) d)) j"
  proof (cases "j = i")
    case False
    have "get_doc j (p_manager st) \<noteq> Some a"
    proof
      assume "get_doc j (p_manager st) = Some a"
      then obtain e' where e': "map_of (docs (p_manager st)) j = Some e'" "doc e' = a" by (auto simp: get_doc_def)
      obtain e where e: "map_of (docs (p_manager st)) i = Some e" "doc e = a"
        using assms(2) by (auto simp: get_doc_def)
      have "i = j" using assms(1) e e' unfolding pipe_inv_def by blast
      then show False using False by simp
    qed
    then show ?thesis using False by (auto simp: doc_text_def intro: map_option_cong)
  qed (use assms in \<open>simp add: doc_text_def\<close>)
qed

text \<open>A diff applied to a document, from the helper lemmas of the patch.\<close>

lemma diff_reads_as:
  assumes "ytext_laws Y" "blen (yt_get_string Y t) < 2 ^ 32" "blen c < 2 ^ 32"
  shows "\<exists>t' ops. apply_text_diff_to_ytext Y t (yt_get_string Y t) c = Some (t', ops) \<and> yt_get_string Y t' = c"
proof -
  obtain ops where ops: "diff_to_patch_ops (yt_get_string Y t) c = Some ops" "patches ops (yt_get_string Y t) c"
    using diff_to_patch_ops_patches [OF assms(2)] by blast
  from apply_patch_ops_patches [OF assms(1) ops(2) assms(3) refl] ops(1) show ?thesis
    by (auto simp: apply_text_diff_to_ytext_def)
qed

section \<open>Runs of the pipeline\<close>

datatype pipe_op =
    UserSave fpath disk_file
  | FsEvent bool nat raw_fs_event
  | RemoteUpdate io_outcome bool nat nat uuid fpath "byte list"

fun pipe_step :: "('d, 'h, 'e) pipe_env \<Rightarrow> ('d, 'h) pipe \<Rightarrow> pipe_op \<Rightarrow> ('d, 'h) pipe" where
  "pipe_step E st (UserSave path f) = st\<lparr>p_disk := (p_disk st)(path := f)\<rparr>"
| "pipe_step E st (FsEvent controller now ev) =
     (case process_event_with_pause E controller now ev st of None \<Rightarrow> st | Some (_, st') \<Rightarrow> st')"
| "pipe_step E st (RemoteUpdate io controller now pause_duration i path update) =
     snd (apply_remote_update_to_disk E io controller now pause_duration i path update st)"

fun pipe_ok :: "('d, 'h, 'e) pipe_env \<Rightarrow> ('d, 'h) pipe \<Rightarrow> pipe_op \<Rightarrow> bool" where
  "pipe_ok E st (UserSave path f) = True"
| "pipe_ok E st (FsEvent controller now ev) =
     (case e_resolve E (ev_path ev) of None \<Rightarrow> True | Some (ws, i) \<Rightarrow> pipe_room E st i)"
| "pipe_ok E st (RemoteUpdate io controller now pause_duration i path update) = pipe_room E st i"

definition pipe_start :: "('d, 'h, 'e) pipe_env \<Rightarrow> nat \<Rightarrow> 'h \<Rightarrow> (fpath \<Rightarrow> disk_file) \<Rightarrow> ('d, 'h) pipe" where
  "pipe_start E limit h disk =
     \<lparr>p_heap = (\<lambda>_. e_new E), p_next = 0, p_manager = doc_manager_new limit, p_hashes = h,
      paused_until = [], p_disk = disk\<rparr>"

text \<open>The branches of an event, for the proofs about whole runs.\<close>

lemma process_unpaused_cases:
  assumes "process_unpaused E ev st = Some (r, st')"
  obtains (same) "st' = st" "\<And>ws i p h n. r \<noteq> Okay (Some (DocUpdated ws i p h n))"
  | (applied) ws i content a st1 d ops h where
      "e_resolve E (ev_path ev) = Some (ws, i)" "p_disk st (ev_path ev) = FileText content"
      "open_doc E i st = (a, st1)"
      "apply_text_diff_to_ytext (e_text E) (p_heap st1 a) (yt_get_string (e_text E) (p_heap st1 a)) content = Some (d, ops)"
      "h = sha256_hex (e_sha256 E) (as_bytes content)"
      "st' = st1\<lparr>p_heap := (p_heap st1)(a := d),
        p_hashes := snd (e_set_hash E (e_uuid_str E i) h (p_hashes st1))\<rparr>"
      "r = Okay (Some (DocUpdated ws i (ev_path ev) h (length ops)))"
proof (cases "\<exists>ws i content stored. e_resolve E (ev_path ev) = Some (ws, i) \<and> ev_kind ev \<noteq> Remove \<and>
    p_disk st (ev_path ev) = FileText content \<and> e_get_hash E (e_uuid_str E i) (p_hashes st) = Inr stored \<and>
    stored \<noteq> Some (sha256_hex (e_sha256 E) (as_bytes content))")
  case True
  then obtain ws i content stored where c: "e_resolve E (ev_path ev) = Some (ws, i)" "ev_kind ev \<noteq> Remove"
    "p_disk st (ev_path ev) = FileText content" "e_get_hash E (e_uuid_str E i) (p_hashes st) = Inr stored"
    "stored \<noteq> Some (sha256_hex (e_sha256 E) (as_bytes content))" by blast
  obtain a st1 where od: "open_doc E i st = (a, st1)" by fastforce
  from assms c od obtain d ops where
    "apply_text_diff_to_ytext (e_text E) (p_heap st1 a) (yt_get_string (e_text E) (p_heap st1 a)) content = Some (d, ops)"
    "st' = st1\<lparr>p_heap := (p_heap st1)(a := d),
      p_hashes := snd (e_set_hash E (e_uuid_str E i) (sha256_hex (e_sha256 E) (as_bytes content)) (p_hashes st1))\<rparr>"
    "r = Okay (Some (DocUpdated ws i (ev_path ev) (sha256_hex (e_sha256 E) (as_bytes content)) (length ops)))"
    by (auto simp: process_unpaused_def Let_def bind_eq_Some_conv)
  then show thesis using applied [OF c(1,3) od _ refl] by blast
next
  case False
  have "st' = st \<and> (\<forall>ws i p h n. r \<noteq> Okay (Some (DocUpdated ws i p h n)))"
    using assms False
    by (auto simp: process_unpaused_def Let_def split: option.splits if_splits disk_file.splits sum.splits)
  then show thesis using same by blast
qed

lemma process_event_unpaused:
  assumes "process_event_with_pause E controller now ev st = Some (r, st')"
  obtains (paused) ps where "st' = st\<lparr>paused_until := ps\<rparr>" "r = Okay None"
  | (unpaused) ps where "process_unpaused E ev (st\<lparr>paused_until := ps\<rparr>) = Some (r, st')"
proof (cases "ev_kind ev \<noteq> Remove \<and> controller")
  case True
  obtain b ps where ip: "is_paused (ev_path ev) now (paused_until st) = (b, ps)" by fastforce
  show thesis
  proof (cases b)
    case True
    then show thesis
      using paused [of ps] assms \<open>ev_kind ev \<noteq> Remove \<and> controller\<close> ip by (simp add: process_event_with_pause_def)
  next
    case False
    then show thesis
      using unpaused [of ps] assms \<open>ev_kind ev \<noteq> Remove \<and> controller\<close> ip by (simp add: process_event_with_pause_def)
  qed
next
  case False
  have "st\<lparr>paused_until := paused_until st\<rparr> = st" by simp
  then show thesis
    using unpaused [of "paused_until st"] assms False by (auto simp: process_event_with_pause_def split: if_splits)
qed

text \<open>Cancelling the subscription, and a whole remote update.\<close>

lemma unsubscribe_pipe:
  assumes "pipe_inv st" "next_lru_tick (p_manager st) < usize_max"
    and st': "st' = st\<lparr>p_manager := snd (unsubscribe i (p_manager st))\<rparr>"
  shows "pipe_inv st'"
    and "doc_text E st' j \<in> {None, doc_text E st j}"
    and "j \<in> subscribed st \<Longrightarrow> j \<noteq> i \<or> subscriber_count i (p_manager st) > 1 \<Longrightarrow> j \<in> subscribed st'"
proof -
  obtain b m where u: "unsubscribe i (p_manager st) = (b, m)" by fastforce
  have minv: "manager_inv (p_manager st)" using assms(1) by (simp add: pipe_inv_def)
  note eff = unsubscribe_effect [OF minv assms(2) u]
  have m: "p_manager st' = m" "p_next st' = p_next st" "p_heap st' = p_heap st" using st' u by auto
  have "manager_inv m" using manager_inv_unsubscribe [OF minv assms(2), of i] u by simp
  moreover have "doc e < p_next st" if "map_of (docs m) k = Some e" for k e
    using eff(1) [OF that] assms(1) unfolding pipe_inv_def by metis
  moreover have "k = l" if "map_of (docs m) k = Some e" "map_of (docs m) l = Some e'" "doc e = doc e'" for k l e e'
    using eff(1) [OF that(1)] eff(1) [OF that(2)] that(3) assms(1) unfolding pipe_inv_def by metis
  ultimately show "pipe_inv st'" unfolding pipe_inv_def m by blast
  show "doc_text E st' j \<in> {None, doc_text E st j}"
    using eff(1) [of j] by (cases "map_of (docs m) j") (auto simp: doc_text_def get_doc_def m)
  show "j \<in> subscribed st'" if j: "j \<in> subscribed st" and s: "j \<noteq> i \<or> subscriber_count i (p_manager st) > 1"
  proof -
    obtain e where e: "map_of (docs (p_manager st)) j = Some e" "subscribers e \<noteq> 0" using j by (auto simp: subscribed_iff)
    have "subscribers e > (if j = i then 1 else 0)" using s e by (auto simp: subscriber_count_def)
    then obtain e' where "map_of (docs m) j = Some e'" "subscribers e' \<noteq> 0"
      using eff(2) [OF e(1)] by (auto split: if_splits)
    then show ?thesis by (auto simp: subscribed_iff m)
  qed
qed

lemma remote_update_cases:
  assumes "pipe_inv st" "pipe_room E st i"
    and "apply_remote_update_to_disk E io controller now dur i path update st = (r, st')"
  obtains a st1 st2 st3 ok d where
    "open_doc E i st = (a, st1)" "e_apply E update (p_heap st1 a) = (ok, d)"
    "st2 = st1\<lparr>p_heap := (p_heap st1)(a := d)\<rparr>" "pipe_inv st2" "subscribed st \<subseteq> subscribed st2"
    "get_doc i (p_manager st2) = Some a"
    "st3 = st2\<lparr>p_manager := snd (unsubscribe i (p_manager st2))\<rparr>" "pipe_inv st3" "subscribed st \<subseteq> subscribed st3"
    "doc_text E st3 i \<in> {None, Some (yt_get_string (e_text E) d)}"
    "\<not> ok \<and> r = Err UpdateRejected \<and> st' = st2 \<or>
     ok \<and> p_manager st' = p_manager st3 \<and> p_heap st' = p_heap st3 \<and> p_next st' = p_next st3"
    "r = Okay True \<Longrightarrow> \<exists>rendered. rendered = yt_get_string (e_text E) d \<and>
      p_disk st' = (p_disk st)(path := FileText rendered) \<and>
      p_hashes st' = snd (e_set_hash E (e_uuid_str E i) (sha256_hex (e_sha256 E) (as_bytes rendered)) (p_hashes st))"
proof -
  obtain a st1 where od: "open_doc E i st = (a, st1)" by fastforce
  obtain ok d where ap: "e_apply E update (p_heap st1 a) = (ok, d)" by fastforce
  define st2 where "st2 = st1\<lparr>p_heap := (p_heap st1)(a := d)\<rparr>"
  define st3 where "st3 = st2\<lparr>p_manager := snd (unsubscribe i (p_manager st2))\<rparr>"
  note eff = open_doc_effect [OF assms(1,2) od]
  have inv2: "pipe_inv st2" and sub2: "subscribed st \<subseteq> subscribed st2"
    and get2: "get_doc i (p_manager st2) = Some a"
    using eff(1,2,6) by (simp_all add: st2_def)
  have tick: "next_lru_tick (p_manager st2) < usize_max"
    using eff(8) assms(2) by (simp add: st2_def pipe_room_def)
  note un = unsubscribe_pipe [OF inv2 tick st3_def]
  have "subscribed st \<subseteq> subscribed st3"
  proof
    fix j assume j: "j \<in> subscribed st"
    have "subscriber_count i (p_manager st2) = Suc (subscriber_count i (p_manager st))"
      using eff(3) by (simp add: st2_def)
    then have "j \<noteq> i \<or> subscriber_count i (p_manager st2) > 1" using j by (auto simp: subscribed_def)
    then show "j \<in> subscribed st3" using un(3) [of j] j sub2 by blast
  qed
  moreover have "doc_text E st3 i \<in> {None, Some (yt_get_string (e_text E) d)}"
    using un(2) [of E i] doc_text_write [OF eff(1,2), of E d] by (simp add: st2_def)
  moreover have "\<not> ok \<and> r = Err UpdateRejected \<and> st' = st2 \<or>
     ok \<and> p_manager st' = p_manager st3 \<and> p_heap st' = p_heap st3 \<and> p_next st' = p_next st3"
  proof (cases ok)
    case True
    note run = assms(3) [unfolded apply_remote_update_to_disk_def od Let_def prod.case ap, folded st2_def, folded st3_def]
    have "p_manager st' = p_manager st3 \<and> p_heap st' = p_heap st3 \<and> p_next st' = p_next st3"
      using run True by (auto split: if_splits option.splits disk_file.splits sum.splits prod.splits)
    then show ?thesis using True by simp
  next
    case False
    then show ?thesis using assms(3) od ap by (auto simp: apply_remote_update_to_disk_def st2_def)
  qed
  moreover have "\<exists>rendered. rendered = yt_get_string (e_text E) d \<and>
      p_disk st' = (p_disk st)(path := FileText rendered) \<and>
      p_hashes st' = snd (e_set_hash E (e_uuid_str E i) (sha256_hex (e_sha256 E) (as_bytes rendered)) (p_hashes st))"
    if "r = Okay True"
    using assms(3) that od ap eff(7)
    by (auto simp: apply_remote_update_to_disk_def Let_def split: if_splits option.splits disk_file.splits sum.splits prod.splits)
  ultimately show thesis using that [OF od ap st2_def inv2 sub2 get2 st3_def un(1)] by blast
qed

lemma pipe_cong:
  assumes "p_manager st' = p_manager st" "p_next st' = p_next st"
  shows "pipe_inv st' = pipe_inv st" and "subscribed st' = subscribed st"
  using assms by (simp_all add: pipe_inv_def subscribed_def)

lemma pipe_room_pauses [simp]: "pipe_room E (st\<lparr>paused_until := ps\<rparr>) i = pipe_room E st i"
  by (simp add: pipe_room_def)

lemma event_keeps:
  assumes "pipe_inv st" "pipe_ok E st (FsEvent controller now ev)"
    and "process_event_with_pause E controller now ev st = Some (r, st')"
  shows "pipe_inv st' \<and> subscribed st \<subseteq> subscribed st'"
    and "r = Okay (Some (DocUpdated ws i p h n)) \<Longrightarrow> i \<in> subscribed st'"
proof -
  have "pipe_inv st' \<and> subscribed st \<subseteq> subscribed st' \<and>
    (r = Okay (Some (DocUpdated ws i p h n)) \<longrightarrow> i \<in> subscribed st')"
    using assms(3)
  proof (cases rule: process_event_unpaused)
    case (paused ps)
    then show ?thesis using assms(1) by simp
  next
    case (unpaused ps)
    let ?st = "st\<lparr>paused_until := ps\<rparr>"
    from unpaused show ?thesis
    proof (cases rule: process_unpaused_cases)
      case same
      then show ?thesis using assms(1) by simp
    next
      case (applied ws' k content a st1 d ops h')
      have room: "pipe_room E ?st k" using assms(2) applied(1) by simp
      have inv: "pipe_inv ?st" using assms(1) by simp
      note eff = open_doc_effect [OF inv room applied(3)]
      have "k \<in> subscribed st1" using eff(3) by (simp add: subscribed_def)
      then show ?thesis using eff(1,6) applied(6,7) by auto
    qed
  qed
  then show "pipe_inv st' \<and> subscribed st \<subseteq> subscribed st'"
    "r = Okay (Some (DocUpdated ws i p h n)) \<Longrightarrow> i \<in> subscribed st'" by blast+
qed

lemma remote_keeps:
  assumes "pipe_inv st" "pipe_room E st i"
    and "apply_remote_update_to_disk E io controller now dur i path update st = (r, st')"
  shows "pipe_inv st' \<and> subscribed st \<subseteq> subscribed st'"
  using assms
proof (cases rule: remote_update_cases)
  case (1 a st1 st2 st3 ok d)
  then show ?thesis using pipe_cong [of st' st3] by auto
qed

lemma pipe_step_keeps:
  assumes "pipe_inv st" "pipe_ok E st op"
  shows "pipe_inv (pipe_step E st op) \<and> subscribed st \<subseteq> subscribed (pipe_step E st op)"
proof (cases op)
  case (FsEvent controller now ev)
  show ?thesis
  proof (cases "process_event_with_pause E controller now ev st")
    case (Some x)
    then show ?thesis using event_keeps(1) [of st E controller now ev "fst x" "snd x"] assms FsEvent
      by (simp add: case_prod_beta)
  qed (use assms FsEvent in simp)
next
  case (RemoteUpdate io controller now dur i path update)
  show ?thesis
    using remote_keeps [of st E i io controller now dur path update] assms RemoteUpdate
    by (metis pipe_ok.simps(3) pipe_step.simps(3) prod.collapse)
qed (use assms in simp)

interpretation pipeline: init_system "pipe_step E" "pipe_ok E" pipe_inv "pipe_start E limit h disk"
  for E :: "('d, 'h, 'e) pipe_env" and limit h disk
proof unfold_locales
  show "pipe_inv (pipe_start E limit h disk)"
    using manager.inv_start by (simp add: pipe_inv_def pipe_start_def doc_manager_new_def)
qed (use pipe_step_keeps in blast)

interpretation pipeline_subs: grow_system "pipe_step E" "pipe_ok E" pipe_inv subscribed
  for E :: "('d, 'h, 'e) pipe_env"
  by unfold_locales (use pipe_step_keeps in blast)

section \<open>Properties\<close>

lemma unpaused_start:
  assumes "ev_kind ev \<noteq> Remove" "\<not> controller \<or> \<not> fst (is_paused (ev_path ev) now (paused_until st))"
  obtains ps where "process_event_with_pause E controller now ev st = process_unpaused E ev (st\<lparr>paused_until := ps\<rparr>)"
proof (cases controller)
  case True
  obtain b kept where "is_paused (ev_path ev) now (paused_until st) = (b, kept)" by fastforce
  then show thesis using that [of kept] assms True by (simp add: process_event_with_pause_def)
next
  case False
  then show thesis using that [of "paused_until st"] by (simp add: process_event_with_pause_def)
qed

text \<open>
  (C18) The file wins: in every reachable state of the daemon, processing the event of a changed
  file that is not paused never panics, leaves the shared document reading exactly as the file,
  stores the file's hash, reports the update, and leaves the file and all other documents as
  they are (documents nobody subscribes to may be evicted).
\<close>

theorem watcher_applies_file:
  assumes laws: "ytext_laws (e_text E)"
    and st: "st = foldl (pipe_step E) (pipe_start E limit h disk) ops"
    and run: "run_ok (pipe_step E) (pipe_ok E) (pipe_start E limit h disk) (ops @ [FsEvent controller now ev])"
    and kind: "ev_kind ev \<noteq> Remove" "\<not> controller \<or> \<not> fst (is_paused (ev_path ev) now (paused_until st))"
    and env: "e_resolve E (ev_path ev) = Some (ws, i)" "p_disk st (ev_path ev) = FileText content"
      "e_get_hash E (e_uuid_str E i) (p_hashes st) = Okay stored"
      "hash = sha256_hex (e_sha256 E) (as_bytes content)" "stored \<noteq> Some hash"
    and sizes: "blen content < 2 ^ 32"
      "blen (case doc_text E st i of Some t \<Rightarrow> t | None \<Rightarrow> yt_get_string (e_text E) (e_new E)) < 2 ^ 32"
  shows "\<exists>n st'.
    process_event_with_pause E controller now ev st = Some (Okay (Some (DocUpdated ws i (ev_path ev) hash n)), st') \<and>
    doc_text E st' i = Some content \<and> (\<forall>j. j \<noteq> i \<longrightarrow> doc_text E st' j \<in> {None, doc_text E st j}) \<and>
    p_disk st' = p_disk st \<and> p_hashes st' = snd (e_set_hash E (e_uuid_str E i) hash (p_hashes st))"
proof -
  have inv: "pipe_inv st" and room: "pipe_room E st i"
    using pipeline.inv_reachable [of E limit h disk ops] run env(1) by (auto simp: run_ok_append st)
  obtain ps where pe: "process_event_with_pause E controller now ev st = process_unpaused E ev (st\<lparr>paused_until := ps\<rparr>)"
    using kind by (rule unpaused_start)
  let ?st = "st\<lparr>paused_until := ps\<rparr>"
  have inv: "pipe_inv ?st" and room: "pipe_room E ?st i" using inv room by simp_all
  obtain a st1 where od: "open_doc E i ?st = (a, st1)" by fastforce
  note eff = open_doc_effect [OF inv room od]
  have "blen (yt_get_string (e_text E) (p_heap st1 a)) < 2 ^ 32" using eff(4) sizes(2) by simp
  then obtain d ops where d: "yt_get_string (e_text E) d = content"
    "apply_text_diff_to_ytext (e_text E) (p_heap st1 a) (yt_get_string (e_text E) (p_heap st1 a)) content = Some (d, ops)"
    using diff_reads_as [OF laws _ sizes(1)] by blast
  let ?st' = "st1\<lparr>p_heap := (p_heap st1)(a := d), p_hashes := snd (e_set_hash E (e_uuid_str E i) hash (p_hashes st1))\<rparr>"
  have "process_unpaused E ev ?st = Some (Okay (Some (DocUpdated ws i (ev_path ev) hash (length ops))), ?st')"
    using env kind(1) od d(2) by (simp add: process_unpaused_def Let_def)
  moreover have "doc_text E ?st' = (doc_text E st1)(i \<mapsto> content)"
    using doc_text_write [OF eff(1,2), of E d] d(1) by simp
  ultimately show ?thesis unfolding pe using eff(5,7) by auto
qed

text \<open>
  An environment for the witnesses: plain texts as documents, an update appends its bytes, one
  file \<open>/a.md\<close> that is document 7, and the hashes in SQLite.
\<close>

definition demo_env :: "(rstr, documents_local, sql_error) pipe_env" where
  "demo_env =
     \<lparr>e_text = plain_ytext, e_new = [], e_size = length, e_apply = (\<lambda>u d. (True, d @ map unat u)),
      e_resolve = (\<lambda>p. if p = ev_path demo_event then Some (1, 7) else None), e_uuid_str = show_nat,
      e_sha256 = id, e_get_hash = get_stored_hash, e_set_hash = update_stored_hash\<rparr>"

definition demo_pipe :: "(rstr, documents_local) pipe" where
  "demo_pipe = pipe_start demo_env 1000 [(show_nat 7, [])] (\<lambda>_. Missing)"

lemmas demo_pipe_defs = demo_env_def demo_pipe_def pipe_start_def doc_manager_new_def pipe_room_def usize_max_def
  get_stored_hash_def doc_text_def get_doc_def subscriber_count_def demo_event_def

lemma demo_as_bytes: "sha256_hex id (as_bytes (lit ''hi'')) = lit ''6869''"
  by code_simp

theorem watcher_applies_file_witness:
  "\<exists>n st'. process_event_with_pause demo_env False 0 demo_event
      (pipe_step demo_env demo_pipe (UserSave (ev_path demo_event) (FileText (lit ''hi'')))) =
      Some (Okay (Some (DocUpdated 1 7 (ev_path demo_event) (lit ''6869'') n)), st') \<and>
    doc_text demo_env st' 7 = Some (lit ''hi'')"
proof -
  let ?st = "pipe_step demo_env demo_pipe (UserSave (ev_path demo_event) (FileText (lit ''hi'')))"
  have "\<exists>n st'.
    process_event_with_pause demo_env False 0 demo_event ?st =
      Some (Okay (Some (DocUpdated 1 7 (ev_path demo_event) (lit ''6869'') n)), st') \<and>
    doc_text demo_env st' 7 = Some (lit ''hi'') \<and> (\<forall>j. j \<noteq> 7 \<longrightarrow> doc_text demo_env st' j \<in> {None, doc_text demo_env ?st j}) \<and>
    p_disk st' = p_disk ?st \<and> p_hashes st' = snd (e_set_hash demo_env (e_uuid_str demo_env 7) (lit ''6869'') (p_hashes ?st))"
  proof (rule watcher_applies_file [of demo_env ?st 1000 "[(show_nat 7, [])]" "\<lambda>_. Missing"
        "[UserSave (ev_path demo_event) (FileText (lit ''hi''))]" False 0 demo_event 1 7 "lit ''hi''" "Some []"])
    show "ytext_laws (e_text demo_env)" using plain_ytext_laws by (simp add: demo_env_def)
    show "lit ''6869'' = sha256_hex (e_sha256 demo_env) (as_bytes (lit ''hi''))"
      using demo_as_bytes by (simp add: demo_env_def)
    show "Some [] \<noteq> Some (lit ''6869'')" by (simp add: lit_def)
  qed (simp_all add: demo_pipe_defs plain_ytext_def lit_def blen_def len_utf8_def)
  then show ?thesis by blast
qed

text \<open>
  (C19) No echo: when a remote update has been written to a file whose document is tracked by
  the hash store, the file holds the document's text, and the event of that write, whenever and
  however often it is processed, changes nothing.
\<close>

theorem remote_write_not_echoed:
  assumes store: "hash_store (e_get_hash E) (e_set_hash E) tracked"
    and st: "st = foldl (pipe_step E) (pipe_start E limit h disk) ops"
    and run: "run_ok (pipe_step E) (pipe_ok E) (pipe_start E limit h disk)
      (ops @ [RemoteUpdate io controller now dur i (ev_path ev) update])"
    and written: "apply_remote_update_to_disk E io controller now dur i (ev_path ev) update st = (Okay True, st')"
    and ev: "e_resolve E (ev_path ev) = Some (ws, i)" "ev_kind ev \<noteq> Remove"
    and tracked: "tracked (e_uuid_str E i) (p_hashes st)"
  shows "\<exists>rendered. p_disk st' (ev_path ev) = FileText rendered \<and> doc_text E st' i \<in> {None, Some rendered} \<and>
    (\<forall>controller' now'. \<exists>pauses.
      process_event_with_pause E controller' now' ev st' = Some (Okay None, st'\<lparr>paused_until := pauses\<rparr>))"
proof -
  have inv: "pipe_inv st" and room: "pipe_room E st i"
    using pipeline.inv_reachable [of E limit h disk ops] run by (auto simp: run_ok_append st)
  from inv room written show ?thesis
  proof (cases rule: remote_update_cases)
    case (1 a st1 st2 st3 ok d)
    let ?text = "yt_get_string (e_text E) d"
    have disk: "p_disk st' (ev_path ev) = FileText ?text"
      and hash: "e_get_hash E (e_uuid_str E i) (p_hashes st') = Okay (Some (sha256_hex (e_sha256 E) (as_bytes ?text)))"
      using 1(12) [OF refl] hash_store.get_set [OF store tracked] by auto
    have "doc_text E st' = doc_text E st3" using 1(11) by (auto simp: doc_text_def)
    then have reads: "doc_text E st' i \<in> {None, Some ?text}" using 1(10) by simp
    have skip: "process_unpaused E ev (st'\<lparr>paused_until := ps\<rparr>) = Some (Okay None, st'\<lparr>paused_until := ps\<rparr>)" for ps
      using ev disk hash by (simp add: process_unpaused_def)
    have "\<exists>pauses. process_event_with_pause E c t ev st' = Some (Okay None, st'\<lparr>paused_until := pauses\<rparr>)" for c t
      using skip skip [of "paused_until st'"]
      by (cases c) (auto simp: process_event_with_pause_def ev(2) Let_def split: prod.split intro: exI [of _ "paused_until st'"])
    then show ?thesis using disk reads by blast
  qed
qed

theorem remote_write_not_echoed_witness:
  "\<exists>rendered. p_disk (pipe_step demo_env demo_pipe
        (RemoteUpdate \<lparr>mkdir_ok = True, write_fault = None\<rparr> True 5 20 7 (ev_path demo_event) [104, 105])) (ev_path demo_event) =
      FileText rendered \<and>
    (\<forall>controller' now'. \<exists>pauses. process_event_with_pause demo_env controller' now' demo_event
       (pipe_step demo_env demo_pipe
         (RemoteUpdate \<lparr>mkdir_ok = True, write_fault = None\<rparr> True 5 20 7 (ev_path demo_event) [104, 105])) =
       Some (Okay None, (pipe_step demo_env demo_pipe
         (RemoteUpdate \<lparr>mkdir_ok = True, write_fault = None\<rparr> True 5 20 7 (ev_path demo_event) [104, 105]))\<lparr>paused_until := pauses\<rparr>))"
proof -
  let ?io = "\<lparr>mkdir_ok = True, write_fault = None\<rparr>" and ?p = "ev_path demo_event"
  let ?st' = "pipe_step demo_env demo_pipe (RemoteUpdate ?io True 5 20 7 ?p [104, 105])"
  have "\<exists>rendered. p_disk ?st' ?p = FileText rendered \<and> doc_text demo_env ?st' 7 \<in> {None, Some rendered} \<and>
    (\<forall>controller' now'. \<exists>pauses.
      process_event_with_pause demo_env controller' now' demo_event ?st' = Some (Okay None, ?st'\<lparr>paused_until := pauses\<rparr>))"
  proof (rule remote_write_not_echoed [of demo_env row_tracked demo_pipe 1000 "[(show_nat 7, [])]" "\<lambda>_. Missing" "[]"
        ?io True 5 20 7 demo_event "[104, 105]" ?st' 1])
    show "hash_store (e_get_hash demo_env) (e_set_hash demo_env) row_tracked"
      using sqlite_hashes.hash_store_axioms by (simp add: demo_env_def)
    show "apply_remote_update_to_disk demo_env ?io True 5 20 7 ?p [104, 105] demo_pipe = (Okay True, ?st')"
      by (simp add: demo_pipe_defs apply_remote_update_to_disk_def open_doc_def subscribe_or_create_def Let_def
          evict_under_pressure.simps update_stored_hash_def plain_ytext_def case_prod_beta sat_usize_def)
  qed (simp_all add: demo_pipe_defs row_tracked_def)
  then show ?thesis by blast
qed

text \<open>
  A document updated from its file is held in memory for good: \<open>process_event_with_pause\<close>
  subscribes to it and never unsubscribes, so that after any further saves, events and remote
  updates the manager still holds it, with a subscriber, and no memory limit evicts it.
\<close>

theorem watched_document_never_released:
  assumes run: "run_ok (pipe_step E) (pipe_ok E) (pipe_start E limit h disk) (ops @ FsEvent controller now ev # later)"
    and "process_event_with_pause E controller now ev (foldl (pipe_step E) (pipe_start E limit h disk) ops) =
      Some (Okay (Some (DocUpdated ws i path hash n)), st')"
  shows "let m = p_manager (foldl (pipe_step E) (pipe_start E limit h disk) (ops @ FsEvent controller now ev # later))
    in contains_doc i m \<and> subscriber_count i m > 0"
proof -
  let ?st = "foldl (pipe_step E) (pipe_start E limit h disk) ops"
  have inv: "pipe_inv ?st" and ok: "pipe_ok E ?st (FsEvent controller now ev)"
    and later: "run_ok (pipe_step E) (pipe_ok E) st' later"
    using pipeline.inv_reachable [of E limit h disk ops] run assms(2) by (auto simp: run_ok_append)
  have "i \<in> subscribed st'" "pipe_inv st'"
    using event_keeps [OF inv ok assms(2)] by auto
  then have "i \<in> subscribed (foldl (pipe_step E) st' later)"
    using pipeline_subs.grow_run [OF _ later] by blast
  then show ?thesis
    using assms(2) by (auto simp: subscribed_iff contains_doc_def subscriber_count_def)
qed

theorem watched_document_never_released_witness:
  "let m = p_manager (foldl (pipe_step demo_env) demo_pipe
       [UserSave (ev_path demo_event) (FileText (lit ''hi'')), FsEvent False 0 demo_event,
        FsEvent False 0 \<lparr>ev_kind = Remove, ev_path = ev_path demo_event\<rparr>])
   in contains_doc 7 m \<and> subscriber_count 7 m > 0"
proof -
  let ?save = "UserSave (ev_path demo_event) (FileText (lit ''hi''))"
  let ?rm = "\<lparr>ev_kind = Remove, ev_path = ev_path demo_event\<rparr>"
  have start: "demo_pipe = pipe_start demo_env 1000 [(show_nat 7, [])] (\<lambda>_. Missing)" by (simp add: demo_pipe_def)
  obtain d ops where d: "apply_text_diff_to_ytext plain_ytext [] [] (lit ''hi'') = Some (d, ops)"
    using diff_reads_as [OF plain_ytext_laws, of "[]" "lit ''hi''"]
    by (auto simp: plain_ytext_def lit_def blen_def len_utf8_def)
  have p: "process_event_with_pause demo_env False 0 demo_event (pipe_step demo_env demo_pipe ?save) =
      Some (Okay (Some (DocUpdated 1 7 (ev_path demo_event) (lit ''6869'') (length ops))),
        \<lparr>p_heap = (\<lambda>_. [])(0 := d), p_next = 1,
         p_manager = \<lparr>docs = [(7, \<lparr>doc = 0, subscribers = 1, estimated_bytes = 0, lru_tick = 0\<rparr>)],
           max_memory_bytes = 1000, total_memory_bytes = 0, next_lru_tick = 1\<rparr>,
         p_hashes = [(show_nat 7, lit ''6869'')], paused_until = [],
         p_disk = (\<lambda>_. Missing)(ev_path demo_event := FileText (lit ''hi''))\<rparr>)"
    using d demo_as_bytes
    by (simp add: demo_env_def demo_pipe_def pipe_start_def doc_manager_new_def get_stored_hash_def
        process_event_with_pause_def process_unpaused_def demo_event_def open_doc_def subscribe_or_create_def Let_def
        evict_under_pressure.simps update_stored_hash_def plain_ytext_def sat_usize_def usize_max_def lit_def)
  have run: "run_ok (pipe_step demo_env) (pipe_ok demo_env) demo_pipe [?save, FsEvent False 0 demo_event, FsEvent False 0 ?rm]"
    using p by (simp add: demo_pipe_defs)
  show ?thesis
    using watched_document_never_released [of demo_env 1000 "[(show_nat 7, [])]" "\<lambda>_. Missing" "[?save]" False 0 demo_event
        "[FsEvent False 0 ?rm]", folded start] run p by simp
qed

lemma open_doc_frame:
  "open_doc E i st = (a, st1) \<Longrightarrow>
   open_doc E i (st\<lparr>p_disk := dk, paused_until := ps\<rparr>) = (a, st1\<lparr>p_disk := dk, paused_until := ps\<rparr>)"
  by (auto simp: open_doc_def Let_def split: prod.splits)

lemma is_paused_first:
  "map_of pauses path = Some til \<Longrightarrow> now < til \<Longrightarrow> fst (is_paused path now pauses)"
  by (induction pauses) (auto simp: is_paused_def Let_def split: if_splits)

text \<open>
  An edit saved while its path is paused is lost: its event is consumed without touching
  any document, and the next remote update replaces the saved file by a rendering that does
  not depend on the saved text.
\<close>

theorem paused_edit_overwritten:
  assumes paused: "map_of (paused_until st) path = Some til" "t < til" "ev_kind ev \<noteq> Remove" "ev_path ev = path"
    and st2: "st2 = foldl (pipe_step E) st [UserSave path (FileText mine), FsEvent True t ev]"
    and doc: "open_doc E i st = (a, st1)" "e_apply E update (p_heap st1 a) = (True, d)"
      "yt_get_string (e_text E) d = rendered" "rendered \<noteq> mine"
    and io: "mkdir_ok io" "write_fault io = None"
  shows "doc_text E st2 = doc_text E st \<and> p_disk st2 path = FileText mine \<and>
    p_disk (pipe_step E st2 (RemoteUpdate io controller now dur i path update)) path = FileText rendered"
proof -
  obtain kept where kept: "is_paused path t (paused_until st) = (True, kept)"
    using is_paused_first [OF paused(1,2)] by (metis prod.collapse)
  have st2': "st2 = st\<lparr>p_disk := (p_disk st)(path := FileText mine), paused_until := kept\<rparr>"
    using kept paused(3,4) by (simp add: st2 process_event_with_pause_def)
  note open2 = open_doc_frame [OF doc(1), where dk = "(p_disk st)(path := FileText mine)" and ps = kept, folded st2']
  show ?thesis
    using doc(2-4) io open2
    by (auto simp: st2' apply_remote_update_to_disk_def Let_def doc_text_def split: prod.splits sum.splits)
qed

definition demo_paused :: "(rstr, documents_local) pipe" where
  "demo_paused = pipe_step demo_env demo_pipe
     (RemoteUpdate \<lparr>mkdir_ok = True, write_fault = None\<rparr> True 5 20 7 (ev_path demo_event) [104])"

lemma demo_paused_value:
  "demo_paused =
     \<lparr>p_heap = (\<lambda>_. [])(0 := lit ''h''), p_next = 1,
      p_manager = \<lparr>docs = [(7, \<lparr>doc = 0, subscribers = 0, estimated_bytes = 0, lru_tick = 1\<rparr>)],
        max_memory_bytes = 1000, total_memory_bytes = 0, next_lru_tick = 2\<rparr>,
      p_hashes = [(show_nat 7, lit ''68'')], paused_until = [(ev_path demo_event, 25)],
      p_disk = (\<lambda>_. Missing)(ev_path demo_event := FileText (lit ''h''))\<rparr>"
proof -
  have "sha256_hex id (as_bytes (lit ''h'')) = lit ''68''" by code_simp
  then show ?thesis
    by (simp add: demo_paused_def demo_env_def demo_pipe_def pipe_start_def doc_manager_new_def demo_event_def
        apply_remote_update_to_disk_def open_doc_def subscribe_or_create_def Let_def has_parent_def pause_path_for_def
        evict_under_pressure.simps update_stored_hash_def plain_ytext_def sat_usize_def usize_max_def lit_def
        unsubscribe_def bump_lru_tick_def id_def)
qed

theorem paused_edit_overwritten_witness:
  "p_disk (pipe_step demo_env
      (foldl (pipe_step demo_env) demo_paused [UserSave (ev_path demo_event) (FileText (lit ''mine'')), FsEvent True 9 demo_event])
      (RemoteUpdate \<lparr>mkdir_ok = True, write_fault = None\<rparr> True 10 20 7 (ev_path demo_event) [105])) (ev_path demo_event) =
   FileText (lit ''hi'')"
proof -
  let ?io = "\<lparr>mkdir_ok = True, write_fault = None\<rparr>" and ?path = "ev_path demo_event"
  let ?st2 = "foldl (pipe_step demo_env) demo_paused [UserSave ?path (FileText (lit ''mine'')), FsEvent True 9 demo_event]"
  obtain a st1 where od: "open_doc demo_env 7 demo_paused = (a, st1)" by fastforce
  then have a: "p_heap st1 a = lit ''h''"
    by (auto simp: demo_paused_value open_doc_def subscribe_or_create_def Let_def)
  have "doc_text demo_env ?st2 = doc_text demo_env demo_paused \<and> p_disk ?st2 ?path = FileText (lit ''mine'') \<and>
    p_disk (pipe_step demo_env ?st2 (RemoteUpdate ?io True 10 20 7 ?path [105])) ?path = FileText (lit ''hi'')"
  proof (rule paused_edit_overwritten [OF _ _ _ refl refl od])
    show "map_of (paused_until demo_paused) ?path = Some 25" by (simp add: demo_paused_value)
  qed (simp_all add: demo_env_def demo_event_def a plain_ytext_def lit_def)
  then show ?thesis by blast
qed

end
