(* ===== verification/Sanitizer.thy ===== *)
theory Sanitizer
  imports RustText
begin

text \<open>
  \<open>relay/src/validation.rs\<close>: the size checks and the allowlist sanitizer for HTML in rendered
  markdown. The two loops of the sanitizer are partial functions, so that not returning would be
  the value \<open>None\<close>; the result inside is an option again, \<open>None\<close> being a panic of a string slice.
  All slices are taken next to ASCII characters, so that they are modelled on characters.
\<close>

section \<open>Sizes\<close>

definition MAX_WS_FRAME_BYTES :: nat where "MAX_WS_FRAME_BYTES = 256 * 1024"
definition MAX_REST_BODY_BYTES :: nat where "MAX_REST_BODY_BYTES = 1024 * 1024"

definition check_ws_frame_size :: "nat \<Rightarrow> (rstr, unit) result" where
  "check_ws_frame_size len =
     (if len > MAX_WS_FRAME_BYTES
      then Err (lit ''frame size '' @ show_nat len @ lit '' bytes exceeds limit of '' @ show_nat MAX_WS_FRAME_BYTES @ lit '' bytes'')
      else Okay ())"

definition check_content_length :: "nat \<Rightarrow> (rstr, unit) result" where
  "check_content_length len =
     (if len > MAX_REST_BODY_BYTES
      then Err (lit ''request body size '' @ show_nat len @ lit '' bytes exceeds limit of '' @ show_nat MAX_REST_BODY_BYTES @ lit '' bytes'')
      else Okay ())"

section \<open>Rejected JSON bodies\<close>

text \<open>The rejections of the \<open>axum\<close> extractor, with their display text.\<close>

datatype json_rejection =
    JsonDataError rstr
  | JsonSyntaxError rstr
  | MissingJsonContentType rstr
  | BytesRejection rstr
  | OtherRejection rstr

fun classify_json_rejection :: "json_rejection \<Rightarrow> rstr \<times> rstr" where
  "classify_json_rejection (JsonDataError e) = (lit ''invalid JSON payload: '' @ e, lit ''data_error'')"
| "classify_json_rejection (JsonSyntaxError e) = (lit ''malformed JSON: '' @ e, lit ''syntax_error'')"
| "classify_json_rejection (MissingJsonContentType e) =
     (lit ''expected Content-Type: application/json'', lit ''missing_content_type'')"
| "classify_json_rejection (BytesRejection e) = (lit ''request body error: '' @ e, lit ''body_error'')"
| "classify_json_rejection (OtherRejection e) = (lit ''request body error: '' @ e, lit ''unknown'')"

section \<open>Allowlists\<close>

definition ALLOWED_TAGS :: "rstr list" where
  "ALLOWED_TAGS = map lit
     [''h1'', ''h2'', ''h3'', ''h4'', ''h5'', ''h6'', ''p'', ''br'', ''hr'', ''blockquote'', ''pre'', ''code'', ''em'',
      ''strong'', ''del'', ''ul'', ''ol'', ''li'', ''a'', ''img'', ''table'', ''thead'', ''tbody'', ''tr'', ''th'', ''td'',
      ''div'', ''span'', ''sup'', ''sub'', ''details'', ''summary'', ''kbd'']"

definition ALLOWED_ATTRS :: "(rstr \<times> rstr list) list" where
  "ALLOWED_ATTRS = map (\<lambda>(t, attrs). (lit t, map lit attrs))
     [(''a'', [''href'', ''title'', ''rel'']),
      (''img'', [''src'', ''alt'', ''title'', ''width'', ''height'']),
      (''td'', [''align'']),
      (''th'', [''align'']),
      (''code'', [''class'']),
      (''div'', [''class'']),
      (''span'', [''class''])]"

definition ALLOWED_URL_SCHEMES :: "rstr list" where
  "ALLOWED_URL_SCHEMES = map lit [''http'', ''https'', ''mailto'']"

definition is_allowed_tag :: "rstr \<Rightarrow> bool" where
  "is_allowed_tag name = (name \<in> set ALLOWED_TAGS)"

definition allowed_attrs_for :: "rstr \<Rightarrow> rstr list" where
  "allowed_attrs_for tag = (case map_of ALLOWED_ATTRS tag of Some attrs \<Rightarrow> attrs | None \<Rightarrow> [])"

section \<open>Attributes\<close>

definition starts_char :: "rchar \<Rightarrow> rstr \<Rightarrow> bool" where
  "starts_char c s = (s \<noteq> [] \<and> hd s = c)"

definition is_safe_url :: "rstr \<Rightarrow> bool" where
  "is_safe_url url =
     (let trimmed = trim url in
      if starts_char 47 trimmed \<or> starts_char 35 trimmed \<or> starts_char 63 trimmed then True
      else if 58 \<in> set trimmed
      then to_ascii_lowercase (takeWhile (\<lambda>c. c \<noteq> 58) trimmed) \<in> set ALLOWED_URL_SCHEMES
      else True)"

definition replace_char :: "rchar \<Rightarrow> rstr \<Rightarrow> rstr \<Rightarrow> rstr" where
  "replace_char c by s = concat (map (\<lambda>x. if x = c then by else [x]) s)"

definition escape_attr_value :: "rstr \<Rightarrow> rstr" where
  "escape_attr_value s =
     replace_char 62 (lit ''&gt;'') (replace_char 60 (lit ''&lt;'')
       (replace_char 34 (lit ''&quot;'') (replace_char 38 (lit ''&amp;'') s)))"

text \<open>A quoted value without its closing quote makes the slice after it start past the end.\<close>

definition extract_attr_value :: "rstr \<Rightarrow> (rstr \<times> rstr) option" where
  "extract_attr_value s =
     (if starts_char 34 s then
        if 34 \<in> set (tl s)
        then Some (takeWhile (\<lambda>c. c \<noteq> 34) (tl s), tl (dropWhile (\<lambda>c. c \<noteq> 34) (tl s))) else None
      else if starts_char 39 s then
        if 39 \<in> set (tl s)
        then Some (takeWhile (\<lambda>c. c \<noteq> 39) (tl s), tl (dropWhile (\<lambda>c. c \<noteq> 39) (tl s))) else None
      else Some (takeWhile (\<lambda>c. \<not> (is_whitespace c \<or> c = 62 \<or> c = 47)) s,
                 dropWhile (\<lambda>c. \<not> (is_whitespace c \<or> c = 62 \<or> c = 47)) s))"

definition skip_attr_value :: "rstr \<Rightarrow> rstr option" where
  "skip_attr_value s =
     (if starts_char 61 s then map_option snd (extract_attr_value (trim_start (tl s))) else Some s)"

definition render_attr :: "rstr \<Rightarrow> rstr \<Rightarrow> rstr" where
  "render_attr name v = name @ lit ''='' @ [34] @ escape_attr_value v @ [34]"

definition push_attr :: "rstr list \<Rightarrow> rstr \<Rightarrow> rstr \<Rightarrow> rstr list \<Rightarrow> rstr list" where
  "push_attr allowed name v result =
     (if name \<in> set allowed then
        if (name = lit ''href'' \<or> name = lit ''src'') \<and> \<not> is_safe_url v then result
        else result @ [render_attr name v]
      else result)"

partial_function (option) attrs_loop :: "rstr list \<Rightarrow> rstr \<Rightarrow> rstr list \<Rightarrow> rstr list option option" where
  "attrs_loop allowed remaining result =
     (if remaining = [] then Some (Some result)
      else
        let r = trim_start remaining in
        if starts_char 47 r then Some (Some result)
        else
          let attr_name = to_ascii_lowercase (takeWhile (\<lambda>c. \<not> (c = 61 \<or> is_whitespace c)) r);
              r2 = trim_start (dropWhile (\<lambda>c. \<not> (c = 61 \<or> is_whitespace c)) r)
          in if take 2 attr_name = lit ''on'' then
               case skip_attr_value r2 of
                 None \<Rightarrow> Some None
               | Some r3 \<Rightarrow> attrs_loop allowed r3 result
             else if starts_char 61 r2 then
               case extract_attr_value (trim_start (tl r2)) of
                 None \<Rightarrow> Some None
               | Some (v, rest) \<Rightarrow> attrs_loop allowed rest (push_attr allowed attr_name v result)
             else attrs_loop allowed r2 (if attr_name \<in> set allowed then result @ [attr_name] else result))"

definition sanitize_attrs :: "rstr \<Rightarrow> rstr list \<Rightarrow> rstr option option" where
  "sanitize_attrs attrs_str allowed = map_option (map_option (join [32])) (attrs_loop allowed (trim attrs_str) [])"

section \<open>Tags\<close>

definition trim_end_char :: "rchar \<Rightarrow> rstr \<Rightarrow> rstr" where
  "trim_end_char c s = rev (dropWhile (\<lambda>x. x = c) (rev s))"

definition first_word :: "rstr \<Rightarrow> rstr" where
  "first_word s = takeWhile (\<lambda>c. \<not> is_whitespace c) (trim_start s)"

text \<open>The outer option is divergence, the next a panic, the innermost a tag that is dropped.\<close>

definition sanitize_tag :: "rstr \<Rightarrow> rstr option option option" where
  "sanitize_tag tag =
     (let inner = trim (trim_end_char 62 (dropWhile (\<lambda>c. c = 60) tag)) in
      if starts_char 47 inner then
        let tag_name = to_ascii_lowercase (first_word (trim (tl inner)))
        in Some (Some (if is_allowed_tag tag_name then Some (lit ''</'' @ tag_name @ lit ''>'') else None))
      else
        let tag_name = to_ascii_lowercase (trim_end_char 47 (takeWhile (\<lambda>c. \<not> is_whitespace c) inner)) in
        if \<not> is_allowed_tag tag_name then Some (Some None)
        else
          let attrs_str = tl (dropWhile (\<lambda>c. \<not> is_whitespace c) inner);
              self_closing = (inner \<noteq> [] \<and> last inner = 47)
          in map_option (map_option (\<lambda>sanitized_attrs.
               Some (lit ''<'' @ tag_name @ (if sanitized_attrs = [] then [] else 32 # sanitized_attrs) @
                 (if self_closing then lit '' />'' else lit ''>''))))
               (sanitize_attrs attrs_str (allowed_attrs_for tag_name)))"

fun collect_tag :: "rchar option \<Rightarrow> rstr \<Rightarrow> rstr \<times> rstr" where
  "collect_tag in_quote [] = ([], [])"
| "collect_tag (Some q) (ch # chars) =
     (let (tag, rest) = collect_tag (if ch = q then None else Some q) chars in (ch # tag, rest))"
| "collect_tag None (ch # chars) =
     (if ch = 34 \<or> ch = 39 then let (tag, rest) = collect_tag (Some ch) chars in (ch # tag, rest)
      else if ch = 62 then ([ch], chars)
      else let (tag, rest) = collect_tag None chars in (ch # tag, rest))"

partial_function (option) html_loop :: "rstr \<Rightarrow> rstr \<Rightarrow> rstr option option" where
  "html_loop chars out =
     (case chars of
        [] \<Rightarrow> Some (Some out)
      | ch # rest \<Rightarrow>
          if ch = 60 then
            case sanitize_tag (fst (collect_tag None chars)) of
              None \<Rightarrow> None
            | Some None \<Rightarrow> Some None
            | Some (Some sanitized) \<Rightarrow>
                html_loop (snd (collect_tag None chars)) (out @ (case sanitized of Some s \<Rightarrow> s | None \<Rightarrow> []))
          else html_loop rest (out @ [ch]))"

definition sanitize_html :: "rstr \<Rightarrow> rstr option option" where
  "sanitize_html input = html_loop input []"

section \<open>Both loops return\<close>

lemma length_trim_start: "length (trim_start s) \<le> length s"
  by (simp add: trim_start_def length_dropWhile_le)

lemma extract_attr_value_length:
  "extract_attr_value s = Some (v, rest) \<Longrightarrow> length rest \<le> length s"
proof -
  have q: "length (tl (dropWhile Q (tl s))) \<le> length s" for Q
    using length_dropWhile_le [of Q "tl s"] by simp
  assume "extract_attr_value s = Some (v, rest)"
  then show ?thesis using q by (auto simp: extract_attr_value_def length_dropWhile_le split: if_splits)
qed

lemma skip_attr_value_length: "skip_attr_value s = Some rest \<Longrightarrow> length rest \<le> length s"
proof -
  assume a: "skip_attr_value s = Some rest"
  show ?thesis
  proof (cases "starts_char 61 s")
    case True
    then obtain v where "extract_attr_value (trim_start (tl s)) = Some (v, rest)"
      using a by (auto simp: skip_attr_value_def)
    then show ?thesis using extract_attr_value_length [of "trim_start (tl s)" v rest] length_trim_start [of "tl s"]
      by simp
  qed (use a in \<open>simp add: skip_attr_value_def\<close>)
qed

lemma name_progress:
  assumes "remaining \<noteq> []" and "r = trim_start remaining" "name = takeWhile (\<lambda>c. \<not> (c = 61 \<or> is_whitespace c)) r"
    and "r2 = trim_start (dropWhile (\<lambda>c. \<not> (c = 61 \<or> is_whitespace c)) r)"
  shows "length r2 \<le> length remaining" and "name \<noteq> [] \<or> \<not> starts_char 61 r2 \<Longrightarrow> length r2 < length remaining"
proof -
  let ?Q = "\<lambda>c. \<not> (c = 61 \<or> is_whitespace c)"
  have r: "length r \<le> length remaining" using assms(2) length_trim_start by simp
  have split: "length name + length (dropWhile ?Q r) = length r"
    using assms(3) by (metis length_append takeWhile_dropWhile_id)
  have r2: "length r2 \<le> length (dropWhile ?Q r)" using assms(4) length_trim_start by simp
  show "length r2 \<le> length remaining" using r split r2 by linarith
  show "length r2 < length remaining" if "name \<noteq> [] \<or> \<not> starts_char 61 r2"
  proof (cases "name = []")
    case False
    then have "length name > 0" by simp
    then show ?thesis using r split r2 by linarith
  next
    case True
    have nw: "r = [] \<or> \<not> is_whitespace (hd r)"
      unfolding assms(2) trim_start_def using hd_dropWhile [of is_whitespace remaining] by blast
    then have "r = [] \<or> hd r = 61" using True assms(3) by (cases r) (auto split: if_splits)
    moreover have "\<not> starts_char 61 r2" using that True by simp
    ultimately have "r = []"
      using assms(4) by (cases r) (auto simp: starts_char_def trim_start_def is_whitespace_def)
    then show ?thesis using assms(1,4) by (simp add: trim_start_def)
  qed
qed

lemma attrs_loop_returns: "\<exists>r. attrs_loop allowed remaining result = Some r"
proof (induction "length remaining" arbitrary: remaining result rule: less_induct)
  case less
  show ?case
  proof (cases "remaining = [] \<or> starts_char 47 (trim_start remaining)")
    case True
    then show ?thesis by (subst attrs_loop.simps) auto
  next
    case False
    let ?Q = "\<lambda>c. \<not> (c = 61 \<or> is_whitespace c)" and ?r = "trim_start remaining"
    let ?name = "to_ascii_lowercase (takeWhile ?Q ?r)" and ?r2 = "trim_start (dropWhile ?Q ?r)"
    have ne: "remaining \<noteq> []" using False by simp
    note prog = name_progress [OF ne refl refl refl]
    have on: "takeWhile ?Q ?r \<noteq> []" if "take 2 ?name = lit ''on''"
      using that by (auto simp: lit_def to_ascii_lowercase_def)
    consider (on) "take 2 ?name = lit ''on''" | (val) "take 2 ?name \<noteq> lit ''on''" "starts_char 61 ?r2"
      | (flag) "take 2 ?name \<noteq> lit ''on''" "\<not> starts_char 61 ?r2" by blast
    then show ?thesis
    proof cases
      case on
      have "length r3 < length remaining" if "skip_attr_value ?r2 = Some r3" for r3
        using skip_attr_value_length [OF that] prog(2) \<open>take 2 ?name = lit ''on'' \<Longrightarrow> takeWhile ?Q ?r \<noteq> []\<close> on
        by linarith
      then show ?thesis using on False less
        by (subst attrs_loop.simps) (auto simp: Let_def split: option.split)
    next
      case val
      have "length (tl ?r2) < length ?r2" using val(2) by (cases ?r2) (auto simp: starts_char_def)
      then have "length rest < length remaining" if "extract_attr_value (trim_start (tl ?r2)) = Some (v, rest)" for v rest
        using extract_attr_value_length [OF that] length_trim_start [of "tl ?r2"] prog(1) by linarith
      then show ?thesis using val False less
        by (subst attrs_loop.simps) (auto simp: Let_def split: option.split)
    next
      case flag
      then have "length ?r2 < length remaining" using prog(2) by blast
      then show ?thesis using flag False less by (subst attrs_loop.simps) (auto simp: Let_def)
    qed
  qed
qed

lemma sanitize_tag_returns: "\<exists>r. sanitize_tag tag = Some r"
proof -
  have "\<exists>r. sanitize_attrs a b = Some r" for a b
    using attrs_loop_returns [of b "trim a" "[]"] by (auto simp: sanitize_attrs_def)
  then show ?thesis by (auto simp: sanitize_tag_def Let_def)
qed

lemma collect_tag_append: "fst (collect_tag q cs) @ snd (collect_tag q cs) = cs"
  by (induction q cs rule: collect_tag.induct) (auto simp: Let_def case_prod_beta)

lemma collect_tag_progress: "length (snd (collect_tag None (c # cs))) < length (c # cs)"
proof -
  have "fst (collect_tag None (c # cs)) \<noteq> []" by (simp add: case_prod_beta)
  then show ?thesis using collect_tag_append [of None "c # cs"] by (metis length_append length_greater_0_conv less_add_same_cancel2)
qed

lemma html_loop_returns: "\<exists>r. html_loop chars out = Some r"
proof (induction "length chars" arbitrary: chars out rule: less_induct)
  case less
  show ?case
  proof (cases chars)
    case (Cons ch rest)
    obtain t where t: "sanitize_tag (fst (collect_tag None chars)) = Some t" using sanitize_tag_returns by blast
    have "length (snd (collect_tag None chars)) < length chars" using collect_tag_progress Cons by simp
    then show ?thesis
      using less [of "snd (collect_tag None chars)"] less [of rest] Cons t
      by (subst html_loop.simps) (auto split: option.split)
  qed (subst html_loop.simps, simp)
qed

section \<open>What the output consists of\<close>







































section \<open>Properties\<close>

text \<open>
  (C21) The sanitizer never loops: on every input it returns, or panics in a string slice.
\<close>

theorem sanitize_html_returns: "\<exists>r. sanitize_html input = Some r"
  unfolding sanitize_html_def by (rule html_loop_returns)






text \<open>Trimming at the end stops at a character that stays.\<close>

lemma rdrop_keep: "\<not> Q c \<Longrightarrow> rev (dropWhile Q (rev (x @ c # s))) = x @ c # rev (dropWhile Q (rev s))"
  by (induction s rule: rev_induct) auto

lemma set_rdrop: "set (rev (dropWhile Q (rev s))) \<subseteq> set s"
  using set_dropWhileD by fastforce

lemma collect_tag_open: "q \<notin> set s \<Longrightarrow> collect_tag (Some q) s = (s, [])"
  by (induction s) auto

lemma html_loop_text: "60 \<notin> set pre \<Longrightarrow> html_loop (pre @ s) out = html_loop s (out @ pre)"
proof (induction pre arbitrary: out)
  case (Cons c pre)
  then show ?case by (subst html_loop.simps) simp
qed simp

lemma html_loop_tag:
  "html_loop (60 # rest) out =
     (case sanitize_tag (fst (collect_tag None (60 # rest))) of
        None \<Rightarrow> None
      | Some None \<Rightarrow> Some None
      | Some (Some sanitized) \<Rightarrow>
          html_loop (snd (collect_tag None (60 # rest))) (out @ (case sanitized of Some s \<Rightarrow> s | None \<Rightarrow> [])))"
  by (subst html_loop.simps) simp

lemma attrs_loop_open_quote: "34 \<notin> set s \<Longrightarrow> attrs_loop allowed (lit ''href='' @ 34 # s) [] = Some None"
  by (subst attrs_loop.simps)
    (simp add: Let_def lit_def trim_start_def is_whitespace_def starts_char_def to_ascii_lowercase_def
      is_ascii_upper_def extract_attr_value_def)

lemma trim_open_quote:
  assumes "\<not> is_whitespace x"
  shows "\<exists>s'. trim (x # pre @ 34 # s) = x # pre @ 34 # s' \<and> set s' \<subseteq> set s"
proof -
  have q: "\<not> is_whitespace 34" by (simp add: is_whitespace_def)
  have "trim (x # pre @ 34 # s) = x # pre @ 34 # rev (dropWhile is_whitespace (rev s))"
    using rdrop_keep [of is_whitespace 34 "x # pre" s] q assms by (simp add: trim_def trim_start_def trim_end_def)
  then show ?thesis using set_rdrop [of is_whitespace s] by auto
qed

lemma sanitize_tag_open_quote:
  assumes "34 \<notin> set s"
  shows "sanitize_tag (lit ''<a href='' @ 34 # s) = Some None"
proof -
  obtain s1 where s1: "trim_end_char 62 (lit ''a href='' @ 34 # s) = lit ''a href='' @ 34 # s1" "set s1 \<subseteq> set s"
    using rdrop_keep [of "\<lambda>x. x = 62" 34 "lit ''a href=''" s] set_rdrop [of "\<lambda>x. x = 62" s]
    by (auto simp: trim_end_char_def)
  have "\<not> is_whitespace 97" by (simp add: is_whitespace_def)
  then obtain s2 where s2: "trim (lit ''a href='' @ 34 # s1) = lit ''a href='' @ 34 # s2" "set s2 \<subseteq> set s1"
    using trim_open_quote [of 97 "lit '' href=''" s1] by (auto simp: lit_def)
  have "\<not> is_whitespace 104" by (simp add: is_whitespace_def)
  then obtain s3 where s3: "trim (lit ''href='' @ 34 # s2) = lit ''href='' @ 34 # s3" "set s3 \<subseteq> set s2"
    using trim_open_quote [of 104 "lit ''ref=''" s2] by (auto simp: lit_def)
  have inner: "trim (trim_end_char 62 (dropWhile (\<lambda>c. c = 60) (lit ''<a href='' @ 34 # s))) = lit ''a href='' @ 34 # s2"
    using s1(1) s2(1) by (simp add: lit_def)
  have "34 \<notin> set s3" using assms s1(2) s2(2) s3(2) by blast
  then have loop: "attrs_loop (allowed_attrs_for (lit ''a'')) (trim (lit ''href='' @ 34 # s2)) [] = Some None"
    unfolding s3(1) by (rule attrs_loop_open_quote)
  have name: "to_ascii_lowercase (trim_end_char 47 (takeWhile (\<lambda>c. \<not> is_whitespace c) (lit ''a href='' @ 34 # s2))) = lit ''a''"
    and rest: "tl (dropWhile (\<lambda>c. \<not> is_whitespace c) (lit ''a href='' @ 34 # s2)) = lit ''href='' @ 34 # s2"
    and "\<not> starts_char 47 (lit ''a href='' @ 34 # s2)" "is_allowed_tag (lit ''a'')"
    by (simp_all add: lit_def is_whitespace_def trim_end_char_def to_ascii_lowercase_def is_ascii_upper_def
        starts_char_def is_allowed_tag_def ALLOWED_TAGS_def)
  then show ?thesis
    unfolding sanitize_tag_def Let_def inner by (simp add: name rest sanitize_attrs_def loop)
qed

text \<open>
  A quote that is never closed takes the sanitizer down: every input that ends in a link
  whose target starts with a quote and never closes it makes the slice after the value panic.
\<close>

theorem sanitize_html_unclosed_quote_panics:
  assumes "60 \<notin> set before" and "34 \<notin> set after"
  shows "sanitize_html (before @ lit ''<a href='' @ 34 # after) = Some None"
proof -
  have tag: "collect_tag None (lit ''<a href='' @ 34 # after) = (lit ''<a href='' @ 34 # after, [])"
    using collect_tag_open [OF assms(2)] by (simp add: lit_def)
  have "html_loop (lit ''<a href='' @ 34 # after) before = Some None"
    using sanitize_tag_open_quote [OF assms(2)] tag html_loop_tag [of "lit ''a href='' @ 34 # after" before]
    by (simp add: lit_def)
  then show ?thesis using html_loop_text [OF assms(1), of _ "[]"] by (simp add: sanitize_html_def)
qed

theorem sanitize_html_unclosed_quote_panics_witness:
  "sanitize_html (lit ''see '' @ lit ''<a href='' @ 34 # lit ''https://x'') = Some None"
  by (rule sanitize_html_unclosed_quote_panics) (simp_all add: lit_def)

end
