(* ===== verification/RelayError.thy ===== *)
theory RelayError
  imports Prelude RustText "HOL-Library.AList"
begin

text \<open>
  \<open>relay/src/error.rs\<close>: the registry of error codes and the error envelope every endpoint of
  the relay answers with. It also holds the model of HTTP requests and responses and of JSON
  values that the other theories on the relay's API share: the parser and the printer of
  \<open>serde_json\<close> and the test for admissible header values (crate \<open>http\<close>) are parameters,
  collected in \<open>http_env\<close>.
\<close>

section \<open>HTTP and JSON\<close>

datatype json =
    JNull
  | JBool bool
  | JNumber rstr
  | JString rstr
  | JArray "json list"
  | JObject "(rstr \<times> json) list"

text \<open>A header value of a request is readable text or not; names are lowercase.\<close>

record request =
  rq_method :: rstr
  rq_path :: rstr
  rq_headers :: "(rstr \<times> rstr option) list"
  rq_body :: "byte list"

record response =
  rs_status :: nat
  rs_headers :: "(rstr \<times> rstr) list"
  rs_body :: "byte list"

record http_env =
  json_parse :: "byte list \<Rightarrow> json option"
  json_print :: "json \<Rightarrow> byte list"
  header_ok :: "rstr \<Rightarrow> bool"

text \<open>\<open>HeaderMap::get\<close> followed by \<open>to_str().ok()\<close>, and \<open>HeaderMap::insert\<close>.\<close>

definition header_text :: "rstr \<Rightarrow> request \<Rightarrow> rstr option" where
  "header_text name rq = Option.bind (map_of (rq_headers rq) name) id"

definition set_header :: "rstr \<Rightarrow> rstr \<Rightarrow> response \<Rightarrow> response" where
  "set_header name v rs = rs\<lparr>rs_headers := AList.update name v (rs_headers rs)\<rparr>"

section \<open>Error codes\<close>

datatype error_code =
    ValidationFailed | AuthInvalidToken | AuthInvalidRedirect | AuthStateMismatch | AuthCodeInvalid
  | AuthTokenRevoked | AuthForbidden | NotFound | DocPathConflict | EditPreconditionFailed
  | YjsUpdateTooLarge | PreconditionRequired | RateLimited | InternalError | AiCommitUnavailable
  | DiskWriteFailed | UpgradeRequired

definition all_codes :: "error_code list" where
  "all_codes =
     [ValidationFailed, AuthInvalidToken, AuthInvalidRedirect, AuthStateMismatch, AuthCodeInvalid,
      AuthTokenRevoked, AuthForbidden, NotFound, DocPathConflict, EditPreconditionFailed,
      YjsUpdateTooLarge, PreconditionRequired, RateLimited, InternalError, AiCommitUnavailable,
      DiskWriteFailed, UpgradeRequired]"

fun code_str :: "error_code \<Rightarrow> rstr" where
  "code_str ValidationFailed = lit ''VALIDATION_FAILED''"
| "code_str AuthInvalidToken = lit ''AUTH_INVALID_TOKEN''"
| "code_str AuthInvalidRedirect = lit ''AUTH_INVALID_REDIRECT''"
| "code_str AuthStateMismatch = lit ''AUTH_STATE_MISMATCH''"
| "code_str AuthCodeInvalid = lit ''AUTH_CODE_INVALID''"
| "code_str AuthTokenRevoked = lit ''AUTH_TOKEN_REVOKED''"
| "code_str AuthForbidden = lit ''AUTH_FORBIDDEN''"
| "code_str NotFound = lit ''NOT_FOUND''"
| "code_str DocPathConflict = lit ''DOC_PATH_CONFLICT''"
| "code_str EditPreconditionFailed = lit ''EDIT_PRECONDITION_FAILED''"
| "code_str YjsUpdateTooLarge = lit ''YJS_UPDATE_TOO_LARGE''"
| "code_str PreconditionRequired = lit ''PRECONDITION_REQUIRED''"
| "code_str RateLimited = lit ''RATE_LIMITED''"
| "code_str InternalError = lit ''INTERNAL_ERROR''"
| "code_str AiCommitUnavailable = lit ''AI_COMMIT_UNAVAILABLE''"
| "code_str DiskWriteFailed = lit ''DISK_WRITE_FAILED''"
| "code_str UpgradeRequired = lit ''UPGRADE_REQUIRED''"

fun code_status :: "error_code \<Rightarrow> nat" where
  "code_status ValidationFailed = 400"
| "code_status AuthInvalidToken = 401"
| "code_status AuthInvalidRedirect = 400"
| "code_status AuthStateMismatch = 401"
| "code_status AuthCodeInvalid = 401"
| "code_status AuthTokenRevoked = 401"
| "code_status AuthForbidden = 403"
| "code_status NotFound = 404"
| "code_status DocPathConflict = 409"
| "code_status EditPreconditionFailed = 412"
| "code_status YjsUpdateTooLarge = 413"
| "code_status PreconditionRequired = 428"
| "code_status RateLimited = 429"
| "code_status InternalError = 500"
| "code_status AiCommitUnavailable = 503"
| "code_status DiskWriteFailed = 507"
| "code_status UpgradeRequired = 426"

definition retryable :: "error_code \<Rightarrow> bool" where
  "retryable c = (c \<in> {RateLimited, InternalError, AiCommitUnavailable, DiskWriteFailed})"

fun default_message :: "error_code \<Rightarrow> rstr" where
  "default_message ValidationFailed = lit ''request validation failed''"
| "default_message AuthInvalidToken = lit ''invalid authentication token''"
| "default_message AuthInvalidRedirect = lit ''invalid oauth redirect URI''"
| "default_message AuthStateMismatch = lit ''oauth state parameter mismatch''"
| "default_message AuthCodeInvalid = lit ''oauth authorization code invalid or expired''"
| "default_message AuthTokenRevoked = lit ''refresh token has been revoked''"
| "default_message AuthForbidden = lit ''caller lacks required permission''"
| "default_message NotFound = lit ''requested resource not found''"
| "default_message DocPathConflict = lit ''resource already exists''"
| "default_message EditPreconditionFailed = lit ''request precondition failed''"
| "default_message YjsUpdateTooLarge = lit ''payload exceeds maximum allowed size''"
| "default_message PreconditionRequired = lit ''missing required precondition header''"
| "default_message RateLimited = lit ''request was rate limited''"
| "default_message InternalError = lit ''internal server error''"
| "default_message AiCommitUnavailable = lit ''upstream AI service is unavailable''"
| "default_message DiskWriteFailed = lit ''server could not persist data''"
| "default_message UpgradeRequired = lit ''client protocol version is not supported''"

definition default_code_for_status :: "nat \<Rightarrow> error_code" where
  "default_code_for_status st =
     (if st = 400 then ValidationFailed else if st = 401 then AuthInvalidToken
      else if st = 403 then AuthForbidden else if st = 404 then NotFound
      else if st = 409 then DocPathConflict else if st = 412 then EditPreconditionFailed
      else if st = 413 then YjsUpdateTooLarge else if st = 428 then PreconditionRequired
      else if st = 429 then RateLimited else if st = 503 then AiCommitUnavailable
      else if st = 507 then DiskWriteFailed else if st = 426 then UpgradeRequired
      else InternalError)"

section \<open>The envelope\<close>

record relay_error =
  re_code :: error_code
  re_message :: rstr
  re_details :: json
  re_request_id :: "rstr option"

definition error_new :: "error_code \<Rightarrow> rstr \<Rightarrow> relay_error" where
  "error_new c msg = \<lparr>re_code = c, re_message = msg, re_details = JObject [], re_request_id = None\<rparr>"

definition from_code :: "error_code \<Rightarrow> relay_error" where
  "from_code c = error_new c (default_message c)"

definition from_status :: "nat \<Rightarrow> rstr \<Rightarrow> relay_error" where
  "from_status st msg = error_new (default_code_for_status st) msg"

definition with_details :: "json \<Rightarrow> relay_error \<Rightarrow> relay_error" where
  "with_details d e = e\<lparr>re_details := d\<rparr>"

definition with_request_id :: "rstr \<Rightarrow> relay_error \<Rightarrow> relay_error" where
  "with_request_id i e = e\<lparr>re_request_id := Some i\<rparr>"

definition REQUEST_ID_HEADER :: rstr where "REQUEST_ID_HEADER = lit ''x-request-id''"
definition TRACE_ID_HEADER :: rstr where "TRACE_ID_HEADER = lit ''x-trace-id''"

definition attach_request_id_header :: "http_env \<Rightarrow> rstr \<Rightarrow> response \<Rightarrow> response" where
  "attach_request_id_header H i rs = (if header_ok H i then set_header REQUEST_ID_HEADER i rs else rs)"

definition attach_trace_id_header :: "http_env \<Rightarrow> rstr \<Rightarrow> response \<Rightarrow> response" where
  "attach_trace_id_header H i rs = (if header_ok H i then set_header TRACE_ID_HEADER i rs else rs)"

text \<open>\<open>scoped\<close> is the request id of the task the error is answered in.\<close>

definition error_envelope :: "relay_error \<Rightarrow> rstr option \<Rightarrow> json" where
  "error_envelope e request_id =
     JObject [(lit ''error'', JObject
       [(lit ''code'', JString (code_str (re_code e))),
        (lit ''message'', JString (re_message e)),
        (lit ''retryable'', JBool (retryable (re_code e))),
        (lit ''request_id'', (case request_id of None \<Rightarrow> JNull | Some i \<Rightarrow> JString i)),
        (lit ''details'', re_details e)])]"

definition error_response :: "http_env \<Rightarrow> rstr option \<Rightarrow> relay_error \<Rightarrow> response" where
  "error_response H scoped e =
     (let request_id = (case re_request_id e of Some i \<Rightarrow> Some i | None \<Rightarrow> scoped);
          rs = \<lparr>rs_status = code_status (re_code e),
                rs_headers = [(lit ''content-type'', lit ''application/json'')],
                rs_body = json_print H (error_envelope e request_id)\<rparr>
      in case request_id of None \<Rightarrow> rs | Some i \<Rightarrow> attach_request_id_header H i rs)"

definition id_from_headers_or_generate :: "rstr \<Rightarrow> rstr \<Rightarrow> request \<Rightarrow> rstr" where
  "id_from_headers_or_generate name fresh rq =
     (case header_text name rq of
        Some v \<Rightarrow> if trim v = [] then fresh else v
      | None \<Rightarrow> fresh)"

definition request_id_from_headers_or_generate :: "rstr \<Rightarrow> request \<Rightarrow> rstr" where
  "request_id_from_headers_or_generate = id_from_headers_or_generate REQUEST_ID_HEADER"

definition trace_id_from_headers_or_generate :: "rstr \<Rightarrow> request \<Rightarrow> rstr" where
  "trace_id_from_headers_or_generate = id_from_headers_or_generate TRACE_ID_HEADER"

section \<open>The registry\<close>

lemma all_codes_complete: "c \<in> set all_codes" "distinct all_codes"
  by (cases c; simp add: all_codes_def) (simp add: all_codes_def)

lemma code_str_inj: "code_str c = code_str d \<Longrightarrow> c = d"
  by (cases c; cases d; simp add: lit_def)

text \<open>Going to the status and back keeps the status, and only retryable codes have a 5xx status or 429.\<close>

lemma default_code_status: "code_status (default_code_for_status (code_status c)) = code_status c"
  by (cases c) (simp_all add: default_code_for_status_def)

lemma retryable_status: "retryable c \<longleftrightarrow> code_status c \<ge> 500 \<or> code_status c = 429"
  by (cases c) (simp_all add: retryable_def)

lemma error_response_status [simp]: "rs_status (error_response H scoped e) = code_status (re_code e)"
  by (auto simp: error_response_def Let_def attach_request_id_header_def set_header_def split: option.split)

end
