(* ===== verification/Idempotency.thy ===== *)
theory Idempotency
  imports RelayError
begin

text \<open>
  \<open>relay/src/idempotency.rs\<close>: the in-memory store of responses, the middleware on top of it, and
  the middleware over the table \<open>idempotency_keys\<close> that the production router uses. The rest of
  the service (\<open>Next\<close>) is a parameter: it takes a request and the state of the world to a
  response and the next state. SHA-256 and the JSON parser and printer of \<open>serde_json\<close> are
  parameters; instants are nanoseconds, the database's clock counts seconds.
\<close>

section \<open>Requests\<close>

type_synonym 'w handler = "request \<Rightarrow> 'w \<Rightarrow> response \<times> 'w"

definition IDEMPOTENCY_KEY_HEADER :: rstr where
  "IDEMPOTENCY_KEY_HEADER = lit ''idempotency-key''"

definition DEFAULT_TTL :: nat where
  "DEFAULT_TTL = 24 * 60 * 60 * 1000000000"

definition MAX_HASH_BODY_BYTES :: nat where
  "MAX_HASH_BODY_BYTES = 1024 * 1024"

text \<open>\<open>axum::body::to_bytes\<close> with a limit.\<close>

definition to_bytes :: "byte list \<Rightarrow> nat \<Rightarrow> byte list option" where
  "to_bytes body limit = (if length body > limit then None else Some body)"

text \<open>The two errors of the middleware; \<open>scoped\<close> is the request id of the task.\<close>

definition too_large_response :: "http_env \<Rightarrow> rstr option \<Rightarrow> response" where
  "too_large_response H scoped =
     error_response H scoped (error_new ValidationFailed (lit ''request body too large for idempotency check''))"

definition key_conflict_response :: "http_env \<Rightarrow> rstr option \<Rightarrow> rstr \<Rightarrow> response" where
  "key_conflict_response H scoped key =
     error_response H scoped
       (with_details (JObject [(lit ''idempotency_key'', JString key)])
         (error_new DocPathConflict (lit ''idempotency key reused with different request body'')))"

definition idempotency_key :: "request \<Rightarrow> rstr option" where
  "idempotency_key rq = header_text IDEMPOTENCY_KEY_HEADER rq"

text \<open>The key is put back on the answer, or an empty value when it is no admissible header.\<close>

definition tag_response :: "http_env \<Rightarrow> rstr \<Rightarrow> byte list \<Rightarrow> response \<Rightarrow> response" where
  "tag_response H key body rs =
     set_header (lit ''idempotency-key'') (if header_ok H key then key else []) (rs\<lparr>rs_body := body\<rparr>)"

text \<open>\<open>Response::builder\<close> fails on an inadmissible header value; the answer is then a bare 500.\<close>

definition replay :: "http_env \<Rightarrow> nat \<Rightarrow> rstr \<Rightarrow> byte list \<Rightarrow> response" where
  "replay H st key body =
     (if header_ok H key
      then \<lparr>rs_status = st,
            rs_headers = [(lit ''idempotency-key'', key), (lit ''idempotency-replay'', lit ''true'')],
            rs_body = body\<rparr>
      else \<lparr>rs_status = 500, rs_headers = [], rs_body = []\<rparr>)"

definition buffered :: "byte list \<Rightarrow> byte list" where
  "buffered body = (case to_bytes body MAX_HASH_BODY_BYTES of None \<Rightarrow> [] | Some b \<Rightarrow> b)"

section \<open>The in-memory store\<close>

record idempotency_entry =
  ie_body_hash :: rstr
  ie_status :: nat
  ie_body :: "byte list"
  ie_created_at :: nat

record idempotency_store =
  entries :: "(rstr \<times> idempotency_entry) list"
  store_ttl :: nat

definition store_new :: idempotency_store where
  "store_new = \<lparr>entries = [], store_ttl = DEFAULT_TTL\<rparr>"

definition with_ttl :: "nat \<Rightarrow> idempotency_store \<Rightarrow> idempotency_store" where
  "with_ttl t s = s\<lparr>store_ttl := t\<rparr>"

definition store_get :: "nat \<Rightarrow> rstr \<Rightarrow> idempotency_store \<Rightarrow> idempotency_entry option" where
  "store_get now key s =
     (case map_of (entries s) key of
        None \<Rightarrow> None
      | Some e \<Rightarrow> if now - ie_created_at e < store_ttl s then Some e else None)"

definition store_insert :: "rstr \<Rightarrow> idempotency_entry \<Rightarrow> idempotency_store \<Rightarrow> idempotency_store" where
  "store_insert key e s = s\<lparr>entries := AList.update key e (entries s)\<rparr>"

definition evict_expired :: "nat \<Rightarrow> idempotency_store \<Rightarrow> nat \<times> idempotency_store" where
  "evict_expired now s =
     (let kept = filter (\<lambda>(k, e). now - ie_created_at e < store_ttl s) (entries s)
      in (length (entries s) - length kept, s\<lparr>entries := kept\<rparr>))"

text \<open>
  The middleware with a store in the request's extensions; \<open>sha\<close> is the hexadecimal digest,
  \<open>t1\<close> the time of the lookup and \<open>t2\<close> that of the insertion. A response body over the limit
  becomes the empty body (\<open>unwrap_or_default\<close>).
\<close>

definition idempotency_middleware ::
  "http_env \<Rightarrow> (byte list \<Rightarrow> rstr) \<Rightarrow> 'w handler \<Rightarrow> rstr option \<Rightarrow> nat \<Rightarrow> nat \<Rightarrow> request \<Rightarrow> idempotency_store \<Rightarrow> 'w \<Rightarrow>
   response \<times> idempotency_store \<times> 'w" where
  "idempotency_middleware H sha next scoped t1 t2 rq store w =
     (if rq_method rq \<noteq> lit ''POST'' then let (rs, w1) = next rq w in (rs, store, w1)
      else case idempotency_key rq of
        None \<Rightarrow> let (rs, w1) = next rq w in (rs, store, w1)
      | Some key \<Rightarrow>
          (case to_bytes (rq_body rq) MAX_HASH_BODY_BYTES of
             None \<Rightarrow> (too_large_response H scoped, store, w)
           | Some body_bytes \<Rightarrow>
               (case store_get t1 key store of
                  Some e \<Rightarrow>
                    if ie_body_hash e = sha body_bytes then (replay H (ie_status e) key (ie_body e), store, w)
                    else (key_conflict_response H scoped key, store, w)
                | None \<Rightarrow>
                    let (rs, w1) = next (rq\<lparr>rq_body := body_bytes\<rparr>) w;
                        resp_bytes = buffered (rs_body rs);
                        e = \<lparr>ie_body_hash = sha body_bytes, ie_status = rs_status rs, ie_body = resp_bytes, ie_created_at = t2\<rparr>
                    in (tag_response H key resp_bytes rs, store_insert key e store, w1))))"

section \<open>The table of the database\<close>

record idempotency_row =
  row_request_hash :: rstr
  row_status :: nat
  row_body :: json
  row_expires_at :: nat

type_synonym idempotency_table = "((rstr \<times> rstr) \<times> idempotency_row) list"

definition request_scope :: "request \<Rightarrow> rstr" where
  "request_scope rq = rq_method rq @ lit '' '' @ rq_path rq"

definition response_body_to_json :: "http_env \<Rightarrow> byte list \<Rightarrow> json option" where
  "response_body_to_json H body = (if body = [] then Some JNull else json_parse H body)"

definition replay_response :: "http_env \<Rightarrow> idempotency_row \<Rightarrow> rstr \<Rightarrow> response" where
  "replay_response H r key =
     replay H (if 100 \<le> row_status r \<and> row_status r < 1000 then row_status r else 500) key
       (if row_body r = JNull then [] else json_print H (row_body r))"

definition load_db_entry :: "nat \<Rightarrow> rstr \<Rightarrow> rstr \<Rightarrow> idempotency_table \<Rightarrow> idempotency_row option" where
  "load_db_entry now scope key tbl =
     (case map_of tbl (scope, key) of
        None \<Rightarrow> None
      | Some r \<Rightarrow> if row_expires_at r > now then Some r else None)"

definition insert_db_entry ::
  "nat \<Rightarrow> rstr \<Rightarrow> rstr \<Rightarrow> rstr \<Rightarrow> nat \<Rightarrow> json \<Rightarrow> nat \<Rightarrow> idempotency_table \<Rightarrow> idempotency_table" where
  "insert_db_entry now scope key request_hash st body ttl_secs tbl =
     (let tbl1 = filter (\<lambda>(k, r). \<not> (k = (scope, key) \<and> row_expires_at r \<le> now)) tbl
      in case map_of tbl1 (scope, key) of
           Some _ \<Rightarrow> tbl1
         | None \<Rightarrow> ((scope, key), \<lparr>row_request_hash = request_hash, row_status = st, row_body = body,
                     row_expires_at = now + ttl_secs\<rparr>) # tbl1)"

text \<open>
  The production middleware in its three parts, between which other requests may run: the
  lookup, which answers or lets the request through; the service itself; the insertion. The
  flags \<open>load_ok\<close> and \<open>insert_ok\<close> tell whether the database answered; a failed insertion is
  logged and leaves the table as it was.
\<close>

datatype lookup = PassThrough | Answered response | Execute rstr rstr rstr request

definition lookup_phase ::
  "http_env \<Rightarrow> (byte list \<Rightarrow> rstr) \<Rightarrow> rstr option \<Rightarrow> bool \<Rightarrow> nat \<Rightarrow> request \<Rightarrow> idempotency_table \<Rightarrow> lookup" where
  "lookup_phase H sha scoped load_ok now rq tbl =
     (if rq_method rq \<noteq> lit ''POST'' then PassThrough
      else case idempotency_key rq of
        None \<Rightarrow> PassThrough
      | Some key \<Rightarrow>
          (case to_bytes (rq_body rq) MAX_HASH_BODY_BYTES of
             None \<Rightarrow> Answered (too_large_response H scoped)
           | Some body_bytes \<Rightarrow>
               let scope = request_scope rq; body_hash = sha body_bytes;
                   go = Execute scope key body_hash (rq\<lparr>rq_body := body_bytes\<rparr>)
               in if load_ok then
                    (case load_db_entry now scope key tbl of
                       Some r \<Rightarrow>
                         if row_request_hash r = body_hash then Answered (replay_response H r key)
                         else Answered (key_conflict_response H scoped key)
                     | None \<Rightarrow> go)
                  else go))"

definition insert_phase ::
  "http_env \<Rightarrow> nat \<Rightarrow> bool \<Rightarrow> nat \<Rightarrow> rstr \<Rightarrow> rstr \<Rightarrow> rstr \<Rightarrow> response \<Rightarrow> idempotency_table \<Rightarrow>
   response \<times> idempotency_table" where
  "insert_phase H ttl_secs insert_ok now scope key body_hash rs tbl =
     (let resp_bytes = buffered (rs_body rs);
          tbl1 = (case response_body_to_json H resp_bytes of
                    Some j \<Rightarrow>
                      if insert_ok then insert_db_entry now scope key body_hash (rs_status rs) j ttl_secs tbl else tbl
                  | None \<Rightarrow> tbl)
      in (tag_response H key resp_bytes rs, tbl1))"

definition idempotency_db_middleware ::
  "http_env \<Rightarrow> (byte list \<Rightarrow> rstr) \<Rightarrow> nat \<Rightarrow> 'w handler \<Rightarrow> rstr option \<Rightarrow> bool \<Rightarrow> bool \<Rightarrow> nat \<Rightarrow> nat \<Rightarrow> request \<Rightarrow>
   idempotency_table \<Rightarrow> 'w \<Rightarrow> response \<times> idempotency_table \<times> 'w" where
  "idempotency_db_middleware H sha ttl_secs next scoped load_ok insert_ok t1 t2 rq tbl w =
     (case lookup_phase H sha scoped load_ok t1 rq tbl of
        PassThrough \<Rightarrow> let (rs, w1) = next rq w in (rs, tbl, w1)
      | Answered rs \<Rightarrow> (rs, tbl, w)
      | Execute scope key body_hash rq1 \<Rightarrow>
          let (rs, w1) = next rq1 w; (rs1, tbl1) = insert_phase H ttl_secs insert_ok t2 scope key body_hash rs tbl
          in (rs1, tbl1, w1))"

section \<open>The table keeps what it promised\<close>

lemma map_of_insert_other:
  "k \<noteq> (scope, key) \<Longrightarrow> map_of (insert_db_entry now scope key h st body ttl tbl) k = map_of tbl k"
proof -
  assume ne: "k \<noteq> (scope, key)"
  have "map_of (filter (\<lambda>(k, r). \<not> (k = (scope, key) \<and> row_expires_at r \<le> now)) tbl) k = map_of tbl k"
    using ne by (induction tbl) auto
  then show ?thesis using ne by (auto simp: insert_db_entry_def Let_def split: option.split)
qed

lemma map_of_purged:
  assumes "distinct (map fst tbl)"
  shows "map_of (filter (\<lambda>(k, r). \<not> (k = k0 \<and> row_expires_at r \<le> now)) tbl) k0 =
    (case map_of tbl k0 of None \<Rightarrow> None | Some r \<Rightarrow> if row_expires_at r \<le> now then None else Some r)"
  using assms
proof (induction tbl)
  case (Cons x tbl)
  have "map_of tbl (fst x) = None" using Cons.prems by (simp add: map_of_eq_None_iff)
  then show ?case using Cons by (cases x) (auto split: option.splits)
qed simp

lemma distinct_insert:
  "distinct (map fst tbl) \<Longrightarrow> distinct (map fst (insert_db_entry now scope key h st body ttl tbl))"
proof -
  assume d: "distinct (map fst tbl)"
  let ?kept = "filter (\<lambda>(k, r). \<not> (k = (scope, key) \<and> row_expires_at r \<le> now)) tbl"
  have "distinct (map fst ?kept)" using d by (rule distinct_map_filter)
  then show ?thesis
    by (auto simp: insert_db_entry_def Let_def map_of_eq_None_iff split: option.split)
qed

text \<open>An unexpired row is never replaced; otherwise the new one is found until it expires.\<close>

lemma map_of_insert_entry:
  assumes "distinct (map fst tbl)"
  shows "map_of (insert_db_entry now scope key h st body ttl tbl) (scope, key) =
    (case load_db_entry now scope key tbl of
       Some r \<Rightarrow> Some r
     | None \<Rightarrow> Some \<lparr>row_request_hash = h, row_status = st, row_body = body, row_expires_at = now + ttl\<rparr>)"
proof -
  let ?kept = "filter (\<lambda>(k, r). \<not> (k = (scope, key) \<and> row_expires_at r \<le> now)) tbl"
  have kept: "map_of ?kept (scope, key) = load_db_entry now scope key tbl"
    unfolding load_db_entry_def map_of_purged [OF assms] by (simp add: not_le [symmetric] split: option.split)
  show ?thesis
  proof (cases "load_db_entry now scope key tbl")
    case None
    then show ?thesis using kept unfolding insert_db_entry_def Let_def by simp
  next
    case (Some r)
    then show ?thesis using kept unfolding insert_db_entry_def Let_def by simp
  qed
qed

text \<open>What later insertions, of whatever request, leave of a row that has not expired.\<close>

record insertion =
  in_now :: nat
  in_scope :: rstr
  in_key :: rstr
  in_hash :: rstr
  in_status :: nat
  in_body :: json
  in_ttl :: nat

definition insert_row :: "idempotency_table \<Rightarrow> insertion \<Rightarrow> idempotency_table" where
  "insert_row tbl x = insert_db_entry (in_now x) (in_scope x) (in_key x) (in_hash x) (in_status x) (in_body x) (in_ttl x) tbl"

definition before_expiry :: "nat \<Rightarrow> idempotency_table \<Rightarrow> insertion \<Rightarrow> bool" where
  "before_expiry limit tbl x \<longleftrightarrow> in_now x < limit"

definition holds_row :: "rstr \<Rightarrow> rstr \<Rightarrow> idempotency_row \<Rightarrow> idempotency_table \<Rightarrow> bool" where
  "holds_row scope key r tbl \<longleftrightarrow> distinct (map fst tbl) \<and> map_of tbl (scope, key) = Some r"

lemma load_holds:
  "holds_row scope key r tbl \<Longrightarrow> load_db_entry now scope key tbl = (if now < row_expires_at r then Some r else None)"
  by (simp only: holds_row_def load_db_entry_def option.case)

interpretation row_kept: inv_system insert_row "before_expiry (row_expires_at r)" "holds_row scope key r"
  for scope key r
proof unfold_locales
  fix tbl x
  assume inv: "holds_row scope key r tbl" and ok: "before_expiry (row_expires_at r) tbl x"
  have d: "distinct (map fst tbl)" using inv by (simp only: holds_row_def)
  have "map_of (insert_row tbl x) (scope, key) = Some r"
  proof (cases "(in_scope x, in_key x) = (scope, key)")
    case True
    have "load_db_entry (in_now x) scope key tbl = Some r"
      using load_holds [OF inv] ok by (simp add: before_expiry_def)
    then show ?thesis
      using map_of_insert_entry [OF d, of "in_now x" scope key] True by (simp only: insert_row_def prod.inject option.case)
  next
    case False
    then have "map_of (insert_row tbl x) (scope, key) = map_of tbl (scope, key)"
      unfolding insert_row_def by (intro map_of_insert_other) auto
    then show ?thesis using inv by (simp only: holds_row_def)
  qed
  moreover have "distinct (map fst (insert_row tbl x))" unfolding insert_row_def using d by (rule distinct_insert)
  ultimately show "holds_row scope key r (insert_row tbl x)" by (simp only: holds_row_def)
qed

section \<open>Properties\<close>

lemma lookup_execute:
  assumes "rq_method rq = lit ''POST''" "idempotency_key rq = Some key" "length (rq_body rq) \<le> MAX_HASH_BODY_BYTES"
    and "load_db_entry now (request_scope rq) key tbl = None"
  shows "lookup_phase H sha scoped load_ok now rq tbl = Execute (request_scope rq) key (sha (rq_body rq)) rq"
  using assms by (simp add: lookup_phase_def to_bytes_def Let_def)

text \<open>
  (C22) A key is answered once: when a POST with a key was processed and its response stored,
  every request with the same key and path, until the entry expires and whatever other requests
  stored meanwhile, is answered from the table without reaching the service: with the stored
  status and body when the hash of its body agrees, with a conflict otherwise. Nothing else of
  the request is looked at, its credentials included.
\<close>

theorem stored_response_replayed:
  assumes d: "distinct (map fst tbl)"
    and first: "rq_method rq = lit ''POST''" "idempotency_key rq = Some key" "length (rq_body rq) \<le> MAX_HASH_BODY_BYTES"
    and absent: "load_db_entry t1 (request_scope rq) key tbl = None" "load_db_entry t2 (request_scope rq) key tbl = None"
    and served: "next rq w = (rs, w1)" "response_body_to_json H (buffered (rs_body rs)) = Some j"
    and run: "idempotency_db_middleware H sha ttl next scoped True True t1 t2 rq tbl w = (rs1, tbl1, w2)"
    and between: "run_ok insert_row (before_expiry (t2 + ttl)) tbl1 ins"
    and second: "rq_method rq' = lit ''POST''" "rq_path rq' = rq_path rq" "idempotency_key rq' = Some key"
      "length (rq_body rq') \<le> MAX_HASH_BODY_BYTES" "t1' < t2 + ttl"
  shows "idempotency_db_middleware H sha ttl' next' scoped' True insert_ok t1' t2' rq' (foldl insert_row tbl1 ins) w' =
    (if sha (rq_body rq') = sha (rq_body rq)
     then replay H (if 100 \<le> rs_status rs \<and> rs_status rs < 1000 then rs_status rs else 500) key
       (if j = JNull then [] else json_print H j)
     else key_conflict_response H scoped' key,
     foldl insert_row tbl1 ins, w')"
proof -
  let ?scope = "request_scope rq"
  let ?r = "\<lparr>row_request_hash = sha (rq_body rq), row_status = rs_status rs, row_body = j, row_expires_at = t2 + ttl\<rparr>"
  have tbl1: "tbl1 = insert_db_entry t2 ?scope key (sha (rq_body rq)) (rs_status rs) j ttl tbl"
    using run lookup_execute [OF first absent(1)] served
    by (auto simp: idempotency_db_middleware_def insert_phase_def Let_def)
  have "map_of tbl1 (?scope, key) = Some ?r"
    unfolding tbl1 map_of_insert_entry [OF d] absent(2) by simp
  moreover have "distinct (map fst tbl1)" unfolding tbl1 using d by (rule distinct_insert)
  ultimately have "holds_row ?scope key ?r tbl1" by (simp only: holds_row_def)
  then have "holds_row ?scope key ?r (foldl insert_row tbl1 ins)"
    using row_kept.inv_run [of ?scope key ?r tbl1 ins] between by simp
  then have row: "load_db_entry t1' ?scope key (foldl insert_row tbl1 ins) = Some ?r"
    using load_holds [of ?scope key ?r] second(5) by simp
  have "request_scope rq' = ?scope" using first(1) second(1,2) by (simp add: request_scope_def)
  then show ?thesis
    using second(1,3,4) row
    by (simp add: idempotency_db_middleware_def lookup_phase_def to_bytes_def Let_def replay_response_def)
qed

text \<open>A service that answers 401 without credentials, and the same request with and without them.\<close>

definition demo_http :: http_env where
  "demo_http = \<lparr>json_parse = (\<lambda>b. Some (JString (map unat b))),
     json_print = (\<lambda>j. case j of JString s \<Rightarrow> map of_nat s | _ \<Rightarrow> []), header_ok = (\<lambda>_. True)\<rparr>"

definition demo_service :: "nat handler" where
  "demo_service rq n =
     (if header_text (lit ''authorization'') rq = None then (\<lparr>rs_status = 401, rs_headers = [], rs_body = [101]\<rparr>, n)
      else (\<lparr>rs_status = 201, rs_headers = [], rs_body = [99]\<rparr>, n + 1))"

definition anonymous_post :: request where
  "anonymous_post = \<lparr>rq_method = lit ''POST'', rq_path = lit ''/v1/workspaces'',
     rq_headers = [(IDEMPOTENCY_KEY_HEADER, Some (lit ''k1''))], rq_body = [1, 2]\<rparr>"

definition authorized_post :: request where
  "authorized_post = anonymous_post\<lparr>rq_headers :=
     [(IDEMPOTENCY_KEY_HEADER, Some (lit ''k1'')), (lit ''authorization'', Some (lit ''token''))]\<rparr>"

lemmas demo_http_defs = demo_http_def demo_service_def anonymous_post_def authorized_post_def idempotency_key_def
  header_text_def IDEMPOTENCY_KEY_HEADER_def MAX_HASH_BODY_BYTES_def load_db_entry_def response_body_to_json_def
  buffered_def to_bytes_def lit_def

theorem stored_response_replayed_witness:
  "fst (demo_service authorized_post 0) = \<lparr>rs_status = 201, rs_headers = [], rs_body = [99]\<rparr> \<and>
   rs_status (fst (idempotency_db_middleware demo_http (map unat) 86400 demo_service None True True 20 21 authorized_post
     (fst (snd (idempotency_db_middleware demo_http (map unat) 86400 demo_service None True True 10 11 anonymous_post [] 0))) 0)) = 401"
proof -
  obtain rs1 tbl1 w2 where run: "idempotency_db_middleware demo_http (map unat) 86400 demo_service None True True 10 11 anonymous_post [] 0 =
      (rs1, tbl1, w2)" by (cases "idempotency_db_middleware demo_http (map unat) 86400 demo_service None True True 10 11 anonymous_post [] 0")
  have "idempotency_db_middleware demo_http (map unat) 86400 demo_service None True True 20 21 authorized_post (foldl insert_row tbl1 []) 0 =
    (if map unat (rq_body authorized_post) = map unat (rq_body anonymous_post)
     then replay demo_http (if 100 \<le> (401::nat) \<and> (401::nat) < 1000 then 401 else 500) (lit ''k1'')
       (if JString [101] = JNull then [] else json_print demo_http (JString [101]))
     else key_conflict_response demo_http None (lit ''k1''),
     foldl insert_row tbl1 [], 0)"
    using stored_response_replayed [OF _ _ _ _ _ _ _ _ run, where j = "JString [101]" and key = "lit ''k1''" and ins = "[]" and
        rq' = authorized_post and next' = demo_service and scoped' = None and insert_ok = True and t1' = 20 and t2' = 21 and
        ttl' = 86400 and w' = 0 and rs = "\<lparr>rs_status = 401, rs_headers = [], rs_body = [101]\<rparr>" and ?w1.0 = 0]
    by (simp add: demo_http_defs request_scope_def)
  then show ?thesis by (simp add: run authorized_post_def replay_def) (simp add: demo_http_defs)
qed

text \<open>
  A response body over one mebibyte is lost: with a key on the request the service's answer
  reaches the client with an empty body, and later requests with the key are replayed an empty
  body under the original status.
\<close>

theorem large_response_emptied:
  assumes d: "distinct (map fst tbl)"
    and first: "rq_method rq = lit ''POST''" "idempotency_key rq = Some key" "length (rq_body rq) \<le> MAX_HASH_BODY_BYTES"
    and absent: "load_db_entry t1 (request_scope rq) key tbl = None" "load_db_entry t2 (request_scope rq) key tbl = None"
    and served: "next rq w = (rs, w1)" "length (rs_body rs) > MAX_HASH_BODY_BYTES"
  shows "\<exists>rs1 tbl1 r. idempotency_db_middleware H sha ttl next scoped True True t1 t2 rq tbl w = (rs1, tbl1, w1) \<and>
    rs_status rs1 = rs_status rs \<and> rs_body rs1 = [] \<and>
    map_of tbl1 (request_scope rq, key) = Some r \<and> row_body r = JNull \<and> row_status r = rs_status rs"
proof -
  have empty: "buffered (rs_body rs) = []" using served(2) by (simp add: buffered_def to_bytes_def)
  let ?tbl1 = "insert_db_entry t2 (request_scope rq) key (sha (rq_body rq)) (rs_status rs) JNull ttl tbl"
  have "idempotency_db_middleware H sha ttl next scoped True True t1 t2 rq tbl w = (tag_response H key [] rs, ?tbl1, w1)"
    using lookup_execute [OF first absent(1)] served(1) empty
    by (simp add: idempotency_db_middleware_def insert_phase_def response_body_to_json_def Let_def)
  moreover have "map_of ?tbl1 (request_scope rq, key) =
      Some \<lparr>row_request_hash = sha (rq_body rq), row_status = rs_status rs, row_body = JNull, row_expires_at = t2 + ttl\<rparr>"
    unfolding map_of_insert_entry [OF d] absent(2) by simp
  moreover have "rs_status (tag_response H key [] rs) = rs_status rs" "rs_body (tag_response H key [] rs) = []"
    by (simp_all add: tag_response_def set_header_def)
  ultimately show ?thesis by auto
qed

definition large_service :: "nat handler" where
  "large_service rq n = (\<lparr>rs_status = 200, rs_headers = [], rs_body = replicate (MAX_HASH_BODY_BYTES + 1) 32\<rparr>, n + 1)"

theorem large_response_emptied_witness:
  "rs_body (fst (idempotency_db_middleware demo_http (map unat) 86400 large_service None True True 10 11 anonymous_post [] 0)) = []"
proof -
  have "\<exists>rs1 tbl1 r. idempotency_db_middleware demo_http (map unat) 86400 large_service None True True 10 11 anonymous_post [] 0 =
      (rs1, tbl1, 1) \<and>
    rs_status rs1 = rs_status (fst (large_service anonymous_post 0)) \<and> rs_body rs1 = [] \<and>
    map_of tbl1 (request_scope anonymous_post, lit ''k1'') = Some r \<and> row_body r = JNull \<and>
    row_status r = rs_status (fst (large_service anonymous_post 0))"
    by (rule large_response_emptied)
      (simp_all add: large_service_def load_db_entry_def anonymous_post_def idempotency_key_def header_text_def
        IDEMPOTENCY_KEY_HEADER_def MAX_HASH_BODY_BYTES_def)
  then show ?thesis by auto
qed

text \<open>
  Two requests with the same key that are looked up before either is stored are both
  executed, and only the first stored answer is kept: the key does not protect concurrent
  duplicates.
\<close>

theorem concurrent_duplicates_executed:
  assumes d: "distinct (map fst tbl)"
    and rq: "rq_method rq = lit ''POST''" "idempotency_key rq = Some key" "length (rq_body rq) \<le> MAX_HASH_BODY_BYTES"
    and absent: "load_db_entry ta (request_scope rq) key tbl = None" "load_db_entry tb (request_scope rq) key tbl = None"
      "load_db_entry t1 (request_scope rq) key tbl = None"
    and json: "response_body_to_json H (buffered (rs_body rs1)) = Some j1"
    and ttl: "t2 < t1 + ttl"
  shows "lookup_phase H sha sa True ta rq tbl = Execute (request_scope rq) key (sha (rq_body rq)) rq \<and>
    lookup_phase H sha sb True tb rq tbl = Execute (request_scope rq) key (sha (rq_body rq)) rq \<and>
    (let tbl1 = snd (insert_phase H ttl True t1 (request_scope rq) key (sha (rq_body rq)) rs1 tbl);
         (answer2, tbl2) = insert_phase H ttl True t2 (request_scope rq) key (sha (rq_body rq)) rs2 tbl1
     in rs_status answer2 = rs_status rs2 \<and>
        map_option row_status (map_of tbl2 (request_scope rq, key)) = Some (rs_status rs1))"
proof -
  let ?h = "sha (rq_body rq)" and ?scope = "request_scope rq"
  let ?tbl1 = "insert_db_entry t1 ?scope key ?h (rs_status rs1) j1 ttl tbl"
  let ?r = "\<lparr>row_request_hash = ?h, row_status = rs_status rs1, row_body = j1, row_expires_at = t1 + ttl\<rparr>"
  have m1: "map_of ?tbl1 (?scope, key) = Some ?r" unfolding map_of_insert_entry [OF d] absent(3) by simp
  have d1: "distinct (map fst ?tbl1)" using d by (rule distinct_insert)
  have l1: "load_db_entry t2 ?scope key ?tbl1 = Some ?r"
    using load_holds [of ?scope key ?r ?tbl1 t2] m1 d1 ttl by (simp only: holds_row_def) simp
  have m2: "map_of (insert_db_entry t2 ?scope key ?h st j ttl ?tbl1) (?scope, key) = Some ?r" for st j
    unfolding map_of_insert_entry [OF d1] l1 by simp
  show ?thesis
    using lookup_execute [OF rq absent(1)] lookup_execute [OF rq absent(2)] json m1 m2
    by (simp add: insert_phase_def Let_def tag_response_def set_header_def split: option.split)
qed

end
