(* ===== verification/PathNorm.thy ===== *)
theory PathNorm
  imports RustText
begin

text \<open>
  \<open>common/src/path/normalize.rs\<close>: the normalisation of document paths, and
  \<open>common/src/backlink/mod.rs\<close>: the parser of wiki links. Unicode normalisation
  (\<open>unicode-normalization\<close>) is a parameter \<open>nfkc\<close> of which nothing is assumed for safety.
\<close>

section \<open>Paths\<close>

definition MAX_PATH_CHARS :: nat where "MAX_PATH_CHARS = 512"

datatype path_error = PathEmpty | PathTooLong | PathTraversal rstr | PathNullByte | InvalidComponent rstr

definition check_component :: "rstr \<Rightarrow> path_error option" where
  "check_component c =
     (if c = lit ''.'' then Some (PathTraversal (lit ''.''))
      else if c = lit ''..'' then Some (PathTraversal (lit ''..''))
      else if trim c = [] then Some (InvalidComponent (lit ''(whitespace-only component)''))
      else None)"

fun check_components :: "rstr list \<Rightarrow> path_error option" where
  "check_components [] = None"
| "check_components (c # cs) = (case check_component c of Some e \<Rightarrow> Some e | None \<Rightarrow> check_components cs)"

definition normalize_path :: "(rstr \<Rightarrow> rstr) \<Rightarrow> rstr \<Rightarrow> (path_error, rstr) result" where
  "normalize_path nfkc input =
     (if input = [] then Err PathEmpty
      else if 0 \<in> set input then Err PathNullByte
      else
        let normalized = nfkc input;
            unified = map (\<lambda>c. if c = 92 then 47 else c) normalized;
            components = filter (\<lambda>s. s \<noteq> []) (split_on 47 unified)
        in if components = [] then Err PathEmpty
           else case check_components components of
             Some e \<Rightarrow> Err e
           | None \<Rightarrow>
               let res = join [47] components
               in if length res > MAX_PATH_CHARS then Err PathTooLong else Okay res)"

lemma check_components_None:
  "check_components cs = None \<longleftrightarrow> (\<forall>c \<in> set cs. c \<noteq> lit ''.'' \<and> c \<noteq> lit ''..'' \<and> trim c \<noteq> [])"
  by (induction cs) (auto simp: check_component_def split: if_splits option.splits)

text \<open>The shape of a normal path.\<close>

definition path_ok :: "rstr \<Rightarrow> bool" where
  "path_ok p \<longleftrightarrow>
     p \<noteq> [] \<and> 92 \<notin> set p \<and> length p \<le> MAX_PATH_CHARS \<and>
     (\<forall>c \<in> set (split_on 47 p). c \<noteq> [] \<and> c \<noteq> lit ''.'' \<and> c \<noteq> lit ''..'' \<and> trim c \<noteq> [])"

lemma join_ne: "cs \<noteq> [] \<Longrightarrow> \<forall>c \<in> set cs. c \<noteq> [] \<Longrightarrow> join sep cs \<noteq> []"
  by (cases cs rule: remdups_adj.cases) auto

lemma normalize_path_ok:
  assumes "normalize_path nfkc input = Okay p"
  shows "path_ok p"
proof -
  let ?unified = "map (\<lambda>c. if c = 92 then 47 else c) (nfkc input)"
  let ?cs = "filter (\<lambda>s. s \<noteq> []) (split_on 47 ?unified)"
  have cs: "?cs \<noteq> []" "check_components ?cs = None" "p = join [47] ?cs" "length p \<le> MAX_PATH_CHARS"
    using assms by (auto simp: normalize_path_def Let_def split: if_splits option.splits)
  have part: "47 \<notin> set c \<and> 92 \<notin> set c" if "c \<in> set ?cs" for c
  proof -
    have "47 \<notin> set c \<and> set c \<subseteq> set ?unified" using that split_on_parts [of c 47 ?unified] by simp
    moreover have "92 \<notin> set ?unified" by auto
    ultimately show ?thesis by blast
  qed
  then have "split_on 47 p = ?cs" unfolding cs(3) using cs(1) by (intro split_on_join) auto
  moreover have "92 \<notin> set p" unfolding cs(3) using set_join [of "[47]" ?cs] part by auto
  moreover have "p \<noteq> []" unfolding cs(3) using cs(1) by (intro join_ne) auto
  ultimately show ?thesis using cs(2,4) by (auto simp: path_ok_def check_components_None)
qed

lemma normalize_path_fixed:
  assumes "path_ok p" "nfkc p = p" "0 \<notin> set p"
  shows "normalize_path nfkc p = Okay p"
proof -
  have u: "map (\<lambda>c. if c = 92 then 47 else c) p = p"
    using assms(1) by (intro map_idI) (auto simp: path_ok_def)
  have f: "filter (\<lambda>s. s \<noteq> []) (split_on 47 p) = split_on 47 p"
    using assms(1) by (auto simp: path_ok_def filter_id_conv)
  have "check_components (split_on 47 p) = None"
    using assms(1) by (auto simp: path_ok_def check_components_None)
  then show ?thesis
    using assms by (simp add: normalize_path_def u f join_split_on path_ok_def)
qed

text \<open>
  (C23) Normalised paths are safe and stable: whatever Unicode normalisation does, a path the
  function accepts has no backslash, no empty, blank or dot component and at most 512
  characters, and accepting it again, once it is in normal form, returns it unchanged.
\<close>

theorem normalize_path_safe:
  assumes "normalize_path nfkc input = Okay p"
  shows "path_ok p \<and> (nfkc p = p \<and> 0 \<notin> set p \<longrightarrow> normalize_path nfkc p = Okay p)"
  using normalize_path_ok [OF assms] normalize_path_fixed by blast

definition fold_dot_leader :: "rstr \<Rightarrow> rstr" where
  "fold_dot_leader s = map (\<lambda>c. if c = 8228 then 46 else c) s"

theorem normalize_path_safe_witness:
  "path_ok (lit ''a/b.md'') \<and> normalize_path fold_dot_leader (lit ''a/b.md'') = Okay (lit ''a/b.md'')"
proof -
  have "normalize_path fold_dot_leader (92 # lit ''a//b'' @ 8228 # lit ''md/'') = Okay (lit ''a/b.md'')"
    by code_simp
  moreover have "fold_dot_leader (lit ''a/b.md'') = lit ''a/b.md''" "0 \<notin> set (lit ''a/b.md'')"
    by code_simp+
  ultimately show ?thesis using normalize_path_safe by blast
qed

section \<open>Wiki links\<close>

record wiki_link =
  wl_target :: rstr
  wl_heading :: "rstr option"
  wl_alias :: "rstr option"
  wl_raw :: rstr
  start_offset :: nat
  end_offset :: nat

definition non_empty :: "rstr \<Rightarrow> rstr option" where
  "non_empty v = (if v = [] then None else Some v)"

definition parse_inner_link :: "rstr \<Rightarrow> nat \<Rightarrow> nat \<Rightarrow> wiki_link option" where
  "parse_inner_link inner start end_off =
     (let trimmed = trim inner in
      if trimmed = [] then None
      else
        let (target_part, alias_part) = (case split_once 124 trimmed of
              Some (left, right) \<Rightarrow> (trim left, Some (trim right))
            | None \<Rightarrow> (trimmed, None))
        in if target_part = [] then None
           else
             let (target_raw, heading_raw) = (case split_once 35 target_part of
                   Some (t, h) \<Rightarrow> (trim t, Some (trim h))
                 | None \<Rightarrow> (target_part, None))
             in if target_raw = [] then None
                else Some \<lparr>wl_target = target_raw, wl_heading = Option.bind heading_raw non_empty,
                       wl_alias = Option.bind alias_part non_empty, wl_raw = trimmed,
                       start_offset = start, end_offset = end_off\<rparr>)"

text \<open>
  The scan for \<open>]]\<close> and for \<open>[[\<close>. Both bytes are ASCII, so that they occur only as these
  characters and the scan over bytes is one over characters; offsets count bytes.
\<close>

fun find_close :: "rstr \<Rightarrow> (rstr \<times> rstr) option" where
  "find_close (c # d # s) =
     (if c = 93 \<and> d = 93 then Some ([], s)
      else map_option (\<lambda>(inner, rest). (c # inner, rest)) (find_close (d # s)))"
| "find_close s = None"

lemma find_close_SomeD: "find_close s = Some (inner, rest) \<Longrightarrow> s = inner @ [93, 93] @ rest"
proof (induction s arbitrary: inner rule: find_close.induct)
  case (1 c d s)
  then show ?case by (cases "c = 93 \<and> d = 93") auto
qed simp_all

function parse_links :: "nat \<Rightarrow> rstr \<Rightarrow> wiki_link list" where
  "parse_links offset (c # d # s) =
     (if c = 91 \<and> d = 91 then
        case find_close s of
          None \<Rightarrow> []
        | Some (inner, rest) \<Rightarrow>
            let close_end = offset + 2 + blen inner + 2;
                later = parse_links close_end rest
            in (case parse_inner_link inner offset close_end of Some link \<Rightarrow> link # later | None \<Rightarrow> later)
      else parse_links (offset + len_utf8 c) (d # s))"
| "parse_links offset [] = []"
| "parse_links offset [c] = []"
  by pat_completeness auto
termination
  by (relation "measure (\<lambda>(_, s). length s)") (auto dest!: find_close_SomeD)

definition parse_wiki_links :: "rstr \<Rightarrow> wiki_link list" where
  "parse_wiki_links markdown = parse_links 0 markdown"

text \<open>Where a link stands in the text.\<close>

definition link_at :: "rstr \<Rightarrow> wiki_link \<Rightarrow> bool" where
  "link_at markdown link \<longleftrightarrow>
     (\<exists>a inner b. markdown = a @ [91, 91] @ inner @ [93, 93] @ b \<and>
        start_offset link = blen a \<and> end_offset link = blen a + blen inner + 4 \<and>
        (\<forall>p q. inner \<noteq> p @ [93, 93] @ q) \<and> parse_inner_link inner (start_offset link) (end_offset link) = Some link)"

lemma find_close_first: "find_close s = Some (inner, rest) \<Longrightarrow> inner \<noteq> p @ [93, 93] @ q"
proof (induction s arbitrary: inner p rule: find_close.induct)
  case (1 c d s)
  show ?case
  proof (cases "c = 93 \<and> d = 93")
    case False
    then obtain inner' where i: "inner = c # inner'" "find_close (d # s) = Some (inner', rest)"
      using "1.prems" by auto
    have s: "d # s = inner' @ [93, 93] @ rest" using find_close_SomeD [OF i(2)] .
    show ?thesis
    proof (cases p)
      case Nil
      then show ?thesis using i(1) s False by (cases inner') auto
    next
      case (Cons x p')
      then show ?thesis using "1.IH" [OF False i(2), of p'] i(1) by simp
    qed
  qed (use "1.prems" in simp)
qed simp_all

lemma parse_inner_offsets:
  "parse_inner_link inner st en = Some link \<Longrightarrow> start_offset link = st \<and> end_offset link = en"
  by (auto simp: parse_inner_link_def Let_def split: if_splits option.splits prod.splits)

lemma parse_links_spec:
  "markdown = before @ s \<Longrightarrow> offset = blen before \<Longrightarrow>
   (\<forall>link \<in> set (parse_links offset s). link_at markdown link \<and> offset \<le> start_offset link) \<and>
   sorted_wrt (\<lambda>x y. end_offset x \<le> start_offset y) (parse_links offset s)"
proof (induction offset s arbitrary: before rule: parse_links.induct)
  case (1 offset c d s)
  show ?case
  proof (cases "c = 91 \<and> d = 91")
    case False
    have "(\<forall>link \<in> set (parse_links (offset + len_utf8 c) (d # s)).
        link_at markdown link \<and> offset + len_utf8 c \<le> start_offset link) \<and>
      sorted_wrt (\<lambda>x y. end_offset x \<le> start_offset y) (parse_links (offset + len_utf8 c) (d # s))"
      using "1.IH"(2) [OF False, of "before @ [c]"] "1.prems" by simp
    then show ?thesis using False by auto
  next
    case open_link: True
    show ?thesis
    proof (cases "find_close s")
      case (Some x)
      obtain inner rest where x: "x = (inner, rest)" by (cases x)
      let ?fin = "offset + 2 + blen inner + 2"
      have s: "s = inner @ [93, 93] @ rest" using find_close_SomeD Some x by simp
      have md: "markdown = (before @ [91, 91] @ inner @ [93, 93]) @ rest" using "1.prems"(1) open_link s by simp
      have two: "blen [91, 91] = 2" "blen [93, 93] = 2" by (simp_all add: len_utf8_def)
      have later: "(\<forall>link \<in> set (parse_links ?fin rest). link_at markdown link \<and> ?fin \<le> start_offset link) \<and>
        sorted_wrt (\<lambda>x y. end_offset x \<le> start_offset y) (parse_links ?fin rest)"
        using "1.IH"(1) [OF open_link Some x [symmetric] refl md] "1.prems"(2) two by (simp add: len_utf8_def)
      show ?thesis
      proof (cases "parse_inner_link inner offset ?fin")
        case None
        then show ?thesis using open_link Some x later by (auto simp: Let_def)
      next
        case (Some link)
        note off = parse_inner_offsets [OF Some]
        have "link_at markdown link"
          unfolding link_at_def
          using md off Some "1.prems"(2) find_close_first [OF \<open>find_close s = Some x\<close> [unfolded x]]
          by (intro exI [of _ before] exI [of _ inner] exI [of _ rest]) auto
        then show ?thesis using open_link \<open>find_close s = Some x\<close> x later off Some by (auto simp: Let_def)
      qed
    qed (use open_link in simp)
  qed
qed simp_all

text \<open>
  Wiki links are where they say: every link the parser returns stands in the text between
  its byte offsets as \<open>[[\<close>, an inner text without \<open>]]\<close>, and \<open>]]\<close>, and the links follow one another
  without overlap.
\<close>

theorem wiki_links_located:
  "(\<forall>link \<in> set (parse_wiki_links markdown). link_at markdown link) \<and>
   sorted_wrt (\<lambda>x y. end_offset x \<le> start_offset y) (parse_wiki_links markdown)"
  using parse_links_spec [of markdown "[]" markdown 0] by (simp add: parse_wiki_links_def)

theorem wiki_links_located_witness:
  "length (parse_wiki_links [97, 91, 91, 98, 93, 93, 91, 91, 99, 93, 93]) = 2 \<and>
   (\<forall>link \<in> set (parse_wiki_links [97, 91, 91, 98, 93, 93, 91, 91, 99, 93, 93]). link_at [97, 91, 91, 98, 93, 93, 91, 91, 99, 93, 93] link) \<and>
   sorted_wrt (\<lambda>x y. end_offset x \<le> start_offset y) (parse_wiki_links [97, 91, 91, 98, 93, 93, 91, 91, 99, 93, 93])"
proof -
  have "parse_inner_link [98] st en \<noteq> None" "parse_inner_link [99] st en \<noteq> None" for st en
    by (simp_all add: parse_inner_link_def Let_def split_once_def non_empty_def trim_def trim_start_def trim_end_def is_whitespace_def)
  then have "length (parse_wiki_links [97, 91, 91, 98, 93, 93, 91, 91, 99, 93, 93]) = 2"
    by (auto simp: parse_wiki_links_def Let_def split: option.split)
  then show ?thesis using wiki_links_located [of "[97, 91, 91, 98, 93, 93, 91, 91, 99, 93, 93]"] by blast
qed

end
