(* ===== verification/GitTriggers.thy ===== *)
theory GitTriggers
  imports RustText "HOL-Library.List_Lexorder"
begin

text \<open>
  \<open>daemon/src/git/triggers.rs\<close>: the events that lead to an automatic commit, their collector and
  the semantic commit message; \<open>daemon/src/git/attribution.rs\<close>: the co-author trailers. Instants
  and durations are nanoseconds. The set of changed paths is a list without repetitions; the
  order in which a hash set is iterated is the parameter \<open>hash_order\<close>.
\<close>

section \<open>Events and commits\<close>

datatype trigger_event =
    LeaseReleased rstr rstr rstr
  | CommentResolved rstr rstr rstr
  | ExplicitCheckpoint rstr "rstr option"
  | IdleFallback

fun trigger_agent :: "trigger_event \<Rightarrow> rstr" where
  "trigger_agent (LeaseReleased agent doc_path section_heading) = agent"
| "trigger_agent (CommentResolved agent doc_path thread_id) = agent"
| "trigger_agent (ExplicitCheckpoint agent message) = agent"
| "trigger_agent IdleFallback = lit ''scriptum''"

fun trigger_kind :: "trigger_event \<Rightarrow> rstr" where
  "trigger_kind (LeaseReleased agent doc_path section_heading) = lit ''lease_released''"
| "trigger_kind (CommentResolved agent doc_path thread_id) = lit ''comment_resolved''"
| "trigger_kind (ExplicitCheckpoint agent message) = lit ''checkpoint''"
| "trigger_kind IdleFallback = lit ''idle_fallback''"

datatype change_type = Added | Modified | Deleted

record changed_file =
  cf_path :: rstr
  cf_doc_id :: "uuid option"
  cf_type :: change_type

record commit_context =
  cc_trigger :: trigger_event
  cc_changed_files :: "changed_file list"
  cc_agents :: "rstr list"

definition path_scope :: "rstr \<Rightarrow> rstr" where
  "path_scope doc_path =
     (let basename = last (split_on 47 doc_path); n = length basename in
      if n \<ge> 3 \<and> drop (n - 3) basename = lit ''.md'' then take (n - 3) basename else basename)"

definition count_type :: "change_type \<Rightarrow> changed_file list \<Rightarrow> nat" where
  "count_type t fs = length (filter (\<lambda>f. cf_type f = t) fs)"

definition file_summary :: "changed_file list \<Rightarrow> rstr" where
  "file_summary fs =
     (if fs = [] then []
      else
        let part = (\<lambda>t word. if count_type t fs > 0 then [show_nat (count_type t fs) @ lit word] else [])
        in [10, 10] @ lit ''Files: '' @
           join (lit '', '') (part Added '' added'' @ part Modified '' modified'' @ part Deleted '' deleted''))"

definition generate_message :: "commit_context \<Rightarrow> rstr" where
  "generate_message c =
     (case cc_trigger c of
        LeaseReleased agent doc_path section_heading \<Rightarrow>
          lit ''docs('' @ path_scope doc_path @ lit ''): update '' @ section_heading @ [10, 10] @
          lit ''Triggered by lease release from '' @ agent @ lit ''.'' @ file_summary (cc_changed_files c)
      | CommentResolved agent doc_path thread_id \<Rightarrow>
          lit ''docs('' @ path_scope doc_path @ lit ''): resolve comment thread '' @ thread_id @ [10, 10] @
          lit ''Resolved by '' @ agent @ lit ''.'' @ file_summary (cc_changed_files c)
      | ExplicitCheckpoint agent message \<Rightarrow>
          lit ''chore: '' @ (case message of Some m \<Rightarrow> m | None \<Rightarrow> lit ''manual checkpoint'') @ [10, 10] @
          lit ''Checkpoint by '' @ agent @ lit ''.'' @ file_summary (cc_changed_files c)
      | IdleFallback \<Rightarrow>
          lit ''chore: idle fallback checkpoint'' @ [10, 10] @
          lit ''Triggered by 30s idle timeout.'' @ file_summary (cc_changed_files c))"

section \<open>The collector\<close>

record trigger_config =
  min_commit_interval :: nat
  idle_fallback_timeout :: nat
  max_batch_size :: nat

definition trigger_config_default :: trigger_config where
  "trigger_config_default =
     \<lparr>min_commit_interval = 30 * 1000000000, idle_fallback_timeout = 30 * 1000000000, max_batch_size = 10\<rparr>"

record trigger_collector =
  tc_config :: trigger_config
  pending_triggers :: "trigger_event list"
  changed_paths :: "rstr list"
  last_edit_at :: "nat option"
  last_commit_at :: "nat option"

definition collector_new :: "trigger_config \<Rightarrow> trigger_collector" where
  "collector_new c =
     \<lparr>tc_config = c, pending_triggers = [], changed_paths = [], last_edit_at = None, last_commit_at = None\<rparr>"

definition push_trigger :: "trigger_event \<Rightarrow> trigger_collector \<Rightarrow> trigger_collector" where
  "push_trigger ev c = c\<lparr>pending_triggers := pending_triggers c @ [ev]\<rparr>"

definition mark_changed_at :: "rstr \<Rightarrow> nat \<Rightarrow> trigger_collector \<Rightarrow> trigger_collector" where
  "mark_changed_at path at c =
     c\<lparr>changed_paths := (if path \<in> set (changed_paths c) then changed_paths c else changed_paths c @ [path]),
       last_edit_at := Some at\<rparr>"

text \<open>\<open>checked_duration_since\<close> is \<open>None\<close> when the other instant is later.\<close>

definition elapsed_at_least :: "nat \<Rightarrow> nat \<Rightarrow> nat \<Rightarrow> bool" where
  "elapsed_at_least now since d \<longleftrightarrow> since \<le> now \<and> now - since \<ge> d"

definition commit_interval_elapsed :: "nat \<Rightarrow> trigger_collector \<Rightarrow> bool" where
  "commit_interval_elapsed now c =
     (case last_commit_at c of
        Some t \<Rightarrow> elapsed_at_least now t (min_commit_interval (tc_config c))
      | None \<Rightarrow> True)"

definition should_idle_fallback_commit :: "nat \<Rightarrow> trigger_collector \<Rightarrow> bool" where
  "should_idle_fallback_commit now c =
     (if changed_paths c = [] then False
      else case last_edit_at c of
        None \<Rightarrow> False
      | Some t \<Rightarrow>
          if \<not> elapsed_at_least now t (idle_fallback_timeout (tc_config c)) then False
          else commit_interval_elapsed now c)"

definition is_explicit :: "trigger_event \<Rightarrow> bool" where
  "is_explicit ev = (case ev of ExplicitCheckpoint _ _ \<Rightarrow> True | _ \<Rightarrow> False)"

definition should_commit :: "nat \<Rightarrow> trigger_collector \<Rightarrow> bool" where
  "should_commit now c =
     (if pending_triggers c = [] then should_idle_fallback_commit now c
      else if list_ex is_explicit (pending_triggers c) then True
      else if length (pending_triggers c) \<ge> max_batch_size (tc_config c) then True
      else commit_interval_elapsed now c)"

definition take_commit_context_at ::
  "(rstr list \<Rightarrow> rstr list) \<Rightarrow> nat \<Rightarrow> changed_file list \<Rightarrow> trigger_collector \<Rightarrow> commit_context option \<times> trigger_collector" where
  "take_commit_context_at hash_order now fs c =
     (if pending_triggers c = [] \<and> changed_paths c = [] then (None, c)
      else
        let (trigger, agents) =
              (if pending_triggers c = [] then (IdleFallback, [])
               else (last (pending_triggers c), hash_order (remdups (map trigger_agent (pending_triggers c)))))
        in (Some \<lparr>cc_trigger = trigger, cc_changed_files = fs, cc_agents = agents\<rparr>,
            c\<lparr>pending_triggers := [], changed_paths := [], last_edit_at := None, last_commit_at := Some now\<rparr>))"

definition tracked_changed_files :: "trigger_collector \<Rightarrow> changed_file list" where
  "tracked_changed_files c =
     map (\<lambda>p. \<lparr>cf_path = p, cf_doc_id = None, cf_type = Modified\<rparr>) (remdups_adj (sort (changed_paths c)))"

definition trigger_count :: "trigger_collector \<Rightarrow> nat" where
  "trigger_count c = length (pending_triggers c)"

definition changed_path_count :: "trigger_collector \<Rightarrow> nat" where
  "changed_path_count c = length (changed_paths c)"

section \<open>Invariant\<close>

text \<open>
  A change is pending exactly when the time of the last edit is known, no path is listed twice,
  and the last commit is not later than the last edit.
\<close>

definition collector_inv :: "trigger_collector \<Rightarrow> bool" where
  "collector_inv c \<longleftrightarrow>
     distinct (changed_paths c) \<and> (changed_paths c = [] \<longleftrightarrow> last_edit_at c = None) \<and>
     (\<forall>e t. last_edit_at c = Some e \<longrightarrow> last_commit_at c = Some t \<longrightarrow> t \<le> e)"

lemma collector_inv_new: "collector_inv (collector_new c)"
  by (simp add: collector_inv_def collector_new_def)

lemma collector_inv_push [simp]: "collector_inv (push_trigger ev c) = collector_inv c"
  by (simp add: collector_inv_def push_trigger_def)

lemma collector_inv_mark:
  "collector_inv c \<Longrightarrow> (\<forall>t. last_commit_at c = Some t \<longrightarrow> t \<le> at) \<Longrightarrow> collector_inv (mark_changed_at p at c)"
  by (auto simp: collector_inv_def mark_changed_at_def)

lemma collector_inv_take: "collector_inv c \<Longrightarrow> collector_inv (snd (take_commit_context_at ho now fs c))"
  by (auto simp: collector_inv_def take_commit_context_at_def Let_def)

lemma tracked_paths: "set (map cf_path (tracked_changed_files c)) = set (changed_paths c)"
  by (auto simp: tracked_changed_files_def)

lemma tracked_empty [simp]: "tracked_changed_files c = [] \<longleftrightarrow> changed_paths c = []"
proof -
  have "set (map cf_path (tracked_changed_files c)) = {} \<longleftrightarrow> changed_paths c = []" unfolding tracked_paths by simp
  then show ?thesis by simp
qed

text \<open>With a commit interval no longer than the idle timeout a quiet change is always committable.\<close>

lemma idle_commit_due:
  assumes "collector_inv c" "changed_paths c \<noteq> []" "last_edit_at c = Some e"
    and "min_commit_interval (tc_config c) \<le> idle_fallback_timeout (tc_config c)"
    and "e + idle_fallback_timeout (tc_config c) \<le> now"
  shows "should_commit now c"
proof -
  have "commit_interval_elapsed now c"
    using assms by (auto simp: commit_interval_elapsed_def elapsed_at_least_def collector_inv_def split: option.split)
  then show ?thesis
    using assms by (auto simp: should_commit_def should_idle_fallback_commit_def elapsed_at_least_def)
qed

section \<open>Co-authors\<close>

record update_attribution =
  ua_user_id :: "rstr option"
  ua_user_name :: "rstr option"
  ua_user_email :: "rstr option"
  ua_agent_id :: "rstr option"
  ua_agent_name :: "rstr option"

record coauthor =
  co_name :: rstr
  co_email :: rstr

definition normalize :: "rstr option \<Rightarrow> rstr option" where
  "normalize v = (case v of None \<Rightarrow> None | Some s \<Rightarrow> if trim s = [] then None else Some (trim s))"

definition coauthor_for_user :: "update_attribution \<Rightarrow> coauthor option" where
  "coauthor_for_user u =
     (case normalize (ua_user_id u) of
        None \<Rightarrow> None
      | Some user_id \<Rightarrow>
          Some \<lparr>co_name = (case normalize (ua_user_name u) of Some n \<Rightarrow> n | None \<Rightarrow> user_id),
                co_email = (case normalize (ua_user_email u) of
                    Some e \<Rightarrow> e
                  | None \<Rightarrow> lit ''user:'' @ user_id @ lit ''@scriptum'')\<rparr>)"

definition coauthor_for_agent :: "update_attribution \<Rightarrow> coauthor option" where
  "coauthor_for_agent u =
     (case normalize (ua_agent_id u) of
        None \<Rightarrow> None
      | Some agent_id \<Rightarrow>
          Some \<lparr>co_name = (case normalize (ua_agent_name u) of Some n \<Rightarrow> n | None \<Rightarrow> agent_id),
                co_email = lit ''agent:'' @ agent_id @ lit ''@scriptum''\<rparr>)"

text \<open>The ordered map from emails to authors: the first author of an email stays.\<close>

definition or_insert :: "coauthor option \<Rightarrow> coauthor list \<Rightarrow> coauthor list" where
  "or_insert a by_email =
     (case a of
        None \<Rightarrow> by_email
      | Some x \<Rightarrow> if co_email x \<in> co_email ` set by_email then by_email else insort_key co_email x by_email)"

fun collect_coauthors :: "update_attribution list \<Rightarrow> coauthor list \<Rightarrow> coauthor list" where
  "collect_coauthors [] by_email = by_email"
| "collect_coauthors (u # us) by_email =
     collect_coauthors us (or_insert (coauthor_for_agent u) (or_insert (coauthor_for_user u) by_email))"

definition collect_coauthors_since_last_commit :: "update_attribution list \<Rightarrow> coauthor list" where
  "collect_coauthors_since_last_commit us = collect_coauthors us []"

definition append_coauthor_trailers :: "rstr \<Rightarrow> coauthor list \<Rightarrow> rstr" where
  "append_coauthor_trailers base authors =
     (if authors = [] then base
      else rev (dropWhile (\<lambda>c. c = 10) (rev base)) @ [10, 10] @
        concat (map (\<lambda>a. lit ''Co-authored-by: '' @ co_name a @ lit '' <'' @ co_email a @ lit ''>'' @ [10]) authors))"

definition with_coauthor_trailers :: "rstr \<Rightarrow> update_attribution list \<Rightarrow> rstr" where
  "with_coauthor_trailers base us = append_coauthor_trailers base (collect_coauthors_since_last_commit us)"

definition by_email_ok :: "coauthor list \<Rightarrow> bool" where
  "by_email_ok xs \<longleftrightarrow> sorted (map co_email xs) \<and> distinct (map co_email xs)"

lemma or_insert_ok: "by_email_ok xs \<Longrightarrow> by_email_ok (or_insert a xs)"
  by (auto simp: by_email_ok_def or_insert_def sorted_insort_key distinct_insort_key split: option.split)

lemma or_insert_emails:
  "co_email ` set (or_insert a xs) = co_email ` set xs \<union> (case a of None \<Rightarrow> {} | Some x \<Rightarrow> {co_email x})"
  by (auto simp: or_insert_def set_insort_key split: option.split)

definition emails_of :: "update_attribution \<Rightarrow> rstr set" where
  "emails_of u = co_email ` (set_option (coauthor_for_user u) \<union> set_option (coauthor_for_agent u))"

lemma collect_coauthors_spec:
  "by_email_ok xs \<Longrightarrow> by_email_ok (collect_coauthors us xs) \<and>
   co_email ` set (collect_coauthors us xs) = co_email ` set xs \<union> (\<Union>u \<in> set us. emails_of u)"
proof (induction us arbitrary: xs)
  case (Cons u us)
  let ?ys = "or_insert (coauthor_for_agent u) (or_insert (coauthor_for_user u) xs)"
  have "by_email_ok ?ys" using Cons.prems by (intro or_insert_ok)
  moreover have "co_email ` set ?ys = co_email ` set xs \<union> emails_of u"
    by (auto simp: or_insert_emails emails_of_def split: option.split)
  ultimately show ?case using Cons.IH [of ?ys] by auto
qed simp

text \<open>Every author of an update since the last commit is credited exactly once, in the order of the emails.\<close>

lemma coauthors_complete:
  "by_email_ok (collect_coauthors_since_last_commit us) \<and>
   co_email ` set (collect_coauthors_since_last_commit us) = (\<Union>u \<in> set us. emails_of u)"
  using collect_coauthors_spec [of "[]" us] by (simp add: collect_coauthors_since_last_commit_def by_email_ok_def)

end
