(* ===== verification/GitCommit.thy ===== *)
theory GitCommit
  imports GitTriggers
begin

text \<open>
  \<open>daemon/src/git/worker.rs\<close>: the git commands; \<open>daemon/src/git/commit.rs\<close>: commit messages from a
  language model, with the redaction policy and the deterministic fallback. The command executor
  and the model are parameters that act on a state of the outside world, collected in
  \<open>git_env\<close>; each redaction rule is a regular expression of the crate \<open>regex\<close> with its
  replacement and is a parameter too. A slice at a byte that is not a character boundary panics:
  the functions that slice return an option.
\<close>

section \<open>Commands\<close>

record command_result =
  cr_success :: bool
  cr_code :: "int option"
  cr_stdout :: rstr
  cr_stderr :: rstr

record git_output =
  go_stdout :: rstr
  go_stderr :: rstr

datatype git_worker_error =
    EmptyAddPaths
  | SpawnFailed rstr rstr
  | CommandFailed rstr "int option" rstr

datatype ai_commit_error = AiDisabled | ClientError rstr | EmptyResponse

record 'g git_env =
  exec :: "rstr list \<Rightarrow> 'g \<Rightarrow> (rstr, command_result) result \<times> 'g"
  ai_generate :: "rstr \<Rightarrow> rstr \<Rightarrow> 'g \<Rightarrow> (ai_commit_error, rstr) result \<times> 'g"
  redaction_rules :: "(rstr \<Rightarrow> rstr) list"
  show_code :: "int option \<Rightarrow> rstr"

definition worker_error_text :: "'g git_env \<Rightarrow> git_worker_error \<Rightarrow> rstr" where
  "worker_error_text E e =
     (case e of
        EmptyAddPaths \<Rightarrow> lit ''git add requires at least one path''
      | SpawnFailed command message \<Rightarrow> lit ''failed to run `'' @ command @ lit ''`: '' @ message
      | CommandFailed command code err \<Rightarrow>
          lit ''`'' @ command @ lit ''` failed with code '' @ show_code E code @ lit '': '' @ trim err)"

definition git_run :: "'g git_env \<Rightarrow> rstr list \<Rightarrow> 'g \<Rightarrow> (git_worker_error, git_output) result \<times> 'g" where
  "git_run E args w =
     (let command = lit ''git '' @ join (lit '' '') args; (r, w1) = exec E args w in
      case r of
        Inl message \<Rightarrow> (Err (SpawnFailed command message), w1)
      | Inr res \<Rightarrow>
          if cr_success res then (Okay \<lparr>go_stdout = cr_stdout res, go_stderr = cr_stderr res\<rparr>, w1)
          else
            let err = (if trim (cr_stderr res) = [] then cr_stdout res else cr_stderr res)
            in (Err (CommandFailed command (cr_code res) err), w1))"

definition git_status :: "'g git_env \<Rightarrow> 'g \<Rightarrow> (git_worker_error, git_output) result \<times> 'g" where
  "git_status E w = git_run E (map lit [''status'', ''--short'']) w"

definition git_add :: "'g git_env \<Rightarrow> rstr list \<Rightarrow> 'g \<Rightarrow> (git_worker_error, git_output) result \<times> 'g" where
  "git_add E paths w = (if paths = [] then (Err EmptyAddPaths, w) else git_run E (lit ''add'' # paths) w)"

definition git_commit :: "'g git_env \<Rightarrow> rstr \<Rightarrow> 'g \<Rightarrow> (git_worker_error, git_output) result \<times> 'g" where
  "git_commit E message w = git_run E [lit ''commit'', lit ''-m'', message] w"

definition git_diff_cached :: "'g git_env \<Rightarrow> 'g \<Rightarrow> (git_worker_error, git_output) result \<times> 'g" where
  "git_diff_cached E w = git_run E (map lit [''diff'', ''--cached'', ''--no-color'']) w"

definition git_diff_cached_name_status :: "'g git_env \<Rightarrow> 'g \<Rightarrow> (git_worker_error, git_output) result \<times> 'g" where
  "git_diff_cached_name_status E w = git_run E (map lit [''diff'', ''--cached'', ''--name-status'']) w"

definition git_push :: "'g git_env \<Rightarrow> 'g \<Rightarrow> (git_worker_error, git_output) result \<times> 'g" where
  "git_push E w = git_run E [lit ''push''] w"

definition git_pull_rebase :: "'g git_env \<Rightarrow> 'g \<Rightarrow> (git_worker_error, git_output) result \<times> 'g" where
  "git_pull_rebase E w = git_run E (map lit [''pull'', ''--rebase'']) w"

section \<open>Commit messages\<close>

datatype redaction_policy = Disabled | Redacted | Full

definition SYSTEM_PROMPT :: rstr where
  "SYSTEM_PROMPT = lit ''Generate concise git commit (max 72 chars first line). Focus on WHAT and WHY.''"

definition redact_sensitive_content :: "'g git_env \<Rightarrow> rstr \<Rightarrow> rstr" where
  "redact_sensitive_content E s = fold (\<lambda>rule t. rule t) (redaction_rules E) s"

definition marker :: "change_type \<Rightarrow> rstr" where
  "marker t = (case t of Added \<Rightarrow> lit ''A'' | Modified \<Rightarrow> lit ''M'' | Deleted \<Rightarrow> lit ''D'')"

definition build_prompt :: "'g git_env \<Rightarrow> rstr \<Rightarrow> changed_file list \<Rightarrow> redaction_policy \<Rightarrow> rstr" where
  "build_prompt E diff_summary files policy =
     (if files = [] then []
      else lit ''Changed files:'' @ [10] @
        concat (map (\<lambda>f. lit ''  '' @ marker (cf_type f) @ lit '' '' @ cf_path f @ [10]) files) @ [10]) @
     (case policy of
        Full \<Rightarrow> lit ''Diff:'' @ [10] @ diff_summary
      | Redacted \<Rightarrow>
          lit ''Diff (redacted):'' @ [10] @ lit ''(Sensitive values redacted by policy.)'' @ [10] @
          redact_sensitive_content E diff_summary
      | Disabled \<Rightarrow> [])"

text \<open>\<open>str::lines\<close>: a final line break opens no line, and a carriage return before a break goes with it.\<close>

definition strip_cr :: "rstr \<Rightarrow> rstr" where
  "strip_cr l = (if l \<noteq> [] \<and> last l = 13 then butlast l else l)"

definition str_lines :: "rstr \<Rightarrow> rstr list" where
  "str_lines s =
     (let parts = split_on 10 s in
      map strip_cr (butlast parts) @ (if last parts = [] then [] else [last parts]))"

text \<open>\<open>rfind(' ')\<close> on the truncated line, and the cut at a word boundary past the middle.\<close>

definition enforce_first_line_limit :: "rstr \<Rightarrow> nat \<Rightarrow> rstr option" where
  "enforce_first_line_limit message max_len =
     (case str_lines message of
        [] \<Rightarrow> Some message
      | first_line # rest \<Rightarrow>
          if blen first_line \<le> max_len then Some message
          else case split_at_byte max_len first_line of
            None \<Rightarrow> None
          | Some (truncated, _) \<Rightarrow>
              let cut = (case rfind_byte (\<lambda>c. c = 32) truncated of
                      Some pos \<Rightarrow>
                        if pos > max_len div 2
                        then (case split_at_byte pos truncated of Some (l, _) \<Rightarrow> l | None \<Rightarrow> truncated)
                        else truncated
                    | None \<Rightarrow> truncated)
              in Some (if rest = [] then cut else cut @ [10] @ join [10] rest))"

definition generate_ai_commit_message ::
  "'g git_env \<Rightarrow> rstr \<Rightarrow> changed_file list \<Rightarrow> redaction_policy \<Rightarrow> 'g \<Rightarrow>
   ((ai_commit_error, rstr) result \<times> 'g) option" where
  "generate_ai_commit_message E diff_summary files policy w =
     (if policy = Disabled then Some (Err AiDisabled, w)
      else
        let (r, w1) = ai_generate E SYSTEM_PROMPT (build_prompt E diff_summary files policy) w in
        case r of
          Inl e \<Rightarrow> Some (Err e, w1)
        | Inr response \<Rightarrow>
            if trim response = [] then Some (Err EmptyResponse, w1)
            else case enforce_first_line_limit (trim response) 72 of
              None \<Rightarrow> None
            | Some m \<Rightarrow> Some (Okay m, w1))"

definition fallback_commit_message :: "changed_file list \<Rightarrow> rstr" where
  "fallback_commit_message files =
     (let paths = remdups_adj (sort (map cf_path files));
          path_list = (if paths = [] then lit ''(none)'' else join (lit '', '') paths)
      in lit ''Update '' @ show_nat (length paths) @ lit '' file(s): '' @ path_list)"

definition generate_commit_message_with_fallback ::
  "'g git_env \<Rightarrow> rstr \<Rightarrow> changed_file list \<Rightarrow> redaction_policy \<Rightarrow> 'g \<Rightarrow> (rstr \<times> 'g) option" where
  "generate_commit_message_with_fallback E diff_summary files policy w =
     (case generate_ai_commit_message E diff_summary files policy w of
        None \<Rightarrow> None
      | Some (Inr m, w1) \<Rightarrow> Some (m, w1)
      | Some (Inl _, w1) \<Rightarrow> Some (fallback_commit_message files, w1))"

section \<open>The first line\<close>

lemma str_lines_first: "str_lines s = first_line # rest \<Longrightarrow> 10 \<notin> set first_line"
  using split_on_parts [of _ 10 s] unfolding str_lines_def Let_def strip_cr_def
  by (cases "split_on 10 s") (auto split: if_splits dest: in_set_butlastD)

lemma blen_strip_cr: "blen (strip_cr l) \<le> blen l"
proof (cases "l \<noteq> [] \<and> last l = 13")
  case True
  then have "blen l = blen (butlast l @ [13])" by (metis append_butlast_last_id)
  then show ?thesis using True by (simp add: strip_cr_def)
qed (auto simp: strip_cr_def)

text \<open>The first line of a text that starts with a line without breaks.\<close>

lemma str_lines_head:
  assumes "10 \<notin> set l"
  shows "case str_lines (l @ (if tail = None then [] else 10 # the tail)) of [] \<Rightarrow> True | x # _ \<Rightarrow> blen x \<le> blen l"
proof (cases tail)
  case None
  then show ?thesis using assms by (simp add: str_lines_def split_on_fresh)
next
  case (Some t)
  have "split_on 10 (l @ 10 # t) = l # split_on 10 t" using assms by (rule split_on_append)
  then show ?thesis using Some blen_strip_cr by (simp add: str_lines_def)
qed

lemma rfind_split:
  assumes "rfind_byte Q s = Some pos"
  shows "\<exists>a c b. split_at_byte pos s = Some (a, c # b) \<and> s = a @ c # b"
  using rfind_byte_SomeD [OF assms] by (metis split_at_byte_append)

lemma cut_prefix:
  assumes "split_at_byte n first_line = Some (truncated, b)"
  shows "\<exists>cut tl. (case rfind_byte (\<lambda>c. c = 32) truncated of
        Some pos \<Rightarrow>
          if pos > n div 2 then (case split_at_byte pos truncated of Some (l, _) \<Rightarrow> l | None \<Rightarrow> truncated) else truncated
      | None \<Rightarrow> truncated) = cut \<and> first_line = cut @ tl \<and> blen cut \<le> n"
proof -
  have t: "first_line = truncated @ b" "blen truncated = n" using split_at_byte_SomeD [OF assms] by auto
  show ?thesis
  proof (cases "rfind_byte (\<lambda>c. c = 32) truncated")
    case None
    then show ?thesis using t by auto
  next
    case (Some pos)
    obtain a c d where "split_at_byte pos truncated = Some (a, c # d)" "truncated = a @ c # d"
      using rfind_split [OF Some] by blast
    then show ?thesis using t Some by auto
  qed
qed

lemma enforce_first_line_limit_ok:
  assumes "enforce_first_line_limit message n = Some r"
  shows "case str_lines r of [] \<Rightarrow> True | l # _ \<Rightarrow> blen l \<le> n"
proof (cases "str_lines message")
  case (Cons first_line rest)
  show ?thesis
  proof (cases "blen first_line \<le> n")
    case False
    then obtain truncated b where sp: "split_at_byte n first_line = Some (truncated, b)"
      using assms Cons by (auto simp: enforce_first_line_limit_def split: option.splits)
    obtain cut tl where cut: "(case rfind_byte (\<lambda>c. c = 32) truncated of
        Some pos \<Rightarrow>
          if pos > n div 2 then (case split_at_byte pos truncated of Some (l, _) \<Rightarrow> l | None \<Rightarrow> truncated) else truncated
      | None \<Rightarrow> truncated) = cut" "first_line = cut @ tl" "blen cut \<le> n"
      using cut_prefix [OF sp] by blast
    have r: "r = cut @ (if rest = [] then [] else 10 # join [10] rest)"
      using assms Cons False sp cut(1) by (auto simp: enforce_first_line_limit_def Let_def split: if_splits)
    have nl: "10 \<notin> set cut" using str_lines_first [OF Cons] cut(2) by simp
    have "case str_lines r of [] \<Rightarrow> True | l # _ \<Rightarrow> blen l \<le> blen cut"
      using str_lines_head [OF nl, of "if rest = [] then None else Some (join [10] rest)"] r
      by (simp split: if_splits)
    then show ?thesis using cut(3) by (auto split: list.splits)
  qed (use assms Cons in \<open>simp add: enforce_first_line_limit_def\<close>)
qed (use assms in \<open>simp add: enforce_first_line_limit_def\<close>)

lemma split_inside_char:
  "blen a < n \<Longrightarrow> n < blen a + len_utf8 c \<Longrightarrow> split_at_byte n (a @ c # b) = None"
proof (induction a arbitrary: n)
  case (Cons x a)
  then show ?case by (auto simp: less_diff_conv2)
qed auto

section \<open>Properties\<close>

text \<open>
  The model is asked at most once, with the redacted text of the diff under the default
  policy and never when AI messages are disabled; every message returned has a first line of
  at most 72 bytes or is the fallback.
\<close>

lemma commit_message_bounded:
  assumes "generate_commit_message_with_fallback E diff files policy w = Some (m, w1)"
  shows "m = fallback_commit_message files \<or> (case str_lines m of [] \<Rightarrow> True | l # _ \<Rightarrow> blen l \<le> 72)"
  using assms enforce_first_line_limit_ok [of _ 72]
  by (auto simp: generate_commit_message_with_fallback_def generate_ai_commit_message_def Let_def
      split: option.splits sum.splits prod.splits if_splits)

lemma disabled_never_asks: "generate_commit_message_with_fallback E diff files Disabled w = Some (fallback_commit_message files, w)"
  by (simp add: generate_commit_message_with_fallback_def generate_ai_commit_message_def)

lemma redacted_asks_redacted:
  assumes "redact_sensitive_content E diff = redact_sensitive_content E diff'"
  shows "generate_commit_message_with_fallback E diff files Redacted w =
    generate_commit_message_with_fallback E diff' files Redacted w"
  using assms by (simp add: generate_commit_message_with_fallback_def generate_ai_commit_message_def build_prompt_def)

text \<open>
  The fallback does not cover every answer of the model: when byte 72 of the answer's
  first line lies inside a character, generating the commit message panics.
\<close>

theorem wide_character_panics:
  assumes "policy \<noteq> Disabled"
    and "ai_generate E SYSTEM_PROMPT (build_prompt E diff files policy) w = (Okay answer, w1)"
    and "str_lines (trim answer) = (a @ c # b) # rest" and "blen a < 72" and "72 < blen a + len_utf8 c"
  shows "generate_commit_message_with_fallback E diff files policy w = None"
proof -
  have "trim answer \<noteq> []" using assms(3) by (auto simp: str_lines_def)
  moreover have "enforce_first_line_limit (trim answer) 72 = None"
    using assms(3-5) split_inside_char [OF assms(4,5)] by (simp add: enforce_first_line_limit_def)
  ultimately show ?thesis
    using assms(1,2) by (simp add: generate_commit_message_with_fallback_def generate_ai_commit_message_def)
qed

definition demo_git :: "nat git_env" where
  "demo_git = \<lparr>exec = (\<lambda>args n. (Okay \<lparr>cr_success = True, cr_code = Some 0, cr_stdout = [], cr_stderr = []\<rparr>, n + 1)),
     ai_generate = (\<lambda>s p n. (Okay (replicate 71 97 @ [233, 97]), n)), redaction_rules = [], show_code = (\<lambda>_. [])\<rparr>"

theorem wide_character_panics_witness:
  "generate_commit_message_with_fallback demo_git [] [] Full 0 = None"
proof (rule wide_character_panics)
  have t: "trim (replicate 71 97 @ [233, 97]) = replicate 71 97 @ [233, 97]"
    by (rule trim_id) (auto simp: is_whitespace_def)
  show "ai_generate demo_git SYSTEM_PROMPT (build_prompt demo_git [] [] Full) 0 = (Okay (replicate 71 97 @ [233, 97]), 0)"
    by (simp add: demo_git_def)
  have "10 \<notin> set (replicate 71 (97::nat) @ [233, 97])" by simp
  then show "str_lines (trim (replicate 71 97 @ [233, 97])) = (replicate 71 97 @ 233 # [97]) # []"
    unfolding t str_lines_def Let_def by (simp add: split_on_fresh)
  have b: "blen (replicate n 97) = n" for n by (induction n) (simp_all add: len_utf8_def)
  show "blen (replicate 71 97) < 72" "72 < blen (replicate 71 97) + len_utf8 233"
    by (simp_all add: b len_utf8_def)
qed simp

end
