(* ===== verification/GitSync.thy ===== *)
theory GitSync
  imports GitCommit
begin

text \<open>
  The git part of \<open>daemon/src/rpc/methods.rs\<close>: \<open>GitState\<close> with its policy and its \<open>sync\<close>, the
  triggers that the RPC server collects, the idle timers it spawns, the automatic commit, and
  the handlers \<open>git.status\<close>, \<open>git.sync\<close> and \<open>git.configure\<close>. A spawned timer is an entry of
  \<open>gs_timers\<close> with the time it wakes up and the epoch it was spawned with. The locks are never
  contended in the model, so that the \<open>try_read\<close> and \<open>try_write\<close> of the code succeed; the
  parameters of a request come decoded, \<open>None\<close> being absent ones and \<open>Some None\<close> ones that do
  not decode. \<open>None\<close> as a result is a panic.
\<close>

section \<open>State\<close>

datatype git_sync_policy = PolicyDisabled | PolicyManual | PolicyAutoRebase

record git_state =
  gt_policy :: git_sync_policy
  gt_last_sync_at :: "timestamp option"
  gt_ai_enabled :: bool
  gt_ai_configured :: bool
  gt_redaction :: redaction_policy

record 'g git_server =
  gs_git :: "git_state option"
  gs_collector :: trigger_collector
  gs_epoch :: nat
  gs_timers :: "(nat \<times> nat) list"
  gs_agent :: rstr
  gs_world :: 'g

datatype git_sync_action = Commit rstr "rstr option" | CommitAndPush rstr "rstr option"

fun with_trigger_type :: "rstr \<Rightarrow> git_sync_action \<Rightarrow> git_sync_action" where
  "with_trigger_type t (Commit message _) = Commit message (Some t)"
| "with_trigger_type t (CommitAndPush message _) = CommitAndPush message (Some t)"

fun action_message :: "git_sync_action \<Rightarrow> rstr" where
  "action_message (Commit message _) = message"
| "action_message (CommitAndPush message _) = message"

section \<open>Committing\<close>

fun split_pred :: "('a \<Rightarrow> bool) \<Rightarrow> 'a list \<Rightarrow> 'a list list" where
  "split_pred Q [] = [[]]"
| "split_pred Q (c # s) =
     (if Q c then [] # split_pred Q s
      else case split_pred Q s of p # ps \<Rightarrow> (c # p) # ps | [] \<Rightarrow> [[c]])"

definition split_whitespace :: "rstr \<Rightarrow> rstr list" where
  "split_whitespace s = filter (\<lambda>p. p \<noteq> []) (split_pred is_whitespace s)"

definition parse_change_type :: "rstr \<Rightarrow> change_type" where
  "parse_change_type status =
     (case status of c # _ \<Rightarrow> if c = 65 then Added else if c = 68 then Deleted else Modified | [] \<Rightarrow> Modified)"

definition parse_name_status_line :: "rstr \<Rightarrow> changed_file option" where
  "parse_name_status_line line =
     (if trim line = [] then None
      else case split_whitespace (trim line) of
        status # p # ps \<Rightarrow> Some \<lparr>cf_path = last (p # ps), cf_doc_id = None, cf_type = parse_change_type status\<rparr>
      | _ \<Rightarrow> None)"

definition parse_changed_files_from_name_status :: "rstr \<Rightarrow> changed_file list" where
  "parse_changed_files_from_name_status out = List.map_filter parse_name_status_line (str_lines out)"

definition append_trigger_metadata :: "rstr \<Rightarrow> rstr option \<Rightarrow> rstr" where
  "append_trigger_metadata message trigger_type =
     (case trigger_type of
        None \<Rightarrow> message
      | Some t \<Rightarrow>
          if trim t = [] then message
          else trim_end message @ [10, 10] @ lit ''Scriptum-Trigger: '' @ trim t)"

definition commit_prompt :: "rstr \<Rightarrow> rstr \<Rightarrow> rstr" where
  "commit_prompt hint diff =
     (if trim hint = [] then [] else lit ''Trigger summary:'' @ [10] @ trim hint @ [10, 10]) @
     lit ''Staged diff:'' @ [10] @ diff"

definition commit_with_generated_message ::
  "'g git_env \<Rightarrow> git_state \<Rightarrow> rstr \<Rightarrow> rstr option \<Rightarrow> 'g \<Rightarrow> ((rstr, unit) result \<times> 'g) option" where
  "commit_with_generated_message E g hint trigger_type w =
     (case git_add E [lit ''.''] w of
        (Inl e, w1) \<Rightarrow> Some (Err (worker_error_text E e), w1)
      | (Inr _, w1) \<Rightarrow>
     (case git_diff_cached E w1 of
        (Inl e, w2) \<Rightarrow> Some (Err (worker_error_text E e), w2)
      | (Inr staged_diff, w2) \<Rightarrow>
     (case git_diff_cached_name_status E w2 of
        (Inl e, w3) \<Rightarrow> Some (Err (worker_error_text E e), w3)
      | (Inr staged_name_status, w3) \<Rightarrow>
          let files = parse_changed_files_from_name_status (go_stdout staged_name_status);
              generated =
                (if gt_ai_enabled g \<and> gt_ai_configured g
                 then generate_commit_message_with_fallback E (commit_prompt hint (go_stdout staged_diff)) files (gt_redaction g) w3
                 else Some (fallback_commit_message files, w3))
          in (case generated of
                None \<Rightarrow> None
              | Some (message, w4) \<Rightarrow>
                  (case git_commit E (append_trigger_metadata message trigger_type) w4 of
                     (Inl e, w5) \<Rightarrow> Some (Err (worker_error_text E e), w5)
                   | (Inr _, w5) \<Rightarrow> Some (Okay (), w5))))))"

definition git_sync ::
  "'g git_env \<Rightarrow> git_state \<Rightarrow> git_sync_action \<Rightarrow> uuid \<Rightarrow> timestamp \<Rightarrow> 'g \<Rightarrow> ((rstr, uuid) result \<times> git_state \<times> 'g) option" where
  "git_sync E g action job_id wall w =
     (let (message, trigger_type, push) =
            (case action of Commit m t \<Rightarrow> (m, t, False) | CommitAndPush m t \<Rightarrow> (m, t, True))
      in case commit_with_generated_message E g message trigger_type w of
           None \<Rightarrow> None
         | Some (Inl e, w1) \<Rightarrow> Some (Err e, g, w1)
         | Some (Inr _, w1) \<Rightarrow>
             if push then
               (case git_push E w1 of
                  (Inl e, w2) \<Rightarrow> Some (Err (worker_error_text E e), g, w2)
                | (Inr _, w2) \<Rightarrow> Some (Okay job_id, g\<lparr>gt_last_sync_at := Some wall\<rparr>, w2))
             else Some (Okay job_id, g\<lparr>gt_last_sync_at := Some wall\<rparr>, w1))"

section \<open>Triggers and timers\<close>

definition schedule_idle_fallback_commit :: "nat \<Rightarrow> 'g git_server \<Rightarrow> 'g git_server" where
  "schedule_idle_fallback_commit now st =
     (case gs_git st of
        None \<Rightarrow> st
      | Some _ \<Rightarrow>
          let timeout = idle_fallback_timeout (tc_config (gs_collector st)); epoch = gs_epoch st + 1
          in st\<lparr>gs_epoch := epoch, gs_timers := gs_timers st @ [(now + timeout, epoch)]\<rparr>)"

definition register_git_change :: "nat \<Rightarrow> rstr \<Rightarrow> 'g git_server \<Rightarrow> 'g git_server" where
  "register_git_change now path st =
     (case gs_git st of
        None \<Rightarrow> st
      | Some _ \<Rightarrow>
          if trim path = [] then st
          else schedule_idle_fallback_commit now
            (st\<lparr>gs_collector := mark_changed_at (trim path) now (gs_collector st)\<rparr>))"

definition enqueue_git_trigger :: "trigger_event \<Rightarrow> 'g git_server \<Rightarrow> 'g git_server" where
  "enqueue_git_trigger ev st =
     (case gs_git st of None \<Rightarrow> st | Some _ \<Rightarrow> st\<lparr>gs_collector := push_trigger ev (gs_collector st)\<rparr>)"

definition clear_trigger_state_after_commit :: "(rstr list \<Rightarrow> rstr list) \<Rightarrow> nat \<Rightarrow> 'g git_server \<Rightarrow> 'g git_server" where
  "clear_trigger_state_after_commit ho now st =
     st\<lparr>gs_collector := snd (take_commit_context_at ho now (tracked_changed_files (gs_collector st)) (gs_collector st))\<rparr>"

definition run_triggered_auto_commit ::
  "'g git_env \<Rightarrow> (rstr list \<Rightarrow> rstr list) \<Rightarrow> nat \<Rightarrow> uuid \<Rightarrow> timestamp \<Rightarrow> 'g git_server \<Rightarrow>
   ((rstr, uuid option) result \<times> 'g git_server) option" where
  "run_triggered_auto_commit E ho now job_id wall st =
     (case gs_git st of
        None \<Rightarrow> Some (Okay None, st)
      | Some g \<Rightarrow>
          if gt_policy g = PolicyDisabled then Some (Okay None, st)
          else
            let c = gs_collector st in
            if \<not> should_commit now c then Some (Okay None, st)
            else
              let files = tracked_changed_files c in
              if files = [] then Some (Okay None, st)
              else case take_commit_context_at ho now files c of
                (None, c1) \<Rightarrow> Some (Okay None, st\<lparr>gs_collector := c1\<rparr>)
              | (Some ctx, c1) \<Rightarrow>
                  let st1 = st\<lparr>gs_collector := c1\<rparr>;
                      trigger_type = Some (trigger_kind (cc_trigger ctx));
                      action = (if gt_policy g = PolicyManual then Commit (generate_message ctx) trigger_type
                                else CommitAndPush (generate_message ctx) trigger_type)
                  in (case git_sync E g action job_id wall (gs_world st1) of
                        None \<Rightarrow> None
                      | Some (r, g1, w1) \<Rightarrow>
                          Some (map_sum id Some r, st1\<lparr>gs_git := Some g1, gs_world := w1\<rparr>)))"

text \<open>A timer wakes up: it commits only when no later change replaced its epoch.\<close>

definition timer_fires ::
  "'g git_env \<Rightarrow> (rstr list \<Rightarrow> rstr list) \<Rightarrow> nat \<Rightarrow> uuid \<Rightarrow> timestamp \<Rightarrow> nat \<times> nat \<Rightarrow> 'g git_server \<Rightarrow>
   ((rstr, uuid option) result \<times> 'g git_server) option" where
  "timer_fires E ho now job_id wall timer st =
     (let st1 = st\<lparr>gs_timers := remove1 timer (gs_timers st)\<rparr> in
      if gs_epoch st1 \<noteq> snd timer then Some (Okay None, st1)
      else run_triggered_auto_commit E ho now job_id wall st1)"

text \<open>The prefixes under which an update resolves a comment thread.\<close>

definition resolved_thread :: "rstr \<Rightarrow> rstr option" where
  "resolved_thread client_update_id =
     (case strip_prefix (lit ''comment.resolve:'') client_update_id of
        Some t \<Rightarrow> Some t
      | None \<Rightarrow>
     (case strip_prefix (lit ''comment_resolved:'') client_update_id of
        Some t \<Rightarrow> Some t
      | None \<Rightarrow> strip_prefix (lit ''comment:resolve:'') client_update_id))"

text \<open>The automatic commit it spawns at the end is a further step of the server.\<close>

definition maybe_enqueue_comment_resolved_trigger ::
  "nat \<Rightarrow> rstr \<Rightarrow> rstr \<Rightarrow> rstr \<Rightarrow> rstr option \<Rightarrow> 'g git_server \<Rightarrow> bool \<times> 'g git_server" where
  "maybe_enqueue_comment_resolved_trigger now client_update_id doc_path section_id agent_id st =
     (case gs_git st of
        None \<Rightarrow> (False, st)
      | Some _ \<Rightarrow>
          (case resolved_thread client_update_id of
             None \<Rightarrow> (False, st)
           | Some t \<Rightarrow>
               if trim t = [] then (False, st)
               else
                 let agent = (case agent_id of Some a \<Rightarrow> if trim a = [] then gs_agent st else trim a | None \<Rightarrow> gs_agent st);
                     st1 = enqueue_git_trigger (CommentResolved agent doc_path (trim t)) st
                 in (True, if trim section_id = [] then st1 else register_git_change now doc_path st1)))"

section \<open>Handlers\<close>

datatype rpc_error = InternalRpcError rstr | InvalidParams rstr

definition git_not_configured :: rpc_error where
  "git_not_configured = InternalRpcError (lit ''git not configured'')"

record git_status_info =
  si_dirty :: bool
  si_status_output :: rstr
  si_policy :: git_sync_policy
  si_ai_configured :: bool
  si_last_sync_at :: "timestamp option"

definition handle_git_status :: "'g git_env \<Rightarrow> 'g git_server \<Rightarrow> (rpc_error, git_status_info) result \<times> 'g git_server" where
  "handle_git_status E st =
     (case gs_git st of
        None \<Rightarrow> (Err git_not_configured, st)
      | Some g \<Rightarrow>
          (case git_status E (gs_world st) of
             (Inl e, w1) \<Rightarrow>
               (Err (InternalRpcError (lit ''git status failed: '' @ worker_error_text E e)), st\<lparr>gs_world := w1\<rparr>)
           | (Inr out, w1) \<Rightarrow>
               (Okay \<lparr>si_dirty = (trim (go_stdout out) \<noteq> []), si_status_output = go_stdout out, si_policy = gt_policy g,
                      si_ai_configured = (gt_ai_enabled g \<and> gt_ai_configured g), si_last_sync_at = gt_last_sync_at g\<rparr>,
                st\<lparr>gs_world := w1\<rparr>)))"

text \<open>
  \<open>git.sync\<close> awaits git, so that it has three parts: up to the call of git, the call, and what
  follows it. Other tasks run before and after the call; \<open>before\<close> and \<open>after\<close> are what they do.
\<close>

definition git_sync_begin ::
  "git_sync_action option option \<Rightarrow> 'g git_server \<Rightarrow> (rpc_error, git_sync_action) result \<times> 'g git_server" where
  "git_sync_begin params st =
     (case gs_git st of
        None \<Rightarrow> (Err git_not_configured, st)
      | Some g \<Rightarrow>
          (case params of
             None \<Rightarrow> (Err (InvalidParams (lit ''git.sync requires params'')), st)
           | Some None \<Rightarrow> (Err (InvalidParams (lit ''failed to decode git.sync params'')), st)
           | Some (Some action) \<Rightarrow>
               (Okay (with_trigger_type (lit ''checkpoint'') action),
                enqueue_git_trigger (ExplicitCheckpoint (gs_agent st) (Some (action_message action))) st)))"

definition git_sync_run ::
  "'g git_env \<Rightarrow> uuid \<Rightarrow> timestamp \<Rightarrow> git_sync_action \<Rightarrow> 'g git_server \<Rightarrow> ((rstr, uuid) result \<times> 'g git_server) option" where
  "git_sync_run E job_id wall action st =
     (case gs_git st of
        None \<Rightarrow> None
      | Some g \<Rightarrow> map_option (\<lambda>(r, g1, w1). (r, st\<lparr>gs_git := Some g1, gs_world := w1\<rparr>)) (git_sync E g action job_id wall (gs_world st)))"

definition git_sync_end ::
  "(rstr list \<Rightarrow> rstr list) \<Rightarrow> nat \<Rightarrow> (rstr, uuid) result \<Rightarrow> 'g git_server \<Rightarrow> (rpc_error, uuid) result \<times> 'g git_server" where
  "git_sync_end ho now r st =
     (case r of
        Inr j \<Rightarrow> (Okay j, clear_trigger_state_after_commit ho now st)
      | Inl e \<Rightarrow> (Err (InternalRpcError (lit ''git sync failed: '' @ e)), st))"

definition handle_git_sync ::
  "'g git_env \<Rightarrow> (rstr list \<Rightarrow> rstr list) \<Rightarrow> nat \<Rightarrow> uuid \<Rightarrow> timestamp \<Rightarrow> ('g git_server \<Rightarrow> 'g git_server) \<Rightarrow>
   ('g git_server \<Rightarrow> 'g git_server) \<Rightarrow> git_sync_action option option \<Rightarrow> 'g git_server \<Rightarrow>
   ((rpc_error, uuid) result \<times> 'g git_server) option" where
  "handle_git_sync E ho now job_id wall before after params st =
     (case git_sync_begin params st of
        (Inl e, st1) \<Rightarrow> Some (Err e, st1)
      | (Inr action, st1) \<Rightarrow>
          map_option (\<lambda>(r, st2). git_sync_end ho now r (after st2)) (git_sync_run E job_id wall action (before st1)))"

definition handle_git_configure ::
  "git_sync_policy option option \<Rightarrow> 'g git_server \<Rightarrow> (rpc_error, git_sync_policy) result \<times> 'g git_server" where
  "handle_git_configure params st =
     (case gs_git st of
        None \<Rightarrow> (Err git_not_configured, st)
      | Some g \<Rightarrow>
          (case params of
             None \<Rightarrow> (Err (InvalidParams (lit ''git.configure requires params'')), st)
           | Some None \<Rightarrow> (Err (InvalidParams (lit ''failed to decode git.configure params'')), st)
           | Some (Some policy) \<Rightarrow> (Okay policy, st\<lparr>gs_git := Some (g\<lparr>gt_policy := policy\<rparr>)\<rparr>)))"

section \<open>Runs of the server\<close>

datatype git_op =
    GitChange rstr
  | GitTrigger trigger_event
  | GitTimer "nat \<times> nat"
  | GitAuto
  | GitSyncBegin git_sync_action
  | GitSyncRun git_sync_action
  | GitSyncEnd "(rstr, uuid) result"
  | GitConfigure git_sync_policy

text \<open>
  One step at time \<open>now\<close>. The three parts of \<open>git.sync\<close> are steps of their own, so that other
  steps come between them. The automatic commit empties the collector before it calls git and
  does not touch it afterwards, so that what happens during the call is the same as after it. A
  panic ends the task that committed; the collector had been emptied before.
\<close>

fun git_step ::
  "'g git_env \<Rightarrow> (rstr list \<Rightarrow> rstr list) \<Rightarrow> 'g git_server \<times> nat \<Rightarrow> nat \<times> git_op \<Rightarrow> 'g git_server \<times> nat" where
  "git_step E ho (st, clock) (now, GitChange path) = (register_git_change now path st, now)"
| "git_step E ho (st, clock) (now, GitTrigger ev) = (enqueue_git_trigger ev st, now)"
| "git_step E ho (st, clock) (now, GitTimer timer) =
     (case timer_fires E ho now 0 0 timer st of
        Some (_, st1) \<Rightarrow> st1
      | None \<Rightarrow> clear_trigger_state_after_commit ho now (st\<lparr>gs_timers := remove1 timer (gs_timers st)\<rparr>), now)"
| "git_step E ho (st, clock) (now, GitAuto) =
     (case run_triggered_auto_commit E ho now 0 0 st of
        Some (_, st1) \<Rightarrow> st1
      | None \<Rightarrow> clear_trigger_state_after_commit ho now st, now)"
| "git_step E ho (st, clock) (now, GitSyncBegin action) = (snd (git_sync_begin (Some (Some action)) st), now)"
| "git_step E ho (st, clock) (now, GitSyncRun action) =
     (case git_sync_run E 0 0 action st of Some (_, st1) \<Rightarrow> st1 | None \<Rightarrow> st, now)"
| "git_step E ho (st, clock) (now, GitSyncEnd r) = (snd (git_sync_end ho now r st), now)"
| "git_step E ho (st, clock) (now, GitConfigure policy) = (snd (handle_git_configure (Some (Some policy)) st), now)"

text \<open>
  Time does not go back, a timer wakes up when it exists and its time has come, and the policy is
  not set to \<open>disabled\<close>. The parts of \<open>git.sync\<close> may come in any number and order.
\<close>

fun git_ok :: "'g git_server \<times> nat \<Rightarrow> nat \<times> git_op \<Rightarrow> bool" where
  "git_ok (st, clock) (now, GitTimer timer) \<longleftrightarrow> clock \<le> now \<and> timer \<in> set (gs_timers st) \<and> fst timer \<le> now"
| "git_ok (st, clock) (now, GitConfigure policy) \<longleftrightarrow> clock \<le> now \<and> policy \<noteq> PolicyDisabled"
| "git_ok (st, clock) (now, op) \<longleftrightarrow> clock \<le> now"

fun git_inv :: "'g git_server \<times> nat \<Rightarrow> bool" where
  "git_inv (st, clock) \<longleftrightarrow>
     (\<exists>g. gs_git st = Some g \<and> gt_policy g \<noteq> PolicyDisabled) \<and>
     collector_inv (gs_collector st) \<and>
     min_commit_interval (tc_config (gs_collector st)) \<le> idle_fallback_timeout (tc_config (gs_collector st)) \<and>
     (\<forall>t. last_commit_at (gs_collector st) = Some t \<longrightarrow> t \<le> clock) \<and>
     (\<forall>e. last_edit_at (gs_collector st) = Some e \<longrightarrow>
        e \<le> clock \<and> (e + idle_fallback_timeout (tc_config (gs_collector st)), gs_epoch st) \<in> set (gs_timers st)) \<and>
     distinct (map snd (gs_timers st)) \<and> (\<forall>timer \<in> set (gs_timers st). snd timer \<le> gs_epoch st)"

definition git_start :: "git_state \<Rightarrow> trigger_config \<Rightarrow> rstr \<Rightarrow> 'g \<Rightarrow> 'g git_server \<times> nat" where
  "git_start g cfg agent w =
     (\<lparr>gs_git = Some g, gs_collector = collector_new cfg, gs_epoch = 0, gs_timers = [], gs_agent = agent, gs_world = w\<rparr>, 0)"

lemma take_config [simp]: "tc_config (snd (take_commit_context_at ho now fs c)) = tc_config c"
  by (simp add: take_commit_context_at_def Let_def)

lemma take_clears:
  "collector_inv c \<Longrightarrow> changed_paths (snd (take_commit_context_at ho now fs c)) = [] \<and>
   last_edit_at (snd (take_commit_context_at ho now fs c)) = None \<and>
   pending_triggers (snd (take_commit_context_at ho now fs c)) = []"
  by (auto simp: take_commit_context_at_def Let_def collector_inv_def)

lemma take_last_commit:
  "last_commit_at (snd (take_commit_context_at ho now fs c)) \<in> {Some now, last_commit_at c}"
  by (simp add: take_commit_context_at_def Let_def)

lemma git_sync_policy: "git_sync E g action job_id wall w = Some (r, g1, w1) \<Longrightarrow> gt_policy g1 = gt_policy g"
  by (auto simp: git_sync_def Let_def split: option.splits sum.splits prod.splits if_splits)

text \<open>Emptying the collector keeps the invariant, whatever else of the server changes.\<close>

lemma git_inv_cleared:
  assumes "git_inv (st, clock)" "clock \<le> now" "gs_git st1 = Some g" "gt_policy g \<noteq> PolicyDisabled"
    and "gs_collector st1 = snd (take_commit_context_at ho now fs (gs_collector st))"
    and "gs_epoch st1 = gs_epoch st" "set (gs_timers st1) \<subseteq> set (gs_timers st)" "distinct (map snd (gs_timers st1))"
  shows "git_inv (st1, now)"
proof -
  have inv: "collector_inv (gs_collector st)" using assms(1) by simp
  note cl = take_clears [OF inv, of ho now fs] and ci = collector_inv_take [OF inv, of ho now fs]
  have "t \<le> now" if t: "last_commit_at (gs_collector st1) = Some t" for t
  proof -
    have "t = now \<or> last_commit_at (gs_collector st) = Some t"
      using take_last_commit [of ho now fs "gs_collector st"] t assms(5) by auto
    moreover have "last_commit_at (gs_collector st) = Some t \<Longrightarrow> t \<le> clock" using assms(1) by auto
    ultimately show ?thesis using assms(2) by auto
  qed
  then show ?thesis using assms cl ci by auto
qed

lemma git_inv_later:
  assumes "git_inv (st, clock)" "clock \<le> now"
  shows "git_inv (st, now)"
  using assms by auto

lemma distinct_remove1_snd: "distinct (map snd timers) \<Longrightarrow> distinct (map snd (remove1 timer timers))"
  by (metis distinct_remove1 distinct_map inj_on_subset set_remove1_subset)

text \<open>What the automatic commit does to the server, when the policy allows one.\<close>

lemma auto_commit_cases:
  assumes "gs_git st = Some g" "gt_policy g \<noteq> PolicyDisabled"
  obtains (idle) "run_triggered_auto_commit E ho now job_id wall st = Some (Okay None, st)"
      "\<not> should_commit now (gs_collector st) \<or> changed_paths (gs_collector st) = []"
  | (commit) ctx c1 action where "should_commit now (gs_collector st)" "changed_paths (gs_collector st) \<noteq> []"
      "take_commit_context_at ho now (tracked_changed_files (gs_collector st)) (gs_collector st) = (Some ctx, c1)"
      "cc_changed_files ctx = tracked_changed_files (gs_collector st)" "action_message action = generate_message ctx"
      "run_triggered_auto_commit E ho now job_id wall st =
        (case git_sync E g action job_id wall (gs_world st) of
           None \<Rightarrow> None
         | Some (r, g1, w1) \<Rightarrow> Some (map_sum id Some r, st\<lparr>gs_collector := c1, gs_git := Some g1, gs_world := w1\<rparr>))"
proof (cases "should_commit now (gs_collector st) \<and> changed_paths (gs_collector st) \<noteq> []")
  case True
  then obtain ctx c1 where take: "take_commit_context_at ho now (tracked_changed_files (gs_collector st)) (gs_collector st) = (Some ctx, c1)"
    and files: "cc_changed_files ctx = tracked_changed_files (gs_collector st)"
    by (cases "pending_triggers (gs_collector st) = []") (auto simp: take_commit_context_at_def Let_def)
  let ?action = "(if gt_policy g = PolicyManual then Commit else CommitAndPush) (generate_message ctx) (Some (trigger_kind (cc_trigger ctx)))"
  show thesis
    using commit [OF _ _ take files, of ?action] True assms take
    by (simp add: run_triggered_auto_commit_def Let_def)
next
  case False
  then show thesis using idle assms by (auto simp: run_triggered_auto_commit_def Let_def)
qed

lemma auto_commit_inv:
  assumes inv: "git_inv (st, clock)" and "clock \<le> now"
  shows "git_inv (case run_triggered_auto_commit E ho now job_id wall st of
      Some (_, st1) \<Rightarrow> st1 | None \<Rightarrow> clear_trigger_state_after_commit ho now st, now)"
proof -
  obtain g where g: "gs_git st = Some g" "gt_policy g \<noteq> PolicyDisabled" using inv by auto
  have d: "distinct (map snd (gs_timers st))" using inv by simp
  from g show ?thesis
  proof (cases rule: auto_commit_cases [where E = E and ho = ho and now = now and job_id = job_id and wall = wall])
    case idle
    then show ?thesis using git_inv_later [OF inv assms(2)] by simp
  next
    case (commit ctx c1 action)
    have c1: "c1 = snd (take_commit_context_at ho now (tracked_changed_files (gs_collector st)) (gs_collector st))"
      using commit(3) by simp
    show ?thesis
    proof (cases "git_sync E g action job_id wall (gs_world st)")
      case None
      then show ?thesis
        using commit(6) g d git_inv_cleared [OF inv assms(2), of "clear_trigger_state_after_commit ho now st" g ho
            "tracked_changed_files (gs_collector st)"]
        by (simp add: clear_trigger_state_after_commit_def)
    next
      case (Some x)
      obtain r g1 w1 where x: "x = (r, g1, w1)" by (cases x)
      have "gt_policy g1 \<noteq> PolicyDisabled" using git_sync_policy [of E g action job_id wall "gs_world st" r g1 w1] Some x g(2) by simp
      then show ?thesis
        using commit(6) Some x d c1 git_inv_cleared [OF inv assms(2), of "st\<lparr>gs_collector := c1, gs_git := Some g1, gs_world := w1\<rparr>" g1 ho
            "tracked_changed_files (gs_collector st)"]
        by simp
    qed
  qed
qed

text \<open>A timer of an earlier epoch takes nothing away from the current one.\<close>

lemma old_timer_inv:
  assumes "git_inv (st, clock)" "clock \<le> now" "snd timer \<noteq> gs_epoch st"
  shows "git_inv (st\<lparr>gs_timers := remove1 timer (gs_timers st)\<rparr>, now)"
proof -
  have keep: "x \<in> set (remove1 timer (gs_timers st))" if "x \<in> set (gs_timers st)" "snd x = gs_epoch st" for x
    using that assms(3) by (metis in_set_remove1)
  show ?thesis
    using assms keep distinct_remove1_snd [of "gs_timers st" timer] set_remove1_subset [of timer "gs_timers st"] by auto
qed

lemma current_timer_inv:
  assumes inv: "git_inv (st, clock)" and "clock \<le> now" and timer: "timer \<in> set (gs_timers st)" "snd timer = gs_epoch st" "fst timer \<le> now"
  shows "git_inv (case timer_fires E ho now 0 0 timer st of
      Some (_, st1) \<Rightarrow> st1
    | None \<Rightarrow> clear_trigger_state_after_commit ho now (st\<lparr>gs_timers := remove1 timer (gs_timers st)\<rparr>), now)"
proof -
  let ?st = "st\<lparr>gs_timers := remove1 timer (gs_timers st)\<rparr>" and ?c = "gs_collector st"
  obtain g where g: "gs_git st = Some g" "gt_policy g \<noteq> PolicyDisabled" using inv by auto
  have d: "distinct (map snd (gs_timers ?st))" using inv distinct_remove1_snd [of "gs_timers st" timer] by auto
  have sub: "set (gs_timers ?st) \<subseteq> set (gs_timers st)" by (simp add: set_remove1_subset)
  show ?thesis
  proof (cases "last_edit_at ?c")
    case None
    then have e: "changed_paths ?c = []" using inv by (auto simp: collector_inv_def)
    have "run_triggered_auto_commit E ho now 0 0 ?st = Some (Okay None, ?st)"
      using g e by (simp add: run_triggered_auto_commit_def Let_def)
    moreover have "git_inv (?st, now)" using inv assms(2) None d sub by auto
    ultimately show ?thesis using timer(2) by (simp add: timer_fires_def)
  next
    case (Some e)
    have ne: "changed_paths ?c \<noteq> []" using inv Some by (auto simp: collector_inv_def)
    have "(e + idle_fallback_timeout (tc_config ?c), gs_epoch st) \<in> set (gs_timers st)" using inv Some by auto
    then have "timer = (e + idle_fallback_timeout (tc_config ?c), gs_epoch st)"
      using timer(1,2) inv by (auto simp: distinct_map inj_on_def)
    then have due: "should_commit now ?c"
      using idle_commit_due [of ?c e now] inv Some ne timer(3) by simp
    have g': "gs_git ?st = Some g" using g by simp
    from g' g(2) show ?thesis
    proof (cases rule: auto_commit_cases [where E = E and ho = ho and now = now and job_id = 0 and wall = 0])
      case idle
      then show ?thesis using due ne by simp
    next
      case (commit ctx c1 action)
      have c1: "c1 = snd (take_commit_context_at ho now (tracked_changed_files ?c) ?c)" using commit(3) by simp
      show ?thesis
      proof (cases "git_sync E g action 0 0 (gs_world st)")
        case None
        then show ?thesis
          using commit(6) g d sub timer(2) git_inv_cleared [OF inv assms(2), of "clear_trigger_state_after_commit ho now ?st" g ho
              "tracked_changed_files ?c"]
          by (simp add: clear_trigger_state_after_commit_def timer_fires_def)
      next
        case (Some x)
        obtain r g1 w1 where x: "x = (r, g1, w1)" by (cases x)
        have "gt_policy g1 \<noteq> PolicyDisabled" using git_sync_policy [of E g action 0 0 "gs_world st" r g1 w1] Some x g(2) by simp
        then show ?thesis
          using commit(6) Some x d c1 sub timer(2)
            git_inv_cleared [OF inv assms(2), of "?st\<lparr>gs_collector := c1, gs_git := Some g1, gs_world := w1\<rparr>" g1 ho
              "tracked_changed_files ?c"]
          by (simp add: timer_fires_def)
      qed
    qed
  qed
qed

lemma change_inv:
  assumes inv: "git_inv (st, clock)" and "clock \<le> now"
  shows "git_inv (register_git_change now path st, now)"
proof -
  obtain g where g: "gs_git st = Some g" "gt_policy g \<noteq> PolicyDisabled" using inv by auto
  have "collector_inv (mark_changed_at p now (gs_collector st))" for p
    using inv assms(2) by (intro collector_inv_mark) auto
  moreover have "gs_epoch st + 1 \<notin> snd ` set (gs_timers st)" using inv by fastforce
  ultimately show ?thesis
    using inv assms(2) g
    by (fastforce simp: register_git_change_def schedule_idle_fallback_commit_def mark_changed_at_def Let_def)
qed

lemma trigger_inv:
  assumes "git_inv (st, clock)" "clock \<le> now"
  shows "git_inv (enqueue_git_trigger ev st, now)"
proof -
  have "collector_inv (push_trigger ev (gs_collector st))" using assms(1) by simp
  moreover have "git_inv (st, now)" using git_inv_later [OF assms] .
  ultimately show ?thesis by (cases "gs_git st") (simp_all add: enqueue_git_trigger_def push_trigger_def)
qed

lemma sync_begin_inv:
  assumes "git_inv (st, clock)" "clock \<le> now"
  shows "git_inv (snd (git_sync_begin (Some (Some action)) st), now)"
proof -
  obtain g where "gs_git st = Some g" using assms(1) by auto
  then show ?thesis using trigger_inv [OF assms] by (simp add: git_sync_begin_def)
qed

lemma sync_run_inv:
  assumes inv: "git_inv (st, clock)" and "clock \<le> now"
  shows "git_inv (case git_sync_run E job_id wall action st of Some (_, st1) \<Rightarrow> st1 | None \<Rightarrow> st, now)"
proof -
  obtain g where g: "gs_git st = Some g" "gt_policy g \<noteq> PolicyDisabled" using inv by auto
  have "gt_policy g1 \<noteq> PolicyDisabled" if "git_sync E g action job_id wall (gs_world st) = Some (r, g1, w1)" for r g1 w1
    using git_sync_policy [OF that] g(2) by simp
  then show ?thesis using inv assms(2) g(1) by (auto simp: git_sync_run_def split: option.split)
qed

lemma sync_end_inv:
  assumes inv: "git_inv (st, clock)" and "clock \<le> now"
  shows "git_inv (snd (git_sync_end ho now r st), now)"
proof (cases r)
  case (Inl e)
  then show ?thesis using git_inv_later [OF assms] by (simp add: git_sync_end_def)
next
  case (Inr j)
  obtain g where g: "gs_git st = Some g" "gt_policy g \<noteq> PolicyDisabled" using inv by auto
  have "distinct (map snd (gs_timers st))" using inv by simp
  then have "git_inv (clear_trigger_state_after_commit ho now st, now)"
    using git_inv_cleared [OF assms, of "clear_trigger_state_after_commit ho now st" g ho "tracked_changed_files (gs_collector st)"] g
    by (simp add: clear_trigger_state_after_commit_def)
  then show ?thesis using Inr by (simp add: git_sync_end_def)
qed

lemma configure_inv:
  assumes "git_inv (st, clock)" "clock \<le> now" "policy \<noteq> PolicyDisabled"
  shows "git_inv (snd (handle_git_configure (Some (Some policy)) st), now)"
proof -
  obtain g where "gs_git st = Some g" using assms(1) by auto
  moreover have "git_inv (st, now)" by (rule git_inv_later [OF assms(1,2)])
  ultimately show ?thesis using assms(3) by (simp add: handle_git_configure_def)
qed

lemma git_step_inv:
  assumes "git_inv s" "git_ok s x"
  shows "git_inv (git_step E ho s x)"
proof -
  obtain st clock where s: "s = (st, clock)" by (cases s)
  obtain now op where x: "x = (now, op)" by (cases x)
  have inv: "git_inv (st, clock)" and le: "clock \<le> now" using assms s x by (cases op; simp)+
  show ?thesis
  proof (cases op)
    case (GitTimer timer)
    have t: "timer \<in> set (gs_timers st)" "fst timer \<le> now" using assms s x GitTimer by auto
    show ?thesis
    proof (cases "snd timer = gs_epoch st")
      case True
      show ?thesis unfolding s x GitTimer git_step.simps using current_timer_inv [OF inv le t(1) True t(2)] .
    next
      case False
      then show ?thesis
        using old_timer_inv [OF inv le False] by (auto simp: s x GitTimer timer_fires_def)
    qed
  next
    case GitAuto
    show ?thesis unfolding s x GitAuto git_step.simps using auto_commit_inv [OF inv le] .
  next
    case (GitSyncBegin action)
    show ?thesis unfolding s x GitSyncBegin git_step.simps using sync_begin_inv [OF inv le] .
  next
    case (GitSyncRun action)
    show ?thesis unfolding s x GitSyncRun git_step.simps using sync_run_inv [OF inv le] .
  next
    case (GitSyncEnd r)
    show ?thesis unfolding s x GitSyncEnd git_step.simps using sync_end_inv [OF inv le] .
  next
    case (GitConfigure policy)
    then have "policy \<noteq> PolicyDisabled" using assms(2) s x by simp
    then show ?thesis unfolding s x GitConfigure git_step.simps by (rule configure_inv [OF inv le])
  next
    case (GitChange path)
    show ?thesis unfolding s x GitChange git_step.simps using change_inv [OF inv le] .
  next
    case (GitTrigger ev)
    show ?thesis unfolding s x GitTrigger git_step.simps using trigger_inv [OF inv le] .
  qed
qed

interpretation git_server: inv_system "git_step E ho" git_ok git_inv
  for E :: "'g git_env" and ho
  by unfold_locales (rule git_step_inv)

lemma git_inv_start:
  "gt_policy g \<noteq> PolicyDisabled \<Longrightarrow> min_commit_interval cfg \<le> idle_fallback_timeout cfg \<Longrightarrow> git_inv (git_start g cfg agent w)"
  by (simp add: git_start_def collector_inv_new) (simp add: collector_new_def)

text \<open>
  (C24) A change that the server has in its collector is committed within the idle timeout. Take
  any run of the server in which the policy is never \<open>disabled\<close> and whose configuration has a
  commit interval no longer than the idle timeout, as the default has: whatever edits, triggers,
  timers, automatic commits, reconfigurations and interleaved parts of \<open>git.sync\<close> came before and
  however they ended, a document in the collector has a timer of the current epoch that wakes up
  at most the idle timeout from now; and when it wakes up, late or not, if nothing else happened,
  the server takes a commit context that lists the document, calls git with its message, and the
  collector is empty afterwards. Two ways in which a change gets out of the collector without a
  commit, or stays there without a timer, are \<open>sync_forgets_edit\<close> and
  \<open>disabled_policy_strands_change\<close> below.
\<close>

theorem change_reaches_commit:
  assumes "gt_policy g0 \<noteq> PolicyDisabled" "min_commit_interval cfg \<le> idle_fallback_timeout cfg"
    and ok: "run_ok (git_step E ho) git_ok (git_start g0 cfg agent w0) ops"
    and run: "foldl (git_step E ho) (git_start g0 cfg agent w0) ops = (st, clock)"
    and path: "path \<in> set (changed_paths (gs_collector st))"
  shows "\<exists>timer \<in> set (gs_timers st). snd timer = gs_epoch st \<and>
    fst timer \<le> clock + idle_fallback_timeout (tc_config (gs_collector st)) \<and>
    (\<forall>now \<ge> max clock (fst timer). \<exists>g ctx action c1.
       gs_git st = Some g \<and>
       take_commit_context_at ho now (tracked_changed_files (gs_collector st)) (gs_collector st) = (Some ctx, c1) \<and>
       path \<in> cf_path ` set (cc_changed_files ctx) \<and> action_message action = generate_message ctx \<and>
       changed_paths c1 = [] \<and> pending_triggers c1 = [] \<and>
       timer_fires E ho now job_id wall timer st =
         (case git_sync E g action job_id wall (gs_world st) of
            None \<Rightarrow> None
          | Some (r, g1, w1) \<Rightarrow>
              Some (map_sum id Some r,
                st\<lparr>gs_timers := remove1 timer (gs_timers st), gs_collector := c1, gs_git := Some g1, gs_world := w1\<rparr>)))"
proof -
  let ?c = "gs_collector st"
  have inv: "git_inv (st, clock)"
    using git_server.inv_run [OF git_inv_start [OF assms(1,2)] ok] run by simp
  obtain g where g: "gs_git st = Some g" "gt_policy g \<noteq> PolicyDisabled" using inv by auto
  have cinv: "collector_inv ?c" and ne: "changed_paths ?c \<noteq> []" using inv path by auto
  obtain e where e: "last_edit_at ?c = Some e" using cinv ne by (auto simp: collector_inv_def)
  define timer where "timer = (e + idle_fallback_timeout (tc_config ?c), gs_epoch st)"
  have t: "timer \<in> set (gs_timers st)" "e \<le> clock" using inv e by (auto simp: timer_def)
  have fires: "\<exists>ctx action c1.
       take_commit_context_at ho now (tracked_changed_files ?c) ?c = (Some ctx, c1) \<and>
       path \<in> cf_path ` set (cc_changed_files ctx) \<and> action_message action = generate_message ctx \<and>
       changed_paths c1 = [] \<and> pending_triggers c1 = [] \<and>
       timer_fires E ho now job_id wall timer st =
         (case git_sync E g action job_id wall (gs_world st) of
            None \<Rightarrow> None
          | Some (r, g1, w1) \<Rightarrow>
              Some (map_sum id Some r,
                st\<lparr>gs_timers := remove1 timer (gs_timers st), gs_collector := c1, gs_git := Some g1, gs_world := w1\<rparr>))"
    if now: "max clock (fst timer) \<le> now" for now
  proof -
    let ?st = "st\<lparr>gs_timers := remove1 timer (gs_timers st)\<rparr>"
    have due: "should_commit now ?c" using idle_commit_due [OF cinv ne e] inv now by (simp add: timer_def)
    have "gs_git ?st = Some g" using g by simp
    from this g(2) show ?thesis
    proof (cases rule: auto_commit_cases [where E = E and ho = ho and now = now and job_id = job_id and wall = wall])
      case idle
      then show ?thesis using due ne by simp
    next
      case (commit ctx c1 action)
      have "path \<in> cf_path ` set (cc_changed_files ctx)" using commit(4) path tracked_paths [of ?c] by simp
      moreover have "changed_paths c1 = []" "pending_triggers c1 = []"
        using take_clears [OF cinv, of ho now "tracked_changed_files ?c"] commit(3) by simp_all
      ultimately show ?thesis using commit(3,5,6) by (auto simp: timer_fires_def timer_def)
    qed
  qed
  have "fst timer \<le> clock + idle_fallback_timeout (tc_config ?c)" using t(2) by (simp add: timer_def)
  moreover have "snd timer = gs_epoch st" by (simp add: timer_def)
  ultimately show ?thesis using t(1) g(1) fires by blast
qed

definition quiet_env :: "unit git_env" where
  "quiet_env =
     \<lparr>exec = \<lambda>args w. (Okay \<lparr>cr_success = True, cr_code = Some 0, cr_stdout = [], cr_stderr = []\<rparr>, w),
      ai_generate = \<lambda>system prompt w. (Err AiDisabled, w), redaction_rules = [], show_code = \<lambda>_. []\<rparr>"

definition manual_git :: git_state where
  "manual_git = \<lparr>gt_policy = PolicyManual, gt_last_sync_at = None, gt_ai_enabled = False, gt_ai_configured = False, gt_redaction = Disabled\<rparr>"

theorem change_reaches_commit_witness:
  "\<exists>timer \<in> set (gs_timers (fst (git_step quiet_env id (git_start manual_git trigger_config_default [] ()) (5, GitChange [97])))). snd timer = 1"
proof -
  let ?s = "git_start manual_git trigger_config_default [] ()" and ?op = "(5, GitChange [97])"
  let ?s1 = "git_step quiet_env id ?s ?op"
  have eq: "?s1 = (fst ?s1, snd ?s1)" by simp
  have w: "is_whitespace 97 = False" by code_simp
  have "gt_policy manual_git \<noteq> PolicyDisabled" by (simp add: manual_git_def)
  moreover have "min_commit_interval trigger_config_default \<le> idle_fallback_timeout trigger_config_default"
    by (simp add: trigger_config_default_def)
  moreover have "run_ok (git_step quiet_env id) git_ok ?s [?op]" by (simp add: git_start_def)
  moreover have "foldl (git_step quiet_env id) ?s [?op] = (fst ?s1, snd ?s1)" by simp
  moreover have "[97] \<in> set (changed_paths (gs_collector (fst ?s1)))"
    by (simp add: git_start_def register_git_change_def schedule_idle_fallback_commit_def trim_def trim_start_def trim_end_def w Let_def
        mark_changed_at_def collector_new_def)
  ultimately have "\<exists>timer \<in> set (gs_timers (fst ?s1)). snd timer = gs_epoch (fst ?s1)"
    using change_reaches_commit [where E = quiet_env and ho = id and ops = "[?op]" and agent = "[]" and ?w0.0 = "()"
        and job_id = 0 and wall = 0] by blast
  moreover have "gs_epoch (fst ?s1) = 1"
    by (simp add: git_start_def register_git_change_def schedule_idle_fallback_commit_def trim_def trim_start_def trim_end_def w Let_def)
  ultimately show ?thesis by simp
qed

text \<open>
  A commit that fails is forgotten: the automatic commit empties the collector before it
  calls git, so that when git, the push or the staging fails the changed documents and the
  triggers are gone, no timer is armed again, and no later time is a time to commit until
  somebody edits again.
\<close>

theorem failed_commit_forgotten:
  assumes "collector_inv (gs_collector st)"
    and failed: "run_triggered_auto_commit E ho now job_id wall st = Some (Inl e, st1)"
  shows "changed_paths (gs_collector st) \<noteq> [] \<and> changed_paths (gs_collector st1) = [] \<and> pending_triggers (gs_collector st1) = [] \<and>
    gs_timers st1 = gs_timers st \<and> gs_epoch st1 = gs_epoch st \<and> (\<forall>later. \<not> should_commit later (gs_collector st1))"
proof -
  obtain g where g: "gs_git st = Some g" "gt_policy g \<noteq> PolicyDisabled"
    using failed by (auto simp: run_triggered_auto_commit_def split: option.splits if_splits)
  from g show ?thesis
  proof (cases rule: auto_commit_cases [where E = E and ho = ho and now = now and job_id = job_id and wall = wall])
    case idle
    then show ?thesis using failed by simp
  next
    case (commit ctx c1 action)
    have "gs_collector st1 = c1" "gs_timers st1 = gs_timers st" "gs_epoch st1 = gs_epoch st"
      using failed commit(6) by (auto split: option.splits)
    moreover have "changed_paths c1 = []" "pending_triggers c1 = []"
      using take_clears [OF assms(1), of ho now "tracked_changed_files (gs_collector st)"] commit(3) by simp_all
    ultimately show ?thesis using commit(2) by (simp add: should_commit_def should_idle_fallback_commit_def)
  qed
qed

definition broken_env :: "unit git_env" where
  "broken_env = quiet_env\<lparr>exec := \<lambda>args w. (Err (lit ''No such file''), w)\<rparr>"

definition edited_server :: "unit git_server" where
  "edited_server = (fst (git_start manual_git trigger_config_default [] ()))
     \<lparr>gs_collector := mark_changed_at [97] 0 (collector_new trigger_config_default)\<rparr>"

theorem failed_commit_forgotten_witness:
  "\<exists>e st1. run_triggered_auto_commit broken_env id 30000000000 0 0 edited_server = Some (Inl e, st1) \<and>
    changed_paths (gs_collector edited_server) = [[97]] \<and> changed_paths (gs_collector st1) = []"
proof -
  let ?r = "run_triggered_auto_commit broken_env id 30000000000 0 0 edited_server"
  have "\<exists>e st1. ?r = Some (Inl e, st1)"
    by (simp add: run_triggered_auto_commit_def edited_server_def git_start_def manual_git_def should_commit_def
        should_idle_fallback_commit_def mark_changed_at_def collector_new_def trigger_config_default_def elapsed_at_least_def
        commit_interval_elapsed_def take_commit_context_at_def Let_def git_sync_def commit_with_generated_message_def
        git_add_def git_run_def broken_env_def)
  then obtain e st1 where r: "?r = Some (Inl e, st1)" by blast
  have "collector_inv (gs_collector edited_server)"
    by (simp add: edited_server_def git_start_def collector_inv_def mark_changed_at_def collector_new_def)
  then have "changed_paths (gs_collector st1) = []" using failed_commit_forgotten [OF _ r] by blast
  moreover have "changed_paths (gs_collector edited_server) = [[97]]"
    by (simp add: edited_server_def mark_changed_at_def collector_new_def)
  ultimately show ?thesis using r by blast
qed

text \<open>
  An edit during \<open>git.sync\<close> is forgotten: registered after git has staged and committed, it is
  cleared with the rest when the handler resumes, so that no later moment is one to commit it,
  until somebody edits again.
\<close>

theorem sync_forgets_edit:
  assumes "collector_inv (gs_collector st)" "\<forall>t. last_commit_at (gs_collector st) = Some t \<longrightarrow> t \<le> edited"
    and "gs_git st = Some g" "edited \<le> now" "trim path \<noteq> []"
    and "git_sync E g (with_trigger_type (lit ''checkpoint'') action) job_id wall (gs_world st) = Some (Inr j, g1, w1)"
  shows "\<exists>st'. handle_git_sync E ho now job_id wall id (register_git_change edited path) (Some (Some action)) st = Some (Okay j, st') \<and>
    trim path \<notin> set (changed_paths (gs_collector st')) \<and> (\<forall>later. \<not> should_commit later (gs_collector st'))"
proof -
  let ?st1 = "enqueue_git_trigger (ExplicitCheckpoint (gs_agent st) (Some (action_message action))) st"
  let ?st2 = "register_git_change edited path (?st1\<lparr>gs_git := Some g1, gs_world := w1\<rparr>)"
  let ?st' = "clear_trigger_state_after_commit ho now ?st2"
  have run: "handle_git_sync E ho now job_id wall id (register_git_change edited path) (Some (Some action)) st = Some (Okay j, ?st')"
    using assms(3,6) by (simp add: handle_git_sync_def git_sync_begin_def git_sync_run_def git_sync_end_def enqueue_git_trigger_def)
  have "collector_inv (push_trigger ev (gs_collector st))" for ev using assms(1) by simp
  then have "collector_inv (gs_collector ?st2)"
    using assms(2,3,5) collector_inv_mark [of "push_trigger ev (gs_collector st)" edited "trim path" for ev]
    by (auto simp: register_git_change_def schedule_idle_fallback_commit_def enqueue_git_trigger_def push_trigger_def Let_def)
  then have "changed_paths (gs_collector ?st') = []" "pending_triggers (gs_collector ?st') = []"
    using take_clears [of "gs_collector ?st2"] unfolding clear_trigger_state_after_commit_def by simp_all
  then show ?thesis using run by (simp add: should_commit_def should_idle_fallback_commit_def)
qed

text \<open>
  A change whose timer wakes up while the policy is \<open>disabled\<close> stays in the collector without a
  timer, also when the policy is then set to one that commits.
\<close>

theorem disabled_policy_strands_change:
  assumes "gs_git st = Some g" "gt_policy g = PolicyDisabled" "gs_timers st = []" "trim path \<noteq> []"
    and "st1 = register_git_change edited path st" "timer \<in> set (gs_timers st1)"
    and "timer_fires E ho now job_id wall timer st1 = Some (r, st2)"
    and "st3 = snd (handle_git_configure (Some (Some policy)) st2)"
  shows "trim path \<in> set (changed_paths (gs_collector st3)) \<and> gs_timers st3 = []"
proof -
  let ?c = "mark_changed_at (trim path) edited (gs_collector st)"
  have st1: "gs_git st1 = Some g" "gs_collector st1 = ?c" "gs_timers st1 = [timer]" "gs_epoch st1 = snd timer"
    using assms(1,3-6) by (auto simp: register_git_change_def schedule_idle_fallback_commit_def Let_def)
  then have "st2 = st1\<lparr>gs_timers := []\<rparr>"
    using assms(2,7) by (simp add: timer_fires_def run_triggered_auto_commit_def Let_def)
  then have "gs_collector st3 = ?c" "gs_timers st3 = []"
    using assms(8) st1 by (simp_all add: handle_git_configure_def)
  then show ?thesis by (simp add: mark_changed_at_def)
qed

end
