(* ===== verification/RateLimiter.thy ===== *)
theory RateLimiter
  imports Prelude
begin

text \<open>
  \<open>SlidingWindowRateLimiter\<close> of \<open>relay/src/auth/oauth.rs\<close>, which guards the start, the callback and
  the refresh endpoint. Instants and durations are nanoseconds; \<open>duration_since\<close> saturates at zero
  as the subtraction of natural numbers does.
\<close>

record rate_limiter =
  max_requests :: nat
  rl_window :: nat
  rl_requests :: "nat list"

datatype rate_limit_decision = Allowed | Limited nat

definition limiter_new :: "nat \<Rightarrow> nat \<Rightarrow> rate_limiter" where
  "limiter_new m w = \<lparr>max_requests = m, rl_window = w, rl_requests = []\<rparr>"

fun prune_old_requests :: "nat \<Rightarrow> nat \<Rightarrow> nat list \<Rightarrow> nat list" where
  "prune_old_requests now window [] = []"
| "prune_old_requests now window (entry # rest) =
     (if now - entry \<ge> window then prune_old_requests now window rest else entry # rest)"

definition limiter_check :: "nat \<Rightarrow> rate_limiter \<Rightarrow> rate_limit_decision \<times> rate_limiter" where
  "limiter_check now l =
     (let reqs = prune_old_requests now (rl_window l) (rl_requests l) in
      if length reqs \<ge> max_requests l then
        (Limited (case reqs of
             oldest # _ \<Rightarrow> max 1 ((rl_window l - (now - oldest)) div 1000000000)
           | [] \<Rightarrow> 1),
         l\<lparr>rl_requests := reqs\<rparr>)
      else (Allowed, l\<lparr>rl_requests := reqs @ [now]\<rparr>))"

section \<open>Runs\<close>

text \<open>The limiter after checks at the given times, and the times of those it allowed.\<close>

fun checks :: "nat list \<Rightarrow> rate_limiter \<times> nat list \<Rightarrow> rate_limiter \<times> nat list" where
  "checks [] s = s"
| "checks (now # instants) (l, admitted) =
     (let (d, l1) = limiter_check now l in checks instants (l1, if d = Allowed then admitted @ [now] else admitted))"

definition recent :: "nat \<Rightarrow> nat \<Rightarrow> nat list \<Rightarrow> nat list" where
  "recent now window admitted = filter (\<lambda>e. now - e < window) admitted"

lemma recent_recent [simp]: "clock \<le> now \<Longrightarrow> recent now w (recent clock w xs) = recent now w xs"
  by (induction xs) (auto simp: recent_def)

lemma prune_recent: "sorted xs \<Longrightarrow> prune_old_requests now w xs = recent now w xs"
proof (induction xs)
  case (Cons x xs)
  have "recent now w xs = xs" if "now - x < w"
    unfolding recent_def using Cons.prems that by (auto intro!: filter_True)
  then show ?case using Cons by (auto simp: recent_def not_less)
qed (simp add: recent_def)

text \<open>
  The limiter keeps the admitted times that are recent at the last check; the admitted times
  ascend and no window holds more than the maximum of them.
\<close>

definition limiter_inv :: "nat \<Rightarrow> nat \<Rightarrow> nat \<Rightarrow> rate_limiter \<times> nat list \<Rightarrow> bool" where
  "limiter_inv m w clock s \<longleftrightarrow>
     max_requests (fst s) = m \<and> rl_window (fst s) = w \<and> rl_requests (fst s) = recent clock w (snd s) \<and>
     sorted (snd s) \<and> (\<forall>e \<in> set (snd s). e \<le> clock) \<and>
     (\<forall>t. length (filter (\<lambda>e. t \<le> e \<and> e < t + w) (snd s)) \<le> m)"

lemma limiter_inv_new: "limiter_inv m w clock (limiter_new m w, [])"
  by (simp add: limiter_inv_def limiter_new_def recent_def)

lemma sorted_recent: "sorted xs \<Longrightarrow> sorted (recent now w xs)"
  by (simp add: recent_def sorted_wrt_filter)

lemma limiter_check_allowed:
  assumes "limiter_inv m w clock (l, admitted)" "clock \<le> now"
  shows "limiter_check now l =
    (if length (recent now w admitted) < m
     then (Allowed, l\<lparr>rl_requests := recent now w admitted @ [now]\<rparr>)
     else (fst (limiter_check now l), l\<lparr>rl_requests := recent now w admitted\<rparr>))"
    and "fst (limiter_check now l) = Allowed \<longleftrightarrow> length (recent now w admitted) < m"
proof -
  have "prune_old_requests now (rl_window l) (rl_requests l) = recent now w admitted"
    using assms by (simp add: limiter_inv_def prune_recent sorted_recent)
  then show "limiter_check now l =
    (if length (recent now w admitted) < m
     then (Allowed, l\<lparr>rl_requests := recent now w admitted @ [now]\<rparr>)
     else (fst (limiter_check now l), l\<lparr>rl_requests := recent now w admitted\<rparr>))"
    "fst (limiter_check now l) = Allowed \<longleftrightarrow> length (recent now w admitted) < m"
    using assms(1) by (simp_all add: limiter_inv_def limiter_check_def Let_def not_less)
qed

lemma window_snoc:
  assumes "\<forall>e \<in> set xs. e \<le> now" "length (recent now w xs) < m"
    and "length (filter (\<lambda>e. t \<le> e \<and> e < t + w) xs) \<le> m"
  shows "length (filter (\<lambda>e. t \<le> e \<and> e < t + w) (xs @ [now])) \<le> m"
proof (cases "t \<le> now \<and> now < t + w")
  case True
  have "length (filter (\<lambda>e. t \<le> e \<and> e < t + w) xs) \<le> length (recent now w xs)"
    unfolding recent_def using True
    by (induction xs) auto
  then show ?thesis using True assms(2) by simp
qed (use assms(3) in auto)

lemma limiter_inv_check:
  assumes inv: "limiter_inv m w clock (l, admitted)" and le: "clock \<le> now" and pos: "0 < w"
  shows "limiter_inv m w now (snd (limiter_check now l), if fst (limiter_check now l) = Allowed then admitted @ [now] else admitted)"
proof -
  have past: "\<forall>e \<in> set admitted. e \<le> now" using inv le by (fastforce simp: limiter_inv_def)
  show ?thesis
  proof (cases "length (recent now w admitted) < m")
    case True
    have "recent now w (admitted @ [now]) = recent now w admitted @ [now]" using pos by (simp add: recent_def)
    moreover have "length (filter (\<lambda>e. t \<le> e \<and> e < t + w) (admitted @ [now])) \<le> m" for t
      using window_snoc [OF past True, of t] inv by (simp add: limiter_inv_def)
    ultimately show ?thesis
      using inv past True limiter_check_allowed [OF inv le] by (auto simp: limiter_inv_def sorted_append)
  next
    case False
    have "snd (limiter_check now l) = l\<lparr>rl_requests := recent now w admitted\<rparr>"
      using limiter_check_allowed(1) [OF inv le] False by (metis snd_conv)
    then show ?thesis using inv past False limiter_check_allowed(2) [OF inv le] by (simp add: limiter_inv_def)
  qed
qed

lemma limiter_inv_checks:
  "limiter_inv m w clock s \<Longrightarrow> 0 < w \<Longrightarrow> sorted (clock # instants) \<Longrightarrow>
   limiter_inv m w (last (clock # instants)) (checks instants s)"
proof (induction instants arbitrary: clock s)
  case (Cons now instants)
  obtain l admitted where s: "s = (l, admitted)" by (cases s)
  obtain d l1 where c: "limiter_check now l = (d, l1)" by (cases "limiter_check now l")
  have le: "clock \<le> now" using Cons.prems(3) by simp
  have "limiter_inv m w now (l1, if d = Allowed then admitted @ [now] else admitted)"
    using limiter_inv_check [OF Cons.prems(1) [unfolded s] le Cons.prems(2)] by (simp only: c fst_conv snd_conv)
  then show ?case using Cons.IH [of now] Cons.prems s c by auto
qed simp

text \<open>
  (C28) The rate limiter is exact. After any checks at ascending times, a check is allowed
  exactly when fewer than the maximum were allowed within the last window, and no window of
  the configured length, wherever it begins, ever holds more than the maximum of allowed
  requests.
\<close>

theorem limiter_exact:
  assumes "0 < w" "sorted (instants @ [now])"
  shows "(fst (limiter_check now (fst (checks instants (limiter_new m w, [])))) = Allowed \<longleftrightarrow>
      length (filter (\<lambda>e. now - e < w) (snd (checks instants (limiter_new m w, [])))) < m) \<and>
    length (filter (\<lambda>e. t \<le> e \<and> e < t + w) (snd (checks instants (limiter_new m w, [])))) \<le> m"
proof -
  let ?s = "checks instants (limiter_new m w, [])" and ?clock = "last (0 # instants)"
  have inv: "limiter_inv m w ?clock (fst ?s, snd ?s)"
    using limiter_inv_checks [OF limiter_inv_new assms(1), of 0 instants m] assms(2) by (simp add: sorted_append)
  have "?clock \<le> now" using assms(2) by (auto simp: sorted_append)
  then show ?thesis
    using limiter_check_allowed(2) [OF inv] inv by (simp add: limiter_inv_def recent_def)
qed

theorem limiter_exact_witness:
  "snd (checks [0, 1, 2, 9, 10] (limiter_new 2 10, [])) = [0, 1, 10] \<and>
   length (filter (\<lambda>e. 1 \<le> e \<and> e < 1 + 10) (snd (checks [0, 1, 2, 9, 10] (limiter_new 2 10, [])))) \<le> (2::nat)"
  using limiter_exact [of 10 "[0, 1, 2, 9, 10]" 10 2 1]
  by (simp add: limiter_check_def limiter_new_def Let_def)

end
