(* ===== verification/Auth.thy ===== *)
theory Auth
  imports RelayError RateLimiter Bytes
begin

text \<open>
  \<open>relay/src/auth/oauth.rs\<close> with \<open>auth/jwt.rs\<close>: the GitHub flow with PKCE, accounts with
  passwords, sessions with rotating refresh tokens and logout. What other crates compute is
  collected in \<open>auth_env\<close>: SHA-256, base64url, URL parsing, Argon2, the coding of signed
  tokens, the texts of UUIDs, Unicode lowercasing and the two calls to GitHub, which act on a
  state of the outside world. Random values are the arguments \<open>fresh\<close>; a handler reads its
  clock \<open>now\<close> (and \<open>tick\<close>, the monotonic one) once. A hash map is an association list in its
  iteration order.
\<close>

section \<open>Environment\<close>

record url_parts =
  url_scheme :: rstr
  url_host :: "rstr option"
  url_fragment :: "rstr option"

record token_claims =
  tk_sub :: rstr
  tk_workspace_id :: uuid
  tk_iat :: int
  tk_exp :: int

record github_user =
  gu_email :: rstr
  gu_display_name :: rstr

record 'g auth_env =
  sha256 :: "byte list \<Rightarrow> byte list"
  base64url :: "byte list \<Rightarrow> rstr"
  url_parse :: "rstr \<Rightarrow> url_parts option"
  url_with_query :: "rstr \<Rightarrow> (rstr \<times> rstr) list \<Rightarrow> rstr option"
  argon_hash :: "byte list \<Rightarrow> rstr \<Rightarrow> rstr option"
  argon_verify :: "byte list \<Rightarrow> rstr \<Rightarrow> bool option"
  jwt_encode :: "rstr \<Rightarrow> token_claims \<Rightarrow> rstr option"
  jwt_decode :: "rstr \<Rightarrow> timestamp \<Rightarrow> rstr \<Rightarrow> token_claims option"
  uuid_text :: "uuid \<Rightarrow> rstr"
  parse_uuid :: "rstr \<Rightarrow> uuid option"
  to_lowercase :: "rstr \<Rightarrow> rstr"
  exchange_code :: "rstr \<Rightarrow> rstr \<Rightarrow> rstr \<Rightarrow> rstr \<Rightarrow> 'g \<Rightarrow> (relay_error, rstr) result \<times> 'g"
  get_user_info :: "rstr \<Rightarrow> 'g \<Rightarrow> (relay_error, github_user) result \<times> 'g"

record fresh =
  fr_flow :: uuid
  fr_user :: uuid
  fr_session :: uuid
  fr_family :: uuid
  fr_bytes :: "byte list"
  fr_salt :: rstr

section \<open>Access tokens\<close>

definition ACCESS_TOKEN_TTL_SECONDS :: int where "ACCESS_TOKEN_TTL_SECONDS = 15 * 60"

definition current_unix_timestamp :: "timestamp \<Rightarrow> int option" where
  "current_unix_timestamp now =
     (if now < 0 \<or> now div 1000000000 > i64_max then None else Some (now div 1000000000))"

definition jwt_service_ok :: "rstr \<Rightarrow> bool" where
  "jwt_service_ok secret \<longleftrightarrow> \<not> blen secret < 32"

definition issue_workspace_token :: "'g auth_env \<Rightarrow> rstr \<Rightarrow> uuid \<Rightarrow> uuid \<Rightarrow> timestamp \<Rightarrow> rstr option" where
  "issue_workspace_token E secret user_id workspace_id now =
     (case current_unix_timestamp now of
        None \<Rightarrow> None
      | Some issued_at \<Rightarrow>
          jwt_encode E secret
            \<lparr>tk_sub = uuid_text E user_id, tk_workspace_id = workspace_id, tk_iat = issued_at,
             tk_exp = issued_at + ACCESS_TOKEN_TTL_SECONDS\<rparr>)"

definition validate_workspace_token :: "'g auth_env \<Rightarrow> rstr \<Rightarrow> timestamp \<Rightarrow> rstr \<Rightarrow> (uuid \<times> uuid) option" where
  "validate_workspace_token E secret now token =
     (case jwt_decode E secret now token of
        None \<Rightarrow> None
      | Some claims \<Rightarrow> map_option (\<lambda>user_id. (user_id, tk_workspace_id claims)) (parse_uuid E (tk_sub claims)))"

section \<open>Refresh sessions\<close>

record refresh_session =
  rs_user_id :: uuid
  rs_token_hash :: "byte list"
  rs_family_id :: uuid
  rs_expires_at :: timestamp
  rs_revoked_at :: "timestamp option"

type_synonym refresh_sessions = "(uuid \<times> refresh_session) list"

record refresh_store =
  sessions :: refresh_sessions
  users :: "(uuid \<times> uuid list) list"

definition session_insert :: "uuid \<Rightarrow> uuid \<Rightarrow> byte list \<Rightarrow> uuid \<Rightarrow> timestamp \<Rightarrow> refresh_store \<Rightarrow> refresh_store" where
  "session_insert session_id user_id token_hash family_id expires_at s =
     s\<lparr>sessions := AList.update session_id
         \<lparr>rs_user_id = user_id, rs_token_hash = token_hash, rs_family_id = family_id, rs_expires_at = expires_at,
          rs_revoked_at = None\<rparr> (sessions s),
       users := AList.update user_id
         ((case map_of (users s) user_id of Some ids \<Rightarrow> ids | None \<Rightarrow> []) @ [session_id]) (users s)\<rparr>"

definition find_by_hash :: "byte list \<Rightarrow> refresh_store \<Rightarrow> (uuid \<times> refresh_session) option" where
  "find_by_hash token_hash s = find (\<lambda>(_, session). rs_token_hash session = token_hash) (sessions s)"

definition revoke_session :: "timestamp \<Rightarrow> uuid \<Rightarrow> refresh_store \<Rightarrow> bool \<times> refresh_store" where
  "revoke_session now session_id s =
     (case map_of (sessions s) session_id of
        Some session \<Rightarrow>
          if rs_revoked_at session = None
          then (True, s\<lparr>sessions := AList.update session_id (session\<lparr>rs_revoked_at := Some now\<rparr>) (sessions s)\<rparr>)
          else (False, s)
      | None \<Rightarrow> (False, s))"

definition in_live_family :: "uuid \<Rightarrow> refresh_session \<Rightarrow> bool" where
  "in_live_family family_id session \<longleftrightarrow> rs_family_id session = family_id \<and> rs_revoked_at session = None"

definition revoke_family :: "timestamp \<Rightarrow> uuid \<Rightarrow> refresh_store \<Rightarrow> nat \<times> refresh_store" where
  "revoke_family now family_id s =
     (length (filter (\<lambda>(_, session). in_live_family family_id session) (sessions s)),
      s\<lparr>sessions := map (\<lambda>(i, session).
          (i, if in_live_family family_id session then session\<lparr>rs_revoked_at := Some now\<rparr> else session)) (sessions s)\<rparr>)"

section \<open>Accounts\<close>

record password_user =
  pu_id :: uuid
  pu_email :: rstr
  pu_display_name :: rstr
  pu_password_hash :: rstr

type_synonym password_store = "(rstr \<times> password_user) list"

definition create_user ::
  "uuid \<Rightarrow> rstr \<Rightarrow> rstr \<Rightarrow> rstr \<Rightarrow> password_store \<Rightarrow> (relay_error, password_user) result \<times> password_store" where
  "create_user new_id email display_name password_hash s =
     (if map_of s email \<noteq> None
      then (Err (error_new ValidationFailed (lit ''an account with this email already exists'')), s)
      else
        let user = \<lparr>pu_id = new_id, pu_email = email, pu_display_name = display_name, pu_password_hash = password_hash\<rparr>
        in (Okay user, AList.update email user s))"

definition find_by_user_id :: "uuid \<Rightarrow> password_store \<Rightarrow> password_user option" where
  "find_by_user_id user_id s = map_option snd (find (\<lambda>(_, user). pu_id user = user_id) s)"

fun set_hash :: "uuid \<Rightarrow> rstr \<Rightarrow> password_store \<Rightarrow> password_store option" where
  "set_hash user_id h [] = None"
| "set_hash user_id h ((email, user) # s) =
     (if pu_id user = user_id then Some ((email, user\<lparr>pu_password_hash := h\<rparr>) # s)
      else map_option (\<lambda>s1. (email, user) # s1) (set_hash user_id h s))"

definition account_not_found :: relay_error where
  "account_not_found = error_new AuthInvalidToken (lit ''authenticated user account not found'')"

definition update_password_hash :: "uuid \<Rightarrow> rstr \<Rightarrow> password_store \<Rightarrow> (relay_error, unit) result \<times> password_store" where
  "update_password_hash user_id new_hash s =
     (case set_hash user_id new_hash s of None \<Rightarrow> (Err account_not_found, s) | Some s1 \<Rightarrow> (Okay (), s1))"

section \<open>Flows\<close>

record flow_record =
  fl_redirect_uri :: rstr
  fl_state :: rstr
  fl_code_challenge :: rstr
  fl_expires_at :: timestamp

type_synonym flow_store = "(uuid \<times> flow_record) list"

definition prune_expired_flows :: "timestamp \<Rightarrow> flow_store \<Rightarrow> flow_store" where
  "prune_expired_flows now flows = filter (\<lambda>(_, r). fl_expires_at r > now) flows"

definition flow_insert :: "timestamp \<Rightarrow> uuid \<Rightarrow> flow_record \<Rightarrow> flow_store \<Rightarrow> flow_store" where
  "flow_insert now flow_id r flows = AList.update flow_id r (prune_expired_flows now flows)"

definition flow_take :: "timestamp \<Rightarrow> uuid \<Rightarrow> flow_store \<Rightarrow> flow_record option \<times> flow_store" where
  "flow_take now flow_id flows =
     (let kept = prune_expired_flows now flows in (map_of kept flow_id, AList.delete flow_id kept))"

section \<open>State\<close>

record 'g auth_state =
  flow_store :: flow_store
  start_rate_limiter :: rate_limiter
  callback_rate_limiter :: rate_limiter
  refresh_rate_limiter :: rate_limiter
  github_client_id :: rstr
  github_client_secret :: rstr
  github_authorize_url :: rstr
  github_scope :: rstr
  flow_ttl :: int
  refresh_store :: refresh_store
  password_store :: password_store
  jwt_secret :: rstr
  github :: 'g

record auth_user =
  au_id :: uuid
  au_email :: rstr
  au_display_name :: rstr

record start_request =
  sq_redirect_uri :: rstr
  sq_state :: rstr
  sq_code_challenge :: rstr
  sq_code_challenge_method :: rstr

record start_response =
  sp_flow_id :: uuid
  sp_authorization_url :: rstr
  sp_expires_at :: timestamp

record callback_request =
  cq_flow_id :: uuid
  cq_code :: rstr
  cq_state :: rstr
  cq_code_verifier :: rstr

record session_response =
  ap_access_token :: rstr
  ap_access_expires_at :: timestamp
  ap_refresh_token :: rstr
  ap_refresh_expires_at :: timestamp
  ap_user :: auth_user

record refresh_response =
  rp_access_token :: rstr
  rp_access_expires_at :: timestamp
  rp_refresh_token :: rstr
  rp_refresh_expires_at :: timestamp

datatype limited_error = Relay relay_error | TooMany nat

section \<open>Validation\<close>

definition MAX_STATE_LEN :: nat where "MAX_STATE_LEN = 512"
definition MIN_CODE_CHALLENGE_LEN :: nat where "MIN_CODE_CHALLENGE_LEN = 43"
definition MAX_CODE_CHALLENGE_LEN :: nat where "MAX_CODE_CHALLENGE_LEN = 128"
definition MIN_PASSWORD_LEN :: nat where "MIN_PASSWORD_LEN = 8"
definition MAX_PASSWORD_LEN :: nat where "MAX_PASSWORD_LEN = 256"
definition DEFAULT_ACCESS_TOKEN_TTL :: int where "DEFAULT_ACCESS_TOKEN_TTL = 15 * 60 * 1000000000"
definition DEFAULT_REFRESH_TOKEN_TTL :: int where "DEFAULT_REFRESH_TOKEN_TTL = 30 * 24 * 3600 * 1000000000"

definition is_loopback_host :: "rstr \<Rightarrow> bool" where
  "is_loopback_host host \<longleftrightarrow> host \<in> {lit ''localhost'', lit ''127.0.0.1'', lit ''::1''}"

definition validate_redirect_uri :: "'g auth_env \<Rightarrow> rstr \<Rightarrow> (relay_error, unit) result" where
  "validate_redirect_uri E uri =
     (case url_parse E uri of
        None \<Rightarrow> Err (error_new AuthInvalidRedirect (lit ''redirect_uri must be a valid absolute URL''))
      | Some parsed \<Rightarrow>
          if url_fragment parsed \<noteq> None
          then Err (error_new AuthInvalidRedirect (lit ''redirect_uri must not contain a fragment''))
          else case url_host parsed of
            None \<Rightarrow> Err (error_new AuthInvalidRedirect (lit ''redirect_uri must include a host''))
          | Some host \<Rightarrow>
              if url_scheme parsed = lit ''https'' \<or> url_scheme parsed = lit ''http'' \<and> is_loopback_host host then Okay ()
              else Err (error_new AuthInvalidRedirect (lit ''redirect_uri must use https or localhost http'')))"

definition validate_state :: "rstr \<Rightarrow> (relay_error, unit) result" where
  "validate_state st =
     (if trim st = [] then Err (error_new ValidationFailed (lit ''state must not be empty''))
      else if blen st > MAX_STATE_LEN then Err (error_new ValidationFailed (lit ''state must be at most 512 bytes''))
      else Okay ())"

definition validate_code_challenge_method :: "rstr \<Rightarrow> (relay_error, unit) result" where
  "validate_code_challenge_method method =
     (if method \<noteq> lit ''S256'' then Err (error_new ValidationFailed (lit ''code_challenge_method must be S256'')) else Okay ())"

definition validate_code_challenge :: "rstr \<Rightarrow> (relay_error, unit) result" where
  "validate_code_challenge c =
     (if \<not> (MIN_CODE_CHALLENGE_LEN \<le> blen c \<and> blen c \<le> MAX_CODE_CHALLENGE_LEN)
      then Err (error_new ValidationFailed (lit ''code_challenge must be between 43 and 128 chars''))
      else if \<not> list_all (\<lambda>ch. is_ascii_alphanumeric ch \<or> ch = 45 \<or> ch = 95) c
      then Err (error_new ValidationFailed (lit ''code_challenge must be base64url (A-Z, a-z, 0-9, -, _)''))
      else Okay ())"

definition normalize_email :: "'g auth_env \<Rightarrow> rstr \<Rightarrow> (relay_error, rstr) result" where
  "normalize_email E raw =
     (let email = to_lowercase E (trim raw) in
      if email = [] \<or> 64 \<notin> set email then Err (error_new ValidationFailed (lit ''email must be a valid address''))
      else Okay email)"

definition validate_password :: "rstr \<Rightarrow> (relay_error, unit) result" where
  "validate_password password =
     (if length password < MIN_PASSWORD_LEN \<or> length password > MAX_PASSWORD_LEN
      then Err (error_new ValidationFailed (lit ''password must be between 8 and 256 characters''))
      else Okay ())"

definition hash_password :: "'g auth_env \<Rightarrow> rstr \<Rightarrow> rstr \<Rightarrow> (relay_error, rstr) result" where
  "hash_password E salt password =
     (case argon_hash E (as_bytes password) salt of Some h \<Rightarrow> Okay h | None \<Rightarrow> Err (from_code InternalError))"

definition verify_password :: "'g auth_env \<Rightarrow> rstr \<Rightarrow> rstr \<Rightarrow> bool" where
  "verify_password E password password_hash =
     (case argon_verify E (as_bytes password) password_hash of None \<Rightarrow> False | Some b \<Rightarrow> b)"

definition verify_pkce_s256 :: "'g auth_env \<Rightarrow> rstr \<Rightarrow> rstr \<Rightarrow> (relay_error, unit) result" where
  "verify_pkce_s256 E code_verifier code_challenge =
     (if base64url E (sha256 E (as_bytes code_verifier)) \<noteq> code_challenge
      then Err (error_new AuthCodeInvalid (lit ''PKCE code_verifier does not match code_challenge''))
      else Okay ())"

definition generate_refresh_token :: "'g auth_env \<Rightarrow> byte list \<Rightarrow> rstr \<times> byte list" where
  "generate_refresh_token E bytes = (let token = base64url E bytes in (token, sha256 E (as_bytes token)))"

definition extract_bearer_token :: "rstr \<Rightarrow> rstr option" where
  "extract_bearer_token v =
     (case split_once 32 v of
        None \<Rightarrow> None
      | Some (scheme, token) \<Rightarrow>
          if \<not> eq_ignore_ascii_case scheme (lit ''Bearer'') then None
          else if trim token = [] then None else Some (trim token))"

section \<open>Handlers\<close>

definition build_authorization_url ::
  "'g auth_env \<Rightarrow> rstr \<Rightarrow> rstr \<Rightarrow> rstr \<Rightarrow> start_request \<Rightarrow> (relay_error, rstr) result" where
  "build_authorization_url E base client_id scope p =
     (case url_with_query E base
        [(lit ''client_id'', client_id), (lit ''redirect_uri'', sq_redirect_uri p), (lit ''state'', sq_state p),
         (lit ''code_challenge'', sq_code_challenge p), (lit ''code_challenge_method'', lit ''S256''),
         (lit ''response_type'', lit ''code''), (lit ''scope'', scope)] of
        None \<Rightarrow> Err (from_code InternalError)
      | Some url \<Rightarrow> Okay url)"

definition validate_start :: "'g auth_env \<Rightarrow> start_request \<Rightarrow> (relay_error, unit) result" where
  "validate_start E p =
     (case validate_redirect_uri E (sq_redirect_uri p) of Inl e \<Rightarrow> Err e | Inr _ \<Rightarrow>
      case validate_state (sq_state p) of Inl e \<Rightarrow> Err e | Inr _ \<Rightarrow>
      case validate_code_challenge_method (sq_code_challenge_method p) of Inl e \<Rightarrow> Err e | Inr _ \<Rightarrow>
      validate_code_challenge (sq_code_challenge p))"

definition start_github_oauth ::
  "'g auth_env \<Rightarrow> fresh \<Rightarrow> nat \<Rightarrow> timestamp \<Rightarrow> start_request \<Rightarrow> 'g auth_state \<Rightarrow>
   (limited_error, start_response) result \<times> 'g auth_state" where
  "start_github_oauth E fr tick now p st =
     (case limiter_check tick (start_rate_limiter st) of
        (Limited n, l) \<Rightarrow> (Err (TooMany n), st\<lparr>start_rate_limiter := l\<rparr>)
      | (Allowed, l) \<Rightarrow>
          let st1 = st\<lparr>start_rate_limiter := l\<rparr> in
          (case validate_start E p of
             Inl e \<Rightarrow> (Err (Relay e), st1)
           | Inr _ \<Rightarrow>
               let expires_at = now + flow_ttl st1;
                   r = \<lparr>fl_redirect_uri = sq_redirect_uri p, fl_state = sq_state p,
                        fl_code_challenge = sq_code_challenge p, fl_expires_at = expires_at\<rparr>;
                   st2 = st1\<lparr>flow_store := flow_insert now (fr_flow fr) r (flow_store st1)\<rparr>
               in (case build_authorization_url E (github_authorize_url st2) (github_client_id st2) (github_scope st2) p of
                     Inl e \<Rightarrow> (Err (Relay e), st2)
                   | Inr url \<Rightarrow>
                       (Okay \<lparr>sp_flow_id = fr_flow fr, sp_authorization_url = url, sp_expires_at = expires_at\<rparr>, st2))))"

definition issue_auth_session ::
  "'g auth_env \<Rightarrow> fresh \<Rightarrow> timestamp \<Rightarrow> auth_user \<Rightarrow> 'g auth_state \<Rightarrow> (relay_error, session_response) result \<times> 'g auth_state" where
  "issue_auth_session E fr now user st =
     (if \<not> jwt_service_ok (jwt_secret st) then (Err (from_code InternalError), st)
      else case issue_workspace_token E (jwt_secret st) (au_id user) 0 now of
        None \<Rightarrow> (Err (from_code InternalError), st)
      | Some access_token \<Rightarrow>
          let refresh_expires_at = now + DEFAULT_REFRESH_TOKEN_TTL;
              (refresh_token, refresh_hash) = generate_refresh_token E (fr_bytes fr)
          in (Okay \<lparr>ap_access_token = access_token, ap_access_expires_at = now + DEFAULT_ACCESS_TOKEN_TTL,
                    ap_refresh_token = refresh_token, ap_refresh_expires_at = refresh_expires_at, ap_user = user\<rparr>,
              st\<lparr>refresh_store :=
                   session_insert (fr_session fr) (au_id user) refresh_hash (fr_family fr) refresh_expires_at (refresh_store st)\<rparr>))"

definition callback_github_oauth ::
  "'g auth_env \<Rightarrow> fresh \<Rightarrow> nat \<Rightarrow> timestamp \<Rightarrow> callback_request \<Rightarrow> 'g auth_state \<Rightarrow>
   (limited_error, session_response) result \<times> 'g auth_state" where
  "callback_github_oauth E fr tick now p st =
     (case limiter_check tick (callback_rate_limiter st) of
        (Limited n, l) \<Rightarrow> (Err (TooMany n), st\<lparr>callback_rate_limiter := l\<rparr>)
      | (Allowed, l) \<Rightarrow>
          let (taken, flows) = flow_take now (cq_flow_id p) (flow_store st);
              st1 = st\<lparr>callback_rate_limiter := l, flow_store := flows\<rparr>
          in (case taken of
                None \<Rightarrow> (Err (Relay (error_new AuthCodeInvalid (lit ''unknown or expired flow''))), st1)
              | Some flow \<Rightarrow>
                  if fl_state flow \<noteq> cq_state p then (Err (Relay (from_code AuthStateMismatch)), st1)
                  else case verify_pkce_s256 E (cq_code_verifier p) (fl_code_challenge flow) of
                    Inl e \<Rightarrow> (Err (Relay e), st1)
                  | Inr _ \<Rightarrow>
                      (case exchange_code E (cq_code p) (github_client_id st1) (github_client_secret st1) (fl_redirect_uri flow) (github st1) of
                         (Inl e, w1) \<Rightarrow> (Err (Relay e), st1\<lparr>github := w1\<rparr>)
                       | (Inr token, w1) \<Rightarrow>
                           (case get_user_info E token w1 of
                              (Inl e, w2) \<Rightarrow> (Err (Relay e), st1\<lparr>github := w2\<rparr>)
                            | (Inr user, w2) \<Rightarrow>
                                let (r, st2) = issue_auth_session E fr now
                                      \<lparr>au_id = fr_user fr, au_email = gu_email user, au_display_name = gu_display_name user\<rparr>
                                      (st1\<lparr>github := w2\<rparr>)
                                in (map_sum Relay id r, st2)))))"

definition public_user :: "password_user \<Rightarrow> auth_user" where
  "public_user u = \<lparr>au_id = pu_id u, au_email = pu_email u, au_display_name = pu_display_name u\<rparr>"

definition register_password_user ::
  "'g auth_env \<Rightarrow> fresh \<Rightarrow> timestamp \<Rightarrow> rstr \<Rightarrow> rstr \<Rightarrow> rstr \<Rightarrow> 'g auth_state \<Rightarrow>
   (relay_error, session_response) result \<times> 'g auth_state" where
  "register_password_user E fr now raw_email raw_name password st =
     (case normalize_email E raw_email of Inl e \<Rightarrow> (Err e, st) | Inr email \<Rightarrow>
      if trim raw_name = [] then (Err (error_new ValidationFailed (lit ''display_name must not be empty'')), st)
      else case validate_password password of Inl e \<Rightarrow> (Err e, st) | Inr _ \<Rightarrow>
      (case hash_password E (fr_salt fr) password of Inl e \<Rightarrow> (Err e, st) | Inr h \<Rightarrow>
      (case create_user (fr_user fr) email (trim raw_name) h (password_store st) of
         (Inl e, _) \<Rightarrow> (Err e, st)
       | (Inr user, ps) \<Rightarrow> issue_auth_session E fr now (public_user user) (st\<lparr>password_store := ps\<rparr>))))"

definition invalid_login :: relay_error where
  "invalid_login = error_new AuthInvalidToken (lit ''invalid email or password'')"

definition login_password_user ::
  "'g auth_env \<Rightarrow> fresh \<Rightarrow> timestamp \<Rightarrow> rstr \<Rightarrow> rstr \<Rightarrow> 'g auth_state \<Rightarrow>
   (relay_error, session_response) result \<times> 'g auth_state" where
  "login_password_user E fr now raw_email password st =
     (case normalize_email E raw_email of Inl e \<Rightarrow> (Err e, st) | Inr email \<Rightarrow>
      (case map_of (password_store st) email of
         None \<Rightarrow> (Err invalid_login, st)
       | Some user \<Rightarrow>
           if \<not> verify_password E password (pu_password_hash user) then (Err invalid_login, st)
           else issue_auth_session E fr now (public_user user) st))"

definition extract_user_id_from_bearer ::
  "'g auth_env \<Rightarrow> timestamp \<Rightarrow> rstr option \<Rightarrow> 'g auth_state \<Rightarrow> (relay_error, uuid) result" where
  "extract_user_id_from_bearer E now authorization st =
     (case Option.bind authorization extract_bearer_token of
        None \<Rightarrow> Err (error_new AuthInvalidToken (lit ''missing bearer token''))
      | Some token \<Rightarrow>
          if \<not> jwt_service_ok (jwt_secret st) then Err (from_code InternalError)
          else case validate_workspace_token E (jwt_secret st) now token of
            None \<Rightarrow> Err (error_new AuthInvalidToken (lit ''invalid bearer token''))
          | Some (user_id, _) \<Rightarrow> Okay user_id)"

definition change_password ::
  "'g auth_env \<Rightarrow> fresh \<Rightarrow> timestamp \<Rightarrow> rstr option \<Rightarrow> rstr \<Rightarrow> rstr \<Rightarrow> 'g auth_state \<Rightarrow>
   (relay_error, unit) result \<times> 'g auth_state" where
  "change_password E fr now authorization current_password new_password st =
     (case extract_user_id_from_bearer E now authorization st of Inl e \<Rightarrow> (Err e, st) | Inr user_id \<Rightarrow>
      (case find_by_user_id user_id (password_store st) of
         None \<Rightarrow> (Err account_not_found, st)
       | Some user \<Rightarrow>
           if \<not> verify_password E current_password (pu_password_hash user)
           then (Err (error_new AuthInvalidToken (lit ''current password is invalid'')), st)
           else case validate_password new_password of Inl e \<Rightarrow> (Err e, st) | Inr _ \<Rightarrow>
           if verify_password E new_password (pu_password_hash user)
           then (Err (error_new ValidationFailed (lit ''new password must differ from current password'')), st)
           else case hash_password E (fr_salt fr) new_password of Inl e \<Rightarrow> (Err e, st) | Inr h \<Rightarrow>
             let (r, ps) = update_password_hash user_id h (password_store st) in (r, st\<lparr>password_store := ps\<rparr>)))"

text \<open>
  The refresh of a token in the steps between which other requests run: the lookup, the check
  with the revocation, and the insertion of the new session.
\<close>

definition refresh_rotate ::
  "timestamp \<Rightarrow> uuid \<times> refresh_session \<Rightarrow> refresh_store \<Rightarrow> (relay_error, unit) result \<times> refresh_store" where
  "refresh_rotate now found s =
     (let (session_id, session) = found in
      if rs_revoked_at session \<noteq> None
      then (Err (error_new AuthTokenRevoked (lit ''refresh token reuse detected; token family revoked'')),
            snd (revoke_family now (rs_family_id session) s))
      else if rs_expires_at session < now then (Err (error_new AuthInvalidToken (lit ''refresh token has expired'')), s)
      else (Okay (), snd (revoke_session now session_id s)))"

definition refresh_issue ::
  "'g auth_env \<Rightarrow> fresh \<Rightarrow> timestamp \<Rightarrow> refresh_session \<Rightarrow> 'g auth_state \<Rightarrow>
   (relay_error, refresh_response) result \<times> 'g auth_state" where
  "refresh_issue E fr now session st =
     (let (new_token, new_hash) = generate_refresh_token E (fr_bytes fr);
          refresh_expires_at = now + DEFAULT_REFRESH_TOKEN_TTL;
          st1 = st\<lparr>refresh_store := session_insert (fr_session fr) (rs_user_id session) new_hash (rs_family_id session)
                      refresh_expires_at (refresh_store st)\<rparr>
      in if \<not> jwt_service_ok (jwt_secret st1) then (Err (from_code InternalError), st1)
         else case issue_workspace_token E (jwt_secret st1) (rs_user_id session) 0 now of
           None \<Rightarrow> (Err (from_code InternalError), st1)
         | Some access_token \<Rightarrow>
             (Okay \<lparr>rp_access_token = access_token, rp_access_expires_at = now + DEFAULT_ACCESS_TOKEN_TTL,
                    rp_refresh_token = new_token, rp_refresh_expires_at = refresh_expires_at\<rparr>, st1))"

definition handle_token_refresh ::
  "'g auth_env \<Rightarrow> fresh \<Rightarrow> nat \<Rightarrow> timestamp \<Rightarrow> rstr \<Rightarrow> 'g auth_state \<Rightarrow>
   (relay_error, refresh_response) result \<times> 'g auth_state" where
  "handle_token_refresh E fr tick now token st =
     (case limiter_check tick (refresh_rate_limiter st) of
        (Limited _, l) \<Rightarrow> (Err (from_code RateLimited), st\<lparr>refresh_rate_limiter := l\<rparr>)
      | (Allowed, l) \<Rightarrow>
          let st1 = st\<lparr>refresh_rate_limiter := l\<rparr> in
          (case find_by_hash (sha256 E (as_bytes token)) (refresh_store st1) of
             None \<Rightarrow> (Err (from_code AuthInvalidToken), st1)
           | Some found \<Rightarrow>
               (case refresh_rotate now found (refresh_store st1) of
                  (Inl e, s) \<Rightarrow> (Err e, st1\<lparr>refresh_store := s\<rparr>)
                | (Inr _, s) \<Rightarrow> refresh_issue E fr now (snd found) (st1\<lparr>refresh_store := s\<rparr>))))"

definition handle_logout ::
  "'g auth_env \<Rightarrow> timestamp \<Rightarrow> rstr option \<Rightarrow> rstr \<Rightarrow> 'g auth_state \<Rightarrow> (relay_error, unit) result \<times> 'g auth_state" where
  "handle_logout E now authorization token st =
     (case extract_user_id_from_bearer E now authorization st of Inl e \<Rightarrow> (Err e, st) | Inr _ \<Rightarrow>
      (case find_by_hash (sha256 E (as_bytes token)) (refresh_store st) of
         None \<Rightarrow> (Err (from_code AuthInvalidToken), st)
       | Some (session_id, _) \<Rightarrow>
           (Okay (), st\<lparr>refresh_store := snd (revoke_session now session_id (refresh_store st))\<rparr>)))"

end
