(* ===== verification/AuthRuns.thy ===== *)
theory AuthRuns
  imports Auth
begin

text \<open>
  Runs of the authentication service: sequences of requests with the times at which they are
  served and the random values they draw, and the interleaved steps of concurrent refreshes.
  Random values are fresh: \<open>auth_ok\<close> says that no id and no token hash was drawn before.
\<close>

section \<open>Requests\<close>

datatype auth_op =
    StartFlow start_request
  | Callback callback_request
  | Register rstr rstr rstr
  | Login rstr rstr
  | ChangePassword "rstr option" rstr rstr
  | Refresh rstr
  | Logout "rstr option" rstr

record auth_call =
  ac_tick :: nat
  ac_now :: timestamp
  ac_fresh :: fresh
  ac_op :: auth_op

datatype auth_outcome =
    Started start_response
  | SessionOpened session_response
  | Refreshed refresh_response
  | NoContent
  | Refused limited_error

definition outcome :: "('a \<Rightarrow> auth_outcome) \<Rightarrow> (limited_error, 'a) result \<times> 'g auth_state \<Rightarrow> auth_outcome \<times> 'g auth_state" where
  "outcome f rs = (case fst rs of Inl e \<Rightarrow> Refused e | Inr a \<Rightarrow> f a, snd rs)"

definition relay_outcome :: "('a \<Rightarrow> auth_outcome) \<Rightarrow> (relay_error, 'a) result \<times> 'g auth_state \<Rightarrow> auth_outcome \<times> 'g auth_state" where
  "relay_outcome f rs = (case fst rs of Inl e \<Rightarrow> Refused (Relay e) | Inr a \<Rightarrow> f a, snd rs)"

definition auth_serve :: "'g auth_env \<Rightarrow> auth_call \<Rightarrow> 'g auth_state \<Rightarrow> auth_outcome \<times> 'g auth_state" where
  "auth_serve E c st =
     (let fr = ac_fresh c; tick = ac_tick c; now = ac_now c in
      case ac_op c of
        StartFlow p \<Rightarrow> outcome Started (start_github_oauth E fr tick now p st)
      | Callback p \<Rightarrow> outcome SessionOpened (callback_github_oauth E fr tick now p st)
      | Register email name password \<Rightarrow> relay_outcome SessionOpened (register_password_user E fr now email name password st)
      | Login email password \<Rightarrow> relay_outcome SessionOpened (login_password_user E fr now email password st)
      | ChangePassword authorization old new \<Rightarrow> relay_outcome (\<lambda>_. NoContent) (change_password E fr now authorization old new st)
      | Refresh token \<Rightarrow> relay_outcome Refreshed (handle_token_refresh E fr tick now token st)
      | Logout authorization token \<Rightarrow> relay_outcome (\<lambda>_. NoContent) (handle_logout E now authorization token st))"

type_synonym auth_log = "(auth_call \<times> auth_outcome) list"

definition auth_step :: "'g auth_env \<Rightarrow> 'g auth_state \<times> auth_log \<Rightarrow> auth_call \<Rightarrow> 'g auth_state \<times> auth_log" where
  "auth_step E s c = (snd (auth_serve E c (fst s)), snd s @ [(c, fst (auth_serve E c (fst s)))])"

definition drawn_hash :: "'g auth_env \<Rightarrow> fresh \<Rightarrow> byte list" where
  "drawn_hash E fr = snd (generate_refresh_token E (fr_bytes fr))"

definition auth_ok :: "'g auth_env \<Rightarrow> 'g auth_state \<times> auth_log \<Rightarrow> auth_call \<Rightarrow> bool" where
  "auth_ok E s c \<longleftrightarrow>
     map_of (sessions (refresh_store (fst s))) (fr_session (ac_fresh c)) = None \<and>
     (\<forall>(_, session) \<in> set (sessions (refresh_store (fst s))).
        rs_family_id session \<noteq> fr_family (ac_fresh c) \<and> rs_token_hash session \<noteq> drawn_hash E (ac_fresh c)) \<and>
     (\<forall>(_, user) \<in> set (password_store (fst s)). pu_id user \<noteq> fr_user (ac_fresh c)) \<and>
     (\<forall>(c1, _) \<in> set (snd s). fr_flow (ac_fresh c1) \<noteq> fr_flow (ac_fresh c))"

definition auth_initial :: "'g auth_state \<Rightarrow> bool" where
  "auth_initial st \<longleftrightarrow> sessions (refresh_store st) = [] \<and> password_store st = [] \<and> flow_store st = []"

section \<open>Sessions\<close>

abbreviation sess :: "'g auth_state \<Rightarrow> uuid \<Rightarrow> refresh_session option" where
  "sess st \<equiv> map_of (sessions (refresh_store st))"

text \<open>How a request may change the sessions.\<close>

inductive sess_change :: "(uuid \<Rightarrow> refresh_session option) \<Rightarrow> (uuid \<Rightarrow> refresh_session option) \<Rightarrow> bool" where
  same: "sess_change m m"
| opened: "m i = None \<Longrightarrow> (\<forall>j s. m j = Some s \<longrightarrow> rs_family_id s \<noteq> rs_family_id new \<and> rs_token_hash s \<noteq> rs_token_hash new) \<Longrightarrow>
    rs_revoked_at new = None \<Longrightarrow> sess_change m (m(i \<mapsto> new))"
| ended: "m i = Some s \<Longrightarrow> rs_revoked_at s = None \<Longrightarrow> sess_change m (m(i \<mapsto> s\<lparr>rs_revoked_at := Some t\<rparr>))"
| family: "sess_change m (\<lambda>i. map_option (\<lambda>s. if in_live_family f s then s\<lparr>rs_revoked_at := Some t\<rparr> else s) (m i))"
| rotated: "m i = Some s \<Longrightarrow> rs_revoked_at s = None \<Longrightarrow> m j = None \<Longrightarrow>
    (\<forall>k u. m k = Some u \<longrightarrow> rs_token_hash u \<noteq> rs_token_hash new) \<Longrightarrow> rs_family_id new = rs_family_id s \<Longrightarrow>
    rs_revoked_at new = None \<Longrightarrow> sess_change m (m(i \<mapsto> s\<lparr>rs_revoked_at := Some t\<rparr>, j \<mapsto> new))"

definition sess_inv :: "(uuid \<Rightarrow> refresh_session option) \<Rightarrow> bool" where
  "sess_inv m \<longleftrightarrow>
     (\<forall>i j s t. m i = Some s \<longrightarrow> m j = Some t \<longrightarrow> rs_token_hash s = rs_token_hash t \<longrightarrow> i = j) \<and>
     (\<forall>i j s t. m i = Some s \<longrightarrow> m j = Some t \<longrightarrow> rs_family_id s = rs_family_id t \<longrightarrow>
        rs_revoked_at s = None \<longrightarrow> rs_revoked_at t = None \<longrightarrow> i = j)"

definition in_family :: "byte list \<Rightarrow> uuid \<Rightarrow> (uuid \<Rightarrow> refresh_session option) \<Rightarrow> bool" where
  "in_family h f m \<longleftrightarrow> (\<exists>i s. m i = Some s \<and> rs_token_hash s = h \<and> rs_family_id s = f)"

definition spent :: "byte list \<Rightarrow> uuid \<Rightarrow> (uuid \<Rightarrow> refresh_session option) \<Rightarrow> bool" where
  "spent h f m \<longleftrightarrow> (\<exists>i s. m i = Some s \<and> rs_token_hash s = h \<and> rs_family_id s = f \<and> rs_revoked_at s \<noteq> None)"

definition family_closed :: "uuid \<Rightarrow> (uuid \<Rightarrow> refresh_session option) \<Rightarrow> bool" where
  "family_closed f m \<longleftrightarrow>
     (\<exists>i s. m i = Some s \<and> rs_family_id s = f) \<and> (\<forall>i s. m i = Some s \<longrightarrow> rs_family_id s = f \<longrightarrow> rs_revoked_at s \<noteq> None)"

lemma sess_invI:
  assumes "\<And>i j s t. m i = Some s \<Longrightarrow> m j = Some t \<Longrightarrow> i \<noteq> j \<Longrightarrow>
    rs_token_hash s \<noteq> rs_token_hash t \<and> \<not> (rs_family_id s = rs_family_id t \<and> rs_revoked_at s = None \<and> rs_revoked_at t = None)"
  shows "sess_inv m"
  using assms unfolding sess_inv_def by metis

lemma sess_invD:
  "sess_inv m \<Longrightarrow> m i = Some s \<Longrightarrow> m j = Some t \<Longrightarrow> i \<noteq> j \<Longrightarrow>
   rs_token_hash s \<noteq> rs_token_hash t \<and> \<not> (rs_family_id s = rs_family_id t \<and> rs_revoked_at s = None \<and> rs_revoked_at t = None)"
  unfolding sess_inv_def by metis

lemma sess_change_inv: "sess_change m m' \<Longrightarrow> sess_inv m \<Longrightarrow> sess_inv m'"
proof (induction rule: sess_change.induct)
  case (opened m i new)
  show ?case
  proof (rule sess_invI)
    fix k l s t
    assume kl: "(m(i \<mapsto> new)) k = Some s" "(m(i \<mapsto> new)) l = Some t" "k \<noteq> l"
    have old: "rs_family_id u \<noteq> rs_family_id new \<and> rs_token_hash u \<noteq> rs_token_hash new" if "m j = Some u" for j u
      using opened.hyps(2) that by blast
    show "rs_token_hash s \<noteq> rs_token_hash t \<and>
        \<not> (rs_family_id s = rs_family_id t \<and> rs_revoked_at s = None \<and> rs_revoked_at t = None)"
    proof (cases "k = i \<or> l = i")
      case True
      then show ?thesis using kl old [of k s] old [of l t] by auto
    next
      case False
      then show ?thesis using kl sess_invD [OF opened.prems, of k s l t] by simp
    qed
  qed
next
  case (ended m i s t)
  show ?case
    by (rule sess_invI) (use ended sess_invD [OF ended.prems] in \<open>fastforce split: if_splits\<close>)
next
  case (family m f t)
  show ?case
  proof (rule sess_invI)
    fix k l s u
    let ?g = "\<lambda>s. if in_live_family f s then s\<lparr>rs_revoked_at := Some t\<rparr> else s"
    assume kl: "map_option ?g (m k) = Some s" "map_option ?g (m l) = Some u" "k \<noteq> l"
    then obtain s0 u0 where o: "m k = Some s0" "s = ?g s0" "m l = Some u0" "u = ?g u0" by auto
    show "rs_token_hash s \<noteq> rs_token_hash u \<and>
        \<not> (rs_family_id s = rs_family_id u \<and> rs_revoked_at s = None \<and> rs_revoked_at u = None)"
      using sess_invD [OF family.prems o(1,3) kl(3)] o(2,4) by auto
  qed
next
  case (rotated m i s j new t)
  show ?case
  proof (rule sess_invI)
    fix k l a b
    let ?m = "m(i \<mapsto> s\<lparr>rs_revoked_at := Some t\<rparr>, j \<mapsto> new)"
    have ij: "i \<noteq> j" using rotated.hyps(1,3) by auto
    have old: "rs_token_hash a \<noteq> rs_token_hash new \<and> \<not> (rs_family_id a = rs_family_id new \<and> rs_revoked_at a = None)"
      if "?m k = Some a" "k \<noteq> j" for k a
      using that rotated.hyps sess_invD [OF rotated.prems rotated.hyps(1), of k a] by (auto split: if_splits)
    have both: "rs_token_hash a \<noteq> rs_token_hash b \<and>
        \<not> (rs_family_id a = rs_family_id b \<and> rs_revoked_at a = None \<and> rs_revoked_at b = None)"
      if "?m k = Some a" "?m l = Some b" "k \<noteq> l" "k \<noteq> j" "l \<noteq> j" for k l a b
      using that rotated.hyps(1) sess_invD [OF rotated.prems, of k _ l] by (auto split: if_splits)
    assume kl: "?m k = Some a" "?m l = Some b" "k \<noteq> l"
    show "rs_token_hash a \<noteq> rs_token_hash b \<and>
        \<not> (rs_family_id a = rs_family_id b \<and> rs_revoked_at a = None \<and> rs_revoked_at b = None)"
    proof (cases "k = j \<or> l = j")
      case True
      then show ?thesis using kl old [of k a] old [of l b] by auto
    next
      case False
      then show ?thesis using both kl by blast
    qed
  qed
qed

text \<open>A session stays, with its token and family, and stays revoked.\<close>

lemma sess_change_keeps:
  "sess_change m m' \<Longrightarrow> m i = Some s \<Longrightarrow>
   \<exists>s'. m' i = Some s' \<and> rs_token_hash s' = rs_token_hash s \<and> rs_family_id s' = rs_family_id s \<and>
     (rs_revoked_at s \<noteq> None \<longrightarrow> rs_revoked_at s' \<noteq> None)"
  by (induction rule: sess_change.induct) (auto simp: in_live_family_def)

text \<open>A family with a valid session has one before, or it is new.\<close>

lemma sess_change_live:
  "sess_change m m' \<Longrightarrow> m' i = Some s' \<Longrightarrow> rs_revoked_at s' = None \<Longrightarrow>
   (\<exists>j s. m j = Some s \<and> rs_family_id s = rs_family_id s' \<and> rs_revoked_at s = None) \<or>
   (\<forall>j s. m j = Some s \<longrightarrow> rs_family_id s \<noteq> rs_family_id s')"
  by (induction rule: sess_change.induct) (auto simp: in_live_family_def split: if_splits)

lemma sess_change_in_family: "sess_change m m' \<Longrightarrow> in_family h f m \<Longrightarrow> in_family h f m'"
  unfolding in_family_def by (metis sess_change_keeps)

lemma sess_change_spent: "sess_change m m' \<Longrightarrow> spent h f m \<Longrightarrow> spent h f m'"
  unfolding spent_def by (metis sess_change_keeps)

lemma sess_change_closed:
  assumes "sess_change m m'" "family_closed f m"
  shows "family_closed f m'"
proof -
  have "\<exists>i s. m' i = Some s \<and> rs_family_id s = f"
    using assms unfolding family_closed_def by (metis sess_change_keeps)
  moreover have "rs_revoked_at s \<noteq> None" if "m' i = Some s" "rs_family_id s = f" for i s
    using sess_change_live [OF assms(1) that(1)] assms(2) that(2) unfolding family_closed_def by metis
  ultimately show ?thesis by (simp add: family_closed_def)
qed

text \<open>Every request changes the sessions in one of these ways.\<close>

lemma find_by_hash_Some:
  assumes "distinct (map fst (sessions s))" "find_by_hash h s = Some (i, u)"
  shows "map_of (sessions s) i = Some u" "rs_token_hash u = h"
  using assms by (auto simp: find_by_hash_def find_Some_iff intro!: map_of_is_SomeI) (metis nth_mem)

lemma find_by_hash_None:
  "find_by_hash h s = None \<Longrightarrow> map_of (sessions s) i = Some u \<Longrightarrow> rs_token_hash u \<noteq> h"
  by (auto simp: find_by_hash_def find_None_iff dest: map_of_SomeD)

lemma sessions_insert:
  "map_of (sessions (session_insert i user h f t s)) = (map_of (sessions s))(i \<mapsto>
     \<lparr>rs_user_id = user, rs_token_hash = h, rs_family_id = f, rs_expires_at = t, rs_revoked_at = None\<rparr>)"
  by (simp add: session_insert_def update_conv')

lemma sessions_revoke_family:
  "map_of (sessions (snd (revoke_family now f s))) =
     (\<lambda>i. map_option (\<lambda>u. if in_live_family f u then u\<lparr>rs_revoked_at := Some now\<rparr> else u) (map_of (sessions s) i))"
  by (simp add: revoke_family_def map_of_map fun_eq_iff)

lemma sessions_revoke_live:
  "map_of (sessions s) i = Some u \<Longrightarrow> rs_revoked_at u = None \<Longrightarrow>
   map_of (sessions (snd (revoke_session now i s))) = (map_of (sessions s))(i \<mapsto> u\<lparr>rs_revoked_at := Some now\<rparr>)"
  by (simp add: revoke_session_def update_conv')

lemma sess_change_revoke: "sess_change (map_of (sessions s)) (map_of (sessions (snd (revoke_session now i s))))"
proof (cases "\<exists>u. map_of (sessions s) i = Some u \<and> rs_revoked_at u = None")
  case True
  then show ?thesis by (auto simp: sessions_revoke_live intro: ended)
next
  case False
  then have "snd (revoke_session now i s) = s" by (auto simp: revoke_session_def split: option.split)
  then show ?thesis by (simp add: same)
qed

lemma keys_insert: "distinct (map fst (sessions s)) \<Longrightarrow> distinct (map fst (sessions (session_insert i user h f t s)))"
  by (simp add: session_insert_def distinct_update)

lemma keys_revoke: "distinct (map fst (sessions s)) \<Longrightarrow> distinct (map fst (sessions (snd (revoke_session now i s))))"
  by (simp add: revoke_session_def distinct_update split: option.split)

lemma keys_revoke_family: "map fst (sessions (snd (revoke_family now f s))) = map fst (sessions s)"
  by (auto simp: revoke_family_def)

definition fresh_for :: "'g auth_env \<Rightarrow> fresh \<Rightarrow> (uuid \<Rightarrow> refresh_session option) \<Rightarrow> bool" where
  "fresh_for E fr m \<longleftrightarrow> m (fr_session fr) = None \<and>
     (\<forall>j s. m j = Some s \<longrightarrow> rs_family_id s \<noteq> fr_family fr \<and> rs_token_hash s \<noteq> drawn_hash E fr)"

lemma auth_ok_fresh: "auth_ok E s c \<Longrightarrow> fresh_for E (ac_fresh c) (sess (fst s))"
  unfolding auth_ok_def fresh_for_def by (auto dest!: map_of_SomeD)

abbreviation keys_ok :: "'g auth_state \<Rightarrow> bool" where
  "keys_ok st \<equiv> distinct (map fst (sessions (refresh_store st)))"

lemma issue_change:
  assumes "fresh_for E fr (sess st)" "keys_ok st"
  shows "sess_change (sess st) (sess (snd (issue_auth_session E fr now user st))) \<and>
    keys_ok (snd (issue_auth_session E fr now user st))"
proof (cases "snd (issue_auth_session E fr now user st) = st")
  case True
  then show ?thesis using assms(2) by (simp add: same)
next
  case False
  then have eq: "refresh_store (snd (issue_auth_session E fr now user st)) =
      session_insert (fr_session fr) (au_id user) (drawn_hash E fr) (fr_family fr) (now + DEFAULT_REFRESH_TOKEN_TTL) (refresh_store st)"
    by (auto simp: issue_auth_session_def drawn_hash_def Let_def split_beta split: if_splits option.splits)
  then show ?thesis
    using assms by (auto simp: sessions_insert fresh_for_def keys_insert intro!: opened)
qed

lemma change_refl: "refresh_store st1 = refresh_store st \<Longrightarrow> keys_ok st \<Longrightarrow> sess_change (sess st) (sess st1) \<and> keys_ok st1"
  by (simp add: same)

lemma issue_change_from:
  assumes "fresh_for E fr (sess st)" "keys_ok st" "refresh_store st1 = refresh_store st"
  shows "sess_change (sess st) (sess (snd (issue_auth_session E fr now user st1))) \<and>
    keys_ok (snd (issue_auth_session E fr now user st1))"
  using issue_change [of E fr st1 now user] assms by simp

lemma callback_change:
  assumes "fresh_for E fr (sess st)" "keys_ok st"
  shows "sess_change (sess st) (sess (snd (callback_github_oauth E fr tick now p st))) \<and>
    keys_ok (snd (callback_github_oauth E fr tick now p st))"
  unfolding callback_github_oauth_def Let_def
  by (auto simp: split_beta same assms(2) split: rate_limit_decision.split option.split sum.split prod.split
      intro!: issue_change_from [OF assms, THEN conjunct1] issue_change_from [OF assms, THEN conjunct2])

lemma register_change:
  assumes "fresh_for E fr (sess st)" "keys_ok st"
  shows "sess_change (sess st) (sess (snd (register_password_user E fr now email name password st))) \<and>
    keys_ok (snd (register_password_user E fr now email name password st))"
  unfolding register_password_user_def
  by (auto simp: same assms(2) split: sum.split prod.split
      intro!: issue_change_from [OF assms, THEN conjunct1] issue_change_from [OF assms, THEN conjunct2])

lemma login_change:
  assumes "fresh_for E fr (sess st)" "keys_ok st"
  shows "sess_change (sess st) (sess (snd (login_password_user E fr now email password st))) \<and>
    keys_ok (snd (login_password_user E fr now email password st))"
  unfolding login_password_user_def
  by (auto simp: same assms(2) split: sum.split option.split
      intro!: issue_change_from [OF assms, THEN conjunct1] issue_change_from [OF assms, THEN conjunct2])

text \<open>What a refresh does, by the session its token belongs to.\<close>

lemma refresh_issue_store:
  "refresh_store (snd (refresh_issue E fr now u st)) =
     session_insert (fr_session fr) (rs_user_id u) (drawn_hash E fr) (rs_family_id u) (now + DEFAULT_REFRESH_TOKEN_TTL) (refresh_store st)"
  by (auto simp: refresh_issue_def drawn_hash_def Let_def split_beta split: option.split)

lemma refresh_cases:
  assumes "keys_ok st" "sess_inv (sess st)"
  obtains (limited) l where "handle_token_refresh E fr tick now token st = (Err (from_code RateLimited), st\<lparr>refresh_rate_limiter := l\<rparr>)"
  | (refused) e st1 where "handle_token_refresh E fr tick now token st = (Err e, st1)" "refresh_store st1 = refresh_store st"
      "\<forall>i u. sess st i = Some u \<longrightarrow> rs_token_hash u = sha256 E (as_bytes token) \<longrightarrow> rs_revoked_at u = None"
  | (reused) e st1 i u where "handle_token_refresh E fr tick now token st = (Err e, st1)" "re_code e = AuthTokenRevoked"
      "sess st i = Some u" "rs_token_hash u = sha256 E (as_bytes token)" "rs_revoked_at u \<noteq> None"
      "refresh_store st1 = snd (revoke_family now (rs_family_id u) (refresh_store st))"
  | (rotated) r st1 i u new where "handle_token_refresh E fr tick now token st = (r, st1)"
      "sess st i = Some u" "rs_token_hash u = sha256 E (as_bytes token)" "rs_revoked_at u = None"
      "sess st1 = (sess st)(i \<mapsto> u\<lparr>rs_revoked_at := Some now\<rparr>, fr_session fr \<mapsto> new)"
      "rs_token_hash new = drawn_hash E fr" "rs_family_id new = rs_family_id u" "rs_revoked_at new = None" "keys_ok st1"
proof -
  let ?h = "sha256 E (as_bytes token)" and ?s = "refresh_store st"
  obtain d l where lim: "limiter_check tick (refresh_rate_limiter st) = (d, l)" by fastforce
  let ?st = "st\<lparr>refresh_rate_limiter := l\<rparr>"
  show thesis
  proof (cases d)
    case (Limited n)
    then show thesis using limited lim by (simp add: handle_token_refresh_def)
  next
    case Allowed
    show thesis
    proof (cases "find_by_hash ?h ?s")
      case None
      then show thesis using refused lim Allowed find_by_hash_None [OF None] by (simp add: handle_token_refresh_def)
    next
      case (Some x)
      obtain i u where x: "x = (i, u)" by (cases x)
      have u: "sess st i = Some u" "rs_token_hash u = ?h" using find_by_hash_Some [OF assms(1)] Some x by auto
      consider (revoked) "rs_revoked_at u \<noteq> None" | (expired) "rs_revoked_at u = None" "rs_expires_at u < now"
        | (good) "rs_revoked_at u = None" "\<not> rs_expires_at u < now" by blast
      then show thesis
      proof cases
        case revoked
        then show thesis using reused [OF _ _ u] lim Allowed Some x
          by (auto simp: handle_token_refresh_def refresh_rotate_def error_new_def)
      next
        case expired
        have "\<forall>j v. sess st j = Some v \<longrightarrow> rs_token_hash v = ?h \<longrightarrow> rs_revoked_at v = None"
          using sess_invD [OF assms(2) u(1)] u expired(1) by (metis option.inject)
        then show thesis using refused lim Allowed Some x expired
          by (simp add: handle_token_refresh_def refresh_rotate_def)
      next
        case good
        let ?st1 = "snd (refresh_issue E fr now u (?st\<lparr>refresh_store := snd (revoke_session now i ?s)\<rparr>))"
        have eq: "handle_token_refresh E fr tick now token st =
            refresh_issue E fr now u (?st\<lparr>refresh_store := snd (revoke_session now i ?s)\<rparr>)"
          using lim Allowed Some x good by (simp add: handle_token_refresh_def refresh_rotate_def)
        have store: "sess ?st1 = (sess st)(i \<mapsto> u\<lparr>rs_revoked_at := Some now\<rparr>, fr_session fr \<mapsto>
            \<lparr>rs_user_id = rs_user_id u, rs_token_hash = drawn_hash E fr, rs_family_id = rs_family_id u,
             rs_expires_at = now + DEFAULT_REFRESH_TOKEN_TTL, rs_revoked_at = None\<rparr>)"
          using u(1) good by (simp add: refresh_issue_store sessions_insert sessions_revoke_live)
        have "keys_ok ?st1" using assms(1) by (simp add: refresh_issue_store keys_insert keys_revoke)
        then show thesis using rotated [OF _ u good(1) store] eq by (metis prod.collapse refresh_session.select_convs(2,3,5))
      qed
    qed
  qed
qed

lemma refresh_change:
  assumes "fresh_for E fr (sess st)" "keys_ok st" "sess_inv (sess st)"
  shows "sess_change (sess st) (sess (snd (handle_token_refresh E fr tick now token st))) \<and>
    keys_ok (snd (handle_token_refresh E fr tick now token st))"
  using assms(2,3)
proof (cases rule: refresh_cases [where E = E and fr = fr and tick = tick and now = now and token = token])
  case (reused e st1 i u)
  then show ?thesis using assms(2) by (simp add: sessions_revoke_family keys_revoke_family family)
next
  case (rotated r st1 i u new)
  have "\<forall>k v. sess st k = Some v \<longrightarrow> rs_token_hash v \<noteq> rs_token_hash new" "sess st (fr_session fr) = None"
    using assms(1) rotated(6) by (simp_all add: fresh_for_def)
  then show ?thesis using rotated sess_change.rotated [of "sess st" i u "fr_session fr" new now] by simp
qed (use assms(2) in \<open>simp_all add: same\<close>)

lemma serve_change:
  assumes "auth_ok E (st, log) c" "keys_ok st" "sess_inv (sess st)"
  shows "sess_change (sess st) (sess (snd (auth_serve E c st))) \<and> keys_ok (snd (auth_serve E c st))"
proof -
  note fr = auth_ok_fresh [OF assms(1), simplified]
  note ch = callback_change [OF fr assms(2)] register_change [OF fr assms(2)] login_change [OF fr assms(2)]
    refresh_change [OF fr assms(2,3)]
  have start: "refresh_store (snd (start_github_oauth E fr tick now p st)) = refresh_store st" for fr tick now p
    by (auto simp: start_github_oauth_def Let_def split: rate_limit_decision.split sum.split prod.split)
  have pw: "refresh_store (snd (change_password E fr now a old new st)) = refresh_store st" for fr now a old new
    by (auto simp: change_password_def Let_def split: sum.split option.split prod.split)
  have logout: "sess_change (sess st) (sess (snd (handle_logout E now a token st))) \<and> keys_ok (snd (handle_logout E now a token st))"
    for now a token
    using assms(2) by (auto simp: handle_logout_def same sess_change_revoke keys_revoke split: sum.split option.split)
  show ?thesis
    using ch logout assms(2) start pw
    by (cases "ac_op c") (simp_all add: auth_serve_def Let_def outcome_def relay_outcome_def same)
qed

section \<open>Rotation\<close>

definition sessions_ok :: "'g auth_state \<times> auth_log \<Rightarrow> bool" where
  "sessions_ok s \<longleftrightarrow> keys_ok (fst s) \<and> sess_inv (sess (fst s))"

interpretation auth_sessions: inv_system "auth_step E" "auth_ok E" sessions_ok
  for E :: "'g auth_env"
proof
  fix s c
  assume "sessions_ok s" "auth_ok E s c"
  then show "sessions_ok (auth_step E s c)"
    using serve_change [of E "fst s" "snd s" c] sess_change_inv by (auto simp: sessions_ok_def auth_step_def)
qed

lemma sessions_ok_start: "auth_initial st \<Longrightarrow> sessions_ok (st, [])"
  by (simp add: auth_initial_def sessions_ok_def sess_inv_def)

text \<open>What holds of the sessions and survives every change of them survives every run.\<close>

lemma session_fact_run:
  assumes "\<And>m m'. sess_change m m' \<Longrightarrow> P m \<Longrightarrow> P m'"
  shows "sessions_ok s \<Longrightarrow> run_ok (auth_step E) (auth_ok E) s cs \<Longrightarrow> P (sess (fst s)) \<Longrightarrow>
    P (sess (fst (foldl (auth_step E) s cs)))"
proof (induction cs arbitrary: s)
  case (Cons c cs)
  have ok: "auth_ok E s c" and inv: "sessions_ok s" using Cons.prems by auto
  have "sess_change (sess (fst s)) (sess (fst (auth_step E s c)))"
    using serve_change [of E "fst s" "snd s" c] ok inv by (simp add: sessions_ok_def auth_step_def)
  then show ?case using Cons auth_sessions.inv_step [OF inv ok] assms by auto
qed simp

lemma spent_run:
  "sessions_ok s \<Longrightarrow> run_ok (auth_step E) (auth_ok E) s cs \<Longrightarrow> spent h f (sess (fst s)) \<Longrightarrow>
   spent h f (sess (fst (foldl (auth_step E) s cs)))"
  by (rule session_fact_run) (rule sess_change_spent)

lemma in_family_run:
  "sessions_ok s \<Longrightarrow> run_ok (auth_step E) (auth_ok E) s cs \<Longrightarrow> in_family h f (sess (fst s)) \<Longrightarrow>
   in_family h f (sess (fst (foldl (auth_step E) s cs)))"
  by (rule session_fact_run) (rule sess_change_in_family)

lemma closed_run:
  "sessions_ok s \<Longrightarrow> run_ok (auth_step E) (auth_ok E) s cs \<Longrightarrow> family_closed f (sess (fst s)) \<Longrightarrow>
   family_closed f (sess (fst (foldl (auth_step E) s cs)))"
  by (rule session_fact_run) (rule sess_change_closed)

lemma refresh_token_drawn:
  "fst (handle_token_refresh E fr tick now token st) = Inr r \<Longrightarrow> sha256 E (as_bytes (rp_refresh_token r)) = drawn_hash E fr"
  by (auto simp: handle_token_refresh_def refresh_issue_def drawn_hash_def generate_refresh_token_def Let_def split_beta
      split: rate_limit_decision.splits prod.splits option.splits sum.splits if_splits)

lemma serve_refresh:
  "ac_op c = Refresh token \<Longrightarrow> auth_serve E c st =
     relay_outcome Refreshed (handle_token_refresh E (ac_fresh c) (ac_tick c) (ac_now c) token st)"
  by (simp add: auth_serve_def Let_def)

text \<open>A successful refresh spends its token and leaves the new one in the same family.\<close>

lemma refresh_spends:
  assumes "sessions_ok (st, log)" "ac_op c = Refresh token" "fst (auth_serve E c st) = Refreshed r" "auth_ok E (st, log) c"
  obtains f where "spent (sha256 E (as_bytes token)) f (sess (snd (auth_serve E c st)))"
    "in_family (sha256 E (as_bytes (rp_refresh_token r))) f (sess (snd (auth_serve E c st)))"
proof -
  let ?res = "handle_token_refresh E (ac_fresh c) (ac_tick c) (ac_now c) token st"
  have r: "fst ?res = Inr r" using assms(2,3) by (auto simp: serve_refresh relay_outcome_def split: sum.splits)
  have s: "snd (auth_serve E c st) = snd ?res" using assms(2) by (simp add: serve_refresh relay_outcome_def)
  have inv: "keys_ok st" "sess_inv (sess st)" using assms(1) by (simp_all add: sessions_ok_def)
  from inv show thesis
  proof (cases rule: refresh_cases [where E = E and fr = "ac_fresh c" and tick = "ac_tick c" and now = "ac_now c" and token = token])
    case (rotated r' st1 i u new)
    have "in_family (drawn_hash E (ac_fresh c)) (rs_family_id u) (sess st1)"
      using rotated(5-7) by (auto simp: in_family_def)
    moreover have "i \<noteq> fr_session (ac_fresh c)"
      using auth_ok_fresh [OF assms(4)] rotated(2) by (auto simp: fresh_for_def)
    then have "spent (sha256 E (as_bytes token)) (rs_family_id u) (sess st1)"
      using rotated(3,5) by (auto simp: spent_def intro!: exI [of _ i])
    ultimately show thesis using that s rotated(1) refresh_token_drawn [OF r] by simp
  qed (use r in auto)
qed

text \<open>A spent token that is presented again is refused and closes its family.\<close>

lemma refresh_spent:
  assumes "sessions_ok (st, log)" "spent (sha256 E (as_bytes token)) f (sess st)"
    and "handle_token_refresh E fr tick now token st = (r, st1)" "r \<noteq> Err (from_code RateLimited)"
  shows "\<exists>e. r = Err e \<and> re_code e = AuthTokenRevoked" "family_closed f (sess st1)"
proof -
  have inv: "keys_ok st" "sess_inv (sess st)" using assms(1) by (simp_all add: sessions_ok_def)
  obtain i u where u: "sess st i = Some u" "rs_token_hash u = sha256 E (as_bytes token)" "rs_family_id u = f" "rs_revoked_at u \<noteq> None"
    using assms(2) by (auto simp: spent_def)
  have same: "j = i \<and> v = u" if "sess st j = Some v" "rs_token_hash v = sha256 E (as_bytes token)" for j v
    using sess_invD [OF inv(2) that(1) u(1)] that u(1,2) by (cases "j = i") auto
  from inv have "(\<exists>e. r = Err e \<and> re_code e = AuthTokenRevoked) \<and> family_closed f (sess st1)"
  proof (cases rule: refresh_cases [where E = E and fr = fr and tick = tick and now = now and token = token])
    case (limited l)
    then show ?thesis using assms(3,4) by simp
  next
    case (refused e st2)
    have "rs_revoked_at u = None" using refused(3) u(1,2) by blast
    then show ?thesis using u(4) by simp
  next
    case (reused e st2 j v)
    have v: "v = u" "j = i" using same reused(3,4) by auto
    let ?g = "\<lambda>u. if in_live_family f u then u\<lparr>rs_revoked_at := Some now\<rparr> else u"
    have st2: "sess st2 = (\<lambda>i. map_option ?g (sess st i))" using reused(6) v u(3) by (simp add: sessions_revoke_family)
    have g: "rs_family_id (?g w) = rs_family_id w \<and> (rs_family_id w = f \<longrightarrow> rs_revoked_at (?g w) \<noteq> None)" for w
      by (simp add: in_live_family_def)
    have "sess st2 i = Some (?g u)" using u(1) st2 by simp
    moreover have "rs_revoked_at w \<noteq> None" if "sess st2 k = Some w" "rs_family_id w = f" for k w
    proof -
      obtain z where "w = ?g z" using \<open>sess st2 k = Some w\<close> st2 by (auto simp only: map_option_eq_Some)
      then show ?thesis using g [of z] that(2) by simp
    qed
    ultimately have "family_closed f (sess st2)" unfolding family_closed_def using g u(3) by blast
    then show ?thesis using reused assms(3) by simp
  next
    case (rotated r' st2 j v new)
    then show ?thesis using same [of j v] u(4) by simp
  qed
  then show "\<exists>e. r = Err e \<and> re_code e = AuthTokenRevoked" "family_closed f (sess st1)" by blast+
qed

lemma refresh_closed:
  assumes "sessions_ok (st, log)" "in_family (sha256 E (as_bytes token)) f (sess st)" "family_closed f (sess st)"
  shows "\<exists>e. fst (handle_token_refresh E fr tick now token st) = Err e"
proof -
  obtain r st1 where r: "handle_token_refresh E fr tick now token st = (r, st1)" by fastforce
  have "spent (sha256 E (as_bytes token)) f (sess st)"
    using assms(2,3) unfolding spent_def in_family_def family_closed_def by blast
  then show ?thesis using refresh_spent(1) [OF assms(1) _ r] r by (cases "r = Err (from_code RateLimited)") auto
qed

text \<open>
  (C25) Reuse of a refresh token locks its family out for good. In every sequence of requests to
  a freshly started service: once a refresh token was exchanged, presenting it again, whatever
  happened in between, is refused as revoked (unless the rate limit refuses it before), and
  from then on, whatever follows, every session of its family is revoked; neither it nor the
  token it was exchanged for is ever accepted again.
\<close>

theorem refresh_reuse_locks_family:
  assumes init: "auth_initial st0"
    and ok: "run_ok (auth_step E) (auth_ok E) (st0, []) (cs1 @ c1 # cs2 @ c2 # cs3)"
    and op: "ac_op c1 = Refresh token" "ac_op c2 = Refresh token"
    and first: "fst (auth_serve E c1 (fst (foldl (auth_step E) (st0, []) cs1))) = Refreshed r1"
    and second: "fst (auth_serve E c2 (fst (foldl (auth_step E) (st0, []) (cs1 @ c1 # cs2)))) = out2"
      "out2 \<noteq> Refused (Relay (from_code RateLimited))"
    and final: "fst (foldl (auth_step E) (st0, []) (cs1 @ c1 # cs2 @ c2 # cs3)) = st"
  shows "(\<exists>e. out2 = Refused (Relay e) \<and> re_code e = AuthTokenRevoked) \<and>
    (\<exists>family. in_family (sha256 E (as_bytes token)) family (sess st) \<and>
       in_family (sha256 E (as_bytes (rp_refresh_token r1))) family (sess st) \<and>
       (\<forall>i s. sess st i = Some s \<longrightarrow> rs_family_id s = family \<longrightarrow> rs_revoked_at s \<noteq> None)) \<and>
    (\<forall>fr tick now t. t = token \<or> t = rp_refresh_token r1 \<longrightarrow> (\<exists>e. fst (handle_token_refresh E fr tick now t st) = Err e))"
proof -
  let ?run = "foldl (auth_step E)" and ?ok = "run_ok (auth_step E) (auth_ok E)"
  let ?h = "sha256 E (as_bytes token)" and ?h1 = "sha256 E (as_bytes (rp_refresh_token r1))"
  define s1 s2 s3 s4 where "s1 = ?run (st0, []) cs1" and "s2 = auth_step E s1 c1" and "s3 = ?run s2 cs2" and "s4 = auth_step E s3 c2"
  note defs = s1_def s2_def s3_def s4_def
  have oks: "?ok (st0, []) cs1" "auth_ok E s1 c1" "?ok s2 cs2" "auth_ok E s3 c2" "?ok s4 cs3"
    using ok by (simp_all add: run_ok_append defs)
  have s: "sessions_ok s1" unfolding s1_def using auth_sessions.inv_run [OF sessions_ok_start [OF init] oks(1)] .
  note s2 = auth_sessions.inv_step [OF s oks(2), folded s2_def]
  note s3 = auth_sessions.inv_run [OF s2 oks(3), folded s3_def]
  note s4 = auth_sessions.inv_step [OF s3 oks(4), folded s4_def]
  have s5: "sessions_ok (?run s4 cs3)" using auth_sessions.inv_run [OF s4 oks(5)] .
  have st: "st = fst (?run s4 cs3)" using final by (simp add: defs)
  have "fst (auth_serve E c1 (fst s1)) = Refreshed r1" using first by (simp add: s1_def)
  then obtain f where f: "spent ?h f (sess (fst s2))" "in_family ?h1 f (sess (fst s2))"
    using refresh_spends [of "fst s1" "snd s1" c1 token E r1] s oks(2) op(1) by (auto simp: s2_def auth_step_def)
  have f3: "spent ?h f (sess (fst s3))" "in_family ?h1 f (sess (fst s3))"
    unfolding s3_def by (rule spent_run [OF s2 oks(3) f(1)]) (rule in_family_run [OF s2 oks(3) f(2)])
  obtain r st4 where r: "handle_token_refresh E (ac_fresh c2) (ac_tick c2) (ac_now c2) token (fst s3) = (r, st4)" by fastforce
  have out: "out2 = (case r of Inl e \<Rightarrow> Refused (Relay e) | Inr a \<Rightarrow> Refreshed a)"
    using second(1) r op(2) by (simp add: defs serve_refresh relay_outcome_def)
  have "fst s4 = st4" using r op(2) by (simp add: s4_def auth_step_def serve_refresh relay_outcome_def)
  moreover have "r \<noteq> Err (from_code RateLimited)" using second(2) out by auto
  ultimately have refused: "\<exists>e. r = Err e \<and> re_code e = AuthTokenRevoked" and closed: "family_closed f (sess (fst s4))"
    using refresh_spent [of "fst s3" "snd s3", OF _ f3(1) r] s3 by auto
  have keep: "sess_change (sess (fst s3)) (sess (fst s4))"
    using serve_change [of E "fst s3" "snd s3" c2] oks(4) s3 by (simp add: sessions_ok_def s4_def auth_step_def)
  have "in_family ?h f (sess (fst s3))" using f3(1) by (auto simp: spent_def in_family_def)
  then have fin: "in_family ?h f (sess st)" "in_family ?h1 f (sess st)" "family_closed f (sess st)"
    unfolding st
    using in_family_run [OF s4 oks(5)] closed_run [OF s4 oks(5) closed] sess_change_in_family [OF keep] f3(2) by blast+
  have "sessions_ok (st, snd (?run s4 cs3))" using s5 st by simp
  then have "\<forall>fr tick now t. t = token \<or> t = rp_refresh_token r1 \<longrightarrow> (\<exists>e. fst (handle_token_refresh E fr tick now t st) = Err e)"
    using refresh_closed fin by metis
  then show ?thesis using refused out fin by (auto simp: family_closed_def)
qed

definition demo_auth :: "unit auth_env" where
  "demo_auth =
     \<lparr>sha256 = id, base64url = map unat, url_parse = \<lambda>_. None, url_with_query = \<lambda>_ _. None,
      argon_hash = \<lambda>p salt. Some (map unat p), argon_verify = \<lambda>p h. Some (map unat p = h),
      jwt_encode = \<lambda>secret claims. Some [1], jwt_decode = \<lambda>secret now token. None,
      uuid_text = \<lambda>i. [i], parse_uuid = \<lambda>_. None, to_lowercase = id,
      exchange_code = \<lambda>_ _ _ _ w. (Err (from_code AuthCodeInvalid), w),
      get_user_info = \<lambda>_ w. (Err (from_code InternalError), w)\<rparr>"

definition demo_service :: "unit auth_state" where
  "demo_service =
     \<lparr>flow_store = [], start_rate_limiter = limiter_new 3 100, callback_rate_limiter = limiter_new 3 100,
      refresh_rate_limiter = limiter_new 3 100, github_client_id = [], github_client_secret = [],
      github_authorize_url = [], github_scope = [], flow_ttl = 100,
      refresh_store = \<lparr>sessions = [], users = []\<rparr>, password_store = [], jwt_secret = replicate 32 97, github = ()\<rparr>"

definition demo_call :: "nat \<Rightarrow> auth_op \<Rightarrow> auth_call" where
  "demo_call n op =
     \<lparr>ac_tick = n, ac_now = int n,
      ac_fresh = \<lparr>fr_flow = n, fr_user = n, fr_session = n, fr_family = n, fr_bytes = [of_nat n], fr_salt = []\<rparr>, ac_op = op\<rparr>"

definition demo_calls :: "auth_call list" where
  "demo_calls =
     [demo_call 2 (Register [97, 64, 98] [97] (replicate 8 97)), demo_call 3 (Refresh [2]), demo_call 4 (Refresh [2])]"

definition demo_session :: "nat \<Rightarrow> int option \<Rightarrow> refresh_session" where
  "demo_session n revoked =
     \<lparr>rs_user_id = 2, rs_token_hash = [of_nat n], rs_family_id = 2, rs_expires_at = int n + DEFAULT_REFRESH_TOKEN_TTL,
      rs_revoked_at = revoked\<rparr>"

lemma demo_trim: "trim [97, 64, 98] = [97, 64, 98]" "trim [97] = [97]"
  by (simp_all add: trim_def trim_start_def trim_end_def is_whitespace_def)

lemma demo_utf8: "as_bytes (replicate 8 97) = replicate 8 97"
  by (simp add: as_bytes_def utf8_char_def numeral_eq_Suc)

lemma demo_token:
  "jwt_service_ok (replicate 32 97)" "0 \<le> now \<Longrightarrow> now < 1000000000 \<Longrightarrow> issue_workspace_token demo_auth secret user ws now = Some [1]"
proof -
  show "jwt_service_ok (replicate 32 97)" by (simp add: jwt_service_ok_def len_utf8_def numeral_eq_Suc)
  assume "0 \<le> now" "now < 1000000000"
  then have "now div 1000000000 = 0" by (rule div_pos_pos_trivial)
  then show "issue_workspace_token demo_auth secret user ws now = Some [1]"
    using \<open>0 \<le> now\<close> by (simp add: issue_workspace_token_def current_unix_timestamp_def i64_max_def demo_auth_def)
qed

lemma demo_select [simp]:
  "sha256 demo_auth = id" "base64url demo_auth = map unat" "argon_hash demo_auth p salt = Some (map unat p)"
  "argon_verify demo_auth p h = Some (map unat p = h)" "to_lowercase demo_auth = id"
  by (simp_all add: demo_auth_def)

lemma demo_register:
  "auth_serve demo_auth (demo_call 2 (Register [97, 64, 98] [97] (replicate 8 97))) demo_service =
     (SessionOpened \<lparr>ap_access_token = [1], ap_access_expires_at = 2 + DEFAULT_ACCESS_TOKEN_TTL, ap_refresh_token = [2],
        ap_refresh_expires_at = 2 + DEFAULT_REFRESH_TOKEN_TTL, ap_user = \<lparr>au_id = 2, au_email = [97, 64, 98], au_display_name = [97]\<rparr>\<rparr>,
      demo_service\<lparr>refresh_store := \<lparr>sessions = [(2, demo_session 2 None)], users = [(2, [2])]\<rparr>,
        password_store := [([97, 64, 98], \<lparr>pu_id = 2, pu_email = [97, 64, 98], pu_display_name = [97], pu_password_hash = replicate 8 97\<rparr>)]\<rparr>)"
  using demo_token by (simp add: auth_serve_def demo_call_def demo_service_def register_password_user_def normalize_email_def demo_trim validate_password_def
      MIN_PASSWORD_LEN_def MAX_PASSWORD_LEN_def hash_password_def create_user_def issue_auth_session_def Let_def relay_outcome_def
      generate_refresh_token_def session_insert_def public_user_def demo_session_def demo_utf8 utf8_char_def)

lemma demo_refresh:
  assumes "sessions (refresh_store st) = [(2, demo_session 2 None)]" "jwt_secret st = replicate 32 97" "refresh_rate_limiter st = limiter_new 3 100"
  shows "\<exists>r st1. auth_serve demo_auth (demo_call 3 (Refresh [2])) st = (Refreshed r, st1) \<and>
    sessions (refresh_store st1) = [(2, demo_session 2 (Some 3)), (3, demo_session 3 None)] \<and> rl_requests (refresh_rate_limiter st1) = [3] \<and>
    max_requests (refresh_rate_limiter st1) = 3 \<and> rl_window (refresh_rate_limiter st1) = 100 \<and> password_store st1 = password_store st"
  using assms demo_token
  by (simp add: auth_serve_def demo_call_def handle_token_refresh_def limiter_check_def limiter_new_def find_by_hash_def utf8_char_def
      refresh_rotate_def revoke_session_def refresh_issue_def session_insert_def generate_refresh_token_def relay_outcome_def Let_def
      demo_session_def DEFAULT_REFRESH_TOKEN_TTL_def)

lemma demo_reuse:
  assumes "sessions (refresh_store st) = [(2, demo_session 2 (Some 3)), (3, demo_session 3 None)]"
    "rl_requests (refresh_rate_limiter st) = [3]" "max_requests (refresh_rate_limiter st) = 3" "rl_window (refresh_rate_limiter st) = 100"
  shows "fst (auth_serve demo_auth (demo_call 4 (Refresh [2])) st) \<noteq> Refused (Relay (from_code RateLimited))"
  using assms
  by (simp add: auth_serve_def demo_call_def handle_token_refresh_def limiter_check_def find_by_hash_def utf8_char_def
      refresh_rotate_def relay_outcome_def Let_def demo_session_def from_code_def error_new_def)

theorem refresh_reuse_locks_family_witness:
  "\<exists>e. fst (auth_serve demo_auth (demo_call 4 (Refresh [2]))
      (fst (foldl (auth_step demo_auth) (demo_service, []) (take 2 demo_calls)))) = Refused (Relay e) \<and> re_code e = AuthTokenRevoked"
proof -
  let ?run = "foldl (auth_step demo_auth) (demo_service, [])"
  let ?c0 = "demo_call 2 (Register [97, 64, 98] [97] (replicate 8 97))" and ?c1 = "demo_call 3 (Refresh [2])" and ?c2 = "demo_call 4 (Refresh [2])"
  define s1 s2 where "s1 = ?run [?c0]" and "s2 = ?run [?c0, ?c1]"
  have init: "auth_initial demo_service" by (simp add: auth_initial_def demo_service_def)
  have st1: "sessions (refresh_store (fst s1)) = [(2, demo_session 2 None)]" "jwt_secret (fst s1) = replicate 32 97"
      "refresh_rate_limiter (fst s1) = limiter_new 3 100" "length (password_store (fst s1)) = 1"
      "pu_id (snd (hd (password_store (fst s1)))) = 2" "snd s1 = [(?c0, fst (auth_serve demo_auth ?c0 demo_service))]"
    by (simp_all add: s1_def auth_step_def demo_register) (simp_all only: demo_service_def auth_state.select_convs)
  obtain r st2 where r: "auth_serve demo_auth ?c1 (fst s1) = (Refreshed r, st2)"
    and st2: "sessions (refresh_store st2) = [(2, demo_session 2 (Some 3)), (3, demo_session 3 None)]"
      "rl_requests (refresh_rate_limiter st2) = [3]" "max_requests (refresh_rate_limiter st2) = 3"
      "rl_window (refresh_rate_limiter st2) = 100" "password_store st2 = password_store (fst s1)"
    using demo_refresh [OF st1(1-3)] by blast
  have s2: "s2 = (st2, snd s1 @ [(?c1, Refreshed r)])" using r by (simp add: s2_def s1_def auth_step_def)
  obtain e u where ps: "password_store (fst s1) = [(e, u)]" "pu_id u = 2"
    using st1(4,5) by (cases "password_store (fst s1)") auto
  have "auth_ok demo_auth (demo_service, []) ?c0" by (simp add: auth_ok_def demo_service_def)
  moreover have "auth_ok demo_auth s1 ?c1"
    using st1 ps by (simp add: auth_ok_def demo_call_def demo_session_def drawn_hash_def generate_refresh_token_def utf8_char_def)
  moreover have "auth_ok demo_auth s2 ?c2"
    using st1(6) st2 ps s2 by (simp add: auth_ok_def demo_call_def demo_session_def drawn_hash_def generate_refresh_token_def utf8_char_def)
  ultimately have ok: "run_ok (auth_step demo_auth) (auth_ok demo_auth) (demo_service, []) ([?c0] @ ?c1 # [] @ ?c2 # [])"
    by (simp add: s1_def s2_def)
  have op: "ac_op ?c1 = Refresh [2]" "ac_op ?c2 = Refresh [2]" by (simp_all add: demo_call_def)
  have first: "fst (auth_serve demo_auth ?c1 (fst (?run [?c0]))) = Refreshed r" using r by (simp add: s1_def)
  have second: "fst (auth_serve demo_auth ?c2 (fst (?run ([?c0] @ ?c1 # [])))) \<noteq> Refused (Relay (from_code RateLimited))"
    using demo_reuse [OF st2(1-4)] s2 by (simp add: s2_def)
  show ?thesis
    using refresh_reuse_locks_family [OF init ok op first refl second refl] by (simp add: demo_calls_def numeral_2_eq_2)
qed

end
