(* ===== verification/AuthRace.thy ===== *)
theory AuthRace
  imports AuthRuns
begin

text \<open>
  Concurrent refreshes. Between the lookup of a session, its revocation and the insertion of the
  new one \<open>handle_token_refresh\<close> gives up its lock, so that other requests run there. A task is
  one such request after its rate limit; \<open>refresh_task_step\<close> takes it to its next lock.
\<close>

datatype refresh_task =
    Waiting rstr
  | Found uuid refresh_session
  | Rotated refresh_session
  | Finished "(relay_error, refresh_response) result"

inductive refresh_task_step :: "'g auth_env \<Rightarrow> refresh_task \<times> 'g auth_state \<Rightarrow> refresh_task \<times> 'g auth_state \<Rightarrow> bool" for E where
  unknown: "find_by_hash (sha256 E (as_bytes token)) (refresh_store st) = None \<Longrightarrow>
    refresh_task_step E (Waiting token, st) (Finished (Err (from_code AuthInvalidToken)), st)"
| lookup: "find_by_hash (sha256 E (as_bytes token)) (refresh_store st) = Some (i, u) \<Longrightarrow>
    refresh_task_step E (Waiting token, st) (Found i u, st)"
| refuse: "refresh_rotate now (i, u) (refresh_store st) = (Inl e, s) \<Longrightarrow>
    refresh_task_step E (Found i u, st) (Finished (Err e), st\<lparr>refresh_store := s\<rparr>)"
| rotate: "refresh_rotate now (i, u) (refresh_store st) = (Inr r, s) \<Longrightarrow>
    refresh_task_step E (Found i u, st) (Rotated u, st\<lparr>refresh_store := s\<rparr>)"
| issue: "refresh_issue E fr now u st = (r, st1) \<Longrightarrow> refresh_task_step E (Rotated u, st) (Finished r, st1)"

inductive_simps waiting_step: "refresh_task_step E (Waiting token, st) x"
inductive_cases finished_stepE: "refresh_task_step E (Finished r, st) x"

text \<open>Some task of the list makes a step.\<close>

inductive tasks_step :: "'g auth_env \<Rightarrow> refresh_task list \<times> 'g auth_state \<Rightarrow> refresh_task list \<times> 'g auth_state \<Rightarrow> bool" for E where
  turn: "k < length ts \<Longrightarrow> refresh_task_step E (ts ! k, st) (t, st1) \<Longrightarrow> tasks_step E (ts, st) (ts[k := t], st1)"

text \<open>Alone, the steps of a task are the handler.\<close>

lemma task_alone:
  assumes "limiter_check tick (refresh_rate_limiter st) = (Allowed, l)"
    and "handle_token_refresh E fr tick now token st = (r, st1)"
  shows "(refresh_task_step E)\<^sup>*\<^sup>* (Waiting token, st\<lparr>refresh_rate_limiter := l\<rparr>) (Finished r, st1)"
proof -
  let ?st = "st\<lparr>refresh_rate_limiter := l\<rparr>"
  show ?thesis
  proof (cases "find_by_hash (sha256 E (as_bytes token)) (refresh_store st)")
    case None
    then show ?thesis using assms unknown [of E token ?st] by (auto simp: handle_token_refresh_def)
  next
    case (Some x)
    obtain i u where x: "x = (i, u)" by (cases x)
    obtain q s where q: "refresh_rotate now (i, u) (refresh_store st) = (q, s)" by fastforce
    have first: "refresh_task_step E (Waiting token, ?st) (Found i u, ?st)" using Some x by (intro lookup) simp
    show ?thesis
    proof (cases q)
      case (Inl e)
      then have "refresh_task_step E (Found i u, ?st) (Finished r, st1)"
        using assms Some x q refuse [of now i u ?st e s E] by (simp add: handle_token_refresh_def)
      then show ?thesis using first by auto
    next
      case (Inr y)
      then have "refresh_task_step E (Found i u, ?st) (Rotated u, ?st\<lparr>refresh_store := s\<rparr>)"
        using q by (intro rotate) auto
      moreover have "refresh_task_step E (Rotated u, ?st\<lparr>refresh_store := s\<rparr>) (Finished r, st1)"
        using assms Some x q Inr by (intro issue [of E fr now]) (simp add: handle_token_refresh_def)
      ultimately show ?thesis using first by (blast intro: converse_rtranclp_into_rtranclp)
    qed
  qed
qed

lemma refresh_issue_okay:
  "jwt_service_ok (jwt_secret st) \<Longrightarrow> issue_workspace_token E (jwt_secret st) (rs_user_id u) 0 now \<noteq> None \<Longrightarrow>
   \<exists>r. refresh_issue E fr now u st =
     (Okay r, st\<lparr>refresh_store := session_insert (fr_session fr) (rs_user_id u) (drawn_hash E fr) (rs_family_id u)
        (now + DEFAULT_REFRESH_TOKEN_TTL) (refresh_store st)\<rparr>) \<and> rp_refresh_token r = base64url E (fr_bytes fr)"
  by (auto simp: refresh_issue_def drawn_hash_def generate_refresh_token_def Let_def)

text \<open>
  Two concurrent refreshes of one token both succeed: whenever a session is valid, the steps
  of two requests with its token can interleave so that both are answered with a new token.
  Afterwards its family has two valid sessions, although rotation promises at most one, and no
  reuse was detected.
\<close>

theorem concurrent_refresh_forks:
  assumes inv: "sessions_ok (st, log)" and valid: "sess st i = Some u" "rs_token_hash u = sha256 E (as_bytes token)"
      "rs_revoked_at u = None" "now \<le> rs_expires_at u"
    and jwt: "jwt_service_ok (jwt_secret st)" "issue_workspace_token E (jwt_secret st) (rs_user_id u) 0 now \<noteq> None"
    and fresh: "sess st (fr_session fr1) = None" "sess st (fr_session fr2) = None" "fr_session fr1 \<noteq> fr_session fr2"
  shows "\<exists>r1 r2 st1.
    (tasks_step E)\<^sup>*\<^sup>* ([Waiting token, Waiting token], st) ([Finished (Okay r1), Finished (Okay r2)], st1) \<and>
    rp_refresh_token r1 = base64url E (fr_bytes fr1) \<and> rp_refresh_token r2 = base64url E (fr_bytes fr2) \<and>
    (\<forall>fr \<in> {fr1, fr2}. \<exists>s. sess st1 (fr_session fr) = Some s \<and> rs_token_hash s = drawn_hash E fr \<and>
       rs_family_id s = rs_family_id u \<and> rs_revoked_at s = None)"
proof -
  have keys: "distinct (map fst (sessions (refresh_store st)))" using inv by (simp add: sessions_ok_def)
  have found: "find_by_hash (sha256 E (as_bytes token)) (refresh_store st) = Some (i, u)"
  proof (cases "find_by_hash (sha256 E (as_bytes token)) (refresh_store st)")
    case None
    then show ?thesis using find_by_hash_None [OF None valid(1)] valid(2) by simp
  next
    case (Some x)
    obtain j v where x: "x = (j, v)" by (cases x)
    note v = find_by_hash_Some [OF keys Some [unfolded x]]
    have "j = i" using sess_invD [OF _ v(1) valid(1)] inv v(2) valid(2) by (auto simp: sessions_ok_def)
    then show ?thesis using Some x v(1) valid(1) by simp
  qed
  define s1 where "s1 = snd (revoke_session now i (refresh_store st))"
  define s2 where "s2 = snd (revoke_session now i s1)"
  let ?put = "\<lambda>fr. session_insert (fr_session fr) (rs_user_id u) (drawn_hash E fr) (rs_family_id u) (now + DEFAULT_REFRESH_TOKEN_TTL)"
  let ?st2 = "st\<lparr>refresh_store := s2\<rparr>" and ?st3 = "st\<lparr>refresh_store := ?put fr1 s2\<rparr>"
  let ?st4 = "st\<lparr>refresh_store := ?put fr2 (?put fr1 s2)\<rparr>"
  have rot: "refresh_rotate now (i, u) s = (Inr (), snd (revoke_session now i s))" for s
    using valid by (simp add: refresh_rotate_def)
  obtain r1 where r1: "refresh_issue E fr1 now u ?st2 = (Okay r1, ?st3)" "rp_refresh_token r1 = base64url E (fr_bytes fr1)"
    using refresh_issue_okay [of ?st2 E u now fr1] jwt by auto
  obtain r2 where r2: "refresh_issue E fr2 now u ?st3 = (Okay r2, ?st4)" "rp_refresh_token r2 = base64url E (fr_bytes fr2)"
    using refresh_issue_okay [of ?st3 E u now fr2] jwt by auto
  have a: "tasks_step E ([Waiting token, Waiting token], st) ([Found i u, Waiting token], st)"
    using turn [of 0 "[Waiting token, Waiting token]" E st] lookup [OF found] by simp
  have b: "tasks_step E ([Found i u, Waiting token], st) ([Found i u, Found i u], st)"
    using turn [of 1 "[Found i u, Waiting token]" E st] lookup [OF found] by simp
  have c: "tasks_step E ([Found i u, Found i u], st) ([Rotated u, Found i u], st\<lparr>refresh_store := s1\<rparr>)"
    using turn [of 0 "[Found i u, Found i u]" E st] rotate [OF rot, of E st] by (simp add: s1_def)
  have d: "tasks_step E ([Rotated u, Found i u], st\<lparr>refresh_store := s1\<rparr>) ([Rotated u, Rotated u], ?st2)"
    using turn [of 1 "[Rotated u, Found i u]" E "st\<lparr>refresh_store := s1\<rparr>"] rotate [OF rot, of E "st\<lparr>refresh_store := s1\<rparr>"]
    by (simp add: s2_def)
  have e: "tasks_step E ([Rotated u, Rotated u], ?st2) ([Finished (Okay r1), Rotated u], ?st3)"
    using turn [of 0 "[Rotated u, Rotated u]" E ?st2] issue [OF r1(1)] by simp
  have f: "tasks_step E ([Finished (Okay r1), Rotated u], ?st3) ([Finished (Okay r1), Finished (Okay r2)], ?st4)"
    using turn [of 1 "[Finished (Okay r1), Rotated u]" E ?st3] issue [OF r2(1)] by simp
  have "(tasks_step E)\<^sup>*\<^sup>* ([Waiting token, Waiting token], st) ([Finished (Okay r1), Finished (Okay r2)], ?st4)"
    using a b c d e f by (meson converse_rtranclp_into_rtranclp rtranclp.rtrancl_refl)
  moreover have "\<forall>fr \<in> {fr1, fr2}. \<exists>s. sess ?st4 (fr_session fr) = Some s \<and> rs_token_hash s = drawn_hash E fr \<and>
       rs_family_id s = rs_family_id u \<and> rs_revoked_at s = None"
    using fresh(3) by (simp add: sessions_insert)
  ultimately show ?thesis using r1(2) r2(2) by blast
qed

text \<open>The service that registered one account, and the token of its session.\<close>

definition registered :: "unit auth_state" where
  "registered = demo_service\<lparr>refresh_store := \<lparr>sessions = [(2, demo_session 2 None)], users = [(2, [2])]\<rparr>\<rparr>"

theorem concurrent_refresh_forks_witness:
  "\<exists>r1 r2 st1. (tasks_step demo_auth)\<^sup>*\<^sup>* ([Waiting [2], Waiting [2]], registered) ([Finished (Okay r1), Finished (Okay r2)], st1) \<and>
     rp_refresh_token r1 = [3] \<and> rp_refresh_token r2 = [4]"
proof -
  let ?fr = "\<lambda>n. ac_fresh (demo_call n (Refresh [2]))"
  have "sessions_ok (registered, [])" by (simp add: sessions_ok_def registered_def sess_inv_def)
  moreover have "sess registered 2 = Some (demo_session 2 None)" by (simp add: registered_def)
  moreover have "rs_token_hash (demo_session 2 None) = sha256 demo_auth (as_bytes [2])"
    "rs_revoked_at (demo_session 2 None) = None" "3 \<le> rs_expires_at (demo_session 2 None)"
    by (simp_all add: demo_session_def utf8_char_def DEFAULT_REFRESH_TOKEN_TTL_def)
  moreover have "jwt_service_ok (jwt_secret registered)"
    "issue_workspace_token demo_auth (jwt_secret registered) (rs_user_id (demo_session 2 None)) 0 3 \<noteq> None"
    using demo_token by (simp_all add: registered_def demo_service_def)
  moreover have "sess registered (fr_session (?fr 3)) = None" "sess registered (fr_session (?fr 4)) = None"
    "fr_session (?fr 3) \<noteq> fr_session (?fr 4)"
    by (simp_all add: registered_def demo_call_def)
  ultimately obtain r1 r2 st1 where "(tasks_step demo_auth)\<^sup>*\<^sup>* ([Waiting [2], Waiting [2]], registered) ([Finished (Okay r1), Finished (Okay r2)], st1)"
    "rp_refresh_token r1 = base64url demo_auth (fr_bytes (?fr 3))" "rp_refresh_token r2 = base64url demo_auth (fr_bytes (?fr 4))"
    using concurrent_refresh_forks [of registered "[]" 2 "demo_session 2 None" demo_auth "[2]" 3 "?fr 3" "?fr 4"] by blast
  then show ?thesis by (auto simp: demo_call_def)
qed

end
