(* ===== verification/AuthFlows.thy ===== *)
theory AuthFlows
  imports AuthRuns
begin

text \<open>
  What the GitHub flow and the password accounts guarantee over runs of the service: a session
  from a callback goes back to a start request with the same state and a matching PKCE
  challenge, each flow is used once, and logins behave as an abstract table from emails to
  passwords.
\<close>

section \<open>What the requests leave alone\<close>

abbreviation settings :: "'g auth_state \<Rightarrow> rstr \<times> int" where
  "settings st \<equiv> (jwt_secret st, flow_ttl st)"

lemma issue_frame [simp]:
  "flow_store (snd (issue_auth_session E fr now user st)) = flow_store st"
  "password_store (snd (issue_auth_session E fr now user st)) = password_store st"
  "jwt_secret (snd (issue_auth_session E fr now user st)) = jwt_secret st"
  "flow_ttl (snd (issue_auth_session E fr now user st)) = flow_ttl st"
  by (auto simp: issue_auth_session_def Let_def split_beta split: option.split)

lemma refresh_frame:
  "flow_store (snd (handle_token_refresh E fr tick now token st)) = flow_store st \<and>
   password_store (snd (handle_token_refresh E fr tick now token st)) = password_store st \<and>
   settings (snd (handle_token_refresh E fr tick now token st)) = settings st"
  by (auto simp: handle_token_refresh_def refresh_issue_def Let_def split_beta
      split: rate_limit_decision.split option.split sum.split prod.split)

lemma logout_frame:
  "flow_store (snd (handle_logout E now a token st)) = flow_store st \<and>
   password_store (snd (handle_logout E now a token st)) = password_store st \<and>
   settings (snd (handle_logout E now a token st)) = settings st"
  by (auto simp: handle_logout_def split: option.split sum.split)

lemma login_frame:
  "flow_store (snd (login_password_user E fr now email password st)) = flow_store st \<and>
   password_store (snd (login_password_user E fr now email password st)) = password_store st \<and>
   settings (snd (login_password_user E fr now email password st)) = settings st"
  by (auto simp: login_password_user_def split: option.split sum.split)

lemma register_frame:
  "flow_store (snd (register_password_user E fr now email name password st)) = flow_store st \<and>
   settings (snd (register_password_user E fr now email name password st)) = settings st"
  by (auto simp: register_password_user_def split: option.split sum.split prod.split)

lemma change_frame:
  "flow_store (snd (change_password E fr now a old new st)) = flow_store st \<and>
   settings (snd (change_password E fr now a old new st)) = settings st"
  by (auto simp: change_password_def Let_def split: option.split sum.split prod.split)

lemma start_frame:
  "password_store (snd (start_github_oauth E fr tick now p st)) = password_store st \<and>
   settings (snd (start_github_oauth E fr tick now p st)) = settings st"
  by (auto simp: start_github_oauth_def Let_def split: rate_limit_decision.split sum.split prod.split)

lemma callback_frame:
  "password_store (snd (callback_github_oauth E fr tick now p st)) = password_store st \<and>
   settings (snd (callback_github_oauth E fr tick now p st)) = settings st"
  by (auto simp: callback_github_oauth_def Let_def split_beta split: rate_limit_decision.split option.split sum.split prod.split)

lemmas auth_frames = refresh_frame logout_frame login_frame register_frame change_frame start_frame callback_frame

lemma serve_settings: "settings (snd (auth_serve E c st)) = settings st"
  by (cases "ac_op c") (simp_all add: auth_serve_def Let_def outcome_def relay_outcome_def auth_frames [simplified])

lemma run_calls: "map fst (snd (foldl (auth_step E) s cs)) = map fst (snd s) @ cs"
  by (induction cs arbitrary: s) (simp_all add: auth_step_def)

lemma run_settings: "settings (fst (foldl (auth_step E) s cs)) = settings (fst s)"
proof (induction cs arbitrary: s)
  case (Cons c cs)
  then show ?case using serve_settings [of E c "fst s"] by (simp add: auth_step_def)
qed simp

section \<open>Flows\<close>

lemma set_update_subset: "set (AList.update k v xs) \<subseteq> insert (k, v) (set xs)"
  by (induction xs) auto

lemma callback_flows:
  "set (flow_store (snd (callback_github_oauth E fr tick now p st))) \<subseteq> set (flow_store st)"
  by (auto simp: callback_github_oauth_def flow_take_def prune_expired_flows_def AList.delete_eq Let_def split_beta
      split: rate_limit_decision.split option.split sum.split prod.split)

lemma start_flows:
  "set (flow_store (snd (start_github_oauth E fr tick now p st))) \<subseteq>
     (if validate_start E p = Inr ()
      then insert (fr_flow fr, \<lparr>fl_redirect_uri = sq_redirect_uri p, fl_state = sq_state p,
        fl_code_challenge = sq_code_challenge p, fl_expires_at = now + flow_ttl st\<rparr>) (set (flow_store st))
      else set (flow_store st))"
proof (cases "validate_start E p")
  case (Inl e)
  then show ?thesis by (auto simp: start_github_oauth_def split: rate_limit_decision.split prod.split)
next
  case (Inr u)
  let ?r = "\<lparr>fl_redirect_uri = sq_redirect_uri p, fl_state = sq_state p,
        fl_code_challenge = sq_code_challenge p, fl_expires_at = now + flow_ttl st\<rparr>"
  have "flow_store (snd (start_github_oauth E fr tick now p st)) \<in> {flow_store st, flow_insert now (fr_flow fr) ?r (flow_store st)}"
    using Inr by (auto simp: start_github_oauth_def Let_def split: rate_limit_decision.split sum.split prod.split)
  moreover have "set (flow_insert now (fr_flow fr) ?r (flow_store st)) \<subseteq> insert (fr_flow fr, ?r) (set (flow_store st))"
    using set_update_subset [of "fr_flow fr" ?r "prune_expired_flows now (flow_store st)"]
    by (auto simp: flow_insert_def prune_expired_flows_def)
  ultimately show ?thesis using Inr by auto
qed

text \<open>Every flow was started by a request of the log.\<close>

definition started_by :: "'g auth_env \<Rightarrow> int \<Rightarrow> auth_call list \<Rightarrow> uuid \<times> flow_record \<Rightarrow> bool" where
  "started_by E ttl cs x \<longleftrightarrow>
     (\<exists>c \<in> set cs. \<exists>p. ac_op c = StartFlow p \<and> validate_start E p = Inr () \<and> fst x = fr_flow (ac_fresh c) \<and>
        snd x = \<lparr>fl_redirect_uri = sq_redirect_uri p, fl_state = sq_state p, fl_code_challenge = sq_code_challenge p,
                 fl_expires_at = ac_now c + ttl\<rparr>)"

definition flows_ok :: "'g auth_env \<Rightarrow> 'g auth_state \<times> auth_log \<Rightarrow> bool" where
  "flows_ok E s \<longleftrightarrow> (\<forall>x \<in> set (flow_store (fst s)). started_by E (flow_ttl (fst s)) (map fst (snd s)) x)"

lemma serve_flows:
  "set (flow_store (snd (auth_serve E c st))) \<subseteq> set (flow_store st) \<or>
   (\<exists>p. ac_op c = StartFlow p \<and> validate_start E p = Inr () \<and>
     set (flow_store (snd (auth_serve E c st))) \<subseteq>
       insert (fr_flow (ac_fresh c), \<lparr>fl_redirect_uri = sq_redirect_uri p, fl_state = sq_state p,
         fl_code_challenge = sq_code_challenge p, fl_expires_at = ac_now c + flow_ttl st\<rparr>) (set (flow_store st)))"
proof (cases "\<exists>p. ac_op c = StartFlow p")
  case True
  then obtain p where "ac_op c = StartFlow p" by blast
  then show ?thesis
    using start_flows [of E "ac_fresh c" "ac_tick c" "ac_now c" p st]
    by (cases "validate_start E p = Inr ()") (simp_all add: auth_serve_def Let_def outcome_def)
next
  case False
  then have "set (flow_store (snd (auth_serve E c st))) \<subseteq> set (flow_store st)"
    using callback_flows [of E "ac_fresh c" "ac_tick c" "ac_now c" _ st]
    by (cases "ac_op c") (simp_all add: auth_serve_def Let_def outcome_def relay_outcome_def auth_frames [simplified])
  then show ?thesis by blast
qed

interpretation auth_flows: inv_system "auth_step E" "auth_ok E" "flows_ok E"
  for E :: "'g auth_env"
proof
  fix s c
  assume inv: "flows_ok E s"
  let ?st = "snd (auth_serve E c (fst s))"
  have ttl: "flow_ttl ?st = flow_ttl (fst s)" using serve_settings [of E c "fst s"] by simp
  have "started_by E (flow_ttl (fst s)) (map fst (snd s) @ [c]) x" if "x \<in> set (flow_store ?st)" for x
  proof (cases "x \<in> set (flow_store (fst s))")
    case True
    then show ?thesis using inv by (fastforce simp: flows_ok_def started_by_def)
  next
    case False
    then show ?thesis using that serve_flows [of E c "fst s"] by (auto simp: started_by_def)
  qed
  then show "flows_ok E (auth_step E s c)" using ttl by (simp add: flows_ok_def auth_step_def)
qed

lemma serve_flows_ids:
  "fst ` set (flow_store (snd (auth_serve E c st))) \<subseteq> insert (fr_flow (ac_fresh c)) (fst ` set (flow_store st))"
  using serve_flows [of E c st] by (auto dest!: subsetD)

text \<open>A flow that was drawn and is not stored will never be stored.\<close>

definition used_up :: "uuid \<Rightarrow> 'g auth_state \<times> auth_log \<Rightarrow> bool" where
  "used_up i s \<longleftrightarrow> i \<in> (\<lambda>(c, _). fr_flow (ac_fresh c)) ` set (snd s) \<and> i \<notin> fst ` set (flow_store (fst s))"

interpretation auth_used: inv_system "auth_step E" "auth_ok E" "used_up i"
  for E :: "'g auth_env" and i
proof
  fix s c
  assume "used_up i s" "auth_ok E s c"
  then show "used_up i (auth_step E s c)"
    using serve_flows_ids [of E c "fst s"] by (auto simp: used_up_def auth_step_def auth_ok_def)
qed

lemma callback_opened:
  assumes "fst (callback_github_oauth E fr tick now p st) = Inr r"
  obtains f where "(cq_flow_id p, f) \<in> set (flow_store st)" "now < fl_expires_at f" "fl_state f = cq_state p"
    "fl_code_challenge f = base64url E (sha256 E (as_bytes (cq_code_verifier p)))"
    "cq_flow_id p \<notin> fst ` set (flow_store (snd (callback_github_oauth E fr tick now p st)))"
proof -
  obtain l where l: "limiter_check tick (callback_rate_limiter st) = (Allowed, l)"
    using assms by (auto simp: callback_github_oauth_def split: rate_limit_decision.splits prod.splits)
  have "map_of (prune_expired_flows now (flow_store st)) (cq_flow_id p) \<noteq> None"
    using assms l by (auto simp: callback_github_oauth_def flow_take_def Let_def split: option.splits)
  then obtain f where f: "map_of (prune_expired_flows now (flow_store st)) (cq_flow_id p) = Some f" by blast
  have "(cq_flow_id p, f) \<in> set (flow_store st)" "now < fl_expires_at f"
    using map_of_SomeD [OF f] by (auto simp: prune_expired_flows_def)
  moreover have "fl_state f = cq_state p" "fl_code_challenge f = base64url E (sha256 E (as_bytes (cq_code_verifier p)))"
    using assms l f by (auto simp: callback_github_oauth_def flow_take_def verify_pkce_s256_def Let_def split: if_splits)
  moreover have "cq_flow_id p \<notin> fst ` set (flow_store (snd (callback_github_oauth E fr tick now p st)))"
    using l by (auto simp: callback_github_oauth_def flow_take_def AList.delete_eq Let_def split_beta
        split: option.split sum.split prod.split)
  ultimately show thesis using that by blast
qed

lemma callback_unknown:
  "cq_flow_id p \<notin> fst ` set (flow_store st) \<Longrightarrow> fst (callback_github_oauth E fr tick now p st) \<noteq> Inr r"
  by (rule notI, erule callback_opened) force

lemma valid_redirect:
  "validate_start E p = Inr () \<Longrightarrow> \<exists>u host. url_parse E (sq_redirect_uri p) = Some u \<and> url_fragment u = None \<and>
     url_host u = Some host \<and> (url_scheme u = lit ''https'' \<or> url_scheme u = lit ''http'' \<and> is_loopback_host host)"
  by (auto simp: validate_start_def validate_redirect_uri_def split: option.splits sum.splits if_splits)

text \<open>
  (C26) A session from a callback is authentic. In every run of a freshly started service, when a
  callback opens a session then an earlier request started a flow with the callback's flow id,
  with the same state, a challenge that is the hash of the callback's verifier and a redirect
  to an https or loopback address, less than the lifetime of flows ago; and no later callback
  with that flow id opens another session.
\<close>

theorem callback_authentic:
  assumes init: "auth_initial st0"
    and ok: "run_ok (auth_step E) (auth_ok E) (st0, []) (cs @ c # cs2)"
    and op: "ac_op c = Callback p"
    and opened: "fst (auth_serve E c (fst (foldl (auth_step E) (st0, []) cs))) = SessionOpened r"
  shows "(\<exists>c0 \<in> set cs. \<exists>q u host. ac_op c0 = StartFlow q \<and> fr_flow (ac_fresh c0) = cq_flow_id p \<and> sq_state q = cq_state p \<and>
       sq_code_challenge q = base64url E (sha256 E (as_bytes (cq_code_verifier p))) \<and>
       ac_now c < ac_now c0 + flow_ttl st0 \<and> url_parse E (sq_redirect_uri q) = Some u \<and> url_host u = Some host \<and>
       (url_scheme u = lit ''https'' \<or> url_scheme u = lit ''http'' \<and> is_loopback_host host)) \<and>
    (\<forall>c' p' r'. ac_op c' = Callback p' \<longrightarrow> cq_flow_id p' = cq_flow_id p \<longrightarrow>
       fst (auth_serve E c' (fst (foldl (auth_step E) (st0, []) (cs @ c # cs2)))) \<noteq> SessionOpened r')"
proof -
  define s where "s = foldl (auth_step E) (st0, []) cs"
  let ?res = "callback_github_oauth E (ac_fresh c) (ac_tick c) (ac_now c) p (fst s)"
  have oks: "run_ok (auth_step E) (auth_ok E) (st0, []) cs" "auth_ok E s c" "run_ok (auth_step E) (auth_ok E) (auth_step E s c) cs2"
    using ok by (simp_all add: run_ok_append s_def)
  have flows: "flows_ok E s" unfolding s_def
    using auth_flows.inv_run [OF _ oks(1)] init by (simp add: flows_ok_def auth_initial_def)
  have ttl: "flow_ttl (fst s) = flow_ttl st0" using run_settings [of E "(st0, [])" cs] by (simp add: s_def)
  have calls: "map fst (snd s) = cs" using run_calls [of E "(st0, [])" cs] by (simp add: s_def)
  have res: "fst ?res = Inr r"
    using opened op by (auto simp: s_def auth_serve_def Let_def outcome_def split: sum.splits)
  from res obtain f where f: "(cq_flow_id p, f) \<in> set (flow_store (fst s))" "ac_now c < fl_expires_at f"
      "fl_state f = cq_state p" "fl_code_challenge f = base64url E (sha256 E (as_bytes (cq_code_verifier p)))"
      "cq_flow_id p \<notin> fst ` set (flow_store (snd ?res))"
    by (rule callback_opened)
  obtain c0 q where q: "c0 \<in> set cs" "ac_op c0 = StartFlow q" "validate_start E q = Inr ()" "cq_flow_id p = fr_flow (ac_fresh c0)"
      "f = \<lparr>fl_redirect_uri = sq_redirect_uri q, fl_state = sq_state q, fl_code_challenge = sq_code_challenge q,
            fl_expires_at = ac_now c0 + flow_ttl st0\<rparr>"
    using flows f(1) ttl calls by (fastforce simp: flows_ok_def started_by_def)
  obtain y where y: "(c0, y) \<in> set (snd s)" using q(1) calls by force
  have "used_up (cq_flow_id p) (auth_step E s c)"
    using y q(4) f(5) op by (auto simp: used_up_def auth_step_def auth_serve_def Let_def outcome_def intro!: image_eqI [of _ _ "(c0, y)"])
  then have "used_up (cq_flow_id p) (foldl (auth_step E) (st0, []) (cs @ c # cs2))"
    using auth_used.inv_run [OF _ oks(3)] by (simp add: s_def)
  then have later: "fst (auth_serve E c' (fst (foldl (auth_step E) (st0, []) (cs @ c # cs2)))) \<noteq> SessionOpened r'"
    if "ac_op c' = Callback p'" "cq_flow_id p' = cq_flow_id p" for c' p' r'
    using that callback_unknown [of p' "fst (foldl (auth_step E) (st0, []) (cs @ c # cs2))" E "ac_fresh c'" "ac_tick c'" "ac_now c'" r']
    by (auto simp: used_up_def auth_serve_def Let_def outcome_def split: sum.splits)
  show ?thesis using q f(2-4) valid_redirect [OF q(3)] later by fastforce
qed

section \<open>Accounts\<close>

text \<open>The contract of Argon2: a hash verifies exactly the password it was made from.\<close>

definition argon_laws :: "'g auth_env \<Rightarrow> bool" where
  "argon_laws E \<longleftrightarrow> (\<forall>p salt h q. argon_hash E p salt = Some h \<longrightarrow> argon_verify E q h = Some (q = p))"

text \<open>The abstract table: which user and which password belong to an email.\<close>

type_synonym accounts = "rstr \<Rightarrow> (uuid \<times> byte list) option"

definition bearer_user :: "'g auth_env \<Rightarrow> rstr \<Rightarrow> timestamp \<Rightarrow> rstr option \<Rightarrow> uuid option" where
  "bearer_user E secret now authorization =
     Option.bind (Option.bind authorization extract_bearer_token)
       (\<lambda>token. map_option fst (validate_workspace_token E secret now token))"

fun account_event :: "'g auth_env \<Rightarrow> rstr \<Rightarrow> auth_call \<times> auth_outcome \<Rightarrow> accounts \<Rightarrow> accounts" where
  "account_event E secret (c, out) acc =
     (case (ac_op c, out) of
        (Register email name password, SessionOpened _) \<Rightarrow>
          (case normalize_email E email of
             Inr e \<Rightarrow> acc(e \<mapsto> (fr_user (ac_fresh c), as_bytes password))
           | Inl _ \<Rightarrow> acc)
      | (ChangePassword authorization old new, NoContent) \<Rightarrow>
          (\<lambda>e. map_option (\<lambda>(i, b). if bearer_user E secret (ac_now c) authorization = Some i then (i, as_bytes new) else (i, b)) (acc e))
      | _ \<Rightarrow> acc)"

definition accounts :: "'g auth_env \<Rightarrow> rstr \<Rightarrow> auth_log \<Rightarrow> accounts" where
  "accounts E secret log = fold (account_event E secret) log (\<lambda>_. None)"

definition stores :: "'g auth_env \<Rightarrow> password_user \<Rightarrow> uuid \<times> byte list \<Rightarrow> bool" where
  "stores E u x \<longleftrightarrow> pu_id u = fst x \<and> (\<forall>q. argon_verify E q (pu_password_hash u) = Some (q = snd x))"

definition implements :: "'g auth_env \<Rightarrow> password_store \<Rightarrow> accounts \<Rightarrow> bool" where
  "implements E ps acc \<longleftrightarrow>
     distinct (map fst ps) \<and> distinct (map (\<lambda>x. pu_id (snd x)) ps) \<and>
     (\<forall>e. rel_option (stores E) (map_of ps e) (acc e))"

lemma set_hash_effect:
  "distinct (map (\<lambda>x. pu_id (snd x)) ps) \<Longrightarrow> set_hash i h ps = Some ps1 \<Longrightarrow>
   map fst ps1 = map fst ps \<and> map (\<lambda>x. pu_id (snd x)) ps1 = map (\<lambda>x. pu_id (snd x)) ps \<and>
   map_of ps1 = (\<lambda>e. map_option (\<lambda>u. if pu_id u = i then u\<lparr>pu_password_hash := h\<rparr> else u) (map_of ps e))"
proof (induction ps arbitrary: ps1)
  case (Cons x ps)
  obtain e u where x: "x = (e, u)" by (cases x)
  show ?case
  proof (cases "pu_id u = i")
    case True
    have "(\<lambda>u. if pu_id u = i then u\<lparr>pu_password_hash := h\<rparr> else u) v = v" if "map_of ps k = Some v" for k v
      using Cons.prems(1) True x map_of_SomeD [OF that] by force
    then have "map_option (\<lambda>u. if pu_id u = i then u\<lparr>pu_password_hash := h\<rparr> else u) (map_of ps k) = map_of ps k" for k
      by (cases "map_of ps k") auto
    then show ?thesis using Cons.prems True x by (auto simp: fun_eq_iff)
  next
    case False
    then obtain ps2 where "set_hash i h ps = Some ps2" "ps1 = (e, u) # ps2" using Cons.prems(2) x by auto
    then show ?thesis using Cons.IH [of ps2] Cons.prems(1) False x by (auto simp: fun_eq_iff)
  qed
qed simp

lemma find_user: "find_by_user_id i ps = Some u \<Longrightarrow> \<exists>e. (e, u) \<in> set ps \<and> pu_id u = i"
  by (auto simp: find_by_user_id_def find_Some_iff) (metis nth_mem)

lemma update_fresh: "e \<notin> fst ` set ps \<Longrightarrow> AList.update e v ps = ps @ [(e, v)]"
  by (induction ps) auto

lemma implements_register:
  assumes "implements E ps acc" "map_of ps e = None" "\<forall>(_, u) \<in> set ps. pu_id u \<noteq> pu_id v" "stores E v x"
  shows "implements E (AList.update e v ps) (acc(e \<mapsto> x))"
proof -
  have new: "e \<notin> fst ` set ps" using assms(2) by (simp add: map_of_eq_None_iff)
  have "pu_id v \<notin> (\<lambda>x. pu_id (snd x)) ` set ps" using assms(3) by force
  then have "distinct (map (\<lambda>x. pu_id (snd x)) (AList.update e v ps))"
    using assms(1) new by (simp add: implements_def update_fresh)
  then show ?thesis using assms(1,4) by (simp add: implements_def update_conv' distinct_update)
qed

lemma implements_change:
  assumes "implements E ps acc" "set_hash i h ps = Some ps1" "\<forall>q. argon_verify E q h = Some (q = b)"
  shows "implements E ps1 (\<lambda>e. map_option (\<lambda>(j, c). if i = j then (j, b) else (j, c)) (acc e))"
proof -
  note eff = set_hash_effect [OF _ assms(2)]
  have d: "distinct (map fst ps)" "distinct (map (\<lambda>x. pu_id (snd x)) ps)" and rel: "rel_option (stores E) (map_of ps e) (acc e)" for e
    using assms(1) by (simp_all add: implements_def)
  have "rel_option (stores E) (map_of ps1 e) (map_option (\<lambda>(j, c). if i = j then (j, b) else (j, c)) (acc e))" for e
    using rel [of e] eff [OF d(2)] assms(3) by (cases "map_of ps e"; cases "acc e") (auto simp: stores_def split: if_splits)
  then show ?thesis using eff [OF d(2)] d by (simp add: implements_def)
qed

definition issuing :: "'g auth_env \<Rightarrow> rstr \<Rightarrow> auth_call \<Rightarrow> bool" where
  "issuing E secret c \<longleftrightarrow> jwt_service_ok secret \<and> (\<forall>user. issue_workspace_token E secret user 0 (ac_now c) \<noteq> None)"

lemma issue_succeeds:
  assumes "issuing E (jwt_secret st) c"
  shows "\<exists>r. fst (issue_auth_session E fr (ac_now c) user st) = Inr r \<and> ap_user r = user"
proof -
  obtain token where "issue_workspace_token E (jwt_secret st) (au_id user) 0 (ac_now c) = Some token"
    using assms unfolding issuing_def by blast
  then show ?thesis using assms by (simp add: issuing_def issue_auth_session_def Let_def split_beta)
qed

lemma register_cases:
  assumes "issuing E (jwt_secret st) c"
  obtains (refused) e where "register_password_user E (ac_fresh c) (ac_now c) email name password st = (Err e, st)"
  | (created) m h r v where "normalize_email E email = Inr m" "argon_hash E (as_bytes password) (fr_salt (ac_fresh c)) = Some h"
      "map_of (password_store st) m = None"
      "v = \<lparr>pu_id = fr_user (ac_fresh c), pu_email = m, pu_display_name = trim name, pu_password_hash = h\<rparr>"
      "fst (register_password_user E (ac_fresh c) (ac_now c) email name password st) = Inr r"
      "password_store (snd (register_password_user E (ac_fresh c) (ac_now c) email name password st)) =
         AList.update m v (password_store st)"
proof (cases "\<exists>e. register_password_user E (ac_fresh c) (ac_now c) email name password st = (Err e, st)")
  case True
  then show thesis using refused by blast
next
  case False
  then obtain m h where m: "normalize_email E email = Inr m" "trim name \<noteq> []" "validate_password password = Inr ()"
      "argon_hash E (as_bytes password) (fr_salt (ac_fresh c)) = Some h" "map_of (password_store st) m = None"
    by (auto simp: register_password_user_def hash_password_def create_user_def split: sum.splits option.splits if_splits)
  let ?v = "\<lparr>pu_id = fr_user (ac_fresh c), pu_email = m, pu_display_name = trim name, pu_password_hash = h\<rparr>"
  have eq: "register_password_user E (ac_fresh c) (ac_now c) email name password st =
      issue_auth_session E (ac_fresh c) (ac_now c) (public_user ?v) (st\<lparr>password_store := AList.update m ?v (password_store st)\<rparr>)"
    using m by (simp add: register_password_user_def hash_password_def create_user_def Let_def)
  then show thesis
    using created [OF m(1,4,5) refl] issue_succeeds [of E "st\<lparr>password_store := AList.update m ?v (password_store st)\<rparr>" c] assms by auto
qed

lemma change_cases:
  obtains (refused) e where "change_password E fr now a old new st = (Err e, st)"
  | (changed) i h ps where "bearer_user E (jwt_secret st) now a = Some i" "argon_hash E (as_bytes new) (fr_salt fr) = Some h"
      "set_hash i h (password_store st) = Some ps" "change_password E fr now a old new st = (Okay (), st\<lparr>password_store := ps\<rparr>)"
proof (cases "\<exists>e. change_password E fr now a old new st = (Err e, st)")
  case True
  then show thesis using refused by blast
next
  case False
  then obtain i where i: "extract_user_id_from_bearer E now a st = Inr i"
    by (cases "extract_user_id_from_bearer E now a st") (auto simp: change_password_def)
  have b: "bearer_user E (jwt_secret st) now a = Some i"
    using i unfolding extract_user_id_from_bearer_def bearer_user_def
    by (cases "Option.bind a extract_bearer_token") (auto simp del: bind_assoc split: option.splits if_splits)
  show thesis
    using False i changed [OF b]
    by (auto simp: change_password_def hash_password_def update_password_hash_def Let_def split: sum.splits option.splits if_splits)
qed

lemma serve_register:
  "ac_op c = Register email name password \<Longrightarrow> auth_serve E c st =
     relay_outcome SessionOpened (register_password_user E (ac_fresh c) (ac_now c) email name password st)"
  by (simp add: auth_serve_def Let_def)

lemma serve_change_password:
  "ac_op c = ChangePassword a old new \<Longrightarrow> auth_serve E c st =
     relay_outcome (\<lambda>_. NoContent) (change_password E (ac_fresh c) (ac_now c) a old new st)"
  by (simp add: auth_serve_def Let_def)

lemma implements_step:
  assumes "argon_laws E" "issuing E (jwt_secret st) c" "auth_ok E (st, log) c" "implements E (password_store st) acc"
  shows "implements E (password_store (snd (auth_serve E c st))) (account_event E (jwt_secret st) (c, fst (auth_serve E c st)) acc)"
proof (cases "ac_op c")
  case (Register email name password)
  from assms(2) show ?thesis
  proof (cases rule: register_cases [where email = email and name = name and password = password])
    case (refused e)
    then show ?thesis using Register assms(4) by (simp add: serve_register relay_outcome_def)
  next
    case (created m h r v)
    have "stores E v (fr_user (ac_fresh c), as_bytes password)"
      using assms(1) created(2,4) by (auto simp: stores_def argon_laws_def)
    then have "implements E (AList.update m v (password_store st)) (acc(m \<mapsto> (fr_user (ac_fresh c), as_bytes password)))"
      using assms(3,4) created(3,4) by (intro implements_register) (auto simp: auth_ok_def)
    then show ?thesis using Register created(1,5,6) by (simp add: serve_register relay_outcome_def)
  qed
next
  case (ChangePassword a old new)
  show ?thesis
  proof (cases rule: change_cases [where E = E and fr = "ac_fresh c" and now = "ac_now c" and a = a and old = old and new = new and st = st])
    case (refused e)
    then show ?thesis using ChangePassword assms(4) by (simp add: serve_change_password relay_outcome_def)
  next
    case (changed i h ps)
    have "\<forall>q. argon_verify E q h = Some (q = as_bytes new)" using assms(1) changed(2) by (auto simp: argon_laws_def)
    then show ?thesis
      using implements_change [OF assms(4) changed(3)] ChangePassword changed(1,4) by (simp add: serve_change_password relay_outcome_def)
  qed
qed (use assms(4) in \<open>simp_all add: auth_serve_def Let_def outcome_def relay_outcome_def auth_frames [simplified]\<close>)

text \<open>Runs in which access tokens can be issued.\<close>

definition auth_ok_issuing :: "'g auth_env \<Rightarrow> 'g auth_state \<times> auth_log \<Rightarrow> auth_call \<Rightarrow> bool" where
  "auth_ok_issuing E s c \<longleftrightarrow> auth_ok E s c \<and> issuing E (jwt_secret (fst s)) c"

definition accounts_ok :: "'g auth_env \<Rightarrow> 'g auth_state \<times> auth_log \<Rightarrow> bool" where
  "accounts_ok E s \<longleftrightarrow> (argon_laws E \<longrightarrow> implements E (password_store (fst s)) (accounts E (jwt_secret (fst s)) (snd s)))"

interpretation auth_accounts: inv_system "auth_step E" "auth_ok_issuing E" "accounts_ok E"
  for E :: "'g auth_env"
proof
  fix s c
  assume "accounts_ok E s" "auth_ok_issuing E s c"
  then show "accounts_ok E (auth_step E s c)"
    using implements_step [of E "fst s" c "snd s"] serve_settings [of E c "fst s"]
    by (auto simp: accounts_ok_def auth_ok_issuing_def auth_step_def accounts_def)
qed

text \<open>
  (C27) Logins implement a table of passwords. In every run of a freshly started service, with
  Argon2 verifying exactly the hashed password, a login is answered by the abstract table that
  the registrations and password changes of the run define: with a session of the user the
  email belongs to exactly when the password is the one last set, and with the same error for
  an unknown email as for a wrong password.
\<close>

theorem login_implements_accounts:
  assumes "argon_laws E" "auth_initial st0" "run_ok (auth_step E) (auth_ok_issuing E) (st0, []) cs"
    and run: "foldl (auth_step E) (st0, []) cs = (st, log)"
    and op: "ac_op c = Login email password" and issue: "issuing E (jwt_secret st0) c"
  shows "case normalize_email E email of
      Inl e \<Rightarrow> fst (auth_serve E c st) = Refused (Relay e)
    | Inr m \<Rightarrow>
        (case accounts E (jwt_secret st0) log m of
           None \<Rightarrow> fst (auth_serve E c st) = Refused (Relay invalid_login)
         | Some (user, pw) \<Rightarrow>
             if as_bytes password = pw then \<exists>r. fst (auth_serve E c st) = SessionOpened r \<and> au_id (ap_user r) = user
             else fst (auth_serve E c st) = Refused (Relay invalid_login))"
proof -
  have secret: "jwt_secret st = jwt_secret st0" using run_settings [of E "(st0, [])" cs] run by simp
  have start: "accounts_ok E (st0, [])" using assms(2) by (simp add: accounts_ok_def accounts_def implements_def auth_initial_def)
  have "implements E (password_store st) (accounts E (jwt_secret st0) log)"
    using auth_accounts.inv_run [OF start assms(3)] assms(1) run secret by (simp add: accounts_ok_def)
  then have rel: "rel_option (stores E) (map_of (password_store st) m) (accounts E (jwt_secret st0) log m)" for m
    by (simp add: implements_def)
  have out: "fst (auth_serve E c st) = (case fst (login_password_user E (ac_fresh c) (ac_now c) email password st) of
      Inl e \<Rightarrow> Refused (Relay e) | Inr r \<Rightarrow> SessionOpened r)"
    using op by (simp add: auth_serve_def Let_def relay_outcome_def)
  show ?thesis
  proof (cases "normalize_email E email")
    case (Inl e)
    then show ?thesis using out by (simp add: login_password_user_def)
  next
    case (Inr m)
    show ?thesis
    proof (cases "map_of (password_store st) m")
      case None
      then show ?thesis using rel [of m] out Inr by (simp add: login_password_user_def)
    next
      case (Some u)
      then obtain x where x: "accounts E (jwt_secret st0) log m = Some x" "stores E u x" using rel [of m] by (auto simp: option_rel_Some1)
      have "verify_password E password (pu_password_hash u) = (as_bytes password = snd x)"
        using x(2) by (simp add: verify_password_def stores_def)
      moreover have "au_id (public_user u) = fst x" using x(2) by (simp add: public_user_def stores_def)
      ultimately show ?thesis
        using issue_succeeds [of E st c "ac_fresh c" "public_user u"] issue secret Some Inr x(1) out
        by (cases x) (auto simp: login_password_user_def)
    qed
  qed
qed

theorem login_implements_accounts_witness:
  "\<exists>r. fst (auth_serve demo_auth (demo_call 3 (Login [97, 64, 98] (replicate 8 97)))
      (fst (foldl (auth_step demo_auth) (demo_service, []) (take 1 demo_calls)))) = SessionOpened r \<and> au_id (ap_user r) = 2"
proof -
  let ?first = "demo_call 2 (Register [97, 64, 98] [97] (replicate 8 97))" and ?c = "demo_call 3 (Login [97, 64, 98] (replicate 8 97))"
  let ?s = "auth_step demo_auth (demo_service, []) ?first"
  have secret: "jwt_secret demo_service = replicate 32 97" by (simp add: demo_service_def)
  have "inj (unat :: byte \<Rightarrow> nat)" by (auto simp: inj_def word_unat_eq_iff)
  then have laws: "argon_laws demo_auth" by (auto simp: argon_laws_def inj_map_eq_map)
  have init: "auth_initial demo_service" by (simp add: auth_initial_def demo_service_def)
  have issue: "issuing demo_auth (jwt_secret demo_service) (demo_call n op)" if "n < 1000000000" for n op
    using that demo_token secret by (simp add: issuing_def demo_call_def)
  have ok: "run_ok (auth_step demo_auth) (auth_ok_issuing demo_auth) (demo_service, []) [?first]"
    using issue by (simp add: auth_ok_issuing_def auth_ok_def) (simp add: demo_service_def)
  have run: "foldl (auth_step demo_auth) (demo_service, []) [?first] = (fst ?s, snd ?s)" by simp
  have op: "ac_op ?c = Login [97, 64, 98] (replicate 8 97)" by (simp add: demo_call_def)
  have "normalize_email demo_auth [97, 64, 98] = Inr [97, 64, 98]" by (simp add: normalize_email_def demo_trim)
  moreover have "accounts demo_auth (jwt_secret demo_service) (snd ?s) [97, 64, 98] = Some (2, as_bytes (replicate 8 97))"
  proof -
    have "\<exists>r. fst (auth_serve demo_auth ?first demo_service) = SessionOpened r" by (simp add: demo_register)
    moreover have "ac_op ?first = Register [97, 64, 98] [97] (replicate 8 97)" "fr_user (ac_fresh ?first) = 2" by (simp_all add: demo_call_def)
    ultimately show ?thesis using \<open>normalize_email demo_auth [97, 64, 98] = Inr [97, 64, 98]\<close>
      by (auto simp: accounts_def auth_step_def)
  qed
  ultimately show ?thesis
    using login_implements_accounts [OF laws init ok run op issue] by (simp add: demo_calls_def)
qed

definition demo_github :: "unit auth_env" where
  "demo_github = demo_auth
     \<lparr>url_parse := \<lambda>_. Some \<lparr>url_scheme = lit ''https'', url_host = Some [97], url_fragment = None\<rparr>,
      url_with_query := \<lambda>_ _. Some [], exchange_code := \<lambda>_ _ _ _ w. (Okay [1], w),
      get_user_info := \<lambda>_ w. (Okay \<lparr>gu_email = [97], gu_display_name = [97]\<rparr>, w)\<rparr>"

definition demo_start :: start_request where
  "demo_start = \<lparr>sq_redirect_uri = [97], sq_state = [97], sq_code_challenge = replicate 43 97, sq_code_challenge_method = lit ''S256''\<rparr>"

definition demo_callback :: callback_request where
  "demo_callback = \<lparr>cq_flow_id = 2, cq_code = [], cq_state = [97], cq_code_verifier = replicate 43 97\<rparr>"

lemma demo_verifier: "as_bytes (replicate 43 97) = replicate 43 97"
  by (simp add: as_bytes_def utf8_char_def numeral_eq_Suc)

lemma demo_challenge: "validate_code_challenge (replicate 43 97) = Inr ()"
  by (simp add: validate_code_challenge_def MIN_CODE_CHALLENGE_LEN_def MAX_CODE_CHALLENGE_LEN_def
      is_ascii_alphanumeric_def is_ascii_lower_def len_utf8_def numeral_eq_Suc)

lemma demo_started:
  "\<exists>l. snd (auth_serve demo_github (demo_call 2 (StartFlow demo_start)) demo_service) =
     demo_service\<lparr>start_rate_limiter := l,
       flow_store := [(2, \<lparr>fl_redirect_uri = [97], fl_state = [97], fl_code_challenge = replicate 43 97, fl_expires_at = 102\<rparr>)]\<rparr>"
proof -
  have "validate_start demo_github demo_start = Inr ()"
    by (simp add: validate_start_def validate_redirect_uri_def validate_state_def validate_code_challenge_method_def
        demo_start_def demo_github_def demo_trim demo_challenge MAX_STATE_LEN_def len_utf8_def)
  then show ?thesis
    by (simp add: auth_serve_def outcome_def demo_call_def start_github_oauth_def demo_service_def limiter_check_def limiter_new_def
        flow_insert_def prune_expired_flows_def build_authorization_url_def demo_github_def demo_start_def Let_def)
qed

theorem callback_authentic_witness:
  "\<exists>c0 :: auth_call. \<exists>q. ac_op c0 = StartFlow q \<and> sq_state q = cq_state demo_callback \<and>
     sq_code_challenge q = base64url demo_github (sha256 demo_github (as_bytes (cq_code_verifier demo_callback)))"
proof -
  let ?first = "demo_call 2 (StartFlow demo_start)" and ?c = "demo_call 3 (Callback demo_callback)"
  let ?s = "auth_step demo_github (demo_service, []) ?first"
  have init: "auth_initial demo_service" by (simp add: auth_initial_def demo_service_def)
  have st: "flow_store (fst ?s) = [(2, \<lparr>fl_redirect_uri = [97], fl_state = [97], fl_code_challenge = replicate 43 97, fl_expires_at = 102\<rparr>)]"
    "jwt_secret (fst ?s) = replicate 32 97" "sessions (refresh_store (fst ?s)) = []" "password_store (fst ?s) = []"
    "callback_rate_limiter (fst ?s) = limiter_new 3 100" "fst (hd (snd ?s)) = ?first" "length (snd ?s) = 1"
    using demo_started by (auto simp: auth_step_def) (auto simp: demo_service_def)
  have ok: "run_ok (auth_step demo_github) (auth_ok demo_github) (demo_service, []) ([?first] @ ?c # [])"
    using st by (cases "snd ?s") (auto simp: auth_ok_def demo_call_def demo_service_def)
  have op: "ac_op ?c = Callback demo_callback" by (simp add: demo_call_def)
  have "issue_workspace_token demo_github (replicate 32 97) 3 0 3 = Some [1]"
    by (simp add: issue_workspace_token_def current_unix_timestamp_def i64_max_def demo_github_def demo_auth_def)
  then have "\<exists>r. fst (auth_serve demo_github ?c (fst ?s)) = SessionOpened r"
    using st demo_token(1) demo_verifier
    by (simp add: auth_serve_def outcome_def demo_call_def callback_github_oauth_def limiter_check_def limiter_new_def flow_take_def
        prune_expired_flows_def demo_callback_def verify_pkce_s256_def issue_auth_session_def Let_def generate_refresh_token_def
        demo_github_def split_beta)
  then obtain r where "fst (auth_serve demo_github ?c (fst (foldl (auth_step demo_github) (demo_service, []) [?first]))) = SessionOpened r" by auto
  from callback_authentic [OF init ok op this, THEN conjunct1] show ?thesis by blast
qed

end
