(* ===== verification/Decimal.thy ===== *)
theory Decimal
  imports RustText
begin

text \<open>Decimal texts of integers: \<open>format!("{}")\<close> and \<open>str::parse\<close> on an \<open>i64\<close>, and that one undoes the other.\<close>

section \<open>Decimal integers\<close>

definition show_int :: "int \<Rightarrow> rstr" where
  "show_int i = (if i < 0 then 45 # show_nat (nat (- i)) else show_nat (nat i))"

definition parse_digits :: "rstr \<Rightarrow> nat option" where
  "parse_digits s =
     (if s \<noteq> [] \<and> list_all is_ascii_digit s then Some (foldl (\<lambda>n c. n * 10 + (c - 48)) 0 s) else None)"

definition parse_i64 :: "rstr \<Rightarrow> int option" where
  "parse_i64 s =
     (let v = (case s of
                 [] \<Rightarrow> None
               | c # cs \<Rightarrow>
                   if c = 45 then map_option (\<lambda>n. - int n) (parse_digits cs)
                   else if c = 43 then map_option int (parse_digits cs)
                   else map_option int (parse_digits s))
      in case v of Some i \<Rightarrow> if i64_min \<le> i \<and> i \<le> i64_max then Some i else None | None \<Rightarrow> None)"

lemma foldl_show_nat: "foldl (\<lambda>n c. n * 10 + (c - 48)) 0 (show_nat n) = n"
proof (induction n rule: show_nat.induct)
  case (1 n)
  show ?case
  proof (cases "n < 10")
    case True
    then show ?thesis by (subst show_nat.simps) simp
  next
    case False
    then show ?thesis using 1 by (subst show_nat.simps) simp
  qed
qed

lemma parse_digits_show_nat [simp]: "parse_digits (show_nat n) = Some n"
  by (simp add: parse_digits_def foldl_show_nat list_all_iff show_nat_digits)

lemma parse_show_int: "i64_min \<le> i \<Longrightarrow> i \<le> i64_max \<Longrightarrow> parse_i64 (show_int i) = Some i"
proof (cases "i < 0")
  case False
  assume r: "i64_min \<le> i" "i \<le> i64_max"
  obtain c cs where c: "show_nat (nat i) = c # cs" by (cases "show_nat (nat i)") auto
  then have "is_ascii_digit c" using show_nat_digits [of c "nat i"] by simp
  then show ?thesis
    using r False c parse_digits_show_nat [of "nat i"]
    by (simp add: parse_i64_def show_int_def is_ascii_digit_def split: option.splits)
qed (simp add: parse_i64_def show_int_def)

lemma show_int_fresh: "c \<in> set (show_int i) \<Longrightarrow> c = 45 \<or> is_ascii_digit c"
  by (auto simp: show_int_def dest: show_nat_digits split: if_splits)

lemma while_fresh:
  "c \<notin> set a \<Longrightarrow> takeWhile (\<lambda>x. x \<noteq> c) (a @ c # b) = a"
  "c \<notin> set a \<Longrightarrow> dropWhile (\<lambda>x. x \<noteq> c) (a @ c # b) = c # b"
  by (induction a) auto

lemma split_once_fresh: "c \<notin> set a \<Longrightarrow> split_once c (a @ c # b) = Some (a, b)"
  by (simp add: split_once_def while_fresh)

lemma split_once_cursor: "split_once 124 (show_int i @ lit ''|'' @ s) = Some (show_int i, s)"
proof -
  have "124 \<notin> set (show_int i)" using show_int_fresh [of 124 i] by (auto simp: is_ascii_digit_def)
  then show ?thesis using split_once_fresh by (simp add: lit_def)
qed

end
