(* ===== verification/ApiBase.thy ===== *)
theory ApiBase
  imports RelayError Bytes Roles Decimal
begin

text \<open>
  What the endpoints under \<open>relay/src/api\<close> share: \<open>AuthenticatedUser\<close> of
  \<open>auth/middleware.rs\<close>, the row of \<open>workspace_members\<close> they look a caller up in, the comparison of
  entity tags, and \<open>audit/mod.rs\<close>,
  the append-only log. The environment \<open>api_env\<close> collects what other crates compute: the texts of
  UUIDs, the range of \<open>chrono\<close>'s dates, SHA-256 and the canonical text of an IP address. A moment in
  the database is a number of microseconds, the resolution of \<open>timestamptz\<close>.
\<close>

section \<open>Environment\<close>

record api_env =
  uuid_string :: "uuid \<Rightarrow> rstr"
  uuid_parse :: "rstr \<Rightarrow> uuid option"
  micros_ok :: "int \<Rightarrow> bool"
  api_sha256 :: "byte list \<Rightarrow> byte list"
  ip_text :: "rstr \<Rightarrow> rstr option"

text \<open>The text of a UUID reads back, and dates that exist fit an \<open>i64\<close> of microseconds.\<close>

definition api_env_laws :: "api_env \<Rightarrow> bool" where
  "api_env_laws E \<longleftrightarrow>
     (\<forall>i. uuid_parse E (uuid_string E i) = Some i) \<and> (\<forall>t. micros_ok E t \<longrightarrow> i64_min \<le> t \<and> t \<le> i64_max)"

text \<open>An environment with these laws.\<close>

definition demo_api :: api_env where
  "demo_api = \<lparr>uuid_string = \<lambda>i. [i], uuid_parse = \<lambda>s. case s of [i] \<Rightarrow> Some i | _ \<Rightarrow> None,
     micros_ok = \<lambda>t. 0 \<le> t \<and> t < 1000000000, api_sha256 = id, ip_text = \<lambda>_. None\<rparr>"

lemma demo_api_laws: "api_env_laws demo_api"
  by (auto simp: api_env_laws_def demo_api_def i64_min_def i64_max_def)

type_synonym micros = int

section \<open>Callers\<close>

record authenticated_user =
  au_user_id :: uuid
  au_workspace_id :: uuid

record member_row =
  mr_workspace_id :: uuid
  mr_user_id :: uuid
  mr_role :: rstr
  mr_status :: rstr
  mr_joined_at :: micros

text \<open>The member's role as the queries read it: \<open>WHERE \<dots> AND status = 'active' LIMIT 1\<close>.\<close>

definition active_role :: "member_row list \<Rightarrow> uuid \<Rightarrow> uuid \<Rightarrow> rstr option" where
  "active_role members user_id workspace_id =
     map_option mr_role
       (find (\<lambda>m. mr_workspace_id m = workspace_id \<and> mr_user_id m = user_id \<and> mr_status m = lit ''active'') members)"

section \<open>Entity tags\<close>

text \<open>\<open>api/mod.rs\<close> and \<open>api/documents.rs\<close> each have these functions.\<close>

definition trim_quotes :: "rstr \<Rightarrow> rstr" where
  "trim_quotes s = rev (dropWhile (\<lambda>c. c = 34) (rev (dropWhile (\<lambda>c. c = 34) s)))"

definition normalize_etag :: "rstr \<Rightarrow> rstr" where
  "normalize_etag v =
     (let v = trim v; v = (case strip_prefix (lit ''W/'') v of Some r \<Rightarrow> r | None \<Rightarrow> v) in trim_quotes (trim v))"

definition etag_matches :: "rstr \<Rightarrow> rstr \<Rightarrow> bool" where
  "etag_matches if_match current_etag \<longleftrightarrow>
     trim if_match = lit ''*'' \<or> normalize_etag if_match = normalize_etag current_etag"

definition quoted :: "rstr \<Rightarrow> rstr" where
  "quoted s = 34 # s @ [34]"

section \<open>Audit log\<close>

datatype audit_event_type = AuditAuth | PermissionChange | ShareLinkOperation | AuditDelete | AdminAction

fun audit_type_str :: "audit_event_type \<Rightarrow> rstr" where
  "audit_type_str AuditAuth = lit ''auth''"
| "audit_type_str PermissionChange = lit ''permission_change''"
| "audit_type_str ShareLinkOperation = lit ''share_link_operation''"
| "audit_type_str AuditDelete = lit ''delete''"
| "audit_type_str AdminAction = lit ''admin_action''"

record new_audit_event =
  na_workspace_id :: "uuid option"
  na_actor_user_id :: "uuid option"
  na_actor_agent_id :: "rstr option"
  na_event_type :: audit_event_type
  na_entity_type :: rstr
  na_entity_id :: rstr
  na_request_id :: "rstr option"
  na_ip_address :: "rstr option"
  na_user_agent :: "rstr option"
  na_details :: "json option"

record audit_event =
  ae_workspace_id :: "uuid option"
  ae_actor_user_id :: "uuid option"
  ae_actor_agent_id :: "rstr option"
  ae_event_type :: rstr
  ae_entity_type :: rstr
  ae_entity_id :: rstr
  ae_request_id :: "rstr option"
  ae_ip_hash :: "byte list option"
  ae_user_agent_hash :: "byte list option"
  ae_details :: "json option"
  ae_created_at :: micros

definition normalize_optional_str :: "rstr option \<Rightarrow> rstr option" where
  "normalize_optional_str v =
     (case v of None \<Rightarrow> None | Some raw \<Rightarrow> if trim raw = [] then None else Some (trim raw))"

definition normalize_ip :: "api_env \<Rightarrow> rstr option \<Rightarrow> rstr option" where
  "normalize_ip E v =
     (case normalize_optional_str v of
        None \<Rightarrow> None
      | Some raw \<Rightarrow> Some (case ip_text E raw of Some ip \<Rightarrow> ip | None \<Rightarrow> raw))"

definition hash_pii_value :: "api_env \<Rightarrow> rstr option \<Rightarrow> byte list option" where
  "hash_pii_value E v = map_option (\<lambda>raw. api_sha256 E (as_bytes raw)) v"

text \<open>\<open>PreparedAuditEvent::from_new\<close> and the insertion; an event without an entity is refused.\<close>

definition prepare_event :: "api_env \<Rightarrow> micros \<Rightarrow> new_audit_event \<Rightarrow> audit_event option" where
  "prepare_event E now e =
     (case (normalize_optional_str (Some (na_entity_type e)), normalize_optional_str (Some (na_entity_id e))) of
        (Some entity_type, Some entity_id) \<Rightarrow>
          Some \<lparr>ae_workspace_id = na_workspace_id e, ae_actor_user_id = na_actor_user_id e,
                ae_actor_agent_id = normalize_optional_str (na_actor_agent_id e),
                ae_event_type = audit_type_str (na_event_type e), ae_entity_type = entity_type,
                ae_entity_id = entity_id, ae_request_id = normalize_optional_str (na_request_id e),
                ae_ip_hash = hash_pii_value E (normalize_ip E (na_ip_address e)),
                ae_user_agent_hash = hash_pii_value E (normalize_optional_str (na_user_agent e)),
                ae_details = na_details e, ae_created_at = now\<rparr>
      | _ \<Rightarrow> None)"

definition record_event ::
  "api_env \<Rightarrow> micros \<Rightarrow> new_audit_event \<Rightarrow> audit_event list \<Rightarrow> audit_event option \<times> audit_event list" where
  "record_event E now e log =
     (case prepare_event E now e of None \<Rightarrow> (None, log) | Some row \<Rightarrow> (Some row, log @ [row]))"

definition header_value :: "rstr \<Rightarrow> request \<Rightarrow> rstr option" where
  "header_value name rq = normalize_optional_str (header_text name rq)"

definition forwarded_for_first_hop :: "request \<Rightarrow> rstr option" where
  "forwarded_for_first_hop rq =
     (case header_value (lit ''x-forwarded-for'') rq of
        None \<Rightarrow> None
      | Some chain \<Rightarrow> let first_hop = trim (hd (split_on 44 chain)) in if first_hop = [] then None else Some first_hop)"

definition client_ip_from_headers :: "api_env \<Rightarrow> request \<Rightarrow> rstr option" where
  "client_ip_from_headers E rq =
     Option.bind (case forwarded_for_first_hop rq of Some ip \<Rightarrow> Some ip | None \<Rightarrow> header_value (lit ''x-real-ip'') rq)
       (\<lambda>v. normalize_ip E (Some v))"

definition user_agent_from_headers :: "request \<Rightarrow> rstr option" where
  "user_agent_from_headers rq = normalize_optional_str (header_text (lit ''user-agent'') rq)"

definition json_text :: "rstr option \<Rightarrow> json" where
  "json_text v = (case v of None \<Rightarrow> JNull | Some s \<Rightarrow> JString s)"

definition json_int :: "int option \<Rightarrow> json" where
  "json_int v = (case v of None \<Rightarrow> JNull | Some i \<Rightarrow> JNumber (show_int i))"

text \<open>The log only grows, and a row is not rewritten.\<close>

lemma record_event_append: "\<exists>rows. snd (record_event E now e log) = log @ rows \<and> length rows \<le> 1"
  by (cases "prepare_event E now e") (auto simp: record_event_def)

end
