(* ===== verification/Paging.thy ===== *)
theory Paging
  imports Prelude "HOL-Library.Product_Lexorder" "HOL-Library.Multiset"
begin

text \<open>
  Keyset pagination, as every list endpoint of the relay does it: the rows that match are
  ordered by a key, newest first; a page asks for one row more than it returns, and the key of
  its last row is the cursor of the next page. The locale \<open>keyset_paging\<close> is the contract of an
  endpoint, and its lemma says that a client that follows the cursors sees every row once.
\<close>

section \<open>Pages\<close>

definition newest_first :: "('a \<Rightarrow> 'k::linorder) \<Rightarrow> 'a list \<Rightarrow> 'a list" where
  "newest_first key rows = rev (sort_key key rows)"

definition before :: "('a \<Rightarrow> 'k::linorder) \<Rightarrow> 'k option \<Rightarrow> 'a \<Rightarrow> bool" where
  "before key cursor r = (case cursor of None \<Rightarrow> True | Some k \<Rightarrow> key r < k)"

definition key_page :: "('a \<Rightarrow> 'k::linorder) \<Rightarrow> nat \<Rightarrow> 'a list \<Rightarrow> 'k option \<Rightarrow> 'a list \<times> 'k option" where
  "key_page key limit rows cursor =
     (let got = take (limit + 1) (newest_first key (filter (before key cursor) rows))
      in if length got > limit then (take limit got, Some (key (last (take limit got)))) else (got, None))"

text \<open>A client that asks for pages until there is no cursor, at most \<open>n\<close> of them.\<close>

fun walk :: "('k option \<Rightarrow> 'a list \<times> 'k option) \<Rightarrow> nat \<Rightarrow> 'k option \<Rightarrow> 'a list option" where
  "walk page 0 cursor = None"
| "walk page (Suc n) cursor =
     (case page cursor of
        (items, None) \<Rightarrow> Some items
      | (items, Some k) \<Rightarrow> map_option (\<lambda>rest. items @ rest) (walk page n (Some k)))"

lemma newest_first_set [simp]: "set (newest_first key rows) = set rows"
  by (simp add: newest_first_def)

lemma newest_first_length [simp]: "length (newest_first key rows) = length rows"
  by (simp add: newest_first_def)

lemma newest_first_Nil [simp]: "newest_first key rows = [] \<longleftrightarrow> rows = []"
  by (metis length_0_conv newest_first_length)

lemma newest_first_mset: "mset (newest_first key rows) = mset rows"
  by (simp add: newest_first_def)

lemma newest_first_distinct: "distinct (map key rows) \<Longrightarrow> distinct (map key (newest_first key rows))"
  using newest_first_mset [of key rows] by (metis mset_eq_imp_distinct_iff mset_map)

lemma newest_first_sorted: "sorted_wrt (\<lambda>a b. key b \<le> key a) (newest_first key rows)"
proof -
  have "sorted_wrt (\<lambda>a b. key a \<le> key b) (sort_key key rows)"
    using sorted_sort_key [of key rows] by (simp add: sorted_map)
  then show ?thesis by (simp add: newest_first_def sorted_wrt_rev)
qed

lemma newest_first_strict:
  assumes "distinct (map key rows)"
  shows "sorted_wrt (\<lambda>a b. key b < key a) (newest_first key rows)"
proof -
  have "sorted_wrt (\<noteq>) (map key (newest_first key rows))"
    using newest_first_distinct [OF assms] by (simp add: distinct_conv_nth sorted_wrt_iff_nth_less nat_neq_iff)
  then show ?thesis
    using newest_first_sorted [of key rows] by (auto simp: sorted_wrt_iff_nth_less order.strict_iff_order) metis
qed

text \<open>Filtering commutes with the order, so a cursor cuts the ordered list.\<close>

lemma newest_first_filter: "newest_first key (filter P rows) = filter P (newest_first key rows)"
  by (simp add: newest_first_def filter_sort rev_filter [symmetric])

lemma filter_before_cut:
  assumes "sorted_wrt (\<lambda>a b. key b < key a) (xs @ ys)" "xs \<noteq> []"
  shows "filter (before key (Some (key (last xs)))) (xs @ ys) = ys"
proof -
  have "\<not> key x < key (last xs)" if "x \<in> set xs" for x
    using assms that by (cases xs rule: rev_cases) (auto simp: sorted_wrt_append dest: less_asym)
  moreover have "key y < key (last xs)" if "y \<in> set ys" for y
    using assms that by (auto simp: sorted_wrt_append)
  ultimately show ?thesis by (simp add: before_def filter_empty_conv filter_id_conv)
qed

text \<open>The pages of a list ordered strictly, from a cursor that cuts it.\<close>

lemma walk_cut:
  assumes all: "newest_first key rows = done_rows @ rest" and dist: "distinct (map key rows)"
    and lim: "0 < limit" and cut_at: "filter (before key cursor) (newest_first key rows) = rest"
    and n: "length rest < n"
  shows "walk (key_page key limit rows) n cursor = Some rest"
  using all cut_at n
proof (induction n arbitrary: done_rows rest cursor)
  case 0
  then show ?case by simp
next
  case (Suc n)
  have page: "key_page key limit rows cursor =
      (let got = take (limit + 1) rest
       in if length got > limit then (take limit got, Some (key (last (take limit got)))) else (got, None))"
    using Suc.prems by (simp add: key_page_def newest_first_filter)
  show ?case
  proof (cases "length rest \<le> limit")
    case True
    then show ?thesis using page by simp
  next
    case False
    let ?a = "take limit rest" and ?b = "drop limit rest"
    have a: "?a \<noteq> []" using lim False by auto
    have strict: "sorted_wrt (\<lambda>a b. key b < key a) ((done_rows @ ?a) @ ?b)"
      using newest_first_strict [OF dist] Suc.prems(1) by simp
    have "filter (before key (Some (key (last (done_rows @ ?a))))) ((done_rows @ ?a) @ ?b) = ?b"
      by (rule filter_before_cut [OF strict]) (use a in simp)
    then have c: "filter (before key (Some (key (last ?a)))) (newest_first key rows) = ?b"
      using a Suc.prems(1) by simp
    have "walk (key_page key limit rows) n (Some (key (last ?a))) = Some ?b"
      by (rule Suc.IH [of "done_rows @ ?a", OF _ c]) (use Suc.prems lim False in auto)
    then show ?thesis using page False by (simp add: Let_def min_def)
  qed
qed

text \<open>A cursor is the key of a row.\<close>

lemma key_page_cursor:
  assumes "0 < limit" "key_page key limit rows c = (items, Some k)"
  shows "\<exists>r \<in> set rows. k = key r"
proof -
  define F where "F = newest_first key (filter (before key c) rows)"
  have k: "k = key (last (take limit F))" "limit < length F"
    using assms(2) by (auto simp: key_page_def Let_def min_def simp flip: F_def split: if_splits)
  then have "take limit F \<noteq> []" using assms(1) by auto
  then have "last (take limit F) \<in> set F" by (meson in_set_takeD last_in_set)
  then have "last (take limit F) \<in> set rows" by (simp add: F_def)
  then show ?thesis using k(1) by blast
qed

section \<open>The contract of a list endpoint\<close>

locale keyset_paging =
  fixes ok :: "'s \<Rightarrow> bool" and rows :: "'s \<Rightarrow> 'a list" and key :: "'a \<Rightarrow> 'k::linorder"
    and limit :: "'s \<Rightarrow> nat" and page :: "'s \<Rightarrow> 'k option \<Rightarrow> 'a list \<times> 'k option"
  assumes page_law: "ok s \<Longrightarrow> page s cursor = key_page key (limit s) (rows s) cursor"
    and keys_distinct: "ok s \<Longrightarrow> distinct (map key (rows s))"
    and limit_pos: "ok s \<Longrightarrow> 0 < limit s"
begin

lemma walk_complete:
  assumes "ok s" "length (rows s) < n"
  shows "walk (page s) n None = Some (newest_first key (rows s))"
proof -
  have "page s = key_page key (limit s) (rows s)" using page_law [OF assms(1)] by (rule ext)
  moreover have "walk (key_page key (limit s) (rows s)) n None = Some (newest_first key (rows s))"
    by (rule walk_cut [where done_rows = "[]"])
      (use assms keys_distinct limit_pos in \<open>auto simp: before_def\<close>)
  ultimately show ?thesis by simp
qed

lemma page_bounded: "ok s \<Longrightarrow> length (fst (page s cursor)) \<le> limit s"
  by (simp add: page_law key_page_def Let_def)

end

end
