(* ===== verification/Comments.thy ===== *)
theory Comments
  imports ApiBase Paging Decimal
begin

text \<open>
  \<open>relay/src/api/comments.rs\<close>: comment threads on the documents of a workspace. The tables
  \<open>comment_threads\<close> and \<open>comment_messages\<close> are lists of rows with the constraints of
  \<open>db/migrations/0001_init_schema.sql\<close>: a primary key that is taken, and a version that leaves the
  range of \<open>int\<close>, fail the statement and with it the request. The identifiers the database draws and
  its clock are arguments. A handler changes the tables in one statement or transaction, so the
  interleavings of requests are the sequences of these changes; a request that finds no row to
  change reads the row again to say why.
\<close>

section \<open>Rows\<close>

record comment_thread =
  ct_id :: uuid
  ct_workspace_id :: uuid
  ct_doc_id :: uuid
  ct_section_id :: "rstr option"
  ct_start :: "int option"
  ct_end :: "int option"
  ct_status :: rstr
  ct_version :: int
  ct_created_by_user_id :: "uuid option"
  ct_created_by_agent_id :: "rstr option"
  ct_created_at :: micros
  ct_resolved_at :: "micros option"

record comment_message =
  cm_id :: uuid
  cm_thread_id :: uuid
  cm_author_user_id :: "uuid option"
  cm_author_agent_id :: "rstr option"
  cm_body_md :: rstr
  cm_created_at :: micros
  cm_edited_at :: "micros option"

record document_ref =
  dr_id :: uuid
  dr_workspace_id :: uuid
  dr_deleted_at :: "micros option"

record comment_db =
  cd_threads :: "comment_thread list"
  cd_messages :: "comment_message list"
  cd_members :: "member_row list"
  cd_documents :: "document_ref list"
  cd_audit :: "audit_event list"

record comment_anchor =
  an_section_id :: "rstr option"
  an_start :: "int option"
  an_end :: "int option"
  an_head_seq :: "int option"

datatype comments_error =
    CBadRequest rstr
  | CForbidden
  | CNotFound rstr
  | CPreconditionFailed
  | CInternal

definition comments_into_response :: "comments_error \<Rightarrow> relay_error" where
  "comments_into_response e =
     (case e of
        CBadRequest message \<Rightarrow> error_new ValidationFailed message
      | CForbidden \<Rightarrow> error_new AuthForbidden (lit ''caller lacks required role'')
      | CNotFound message \<Rightarrow> error_new NotFound message
      | CPreconditionFailed \<Rightarrow>
          error_new EditPreconditionFailed (lit ''if_version does not match current thread version'')
      | CInternal \<Rightarrow> from_code InternalError)"

section \<open>Status\<close>

datatype comment_status = Open | Resolved

fun status_str :: "comment_status \<Rightarrow> rstr" where
  "status_str Open = lit ''open''"
| "status_str Resolved = lit ''resolved''"

definition status_parse :: "rstr \<Rightarrow> comment_status option" where
  "status_parse v =
     (if v = lit ''open'' then Some Open else if v = lit ''resolved'' then Some Resolved else None)"

fun required_current_status :: "comment_status \<Rightarrow> comment_status" where
  "required_current_status Resolved = Open"
| "required_current_status Open = Resolved"

fun transition_error_message :: "comment_status \<Rightarrow> comment_status \<Rightarrow> rstr" where
  "transition_error_message Resolved Resolved = lit ''comment thread is already resolved''"
| "transition_error_message Open Open = lit ''comment thread is already open''"
| "transition_error_message _ _ = lit ''comment thread cannot transition to requested status''"

section \<open>Validation and cursors\<close>

definition C_DEFAULT_PAGE_SIZE :: nat where "C_DEFAULT_PAGE_SIZE = 50"
definition C_MAX_PAGE_SIZE :: nat where "C_MAX_PAGE_SIZE = 100"

definition normalize_limit :: "nat option \<Rightarrow> nat" where
  "normalize_limit limit =
     (case limit of
        Some v \<Rightarrow> if v = 0 then C_DEFAULT_PAGE_SIZE else min v C_MAX_PAGE_SIZE
      | None \<Rightarrow> C_DEFAULT_PAGE_SIZE)"

definition parse_status_filter :: "rstr option \<Rightarrow> (comments_error, comment_status option) result" where
  "parse_status_filter v =
     (case v of
        None \<Rightarrow> Okay None
      | Some raw \<Rightarrow>
          if trim raw = [] then Okay None
          else case status_parse (trim raw) of
            Some s \<Rightarrow> Okay (Some s)
          | None \<Rightarrow> Err (CBadRequest (lit ''status must be one of: open, resolved'')))"

definition parse_cursor :: "api_env \<Rightarrow> rstr \<Rightarrow> (comments_error, micros \<times> uuid) result" where
  "parse_cursor E v =
     (case split_once 124 v of
        None \<Rightarrow> Err (CBadRequest (lit ''cursor format is invalid''))
      | Some (ts, i) \<Rightarrow>
          (case parse_i64 ts of
             None \<Rightarrow> Err (CBadRequest (lit ''cursor timestamp is invalid''))
           | Some t \<Rightarrow>
               if \<not> micros_ok E t then Err (CBadRequest (lit ''cursor timestamp is invalid''))
               else case uuid_parse E i of
                 None \<Rightarrow> Err (CBadRequest (lit ''cursor id is invalid''))
               | Some u \<Rightarrow> Okay (t, u)))"

definition encode_cursor :: "api_env \<Rightarrow> comment_thread \<Rightarrow> rstr" where
  "encode_cursor E t = show_int (ct_created_at t) @ lit ''|'' @ uuid_string E (ct_id t)"

definition paginate_comment_threads :: "api_env \<Rightarrow> comment_thread list \<Rightarrow> nat \<Rightarrow> comment_thread list \<times> rstr option" where
  "paginate_comment_threads E items limit =
     (if length items > limit
      then (let kept = take limit items
            in (kept, if kept = [] then None else Some (encode_cursor E (last kept))))
      else (items, None))"

definition validate_anchor :: "comment_anchor \<Rightarrow> (comments_error, unit) result" where
  "validate_anchor a =
     (if (case an_section_id a of Some s \<Rightarrow> trim s = [] | None \<Rightarrow> False)
      then Err (CBadRequest (lit ''anchor.section_id must not be empty when provided''))
      else
        (let offsets =
           (case (an_start a, an_end a) of
              (None, None) \<Rightarrow> Okay ()
            | (Some s, Some e) \<Rightarrow>
                if s < 0 \<or> e < 0 then Err (CBadRequest (lit ''anchor offsets must be positive integers''))
                else if e < s
                then Err (CBadRequest (lit ''anchor.end_offset_utf16 must be >= anchor.start_offset_utf16''))
                else Okay ()
            | _ \<Rightarrow>
                Err (CBadRequest (lit ''anchor.start_offset_utf16 and anchor.end_offset_utf16 must both be set or both be omitted'')))
         in case offsets of
              Inl e \<Rightarrow> Err e
            | Inr _ \<Rightarrow>
                if (case an_head_seq a of Some v \<Rightarrow> v < 0 | None \<Rightarrow> False)
                then Err (CBadRequest (lit ''anchor.head_seq must be >= 0 when provided''))
                else Okay ()))"

definition validate_markdown_body :: "rstr \<Rightarrow> rstr \<Rightarrow> (comments_error, unit) result" where
  "validate_markdown_body field_name v =
     (if trim v = [] then Err (CBadRequest (field_name @ lit '' must not be empty'')) else Okay ())"

section \<open>Membership\<close>

definition workspace_role_for_user :: "comment_db \<Rightarrow> uuid \<Rightarrow> uuid \<Rightarrow> (comments_error, workspace_role option) result" where
  "workspace_role_for_user db user_id workspace_id =
     (case active_role (cd_members db) user_id workspace_id of
        None \<Rightarrow> Okay None
      | Some v \<Rightarrow> (case role_from_db_value v of Some r \<Rightarrow> Okay (Some r) | None \<Rightarrow> Err CInternal))"

definition require_workspace_role ::
  "comment_db \<Rightarrow> authenticated_user \<Rightarrow> uuid \<Rightarrow> workspace_role \<Rightarrow> (comments_error, unit) result" where
  "require_workspace_role db user workspace_id required =
     (if au_workspace_id user \<noteq> workspace_id then Err CForbidden
      else case workspace_role_for_user db (au_user_id user) workspace_id of
        Inl e \<Rightarrow> Err e
      | Inr None \<Rightarrow> Err CForbidden
      | Inr (Some r) \<Rightarrow> if \<not> allows r required then Err CForbidden else Okay ())"

section \<open>Statements\<close>

definition find_thread :: "comment_db \<Rightarrow> uuid \<Rightarrow> uuid \<Rightarrow> comment_thread option" where
  "find_thread db workspace_id thread_id =
     find (\<lambda>t. ct_id t = thread_id \<and> ct_workspace_id t = workspace_id) (cd_threads db)"

definition ensure_document_exists :: "comment_db \<Rightarrow> uuid \<Rightarrow> uuid \<Rightarrow> (comments_error, unit) result" where
  "ensure_document_exists db workspace_id doc_id =
     (if list_ex (\<lambda>d. dr_id d = doc_id \<and> dr_workspace_id d = workspace_id \<and> dr_deleted_at d = None) (cd_documents db)
      then Okay () else Err (CNotFound (lit ''document not found'')))"

definition insert_message ::
  "uuid \<Rightarrow> micros \<Rightarrow> uuid \<Rightarrow> uuid \<Rightarrow> rstr \<Rightarrow> comment_db \<Rightarrow> (comment_message \<times> comment_db) option" where
  "insert_message new_id now thread_id author body db =
     (if list_ex (\<lambda>m. cm_id m = new_id) (cd_messages db) then None
      else let m = \<lparr>cm_id = new_id, cm_thread_id = thread_id, cm_author_user_id = Some author,
                    cm_author_agent_id = None, cm_body_md = body, cm_created_at = now, cm_edited_at = None\<rparr>
           in Some (m, db\<lparr>cd_messages := cd_messages db @ [m]\<rparr>))"

definition insert_thread ::
  "uuid \<Rightarrow> micros \<Rightarrow> uuid \<Rightarrow> uuid \<Rightarrow> uuid \<Rightarrow> comment_anchor \<Rightarrow> comment_db \<Rightarrow> (comment_thread \<times> comment_db) option" where
  "insert_thread new_id now workspace_id doc_id creator a db =
     (if list_ex (\<lambda>t. ct_id t = new_id) (cd_threads db) then None
      else let t = \<lparr>ct_id = new_id, ct_workspace_id = workspace_id, ct_doc_id = doc_id,
                    ct_section_id = an_section_id a, ct_start = an_start a, ct_end = an_end a,
                    ct_status = lit ''open'', ct_version = 1, ct_created_by_user_id = Some creator,
                    ct_created_by_agent_id = None, ct_created_at = now, ct_resolved_at = None\<rparr>
           in Some (t, db\<lparr>cd_threads := cd_threads db @ [t]\<rparr>))"

definition create_thread_pg ::
  "uuid \<Rightarrow> uuid \<Rightarrow> micros \<Rightarrow> uuid \<Rightarrow> uuid \<Rightarrow> uuid \<Rightarrow> comment_anchor \<Rightarrow> rstr \<Rightarrow> comment_db \<Rightarrow>
   (comments_error, comment_thread \<times> comment_message) result \<times> comment_db" where
  "create_thread_pg thread_id message_id now workspace_id doc_id creator a body db =
     (case ensure_document_exists db workspace_id doc_id of
        Inl e \<Rightarrow> (Err e, db)
      | Inr _ \<Rightarrow>
          (case insert_thread thread_id now workspace_id doc_id creator a db of
             None \<Rightarrow> (Err CInternal, db)
           | Some (t, db1) \<Rightarrow>
               (case insert_message message_id now (ct_id t) creator body db1 of
                  None \<Rightarrow> (Err CInternal, db)
                | Some (m, db2) \<Rightarrow> (Okay (t, m), db2))))"

definition create_message_pg ::
  "uuid \<Rightarrow> micros \<Rightarrow> uuid \<Rightarrow> uuid \<Rightarrow> uuid \<Rightarrow> rstr \<Rightarrow> comment_db \<Rightarrow>
   (comments_error, comment_message) result \<times> comment_db" where
  "create_message_pg message_id now workspace_id thread_id author body db =
     (case find_thread db workspace_id thread_id of
        None \<Rightarrow> (Err (CNotFound (lit ''comment thread not found'')), db)
      | Some t \<Rightarrow>
          if ct_status t = lit ''open''
          then (case insert_message message_id now thread_id author body db of
                  None \<Rightarrow> (Err CInternal, db)
                | Some (m, db1) \<Rightarrow> (Okay m, db1))
          else if ct_status t = lit ''resolved''
          then (Err (CBadRequest (lit ''comment thread is resolved'')), db)
          else (Err CInternal, db))"

definition set_row :: "comment_thread \<Rightarrow> comment_db \<Rightarrow> comment_db" where
  "set_row t db = db\<lparr>cd_threads := map (\<lambda>x. if ct_id x = ct_id t then t else x) (cd_threads db)\<rparr>"

definition i32_max :: int where "i32_max = 2147483647"

text \<open>The \<open>UPDATE\<close>, and the reads that tell why it changed no row.\<close>

definition set_thread_status_pg ::
  "micros \<Rightarrow> uuid \<Rightarrow> uuid \<Rightarrow> int \<Rightarrow> comment_status \<Rightarrow> comment_db \<Rightarrow>
   (comments_error, comment_thread) result \<times> comment_db" where
  "set_thread_status_pg now workspace_id thread_id if_version nxt db =
     (let expected = required_current_status nxt in
      case find_thread db workspace_id thread_id of
        None \<Rightarrow> (Err (CNotFound (lit ''comment thread not found'')), db)
      | Some t \<Rightarrow>
          if ct_version t = if_version \<and> ct_status t = status_str expected
          then if ct_version t + 1 > i32_max then (Err CInternal, db)
               else let t' = t\<lparr>ct_status := status_str nxt, ct_version := ct_version t + 1,
                               ct_resolved_at := (if nxt = Resolved then Some now else None)\<rparr>
                    in (Okay t', set_row t' db)
          else if ct_version t \<noteq> if_version then (Err CPreconditionFailed, db)
          else case status_parse (ct_status t) of
            None \<Rightarrow> (Err CInternal, db)
          | Some current \<Rightarrow>
              if current \<noteq> expected then (Err (CBadRequest (transition_error_message nxt current)), db)
              else (Err CInternal, db))"

section \<open>Reading\<close>

definition thread_key :: "comment_thread \<Rightarrow> micros \<times> uuid" where
  "thread_key t = (ct_created_at t, ct_id t)"

definition message_key :: "comment_message \<Rightarrow> micros \<times> uuid" where
  "message_key m = (cm_created_at m, cm_id m)"

definition matching :: "uuid \<Rightarrow> uuid \<Rightarrow> comment_status option \<Rightarrow> comment_thread \<Rightarrow> bool" where
  "matching workspace_id doc_id status t \<longleftrightarrow>
     ct_workspace_id t = workspace_id \<and> ct_doc_id t = doc_id \<and>
     (case status of None \<Rightarrow> True | Some s \<Rightarrow> ct_status t = status_str s)"

definition after_cursor :: "(micros \<times> uuid) option \<Rightarrow> comment_thread \<Rightarrow> bool" where
  "after_cursor cursor t \<longleftrightarrow>
     (case cursor of
        None \<Rightarrow> True
      | Some (c, i) \<Rightarrow> ct_created_at t < c \<or> ct_created_at t = c \<and> ct_id t < i)"

text \<open>\<open>messages_by_thread\<close>: rows are appended under their thread, and taken out thread by thread.\<close>

definition group_messages :: "comment_message list \<Rightarrow> uuid \<Rightarrow> comment_message list" where
  "group_messages rows = foldl (\<lambda>g m. g(cm_thread_id m := g (cm_thread_id m) @ [m])) (\<lambda>_. []) rows"

fun attach :: "(uuid \<Rightarrow> comment_message list) \<Rightarrow> comment_thread list \<Rightarrow> (comment_thread \<times> comment_message list) list" where
  "attach g [] = []"
| "attach g (t # ts) = (t, g (ct_id t)) # attach (g(ct_id t := [])) ts"

definition list_threads_pg ::
  "api_env \<Rightarrow> comment_db \<Rightarrow> uuid \<Rightarrow> uuid \<Rightarrow> comment_status option \<Rightarrow> nat \<Rightarrow> (micros \<times> uuid) option \<Rightarrow>
   (comments_error, (comment_thread \<times> comment_message list) list \<times> rstr option) result" where
  "list_threads_pg E db workspace_id doc_id status limit cursor =
     (case ensure_document_exists db workspace_id doc_id of
        Inl e \<Rightarrow> Err e
      | Inr _ \<Rightarrow>
          let got = take (limit + 1)
                (rev (sort_key thread_key
                   (filter (\<lambda>t. matching workspace_id doc_id status t \<and> after_cursor cursor t) (cd_threads db))));
              (rows, next_cursor) = paginate_comment_threads E got limit
          in if rows = [] then Okay ([], next_cursor)
             else let ids = map ct_id rows;
                      message_rows = sort_key message_key (filter (\<lambda>m. cm_thread_id m \<in> set ids) (cd_messages db))
                  in Okay (attach (group_messages message_rows) rows, next_cursor))"

definition thread_messages :: "comment_db \<Rightarrow> uuid \<Rightarrow> comment_message list" where
  "thread_messages db thread_id = sort_key message_key (filter (\<lambda>m. cm_thread_id m = thread_id) (cd_messages db))"

definition get_thread_with_messages_pg ::
  "comment_db \<Rightarrow> uuid \<Rightarrow> uuid \<Rightarrow> (comments_error, comment_thread \<times> comment_message list) result" where
  "get_thread_with_messages_pg db workspace_id thread_id =
     (case find_thread db workspace_id thread_id of
        None \<Rightarrow> Err (CNotFound (lit ''comment thread not found''))
      | Some t \<Rightarrow> Okay (t, thread_messages db thread_id))"

section \<open>Handlers\<close>

definition try_record_comment_audit_event ::
  "api_env \<Rightarrow> micros \<Rightarrow> rstr option \<Rightarrow> uuid \<Rightarrow> uuid \<Rightarrow> uuid \<Rightarrow> rstr \<Rightarrow> json \<Rightarrow> comment_db \<Rightarrow> comment_db" where
  "try_record_comment_audit_event E now request_id workspace_id actor thread_id action details db =
     db\<lparr>cd_audit := snd (record_event E now
          \<lparr>na_workspace_id = Some workspace_id, na_actor_user_id = Some actor, na_actor_agent_id = None,
           na_event_type = AdminAction, na_entity_type = lit ''comment_thread'',
           na_entity_id = uuid_string E thread_id, na_request_id = request_id, na_ip_address = None,
           na_user_agent = None,
           na_details = Some (JObject [(lit ''action'', JString action), (lit ''comment_thread'', details)])\<rparr>
          (cd_audit db))\<rparr>"

definition list_comments ::
  "api_env \<Rightarrow> comment_db \<Rightarrow> authenticated_user \<Rightarrow> uuid \<Rightarrow> uuid \<Rightarrow> rstr option \<Rightarrow> nat option \<Rightarrow> rstr option \<Rightarrow>
   (comments_error, (comment_thread \<times> comment_message list) list \<times> rstr option) result" where
  "list_comments E db user ws_id doc_id status limit cursor =
     (case require_workspace_role db user ws_id Viewer of Inl e \<Rightarrow> Err e | Inr _ \<Rightarrow>
      (case parse_status_filter status of Inl e \<Rightarrow> Err e | Inr status_filter \<Rightarrow>
       (case (case cursor of None \<Rightarrow> Okay None | Some raw \<Rightarrow> map_sum id Some (parse_cursor E raw)) of
          Inl e \<Rightarrow> Err e
        | Inr c \<Rightarrow> list_threads_pg E db ws_id doc_id status_filter (normalize_limit limit) c)))"

definition create_comment_thread ::
  "api_env \<Rightarrow> uuid \<Rightarrow> uuid \<Rightarrow> micros \<Rightarrow> rstr option \<Rightarrow> authenticated_user \<Rightarrow> uuid \<Rightarrow> uuid \<Rightarrow> comment_anchor \<Rightarrow> rstr \<Rightarrow>
   comment_db \<Rightarrow> (comments_error, comment_thread \<times> comment_message list) result \<times> comment_db" where
  "create_comment_thread E thread_id message_id now request_id user ws_id doc_id a message db =
     (case require_workspace_role db user ws_id Editor of Inl e \<Rightarrow> (Err e, db) | Inr _ \<Rightarrow>
      (case validate_anchor a of Inl e \<Rightarrow> (Err e, db) | Inr _ \<Rightarrow>
       (case validate_markdown_body (lit ''message'') message of Inl e \<Rightarrow> (Err e, db) | Inr _ \<Rightarrow>
        (case create_thread_pg thread_id message_id now ws_id doc_id (au_user_id user) a message db of
           (Inl e, db1) \<Rightarrow> (Err e, db1)
         | (Inr (t, m), db1) \<Rightarrow>
             (Okay (t, [m]),
              try_record_comment_audit_event E now request_id ws_id (au_user_id user) (ct_id t) (lit ''create'')
                (JObject [(lit ''doc_id'', JString (uuid_string E doc_id)),
                          (lit ''message_id'', JString (uuid_string E (cm_id m))),
                          (lit ''section_id'', case ct_section_id t of None \<Rightarrow> JNull | Some s \<Rightarrow> JString s)]) db1)))))"

definition create_comment_message ::
  "uuid \<Rightarrow> micros \<Rightarrow> authenticated_user \<Rightarrow> uuid \<Rightarrow> uuid \<Rightarrow> rstr \<Rightarrow> comment_db \<Rightarrow>
   (comments_error, comment_thread \<times> comment_message list) result \<times> comment_db" where
  "create_comment_message message_id now user ws_id thread_id body_md db =
     (case require_workspace_role db user ws_id Editor of Inl e \<Rightarrow> (Err e, db) | Inr _ \<Rightarrow>
      (case validate_markdown_body (lit ''body_md'') body_md of Inl e \<Rightarrow> (Err e, db) | Inr _ \<Rightarrow>
       (case create_message_pg message_id now ws_id thread_id (au_user_id user) body_md db of
          (Inl e, db1) \<Rightarrow> (Err e, db1)
        | (Inr m, db1) \<Rightarrow>
            (case get_thread_with_messages_pg db1 ws_id thread_id of
               Inl e \<Rightarrow> (Err e, db1)
             | Inr (t, ms) \<Rightarrow>
                 if \<not> list_ex (\<lambda>existing. cm_id existing = cm_id m) ms then (Err CInternal, db1)
                 else (Okay (t, ms), db1)))))"

definition change_status ::
  "comment_status \<Rightarrow> rstr \<Rightarrow> api_env \<Rightarrow> micros \<Rightarrow> rstr option \<Rightarrow> authenticated_user \<Rightarrow> uuid \<Rightarrow> uuid \<Rightarrow> int \<Rightarrow>
   comment_db \<Rightarrow> (comments_error, comment_thread) result \<times> comment_db" where
  "change_status nxt action E now request_id user ws_id thread_id if_version db =
     (case require_workspace_role db user ws_id Editor of Inl e \<Rightarrow> (Err e, db) | Inr _ \<Rightarrow>
      if if_version < 1 then (Err (CBadRequest (lit ''if_version must be >= 1'')), db)
      else case set_thread_status_pg now ws_id thread_id if_version nxt db of
        (Inl e, db1) \<Rightarrow> (Err e, db1)
      | (Inr t, db1) \<Rightarrow>
          (Okay t,
           try_record_comment_audit_event E now request_id ws_id (au_user_id user) (ct_id t) action
             (JObject [(lit ''if_version'', JNumber (show_int if_version)),
                       (lit ''next_version'', JNumber (show_int (ct_version t)))]) db1))"

definition resolve_comment_thread ::
  "api_env \<Rightarrow> micros \<Rightarrow> rstr option \<Rightarrow> authenticated_user \<Rightarrow> uuid \<Rightarrow> uuid \<Rightarrow> int \<Rightarrow>
   comment_db \<Rightarrow> (comments_error, comment_thread) result \<times> comment_db" where
  "resolve_comment_thread = change_status Resolved (lit ''resolve'')"

definition reopen_comment_thread ::
  "api_env \<Rightarrow> micros \<Rightarrow> rstr option \<Rightarrow> authenticated_user \<Rightarrow> uuid \<Rightarrow> uuid \<Rightarrow> int \<Rightarrow>
   comment_db \<Rightarrow> (comments_error, comment_thread) result \<times> comment_db" where
  "reopen_comment_thread = change_status Open (lit ''reopen'')"

end
