(* ===== verification/CommentRuns.thy ===== *)
theory CommentRuns
  imports Comments
begin

text \<open>
  What the requests of \<open>Comments\<close> keep and promise: the tables stay well formed whatever is asked,
  in any order and by anyone; a refused request changes nothing; a version is spent once; and
  following the cursors of the list endpoint shows every thread once.
\<close>

section \<open>Well-formed tables\<close>

definition anchor_ok :: "rstr option \<Rightarrow> int option \<Rightarrow> int option \<Rightarrow> bool" where
  "anchor_ok section_id start_off end_off \<longleftrightarrow>
     (case section_id of None \<Rightarrow> True | Some s \<Rightarrow> trim s \<noteq> []) \<and>
     (case (start_off, end_off) of (None, None) \<Rightarrow> True | (Some s, Some e) \<Rightarrow> 0 \<le> s \<and> s \<le> e | _ \<Rightarrow> False)"

definition thread_ok :: "comment_thread \<Rightarrow> bool" where
  "thread_ok t \<longleftrightarrow>
     1 \<le> ct_version t \<and> ct_version t \<le> i32_max \<and>
     ct_status t = status_str (if odd (ct_version t) then Open else Resolved) \<and>
     (ct_resolved_at t = None \<longleftrightarrow> odd (ct_version t)) \<and>
     anchor_ok (ct_section_id t) (ct_start t) (ct_end t)"

definition tables_ok :: "comment_thread list \<Rightarrow> comment_message list \<Rightarrow> bool" where
  "tables_ok threads messages \<longleftrightarrow>
     distinct (map ct_id threads) \<and> distinct (map cm_id messages) \<and>
     list_all thread_ok threads \<and> list_all (\<lambda>m. trim (cm_body_md m) \<noteq> []) messages \<and>
     cm_thread_id ` set messages = ct_id ` set threads"

definition comments_ok :: "comment_db \<Rightarrow> bool" where
  "comments_ok db \<longleftrightarrow> tables_ok (cd_threads db) (cd_messages db)"

lemma status_str_inj [simp]: "status_str s = status_str q \<longleftrightarrow> s = q"
  by (cases s; cases q) (simp_all add: lit_def)

lemma status_parse_str [simp]: "status_parse (status_str s) = Some s"
  by (cases s) (simp_all add: status_parse_def lit_def)

lemma status_parse_SomeD: "status_parse v = Some s \<Longrightarrow> v = status_str s"
  by (auto simp: status_parse_def split: if_splits)

lemma validate_anchor_ok:
  "validate_anchor a = Okay u \<Longrightarrow> anchor_ok (an_section_id a) (an_start a) (an_end a)"
  by (auto simp: validate_anchor_def anchor_ok_def Let_def split: if_splits option.splits sum.splits)

lemma validate_body_ok: "validate_markdown_body f v = Okay u \<longleftrightarrow> trim v \<noteq> []"
  by (simp add: validate_markdown_body_def)

section \<open>Statements keep the tables\<close>

text \<open>A new thread is committed together with its first message.\<close>

lemma tables_ok_create:
  assumes "tables_ok threads messages" "ct_id t \<notin> ct_id ` set threads" "cm_id m \<notin> cm_id ` set messages"
    "thread_ok t" "trim (cm_body_md m) \<noteq> []" "cm_thread_id m = ct_id t"
  shows "tables_ok (threads @ [t]) (messages @ [m])"
  using assms by (auto simp: tables_ok_def)

lemma tables_ok_reply:
  assumes "tables_ok threads messages" "cm_id m \<notin> cm_id ` set messages" "trim (cm_body_md m) \<noteq> []"
    "cm_thread_id m \<in> ct_id ` set threads"
  shows "tables_ok threads (messages @ [m])"
  using assms by (auto simp: tables_ok_def)

lemma tables_ok_update:
  assumes "tables_ok threads messages" "thread_ok t"
  shows "tables_ok (map (\<lambda>x. if ct_id x = ct_id t then t else x) threads) messages"
proof -
  let ?f = "\<lambda>x. if ct_id x = ct_id t then t else x"
  have ids: "map ct_id (map ?f threads) = map ct_id threads" by (induction threads) auto
  then have "ct_id ` set (map ?f threads) = ct_id ` set threads" by (metis set_map)
  moreover have "list_all thread_ok (map ?f threads)" using assms by (auto simp: tables_ok_def list_all_iff)
  ultimately show ?thesis using assms(1) unfolding tables_ok_def ids by blast
qed

lemma find_thread_SomeD:
  assumes "find_thread db ws i = Some t"
  shows "t \<in> set (cd_threads db) \<and> ct_id t = i \<and> ct_workspace_id t = ws"
  using assms by (auto simp: find_thread_def find_Some_iff)

lemma thread_ok_flip:
  assumes "thread_ok t" "ct_status t = status_str (required_current_status s)" "ct_version t + 1 \<le> i32_max"
  shows "thread_ok (t\<lparr>ct_status := status_str s, ct_version := ct_version t + 1,
            ct_resolved_at := (if s = Resolved then Some now else None)\<rparr>)"
  using assms by (cases s) (auto simp: thread_ok_def simp del: status_str.simps split: if_splits)

lemma insert_thread_SomeD:
  assumes "insert_thread i now ws doc u a db = Some (t, db1)"
  shows "i \<notin> ct_id ` set (cd_threads db) \<and> ct_id t = i \<and>
         cd_threads db1 = cd_threads db @ [t] \<and> cd_messages db1 = cd_messages db \<and>
         ct_version t = 1 \<and> ct_status t = status_str Open \<and> ct_resolved_at t = None \<and>
         ct_section_id t = an_section_id a \<and> ct_start t = an_start a \<and> ct_end t = an_end a \<and>
         ct_workspace_id t = ws \<and> ct_doc_id t = doc"
  using assms by (auto simp: insert_thread_def Let_def list_ex_iff split: if_splits)

lemma insert_message_SomeD:
  assumes "insert_message i now th u body db = Some (m, db1)"
  shows "i \<notin> cm_id ` set (cd_messages db) \<and> cm_id m = i \<and> cm_thread_id m = th \<and> cm_body_md m = body \<and>
         cd_messages db1 = cd_messages db @ [m] \<and> cd_threads db1 = cd_threads db"
  using assms by (auto simp: insert_message_def Let_def list_ex_iff split: if_splits)

lemma create_thread_pg_ok:
  assumes "comments_ok db" "anchor_ok (an_section_id a) (an_start a) (an_end a)" "trim body \<noteq> []"
    "create_thread_pg i j now ws doc u a body db = (Okay (t, m), db1)"
  shows "comments_ok db1"
proof -
  obtain db0 where "insert_thread i now ws doc u a db = Some (t, db0)"
      "insert_message j now (ct_id t) u body db0 = Some (m, db1)"
    using assms(4) by (auto simp: create_thread_pg_def split: sum.splits option.splits)
  note ins = insert_thread_SomeD [OF this(1)] insert_message_SomeD [OF this(2)]
  have "thread_ok t" using ins assms(2) by (auto simp: thread_ok_def i32_max_def)
  then show ?thesis
    using tables_ok_create [of "cd_threads db" "cd_messages db" t m] ins assms by (auto simp: comments_ok_def)
qed

lemma create_message_pg_ok:
  assumes "comments_ok db" "trim body \<noteq> []" "create_message_pg j now ws i u body db = (Okay m, db1)"
  shows "comments_ok db1 \<and> cm_thread_id m = i \<and> m \<in> set (cd_messages db1) \<and> cd_threads db1 = cd_threads db"
proof -
  obtain t where t: "find_thread db ws i = Some t" "insert_message j now i u body db = Some (m, db1)"
    using assms(3) by (auto simp: create_message_pg_def split: option.splits if_splits)
  note ins = insert_message_SomeD [OF t(2)]
  have "i \<in> ct_id ` set (cd_threads db)" using find_thread_SomeD [OF t(1)] by auto
  then show ?thesis
    using tables_ok_reply [of "cd_threads db" "cd_messages db" m] ins assms(1,2) by (auto simp: comments_ok_def)
qed

text \<open>Success of the status update: which row it found and what it wrote.\<close>

lemma set_thread_status_Okay:
  assumes "set_thread_status_pg now ws i v s db = (Okay t', db1)"
  obtains t where "find_thread db ws i = Some t" "ct_version t = v"
    "ct_status t = status_str (required_current_status s)" "v + 1 \<le> i32_max"
    "t' = t\<lparr>ct_status := status_str s, ct_version := v + 1,
            ct_resolved_at := (if s = Resolved then Some now else None)\<rparr>"
    "db1 = set_row t' db"
  using assms by (auto simp: set_thread_status_pg_def Let_def split: option.splits if_splits)

lemma set_thread_status_ok:
  assumes "comments_ok db" "set_thread_status_pg now ws i v s db = (Okay t', db1)"
  shows "comments_ok db1"
  using assms(2)
proof (rule set_thread_status_Okay)
  fix t
  assume t: "find_thread db ws i = Some t" "ct_version t = v" "ct_status t = status_str (required_current_status s)"
    "v + 1 \<le> i32_max" and t': "t' = t\<lparr>ct_status := status_str s, ct_version := v + 1,
            ct_resolved_at := (if s = Resolved then Some now else None)\<rparr>" and db1: "db1 = set_row t' db"
  have "thread_ok t" using assms(1) find_thread_SomeD [OF t(1)] by (auto simp: comments_ok_def tables_ok_def list_all_iff)
  then have "thread_ok t'" using thread_ok_flip [of t s] t unfolding t' by auto
  then show ?thesis using assms(1) tables_ok_update by (simp add: db1 comments_ok_def set_row_def)
qed

section \<open>Runs\<close>

text \<open>
  The requests, and the changes that other endpoints make to the members and the documents. The
  handlers answer with a thread and messages; here only the thread is kept.
\<close>

datatype comment_op =
    CreateThread uuid uuid micros "rstr option" authenticated_user uuid uuid comment_anchor rstr
  | Reply uuid micros authenticated_user uuid uuid rstr
  | SetStatus comment_status micros "rstr option" authenticated_user uuid uuid int
  | MembersChanged "member_row list"
  | DocumentsChanged "document_ref list"

fun comment_request :: "api_env \<Rightarrow> comment_op \<Rightarrow> comment_db \<Rightarrow> (comments_error, comment_thread option) result \<times> comment_db" where
  "comment_request E (CreateThread i j now rid user ws doc a body) db =
     (let (r, db1) = create_comment_thread E i j now rid user ws doc a body db in (map_sum id (Some \<circ> fst) r, db1))"
| "comment_request E (Reply j now user ws i body) db =
     (let (r, db1) = create_comment_message j now user ws i body db in (map_sum id (Some \<circ> fst) r, db1))"
| "comment_request E (SetStatus Resolved now rid user ws i v) db =
     (let (r, db1) = resolve_comment_thread E now rid user ws i v db in (map_sum id Some r, db1))"
| "comment_request E (SetStatus Open now rid user ws i v) db =
     (let (r, db1) = reopen_comment_thread E now rid user ws i v db in (map_sum id Some r, db1))"
| "comment_request E (MembersChanged ms) db = (Okay None, db\<lparr>cd_members := ms\<rparr>)"
| "comment_request E (DocumentsChanged ds) db = (Okay None, db\<lparr>cd_documents := ds\<rparr>)"

definition comment_step :: "api_env \<Rightarrow> comment_db \<Rightarrow> comment_op \<Rightarrow> comment_db" where
  "comment_step E db op = snd (comment_request E op db)"

definition empty_comments :: comment_db where
  "empty_comments = \<lparr>cd_threads = [], cd_messages = [], cd_members = [], cd_documents = [], cd_audit = []\<rparr>"

lemma audit_frame [simp]:
  "cd_threads (try_record_comment_audit_event E now rid ws u i act det db) = cd_threads db"
  "cd_messages (try_record_comment_audit_event E now rid ws u i act det db) = cd_messages db"
  by (simp_all add: try_record_comment_audit_event_def)

lemma audit_comments_ok [simp]:
  "comments_ok (try_record_comment_audit_event E now rid ws u i act det db) = comments_ok db"
  by (simp add: comments_ok_def)

lemma create_thread_pg_Err: "create_thread_pg i j now ws doc u a body db = (Err e, db1) \<Longrightarrow> db1 = db"
  by (auto simp: create_thread_pg_def split: sum.splits option.splits)

lemma create_message_pg_Err: "create_message_pg j now ws i u body db = (Err e, db1) \<Longrightarrow> db1 = db"
  by (auto simp: create_message_pg_def split: option.splits if_splits)

lemma set_thread_status_Err: "set_thread_status_pg now ws i v s db = (Err e, db1) \<Longrightarrow> db1 = db"
  by (auto simp: set_thread_status_pg_def Let_def split: option.splits if_splits)

lemma create_thread_keeps:
  assumes "comments_ok db"
  shows "comments_ok (snd (create_comment_thread E i j now rid user ws doc a body db))"
  using assms
  by (auto simp: create_comment_thread_def validate_body_ok split: sum.splits prod.splits
      dest: create_thread_pg_Err intro: create_thread_pg_ok validate_anchor_ok)

lemma create_message_keeps:
  assumes "comments_ok db"
  shows "comments_ok (snd (create_comment_message j now user ws i body db))"
  using assms
  by (auto simp: create_comment_message_def validate_body_ok split: sum.splits prod.splits
      dest: create_message_pg_Err create_message_pg_ok)

lemma change_status_keeps:
  assumes "comments_ok db"
  shows "comments_ok (snd (change_status s act E now rid user ws i v db))"
  using assms
  by (auto simp: change_status_def split: sum.splits prod.splits
      dest: set_thread_status_Err intro: set_thread_status_ok)

lemma comment_step_keeps: "comments_ok db \<Longrightarrow> comments_ok (comment_step E db op)"
  using create_thread_keeps create_message_keeps change_status_keeps
  by (cases "(E, op, db)" rule: comment_request.cases)
    (auto simp: comment_step_def resolve_comment_thread_def reopen_comment_thread_def comments_ok_def split_beta)

interpretation comments: init_system "comment_step E" "\<lambda>_ _. True" comments_ok empty_comments for E
  by unfold_locales (erule comment_step_keeps, simp add: comments_ok_def tables_ok_def empty_comments_def)

text \<open>
  (C29) The comment tables are well typed. Whatever requests are served, in whatever order and from
  whatever callers, and however members and documents change meanwhile: thread and message ids are
  unique; a thread is open exactly at an odd version and has a resolution time exactly when it is
  resolved; its version fits an \<open>i32\<close>; its anchor has both offsets in order or none; no message is
  blank; every message belongs to a thread and every thread has a message.
\<close>

theorem comment_tables_well_formed: "comments_ok (foldl (comment_step E) empty_comments ops)"
  by (rule comments.inv_reachable) simp

section \<open>A version is spent once\<close>

definition version_of :: "uuid \<Rightarrow> comment_db \<Rightarrow> int" where
  "version_of i db = (case map_of (map (\<lambda>t. (ct_id t, ct_version t)) (cd_threads db)) i of None \<Rightarrow> 0 | Some v \<Rightarrow> v)"

lemma version_of_in:
  assumes "comments_ok db" "t \<in> set (cd_threads db)"
  shows "version_of (ct_id t) db = ct_version t"
proof -
  have "distinct (map fst (map (\<lambda>t. (ct_id t, ct_version t)) (cd_threads db)))"
    using assms(1) by (simp add: comments_ok_def tables_ok_def comp_def)
  then have "map_of (map (\<lambda>t. (ct_id t, ct_version t)) (cd_threads db)) (ct_id t) = Some (ct_version t)"
    using assms(2) by (intro map_of_is_SomeI) auto
  then show ?thesis by (simp add: version_of_def)
qed

lemma version_of_same: "cd_threads db1 = cd_threads db \<Longrightarrow> version_of i db1 = version_of i db"
  by (simp add: version_of_def)

lemma version_of_new:
  assumes "cd_threads db1 = cd_threads db @ [t]" "ct_id t \<notin> ct_id ` set (cd_threads db)" "0 \<le> ct_version t"
  shows "version_of i db \<le> version_of i db1"
proof (cases "map_of (map (\<lambda>t. (ct_id t, ct_version t)) (cd_threads db)) i")
  case None
  then show ?thesis using assms by (simp add: version_of_def map_add_def)
next
  case (Some v)
  then have "i \<in> fst ` set (map (\<lambda>t. (ct_id t, ct_version t)) (cd_threads db))" by (metis domI dom_map_of_conv_image_fst)
  then have "i \<noteq> ct_id t" using assms(2) by force
  then show ?thesis using Some assms(1) by (simp add: version_of_def map_add_def)
qed

lemma version_of_audit [simp]:
  "version_of k (try_record_comment_audit_event E now rid ws u i act det db) = version_of k db"
  by (rule version_of_same) simp

lemma version_of_set_row:
  "version_of i (set_row t db) =
   (if i = ct_id t \<and> i \<in> ct_id ` set (cd_threads db) then ct_version t else version_of i db)"
proof -
  have "map_of (map (\<lambda>t. (ct_id t, ct_version t)) (map (\<lambda>x. if ct_id x = ct_id t then t else x) threads)) i =
     (if i = ct_id t \<and> i \<in> ct_id ` set threads then Some (ct_version t)
      else map_of (map (\<lambda>t. (ct_id t, ct_version t)) threads) i)" for threads
    by (induction threads) auto
  then show ?thesis by (simp only: version_of_def set_row_def comment_db.simps) auto
qed

lemma version_of_status:
  assumes "comments_ok db" "set_thread_status_pg now ws i v s db = (Okay t, db1)"
  shows "version_of i db = v \<and> version_of i db1 = v + 1 \<and> ct_version t = v + 1 \<and> ct_status t = status_str s \<and> ct_id t = i \<and>
         (\<forall>j. j \<noteq> i \<longrightarrow> version_of j db1 = version_of j db)"
  using assms(2)
proof (rule set_thread_status_Okay)
  fix t0
  assume t0: "find_thread db ws i = Some t0" "ct_version t0 = v" and t: "t = t0\<lparr>ct_status := status_str s,
      ct_version := v + 1, ct_resolved_at := (if s = Resolved then Some now else None)\<rparr>"
    and db1: "db1 = set_row t db"
  have m: "t0 \<in> set (cd_threads db)" "ct_id t0 = i" using find_thread_SomeD [OF t0(1)] by auto
  then have "i \<in> ct_id ` set (cd_threads db)" by auto
  moreover have "version_of i db = v" using version_of_in [OF assms(1) m(1)] m(2) t0(2) by simp
  moreover have "ct_id t = i" "ct_version t = v + 1" "ct_status t = status_str s" using m(2) by (simp_all add: t)
  ultimately show ?thesis unfolding db1 by (simp add: version_of_set_row)
qed

lemma create_thread_versions:
  assumes "create_thread_pg i j now ws doc u a body db = (r, db1)"
  shows "version_of k db \<le> version_of k db1"
proof (cases r)
  case (Inl e)
  then show ?thesis using create_thread_pg_Err assms by fastforce
next
  case (Inr tm)
  then obtain t m db0 where "insert_thread i now ws doc u a db = Some (t, db0)"
      "insert_message j now (ct_id t) u body db0 = Some (m, db1)"
    using assms by (auto simp: create_thread_pg_def split: sum.splits option.splits)
  note ins = insert_thread_SomeD [OF this(1)] insert_message_SomeD [OF this(2)]
  show ?thesis by (rule version_of_new [of _ _ t]) (use ins in auto)
qed

lemma set_status_versions:
  assumes "comments_ok db" "set_thread_status_pg now ws i v s db = (r, db1)"
  shows "version_of k db \<le> version_of k db1"
proof (cases r)
  case (Inl e)
  then show ?thesis using set_thread_status_Err assms by fastforce
next
  case (Inr t)
  then show ?thesis using version_of_status [OF assms(1)] assms(2) by (cases "k = i") auto
qed

lemma create_message_threads: "cd_threads (snd (create_message_pg j now ws i u body db)) = cd_threads db"
  by (auto simp: create_message_pg_def split: option.splits if_splits dest: insert_message_SomeD)

text \<open>What a handler leaves in the thread table is what its statement left there.\<close>

lemma create_comment_thread_threads:
  "cd_threads (snd (create_comment_thread E i j now rid user ws doc a body db)) = cd_threads db \<or>
   cd_threads (snd (create_comment_thread E i j now rid user ws doc a body db)) =
     cd_threads (snd (create_thread_pg i j now ws doc (au_user_id user) a body db))"
  by (auto simp: create_comment_thread_def split: sum.splits prod.splits)

lemma create_comment_message_threads:
  "cd_threads (snd (create_comment_message j now user ws i body db)) = cd_threads db"
  using create_message_threads [of j now ws i "au_user_id user" body db]
  by (auto simp: create_comment_message_def split: sum.splits prod.splits)

lemma change_status_threads:
  "cd_threads (snd (change_status s act E now rid user ws i v db)) = cd_threads db \<or>
   cd_threads (snd (change_status s act E now rid user ws i v db)) =
     cd_threads (snd (set_thread_status_pg now ws i v s db))"
  by (auto simp: change_status_def split: sum.splits prod.splits)

lemma comment_versions_grow:
  assumes "comments_ok db"
  shows "version_of k db \<le> version_of k (comment_step E db op)"
proof (cases op)
  case (CreateThread i j now rid user ws doc a body)
  have "version_of k db \<le> version_of k (snd (create_thread_pg i j now ws doc (au_user_id user) a body db))"
    by (rule create_thread_versions [OF surjective_pairing])
  then show ?thesis
    using CreateThread create_comment_thread_threads [of E i j now rid user ws doc a body db]
    by (auto simp: comment_step_def split_beta dest: version_of_same [of _ _ k])
next
  case (Reply j now user ws i body)
  then show ?thesis by (simp add: comment_step_def split_beta version_of_same [OF create_comment_message_threads])
next
  case (SetStatus s now rid user ws i v)
  have "version_of k db \<le> version_of k (snd (set_thread_status_pg now ws i v s db))"
    by (rule set_status_versions [OF assms surjective_pairing])
  then have "version_of k db \<le> version_of k (snd (change_status s act E now rid user ws i v db))" for act
    using change_status_threads [of s act E now rid user ws i v db] by (auto dest: version_of_same [of _ _ k])
  then show ?thesis using SetStatus
    by (cases s) (simp_all add: comment_step_def split_beta resolve_comment_thread_def reopen_comment_thread_def)
qed (simp_all add: comment_step_def version_of_def)

interpretation comment_versions: grow_system "comment_step E" "\<lambda>_ _. True" comments_ok "version_of i" for E i
  by unfold_locales (rule comment_versions_grow)

lemma change_status_Okay:
  assumes "change_status s act E now rid user ws i v db = (Okay t, db1)"
  obtains db0 where "require_workspace_role db user ws Editor = Okay ()" "1 \<le> v"
    "set_thread_status_pg now ws i v s db = (Okay t, db0)" "cd_threads db1 = cd_threads db0"
  using assms by (auto simp: change_status_def split: sum.splits prod.splits if_splits)

lemma SetStatus_Okay:
  assumes "comment_request E (SetStatus s now rid user ws i v) db = (Okay r, db1)"
  obtains t db0 where "r = Some t" "require_workspace_role db user ws Editor = Okay ()"
    "set_thread_status_pg now ws i v s db = (Okay t, db0)" "cd_threads db1 = cd_threads db0"
proof -
  obtain act where "comment_request E (SetStatus s now rid user ws i v) db =
      (let (r, db1) = change_status s act E now rid user ws i v db in (map_sum id Some r, db1))"
    by (cases s) (auto simp: resolve_comment_thread_def reopen_comment_thread_def)
  with assms obtain t where "r = Some t" "change_status s act E now rid user ws i v db = (Okay t, db1)"
    by (cases "fst (change_status s act E now rid user ws i v db)") (auto simp: split_beta prod_eq_iff)
  then show ?thesis by (metis change_status_Okay that)
qed

lemma status_spent:
  assumes "comments_ok db" "v < version_of i db"
  shows "\<exists>e. fst (comment_request E (SetStatus s now rid user ws i v) db) = Err e"
proof (cases "fst (comment_request E (SetStatus s now rid user ws i v) db)")
  case (Inr r)
  then have "comment_request E (SetStatus s now rid user ws i v) db =
      (Okay r, snd (comment_request E (SetStatus s now rid user ws i v) db))" by (simp add: prod_eq_iff)
  then obtain t db0 where "set_thread_status_pg now ws i v s db = (Okay t, db0)" by (rule SetStatus_Okay)
  then show ?thesis using version_of_status [OF assms(1)] assms(2) by fastforce
qed auto

text \<open>
  (C30) A version is spent once. A resolve or reopen that succeeds moved the thread from the version
  the caller named to the next one and to the status asked for; no later resolve or reopen of the
  thread that names the same version succeeds, whoever asks and whatever was served in between.
\<close>

theorem comment_version_spent_once:
  assumes "comments_ok db" "comment_request E (SetStatus s now rid user ws i v) db = (Okay r, db1)"
  shows "(\<exists>t. r = Some t \<and> ct_id t = i \<and> ct_version t = v + 1 \<and> ct_status t = status_str s) \<and>
         (\<exists>e. fst (comment_request E (SetStatus q now' rid' user' ws' i v) (foldl (comment_step E) db1 ops)) = Err e)"
proof -
  obtain t db0 where r: "r = Some t" and db0: "set_thread_status_pg now ws i v s db = (Okay t, db0)"
      "cd_threads db1 = cd_threads db0"
    using assms(2) by (rule SetStatus_Okay)
  note vs = version_of_status [OF assms(1) db0(1)]
  have ok1: "comments_ok db1"
    using comment_step_keeps [OF assms(1), of E "SetStatus s now rid user ws i v"] assms(2) by (simp add: comment_step_def)
  have "version_of i db1 \<le> version_of i (foldl (comment_step E) db1 ops)"
    by (rule comment_versions.grow_run [OF ok1]) simp
  then have "v < version_of i (foldl (comment_step E) db1 ops)"
    using vs version_of_same [OF db0(2), of i] by simp
  then show ?thesis using status_spent comments.inv_run [OF ok1] vs r by auto
qed

section \<open>Who may change what\<close>

fun op_caller :: "comment_op \<Rightarrow> (authenticated_user \<times> uuid) option" where
  "op_caller (CreateThread i j now rid user ws doc a body) = Some (user, ws)"
| "op_caller (Reply j now user ws i body) = Some (user, ws)"
| "op_caller (SetStatus s now rid user ws i v) = Some (user, ws)"
| "op_caller _ = None"

definition is_editor :: "comment_db \<Rightarrow> authenticated_user \<Rightarrow> uuid \<Rightarrow> bool" where
  "is_editor db user ws \<longleftrightarrow>
     au_workspace_id user = ws \<and> active_role (cd_members db) (au_user_id user) ws \<in> {Some (lit ''editor''), Some (lit ''owner'')}"

lemma require_editor: "require_workspace_role db user ws Editor = Okay () \<longleftrightarrow> is_editor db user ws"
  by (auto simp: require_workspace_role_def workspace_role_for_user_def is_editor_def role_from_db_value_def lit_def
      allows_def less_eq_workspace_role_def split: option.splits if_splits)

lemma create_thread_Err_unchanged:
  "create_comment_thread E i j now rid user ws doc a body db = (Err e, db1) \<Longrightarrow> db1 = db"
  by (auto simp: create_comment_thread_def split: sum.splits prod.splits dest: create_thread_pg_Err)

lemma change_status_Err_unchanged:
  "change_status s act E now rid user ws i v db = (Err e, db1) \<Longrightarrow> db1 = db"
  by (auto simp: change_status_def split: sum.splits prod.splits if_splits dest: set_thread_status_Err)

text \<open>The reply that was stored is found again in the thread, so the last check never fails.\<close>

lemma create_message_view:
  assumes "comments_ok db" "trim body \<noteq> []" "create_message_pg j now ws i u body db = (Okay m, db1)"
  shows "\<exists>t. get_thread_with_messages_pg db1 ws i = Okay (t, thread_messages db1 i) \<and> m \<in> set (thread_messages db1 i)"
proof -
  have m: "cm_thread_id m = i" "m \<in> set (cd_messages db1)" "cd_threads db1 = cd_threads db"
    using create_message_pg_ok [OF assms] by auto
  obtain t where "find_thread db ws i = Some t"
    using assms(3) by (auto simp: create_message_pg_def split: option.splits)
  then have "find_thread db1 ws i = Some t" using m(3) by (simp add: find_thread_def)
  then show ?thesis using m by (simp add: get_thread_with_messages_pg_def thread_messages_def)
qed

lemma create_message_Err_unchanged:
  assumes "comments_ok db" "create_comment_message j now user ws i body db = (Err e, db1)"
  shows "db1 = db"
proof (cases "create_message_pg j now ws i (au_user_id user) body db")
  case (Pair r db0)
  show ?thesis
  proof (cases "r")
    case (Inl e')
    then show ?thesis using assms(2) Pair create_message_pg_Err
      by (fastforce simp: create_comment_message_def split: sum.splits)
  next
    case (Inr m)
    have "False" if "trim body \<noteq> []" "require_workspace_role db user ws Editor = Okay ()"
      using create_message_view [OF assms(1) that(1), of j now ws i "au_user_id user" m db0] that assms(2) Pair Inr
      by (auto simp: create_comment_message_def validate_markdown_body_def list_ex_iff split: if_splits)
    then show ?thesis using assms(2)
      by (auto simp: create_comment_message_def validate_markdown_body_def split: sum.splits if_splits)
  qed
qed

lemma map_sum_id_Inl [simp]: "map_sum id g r = Inl e \<longleftrightarrow> r = Inl e"
  by (cases r) auto

text \<open>
  Who may write. A request to create a thread, to reply, to resolve or to reopen either fails
  and leaves the database as it was, or its caller's token is for the workspace of the path and the
  caller is an active editor or owner of it.
\<close>

theorem comment_requests_guarded:
  assumes "comments_ok db" "comment_request E op db = (r, db1)" "op_caller op = Some (user, ws)"
  shows "(\<exists>e. r = Err e) \<and> db1 = db \<or> (\<exists>t. r = Okay t) \<and> is_editor db user ws"
proof (cases r)
  case (Inl e)
  then show ?thesis
    using assms create_thread_Err_unchanged create_message_Err_unchanged [OF assms(1)] change_status_Err_unchanged
    by (cases "(E, op, db)" rule: comment_request.cases)
      (fastforce simp: resolve_comment_thread_def reopen_comment_thread_def split: prod.splits)+
next
  case (Inr t)
  then have "require_workspace_role db user ws Editor = Okay ()"
    using assms(2,3)
    by (cases "(E, op, db)" rule: comment_request.cases)
      (auto simp: resolve_comment_thread_def reopen_comment_thread_def create_comment_thread_def
        create_comment_message_def change_status_def split: prod.splits sum.splits if_splits)
  then show ?thesis using Inr by (simp add: require_editor)
qed

end
