(* ===== verification/CommentPages.thy ===== *)
theory CommentPages
  imports CommentRuns
begin

text \<open>
  The list endpoint of \<open>Comments\<close> meets the contract \<open>keyset_paging\<close>: the query, the page and the
  text of the cursor together cut the ordered threads where the last page ended.
\<close>

section \<open>Cursors\<close>

definition cursor_text :: "api_env \<Rightarrow> micros \<times> uuid \<Rightarrow> rstr" where
  "cursor_text E k = show_int (fst k) @ lit ''|'' @ uuid_string E (snd k)"

lemma encode_cursor_key: "encode_cursor E t = cursor_text E (thread_key t)"
  by (simp add: encode_cursor_def cursor_text_def thread_key_def)

lemma parse_cursor_text:
  assumes "api_env_laws E" "micros_ok E (fst k)"
  shows "parse_cursor E (cursor_text E k) = Okay k"
proof -
  have "i64_min \<le> fst k" "fst k \<le> i64_max" using assms by (auto simp: api_env_laws_def)
  then have "parse_i64 (show_int (fst k)) = Some (fst k)" by (rule parse_show_int)
  moreover have "split_once 124 (cursor_text E k) = Some (show_int (fst k), uuid_string E (snd k))"
    by (simp add: cursor_text_def split_once_cursor)
  ultimately show ?thesis using assms by (simp add: parse_cursor_def api_env_laws_def)
qed

section \<open>Messages of the threads of a page\<close>

lemma group_messages_filter: "group_messages rows i = filter (\<lambda>m. cm_thread_id m = i) rows"
proof -
  have "foldl (\<lambda>g m. g(cm_thread_id m := g (cm_thread_id m) @ [m])) g rows i =
      g i @ filter (\<lambda>m. cm_thread_id m = i) rows" for g
    by (induction rows arbitrary: g) auto
  then show ?thesis by (simp add: group_messages_def)
qed

lemma attach_map: "distinct (map ct_id ts) \<Longrightarrow> attach g ts = map (\<lambda>t. (t, g (ct_id t))) ts"
proof (induction ts arbitrary: g)
  case (Cons t ts)
  have "ct_id x \<noteq> ct_id t" if "x \<in> set ts" for x using Cons.prems that by (auto simp: image_iff)
  then show ?case using Cons by simp
qed simp

definition with_messages :: "comment_db \<Rightarrow> comment_thread \<Rightarrow> comment_thread \<times> comment_message list" where
  "with_messages db t = (t, thread_messages db (ct_id t))"

lemma attach_messages:
  assumes "distinct (map ct_id rows)"
  shows "attach (group_messages (sort_key message_key (filter (\<lambda>m. cm_thread_id m \<in> set (map ct_id rows)) (cd_messages db)))) rows
       = map (with_messages db) rows"
proof -
  have "filter (\<lambda>m. cm_thread_id m = ct_id t) (sort_key message_key (filter (\<lambda>m. cm_thread_id m \<in> ct_id ` set rows) (cd_messages db)))
      = thread_messages db (ct_id t)" if "t \<in> set rows" for t
  proof -
    have "filter (\<lambda>m. cm_thread_id m = ct_id t) (filter (\<lambda>m. cm_thread_id m \<in> ct_id ` set rows) ms) =
        filter (\<lambda>m. cm_thread_id m = ct_id t) ms" for ms :: "comment_message list"
      using that by (induction ms) auto
    then show ?thesis by (simp only: filter_sort thread_messages_def)
  qed
  then show ?thesis using assms by (simp add: attach_map group_messages_filter with_messages_def)
qed

section \<open>A page\<close>

definition matching_rows :: "comment_db \<Rightarrow> uuid \<Rightarrow> uuid \<Rightarrow> comment_status option \<Rightarrow> comment_thread list" where
  "matching_rows db ws doc status = filter (matching ws doc status) (cd_threads db)"

lemma after_cursor_before: "after_cursor c = before thread_key c"
  by (rule ext) (auto simp: after_cursor_def before_def thread_key_def less_prod_def' split: option.splits)

lemma take_distinct_ids:
  assumes "distinct (map ct_id threads)"
  shows "distinct (map ct_id (take n (newest_first key (filter P threads))))"
proof -
  have "mset (map ct_id (newest_first key (filter P threads))) = mset (map ct_id (filter P threads))"
    using newest_first_mset [of key "filter P threads"] by (metis mset_map)
  then have "distinct (map ct_id (newest_first key (filter P threads)))"
    using distinct_map_filter [OF assms, of P] by (metis mset_eq_imp_distinct_iff)
  then show ?thesis by (simp add: take_map [symmetric])
qed

lemma list_threads_page:
  assumes "comments_ok db" "ensure_document_exists db ws doc = Okay ()" "0 < limit"
  shows "list_threads_pg E db ws doc status limit c =
    (let (rows, k) = key_page thread_key limit (matching_rows db ws doc status) c
     in Okay (map (with_messages db) rows, map_option (cursor_text E) k))"
proof -
  let ?got = "take (limit + 1) (newest_first thread_key (filter (before thread_key c) (matching_rows db ws doc status)))"
  have q: "take (limit + 1) (rev (sort_key thread_key
      (filter (\<lambda>t. matching ws doc status t \<and> after_cursor c t) (cd_threads db)))) = ?got"
    by (simp add: newest_first_def matching_rows_def after_cursor_before conj_commute)
  have d: "distinct (map ct_id (take n ?got))" for n
    using take_distinct_ids [of "cd_threads db" _ thread_key] assms(1)
    by (simp add: comments_ok_def tables_ok_def matching_rows_def)
  define rows where "rows = (if limit < length ?got then take limit ?got else ?got)"
  have "distinct (map ct_id ?got)" using d [of "limit + 1"] by simp
  then have dr: "distinct (map ct_id rows)"
    using d [of limit] unfolding rows_def by (cases "limit < length ?got") (simp_all only: if_True if_False)
  have page: "paginate_comment_threads E ?got limit =
      (rows, map_option (cursor_text E) (if limit < length ?got then Some (thread_key (last rows)) else None))"
    using assms(3) by (auto simp: paginate_comment_threads_def rows_def Let_def encode_cursor_key)
  have key: "key_page thread_key limit (matching_rows db ws doc status) c =
      (rows, if limit < length ?got then Some (thread_key (last rows)) else None)"
    by (simp add: key_page_def rows_def Let_def)
  show ?thesis
  proof (cases "rows = []")
    case True
    then show ?thesis using assms(2) page key q by (simp add: list_threads_pg_def Let_def)
  next
    case False
    then show ?thesis using assms(2) page key q attach_messages [OF dr, of db] by (simp add: list_threads_pg_def Let_def)
  qed
qed

section \<open>The endpoint meets the contract\<close>

type_synonym listing = "api_env \<times> comment_db \<times> uuid \<times> uuid \<times> comment_status option \<times> nat"

fun listing_ok :: "listing \<Rightarrow> bool" where
  "listing_ok (E, db, ws, doc, status, limit) \<longleftrightarrow>
     api_env_laws E \<and> comments_ok db \<and> list_all (\<lambda>t. micros_ok E (ct_created_at t)) (cd_threads db) \<and>
     ensure_document_exists db ws doc = Okay () \<and> 0 < limit"

fun listed_rows :: "listing \<Rightarrow> comment_thread list" where
  "listed_rows (E, db, ws, doc, status, limit) = matching_rows db ws doc status"

fun listing_limit :: "listing \<Rightarrow> nat" where
  "listing_limit (E, db, ws, doc, status, limit) = limit"

text \<open>A page as its reader sees it, with the cursor read back.\<close>

fun client_page :: "listing \<Rightarrow> (micros \<times> uuid) option \<Rightarrow> comment_thread list \<times> (micros \<times> uuid) option" where
  "client_page (E, db, ws, doc, status, limit) c =
     (case list_threads_pg E db ws doc status limit c of
        Inl e \<Rightarrow> ([], None)
      | Inr (items, raw) \<Rightarrow>
          (map fst items, Option.bind raw (\<lambda>v. case parse_cursor E v of Inl e \<Rightarrow> None | Inr k \<Rightarrow> Some k)))"

lemma cursor_reads_back:
  assumes "listing_ok (E, db, ws, doc, status, limit)"
    "key_page thread_key limit (matching_rows db ws doc status) c = (rows, Some k)"
  shows "parse_cursor E (cursor_text E k) = Okay k"
proof -
  obtain t where "t \<in> set (cd_threads db)" "k = thread_key t"
    using key_page_cursor [OF _ assms(2)] assms(1) by (auto simp: matching_rows_def)
  then have "micros_ok E (fst k)" using assms(1) by (auto simp: list_all_iff thread_key_def)
  then show ?thesis using assms(1) by (simp add: parse_cursor_text)
qed

lemma client_page_law:
  assumes "listing_ok s"
  shows "client_page s c = key_page thread_key (listing_limit s) (listed_rows s) c"
proof (cases s rule: listing_ok.cases)
  case (1 E db ws doc status limit)
  obtain rows k where p: "key_page thread_key limit (matching_rows db ws doc status) c = (rows, k)" by fastforce
  have "map fst (map (with_messages db) rows) = rows" by (simp add: with_messages_def comp_def)
  then show ?thesis
    using assms 1 p list_threads_page [of db ws doc limit E status c] cursor_reads_back [of E db ws doc status limit c rows]
    by (cases k) auto
qed

declare client_page.simps [simp del]

lemma thread_keys_distinct: "comments_ok db \<Longrightarrow> distinct (map thread_key (matching_rows db ws doc status))"
proof -
  assume "comments_ok db"
  then have "distinct (map ct_id (matching_rows db ws doc status))"
    by (simp add: comments_ok_def tables_ok_def matching_rows_def distinct_map_filter)
  then show ?thesis by (auto simp: distinct_map inj_on_def thread_key_def)
qed

interpretation comment_paging: keyset_paging listing_ok listed_rows thread_key listing_limit client_page
proof
  fix s c
  assume ok: "listing_ok s"
  show "client_page s c = key_page thread_key (listing_limit s) (listed_rows s) c" by (rule client_page_law [OF ok])
  show "distinct (map thread_key (listed_rows s))" "0 < listing_limit s"
    using ok thread_keys_distinct by (cases s rule: listing_ok.cases; auto)+
qed

section \<open>Reading everything\<close>

text \<open>A client of the endpoint that follows the cursors it is given, for at most \<open>n\<close> pages.\<close>

fun read_all ::
  "api_env \<Rightarrow> comment_db \<Rightarrow> authenticated_user \<Rightarrow> uuid \<Rightarrow> uuid \<Rightarrow> rstr option \<Rightarrow> nat option \<Rightarrow> nat \<Rightarrow> rstr option \<Rightarrow>
   (comment_thread \<times> comment_message list) list option" where
  "read_all E db user ws doc status limit 0 cursor = None"
| "read_all E db user ws doc status limit (Suc n) cursor =
     (case list_comments E db user ws doc status limit cursor of
        Inl e \<Rightarrow> None
      | Inr (items, None) \<Rightarrow> Some items
      | Inr (items, Some c) \<Rightarrow> map_option (\<lambda>rest. items @ rest) (read_all E db user ws doc status limit n (Some c)))"

lemma normalize_limit_pos: "0 < normalize_limit limit"
  by (auto simp: normalize_limit_def C_DEFAULT_PAGE_SIZE_def C_MAX_PAGE_SIZE_def split: option.splits)

lemma read_all_walk:
  assumes ok: "listing_ok (E, db, ws, doc, st, normalize_limit limit)"
    and role: "require_workspace_role db user ws Viewer = Okay ()" and st: "parse_status_filter status = Okay st"
    and c: "\<forall>k. c = Some k \<longrightarrow> parse_cursor E (cursor_text E k) = Okay k"
  shows "read_all E db user ws doc status limit n (map_option (cursor_text E) c) =
    map_option (map (with_messages db)) (walk (client_page (E, db, ws, doc, st, normalize_limit limit)) n c)"
  using c
proof (induction n arbitrary: c)
  case (Suc n)
  let ?s = "(E, db, ws, doc, st, normalize_limit limit)"
  obtain rows k where p: "key_page thread_key (normalize_limit limit) (matching_rows db ws doc st) c = (rows, k)" by fastforce
  have "list_comments E db user ws doc status limit (map_option (cursor_text E) c) =
      list_threads_pg E db ws doc st (normalize_limit limit) c"
    using role st Suc.prems by (cases c) (auto simp: list_comments_def)
  then have l: "list_comments E db user ws doc status limit (map_option (cursor_text E) c) =
      Okay (map (with_messages db) rows, map_option (cursor_text E) k)"
    using ok p list_threads_page [of db ws doc "normalize_limit limit" E st c] by simp
  have page: "client_page ?s c = (rows, k)" using client_page_law [OF ok, of c] p by simp
  show ?case
  proof (cases k)
    case None
    then show ?thesis using l page by simp
  next
    case (Some k')
    have "parse_cursor E (cursor_text E k') = Okay k'" using cursor_reads_back [OF ok] p Some by blast
    then have "read_all E db user ws doc status limit n (Some (cursor_text E k')) =
        map_option (map (with_messages db)) (walk (client_page ?s) n (Some k'))"
      using Suc.IH [of "Some k'"] by simp
    then show ?thesis using l page Some by (simp add: option.map_comp comp_def)
  qed
qed simp

text \<open>
  (C31) Pagination is complete. A viewer who asks for the threads of a live document and follows the
  cursor of each page is shown every matching thread exactly once, newest first, each with its
  messages in order, for every page size and status filter, in at most one page per thread and one.
  The texts of UUIDs must read back and the stored dates must be representable.
\<close>

theorem comment_pages_complete:
  assumes "api_env_laws E" "comments_ok db" "list_all (\<lambda>t. micros_ok E (ct_created_at t)) (cd_threads db)"
    and "require_workspace_role db user ws Viewer = Okay ()" "ensure_document_exists db ws doc = Okay ()"
    and "parse_status_filter status = Okay st" "length (matching_rows db ws doc st) < n"
  shows "read_all E db user ws doc status limit n None =
    Some (map (with_messages db) (newest_first thread_key (matching_rows db ws doc st)))"
proof -
  have ok: "listing_ok (E, db, ws, doc, st, normalize_limit limit)" using assms by (simp add: normalize_limit_pos)
  then have "walk (client_page (E, db, ws, doc, st, normalize_limit limit)) n None =
      Some (newest_first thread_key (matching_rows db ws doc st))"
    using comment_paging.walk_complete [OF ok, of n] assms(7) by simp
  then show ?thesis using read_all_walk [OF ok assms(4,6), of None n] by simp
qed

section \<open>A workspace with two threads\<close>

definition demo_thread :: "uuid \<Rightarrow> rstr \<Rightarrow> int \<Rightarrow> micros \<Rightarrow> micros option \<Rightarrow> comment_thread" where
  "demo_thread i status v created resolved =
     \<lparr>ct_id = i, ct_workspace_id = 10, ct_doc_id = 20, ct_section_id = None, ct_start = Some 3, ct_end = Some 8,
      ct_status = status, ct_version = v, ct_created_by_user_id = Some 2, ct_created_by_agent_id = None,
      ct_created_at = created, ct_resolved_at = resolved\<rparr>"

definition demo_message :: "uuid \<Rightarrow> uuid \<Rightarrow> micros \<Rightarrow> comment_message" where
  "demo_message i t created =
     \<lparr>cm_id = i, cm_thread_id = t, cm_author_user_id = Some 2, cm_author_agent_id = None,
      cm_body_md = lit ''Why?'', cm_created_at = created, cm_edited_at = None\<rparr>"

definition demo_comments :: comment_db where
  "demo_comments = \<lparr>cd_threads = [demo_thread 31 (lit ''open'') 3 5 None, demo_thread 32 (lit ''resolved'') 2 7 (Some 9)],
     cd_messages = [demo_message 41 31 5, demo_message 42 32 7, demo_message 43 31 8],
     cd_members = [\<lparr>mr_workspace_id = 10, mr_user_id = 2, mr_role = lit ''editor'', mr_status = lit ''active'', mr_joined_at = 1\<rparr>],
     cd_documents = [\<lparr>dr_id = 20, dr_workspace_id = 10, dr_deleted_at = None\<rparr>], cd_audit = []\<rparr>"

definition demo_caller :: authenticated_user where
  "demo_caller = \<lparr>au_user_id = 2, au_workspace_id = 10\<rparr>"

lemma demo_comments_ok: "comments_ok demo_comments"
  by (auto simp: comments_ok_def tables_ok_def demo_comments_def demo_thread_def demo_message_def thread_ok_def
      anchor_ok_def i32_max_def lit_def trim_def trim_start_def trim_end_def is_whitespace_def)

lemma demo_role:
  "require_workspace_role demo_comments demo_caller 10 r = (if role_rank r \<le> 1 then Okay () else Err CForbidden)"
  by (simp add: require_workspace_role_def workspace_role_for_user_def active_role_def role_from_db_value_def lit_def
      demo_comments_def demo_caller_def allows_def less_eq_workspace_role_def)

lemma demo_tables:
  "cd_threads demo_comments = [demo_thread 31 (lit ''open'') 3 5 None, demo_thread 32 (lit ''resolved'') 2 7 (Some 9)]"
  "cd_messages demo_comments = [demo_message 41 31 5, demo_message 42 32 7, demo_message 43 31 8]"
  "cd_documents demo_comments = [\<lparr>dr_id = 20, dr_workspace_id = 10, dr_deleted_at = None\<rparr>]"
  by (simp_all add: demo_comments_def)

theorem comment_pages_complete_witness:
  "map_option (map (\<lambda>(t, ms). (ct_id t, map cm_id ms)))
     (read_all demo_api demo_comments demo_caller 10 20 None (Some 1) 3 None) = Some [(32, [42]), (31, [41, 43])]"
proof -
  have rows: "matching_rows demo_comments 10 20 None = cd_threads demo_comments"
    by (simp add: matching_rows_def matching_def demo_tables demo_thread_def)
  have "read_all demo_api demo_comments demo_caller 10 20 None (Some 1) 3 None =
      Some (map (with_messages demo_comments) (newest_first thread_key (matching_rows demo_comments 10 20 None)))"
    by (rule comment_pages_complete [OF demo_api_laws demo_comments_ok])
      (simp_all add: rows demo_role demo_api_def demo_tables demo_thread_def ensure_document_exists_def
        parse_status_filter_def)
  then show ?thesis
    unfolding rows
    by (simp add: demo_tables demo_thread_def demo_message_def newest_first_def thread_key_def message_key_def
        with_messages_def thread_messages_def)
qed

theorem comment_version_spent_once_witness:
  "\<exists>e. fst (comment_request demo_api (SetStatus Open 12 None demo_caller 10 31 3)
      (comment_step demo_api (comment_step demo_api demo_comments
         (SetStatus Resolved 11 None demo_caller 10 31 3)) (Reply 44 12 demo_caller 10 32 (lit ''Done.'')))) = Err e"
proof -
  have "\<exists>r. fst (comment_request demo_api (SetStatus Resolved 11 None demo_caller 10 31 3) demo_comments) = Okay r"
    by (simp add: resolve_comment_thread_def change_status_def demo_role set_thread_status_pg_def
        find_thread_def demo_tables demo_thread_def lit_def i32_max_def Let_def)
  then obtain r where "comment_request demo_api (SetStatus Resolved 11 None demo_caller 10 31 3) demo_comments =
      (Okay r, comment_step demo_api demo_comments (SetStatus Resolved 11 None demo_caller 10 31 3))"
    by (auto simp: comment_step_def prod_eq_iff simp del: comment_request.simps)
  from comment_version_spent_once [OF demo_comments_ok this, where ops = "[Reply 44 12 demo_caller 10 32 (lit ''Done.'')]"]
  show ?thesis by (simp del: comment_request.simps)
qed

theorem comment_requests_guarded_witness:
  "is_editor demo_comments demo_caller 10 \<and>
   (\<exists>t. fst (comment_request demo_api (SetStatus Resolved 11 None demo_caller 10 31 3) demo_comments) = Okay t)"
proof -
  let ?r = "comment_request demo_api (SetStatus Resolved 11 None demo_caller 10 31 3) demo_comments"
  have "\<exists>t. fst ?r = Okay t"
    by (simp add: resolve_comment_thread_def change_status_def demo_role set_thread_status_pg_def
        find_thread_def demo_tables demo_thread_def lit_def i32_max_def Let_def)
  moreover have "(\<exists>e. fst ?r = Err e) \<and> snd ?r = demo_comments \<or> (\<exists>t. fst ?r = Okay t) \<and> is_editor demo_comments demo_caller 10"
    by (rule comment_requests_guarded [OF demo_comments_ok surjective_pairing]) simp
  ultimately show ?thesis by auto
qed

end
