(* ===== verification/ApiAccess.thy ===== *)
theory ApiAccess
  imports AuthRuns CommentPages
begin

text \<open>
  Where the login meets the API: \<open>require_bearer_auth\<close> of \<open>relay/src/auth/middleware.rs\<close> turns the
  token of a request into the caller that the endpoints of \<open>Comments\<close> check. The coding of signed
  tokens is a parameter of \<open>Auth\<close>; \<open>jwt_faithful\<close> is what its documentation promises.
\<close>

section \<open>The middleware\<close>

definition require_bearer_auth ::
  "'g auth_env \<Rightarrow> rstr \<Rightarrow> timestamp \<Rightarrow> request \<Rightarrow> (relay_error, authenticated_user) result" where
  "require_bearer_auth E secret now rq =
     (case Option.bind (header_text (lit ''authorization'') rq) extract_bearer_token of
        None \<Rightarrow> Err (error_new AuthInvalidToken (lit ''missing bearer token''))
      | Some token \<Rightarrow>
          (case validate_workspace_token E secret now token of
             None \<Rightarrow> Err (error_new AuthInvalidToken (lit ''invalid bearer token''))
           | Some (user_id, workspace_id) \<Rightarrow> Okay \<lparr>au_user_id = user_id, au_workspace_id = workspace_id\<rparr>))"

definition jwt_faithful :: "'g auth_env \<Rightarrow> bool" where
  "jwt_faithful E \<longleftrightarrow>
     (\<forall>secret claims token now c.
        jwt_encode E secret claims = Some token \<longrightarrow> jwt_decode E secret now token = Some c \<longrightarrow> c = claims)"

section \<open>The tokens that are issued\<close>

fun issued_token :: "auth_outcome \<Rightarrow> rstr option" where
  "issued_token (SessionOpened r) = Some (ap_access_token r)"
| "issued_token (Refreshed r) = Some (rp_access_token r)"
| "issued_token _ = None"

definition nil_token :: "'g auth_env \<Rightarrow> rstr \<Rightarrow> rstr \<Rightarrow> bool" where
  "nil_token E secret token \<longleftrightarrow> (\<exists>user now. issue_workspace_token E secret user 0 now = Some token)"

lemma nil_tokenI: "issue_workspace_token E secret user 0 now = Some token \<Longrightarrow> nil_token E secret token"
  by (auto simp: nil_token_def)

lemma map_sum_Inr_id [simp]: "map_sum f id x = Inr r \<longleftrightarrow> x = Inr r"
  by (cases x) auto

lemma issue_auth_session_token:
  "fst (issue_auth_session E fr now user st) = Okay r \<Longrightarrow> nil_token E (jwt_secret st) (ap_access_token r)"
  by (auto simp: issue_auth_session_def Let_def split: if_splits option.splits prod.splits intro: nil_tokenI)

lemma refresh_issue_token:
  "fst (refresh_issue E fr now session st) = Okay r \<Longrightarrow> nil_token E (jwt_secret st) (rp_access_token r)"
  by (auto simp: refresh_issue_def Let_def split: if_splits option.splits prod.splits intro: nil_tokenI)

lemma callback_token:
  "fst (callback_github_oauth E fr tick now p st) = Okay r \<Longrightarrow> nil_token E (jwt_secret st) (ap_access_token r)"
  using issue_auth_session_token [of E fr now _ _ r]
  by (fastforce simp: callback_github_oauth_def Let_def split_beta
      split: prod.splits rate_limit_decision.splits if_splits option.splits sum.splits)

lemma register_token:
  "fst (register_password_user E fr now email name password st) = Okay r \<Longrightarrow> nil_token E (jwt_secret st) (ap_access_token r)"
  by (auto simp: register_password_user_def split: if_splits prod.splits sum.splits dest!: issue_auth_session_token)

lemma login_token:
  "fst (login_password_user E fr now email password st) = Okay r \<Longrightarrow> nil_token E (jwt_secret st) (ap_access_token r)"
  by (auto simp: login_password_user_def split: if_splits option.splits sum.splits dest!: issue_auth_session_token)

lemma refresh_token:
  "fst (handle_token_refresh E fr tick now t st) = Okay r \<Longrightarrow> nil_token E (jwt_secret st) (rp_access_token r)"
  by (auto simp: handle_token_refresh_def Let_def
      split: rate_limit_decision.splits option.splits prod.splits sum.splits dest!: refresh_issue_token)

lemma issued_token_nil:
  assumes "issued_token (fst (auth_serve E c st)) = Some token"
  shows "nil_token E (jwt_secret st) token"
  using assms
  by (cases "ac_op c")
    (auto simp: auth_serve_def Let_def outcome_def relay_outcome_def split: sum.splits
      dest!: callback_token register_token login_token refresh_token)

lemma bearer_of_nil_token:
  assumes "jwt_faithful E" "nil_token E secret token" "require_bearer_auth E secret now rq = Okay user"
    "Option.bind (header_text (lit ''authorization'') rq) extract_bearer_token = Some token"
  shows "au_workspace_id user = 0"
proof -
  obtain u t where "issue_workspace_token E secret u 0 t = Some token" using assms(2) by (auto simp: nil_token_def)
  then obtain claims where e: "jwt_encode E secret claims = Some token" "tk_workspace_id claims = 0"
    by (auto simp: issue_workspace_token_def split: option.splits)
  obtain c where c: "jwt_decode E secret now token = Some c" "au_workspace_id user = tk_workspace_id c"
    using assms(3,4) by (auto simp: require_bearer_auth_def validate_workspace_token_def split: option.splits prod.splits)
  then have "c = claims" using assms(1) e(1) unfolding jwt_faithful_def by blast
  then show ?thesis using c e by simp
qed

section \<open>Their bearer and the workspaces\<close>

text \<open>A caller whose token names another workspace is refused before anything is looked up.\<close>

lemma other_workspace_refused:
  assumes "au_workspace_id user \<noteq> ws"
  shows "require_workspace_role db user ws required = Err CForbidden"
  using assms by (simp add: require_workspace_role_def)

lemma other_workspace_request:
  assumes "au_workspace_id user \<noteq> ws" "op_caller op = Some (user, ws)"
  shows "comment_request A op db = (Err CForbidden, db)"
  using assms other_workspace_refused [OF assms(1), of db Editor]
  by (cases "(A, op, db)" rule: comment_request.cases)
    (auto simp: create_comment_thread_def create_comment_message_def resolve_comment_thread_def
      reopen_comment_thread_def change_status_def)

text \<open>
  (C32) The tokens of the login open no workspace. If decoding returns the claims that were signed,
  then a caller who presents an access token that any endpoint of the authentication service issued
  is forbidden to list, create, answer, resolve or reopen comments in every workspace but the nil one.
\<close>

theorem issued_token_opens_no_workspace:
  assumes "jwt_faithful E" "issued_token (fst (auth_serve E c st)) = Some token"
    and "Option.bind (header_text (lit ''authorization'') rq) extract_bearer_token = Some token"
    and "require_bearer_auth E (jwt_secret st) now rq = Okay user" "ws \<noteq> 0" "op_caller op = Some (user, ws)"
  shows "list_comments A db user ws doc status limit cursor = Err CForbidden \<and>
         comment_request A op db = (Err CForbidden, db)"
proof -
  have "au_workspace_id user \<noteq> ws" using bearer_of_nil_token [OF assms(1) issued_token_nil] assms(2-5) by metis
  then show ?thesis using assms(6) other_workspace_request
    by (simp add: list_comments_def other_workspace_refused)
qed

section \<open>A registered user\<close>

text \<open>Tokens that carry their claims in the clear.\<close>

definition clear_encode :: "token_claims \<Rightarrow> rstr option" where
  "clear_encode c =
     (if tk_iat c < 0 \<or> tk_exp c < 0 then None
      else Some (nat (tk_iat c) # nat (tk_exp c) # tk_workspace_id c # tk_sub c))"

fun clear_decode :: "rstr \<Rightarrow> token_claims option" where
  "clear_decode (a # b # w # sub) = Some \<lparr>tk_sub = sub, tk_workspace_id = w, tk_iat = int a, tk_exp = int b\<rparr>"
| "clear_decode _ = None"

definition clear_auth :: "unit auth_env" where
  "clear_auth = demo_auth\<lparr>jwt_encode := \<lambda>_. clear_encode, jwt_decode := \<lambda>_ _. clear_decode,
     parse_uuid := \<lambda>s. case s of [i] \<Rightarrow> Some i | _ \<Rightarrow> None\<rparr>"

lemma clear_auth_faithful: "jwt_faithful clear_auth"
  by (auto simp: jwt_faithful_def clear_auth_def clear_encode_def split: if_splits)

definition clear_request :: request where
  "clear_request = \<lparr>rq_method = lit ''GET'', rq_path = [],
     rq_headers = [(lit ''authorization'', Some (lit ''Bearer '' @ [0, 900, 0, 2]))], rq_body = []\<rparr>"

lemma clear_bearer: "Option.bind (header_text (lit ''authorization'') clear_request) extract_bearer_token = Some [0, 900, 0, 2]"
  by (simp add: header_text_def clear_request_def extract_bearer_token_def split_once_def lit_def eq_ignore_ascii_case_def
      trim_def trim_start_def trim_end_def is_whitespace_def)

lemma clear_register:
  "issued_token (fst (auth_serve clear_auth (demo_call 2 (Register [97, 64, 98] [97] (replicate 8 97))) demo_service)) =
     Some [0, 900, 0, 2]"
  using demo_token(1)
  by (simp add: clear_auth_def auth_serve_def demo_call_def demo_service_def register_password_user_def normalize_email_def
      demo_trim validate_password_def MIN_PASSWORD_LEN_def MAX_PASSWORD_LEN_def hash_password_def create_user_def
      issue_auth_session_def Let_def relay_outcome_def generate_refresh_token_def public_user_def
      issue_workspace_token_def current_unix_timestamp_def i64_max_def ACCESS_TOKEN_TTL_SECONDS_def clear_encode_def demo_auth_def)

theorem issued_token_opens_no_workspace_witness:
  "list_comments demo_api empty_comments \<lparr>au_user_id = 2, au_workspace_id = 0\<rparr> 10 20 None None None = Err CForbidden \<and>
   comment_request demo_api (Reply 44 12 \<lparr>au_user_id = 2, au_workspace_id = 0\<rparr> 10 31 (lit ''Hi'')) empty_comments =
     (Err CForbidden, empty_comments)"
proof (rule issued_token_opens_no_workspace [OF clear_auth_faithful clear_register clear_bearer])
  show "require_bearer_auth clear_auth (jwt_secret demo_service) 5 clear_request =
      Okay \<lparr>au_user_id = 2, au_workspace_id = 0\<rparr>"
    unfolding require_bearer_auth_def clear_bearer
    by (simp add: validate_workspace_token_def clear_auth_def)
qed simp_all

end
