(* ===== verification/Workspaces.thy ===== *)
theory Workspaces
  imports ApiBase Paging Decimal
begin

text \<open>
  \<open>relay/src/api/mod.rs\<close> with \<open>workspaces.rs\<close> and \<open>members.rs\<close>: workspaces, their members, invites
  and share links. The tables of \<open>db/migrations\<close> are lists of rows; a statement that breaks a primary
  key, a unique index or the range of an \<open>int\<close> fails the request. Where a handler reads a row in one
  statement and writes in another, the two are separate definitions, so that requests can be
  interleaved between them. Identifiers, random bytes and salts that are drawn, and the clock, are
  arguments; \<open>workspace_env\<close> adds to \<open>api_env\<close> the case folding of \<open>citext\<close>, base64, Argon2, the
  text of a date and the configured base of share links.
\<close>

section \<open>Environment and rows\<close>

record workspace_env =
  we_api :: api_env
  we_lower :: "rstr \<Rightarrow> rstr"
  we_base64url :: "byte list \<Rightarrow> rstr"
  we_argon_hash :: "byte list \<Rightarrow> rstr \<Rightarrow> rstr option"
  we_argon_verify :: "byte list \<Rightarrow> rstr \<Rightarrow> bool option"
  we_share_base :: "rstr option"
  we_date_text :: "micros \<Rightarrow> rstr"

record workspace_row =
  wr_id :: uuid
  wr_slug :: rstr
  wr_name :: rstr
  wr_created_by :: uuid
  wr_created_at :: micros
  wr_updated_at :: micros
  wr_deleted_at :: "micros option"

record share_link_row =
  sl_id :: uuid
  sl_workspace_id :: uuid
  sl_target_type :: rstr
  sl_target_id :: uuid
  sl_permission :: rstr
  sl_token_hash :: "byte list"
  sl_password_hash :: "rstr option"
  sl_expires_at :: "micros option"
  sl_max_uses :: "int option"
  sl_use_count :: int
  sl_disabled :: bool
  sl_created_by :: uuid
  sl_created_at :: micros
  sl_revoked_at :: "micros option"

record invite_row =
  iv_id :: uuid
  iv_workspace_id :: uuid
  iv_email :: rstr
  iv_role :: rstr
  iv_token_hash :: "byte list"
  iv_invited_by :: uuid
  iv_expires_at :: micros
  iv_accepted_at :: "micros option"
  iv_created_at :: micros

record user_row =
  ur_id :: uuid
  ur_email :: rstr
  ur_display_name :: rstr

record workspace_db =
  wd_workspaces :: "workspace_row list"
  wd_members :: "member_row list"
  wd_links :: "share_link_row list"
  wd_invites :: "invite_row list"
  wd_users :: "user_row list"
  wd_audit :: "audit_event list"

record redeem_rate_entry =
  re_count :: nat
  re_window_start :: nat

record workspace_record =
  wc_id :: uuid
  wc_slug :: rstr
  wc_name :: rstr
  wc_role :: rstr
  wc_created_at :: micros
  wc_updated_at :: micros

record member_record =
  mc_user_id :: uuid
  mc_email :: rstr
  mc_display_name :: rstr
  mc_role :: rstr
  mc_status :: rstr
  mc_joined_at :: micros

datatype api_error =
    ABadRequest rstr
  | AForbidden rstr
  | ANotFound rstr
  | AConflict rstr
  | APreconditionRequired
  | APreconditionFailed
  | ARateLimited rstr
  | AInternal

definition api_into_response :: "api_error \<Rightarrow> relay_error" where
  "api_into_response e =
     (case e of
        ABadRequest message \<Rightarrow> error_new ValidationFailed message
      | AForbidden message \<Rightarrow> error_new AuthForbidden message
      | ANotFound message \<Rightarrow> error_new NotFound message
      | AConflict message \<Rightarrow> error_new DocPathConflict message
      | APreconditionRequired \<Rightarrow> error_new PreconditionRequired (lit ''missing If-Match header'')
      | APreconditionFailed \<Rightarrow>
          error_new EditPreconditionFailed (lit ''If-Match does not match current workspace state'')
      | ARateLimited message \<Rightarrow> error_new RateLimited message
      | AInternal \<Rightarrow> from_code InternalError)"

text \<open>A unique violation, whatever the table, is reported as a slug conflict; other failures are internal.\<close>

definition unique_violation :: api_error where
  "unique_violation = AConflict (lit ''workspace slug already exists'')"

section \<open>Entity tags\<close>

definition extract_if_match :: "request \<Rightarrow> (api_error, rstr) result" where
  "extract_if_match rq =
     (case map_of (rq_headers rq) (lit ''if-match'') of
        None \<Rightarrow> Err APreconditionRequired
      | Some None \<Rightarrow> Err (ABadRequest (lit ''If-Match header is not valid utf-8''))
      | Some (Some v) \<Rightarrow> Okay v)"

definition workspace_etag :: "workspace_env \<Rightarrow> uuid \<Rightarrow> micros \<Rightarrow> rstr" where
  "workspace_etag W workspace_id updated_at =
     quoted (lit ''ws-'' @ uuid_string (we_api W) workspace_id @ lit ''-'' @ show_int updated_at)"

definition member_etag :: "workspace_env \<Rightarrow> uuid \<Rightarrow> micros \<Rightarrow> rstr" where
  "member_etag W user_id joined_at =
     quoted (lit ''mem-'' @ uuid_string (we_api W) user_id @ lit ''-'' @ show_int joined_at)"

definition share_link_etag :: "workspace_env \<Rightarrow> share_link_row \<Rightarrow> rstr" where
  "share_link_etag W l =
     quoted (lit ''sl-'' @ join (lit ''-'')
       [uuid_string (we_api W) (sl_id l), sl_permission l,
        show_int (case sl_expires_at l of Some t \<Rightarrow> t | None \<Rightarrow> 0),
        show_int (case sl_max_uses l of Some n \<Rightarrow> n | None \<Rightarrow> 0),
        show_int (sl_use_count l), show_int (if sl_disabled l then 1 else 0),
        show_int (case sl_revoked_at l of Some t \<Rightarrow> t | None \<Rightarrow> 0)])"

section \<open>Validation\<close>

definition DEFAULT_INVITE_EXPIRY_HOURS :: nat where "DEFAULT_INVITE_EXPIRY_HOURS = 72"
definition MAX_INVITE_EXPIRY_HOURS :: nat where "MAX_INVITE_EXPIRY_HOURS = 720"
definition REDEEM_RATE_LIMIT_MAX :: nat where "REDEEM_RATE_LIMIT_MAX = 5"
definition REDEEM_RATE_LIMIT_WINDOW_SECS :: nat where "REDEEM_RATE_LIMIT_WINDOW_SECS = 900"

definition validate_name :: "rstr \<Rightarrow> (api_error, unit) result" where
  "validate_name name =
     (if trim name = [] then Err (ABadRequest (lit ''workspace name must not be empty'')) else Okay ())"

definition validate_slug :: "rstr \<Rightarrow> (api_error, unit) result" where
  "validate_slug slug =
     (if trim slug = [] then Err (ABadRequest (lit ''workspace slug must not be empty'')) else Okay ())"

definition role_names :: "rstr list" where
  "role_names = [lit ''owner'', lit ''editor'', lit ''viewer'']"

definition status_names :: "rstr list" where
  "status_names = [lit ''active'', lit ''invited'', lit ''suspended'']"

record member_update =
  mu_role :: "rstr option"
  mu_status :: "rstr option"

definition validate_member_update :: "member_update \<Rightarrow> (api_error, unit) result" where
  "validate_member_update p =
     (if (case mu_role p of Some r \<Rightarrow> r \<notin> set role_names | None \<Rightarrow> False)
      then Err (ABadRequest (lit ''role must be one of: owner, editor, viewer''))
      else if (case mu_status p of Some s \<Rightarrow> s \<notin> set status_names | None \<Rightarrow> False)
      then Err (ABadRequest (lit ''status must be one of: active, invited, suspended''))
      else Okay ())"

record invite_request =
  iq_email :: rstr
  iq_role :: rstr
  iq_expires_in_hours :: "nat option"

definition validate_invite_request :: "invite_request \<Rightarrow> (api_error, unit) result" where
  "validate_invite_request p =
     (if trim (iq_email p) = [] \<or> 64 \<notin> set (iq_email p)
      then Err (ABadRequest (lit ''a valid email address is required''))
      else if iq_role p \<noteq> lit ''editor'' \<and> iq_role p \<noteq> lit ''viewer''
      then Err (ABadRequest (lit ''invite role must be one of: editor, viewer''))
      else if (case iq_expires_in_hours p of Some h \<Rightarrow> h = 0 \<or> h > MAX_INVITE_EXPIRY_HOURS | None \<Rightarrow> False)
      then Err (ABadRequest (lit ''expires_in_hours must be between 1 and 720''))
      else Okay ())"

record link_request =
  lq_target_type :: rstr
  lq_target_id :: uuid
  lq_permission :: rstr
  lq_expires_at :: "micros option"
  lq_max_uses :: "int option"
  lq_password :: "rstr option"

definition validate_share_link_request :: "micros \<Rightarrow> uuid \<Rightarrow> link_request \<Rightarrow> (api_error, unit) result" where
  "validate_share_link_request now workspace_id p =
     (if lq_target_type p \<noteq> lit ''workspace'' \<and> lq_target_type p \<noteq> lit ''document''
      then Err (ABadRequest (lit ''target_type must be one of: workspace, document''))
      else if lq_permission p \<noteq> lit ''view'' \<and> lq_permission p \<noteq> lit ''edit''
      then Err (ABadRequest (lit ''permission must be one of: view, edit''))
      else if lq_target_type p = lit ''workspace'' \<and> lq_target_id p \<noteq> workspace_id
      then Err (ABadRequest (lit ''workspace share links must target the workspace id from the route''))
      else if (case lq_max_uses p of Some n \<Rightarrow> n \<le> 0 | None \<Rightarrow> False)
      then Err (ABadRequest (lit ''max_uses must be greater than 0''))
      else if (case lq_expires_at p of Some t \<Rightarrow> t \<le> now | None \<Rightarrow> False)
      then Err (ABadRequest (lit ''expires_at must be in the future''))
      else Okay ())"

record link_update =
  lu_permission :: "rstr option"
  lu_expires_at :: "micros option option"
  lu_max_uses :: "int option option"
  lu_disabled :: "bool option"

definition validate_share_link_update_request :: "micros \<Rightarrow> link_update \<Rightarrow> (api_error, unit) result" where
  "validate_share_link_update_request now p =
     (if lu_permission p = None \<and> lu_expires_at p = None \<and> lu_max_uses p = None \<and> lu_disabled p = None
      then Err (ABadRequest (lit ''at least one field must be provided for patch''))
      else if (case lu_permission p of Some v \<Rightarrow> v \<noteq> lit ''view'' \<and> v \<noteq> lit ''edit'' | None \<Rightarrow> False)
      then Err (ABadRequest (lit ''permission must be one of: view, edit''))
      else if (case lu_max_uses p of Some (Some n) \<Rightarrow> n \<le> 0 | _ \<Rightarrow> False)
      then Err (ABadRequest (lit ''max_uses must be greater than 0''))
      else if (case lu_expires_at p of Some (Some t) \<Rightarrow> t \<le> now | _ \<Rightarrow> False)
      then Err (ABadRequest (lit ''expires_at must be in the future''))
      else Okay ())"

section \<open>Tokens and passwords of links\<close>

definition hash_share_link_token :: "workspace_env \<Rightarrow> rstr \<Rightarrow> byte list" where
  "hash_share_link_token W token = api_sha256 (we_api W) (as_bytes token)"

definition hash_share_link_password :: "workspace_env \<Rightarrow> rstr \<Rightarrow> rstr \<Rightarrow> (api_error, rstr) result" where
  "hash_share_link_password W salt password =
     (case we_argon_hash W (as_bytes password) salt of None \<Rightarrow> Err AInternal | Some h \<Rightarrow> Okay h)"

definition verify_share_link_password :: "workspace_env \<Rightarrow> rstr \<Rightarrow> rstr \<Rightarrow> (api_error, unit) result" where
  "verify_share_link_password W password h =
     (case we_argon_verify W (as_bytes password) h of
        None \<Rightarrow> Err AInternal
      | Some True \<Rightarrow> Okay ()
      | Some False \<Rightarrow> Err (ABadRequest (lit ''incorrect share link password'')))"

definition build_share_link_url :: "workspace_env \<Rightarrow> rstr \<Rightarrow> rstr" where
  "build_share_link_url W token =
     (let base = (case we_share_base W of Some b \<Rightarrow> b | None \<Rightarrow> lit ''https://scriptum.local/share'')
      in rev (dropWhile (\<lambda>c. c = 47) (rev base)) @ lit ''/'' @ token)"

section \<open>Callers\<close>

definition live_workspace :: "workspace_db \<Rightarrow> uuid \<Rightarrow> workspace_row option" where
  "live_workspace db workspace_id =
     find (\<lambda>w. wr_id w = workspace_id \<and> wr_deleted_at w = None) (wd_workspaces db)"

definition ws_role_for_user :: "workspace_db \<Rightarrow> uuid \<Rightarrow> uuid \<Rightarrow> (api_error, workspace_role option) result" where
  "ws_role_for_user db user_id workspace_id =
     (case (active_role (wd_members db) user_id workspace_id, live_workspace db workspace_id) of
        (Some v, Some _) \<Rightarrow> (case role_from_db_value v of Some r \<Rightarrow> Okay (Some r) | None \<Rightarrow> Err AInternal)
      | _ \<Rightarrow> Okay None)"

definition no_access :: api_error where
  "no_access = AForbidden (lit ''caller lacks workspace access'')"

definition ws_require_role ::
  "workspace_env \<Rightarrow> workspace_db \<Rightarrow> authenticated_user \<Rightarrow> rstr \<Rightarrow> workspace_role \<Rightarrow> (api_error, uuid) result" where
  "ws_require_role W db user raw_workspace_id required =
     (case uuid_parse (we_api W) raw_workspace_id of
        None \<Rightarrow> Err no_access
      | Some workspace_id \<Rightarrow>
          if au_workspace_id user \<noteq> workspace_id then Err no_access
          else case ws_role_for_user db (au_user_id user) workspace_id of
            Inl e \<Rightarrow> Err e
          | Inr None \<Rightarrow> Err no_access
          | Inr (Some r) \<Rightarrow>
              if \<not> allows r required then Err (AForbidden (lit ''caller lacks required role'')) else Okay workspace_id)"

definition try_record_audit_event ::
  "workspace_env \<Rightarrow> micros \<Rightarrow> rstr option \<Rightarrow> uuid \<Rightarrow> uuid \<Rightarrow> audit_event_type \<Rightarrow> rstr \<Rightarrow> uuid \<Rightarrow> json \<Rightarrow> workspace_db \<Rightarrow> workspace_db" where
  "try_record_audit_event W now request_id workspace_id actor event_type entity_type entity details db =
     db\<lparr>wd_audit := snd (record_event (we_api W) now
          \<lparr>na_workspace_id = Some workspace_id, na_actor_user_id = Some actor, na_actor_agent_id = None,
           na_event_type = event_type, na_entity_type = entity_type, na_entity_id = uuid_string (we_api W) entity,
           na_request_id = request_id, na_ip_address = None, na_user_agent = None, na_details = Some details\<rparr>
          (wd_audit db))\<rparr>"

section \<open>Workspaces\<close>

definition workspace_record_of :: "workspace_row \<Rightarrow> rstr \<Rightarrow> workspace_record" where
  "workspace_record_of w r =
     \<lparr>wc_id = wr_id w, wc_slug = wr_slug w, wc_name = wr_name w, wc_role = r,
      wc_created_at = wr_created_at w, wc_updated_at = wr_updated_at w\<rparr>"

definition slug_taken :: "workspace_env \<Rightarrow> rstr \<Rightarrow> workspace_row list \<Rightarrow> bool" where
  "slug_taken W slug ws = list_ex (\<lambda>w. we_lower W (wr_slug w) = we_lower W slug) ws"

definition insert_member :: "member_row \<Rightarrow> member_row list \<Rightarrow> member_row list option" where
  "insert_member m ms =
     (if list_ex (\<lambda>x. mr_workspace_id x = mr_workspace_id m \<and> mr_user_id x = mr_user_id m) ms then None else Some (ms @ [m]))"

definition create_workspace_pg ::
  "workspace_env \<Rightarrow> uuid \<Rightarrow> micros \<Rightarrow> uuid \<Rightarrow> rstr \<Rightarrow> rstr \<Rightarrow> workspace_db \<Rightarrow>
   (api_error, workspace_record) result \<times> workspace_db" where
  "create_workspace_pg W new_id now user_id name slug db =
     (if list_ex (\<lambda>w. wr_id w = new_id) (wd_workspaces db) \<or> slug_taken W slug (wd_workspaces db)
      then (Err unique_violation, db)
      else let w = \<lparr>wr_id = new_id, wr_slug = slug, wr_name = name, wr_created_by = user_id, wr_created_at = now,
                    wr_updated_at = now, wr_deleted_at = None\<rparr>
           in case insert_member \<lparr>mr_workspace_id = new_id, mr_user_id = user_id, mr_role = lit ''owner'',
                     mr_status = lit ''active'', mr_joined_at = now\<rparr> (wd_members db) of
                None \<Rightarrow> (Err unique_violation, db)
              | Some ms \<Rightarrow>
                  (Okay (workspace_record_of w (lit ''owner'')),
                   db\<lparr>wd_workspaces := wd_workspaces db @ [w], wd_members := ms\<rparr>))"

definition create_workspace ::
  "workspace_env \<Rightarrow> uuid \<Rightarrow> micros \<Rightarrow> rstr option \<Rightarrow> authenticated_user \<Rightarrow> rstr \<Rightarrow> rstr \<Rightarrow> workspace_db \<Rightarrow>
   (api_error, workspace_record) result \<times> workspace_db" where
  "create_workspace W new_id now request_id user name slug db =
     (case validate_name name of Inl e \<Rightarrow> (Err e, db) | Inr _ \<Rightarrow>
      (case validate_slug slug of Inl e \<Rightarrow> (Err e, db) | Inr _ \<Rightarrow>
       (case create_workspace_pg W new_id now (au_user_id user) name slug db of
          (Inl e, db1) \<Rightarrow> (Err e, db1)
        | (Inr w, db1) \<Rightarrow>
            (Okay w, try_record_audit_event W now request_id (wc_id w) (au_user_id user) AdminAction (lit ''workspace'') (wc_id w)
               (JObject [(lit ''action'', JString (lit ''create'')), (lit ''name'', JString name), (lit ''slug'', JString slug)]) db1))))"

definition workspace_row_for_user :: "workspace_db \<Rightarrow> uuid \<Rightarrow> uuid \<Rightarrow> workspace_record option" where
  "workspace_row_for_user db workspace_id user_id =
     (case (live_workspace db workspace_id, active_role (wd_members db) user_id workspace_id) of
        (Some w, Some r) \<Rightarrow> Some (workspace_record_of w r)
      | _ \<Rightarrow> None)"

definition resolve_missing_workspace_access :: "workspace_db \<Rightarrow> uuid \<Rightarrow> api_error" where
  "resolve_missing_workspace_access db workspace_id =
     (if live_workspace db workspace_id \<noteq> None then no_access else ANotFound (lit ''workspace does not exist''))"

definition get_workspace :: "workspace_db \<Rightarrow> authenticated_user \<Rightarrow> uuid \<Rightarrow> (api_error, workspace_record) result" where
  "get_workspace db user workspace_id =
     (case workspace_row_for_user db workspace_id (au_user_id user) of
        Some r \<Rightarrow> Okay r
      | None \<Rightarrow> Err (resolve_missing_workspace_access db workspace_id))"

text \<open>The read of an update with its checks, and the \<open>UPDATE\<close> that names the version it read.\<close>

definition update_workspace_read ::
  "workspace_env \<Rightarrow> uuid \<Rightarrow> uuid \<Rightarrow> rstr \<Rightarrow> workspace_db \<Rightarrow> (api_error, workspace_record) result" where
  "update_workspace_read W user_id workspace_id if_match db =
     (case workspace_row_for_user db workspace_id user_id of
        None \<Rightarrow> Err (resolve_missing_workspace_access db workspace_id)
      | Some current \<Rightarrow>
          if wc_role current \<noteq> lit ''owner'' then Err (AForbidden (lit ''caller lacks required role''))
          else if \<not> etag_matches if_match (workspace_etag W (wc_id current) (wc_updated_at current))
          then Err APreconditionFailed else Okay current)"

definition update_workspace_write ::
  "workspace_env \<Rightarrow> micros \<Rightarrow> uuid \<Rightarrow> workspace_record \<Rightarrow> rstr option \<Rightarrow> rstr option \<Rightarrow> workspace_db \<Rightarrow>
   (api_error, workspace_record) result \<times> workspace_db" where
  "update_workspace_write W now workspace_id current name slug db =
     (case find (\<lambda>w. wr_id w = workspace_id \<and> wr_deleted_at w = None \<and> wr_updated_at w = wc_updated_at current)
             (wd_workspaces db) of
        None \<Rightarrow> (Err APreconditionFailed, db)
      | Some w \<Rightarrow>
          if (case slug of None \<Rightarrow> False
              | Some v \<Rightarrow> slug_taken W v (filter (\<lambda>x. wr_id x \<noteq> workspace_id) (wd_workspaces db)))
          then (Err unique_violation, db)
          else let w' = w\<lparr>wr_name := (case name of None \<Rightarrow> wr_name w | Some v \<Rightarrow> v),
                          wr_slug := (case slug of None \<Rightarrow> wr_slug w | Some v \<Rightarrow> v),
                          wr_updated_at := (if name = None \<and> slug = None then wr_updated_at w else now)\<rparr>
               in (Okay (workspace_record_of w' (wc_role current)),
                   db\<lparr>wd_workspaces := map (\<lambda>x. if wr_id x = workspace_id then w' else x) (wd_workspaces db)\<rparr>))"

definition update_workspace ::
  "workspace_env \<Rightarrow> micros \<Rightarrow> rstr option \<Rightarrow> authenticated_user \<Rightarrow> uuid \<Rightarrow> request \<Rightarrow> rstr option \<Rightarrow> rstr option \<Rightarrow>
   workspace_db \<Rightarrow> (api_error, workspace_record) result \<times> workspace_db" where
  "update_workspace W now request_id user workspace_id rq name slug db =
     (case (case name of None \<Rightarrow> Okay () | Some v \<Rightarrow> validate_name v) of Inl e \<Rightarrow> (Err e, db) | Inr _ \<Rightarrow>
      (case (case slug of None \<Rightarrow> Okay () | Some v \<Rightarrow> validate_slug v) of Inl e \<Rightarrow> (Err e, db) | Inr _ \<Rightarrow>
       (case extract_if_match rq of Inl e \<Rightarrow> (Err e, db) | Inr if_match \<Rightarrow>
        (case update_workspace_read W (au_user_id user) workspace_id if_match db of
           Inl e \<Rightarrow> (Err e, db)
         | Inr current \<Rightarrow>
             (case update_workspace_write W now workspace_id current name slug db of
                (Inl e, db1) \<Rightarrow> (Err e, db1)
              | (Inr w, db1) \<Rightarrow>
                  (Okay w, try_record_audit_event W now request_id workspace_id (au_user_id user) AdminAction (lit ''workspace'')
                     (wc_id w) (JObject [(lit ''action'', JString (lit ''update'')), (lit ''name'', json_text name),
                       (lit ''slug'', json_text slug)]) db1))))))"

section \<open>Members\<close>

definition member_view :: "workspace_db \<Rightarrow> member_row \<Rightarrow> member_record option" where
  "member_view db m =
     map_option (\<lambda>u. \<lparr>mc_user_id = mr_user_id m, mc_email = ur_email u, mc_display_name = ur_display_name u,
                     mc_role = mr_role m, mc_status = mr_status m, mc_joined_at = mr_joined_at m\<rparr>)
       (find (\<lambda>u. ur_id u = mr_user_id m) (wd_users db))"

definition find_member :: "workspace_db \<Rightarrow> uuid \<Rightarrow> uuid \<Rightarrow> member_record option" where
  "find_member db workspace_id member_id =
     Option.bind (find (\<lambda>m. mr_workspace_id m = workspace_id \<and> mr_user_id m = member_id) (wd_members db)) (member_view db)"

definition member_not_found :: api_error where
  "member_not_found = ANotFound (lit ''workspace member not found'')"

definition update_member_read ::
  "workspace_env \<Rightarrow> uuid \<Rightarrow> uuid \<Rightarrow> rstr \<Rightarrow> member_update \<Rightarrow> workspace_db \<Rightarrow> (api_error, unit) result" where
  "update_member_read W workspace_id member_id if_match p db =
     (case find_member db workspace_id member_id of
        None \<Rightarrow> Err member_not_found
      | Some current \<Rightarrow>
          if \<not> etag_matches if_match (member_etag W (mc_user_id current) (mc_joined_at current)) then Err APreconditionFailed
          else if mc_role current = lit ''owner'' \<and> (case mu_role p of Some r \<Rightarrow> r \<noteq> lit ''owner'' | None \<Rightarrow> False)
          then Err (ABadRequest (lit ''cannot demote the last owner'')) else Okay ())"

definition update_member_write ::
  "uuid \<Rightarrow> uuid \<Rightarrow> member_update \<Rightarrow> workspace_db \<Rightarrow> (api_error, member_record) result \<times> workspace_db" where
  "update_member_write workspace_id member_id p db =
     (let change = (\<lambda>m. if mr_workspace_id m = workspace_id \<and> mr_user_id m = member_id
                        then m\<lparr>mr_role := (case mu_role p of None \<Rightarrow> mr_role m | Some r \<Rightarrow> r),
                               mr_status := (case mu_status p of None \<Rightarrow> mr_status m | Some s \<Rightarrow> s)\<rparr> else m);
          db1 = db\<lparr>wd_members := map change (wd_members db)\<rparr>
      in case find_member db1 workspace_id member_id of None \<Rightarrow> (Err AInternal, db) | Some r \<Rightarrow> (Okay r, db1))"

definition update_member ::
  "workspace_env \<Rightarrow> micros \<Rightarrow> rstr option \<Rightarrow> authenticated_user \<Rightarrow> uuid \<Rightarrow> uuid \<Rightarrow> request \<Rightarrow> member_update \<Rightarrow>
   workspace_db \<Rightarrow> (api_error, member_record) result \<times> workspace_db" where
  "update_member W now request_id user workspace_id member_id rq p db =
     (case validate_member_update p of Inl e \<Rightarrow> (Err e, db) | Inr _ \<Rightarrow>
      if member_id = au_user_id user then (Err (ABadRequest (lit ''cannot modify your own membership'')), db)
      else case extract_if_match rq of Inl e \<Rightarrow> (Err e, db) | Inr if_match \<Rightarrow>
      (case update_member_read W workspace_id member_id if_match p db of Inl e \<Rightarrow> (Err e, db) | Inr _ \<Rightarrow>
       (case update_member_write workspace_id member_id p db of
          (Inl e, db1) \<Rightarrow> (Err e, db1)
        | (Inr r, db1) \<Rightarrow>
            (Okay r, try_record_audit_event W now request_id workspace_id (au_user_id user) PermissionChange (lit ''membership'') member_id
               (JObject [(lit ''action'', JString (lit ''update'')), (lit ''role'', json_text (mu_role p)),
                 (lit ''status'', json_text (mu_status p))]) db1))))"

definition delete_member_read ::
  "workspace_env \<Rightarrow> uuid \<Rightarrow> uuid \<Rightarrow> rstr \<Rightarrow> workspace_db \<Rightarrow> (api_error, unit) result" where
  "delete_member_read W workspace_id member_id if_match db =
     (case find_member db workspace_id member_id of
        None \<Rightarrow> Err member_not_found
      | Some current \<Rightarrow>
          if \<not> etag_matches if_match (member_etag W (mc_user_id current) (mc_joined_at current)) then Err APreconditionFailed
          else if mc_role current = lit ''owner'' then Err (ABadRequest (lit ''cannot remove a workspace owner'')) else Okay ())"

definition delete_member_write :: "uuid \<Rightarrow> uuid \<Rightarrow> workspace_db \<Rightarrow> workspace_db" where
  "delete_member_write workspace_id member_id db =
     db\<lparr>wd_members := filter (\<lambda>m. \<not> (mr_workspace_id m = workspace_id \<and> mr_user_id m = member_id)) (wd_members db)\<rparr>"

definition delete_member ::
  "workspace_env \<Rightarrow> micros \<Rightarrow> rstr option \<Rightarrow> authenticated_user \<Rightarrow> uuid \<Rightarrow> uuid \<Rightarrow> request \<Rightarrow>
   workspace_db \<Rightarrow> (api_error, unit) result \<times> workspace_db" where
  "delete_member W now request_id user workspace_id member_id rq db =
     (if member_id = au_user_id user then (Err (ABadRequest (lit ''cannot remove your own membership'')), db)
      else case extract_if_match rq of Inl e \<Rightarrow> (Err e, db) | Inr if_match \<Rightarrow>
      (case delete_member_read W workspace_id member_id if_match db of Inl e \<Rightarrow> (Err e, db) | Inr _ \<Rightarrow>
        (Okay (), try_record_audit_event W now request_id workspace_id (au_user_id user) PermissionChange (lit ''membership'') member_id
           (JObject [(lit ''action'', JString (lit ''delete''))]) (delete_member_write workspace_id member_id db))))"

section \<open>Invites\<close>

definition create_invite_pg ::
  "uuid \<Rightarrow> micros \<Rightarrow> uuid \<Rightarrow> uuid \<Rightarrow> invite_request \<Rightarrow> byte list \<Rightarrow> micros \<Rightarrow> workspace_db \<Rightarrow>
   (api_error, invite_row) result \<times> workspace_db" where
  "create_invite_pg new_id now workspace_id invited_by p token_hash expires_at db =
     (if list_ex (\<lambda>i. iv_id i = new_id) (wd_invites db) then (Err unique_violation, db)
      else let i = \<lparr>iv_id = new_id, iv_workspace_id = workspace_id, iv_email = iq_email p, iv_role = iq_role p,
                    iv_token_hash = token_hash, iv_invited_by = invited_by, iv_expires_at = expires_at,
                    iv_accepted_at = None, iv_created_at = now\<rparr>
           in (Okay i, db\<lparr>wd_invites := wd_invites db @ [i]\<rparr>))"

text \<open>What the caller is told of an invite: \<open>Invite\<close> has no field for its token.\<close>

record invite_view =
  vi_id :: uuid
  vi_workspace_id :: uuid
  vi_email :: rstr
  vi_role :: rstr
  vi_expires_at :: micros
  vi_created_at :: micros

definition into_invite :: "invite_row \<Rightarrow> invite_view" where
  "into_invite i =
     \<lparr>vi_id = iv_id i, vi_workspace_id = iv_workspace_id i, vi_email = iv_email i, vi_role = iv_role i,
      vi_expires_at = iv_expires_at i, vi_created_at = iv_created_at i\<rparr>"

definition create_invite ::
  "workspace_env \<Rightarrow> uuid \<Rightarrow> byte list \<Rightarrow> micros \<Rightarrow> rstr option \<Rightarrow> authenticated_user \<Rightarrow> uuid \<Rightarrow> invite_request \<Rightarrow>
   workspace_db \<Rightarrow> (api_error, invite_view) result \<times> workspace_db" where
  "create_invite W new_id bytes now request_id user workspace_id p db =
     (case validate_invite_request p of Inl e \<Rightarrow> (Err e, db) | Inr _ \<Rightarrow>
      let expiry_hours = (case iq_expires_in_hours p of Some h \<Rightarrow> h | None \<Rightarrow> DEFAULT_INVITE_EXPIRY_HOURS);
          expires_at = now + int expiry_hours * 3600000000;
          token_hash = hash_share_link_token W (we_base64url W bytes)
      in (case create_invite_pg new_id now workspace_id (au_user_id user) p token_hash expires_at db of
            (Inl e, db1) \<Rightarrow> (Err e, db1)
          | (Inr i, db1) \<Rightarrow>
              (Okay (into_invite i),
               try_record_audit_event W now request_id workspace_id (au_user_id user) PermissionChange (lit ''invite'') (iv_id i)
                 (JObject [(lit ''action'', JString (lit ''create'')), (lit ''email'', JString (iq_email p)),
                   (lit ''role'', JString (iq_role p)),
                   (lit ''expires_in_hours'', json_int (map_option int (iq_expires_in_hours p)))]) db1)))"

text \<open>The statements of \<open>accept_invite_pg\<close>: the lookup with its checks, and the two writes.\<close>

definition accept_invite_read :: "micros \<Rightarrow> byte list \<Rightarrow> workspace_db \<Rightarrow> (api_error, invite_row) result" where
  "accept_invite_read now token_hash db =
     (case find (\<lambda>i. iv_token_hash i = token_hash) (wd_invites db) of
        None \<Rightarrow> Err (ANotFound (lit ''invite not found or already used''))
      | Some i \<Rightarrow>
          if iv_accepted_at i \<noteq> None then Err (ABadRequest (lit ''this invite has already been accepted''))
          else if iv_expires_at i < now then Err (ABadRequest (lit ''this invite has expired''))
          else Okay i)"

definition upsert_member :: "micros \<Rightarrow> uuid \<Rightarrow> uuid \<Rightarrow> rstr \<Rightarrow> member_row list \<Rightarrow> member_row list" where
  "upsert_member now workspace_id user_id r ms =
     (if list_ex (\<lambda>m. mr_workspace_id m = workspace_id \<and> mr_user_id m = user_id) ms
      then map (\<lambda>m. if mr_workspace_id m = workspace_id \<and> mr_user_id m = user_id
                    then m\<lparr>mr_role := r, mr_status := lit ''active''\<rparr> else m) ms
      else ms @ [\<lparr>mr_workspace_id = workspace_id, mr_user_id = user_id, mr_role = r, mr_status = lit ''active'',
                  mr_joined_at = now\<rparr>])"

definition accept_invite_write :: "micros \<Rightarrow> invite_row \<Rightarrow> uuid \<Rightarrow> workspace_db \<Rightarrow> workspace_db" where
  "accept_invite_write now i user_id db =
     db\<lparr>wd_invites := map (\<lambda>x. if iv_id x = iv_id i then x\<lparr>iv_accepted_at := Some now\<rparr> else x) (wd_invites db),
        wd_members := upsert_member now (iv_workspace_id i) user_id (iv_role i) (wd_members db)\<rparr>"

definition accept_invite ::
  "workspace_env \<Rightarrow> micros \<Rightarrow> rstr option \<Rightarrow> authenticated_user \<Rightarrow> rstr \<Rightarrow> workspace_db \<Rightarrow>
   (api_error, invite_view) result \<times> workspace_db" where
  "accept_invite W now request_id user token db =
     (case accept_invite_read now (hash_share_link_token W token) db of
        Inl e \<Rightarrow> (Err e, db)
      | Inr i \<Rightarrow>
          (Okay (into_invite i),
           try_record_audit_event W now request_id (iv_workspace_id i) (au_user_id user) PermissionChange (lit ''invite'') (iv_id i)
             (JObject [(lit ''action'', JString (lit ''accept''))]) (accept_invite_write now i (au_user_id user) db)))"

section \<open>Lists\<close>

definition WS_DEFAULT_PAGE_SIZE :: nat where "WS_DEFAULT_PAGE_SIZE = 50"
definition WS_MAX_PAGE_SIZE :: nat where "WS_MAX_PAGE_SIZE = 100"

definition ws_normalize_limit :: "nat option \<Rightarrow> nat" where
  "ws_normalize_limit limit =
     (case limit of
        Some v \<Rightarrow> if v = 0 then WS_DEFAULT_PAGE_SIZE else min v WS_MAX_PAGE_SIZE
      | None \<Rightarrow> WS_DEFAULT_PAGE_SIZE)"

definition ws_parse_cursor :: "workspace_env \<Rightarrow> rstr \<Rightarrow> (api_error, micros \<times> uuid) result" where
  "ws_parse_cursor W v =
     (case split_once 124 v of
        None \<Rightarrow> Err (ABadRequest (lit ''cursor format is invalid''))
      | Some (ts, i) \<Rightarrow>
          (case parse_i64 ts of
             None \<Rightarrow> Err (ABadRequest (lit ''cursor timestamp is invalid''))
           | Some t \<Rightarrow>
               if \<not> micros_ok (we_api W) t then Err (ABadRequest (lit ''cursor timestamp is invalid''))
               else case uuid_parse (we_api W) i of
                 None \<Rightarrow> Err (ABadRequest (lit ''cursor id is invalid''))
               | Some u \<Rightarrow> Okay (t, u)))"

definition ws_encode_cursor :: "workspace_env \<Rightarrow> micros \<Rightarrow> uuid \<Rightarrow> rstr" where
  "ws_encode_cursor W t i = show_int t @ lit ''|'' @ uuid_string (we_api W) i"

definition list_workspaces_pg ::
  "workspace_env \<Rightarrow> workspace_db \<Rightarrow> uuid \<Rightarrow> nat \<Rightarrow> (micros \<times> uuid) option \<Rightarrow> workspace_record list \<times> rstr option" where
  "list_workspaces_pg W db user_id limit cursor =
     (let joined = concat (map (\<lambda>w. map (\<lambda>m. workspace_record_of w (mr_role m))
            (filter (\<lambda>m. mr_workspace_id m = wr_id w \<and> mr_user_id m = user_id \<and> mr_status m = lit ''active'') (wd_members db)))
            (filter (\<lambda>w. wr_deleted_at w = None) (wd_workspaces db)));
          got = take (limit + 1) (rev (sort_key (\<lambda>r. (wc_created_at r, wc_id r))
            (filter (\<lambda>r. case cursor of None \<Rightarrow> True
                          | Some (t, i) \<Rightarrow> wc_created_at r < t \<or> wc_created_at r = t \<and> wc_id r < i) joined)))
      in if length got > limit
         then (let kept = take limit got
               in (kept, if kept = [] then None else Some (ws_encode_cursor W (wc_created_at (last kept)) (wc_id (last kept)))))
         else (got, None))"

definition list_workspaces ::
  "workspace_env \<Rightarrow> workspace_db \<Rightarrow> authenticated_user \<Rightarrow> nat option \<Rightarrow> rstr option \<Rightarrow>
   (api_error, workspace_record list \<times> rstr option) result" where
  "list_workspaces W db user limit cursor =
     (case (case cursor of None \<Rightarrow> Okay None | Some raw \<Rightarrow> map_sum id Some (ws_parse_cursor W raw)) of
        Inl e \<Rightarrow> Err e
      | Inr c \<Rightarrow> Okay (list_workspaces_pg W db (au_user_id user) (ws_normalize_limit limit) c))"

definition list_members_pg ::
  "workspace_env \<Rightarrow> workspace_db \<Rightarrow> uuid \<Rightarrow> nat \<Rightarrow> (micros \<times> uuid) option \<Rightarrow> member_record list \<times> rstr option" where
  "list_members_pg W db workspace_id limit cursor =
     (let rows = List.map_filter (member_view db) (filter (\<lambda>m. mr_workspace_id m = workspace_id) (wd_members db));
          got = take (limit + 1) (sort_key (\<lambda>r. (mc_joined_at r, mc_user_id r))
            (filter (\<lambda>r. case cursor of None \<Rightarrow> True
                          | Some (t, i) \<Rightarrow> mc_joined_at r > t \<or> mc_joined_at r = t \<and> mc_user_id r > i) rows))
      in if length got > limit
         then (let kept = take limit got
               in (kept, if kept = [] then None else Some (ws_encode_cursor W (mc_joined_at (last kept)) (mc_user_id (last kept)))))
         else (got, None))"

definition list_members ::
  "workspace_env \<Rightarrow> workspace_db \<Rightarrow> uuid \<Rightarrow> nat option \<Rightarrow> rstr option \<Rightarrow>
   (api_error, member_record list \<times> rstr option) result" where
  "list_members W db workspace_id limit cursor =
     (case (case cursor of None \<Rightarrow> Okay None | Some raw \<Rightarrow> map_sum id Some (ws_parse_cursor W raw)) of
        Inl e \<Rightarrow> Err e
      | Inr c \<Rightarrow> Okay (list_members_pg W db workspace_id (ws_normalize_limit limit) c))"

end
