(* ===== verification/ShareLinks.thy ===== *)
theory ShareLinks
  imports Workspaces
begin

text \<open>
  The share links of \<open>relay/src/api/mod.rs\<close>: creation, listing, updates, revocation, and the public
  redemption with its limiter, whose entries count attempts per token hash in windows of fifteen
  minutes. A redemption is the limiter's turn, the lookup with its checks and the increment.
\<close>

section \<open>Management\<close>

definition link_not_found :: api_error where
  "link_not_found = ANotFound (lit ''share link does not exist'')"

definition create_share_link_pg ::
  "uuid \<Rightarrow> micros \<Rightarrow> uuid \<Rightarrow> uuid \<Rightarrow> link_request \<Rightarrow> byte list \<Rightarrow> rstr option \<Rightarrow> workspace_db \<Rightarrow>
   (api_error, share_link_row) result \<times> workspace_db" where
  "create_share_link_pg new_id now workspace_id user_id p token_hash password_hash db =
     (if list_ex (\<lambda>l. sl_id l = new_id) (wd_links db) then (Err unique_violation, db)
      else let l = \<lparr>sl_id = new_id, sl_workspace_id = workspace_id, sl_target_type = lq_target_type p,
                    sl_target_id = lq_target_id p, sl_permission = lq_permission p, sl_token_hash = token_hash,
                    sl_password_hash = password_hash, sl_expires_at = lq_expires_at p, sl_max_uses = lq_max_uses p,
                    sl_use_count = 0, sl_disabled = False, sl_created_by = user_id, sl_created_at = now,
                    sl_revoked_at = None\<rparr>
           in (Okay l, db\<lparr>wd_links := wd_links db @ [l]\<rparr>))"

definition create_share_link ::
  "workspace_env \<Rightarrow> uuid \<Rightarrow> byte list \<Rightarrow> rstr \<Rightarrow> micros \<Rightarrow> rstr option \<Rightarrow> authenticated_user \<Rightarrow> uuid \<Rightarrow> link_request \<Rightarrow>
   workspace_db \<Rightarrow> (api_error, share_link_row \<times> rstr) result \<times> workspace_db" where
  "create_share_link W new_id bytes salt now request_id user workspace_id p db =
     (case validate_share_link_request now workspace_id p of Inl e \<Rightarrow> (Err e, db) | Inr _ \<Rightarrow>
      let p1 = (case lq_password p of Some v \<Rightarrow> if trim v = [] then p\<lparr>lq_password := None\<rparr> else p | None \<Rightarrow> p);
          token = we_base64url W bytes;
          token_hash = hash_share_link_token W token
      in (case (case lq_password p1 of None \<Rightarrow> Okay None | Some v \<Rightarrow> map_sum id Some (hash_share_link_password W salt v)) of
            Inl e \<Rightarrow> (Err e, db)
          | Inr password_hash \<Rightarrow>
              (case create_share_link_pg new_id now workspace_id (au_user_id user) p1 token_hash password_hash db of
                 (Inl e, db1) \<Rightarrow> (Err e, db1)
               | (Inr l, db1) \<Rightarrow>
                   (Okay (l, build_share_link_url W token),
                    try_record_audit_event W now request_id workspace_id (au_user_id user) ShareLinkOperation (lit ''share_link'') (sl_id l)
                      (JObject [(lit ''action'', JString (lit ''create'')), (lit ''target_type'', JString (lq_target_type p1)),
                        (lit ''target_id'', JString (uuid_string (we_api W) (lq_target_id p1))),
                        (lit ''permission'', JString (lq_permission p1))]) db1))))"

definition list_share_links :: "workspace_db \<Rightarrow> uuid \<Rightarrow> share_link_row list" where
  "list_share_links db workspace_id =
     rev (sort_key (\<lambda>l. (sl_created_at l, sl_id l)) (filter (\<lambda>l. sl_workspace_id l = workspace_id) (wd_links db)))"

definition share_link_record_by_id :: "workspace_db \<Rightarrow> uuid \<Rightarrow> uuid \<Rightarrow> share_link_row option" where
  "share_link_record_by_id db workspace_id share_link_id =
     find (\<lambda>l. sl_workspace_id l = workspace_id \<and> sl_id l = share_link_id) (wd_links db)"

definition share_link_read ::
  "workspace_env \<Rightarrow> uuid \<Rightarrow> uuid \<Rightarrow> rstr \<Rightarrow> workspace_db \<Rightarrow> (api_error, share_link_row) result" where
  "share_link_read W workspace_id share_link_id if_match db =
     (case share_link_record_by_id db workspace_id share_link_id of
        None \<Rightarrow> Err link_not_found
      | Some current \<Rightarrow> if \<not> etag_matches if_match (share_link_etag W current) then Err APreconditionFailed else Okay current)"

definition update_share_link_write ::
  "uuid \<Rightarrow> uuid \<Rightarrow> share_link_row \<Rightarrow> link_update \<Rightarrow> workspace_db \<Rightarrow> (api_error, share_link_row) result \<times> workspace_db" where
  "update_share_link_write workspace_id share_link_id current p db =
     (case share_link_record_by_id db workspace_id share_link_id of
        None \<Rightarrow> (Err link_not_found, db)
      | Some l \<Rightarrow>
          let l' = l\<lparr>sl_permission := (case lu_permission p of Some v \<Rightarrow> v | None \<Rightarrow> sl_permission current),
                     sl_expires_at := (case lu_expires_at p of Some v \<Rightarrow> v | None \<Rightarrow> sl_expires_at current),
                     sl_max_uses := (case lu_max_uses p of Some v \<Rightarrow> v | None \<Rightarrow> sl_max_uses current),
                     sl_disabled := (case lu_disabled p of Some v \<Rightarrow> v | None \<Rightarrow> sl_disabled current)\<rparr>
          in (Okay l', db\<lparr>wd_links := map (\<lambda>x. if sl_id x = share_link_id then l' else x) (wd_links db)\<rparr>))"

definition update_share_link ::
  "workspace_env \<Rightarrow> micros \<Rightarrow> rstr option \<Rightarrow> authenticated_user \<Rightarrow> uuid \<Rightarrow> uuid \<Rightarrow> request \<Rightarrow> link_update \<Rightarrow>
   workspace_db \<Rightarrow> (api_error, share_link_row) result \<times> workspace_db" where
  "update_share_link W now request_id user workspace_id share_link_id rq p db =
     (case validate_share_link_update_request now p of Inl e \<Rightarrow> (Err e, db) | Inr _ \<Rightarrow>
      (case extract_if_match rq of Inl e \<Rightarrow> (Err e, db) | Inr if_match \<Rightarrow>
       (case share_link_read W workspace_id share_link_id if_match db of Inl e \<Rightarrow> (Err e, db) | Inr current \<Rightarrow>
        (case update_share_link_write workspace_id share_link_id current p db of
           (Inl e, db1) \<Rightarrow> (Err e, db1)
         | (Inr l, db1) \<Rightarrow>
             (Okay l,
              try_record_audit_event W now request_id workspace_id (au_user_id user) ShareLinkOperation (lit ''share_link'') (sl_id l)
                (JObject [(lit ''action'', JString (lit ''update'')), (lit ''permission'', json_text (lu_permission p)),
                  (lit ''expires_at'', json_text (map_option (we_date_text W) (Option.bind (lu_expires_at p) id))),
                  (lit ''max_uses'', json_int (Option.bind (lu_max_uses p) id)),
                  (lit ''disabled'', case lu_disabled p of None \<Rightarrow> JNull | Some b \<Rightarrow> JBool b)]) db1)))))"

definition revoke_share_link_write ::
  "micros \<Rightarrow> uuid \<Rightarrow> uuid \<Rightarrow> workspace_db \<Rightarrow> (api_error, unit) result \<times> workspace_db" where
  "revoke_share_link_write now workspace_id share_link_id db =
     (if share_link_record_by_id db workspace_id share_link_id = None then (Err link_not_found, db)
      else (Okay (), db\<lparr>wd_links := map (\<lambda>l. if sl_workspace_id l = workspace_id \<and> sl_id l = share_link_id
               then l\<lparr>sl_disabled := True,
                      sl_revoked_at := (case sl_revoked_at l of Some t \<Rightarrow> Some t | None \<Rightarrow> Some now)\<rparr> else l) (wd_links db)\<rparr>))"

definition revoke_share_link ::
  "workspace_env \<Rightarrow> micros \<Rightarrow> rstr option \<Rightarrow> authenticated_user \<Rightarrow> uuid \<Rightarrow> uuid \<Rightarrow> request \<Rightarrow>
   workspace_db \<Rightarrow> (api_error, unit) result \<times> workspace_db" where
  "revoke_share_link W now request_id user workspace_id share_link_id rq db =
     (case extract_if_match rq of Inl e \<Rightarrow> (Err e, db) | Inr if_match \<Rightarrow>
      (case share_link_read W workspace_id share_link_id if_match db of Inl e \<Rightarrow> (Err e, db) | Inr _ \<Rightarrow>
       (case revoke_share_link_write now workspace_id share_link_id db of
          (Inl e, db1) \<Rightarrow> (Err e, db1)
        | (Inr _, db1) \<Rightarrow>
            (Okay (), try_record_audit_event W now request_id workspace_id (au_user_id user) ShareLinkOperation (lit ''share_link'')
               share_link_id (JObject [(lit ''action'', JString (lit ''revoke''))]) db1))))"

section \<open>Redemption\<close>

type_synonym redeem_limiter = "(byte list \<times> redeem_rate_entry) list"

definition redeem_admit :: "nat \<Rightarrow> byte list \<Rightarrow> redeem_limiter \<Rightarrow> bool \<times> redeem_limiter" where
  "redeem_admit tick token_hash limiter =
     (let e = (case map_of limiter token_hash of Some e \<Rightarrow> e | None \<Rightarrow> \<lparr>re_count = 0, re_window_start = tick\<rparr>);
          e1 = (if (tick - re_window_start e) div 1000000000 > REDEEM_RATE_LIMIT_WINDOW_SECS
                then \<lparr>re_count = 0, re_window_start = tick\<rparr> else e);
          e2 = e1\<lparr>re_count := u32 (re_count e1 + 1)\<rparr>
      in (\<not> re_count e2 > REDEEM_RATE_LIMIT_MAX, AList.update token_hash e2 limiter))"

definition redeem_check ::
  "workspace_env \<Rightarrow> micros \<Rightarrow> rstr option \<Rightarrow> share_link_row \<Rightarrow> (api_error, unit) result" where
  "redeem_check W now password l =
     (if sl_disabled l then Err (ABadRequest (lit ''this share link has been disabled''))
      else if sl_revoked_at l \<noteq> None then Err (ABadRequest (lit ''this share link has been revoked''))
      else if (case sl_expires_at l of Some t \<Rightarrow> t < now | None \<Rightarrow> False)
      then Err (ABadRequest (lit ''this share link has expired''))
      else if (case sl_max_uses l of Some n \<Rightarrow> sl_use_count l \<ge> n | None \<Rightarrow> False)
      then Err (ABadRequest (lit ''this share link has reached its maximum uses''))
      else case sl_password_hash l of
        None \<Rightarrow> Okay ()
      | Some h \<Rightarrow> verify_share_link_password W (case password of Some p \<Rightarrow> p | None \<Rightarrow> []) h)"

definition redeem_lookup ::
  "workspace_env \<Rightarrow> micros \<Rightarrow> byte list \<Rightarrow> rstr option \<Rightarrow> workspace_db \<Rightarrow> (api_error, share_link_row) result" where
  "redeem_lookup W now token_hash password db =
     (case find (\<lambda>l. sl_token_hash l = token_hash) (wd_links db) of
        None \<Rightarrow> Err (ANotFound (lit ''share link not found''))
      | Some l \<Rightarrow> map_sum id (\<lambda>_. l) (redeem_check W now password l))"

definition increment_share_link_use_count :: "uuid \<Rightarrow> workspace_db \<Rightarrow> (api_error, unit) result \<times> workspace_db" where
  "increment_share_link_use_count share_link_id db =
     (if list_ex (\<lambda>l. sl_id l = share_link_id \<and> sl_use_count l \<ge> 2147483647) (wd_links db) then (Err AInternal, db)
      else (Okay (), db\<lparr>wd_links := map (\<lambda>l. if sl_id l = share_link_id then l\<lparr>sl_use_count := sl_use_count l + 1\<rparr> else l)
              (wd_links db)\<rparr>))"

record redeem_response =
  rr_workspace_id :: uuid
  rr_target_type :: rstr
  rr_target_id :: uuid
  rr_permission :: rstr
  rr_remaining_uses :: "int option"

definition redeem_answer :: "share_link_row \<Rightarrow> redeem_response" where
  "redeem_answer l =
     \<lparr>rr_workspace_id = sl_workspace_id l, rr_target_type = sl_target_type l, rr_target_id = sl_target_id l,
      rr_permission = sl_permission l, rr_remaining_uses = map_option (\<lambda>n. n - sl_use_count l - 1) (sl_max_uses l)\<rparr>"

definition redeem_share_link ::
  "workspace_env \<Rightarrow> nat \<Rightarrow> micros \<Rightarrow> rstr \<Rightarrow> rstr option \<Rightarrow> workspace_db \<times> redeem_limiter \<Rightarrow>
   (api_error, redeem_response) result \<times> workspace_db \<times> redeem_limiter" where
  "redeem_share_link W tick now token password st =
     (let (db, limiter) = st in
      if trim token = [] then (Err (ABadRequest (lit ''token is required'')), db, limiter)
      else
        let token_hash = hash_share_link_token W token;
            (admitted, limiter1) = redeem_admit tick token_hash limiter
        in if \<not> admitted then (Err (ARateLimited (lit ''too many redeem attempts for this token'')), db, limiter1)
           else case redeem_lookup W now token_hash password db of
             Inl e \<Rightarrow> (Err e, db, limiter1)
           | Inr l \<Rightarrow>
               (case increment_share_link_use_count (sl_id l) db of
                  (Inl e, db1) \<Rightarrow> (Err e, db1, limiter1)
                | (Inr _, db1) \<Rightarrow> (Okay (redeem_answer l), db1, limiter1)))"

end
