(* ===== verification/WorkspaceRuns.thy ===== *)
theory WorkspaceRuns
  imports ShareLinks
begin

text \<open>
  The routes of \<open>relay/src/api/mod.rs\<close> with their role layers, and what they keep: well-formed
  tables, who can become an owner, and when a workspace keeps one.
\<close>

section \<open>Routes\<close>

datatype ws_op =
    CreateWorkspace uuid micros "rstr option" authenticated_user rstr rstr
  | UpdateWorkspace micros "rstr option" authenticated_user rstr request "rstr option" "rstr option"
  | UpdateMember micros "rstr option" authenticated_user rstr uuid request member_update
  | DeleteMember micros "rstr option" authenticated_user rstr uuid request
  | CreateInvite uuid "byte list" micros "rstr option" authenticated_user rstr invite_request
  | AcceptInvite micros "rstr option" authenticated_user rstr
  | CreateLink uuid "byte list" rstr micros "rstr option" authenticated_user rstr link_request
  | UpdateLink micros "rstr option" authenticated_user rstr uuid request link_update
  | RevokeLink micros "rstr option" authenticated_user rstr uuid request
  | Redeem nat micros rstr "rstr option"

definition no_answer :: "('e, 'a) result \<times> 's \<Rightarrow> ('e, unit) result \<times> 's" where
  "no_answer rs = (map_sum id (\<lambda>_. ()) (fst rs), snd rs)"

definition guarded ::
  "workspace_env \<Rightarrow> authenticated_user \<Rightarrow> rstr \<Rightarrow> workspace_role \<Rightarrow>
   (uuid \<Rightarrow> workspace_db \<Rightarrow> (api_error, 'a) result \<times> workspace_db) \<Rightarrow> workspace_db \<Rightarrow> (api_error, unit) result \<times> workspace_db" where
  "guarded W user raw required handler db =
     (case ws_require_role W db user raw required of Inl e \<Rightarrow> (Err e, db) | Inr ws \<Rightarrow> no_answer (handler ws db))"

fun ws_route :: "workspace_env \<Rightarrow> ws_op \<Rightarrow> workspace_db \<times> redeem_limiter \<Rightarrow> (api_error, unit) result \<times> workspace_db \<times> redeem_limiter" where
  "ws_route W (Redeem tick now token password) st = no_answer (redeem_share_link W tick now token password st)"
| "ws_route W op (db, lim) =
     (let (r, db1) =
        (case op of
           CreateWorkspace i now rid user name slug \<Rightarrow> no_answer (create_workspace W i now rid user name slug db)
         | UpdateWorkspace now rid user raw rq name slug \<Rightarrow>
             guarded W user raw Owner (\<lambda>ws. update_workspace W now rid user ws rq name slug) db
         | UpdateMember now rid user raw member rq p \<Rightarrow>
             guarded W user raw Owner (\<lambda>ws. update_member W now rid user ws member rq p) db
         | DeleteMember now rid user raw member rq \<Rightarrow>
             guarded W user raw Owner (\<lambda>ws. delete_member W now rid user ws member rq) db
         | CreateInvite i bytes now rid user raw p \<Rightarrow>
             guarded W user raw Owner (\<lambda>ws. create_invite W i bytes now rid user ws p) db
         | AcceptInvite now rid user token \<Rightarrow> no_answer (accept_invite W now rid user token db)
         | CreateLink i bytes salt now rid user raw p \<Rightarrow>
             guarded W user raw Editor (\<lambda>ws. create_share_link W i bytes salt now rid user ws p) db
         | UpdateLink now rid user raw link rq p \<Rightarrow>
             guarded W user raw Editor (\<lambda>ws. update_share_link W now rid user ws link rq p) db
         | RevokeLink now rid user raw link rq \<Rightarrow>
             guarded W user raw Owner (\<lambda>ws. revoke_share_link W now rid user ws link rq) db
         | Redeem _ _ _ _ \<Rightarrow> (Okay (), db))
      in (r, db1, lim))"

definition ws_step :: "workspace_env \<Rightarrow> workspace_db \<times> redeem_limiter \<Rightarrow> ws_op \<Rightarrow> workspace_db \<times> redeem_limiter" where
  "ws_step W st op = snd (ws_route W op st)"

section \<open>What each request does to the tables\<close>

text \<open>
  The effect of a request on workspaces, members and invites, as a relation: nothing, or one of the
  writes under the guards that let it through.
\<close>

inductive ws_effect :: "workspace_env \<Rightarrow> workspace_db \<Rightarrow> ws_op \<Rightarrow> workspace_db \<Rightarrow> bool" for W db where
  same: "wd_workspaces db' = wd_workspaces db \<Longrightarrow> wd_members db' = wd_members db \<Longrightarrow> wd_invites db' = wd_invites db \<Longrightarrow>
         ws_effect W db op db'"
| created: "wd_workspaces db' = wd_workspaces db @ [w] \<Longrightarrow>
         wd_members db' = wd_members db @ [\<lparr>mr_workspace_id = i, mr_user_id = au_user_id user, mr_role = lit ''owner'',
            mr_status = lit ''active'', mr_joined_at = now\<rparr>] \<Longrightarrow> wd_invites db' = wd_invites db \<Longrightarrow>
         wr_id w = i \<Longrightarrow> i \<notin> wr_id ` set (wd_workspaces db) \<Longrightarrow> \<not> slug_taken W (wr_slug w) (wd_workspaces db) \<Longrightarrow>
         \<not> list_ex (\<lambda>m. mr_workspace_id m = i \<and> mr_user_id m = au_user_id user) (wd_members db) \<Longrightarrow>
         ws_effect W db (CreateWorkspace i now rid user name slug) db'"
| renamed: "ws_require_role W db user raw Owner = Okay ws \<Longrightarrow> w \<in> set (wd_workspaces db) \<Longrightarrow> wr_id w = ws \<Longrightarrow> wr_id w' = ws \<Longrightarrow>
         wr_deleted_at w' = wr_deleted_at w \<Longrightarrow>
         wr_slug w' = wr_slug w \<or> \<not> slug_taken W (wr_slug w') (filter (\<lambda>x. wr_id x \<noteq> ws) (wd_workspaces db)) \<Longrightarrow>
         wd_workspaces db' = map (\<lambda>x. if wr_id x = ws then w' else x) (wd_workspaces db) \<Longrightarrow>
         wd_members db' = wd_members db \<Longrightarrow> wd_invites db' = wd_invites db \<Longrightarrow>
         ws_effect W db (UpdateWorkspace now rid user raw rq name slug) db'"
| promoted: "ws_require_role W db user raw Owner = Okay ws \<Longrightarrow> member \<noteq> au_user_id user \<Longrightarrow>
         validate_member_update p = Okay () \<Longrightarrow> update_member_read W ws member if_match p db = Okay () \<Longrightarrow>
         wd_members db' = wd_members (snd (update_member_write ws member p db)) \<Longrightarrow>
         wd_workspaces db' = wd_workspaces db \<Longrightarrow> wd_invites db' = wd_invites db \<Longrightarrow>
         ws_effect W db (UpdateMember now rid user raw member rq p) db'"
| removed: "ws_require_role W db user raw Owner = Okay ws \<Longrightarrow> member \<noteq> au_user_id user \<Longrightarrow>
         delete_member_read W ws member if_match db = Okay () \<Longrightarrow> wd_members db' = wd_members (delete_member_write ws member db) \<Longrightarrow>
         wd_workspaces db' = wd_workspaces db \<Longrightarrow> wd_invites db' = wd_invites db \<Longrightarrow>
         ws_effect W db (DeleteMember now rid user raw member rq) db'"
| invited: "ws_require_role W db user raw Owner = Okay ws \<Longrightarrow> iv_role v = lit ''editor'' \<or> iv_role v = lit ''viewer'' \<Longrightarrow>
         iv_workspace_id v = ws \<Longrightarrow> iv_id v \<notin> iv_id ` set (wd_invites db) \<Longrightarrow>
         wd_invites db' = wd_invites db @ [v] \<Longrightarrow> wd_workspaces db' = wd_workspaces db \<Longrightarrow> wd_members db' = wd_members db \<Longrightarrow>
         ws_effect W db (CreateInvite i bytes now rid user raw p) db'"
| accepted: "accept_invite_read now (hash_share_link_token W token) db = Okay v \<Longrightarrow>
         wd_members db' = upsert_member now (iv_workspace_id v) (au_user_id user) (iv_role v) (wd_members db) \<Longrightarrow>
         wd_invites db' = map (\<lambda>x. if iv_id x = iv_id v then x\<lparr>iv_accepted_at := Some now\<rparr> else x) (wd_invites db) \<Longrightarrow>
         wd_workspaces db' = wd_workspaces db \<Longrightarrow>
         ws_effect W db (AcceptInvite now rid user token) db'"

inductive_cases ws_effectE: "ws_effect W db op db'"

lemma audit_tables [simp]:
  "wd_workspaces (try_record_audit_event W now rid ws actor ty et en det db) = wd_workspaces db"
  "wd_members (try_record_audit_event W now rid ws actor ty et en det db) = wd_members db"
  "wd_invites (try_record_audit_event W now rid ws actor ty et en det db) = wd_invites db"
  "wd_links (try_record_audit_event W now rid ws actor ty et en det db) = wd_links db"
  "wd_users (try_record_audit_event W now rid ws actor ty et en det db) = wd_users db"
  by (simp_all add: try_record_audit_event_def)

lemma create_workspace_effect:
  "ws_effect W db (CreateWorkspace i now rid user name slug) (snd (create_workspace W i now rid user name slug db))"
proof (cases "fst (create_workspace_pg W i now (au_user_id user) name slug db)")
  case (Inl e)
  then show ?thesis
    by (intro ws_effect.same)
      (auto simp: create_workspace_def create_workspace_pg_def Let_def split: sum.splits prod.splits option.splits if_splits)
next
  case (Inr w)
  show ?thesis
  proof (cases "validate_name name = Okay () \<and> validate_slug slug = Okay ()")
    case True
    with Inr show ?thesis
      by (intro ws_effect.created [where w = "\<lparr>wr_id = i, wr_slug = slug, wr_name = name, wr_created_by = au_user_id user,
            wr_created_at = now, wr_updated_at = now, wr_deleted_at = None\<rparr>"])
        (auto simp: create_workspace_def create_workspace_pg_def insert_member_def list_ex_iff Let_def
          split: sum.splits prod.splits option.splits if_splits)
  next
    case False
    then show ?thesis
      by (intro ws_effect.same) (auto simp: create_workspace_def validate_name_def validate_slug_def split: if_splits)
  qed
qed

lemma update_workspace_write_tables:
  "wd_members (snd (update_workspace_write W now ws current name slug db)) = wd_members db"
  "wd_invites (snd (update_workspace_write W now ws current name slug db)) = wd_invites db"
  by (auto simp: update_workspace_write_def Let_def split: option.splits)

lemma update_workspace_cases:
  "snd (update_workspace W now rid user ws rq name slug db) = db \<or>
   (\<exists>current r. fst (update_workspace_write W now ws current name slug db) = Okay r \<and>
      wd_workspaces (snd (update_workspace W now rid user ws rq name slug db)) =
        wd_workspaces (snd (update_workspace_write W now ws current name slug db)) \<and>
      wd_members (snd (update_workspace W now rid user ws rq name slug db)) = wd_members db \<and>
      wd_invites (snd (update_workspace W now rid user ws rq name slug db)) = wd_invites db)"
proof (cases "\<exists>m current. extract_if_match rq = Okay m \<and> update_workspace_read W (au_user_id user) ws m db = Okay current \<and>
    (case name of None \<Rightarrow> Okay () | Some v \<Rightarrow> validate_name v) = Okay () \<and>
    (case slug of None \<Rightarrow> Okay () | Some v \<Rightarrow> validate_slug v) = Okay ()")
  case True
  then obtain m current where m: "extract_if_match rq = Okay m" "update_workspace_read W (au_user_id user) ws m db = Okay current"
    "(case name of None \<Rightarrow> Okay () | Some v \<Rightarrow> validate_name v) = Okay ()"
    "(case slug of None \<Rightarrow> Okay () | Some v \<Rightarrow> validate_slug v) = Okay ()" by blast
  obtain r db1 where w: "update_workspace_write W now ws current name slug db = (r, db1)" by fastforce
  have t: "wd_members db1 = wd_members db" "wd_invites db1 = wd_invites db"
    using update_workspace_write_tables [of W now ws current name slug db] w by auto
  show ?thesis
  proof (cases r)
    case (Inl e)
    then have "db1 = db" using w by (auto simp: update_workspace_write_def Let_def split: option.splits if_splits)
    then show ?thesis using m w Inl by (simp add: update_workspace_def)
  next
    case (Inr x)
    then show ?thesis using m w t by (intro disjI2 exI [of _ current] exI [of _ x]) (simp add: update_workspace_def)
  qed
next
  case False
  then show ?thesis by (auto simp: update_workspace_def split: sum.splits)
qed

lemma update_workspace_effect:
  assumes "ws_require_role W db user raw Owner = Okay ws"
  shows "ws_effect W db (UpdateWorkspace now rid user raw rq name slug) (snd (update_workspace W now rid user ws rq name slug db))"
  using update_workspace_cases [of W now rid user ws rq name slug db]
proof (elim disjE exE conjE)
  assume "snd (update_workspace W now rid user ws rq name slug db) = db"
  then show ?thesis by (intro ws_effect.same) simp_all
next
  fix current r
  assume r: "fst (update_workspace_write W now ws current name slug db) = Okay r"
    and t: "wd_workspaces (snd (update_workspace W now rid user ws rq name slug db)) =
        wd_workspaces (snd (update_workspace_write W now ws current name slug db))"
      "wd_members (snd (update_workspace W now rid user ws rq name slug db)) = wd_members db"
      "wd_invites (snd (update_workspace W now rid user ws rq name slug db)) = wd_invites db"
  obtain w where f: "find (\<lambda>w. wr_id w = ws \<and> wr_deleted_at w = None \<and> wr_updated_at w = wc_updated_at current) (wd_workspaces db) = Some w"
    using r by (auto simp: update_workspace_write_def split: option.splits)
  then have w: "w \<in> set (wd_workspaces db)" "wr_id w = ws" by (auto simp: find_Some_iff)
  let ?w = "w\<lparr>wr_name := (case name of None \<Rightarrow> wr_name w | Some v \<Rightarrow> v),
              wr_slug := (case slug of None \<Rightarrow> wr_slug w | Some v \<Rightarrow> v),
              wr_updated_at := (if name = None \<and> slug = None then wr_updated_at w else now)\<rparr>"
  show ?thesis
    by (rule ws_effect.renamed [OF assms w(1,2), where w' = ?w])
      (use r t w(2) f in \<open>auto simp: update_workspace_write_def Let_def split: option.splits if_splits\<close>)
qed

lemma update_member_effect:
  assumes "ws_require_role W db user raw Owner = Okay ws"
  shows "ws_effect W db (UpdateMember now rid user raw member rq p) (snd (update_member W now rid user ws member rq p db))"
proof (cases "validate_member_update p = Okay () \<and> member \<noteq> au_user_id user \<and>
    (\<exists>m. extract_if_match rq = Okay m \<and> update_member_read W ws member m p db = Okay ())")
  case True
  then obtain m where m: "validate_member_update p = Okay ()" "member \<noteq> au_user_id user" "extract_if_match rq = Okay m"
      "update_member_read W ws member m p db = Okay ()" by blast
  show ?thesis
    by (rule ws_effect.promoted [OF assms m(2,1,4)])
      (use m in \<open>auto simp: update_member_def update_member_write_def Let_def split: sum.splits prod.splits option.splits\<close>)
next
  case False
  then show ?thesis
    by (intro ws_effect.same) (auto simp: update_member_def split: sum.splits if_splits)
qed

lemma delete_member_effect:
  assumes "ws_require_role W db user raw Owner = Okay ws"
  shows "ws_effect W db (DeleteMember now rid user raw member rq) (snd (delete_member W now rid user ws member rq db))"
proof (cases "member \<noteq> au_user_id user \<and> (\<exists>m. extract_if_match rq = Okay m \<and> delete_member_read W ws member m db = Okay ())")
  case True
  then obtain m where m: "member \<noteq> au_user_id user" "extract_if_match rq = Okay m" "delete_member_read W ws member m db = Okay ()"
    by blast
  show ?thesis
    by (rule ws_effect.removed [OF assms m(1,3)]) (use m in \<open>auto simp: delete_member_def delete_member_write_def\<close>)
next
  case False
  then show ?thesis by (intro ws_effect.same) (auto simp: delete_member_def split: sum.splits if_splits)
qed

lemma create_invite_effect:
  assumes "ws_require_role W db user raw Owner = Okay ws"
  shows "ws_effect W db (CreateInvite i bytes now rid user raw p) (snd (create_invite W i bytes now rid user ws p db))"
proof (cases "validate_invite_request p = Okay () \<and> \<not> list_ex (\<lambda>v. iv_id v = i) (wd_invites db)")
  case True
  have r: "iq_role p = lit ''editor'' \<or> iq_role p = lit ''viewer''"
    using True by (auto simp: validate_invite_request_def split: if_splits)
  obtain v where v: "create_invite_pg i now ws (au_user_id user) p (hash_share_link_token W (we_base64url W bytes))
      (now + int (case iq_expires_in_hours p of Some h \<Rightarrow> h | None \<Rightarrow> DEFAULT_INVITE_EXPIRY_HOURS) * 3600000000) db =
      (Okay v, db\<lparr>wd_invites := wd_invites db @ [v]\<rparr>)" "iv_id v = i" "iv_role v = iq_role p" "iv_workspace_id v = ws"
    using True by (auto simp: create_invite_pg_def Let_def)
  show ?thesis
    by (rule ws_effect.invited [OF assms, of v])
      (use True v r in \<open>auto simp: create_invite_def Let_def list_ex_iff\<close>)
next
  case False
  then show ?thesis
    by (intro ws_effect.same)
      (auto simp: create_invite_def create_invite_pg_def Let_def split: sum.splits prod.splits if_splits)
qed

lemma accept_invite_effect: "ws_effect W db (AcceptInvite now rid user token) (snd (accept_invite W now rid user token db))"
proof (cases "accept_invite_read now (hash_share_link_token W token) db")
  case (Inr v)
  show ?thesis
    by (rule ws_effect.accepted [OF Inr]) (simp_all add: accept_invite_def Inr accept_invite_write_def)
qed (auto simp: accept_invite_def intro: ws_effect.same)

lemma link_tables:
  "wd_workspaces (snd (create_share_link W i bytes salt now rid user ws lp db)) = wd_workspaces db"
  "wd_members (snd (create_share_link W i bytes salt now rid user ws lp db)) = wd_members db"
  "wd_invites (snd (create_share_link W i bytes salt now rid user ws lp db)) = wd_invites db"
  "wd_workspaces (snd (update_share_link W now rid user ws link rq p db)) = wd_workspaces db"
  "wd_members (snd (update_share_link W now rid user ws link rq p db)) = wd_members db"
  "wd_invites (snd (update_share_link W now rid user ws link rq p db)) = wd_invites db"
  "wd_workspaces (snd (revoke_share_link W now rid user ws link rq db)) = wd_workspaces db"
  "wd_members (snd (revoke_share_link W now rid user ws link rq db)) = wd_members db"
  "wd_invites (snd (revoke_share_link W now rid user ws link rq db)) = wd_invites db"
  by (auto simp: create_share_link_def create_share_link_pg_def update_share_link_def update_share_link_write_def
      revoke_share_link_def revoke_share_link_write_def Let_def split: sum.splits prod.splits option.splits if_splits)

lemma redeem_tables:
  "wd_workspaces (fst (snd (redeem_share_link W tick now token password st))) = wd_workspaces (fst st)"
  "wd_members (fst (snd (redeem_share_link W tick now token password st))) = wd_members (fst st)"
  "wd_invites (fst (snd (redeem_share_link W tick now token password st))) = wd_invites (fst st)"
  by (auto simp: redeem_share_link_def increment_share_link_use_count_def Let_def split: sum.splits prod.splits if_splits)

lemma guarded_effect:
  assumes "\<And>ws. ws_require_role W db user raw r = Okay ws \<Longrightarrow> ws_effect W db op (snd (handler ws db))"
  shows "ws_effect W db op (snd (guarded W user raw r handler db))"
  using assms by (auto simp: guarded_def no_answer_def split: sum.splits intro: ws_effect.same)

lemma ws_step_effect: "ws_effect W (fst st) op (fst (ws_step W st op))"
proof (cases st)
  case (Pair db lim)
  have "ws_effect W db op (fst (snd (ws_route W op (db, lim))))"
  proof (cases op)
    case (Redeem tick now token password)
    then show ?thesis using redeem_tables [of W tick now token password "(db, lim)"]
      by (auto simp: no_answer_def intro: ws_effect.same)
  qed (auto simp: split_beta no_answer_def create_workspace_effect accept_invite_effect link_tables
      intro!: guarded_effect update_workspace_effect update_member_effect delete_member_effect create_invite_effect
      intro: ws_effect.same)
  then show ?thesis by (simp add: Pair ws_step_def)
qed

section \<open>Well-formed tables\<close>

definition members_ok :: "uuid set \<Rightarrow> member_row list \<Rightarrow> bool" where
  "members_ok ids ms \<longleftrightarrow>
     distinct (map (\<lambda>m. (mr_workspace_id m, mr_user_id m)) ms) \<and>
     list_all (\<lambda>m. mr_role m \<in> set role_names \<and> mr_status m \<in> set status_names \<and> mr_workspace_id m \<in> ids) ms"

definition invites_ok :: "uuid set \<Rightarrow> invite_row list \<Rightarrow> bool" where
  "invites_ok ids vs \<longleftrightarrow>
     distinct (map iv_id vs) \<and>
     list_all (\<lambda>v. (iv_role v = lit ''editor'' \<or> iv_role v = lit ''viewer'') \<and> iv_workspace_id v \<in> ids) vs"

definition slugs_ok :: "workspace_env \<Rightarrow> workspace_row list \<Rightarrow> bool" where
  "slugs_ok W ws \<longleftrightarrow> distinct (map wr_id ws) \<and> distinct (map (\<lambda>w. we_lower W (wr_slug w)) ws)"

definition ws_tables_ok :: "workspace_env \<Rightarrow> workspace_db \<Rightarrow> bool" where
  "ws_tables_ok W db \<longleftrightarrow>
     slugs_ok W (wd_workspaces db) \<and> members_ok (wr_id ` set (wd_workspaces db)) (wd_members db) \<and>
     invites_ok (wr_id ` set (wd_workspaces db)) (wd_invites db)"

lemma ids_mono:
  "members_ok A ms \<Longrightarrow> A \<subseteq> B \<Longrightarrow> members_ok B ms" "invites_ok A vs \<Longrightarrow> A \<subseteq> B \<Longrightarrow> invites_ok B vs"
  by (auto simp: members_ok_def invites_ok_def list_all_iff)

lemma rename_ids:
  assumes "wr_id w' = ws"
  shows "wr_id ` set (map (\<lambda>x. if wr_id x = ws then w' else x) l) = wr_id ` set l"
proof -
  have "map wr_id (map (\<lambda>x. if wr_id x = ws then w' else x) l) = map wr_id l" using assms by (induction l) auto
  then show ?thesis by (metis list.set_map)
qed

lemma slugs_ok_rename:
  assumes "slugs_ok W ws" "w \<in> set ws" "wr_id w' = wr_id w"
    "wr_slug w' = wr_slug w \<or> \<not> slug_taken W (wr_slug w') (filter (\<lambda>x. wr_id x \<noteq> wr_id w) ws)"
  shows "slugs_ok W (map (\<lambda>x. if wr_id x = wr_id w then w' else x) ws)"
proof -
  let ?f = "\<lambda>x. if wr_id x = wr_id w then w' else x"
  have d: "distinct (map wr_id ws)" "distinct (map (\<lambda>w. we_lower W (wr_slug w)) ws)" using assms(1) by (auto simp: slugs_ok_def)
  have ids: "map wr_id (map ?f ws) = map wr_id ws" using assms(3) by (induction ws) auto
  have uniq: "x = w" if "x \<in> set ws" "wr_id x = wr_id w" for x
    using d(1) assms(2) that by (meson distinct_map inj_onD)
  have "inj_on (\<lambda>x. we_lower W (wr_slug (?f x))) (set ws)"
  proof (rule inj_onI)
    fix x y
    assume xy: "x \<in> set ws" "y \<in> set ws" "we_lower W (wr_slug (?f x)) = we_lower W (wr_slug (?f y))"
    have slug: "we_lower W (wr_slug z) = we_lower W (wr_slug w') \<Longrightarrow> z \<in> set ws \<Longrightarrow> wr_id z \<noteq> wr_id w \<Longrightarrow> False" for z
      using assms(4)
    proof
      assume "wr_slug w' = wr_slug w" "we_lower W (wr_slug z) = we_lower W (wr_slug w')" "z \<in> set ws" "wr_id z \<noteq> wr_id w"
      then show False using d(2) assms(2) by (metis distinct_map inj_onD)
    qed (auto simp: slug_taken_def list_ex_iff)
    show "x = y"
    proof (cases "wr_id x = wr_id w"; cases "wr_id y = wr_id w")
      assume "wr_id x \<noteq> wr_id w" "wr_id y \<noteq> wr_id w"
      then show ?thesis using xy d(2) by (auto simp: distinct_map dest: inj_onD)
    qed (use xy uniq slug in auto)
  qed
  then have "distinct (map (\<lambda>x. we_lower W (wr_slug (?f x))) ws)" using d(1) by (simp add: distinct_map)
  then show ?thesis using d(1) ids by (simp add: slugs_ok_def comp_def del: map_map) (simp add: comp_def)
qed

lemma members_ok_map:
  assumes "members_ok ids ms" "\<And>m. m \<in> set ms \<Longrightarrow> mr_workspace_id (f m) = mr_workspace_id m \<and> mr_user_id (f m) = mr_user_id m \<and>
      mr_role (f m) \<in> set role_names \<and> mr_status (f m) \<in> set status_names"
  shows "members_ok ids (map f ms)"
proof -
  have "map (\<lambda>m. (mr_workspace_id m, mr_user_id m)) (map f ms) = map (\<lambda>m. (mr_workspace_id m, mr_user_id m)) ms"
    using assms(2) by simp
  then show ?thesis using assms unfolding members_ok_def by (simp add: list_all_iff del: map_map)
qed

lemma names_ok: "lit ''owner'' \<in> set role_names" "lit ''editor'' \<in> set role_names" "lit ''viewer'' \<in> set role_names"
  "lit ''active'' \<in> set status_names"
  by (simp_all add: role_names_def status_names_def)

lemma members_ok_upsert:
  assumes "members_ok ids ms" "ws \<in> ids" "r \<in> set role_names"
  shows "members_ok ids (upsert_member now ws u r ms)"
proof (cases "list_ex (\<lambda>m. mr_workspace_id m = ws \<and> mr_user_id m = u) ms")
  case True
  have "members_ok ids (map (\<lambda>m. if mr_workspace_id m = ws \<and> mr_user_id m = u
      then m\<lparr>mr_role := r, mr_status := lit ''active''\<rparr> else m) ms)"
    by (rule members_ok_map [OF assms(1)]) (use assms names_ok in \<open>auto simp: members_ok_def list_all_iff\<close>)
  then show ?thesis using True by (simp add: upsert_member_def)
next
  case False
  then show ?thesis using assms names_ok by (auto simp: upsert_member_def members_ok_def list_ex_iff)
qed

lemma accept_invite_read_SomeD:
  assumes "accept_invite_read now h db = Okay v"
  shows "v \<in> set (wd_invites db) \<and> iv_token_hash v = h \<and> iv_accepted_at v = None \<and> now \<le> iv_expires_at v"
  using assms by (auto simp: accept_invite_read_def find_Some_iff split: option.splits if_splits)

lemma members_ok_update:
  assumes "members_ok ids (wd_members db)" "validate_member_update p = Okay ()"
  shows "members_ok ids (wd_members (snd (update_member_write ws member p db)))"
proof -
  have "\<And>r. mu_role p = Some r \<Longrightarrow> r \<in> set role_names" "\<And>s. mu_status p = Some s \<Longrightarrow> s \<in> set status_names"
    using assms(2) by (auto simp: validate_member_update_def split: if_splits option.splits)
  then have "members_ok ids (map (\<lambda>m. if mr_workspace_id m = ws \<and> mr_user_id m = member
      then m\<lparr>mr_role := (case mu_role p of None \<Rightarrow> mr_role m | Some r \<Rightarrow> r),
             mr_status := (case mu_status p of None \<Rightarrow> mr_status m | Some s \<Rightarrow> s)\<rparr> else m) (wd_members db))"
    using assms(1) by (intro members_ok_map [OF assms(1)]) (auto simp: members_ok_def list_all_iff split: option.splits)
  then show ?thesis using assms(1) by (simp add: update_member_write_def Let_def split: option.splits)
qed

lemma require_live:
  assumes "ws_require_role W db user raw r = Okay ws"
  shows "ws \<in> wr_id ` set (wd_workspaces db)"
  using assms
  by (auto simp: ws_require_role_def ws_role_for_user_def live_workspace_def find_Some_iff split: option.splits sum.splits if_splits)

lemma ws_effect_tables:
  assumes "ws_effect W db op db'" "ws_tables_ok W db"
  shows "ws_tables_ok W db'"
  using assms(1)
proof cases
  case (created w i user now rid name slug)
  have "slugs_ok W (wd_workspaces db @ [w])"
    using assms(2) created by (auto simp: ws_tables_ok_def slugs_ok_def slug_taken_def list_ex_iff)
  moreover have "members_ok (wr_id ` set (wd_workspaces db @ [w])) (wd_members db)"
    "invites_ok (wr_id ` set (wd_workspaces db @ [w])) (wd_invites db)"
    using assms(2) by (auto simp: ws_tables_ok_def intro: ids_mono)
  ultimately show ?thesis
    using created names_ok by (auto simp: ws_tables_ok_def members_ok_def list_ex_iff)
next
  case (renamed user raw ws w w' now rid rq name slug)
  have ids: "wr_id ` set (wd_workspaces db') = wr_id ` set (wd_workspaces db)"
    using rename_ids [OF renamed(5)] renamed by (simp del: set_map)
  have "slugs_ok W (wd_workspaces db')"
    using slugs_ok_rename [of W "wd_workspaces db" w w'] renamed assms(2) by (simp add: ws_tables_ok_def)
  then show ?thesis using assms(2) ids renamed by (simp add: ws_tables_ok_def)
next
  case (promoted user raw ws member p if_match now rid rq)
  then show ?thesis using assms(2) members_ok_update by (simp add: ws_tables_ok_def)
next
  case (removed user raw ws member if_match now rid rq)
  then show ?thesis using assms(2) by (auto simp: ws_tables_ok_def members_ok_def delete_member_write_def list_all_iff distinct_map_filter)
next
  case (invited user raw ws v i bytes now rid p)
  then show ?thesis using assms(2) require_live [OF invited(2)] by (auto simp: ws_tables_ok_def invites_ok_def)
next
  case (accepted now token v user rid)
  note v = accept_invite_read_SomeD [OF accepted(2)]
  have r: "iv_role v \<in> set role_names" "iv_workspace_id v \<in> wr_id ` set (wd_workspaces db)"
    using assms(2) v names_ok by (auto simp: ws_tables_ok_def invites_ok_def list_all_iff)
  have m: "map iv_id (map (\<lambda>x. if iv_id x = iv_id v then x\<lparr>iv_accepted_at := Some now\<rparr> else x) vs) = map iv_id vs" for vs
    by simp
  have "invites_ok (wr_id ` set (wd_workspaces db)) (wd_invites db')"
    using assms(2) unfolding ws_tables_ok_def invites_ok_def accepted m by (auto simp: list_all_iff)
  then show ?thesis using members_ok_upsert [OF _ r(2,1)] assms(2) accepted by (simp add: ws_tables_ok_def)
qed (use assms(2) in \<open>simp add: ws_tables_ok_def\<close>)

definition empty_workspaces :: "user_row list \<Rightarrow> workspace_db" where
  "empty_workspaces users =
     \<lparr>wd_workspaces = [], wd_members = [], wd_links = [], wd_invites = [], wd_users = users, wd_audit = []\<rparr>"

interpretation ws_tables: init_system "ws_step W" "\<lambda>_ _. True" "\<lambda>st. ws_tables_ok W (fst st)" "(empty_workspaces users, [])" for W users
  by unfold_locales (rule ws_effect_tables [OF ws_step_effect], assumption,
    simp add: ws_tables_ok_def empty_workspaces_def slugs_ok_def members_ok_def invites_ok_def)

theorem workspace_tables_well_formed:
  "ws_tables_ok W (fst (foldl (ws_step W) (empty_workspaces users, []) ops))"
  by (rule ws_tables.inv_reachable) simp

section \<open>Owners\<close>

definition is_owner_of :: "workspace_db \<Rightarrow> uuid \<Rightarrow> uuid \<Rightarrow> bool" where
  "is_owner_of db ws u \<longleftrightarrow> list_ex (\<lambda>m. mr_workspace_id m = ws \<and> mr_user_id m = u \<and> mr_role m = lit ''owner'') (wd_members db)"

lemma invite_role_no_owner:
  assumes "ws_tables_ok W db" "v \<in> set (wd_invites db)"
  shows "iv_role v \<noteq> lit ''owner''"
  using assms by (auto simp: ws_tables_ok_def invites_ok_def list_all_iff lit_def)

lemma require_owner:
  assumes "ws_require_role W db user raw Owner = Okay ws"
  shows "is_owner_of db ws (au_user_id user)"
proof -
  have "active_role (wd_members db) (au_user_id user) ws = Some (lit ''owner'')"
    using assms
    by (auto simp: ws_require_role_def ws_role_for_user_def role_from_db_value_def allows_def less_eq_workspace_role_def
        split: option.splits sum.splits if_splits)
  then show ?thesis by (auto simp: active_role_def is_owner_of_def list_ex_iff find_Some_iff)
qed

lemma update_write_owner:
  assumes "is_owner_of db' ws u" "wd_members db' = wd_members (snd (update_member_write ws0 member p db))"
  shows "is_owner_of db ws u \<or> ws = ws0 \<and> u = member \<and> mu_role p = Some (lit ''owner'')"
  using assms by (auto simp: is_owner_of_def list_ex_iff update_member_write_def Let_def split: option.splits if_splits)

text \<open>How a user can come to own a workspace.\<close>

lemma ws_effect_owner:
  assumes "ws_effect W db op db'" "ws_tables_ok W db" "is_owner_of db' ws u" "\<not> is_owner_of db ws u"
  shows "(\<exists>now rid user name slug. op = CreateWorkspace ws now rid user name slug \<and> au_user_id user = u \<and>
            ws \<notin> wr_id ` set (wd_workspaces db)) \<or>
         (\<exists>now rid user raw rq p. op = UpdateMember now rid user raw u rq p \<and> mu_role p = Some (lit ''owner'') \<and>
            ws_require_role W db user raw Owner = Okay ws)"
  using assms(1)
proof cases
  case (promoted user raw ws0 member p if_match now rid rq)
  then show ?thesis using update_write_owner [OF assms(3) promoted(6)] assms(4) by auto
next
  case (removed user raw ws0 member if_match now rid rq)
  then show ?thesis using assms(3,4) by (auto simp: is_owner_of_def list_ex_iff delete_member_write_def)
next
  case (accepted now token v user rid)
  have "iv_role v \<noteq> lit ''owner''"
    using accept_invite_read_SomeD [OF accepted(2)] invite_role_no_owner [OF assms(2)] by blast
  then have False using assms(3,4) accepted(3)
    by (auto simp: is_owner_of_def list_ex_iff upsert_member_def split: if_splits)
  then show ?thesis ..
qed (use assms(3,4) in \<open>auto simp: is_owner_of_def\<close>)

text \<open>
  (C33) Ownership is granted. A request makes a user an owner of a workspace only if it is the request
  by which that user creates the workspace, or an update of that member to the role of owner by a
  caller who is an owner of it; invites, share links and everything else never do.
\<close>

theorem ownership_is_granted:
  assumes "ws_tables_ok W (fst st)" "\<not> is_owner_of (fst st) ws u" "is_owner_of (fst (ws_step W st op)) ws u"
  shows "(\<exists>now rid user name slug. op = CreateWorkspace ws now rid user name slug \<and> au_user_id user = u \<and>
            ws \<notin> wr_id ` set (wd_workspaces (fst st))) \<or>
         (\<exists>now rid user raw rq p. op = UpdateMember now rid user raw u rq p \<and> mu_role p = Some (lit ''owner'') \<and>
            is_owner_of (fst st) ws (au_user_id user))"
  using ws_effect_owner [OF ws_step_effect assms(1,3,2)]
  by (elim disjE exE conjE) (auto dest: require_owner)

end
