(* ===== verification/Redeem.thy ===== *)
theory Redeem
  imports ShareLinks
begin

text \<open>
  The limits on the redemption of a share link: requests that are served one after the other never
  exceed the number of uses, requests that are interleaved do.
\<close>

section \<open>One after the other\<close>

abbreviation link_of :: "byte list \<Rightarrow> workspace_db \<Rightarrow> share_link_row option" where
  "link_of h db \<equiv> find (\<lambda>l. sl_token_hash l = h) (wd_links db)"

lemma find_map_keep:
  assumes "\<And>x. P (f x) = P x"
  shows "find P (map f xs) = map_option f (find P xs)"
  using assms by (induction xs) auto

lemma increment_link:
  assumes "increment_share_link_use_count i db = (Okay (), db')"
  shows "link_of h db' = map_option (\<lambda>l. if sl_id l = i then l\<lparr>sl_use_count := sl_use_count l + 1\<rparr> else l) (link_of h db)"
proof -
  have "wd_links db' = map (\<lambda>l. if sl_id l = i then l\<lparr>sl_use_count := sl_use_count l + 1\<rparr> else l) (wd_links db)"
    using assms by (auto simp: increment_share_link_use_count_def split: if_splits)
  then show ?thesis by (simp only:) (rule find_map_keep, simp)
qed

lemma increment_Err: "increment_share_link_use_count i db = (Err e, db') \<Longrightarrow> db' = db"
  by (auto simp: increment_share_link_use_count_def split: if_splits)

lemma redeem_lookup_Okay:
  assumes "redeem_lookup W now h password db = Okay l"
  shows "link_of h db = Some l \<and> redeem_check W now password l = Okay ()"
  using assms
  by (cases "link_of h db"; cases "redeem_check W now password (the (link_of h db))") (auto simp: redeem_lookup_def)

lemma redeem_check_uses:
  assumes "redeem_check W now password l = Okay ()"
  shows "\<not> sl_disabled l \<and> sl_revoked_at l = None \<and> (\<forall>t. sl_expires_at l = Some t \<longrightarrow> now \<le> t) \<and>
    (\<forall>n. sl_max_uses l = Some n \<longrightarrow> sl_use_count l < n) \<and>
    (\<forall>h. sl_password_hash l = Some h \<longrightarrow> we_argon_verify W (as_bytes (case password of Some p \<Rightarrow> p | None \<Rightarrow> [])) h = Some True)"
  using assms
  by (auto simp: redeem_check_def verify_share_link_password_def not_less not_le split: if_splits option.splits bool.splits)

text \<open>A request is answered from the link as it was, and counts itself; a refused one changes nothing.\<close>

lemma redeem_Okay:
  assumes "redeem_share_link W tick now token password (db, lim) = (Okay a, db', lim')"
  shows "\<exists>l. link_of (hash_share_link_token W token) db = Some l \<and> redeem_check W now password l = Okay () \<and>
    a = redeem_answer l \<and> link_of (hash_share_link_token W token) db' = Some (l\<lparr>sl_use_count := sl_use_count l + 1\<rparr>)"
proof -
  obtain l where l: "redeem_lookup W now (hash_share_link_token W token) password db = Okay l" "a = redeem_answer l"
      "increment_share_link_use_count (sl_id l) db = (Okay (), db')"
    using assms by (auto simp: redeem_share_link_def Let_def split: prod.splits if_splits sum.splits)
  show ?thesis
    using redeem_lookup_Okay [OF l(1)] increment_link [OF l(3), of "hash_share_link_token W token"] l(2) by auto
qed

lemma redeem_Err: "redeem_share_link W tick now token password (db, lim) = (Err e, db', lim') \<Longrightarrow> db' = db"
  by (auto simp: redeem_share_link_def Let_def split: prod.splits if_splits sum.splits dest: increment_Err)

fun redeem_run ::
  "workspace_env \<Rightarrow> rstr \<Rightarrow> (nat \<times> micros \<times> rstr option) list \<Rightarrow> workspace_db \<times> redeem_limiter \<Rightarrow> (api_error, redeem_response) result list" where
  "redeem_run W token [] st = []"
| "redeem_run W token ((tick, now, password) # rs) st =
     (let (r, st') = redeem_share_link W tick now token password st in r # redeem_run W token rs st')"

definition granted :: "('e, 'a) result list \<Rightarrow> nat" where
  "granted rs = length (filter (\<lambda>r. \<not> isl r) rs)"

text \<open>
  Redemptions are counted. Of any number of redemptions of a token that are served one after the
  other, with any passwords and at any times, at most as many succeed as the link had uses left.
\<close>

theorem redeem_at_most_max_uses:
  assumes "link_of (hash_share_link_token W token) db = Some l" "sl_max_uses l = Some n"
  shows "granted (redeem_run W token reqs (db, lim)) \<le> nat (n - sl_use_count l)"
  using assms
proof (induction reqs arbitrary: db lim l)
  case (Cons q reqs)
  obtain tick now password where q: "q = (tick, now, password)" by (cases q)
  obtain r db' lim' where r: "redeem_share_link W tick now token password (db, lim) = (r, db', lim')" by (metis prod.exhaust)
  show ?case
  proof (cases r)
    case (Inl e)
    then have "db' = db" using redeem_Err r by simp
    then show ?thesis using Cons r q Inl by (simp add: granted_def)
  next
    case (Inr a)
    then have l: "redeem_check W now password l = Okay ()"
        "link_of (hash_share_link_token W token) db' = Some (l\<lparr>sl_use_count := sl_use_count l + 1\<rparr>)"
      using redeem_Okay [of W tick now token password db lim a db' lim'] r Cons.prems(1) by auto
    have "sl_use_count l < n" using redeem_check_uses [OF l(1)] Cons.prems(2) by blast
    moreover have "granted (redeem_run W token reqs (db', lim')) \<le> nat (n - (sl_use_count l + 1))"
      using Cons.IH [OF l(2)] Cons.prems(2) by simp
    ultimately show ?thesis using r q Inr by (simp add: granted_def)
  qed
qed (simp add: granted_def)

section \<open>Interleaved\<close>

text \<open>
  The schedule of several requests for one token in which each handler runs to the end of its
  lookup before any of them increments: the limiter's turns, and the increments.
\<close>

fun admit_all :: "nat \<Rightarrow> nat \<Rightarrow> byte list \<Rightarrow> redeem_limiter \<Rightarrow> bool list \<times> redeem_limiter" where
  "admit_all 0 tick h lim = ([], lim)"
| "admit_all (Suc k) tick h lim =
     (let (b, lim1) = redeem_admit tick h lim; (bs, lim2) = admit_all k tick h lim1 in (b # bs, lim2))"

fun increment_all :: "nat \<Rightarrow> uuid \<Rightarrow> workspace_db \<Rightarrow> (api_error, unit) result list \<times> workspace_db" where
  "increment_all 0 i db = ([], db)"
| "increment_all (Suc k) i db =
     (let (r, db1) = increment_share_link_use_count i db; (rs, db2) = increment_all k i db1 in (r # rs, db2))"

lemma admit_all_fresh:
  assumes "map_of lim h = (if c = 0 then None else Some \<lparr>re_count = c, re_window_start = tick\<rparr>)" "c + k \<le> 5"
  shows "fst (admit_all k tick h lim) = replicate k True"
  using assms
proof (induction k arbitrary: c lim)
  case (Suc k)
  have a: "redeem_admit tick h lim = (True, AList.update h \<lparr>re_count = c + 1, re_window_start = tick\<rparr> lim)"
    using Suc.prems by (simp add: redeem_admit_def Let_def REDEEM_RATE_LIMIT_WINDOW_SECS_def REDEEM_RATE_LIMIT_MAX_def u32_def)
  have "fst (admit_all k tick h (AList.update h \<lparr>re_count = c + 1, re_window_start = tick\<rparr> lim)) = replicate k True"
    by (rule Suc.IH [of _ "c + 1"]) (use Suc.prems in \<open>simp_all add: update_conv'\<close>)
  then show ?case by (simp add: a split_beta)
qed simp

lemma increment_all_counts:
  assumes "distinct (map sl_id (wd_links db))" "link_of h db = Some l" "sl_use_count l + int k \<le> 2147483647"
  shows "fst (increment_all k (sl_id l) db) = replicate k (Okay ()) \<and>
    link_of h (snd (increment_all k (sl_id l) db)) = Some (l\<lparr>sl_use_count := sl_use_count l + int k\<rparr>)"
  using assms
proof (induction k arbitrary: db l)
  case (Suc k)
  have l: "l \<in> set (wd_links db)" using Suc.prems(2) by (auto simp: find_Some_iff)
  have "sl_use_count x < 2147483647" if "x \<in> set (wd_links db)" "sl_id x = sl_id l" for x
  proof -
    have "x = l" using Suc.prems(1) l that by (metis distinct_map inj_onD)
    then show ?thesis using Suc.prems(3) by simp
  qed
  then have "\<not> list_ex (\<lambda>x. sl_id x = sl_id l \<and> sl_use_count x \<ge> 2147483647) (wd_links db)"
    by (auto simp: list_ex_iff not_le)
  then obtain db1 where inc: "increment_share_link_use_count (sl_id l) db = (Okay (), db1)"
      "wd_links db1 = map (\<lambda>x. if sl_id x = sl_id l then x\<lparr>sl_use_count := sl_use_count x + 1\<rparr> else x) (wd_links db)"
    by (simp add: increment_share_link_use_count_def)
  have "map sl_id (wd_links db1) = map sl_id (wd_links db)" unfolding inc(2) by simp
  moreover have "link_of h db1 = Some (l\<lparr>sl_use_count := sl_use_count l + 1\<rparr>)"
    using increment_link [OF inc(1), of h] Suc.prems(2) by simp
  ultimately show ?case
    using Suc.IH [of db1 "l\<lparr>sl_use_count := sl_use_count l + 1\<rparr>"] Suc.prems inc(1)
    by (simp add: split_beta algebra_simps)
qed simp

text \<open>
  Interleaved redemptions are not limited. When up to five requests for a token that was not
  tried before look the link up before any of them increments its count, the limiter admits all of
  them, all succeed, and the use count of the link exceeds its maximum.
\<close>

theorem concurrent_redeem_exceeds_max_uses:
  assumes "distinct (map sl_id (wd_links db))" "h = hash_share_link_token W token" "map_of lim h = None"
    and "redeem_lookup W now h password db = Okay l" "sl_max_uses l = Some n" "n < sl_use_count l + int k"
    and "k \<le> 5" "sl_use_count l + int k \<le> 2147483647"
  shows "fst (admit_all k tick h lim) = replicate k True \<and>
    fst (increment_all k (sl_id l) db) = replicate k (Okay ()) \<and>
    (\<exists>l'. link_of h (snd (increment_all k (sl_id l) db)) = Some l' \<and> sl_max_uses l' = Some n \<and> n < sl_use_count l')"
proof -
  have "fst (admit_all k tick h lim) = replicate k True" by (rule admit_all_fresh [where c = 0]) (use assms in auto)
  then show ?thesis
    using increment_all_counts [of db h l k] redeem_lookup_Okay [OF assms(4)] assms by auto
qed

section \<open>A link for one use\<close>

definition demo_wenv :: workspace_env where
  "demo_wenv = \<lparr>we_api = demo_api, we_lower = id, we_base64url = map unat, we_argon_hash = \<lambda>p salt. Some (map unat p),
     we_argon_verify = \<lambda>p h. Some (map unat p = h), we_share_base = None, we_date_text = show_int\<rparr>"

definition demo_link :: share_link_row where
  "demo_link = \<lparr>sl_id = 50, sl_workspace_id = 10, sl_target_type = lit ''workspace'', sl_target_id = 10,
     sl_permission = lit ''edit'', sl_token_hash = [97], sl_password_hash = None, sl_expires_at = Some 90,
     sl_max_uses = Some 1, sl_use_count = 0, sl_disabled = False, sl_created_by = 2, sl_created_at = 5, sl_revoked_at = None\<rparr>"

definition demo_links :: workspace_db where
  "demo_links = \<lparr>wd_workspaces = [], wd_members = [], wd_links = [demo_link], wd_invites = [], wd_users = [], wd_audit = []\<rparr>"

lemma demo_hash: "hash_share_link_token demo_wenv [97] = [97]"
  by (simp add: hash_share_link_token_def demo_wenv_def demo_api_def as_bytes_def utf8_char_def)

theorem redeem_at_most_max_uses_witness:
  "granted (redeem_run demo_wenv [97] [(3, 7, None), (4, 8, None), (5, 9, Some [98])] (demo_links, [])) \<le> 1"
proof -
  have "link_of (hash_share_link_token demo_wenv [97]) demo_links = Some demo_link" "sl_max_uses demo_link = Some 1"
      "sl_use_count demo_link = 0"
    by (simp_all add: demo_hash demo_links_def demo_link_def)
  then show ?thesis using redeem_at_most_max_uses [of demo_wenv "[97]" demo_links demo_link 1] by (simp del: redeem_run.simps)
qed

theorem concurrent_redeem_exceeds_max_uses_witness:
  "\<exists>l. link_of [97] (snd (increment_all 2 50 demo_links)) = Some l \<and> sl_max_uses l = Some 1 \<and> 1 < sl_use_count l"
proof -
  have "redeem_lookup demo_wenv 7 [97] None demo_links = Okay demo_link"
    by (simp add: redeem_lookup_def demo_links_def demo_link_def redeem_check_def)
  from concurrent_redeem_exceeds_max_uses [OF _ demo_hash [symmetric] _ this, of "[]" 1 2 3]
  show ?thesis by (simp add: demo_links_def demo_link_def)
qed

end
