(* ===== verification/WorkspaceOwners.thy ===== *)
theory WorkspaceOwners
  imports WorkspaceRuns Redeem
begin

text \<open>
  The owners of a workspace: the members API never takes the last one away, and the acceptance of
  an invite does, for good.
\<close>

section \<open>Keeping an owner\<close>

definition owned :: "workspace_db \<Rightarrow> uuid \<Rightarrow> bool" where
  "owned db ws \<longleftrightarrow> (\<exists>u. is_owner_of db ws u)"

text \<open>No owner accepts an invite to a workspace they own.\<close>

fun no_owner_accepts :: "workspace_env \<Rightarrow> workspace_db \<times> redeem_limiter \<Rightarrow> ws_op \<Rightarrow> bool" where
  "no_owner_accepts W st (AcceptInvite now rid user token) =
     (case accept_invite_read now (hash_share_link_token W token) (fst st) of
        Inl _ \<Rightarrow> True
      | Inr v \<Rightarrow> \<not> is_owner_of (fst st) (iv_workspace_id v) (au_user_id user))"
| "no_owner_accepts W st _ = True"

lemma find_member_unique:
  assumes "members_ok ids (wd_members db)" "m \<in> set (wd_members db)" "find_member db (mr_workspace_id m) (mr_user_id m) = Some r"
  shows "mc_role r = mr_role m"
proof -
  obtain m' where m': "find (\<lambda>x. mr_workspace_id x = mr_workspace_id m \<and> mr_user_id x = mr_user_id m) (wd_members db) = Some m'"
      "member_view db m' = Some r"
    using assms(3) by (auto simp: find_member_def bind_eq_Some_conv)
  then have "m' \<in> set (wd_members db)" "(mr_workspace_id m', mr_user_id m') = (mr_workspace_id m, mr_user_id m)"
    by (auto simp: find_Some_iff)
  then have "m' = m" using assms(1,2) unfolding members_ok_def distinct_map by (metis (no_types, lifting) inj_onD)
  then show ?thesis using m'(2) by (auto simp: member_view_def)
qed

lemma update_member_keeps_owner:
  assumes "members_ok ids (wd_members db)" "update_member_read W ws member if_match p db = Okay ()"
    "wd_members db' = wd_members (snd (update_member_write ws member p db))" "is_owner_of db k u"
  shows "is_owner_of db' k u"
proof -
  obtain m where m: "m \<in> set (wd_members db)" "mr_workspace_id m = k" "mr_user_id m = u" "mr_role m = lit ''owner''"
    using assms(4) by (auto simp: is_owner_of_def list_ex_iff)
  define f where "f = (\<lambda>m :: member_row. if mr_workspace_id m = ws \<and> mr_user_id m = member
       then m\<lparr>mr_role := (case mu_role p of None \<Rightarrow> mr_role m | Some r \<Rightarrow> r),
              mr_status := (case mu_status p of None \<Rightarrow> mr_status m | Some s \<Rightarrow> s)\<rparr> else m)"
  obtain r where r: "find_member db ws member = Some r"
      "\<not> (mc_role r = lit ''owner'' \<and> (case mu_role p of Some r \<Rightarrow> r \<noteq> lit ''owner'' | None \<Rightarrow> False))"
    using assms(2) by (auto simp: update_member_read_def split: option.splits if_splits)
  have fm: "mr_role (f m) = lit ''owner''" "mr_workspace_id (f m) = k" "mr_user_id (f m) = u"
    using r m find_member_unique [OF assms(1) m(1), of r] by (auto simp: f_def split: option.splits)
  have "f m \<in> set (map f (wd_members db))" using m(1) by simp
  moreover have "wd_members db' = map f (wd_members db) \<or> wd_members db' = wd_members db"
    using assms(3) by (auto simp: f_def update_member_write_def Let_def split: option.splits)
  ultimately show ?thesis using fm m unfolding is_owner_of_def list_ex_iff by metis
qed

lemma delete_member_keeps_owner:
  assumes "members_ok ids (wd_members db)" "delete_member_read W ws member if_match db = Okay ()"
    "wd_members db' = wd_members (delete_member_write ws member db)" "is_owner_of db k u"
  shows "is_owner_of db' k u"
proof -
  obtain m where m: "m \<in> set (wd_members db)" "mr_workspace_id m = k" "mr_user_id m = u" "mr_role m = lit ''owner''"
    using assms(4) by (auto simp: is_owner_of_def list_ex_iff)
  obtain r where r: "find_member db ws member = Some r" "mc_role r \<noteq> lit ''owner''"
    using assms(2) by (auto simp: delete_member_read_def split: option.splits if_splits)
  have "\<not> (mr_workspace_id m = ws \<and> mr_user_id m = member)"
    using r m(4) find_member_unique [OF assms(1) m(1), of r] by auto
  then show ?thesis using m assms(3) by (auto simp: is_owner_of_def list_ex_iff delete_member_write_def)
qed

lemma upsert_keeps_owner:
  assumes "is_owner_of db k u" "\<not> (k = ws \<and> u = v)" "wd_members db' = upsert_member now ws v r (wd_members db)"
  shows "is_owner_of db' k u"
proof -
  obtain m where m: "m \<in> set (wd_members db)" "mr_workspace_id m = k" "mr_user_id m = u" "mr_role m = lit ''owner''"
    using assms(1) by (auto simp: is_owner_of_def list_ex_iff)
  then have "m \<in> set (wd_members db')" using assms(2,3) by (force simp: upsert_member_def)
  then show ?thesis using m by (auto simp: is_owner_of_def list_ex_iff)
qed

lemma owner_kept:
  assumes "ws_tables_ok W (fst st)" "no_owner_accepts W st op" "is_owner_of (fst st) k u"
  shows "is_owner_of (fst (ws_step W st op)) k u"
proof -
  have m: "members_ok (wr_id ` set (wd_workspaces (fst st))) (wd_members (fst st))" using assms(1) by (simp add: ws_tables_ok_def)
  show ?thesis
    using ws_step_effect [of W st op]
  proof cases
    case (promoted user raw ws member p if_match now rid rq)
    then show ?thesis using update_member_keeps_owner [OF m _ _ assms(3)] by blast
  next
    case (removed user raw ws member if_match now rid rq)
    then show ?thesis using delete_member_keeps_owner [OF m _ _ assms(3)] by blast
  next
    case (accepted now token v user rid)
    then show ?thesis using assms(2,3) by (auto intro!: upsert_keeps_owner [OF assms(3)])
  qed (use assms(3) in \<open>auto simp: is_owner_of_def\<close>)
qed

definition owners_ok :: "workspace_env \<Rightarrow> workspace_db \<times> redeem_limiter \<Rightarrow> bool" where
  "owners_ok W st \<longleftrightarrow> ws_tables_ok W (fst st) \<and> (\<forall>ws \<in> wr_id ` set (wd_workspaces (fst st)). owned (fst st) ws)"

lemma owners_ok_step:
  assumes "owners_ok W st" "no_owner_accepts W st op"
  shows "owners_ok W (ws_step W st op)"
proof -
  have t: "ws_tables_ok W (fst st)" using assms(1) by (simp add: owners_ok_def)
  have "owned (fst (ws_step W st op)) ws" if ws: "ws \<in> wr_id ` set (wd_workspaces (fst (ws_step W st op)))" for ws
  proof (cases "ws \<in> wr_id ` set (wd_workspaces (fst st))")
    case True
    then obtain u where "is_owner_of (fst st) ws u" using assms(1) by (auto simp: owners_ok_def owned_def)
    then show ?thesis using owner_kept [OF t assms(2)] unfolding owned_def by blast
  next
    case False
    show ?thesis
      using ws_step_effect [of W st op]
    proof cases
      case (created w i user now rid name slug)
      then have "ws = i" using ws False by auto
      then show ?thesis using created by (auto simp: owned_def is_owner_of_def)
    next
      case (renamed user raw ws0 w w' now rid rq name slug)
      then have "ws \<in> wr_id ` set (wd_workspaces (fst st))" using ws by (auto split: if_splits)
      then show ?thesis using False by simp
    qed (use ws False in auto)
  qed
  then show ?thesis using ws_effect_tables [OF ws_step_effect t] by (simp add: owners_ok_def)
qed

interpretation ws_owners: init_system "ws_step W" "no_owner_accepts W" "owners_ok W" "(empty_workspaces users, [])" for W users
  by unfold_locales (rule owners_ok_step, assumption+,
    simp add: owners_ok_def ws_tables_ok_def empty_workspaces_def slugs_ok_def members_ok_def invites_ok_def)

text \<open>
  (C34) A workspace keeps an owner. In every run of the API from an empty database in which no owner
  accepts an invite to a workspace they own, every workspace has an owner.
\<close>

theorem workspace_keeps_owner:
  assumes "run_ok (ws_step W) (no_owner_accepts W) (empty_workspaces users, []) ops"
    "st = foldl (ws_step W) (empty_workspaces users, []) ops" "w \<in> set (wd_workspaces (fst st))"
  shows "\<exists>u. is_owner_of (fst st) (wr_id w) u"
  using ws_owners.inv_reachable [OF assms(1)] assms(2,3) by (auto simp: owners_ok_def owned_def)

section \<open>Losing the owner\<close>

definition orphaned :: "workspace_env \<Rightarrow> uuid \<Rightarrow> workspace_db \<times> redeem_limiter \<Rightarrow> bool" where
  "orphaned W ws st \<longleftrightarrow>
     ws_tables_ok W (fst st) \<and> ws \<in> wr_id ` set (wd_workspaces (fst st)) \<and> \<not> owned (fst st) ws"

lemma workspaces_kept:
  "wr_id ` set (wd_workspaces (fst st)) \<subseteq> wr_id ` set (wd_workspaces (fst (ws_step W st op)))"
  using ws_step_effect [of W st op]
proof cases
  case (renamed user raw ws0 w w' now rid rq name slug)
  then show ?thesis by (simp only: rename_ids order_refl)
qed auto

lemma orphaned_step: "orphaned W ws st \<Longrightarrow> orphaned W ws (ws_step W st op)"
proof -
  assume o: "orphaned W ws st"
  then have t: "ws_tables_ok W (fst st)" by (simp add: orphaned_def)
  have "\<not> is_owner_of (fst (ws_step W st op)) ws u" for u
    using ws_effect_owner [OF ws_step_effect t, of op ws u] require_owner [of W "fst st" _ _ ws] o
    by (auto simp: orphaned_def owned_def)
  then show ?thesis
    using o workspaces_kept [of st W op] ws_effect_tables [OF ws_step_effect t] by (auto simp: orphaned_def owned_def)
qed

interpretation ws_orphans: inv_system "ws_step W" "\<lambda>_ _. True" "orphaned W ws" for W ws
  by unfold_locales (rule orphaned_step)

text \<open>
  Accepting an invite orphans a workspace. When the only owner of a workspace accepts a pending
  invite to it, the request succeeds and the owner is demoted; whatever is requested afterwards, the
  workspace never has an owner again and every route that needs one is refused to everybody.
\<close>

theorem owner_accepting_invite_orphans_workspace:
  assumes "ws_tables_ok W (fst st)" "accept_invite_read now (hash_share_link_token W token) (fst st) = Okay v"
    and "\<forall>u. is_owner_of (fst st) (iv_workspace_id v) u \<longrightarrow> u = au_user_id user"
  shows "fst (ws_route W (AcceptInvite now rid user token) st) = Okay () \<and>
    \<not> owned (fst (foldl (ws_step W) (ws_step W st (AcceptInvite now rid user token)) ops)) (iv_workspace_id v) \<and>
    ws_require_role W (fst (foldl (ws_step W) (ws_step W st (AcceptInvite now rid user token)) ops)) caller raw Owner
      \<noteq> Okay (iv_workspace_id v)"
proof -
  let ?ws = "iv_workspace_id v" and ?op = "AcceptInvite now rid user token"
  obtain db lim where st: "st = (db, lim)" by fastforce
  have v: "v \<in> set (wd_invites db)" using accept_invite_read_SomeD [OF assms(2)] st by simp
  have live: "?ws \<in> wr_id ` set (wd_workspaces db)"
    using assms(1) v st by (auto simp: ws_tables_ok_def invites_ok_def list_all_iff)
  have ok: "fst (ws_route W ?op st) = Okay ()" using assms(2) by (simp add: st accept_invite_def no_answer_def)
  have mem: "wd_members (fst (ws_step W st ?op)) = upsert_member now ?ws (au_user_id user) (iv_role v) (wd_members db)"
    "wd_workspaces (fst (ws_step W st ?op)) = wd_workspaces db"
    using assms(2) by (simp_all add: ws_step_def st accept_invite_def no_answer_def accept_invite_write_def)
  have "iv_role v \<noteq> lit ''owner''" using invite_role_no_owner [OF assms(1)] v st by simp
  then have "\<not> owned (fst (ws_step W st ?op)) ?ws"
    using assms(3) mem(1) st by (auto simp: owned_def is_owner_of_def list_ex_iff upsert_member_def split: if_splits)
  then have "orphaned W ?ws (ws_step W st ?op)"
    using ws_effect_tables [OF ws_step_effect assms(1)] live mem(2) by (simp add: orphaned_def)
  then have o: "orphaned W ?ws (foldl (ws_step W) (ws_step W st ?op) ops)" by (rule ws_orphans.inv_run) simp
  then show ?thesis using ok require_owner [of W _ caller raw ?ws] unfolding orphaned_def owned_def by blast
qed

section \<open>A workspace with one owner\<close>

definition demo_owner :: authenticated_user where
  "demo_owner = \<lparr>au_user_id = 2, au_workspace_id = 10\<rparr>"

definition demo_create :: ws_op where
  "demo_create = CreateWorkspace 10 5 None demo_owner (lit ''Team'') (lit ''team'')"

lemma demo_created:
  "wd_workspaces (fst (ws_step demo_wenv (empty_workspaces [], []) demo_create)) =
     [\<lparr>wr_id = 10, wr_slug = lit ''team'', wr_name = lit ''Team'', wr_created_by = 2, wr_created_at = 5, wr_updated_at = 5, wr_deleted_at = None\<rparr>]"
  "wd_members (fst (ws_step demo_wenv (empty_workspaces [], []) demo_create)) =
     [\<lparr>mr_workspace_id = 10, mr_user_id = 2, mr_role = lit ''owner'', mr_status = lit ''active'', mr_joined_at = 5\<rparr>]"
  by (simp_all add: ws_step_def demo_create_def demo_owner_def empty_workspaces_def create_workspace_def validate_name_def
      validate_slug_def lit_def trim_def trim_start_def trim_end_def is_whitespace_def create_workspace_pg_def slug_taken_def
      insert_member_def Let_def no_answer_def workspace_record_of_def)

lemma demo_owned: "is_owner_of (fst (ws_step demo_wenv (empty_workspaces [], []) demo_create)) 10 2"
  by (simp add: is_owner_of_def demo_created)

theorem ownership_is_granted_witness:
  "is_owner_of (fst (ws_step demo_wenv (empty_workspaces [], []) demo_create)) 10 2 \<and>
   (\<exists>now rid user name slug. demo_create = CreateWorkspace 10 now rid user name slug \<and> au_user_id user = 2)"
proof -
  have "ws_tables_ok demo_wenv (empty_workspaces [])" using ws_tables.inv_start [of demo_wenv "[]"] by simp
  moreover have "\<not> is_owner_of (empty_workspaces []) 10 2" by (simp add: is_owner_of_def empty_workspaces_def)
  ultimately show ?thesis
    using ownership_is_granted [of demo_wenv "(empty_workspaces [], [])" 10 2 demo_create] demo_owned
    by (auto simp: demo_create_def)
qed

theorem workspace_keeps_owner_witness:
  "\<exists>u. is_owner_of (fst (ws_step demo_wenv (empty_workspaces [], []) demo_create)) 10 u"
proof -
  let ?st = "ws_step demo_wenv (empty_workspaces [], []) demo_create"
  have run: "run_ok (ws_step demo_wenv) (no_owner_accepts demo_wenv) (empty_workspaces [], []) [demo_create]"
    by (simp add: demo_create_def)
  have st: "?st = foldl (ws_step demo_wenv) (empty_workspaces [], []) [demo_create]" by simp
  have w: "hd (wd_workspaces (fst ?st)) \<in> set (wd_workspaces (fst ?st))" by (simp add: demo_created)
  have "wr_id (hd (wd_workspaces (fst ?st))) = 10" by (simp add: demo_created)
  then show ?thesis using workspace_keeps_owner [OF run st w] by (simp only:)
qed

definition demo_invite :: invite_row where
  "demo_invite = \<lparr>iv_id = 60, iv_workspace_id = 10, iv_email = lit ''a@b'', iv_role = lit ''viewer'', iv_token_hash = [97],
     iv_invited_by = 2, iv_expires_at = 99, iv_accepted_at = None, iv_created_at = 6\<rparr>"

definition demo_team :: workspace_db where
  "demo_team = \<lparr>wd_workspaces = [\<lparr>wr_id = 10, wr_slug = lit ''team'', wr_name = lit ''Team'', wr_created_by = 2,
        wr_created_at = 5, wr_updated_at = 5, wr_deleted_at = None\<rparr>],
      wd_members = [\<lparr>mr_workspace_id = 10, mr_user_id = 2, mr_role = lit ''owner'', mr_status = lit ''active'', mr_joined_at = 5\<rparr>],
      wd_links = [], wd_invites = [demo_invite], wd_users = [], wd_audit = []\<rparr>"

theorem owner_accepting_invite_orphans_workspace_witness:
  "\<not> owned (fst (ws_step demo_wenv (demo_team, []) (AcceptInvite 8 None demo_owner [97]))) 10"
proof -
  have "ws_tables_ok demo_wenv (fst (demo_team, []))" "\<forall>u. is_owner_of (fst (demo_team, [])) 10 u \<longrightarrow> u = au_user_id demo_owner"
    by (simp_all add: ws_tables_ok_def demo_team_def slugs_ok_def members_ok_def invites_ok_def demo_invite_def is_owner_of_def
        role_names_def status_names_def demo_owner_def)
  moreover have "accept_invite_read 8 (hash_share_link_token demo_wenv [97]) (fst (demo_team, [])) = Okay demo_invite"
    by (simp add: accept_invite_read_def demo_hash demo_team_def demo_invite_def)
  ultimately show ?thesis
    using owner_accepting_invite_orphans_workspace [of demo_wenv "(demo_team, [])" 8 "[97]" demo_invite demo_owner None "[]"]
    by (simp add: demo_invite_def)
qed

end
