(* ===== verification/Documents.thy ===== *)
theory Documents
  imports ApiBase Paging Decimal
begin

text \<open>
  \<open>relay/src/api/documents.rs\<close>: the documents of a workspace, their tags and the overrides of their
  access rights. The tables of \<open>db/migrations/0001_init_schema.sql\<close> are lists of rows with their keys,
  the unique index on the live paths and the foreign keys that a hard delete meets. A handler that
  reads a row in one statement and writes in another is split there, so that requests can be
  interleaved. What a request draws (identifiers, entity tags, readings of the clock) is the record
  \<open>doc_draws\<close>; \<open>doc_env\<close> adds to \<open>api_env\<close> the function \<open>str::to_lowercase\<close> and whether the
  database driver hands an \<open>int4\<close> column to a reader that asks for \<open>i64\<close>, on which two statements
  depend that read \<open>SELECT 1\<close>. \<open>sqlx\<close> maps \<open>i64\<close> to \<open>INT8\<close> only and answers with an error.
\<close>

section \<open>Environment and rows\<close>

record doc_env =
  de_api :: api_env
  de_lower :: "rstr \<Rightarrow> rstr"
  de_int4_as_i64 :: bool

record document_row =
  do_id :: uuid
  do_workspace_id :: uuid
  do_path :: rstr
  do_path_norm :: rstr
  do_title :: "rstr option"
  do_head_seq :: int
  do_etag :: rstr
  do_created_by :: uuid
  do_created_at :: micros
  do_updated_at :: micros
  do_archived_at :: "micros option"
  do_deleted_at :: "micros option"

record tag_row =
  tg_id :: uuid
  tg_workspace_id :: uuid
  tg_name :: rstr

record acl_override_row =
  ac_id :: uuid
  ac_workspace_id :: uuid
  ac_doc_id :: uuid
  ac_subject_type :: rstr
  ac_subject_id :: rstr
  ac_role :: rstr
  ac_expires_at :: "micros option"
  ac_created_at :: micros

text \<open>\<open>dd_linked\<close>: the documents that rows of \<open>backlinks\<close> and \<open>comment_threads\<close> refer to.\<close>

record document_db =
  dd_documents :: "document_row list"
  dd_tags :: "tag_row list"
  dd_document_tags :: "(uuid \<times> uuid) list"
  dd_overrides :: "acl_override_row list"
  dd_members :: "member_row list"
  dd_linked :: "uuid list"
  dd_audit :: "audit_event list"

text \<open>The \<open>Document\<close> of a response: a row without its normal path and its deletion.\<close>

record document =
  dv_id :: uuid
  dv_workspace_id :: uuid
  dv_path :: rstr
  dv_title :: "rstr option"
  dv_head_seq :: int
  dv_etag :: rstr
  dv_created_by :: uuid
  dv_created_at :: micros
  dv_updated_at :: micros
  dv_archived_at :: "micros option"

definition document_of :: "document_row \<Rightarrow> document" where
  "document_of r =
     \<lparr>dv_id = do_id r, dv_workspace_id = do_workspace_id r, dv_path = do_path r, dv_title = do_title r,
      dv_head_seq = do_head_seq r, dv_etag = do_etag r, dv_created_by = do_created_by r,
      dv_created_at = do_created_at r, dv_updated_at = do_updated_at r, dv_archived_at = do_archived_at r\<rparr>"

record create_document_request =
  cq_path :: rstr
  cq_title :: "rstr option"
  cq_content_md :: rstr
  cq_tags :: "rstr list"

record update_document_request =
  uq_path :: "rstr option"
  uq_title :: "rstr option"
  uq_archived :: "bool option"

record list_documents_query =
  lq_path_prefix :: "rstr option"
  lq_include_archived :: "bool option"
  lq_archived :: "bool option"
  lq_limit :: "nat option"
  lq_cursor :: "rstr option"

datatype document_tag_op = TagAdd | TagRemove

record acl_override_request =
  aq_subject_type :: rstr
  aq_subject_id :: rstr
  aq_role :: rstr
  aq_expires_at :: "micros option"

record doc_draws =
  dw_id :: uuid
  dw_etag :: uuid
  dw_tags_etag :: uuid
  dw_tag_ids :: "nat \<Rightarrow> uuid"
  dw_clock :: "nat \<Rightarrow> micros"

datatype doc_error =
    DBadRequest rstr
  | DForbidden
  | DNotFound
  | DConflict
  | DPreconditionRequired
  | DPreconditionFailed
  | DInternal

definition doc_into_response :: "doc_error \<Rightarrow> relay_error" where
  "doc_into_response e =
     (case e of
        DBadRequest message \<Rightarrow> error_new ValidationFailed message
      | DForbidden \<Rightarrow> error_new AuthForbidden (lit ''caller lacks required role'')
      | DNotFound \<Rightarrow> error_new NotFound (lit ''document not found'')
      | DConflict \<Rightarrow> error_new DocPathConflict (lit ''document path already exists'')
      | DPreconditionRequired \<Rightarrow> error_new PreconditionRequired (lit ''missing If-Match header'')
      | DPreconditionFailed \<Rightarrow>
          error_new EditPreconditionFailed (lit ''If-Match does not match current document state'')
      | DInternal \<Rightarrow> from_code InternalError)"

section \<open>Helpers\<close>

definition D_DEFAULT_PAGE_SIZE :: nat where "D_DEFAULT_PAGE_SIZE = 50"
definition D_MAX_PAGE_SIZE :: nat where "D_MAX_PAGE_SIZE = 100"

definition doc_limit :: "nat option \<Rightarrow> nat" where
  "doc_limit limit =
     (case limit of
        Some v \<Rightarrow> if v = 0 then D_DEFAULT_PAGE_SIZE else min v D_MAX_PAGE_SIZE
      | None \<Rightarrow> D_DEFAULT_PAGE_SIZE)"

definition normalize_archived_filter :: "list_documents_query \<Rightarrow> bool option" where
  "normalize_archived_filter q =
     (case lq_include_archived q of
        Some include \<Rightarrow> if include then None else Some False
      | None \<Rightarrow> (case lq_archived q of Some a \<Rightarrow> Some a | None \<Rightarrow> Some False))"

definition doc_parse_cursor :: "doc_env \<Rightarrow> rstr \<Rightarrow> (doc_error, micros \<times> uuid) result" where
  "doc_parse_cursor E v =
     (case split_once 124 v of
        None \<Rightarrow> Err (DBadRequest (lit ''cursor format is invalid''))
      | Some (ts, i) \<Rightarrow>
          (case parse_i64 ts of
             None \<Rightarrow> Err (DBadRequest (lit ''cursor timestamp is invalid''))
           | Some t \<Rightarrow>
               if \<not> micros_ok (de_api E) t then Err (DBadRequest (lit ''cursor timestamp is invalid''))
               else case uuid_parse (de_api E) i of
                 None \<Rightarrow> Err (DBadRequest (lit ''cursor id is invalid''))
               | Some u \<Rightarrow> Okay (t, u)))"

definition doc_encode_cursor :: "doc_env \<Rightarrow> document \<Rightarrow> rstr" where
  "doc_encode_cursor E d = show_int (dv_updated_at d) @ lit ''|'' @ uuid_string (de_api E) (dv_id d)"

definition doc_paginate :: "doc_env \<Rightarrow> document list \<Rightarrow> nat \<Rightarrow> document list \<times> rstr option" where
  "doc_paginate E items limit =
     (if length items > limit
      then (let kept = take limit items
            in (kept, if kept = [] then None else Some (doc_encode_cursor E (last kept))))
      else (items, None))"

definition normalize_doc_path :: "doc_env \<Rightarrow> rstr \<Rightarrow> rstr" where
  "normalize_doc_path E path = de_lower E (trim path)"

definition validate_path :: "rstr \<Rightarrow> (doc_error, unit) result" where
  "validate_path path =
     (if trim path = [] then Err (DBadRequest (lit ''document path must not be empty''))
      else if length (as_bytes path) > 512 then Err (DBadRequest (lit ''document path must not exceed 512 characters''))
      else Okay ())"

fun normalize_tags :: "doc_env \<Rightarrow> rstr list \<Rightarrow> rstr list \<Rightarrow> rstr list \<Rightarrow> (doc_error, rstr list) result" where
  "normalize_tags E [] seen out = Okay out"
| "normalize_tags E (raw # raws) seen out =
     (let tag = de_lower E (trim raw) in
      if tag = [] then Err (DBadRequest (lit ''tag names must not be empty''))
      else if length (as_bytes tag) > 64 then Err (DBadRequest (lit ''tag names must not exceed 64 characters''))
      else if tag \<in> set seen then normalize_tags E raws seen out
      else normalize_tags E raws (tag # seen) (out @ [tag]))"

definition normalize_tag_names :: "doc_env \<Rightarrow> rstr list \<Rightarrow> (doc_error, rstr list) result" where
  "normalize_tag_names E raws =
     (if raws = [] then Err (DBadRequest (lit ''tags must contain at least one tag'')) else normalize_tags E raws [] [])"

definition validate_acl_override_request :: "micros \<Rightarrow> acl_override_request \<Rightarrow> (doc_error, unit) result" where
  "validate_acl_override_request now p =
     (if aq_subject_type p \<notin> {lit ''user'', lit ''agent'', lit ''share_link''}
      then Err (DBadRequest (lit ''subject_type must be one of: user, agent, share_link''))
      else if trim (aq_subject_id p) = [] then Err (DBadRequest (lit ''subject_id must not be empty''))
      else if aq_role p \<noteq> lit ''editor'' \<and> aq_role p \<noteq> lit ''viewer''
      then Err (DBadRequest (lit ''role must be one of: editor, viewer''))
      else if (case aq_expires_at p of Some t \<Rightarrow> t \<le> now | None \<Rightarrow> False)
      then Err (DBadRequest (lit ''expires_at must be in the future''))
      else Okay ())"

definition doc_if_match :: "request \<Rightarrow> (doc_error, rstr) result" where
  "doc_if_match rq =
     (case map_of (rq_headers rq) (lit ''if-match'') of
        None \<Rightarrow> Err DPreconditionRequired
      | Some None \<Rightarrow> Err (DBadRequest (lit ''If-Match header is not valid utf-8''))
      | Some (Some v) \<Rightarrow> Okay v)"

definition generate_etag :: "doc_env \<Rightarrow> uuid \<Rightarrow> rstr" where
  "generate_etag E u = quoted (lit ''doc-'' @ uuid_string (de_api E) u)"

section \<open>Roles\<close>

definition doc_role_for_user :: "document_db \<Rightarrow> uuid \<Rightarrow> uuid \<Rightarrow> (doc_error, workspace_role option) result" where
  "doc_role_for_user db user_id workspace_id =
     (case active_role (dd_members db) user_id workspace_id of
        None \<Rightarrow> Okay None
      | Some v \<Rightarrow> (case role_from_db_value v of Some r \<Rightarrow> Okay (Some r) | None \<Rightarrow> Err DInternal))"

definition override_applies :: "doc_env \<Rightarrow> micros \<Rightarrow> uuid \<Rightarrow> uuid \<Rightarrow> uuid \<Rightarrow> acl_override_row \<Rightarrow> bool" where
  "override_applies E now user_id workspace_id doc_id a \<longleftrightarrow>
     ac_workspace_id a = workspace_id \<and> ac_doc_id a = doc_id \<and> ac_subject_type a = lit ''user'' \<and>
     ac_subject_id a = uuid_string (de_api E) user_id \<and>
     (case ac_expires_at a of None \<Rightarrow> True | Some t \<Rightarrow> t > now)"

text \<open>\<open>ORDER BY created_at DESC LIMIT 1\<close>; of rows created at the same moment, the last in the table.\<close>

definition acl_override_role_for_user ::
  "doc_env \<Rightarrow> micros \<Rightarrow> document_db \<Rightarrow> uuid \<Rightarrow> uuid \<Rightarrow> uuid \<Rightarrow> (doc_error, workspace_role option) result" where
  "acl_override_role_for_user E now db user_id workspace_id doc_id =
     (case newest_first ac_created_at (filter (override_applies E now user_id workspace_id doc_id) (dd_overrides db)) of
        [] \<Rightarrow> Okay None
      | a # _ \<Rightarrow> (case role_from_db_value (ac_role a) of Some r \<Rightarrow> Okay (Some r) | None \<Rightarrow> Err DInternal))"

definition doc_require_workspace_role ::
  "document_db \<Rightarrow> authenticated_user \<Rightarrow> uuid \<Rightarrow> workspace_role \<Rightarrow> (doc_error, unit) result" where
  "doc_require_workspace_role db user workspace_id required =
     (if au_workspace_id user \<noteq> workspace_id then Err DForbidden
      else case doc_role_for_user db (au_user_id user) workspace_id of
        Inl e \<Rightarrow> Err e
      | Inr None \<Rightarrow> Err DForbidden
      | Inr (Some r) \<Rightarrow> if allows r required then Okay () else Err DForbidden)"

definition require_document_role ::
  "doc_env \<Rightarrow> micros \<Rightarrow> document_db \<Rightarrow> authenticated_user \<Rightarrow> uuid \<Rightarrow> uuid \<Rightarrow> workspace_role \<Rightarrow> (doc_error, unit) result" where
  "require_document_role E now db user workspace_id doc_id required =
     (if au_workspace_id user \<noteq> workspace_id then Err DForbidden
      else case doc_role_for_user db (au_user_id user) workspace_id of
        Inl e \<Rightarrow> Err e
      | Inr None \<Rightarrow> Err DForbidden
      | Inr (Some workspace_role) \<Rightarrow>
          (case acl_override_role_for_user E now db (au_user_id user) workspace_id doc_id of
             Inl e \<Rightarrow> Err e
           | Inr ovr \<Rightarrow>
               let effective_role = (case ovr of Some r \<Rightarrow> r | None \<Rightarrow> workspace_role)
               in if allows effective_role required then Okay () else Err DForbidden))"

section \<open>Statements\<close>

definition live_doc :: "uuid \<Rightarrow> uuid \<Rightarrow> document_row \<Rightarrow> bool" where
  "live_doc workspace_id doc_id r \<longleftrightarrow> do_id r = doc_id \<and> do_workspace_id r = workspace_id \<and> do_deleted_at r = None"

definition find_doc :: "document_db \<Rightarrow> uuid \<Rightarrow> uuid \<Rightarrow> document_row option" where
  "find_doc db workspace_id doc_id = find (live_doc workspace_id doc_id) (dd_documents db)"

definition set_doc :: "document_row \<Rightarrow> document_db \<Rightarrow> document_db" where
  "set_doc r db = db\<lparr>dd_documents := map (\<lambda>x. if do_id x = do_id r then r else x) (dd_documents db)\<rparr>"

text \<open>\<open>idx_documents_workspace_path_unique\<close>.\<close>

definition path_taken :: "uuid \<Rightarrow> rstr \<Rightarrow> document_row list \<Rightarrow> bool" where
  "path_taken workspace_id path_norm rows =
     list_ex (\<lambda>r. do_workspace_id r = workspace_id \<and> do_path_norm r = path_norm \<and> do_deleted_at r = None) rows"

definition new_document ::
  "doc_env \<Rightarrow> uuid \<Rightarrow> uuid \<Rightarrow> micros \<Rightarrow> uuid \<Rightarrow> uuid \<Rightarrow> rstr \<Rightarrow> rstr option \<Rightarrow> document_row" where
  "new_document E new_id etag_id now workspace_id created_by path title =
     \<lparr>do_id = new_id, do_workspace_id = workspace_id, do_path = path, do_path_norm = normalize_doc_path E path,
      do_title = title, do_head_seq = 0, do_etag = generate_etag E etag_id, do_created_by = created_by,
      do_created_at = now, do_updated_at = now, do_archived_at = None, do_deleted_at = None\<rparr>"

definition create_pg ::
  "doc_env \<Rightarrow> uuid \<Rightarrow> uuid \<Rightarrow> micros \<Rightarrow> uuid \<Rightarrow> uuid \<Rightarrow> rstr \<Rightarrow> rstr option \<Rightarrow> document_db \<Rightarrow>
   (doc_error, document) result \<times> document_db" where
  "create_pg E new_id etag_id now workspace_id created_by path title db =
     (if list_ex (\<lambda>r. do_id r = new_id) (dd_documents db) \<or> path_taken workspace_id (normalize_doc_path E path) (dd_documents db)
      then (Err DConflict, db)
      else let r = new_document E new_id etag_id now workspace_id created_by path title
           in (Okay (document_of r), db\<lparr>dd_documents := dd_documents db @ [r]\<rparr>))"

definition get_pg :: "document_db \<Rightarrow> uuid \<Rightarrow> uuid \<Rightarrow> (doc_error, document) result" where
  "get_pg db workspace_id doc_id =
     (case find_doc db workspace_id doc_id of None \<Rightarrow> Err DNotFound | Some r \<Rightarrow> Okay (document_of r))"

text \<open>\<open>LIKE\<close> with its wildcards \<open>%\<close> and \<open>_\<close> and the backslash as escape; the patterns made here never end in one.\<close>

fun like_match :: "rstr \<Rightarrow> rstr \<Rightarrow> bool" where
  "like_match [] s \<longleftrightarrow> s = []"
| "like_match (c # p) s \<longleftrightarrow>
     (if c = 37 then like_match p s \<or> (case s of [] \<Rightarrow> False | _ # s' \<Rightarrow> like_match (c # p) s')
      else if c = 92 then (case (p, s) of (d # p', x # s') \<Rightarrow> x = d \<and> like_match p' s' | _ \<Rightarrow> False)
      else (case s of [] \<Rightarrow> False | x # s' \<Rightarrow> (c = 95 \<or> x = c) \<and> like_match p s'))"

definition doc_listed :: "uuid \<Rightarrow> rstr option \<Rightarrow> bool option \<Rightarrow> document_row \<Rightarrow> bool" where
  "doc_listed workspace_id pattern archived r \<longleftrightarrow>
     do_workspace_id r = workspace_id \<and> do_deleted_at r = None \<and>
     (case pattern of None \<Rightarrow> True | Some p \<Rightarrow> like_match p (do_path_norm r)) \<and>
     (case archived of None \<Rightarrow> True | Some a \<Rightarrow> a \<longleftrightarrow> do_archived_at r \<noteq> None)"

definition doc_after_cursor :: "(micros \<times> uuid) option \<Rightarrow> document_row \<Rightarrow> bool" where
  "doc_after_cursor cursor r \<longleftrightarrow>
     (case cursor of
        None \<Rightarrow> True
      | Some (c, i) \<Rightarrow> do_updated_at r < c \<or> do_updated_at r = c \<and> do_id r < i)"

definition doc_key :: "document_row \<Rightarrow> micros \<times> uuid" where
  "doc_key r = (do_updated_at r, do_id r)"

definition list_pg ::
  "doc_env \<Rightarrow> document_db \<Rightarrow> uuid \<Rightarrow> rstr option \<Rightarrow> bool option \<Rightarrow> nat \<Rightarrow> (micros \<times> uuid) option \<Rightarrow>
   document list \<times> rstr option" where
  "list_pg E db workspace_id path_prefix archived limit cursor =
     (let pattern = map_option (\<lambda>p. normalize_doc_path E p @ lit ''%'') path_prefix;
          rows = take (limit + 1) (newest_first doc_key
            (filter (\<lambda>r. doc_listed workspace_id pattern archived r \<and> doc_after_cursor cursor r) (dd_documents db)))
      in doc_paginate E (map document_of rows) limit)"

text \<open>The \<open>UPDATE\<close> of a request whose \<open>archived\<close> was compared with the row that was read.\<close>

definition archive_change :: "micros \<Rightarrow> document \<Rightarrow> bool option \<Rightarrow> micros option option" where
  "archive_change now current archived =
     (case archived of
        Some True \<Rightarrow> if dv_archived_at current = None then Some (Some now) else None
      | Some False \<Rightarrow> if dv_archived_at current \<noteq> None then Some None else None
      | None \<Rightarrow> None)"

definition updated_document ::
  "doc_env \<Rightarrow> uuid \<Rightarrow> micros \<Rightarrow> micros \<Rightarrow> document \<Rightarrow> update_document_request \<Rightarrow> document_row \<Rightarrow> document_row" where
  "updated_document E etag_id app_now now current p r =
     r\<lparr>do_path := (case uq_path p of None \<Rightarrow> do_path r | Some v \<Rightarrow> v),
       do_path_norm := (case uq_path p of None \<Rightarrow> do_path_norm r | Some v \<Rightarrow> normalize_doc_path E v),
       do_title := (case uq_title p of None \<Rightarrow> do_title r | Some v \<Rightarrow> Some v),
       do_etag := generate_etag E etag_id,
       do_archived_at := (case archive_change app_now current (uq_archived p) of None \<Rightarrow> do_archived_at r | Some v \<Rightarrow> v),
       do_updated_at := now\<rparr>"

definition update_write ::
  "doc_env \<Rightarrow> uuid \<Rightarrow> micros \<Rightarrow> micros \<Rightarrow> uuid \<Rightarrow> uuid \<Rightarrow> document \<Rightarrow> update_document_request \<Rightarrow> document_db \<Rightarrow>
   (doc_error, document) result \<times> document_db" where
  "update_write E etag_id app_now now workspace_id doc_id current p db =
     (case find_doc db workspace_id doc_id of
        None \<Rightarrow> (Err DNotFound, db)
      | Some r \<Rightarrow>
          if (case uq_path p of None \<Rightarrow> False
              | Some v \<Rightarrow> path_taken workspace_id (normalize_doc_path E v)
                            (filter (\<lambda>x. do_id x \<noteq> doc_id) (dd_documents db)))
          then (Err DConflict, db)
          else let r' = updated_document E etag_id app_now now current p r
               in (Okay (document_of r'), set_doc r' db))"

definition update_read :: "uuid \<Rightarrow> uuid \<Rightarrow> rstr \<Rightarrow> document_db \<Rightarrow> (doc_error, document) result" where
  "update_read workspace_id doc_id if_match db =
     (case get_pg db workspace_id doc_id of
        Inl e \<Rightarrow> Err e
      | Inr current \<Rightarrow> if etag_matches if_match (dv_etag current) then Okay current else Err DPreconditionFailed)"

definition referenced :: "uuid \<Rightarrow> document_db \<Rightarrow> bool" where
  "referenced doc_id db \<longleftrightarrow>
     doc_id \<in> set (map fst (dd_document_tags db)) \<or> doc_id \<in> set (map ac_doc_id (dd_overrides db)) \<or>
     doc_id \<in> set (dd_linked db)"

definition delete_pg :: "micros \<Rightarrow> uuid \<Rightarrow> uuid \<Rightarrow> bool \<Rightarrow> document_db \<Rightarrow> (doc_error, unit) result \<times> document_db" where
  "delete_pg now workspace_id doc_id hard db =
     (if hard
      then if \<not> list_ex (\<lambda>r. do_id r = doc_id \<and> do_workspace_id r = workspace_id) (dd_documents db) then (Err DNotFound, db)
           else if referenced doc_id db then (Err DInternal, db)
           else (Okay (), db\<lparr>dd_documents := filter (\<lambda>r. \<not> (do_id r = doc_id \<and> do_workspace_id r = workspace_id)) (dd_documents db)\<rparr>)
      else case find_doc db workspace_id doc_id of
        None \<Rightarrow> (Err DNotFound, db)
      | Some r \<Rightarrow> (Okay (), set_doc (r\<lparr>do_deleted_at := Some now\<rparr>) db))"

definition find_tag :: "document_db \<Rightarrow> uuid \<Rightarrow> rstr \<Rightarrow> tag_row option" where
  "find_tag db workspace_id name = find (\<lambda>t. tg_workspace_id t = workspace_id \<and> tg_name t = name) (dd_tags db)"

definition link_tag :: "uuid \<Rightarrow> uuid \<Rightarrow> document_db \<Rightarrow> document_db" where
  "link_tag doc_id tag_id db =
     (if (doc_id, tag_id) \<in> set (dd_document_tags db) then db
      else db\<lparr>dd_document_tags := dd_document_tags db @ [(doc_id, tag_id)]\<rparr>)"

text \<open>Insertion or no-op update of the tag, then its link; \<open>None\<close> when the identifier drawn for a new tag is taken.\<close>

definition add_tag :: "uuid \<Rightarrow> uuid \<Rightarrow> uuid \<Rightarrow> rstr \<Rightarrow> document_db \<Rightarrow> document_db option" where
  "add_tag new_id workspace_id doc_id name db =
     (case find_tag db workspace_id name of
        Some t \<Rightarrow> Some (link_tag doc_id (tg_id t) db)
      | None \<Rightarrow>
          if list_ex (\<lambda>t. tg_id t = new_id) (dd_tags db) then None
          else Some (link_tag doc_id new_id
                 (db\<lparr>dd_tags := dd_tags db @ [\<lparr>tg_id = new_id, tg_workspace_id = workspace_id, tg_name = name\<rparr>]\<rparr>)))"

fun add_tags :: "(nat \<Rightarrow> uuid) \<Rightarrow> nat \<Rightarrow> uuid \<Rightarrow> uuid \<Rightarrow> rstr list \<Rightarrow> document_db \<Rightarrow> document_db option" where
  "add_tags ids i workspace_id doc_id [] db = Some db"
| "add_tags ids i workspace_id doc_id (t # ts) db =
     Option.bind (add_tag (ids i) workspace_id doc_id t db) (add_tags ids (Suc i) workspace_id doc_id ts)"

definition remove_tag :: "uuid \<Rightarrow> uuid \<Rightarrow> rstr \<Rightarrow> document_db \<Rightarrow> document_db" where
  "remove_tag workspace_id doc_id name db =
     (case find_tag db workspace_id name of
        None \<Rightarrow> db
      | Some t \<Rightarrow> db\<lparr>dd_document_tags := filter (\<lambda>l. l \<noteq> (doc_id, tg_id t)) (dd_document_tags db)\<rparr>)"

definition update_tags_pg ::
  "doc_env \<Rightarrow> (nat \<Rightarrow> uuid) \<Rightarrow> uuid \<Rightarrow> micros \<Rightarrow> uuid \<Rightarrow> uuid \<Rightarrow> document_tag_op \<Rightarrow> rstr list \<Rightarrow> document_db \<Rightarrow>
   (doc_error, document) result \<times> document_db" where
  "update_tags_pg E tag_ids etag_id now workspace_id doc_id op tags db =
     (case find_doc db workspace_id doc_id of
        None \<Rightarrow> (Err DNotFound, db)
      | Some r \<Rightarrow>
          if \<not> de_int4_as_i64 E then (Err DInternal, db)
          else (case (case op of TagAdd \<Rightarrow> add_tags tag_ids 0 workspace_id doc_id tags db
                          | TagRemove \<Rightarrow> Some (fold (remove_tag workspace_id doc_id) tags db)) of
             None \<Rightarrow> (Err DConflict, db)
           | Some db1 \<Rightarrow>
               let r' = r\<lparr>do_etag := generate_etag E etag_id, do_updated_at := now\<rparr>
               in (Okay (document_of r'), set_doc r' db1)))"

text \<open>
  An override is inserted by a statement of its own after the one that looks for the document; the
  table refers to the documents by their id.
\<close>

definition acl_override_document :: "doc_env \<Rightarrow> uuid \<Rightarrow> uuid \<Rightarrow> document_db \<Rightarrow> (doc_error, unit) result" where
  "acl_override_document E workspace_id doc_id db =
     (case find_doc db workspace_id doc_id of
        None \<Rightarrow> Err DNotFound
      | Some _ \<Rightarrow> if de_int4_as_i64 E then Okay () else Err DInternal)"

definition insert_acl_override ::
  "uuid \<Rightarrow> micros \<Rightarrow> uuid \<Rightarrow> uuid \<Rightarrow> acl_override_request \<Rightarrow> document_db \<Rightarrow>
   (doc_error, acl_override_row) result \<times> document_db" where
  "insert_acl_override new_id now workspace_id doc_id p db =
     (if list_ex (\<lambda>a. ac_id a = new_id) (dd_overrides db) then (Err DConflict, db)
      else if \<not> list_ex (\<lambda>r. do_id r = doc_id) (dd_documents db) then (Err DInternal, db)
      else let a = \<lparr>ac_id = new_id, ac_workspace_id = workspace_id, ac_doc_id = doc_id,
                    ac_subject_type = aq_subject_type p, ac_subject_id = aq_subject_id p, ac_role = aq_role p,
                    ac_expires_at = aq_expires_at p, ac_created_at = now\<rparr>
           in (Okay a, db\<lparr>dd_overrides := dd_overrides db @ [a]\<rparr>))"

text \<open>Both, when nothing comes between.\<close>

definition create_acl_override_pg ::
  "doc_env \<Rightarrow> uuid \<Rightarrow> micros \<Rightarrow> uuid \<Rightarrow> uuid \<Rightarrow> acl_override_request \<Rightarrow> document_db \<Rightarrow>
   (doc_error, acl_override_row) result \<times> document_db" where
  "create_acl_override_pg E new_id now workspace_id doc_id p db =
     (case acl_override_document E workspace_id doc_id db of
        Inl e \<Rightarrow> (Err e, db)
      | Inr _ \<Rightarrow> insert_acl_override new_id now workspace_id doc_id p db)"

definition delete_acl_override_pg :: "uuid \<Rightarrow> uuid \<Rightarrow> uuid \<Rightarrow> document_db \<Rightarrow> (doc_error, unit) result \<times> document_db" where
  "delete_acl_override_pg workspace_id doc_id override_id db =
     (let hit = (\<lambda>a :: acl_override_row. ac_id a = override_id \<and> ac_workspace_id a = workspace_id \<and> ac_doc_id a = doc_id) in
      if \<not> list_ex hit (dd_overrides db) then (Err DNotFound, db)
      else (Okay (), db\<lparr>dd_overrides := filter (\<lambda>a. \<not> hit a) (dd_overrides db)\<rparr>))"

section \<open>Handlers\<close>

definition try_record_document_audit_event ::
  "doc_env \<Rightarrow> micros \<Rightarrow> rstr option \<Rightarrow> uuid \<Rightarrow> uuid \<Rightarrow> audit_event_type \<Rightarrow> uuid \<Rightarrow> json \<Rightarrow> document_db \<Rightarrow> document_db" where
  "try_record_document_audit_event E now request_id actor workspace_id event_type doc_id details db =
     db\<lparr>dd_audit := snd (record_event (de_api E) now
          \<lparr>na_workspace_id = Some workspace_id, na_actor_user_id = Some actor, na_actor_agent_id = None,
           na_event_type = event_type, na_entity_type = lit ''document'',
           na_entity_id = uuid_string (de_api E) doc_id, na_request_id = request_id, na_ip_address = None,
           na_user_agent = None, na_details = Some details\<rparr>
          (dd_audit db))\<rparr>"

definition change_details :: "rstr \<Rightarrow> document \<Rightarrow> json" where
  "change_details action d =
     JObject [(lit ''action'', JString action), (lit ''path'', JString (dv_path d)), (lit ''title'', json_text (dv_title d)),
              (lit ''head_seq'', JNumber (show_int (dv_head_seq d)))]"

text \<open>The two transactions of a \<open>POST\<close>, and the request with its checks.\<close>

definition create_document_write ::
  "doc_env \<Rightarrow> doc_draws \<Rightarrow> rstr option \<Rightarrow> authenticated_user \<Rightarrow> uuid \<Rightarrow> create_document_request \<Rightarrow> rstr list option \<Rightarrow>
   document_db \<Rightarrow> (doc_error, document) result \<times> document_db" where
  "create_document_write E w request_id user ws_id p normalized_tags db =
     (case create_pg E (dw_id w) (dw_etag w) (dw_clock w 0) ws_id (au_user_id user) (cq_path p) (cq_title p) db of
        (Inl e, db1) \<Rightarrow> (Err e, db1)
      | (Inr d0, db1) \<Rightarrow>
          (case (case normalized_tags of
                   None \<Rightarrow> (Okay d0, db1)
                 | Some tags \<Rightarrow> update_tags_pg E (dw_tag_ids w) (dw_tags_etag w) (dw_clock w 1) ws_id (dv_id d0) TagAdd tags db1) of
             (Inl e, db2) \<Rightarrow> (Err e, db2)
           | (Inr d, db2) \<Rightarrow>
               (Okay d, try_record_document_audit_event E (dw_clock w 2) request_id (au_user_id user) ws_id AdminAction
                  (dv_id d) (change_details (lit ''create'') d) db2)))"

definition create_document ::
  "doc_env \<Rightarrow> doc_draws \<Rightarrow> rstr option \<Rightarrow> authenticated_user \<Rightarrow> uuid \<Rightarrow> create_document_request \<Rightarrow> document_db \<Rightarrow>
   (doc_error, document) result \<times> document_db" where
  "create_document E w request_id user ws_id p db =
     (case doc_require_workspace_role db user ws_id Editor of Inl e \<Rightarrow> (Err e, db) | Inr _ \<Rightarrow>
      (case validate_path (cq_path p) of Inl e \<Rightarrow> (Err e, db) | Inr _ \<Rightarrow>
       (case (if cq_tags p = [] then Okay None else map_sum id Some (normalize_tag_names E (cq_tags p))) of
          Inl e \<Rightarrow> (Err e, db)
        | Inr normalized_tags \<Rightarrow> create_document_write E w request_id user ws_id p normalized_tags db)))"

definition list_documents ::
  "doc_env \<Rightarrow> document_db \<Rightarrow> authenticated_user \<Rightarrow> uuid \<Rightarrow> list_documents_query \<Rightarrow>
   (doc_error, document list \<times> rstr option) result" where
  "list_documents E db user ws_id q =
     (case doc_require_workspace_role db user ws_id Viewer of Inl e \<Rightarrow> Err e | Inr _ \<Rightarrow>
      (case (case lq_cursor q of None \<Rightarrow> Okay None | Some raw \<Rightarrow> map_sum id Some (doc_parse_cursor E raw)) of
         Inl e \<Rightarrow> Err e
       | Inr c \<Rightarrow> Okay (list_pg E db ws_id (lq_path_prefix q) (normalize_archived_filter q) (doc_limit (lq_limit q)) c)))"

definition get_document ::
  "doc_env \<Rightarrow> micros \<Rightarrow> document_db \<Rightarrow> authenticated_user \<Rightarrow> uuid \<Rightarrow> uuid \<Rightarrow> (doc_error, document) result" where
  "get_document E now db user ws_id doc_id =
     (case require_document_role E now db user ws_id doc_id Viewer of
        Inl e \<Rightarrow> Err e
      | Inr _ \<Rightarrow> get_pg db ws_id doc_id)"

text \<open>A \<open>PATCH\<close> up to its read of the row, its \<open>UPDATE\<close>, and the whole request when nothing comes between.\<close>

definition update_document_check ::
  "doc_env \<Rightarrow> micros \<Rightarrow> authenticated_user \<Rightarrow> uuid \<Rightarrow> uuid \<Rightarrow> request \<Rightarrow> update_document_request \<Rightarrow> document_db \<Rightarrow>
   (doc_error, document) result" where
  "update_document_check E now user ws_id doc_id rq p db =
     (case require_document_role E now db user ws_id doc_id Editor of Inl e \<Rightarrow> Err e | Inr _ \<Rightarrow>
      (case (case uq_path p of None \<Rightarrow> Okay () | Some path \<Rightarrow> validate_path path) of Inl e \<Rightarrow> Err e | Inr _ \<Rightarrow>
       (case doc_if_match rq of Inl e \<Rightarrow> Err e | Inr if_match \<Rightarrow> update_read ws_id doc_id if_match db)))"

definition update_document_write ::
  "doc_env \<Rightarrow> doc_draws \<Rightarrow> rstr option \<Rightarrow> authenticated_user \<Rightarrow> uuid \<Rightarrow> uuid \<Rightarrow> document \<Rightarrow> update_document_request \<Rightarrow>
   document_db \<Rightarrow> (doc_error, document) result \<times> document_db" where
  "update_document_write E w request_id user ws_id doc_id current p db =
     (case update_write E (dw_etag w) (dw_clock w 1) (dw_clock w 2) ws_id doc_id current p db of
        (Inl e, db1) \<Rightarrow> (Err e, db1)
      | (Inr d, db1) \<Rightarrow>
          (Okay d, try_record_document_audit_event E (dw_clock w 3) request_id (au_user_id user) ws_id AdminAction
             (dv_id d) (change_details (lit ''update'') d) db1))"

definition update_document ::
  "doc_env \<Rightarrow> doc_draws \<Rightarrow> rstr option \<Rightarrow> authenticated_user \<Rightarrow> uuid \<Rightarrow> uuid \<Rightarrow> request \<Rightarrow> update_document_request \<Rightarrow>
   document_db \<Rightarrow> (doc_error, document) result \<times> document_db" where
  "update_document E w request_id user ws_id doc_id rq p db =
     (case update_document_check E (dw_clock w 0) user ws_id doc_id rq p db of
        Inl e \<Rightarrow> (Err e, db)
      | Inr current \<Rightarrow> update_document_write E w request_id user ws_id doc_id current p db)"

definition delete_document ::
  "doc_env \<Rightarrow> doc_draws \<Rightarrow> rstr option \<Rightarrow> authenticated_user \<Rightarrow> uuid \<Rightarrow> uuid \<Rightarrow> request \<Rightarrow> bool option \<Rightarrow> bool option \<Rightarrow>
   document_db \<Rightarrow> (doc_error, unit) result \<times> document_db" where
  "delete_document E w request_id user ws_id doc_id rq hard_delete hard_q db =
     (case require_document_role E (dw_clock w 0) db user ws_id doc_id Owner of Inl e \<Rightarrow> (Err e, db) | Inr _ \<Rightarrow>
      (case doc_if_match rq of Inl e \<Rightarrow> (Err e, db) | Inr if_match \<Rightarrow>
       (case update_read ws_id doc_id if_match db of Inl e \<Rightarrow> (Err e, db) | Inr current \<Rightarrow>
        let hard = (case hard_delete of Some h \<Rightarrow> h | None \<Rightarrow> (case hard_q of Some h \<Rightarrow> h | None \<Rightarrow> False)) in
        case delete_pg (dw_clock w 1) ws_id doc_id hard db of
          (Inl e, db1) \<Rightarrow> (Err e, db1)
        | (Inr _, db1) \<Rightarrow>
            (Okay (), try_record_document_audit_event E (dw_clock w 2) request_id (au_user_id user) ws_id AuditDelete doc_id
               (JObject [(lit ''action'', JString (lit ''delete'')), (lit ''hard_delete'', JBool hard)]) db1))))"

definition update_document_tags ::
  "doc_env \<Rightarrow> doc_draws \<Rightarrow> authenticated_user \<Rightarrow> uuid \<Rightarrow> uuid \<Rightarrow> document_tag_op \<Rightarrow> rstr list \<Rightarrow> document_db \<Rightarrow>
   (doc_error, document) result \<times> document_db" where
  "update_document_tags E w user ws_id doc_id op raw_tags db =
     (case require_document_role E (dw_clock w 0) db user ws_id doc_id Editor of Inl e \<Rightarrow> (Err e, db) | Inr _ \<Rightarrow>
      (case normalize_tag_names E raw_tags of Inl e \<Rightarrow> (Err e, db) | Inr tags \<Rightarrow>
       update_tags_pg E (dw_tag_ids w) (dw_etag w) (dw_clock w 1) ws_id doc_id op tags db))"

definition create_acl_override ::
  "doc_env \<Rightarrow> doc_draws \<Rightarrow> authenticated_user \<Rightarrow> uuid \<Rightarrow> uuid \<Rightarrow> acl_override_request \<Rightarrow> document_db \<Rightarrow>
   (doc_error, acl_override_row) result \<times> document_db" where
  "create_acl_override E w user ws_id doc_id p db =
     (case require_document_role E (dw_clock w 0) db user ws_id doc_id Owner of Inl e \<Rightarrow> (Err e, db) | Inr _ \<Rightarrow>
      (case validate_acl_override_request (dw_clock w 1) p of Inl e \<Rightarrow> (Err e, db) | Inr _ \<Rightarrow>
       create_acl_override_pg E (dw_id w) (dw_clock w 2) ws_id doc_id p db))"

definition delete_acl_override ::
  "doc_env \<Rightarrow> doc_draws \<Rightarrow> authenticated_user \<Rightarrow> uuid \<Rightarrow> uuid \<Rightarrow> uuid \<Rightarrow> document_db \<Rightarrow>
   (doc_error, unit) result \<times> document_db" where
  "delete_acl_override E w user ws_id doc_id override_id db =
     (case require_document_role E (dw_clock w 0) db user ws_id doc_id Owner of Inl e \<Rightarrow> (Err e, db) | Inr _ \<Rightarrow>
      delete_acl_override_pg ws_id doc_id override_id db)"

end
