(* ===== verification/DocumentRuns.thy ===== *)
theory DocumentRuns
  imports Documents
begin

text \<open>
  What the statements of \<open>Documents\<close> keep. \<open>doc_stmt\<close> is one committed statement or transaction of some
  request; since a handler is a sequence of them with reads in between, its closure covers every
  interleaving of requests.
\<close>

section \<open>Well-formed tables\<close>

abbreviation live :: "document_row \<Rightarrow> bool" where
  "live r \<equiv> do_deleted_at r = None"

definition doc_row_ok :: "doc_env \<Rightarrow> document_row \<Rightarrow> bool" where
  "doc_row_ok E r \<longleftrightarrow>
     do_path_norm r = normalize_doc_path E (do_path r) \<and> trim (do_path r) \<noteq> [] \<and> length (as_bytes (do_path r)) \<le> 512 \<and>
     (\<exists>u. do_etag r = generate_etag E u)"

text \<open>Two live documents of a workspace at one normal path.\<close>

definition clash :: "document_row \<Rightarrow> document_row \<Rightarrow> bool" where
  "clash r s \<longleftrightarrow> live r \<and> live s \<and> do_workspace_id r = do_workspace_id s \<and> do_path_norm r = do_path_norm s"

definition docs_ok :: "doc_env \<Rightarrow> document_row list \<Rightarrow> bool" where
  "docs_ok E docs \<longleftrightarrow>
     distinct (map do_id docs) \<and> list_all (doc_row_ok E) docs \<and>
     (\<forall>r \<in> set docs. \<forall>s \<in> set docs. clash r s \<longrightarrow> do_id r = do_id s)"

definition doc_ids :: "document_row list \<Rightarrow> (uuid \<times> uuid) set" where
  "doc_ids docs = (\<lambda>r. (do_id r, do_workspace_id r)) ` set docs"

definition tag_ids :: "tag_row list \<Rightarrow> (uuid \<times> uuid) set" where
  "tag_ids tags = (\<lambda>t. (tg_id t, tg_workspace_id t)) ` set tags"

definition tags_ok :: "tag_row list \<Rightarrow> bool" where
  "tags_ok tags \<longleftrightarrow>
     distinct (map tg_id tags) \<and> distinct (map (\<lambda>t. (tg_workspace_id t, tg_name t)) tags) \<and>
     list_all (\<lambda>t. tg_name t \<noteq> [] \<and> length (as_bytes (tg_name t)) \<le> 64) tags"

text \<open>A document has a tag once, and only tags of its own workspace.\<close>

definition links_ok :: "(uuid \<times> uuid) set \<Rightarrow> (uuid \<times> uuid) set \<Rightarrow> (uuid \<times> uuid) list \<Rightarrow> bool" where
  "links_ok docs tags links \<longleftrightarrow>
     distinct links \<and> (\<forall>l \<in> set links. \<exists>ws. (fst l, ws) \<in> docs \<and> (snd l, ws) \<in> tags)"

definition override_ok :: "acl_override_row \<Rightarrow> bool" where
  "override_ok a \<longleftrightarrow>
     ac_subject_type a \<in> {lit ''user'', lit ''agent'', lit ''share_link''} \<and> trim (ac_subject_id a) \<noteq> [] \<and>
     (ac_role a = lit ''editor'' \<or> ac_role a = lit ''viewer'')"

definition overrides_ok :: "(uuid \<times> uuid) set \<Rightarrow> acl_override_row list \<Rightarrow> bool" where
  "overrides_ok docs as \<longleftrightarrow>
     distinct (map ac_id as) \<and> list_all override_ok as \<and> (\<forall>a \<in> set as. (ac_doc_id a, ac_workspace_id a) \<in> docs)"

definition documents_ok :: "doc_env \<Rightarrow> document_db \<Rightarrow> bool" where
  "documents_ok E db \<longleftrightarrow>
     docs_ok E (dd_documents db) \<and> tags_ok (dd_tags db) \<and>
     links_ok (doc_ids (dd_documents db)) (tag_ids (dd_tags db)) (dd_document_tags db) \<and>
     overrides_ok (doc_ids (dd_documents db)) (dd_overrides db)"

definition empty_documents :: document_db where
  "empty_documents = \<lparr>dd_documents = [], dd_tags = [], dd_document_tags = [], dd_overrides = [],
     dd_members = [], dd_linked = [], dd_audit = []\<rparr>"

section \<open>Rows\<close>

lemma clash_sym: "clash r s \<Longrightarrow> clash s r"
  by (simp add: clash_def)

lemma path_taken_clash:
  "live r \<Longrightarrow> path_taken (do_workspace_id r) (do_path_norm r) docs \<longleftrightarrow> (\<exists>s \<in> set docs. clash s r)"
  by (auto simp: path_taken_def list_ex_iff clash_def)

lemma docs_ok_append:
  assumes "docs_ok E docs" "doc_row_ok E r" "do_id r \<notin> do_id ` set docs" "live r"
    "\<not> path_taken (do_workspace_id r) (do_path_norm r) docs"
  shows "docs_ok E (docs @ [r])"
proof -
  have "\<not> clash s r" "\<not> clash r s" if "s \<in> set docs" for s
    using assms(4,5) that clash_sym by (auto simp: path_taken_clash)
  then show ?thesis using assms(1-3) unfolding docs_ok_def by simp
qed

definition put_row :: "document_row \<Rightarrow> document_row list \<Rightarrow> document_row list" where
  "put_row r docs = map (\<lambda>x. if do_id x = do_id r then r else x) docs"

lemma set_doc_fields [simp]:
  "dd_documents (set_doc r db) = put_row r (dd_documents db)" "dd_tags (set_doc r db) = dd_tags db"
  "dd_document_tags (set_doc r db) = dd_document_tags db" "dd_overrides (set_doc r db) = dd_overrides db"
  "dd_members (set_doc r db) = dd_members db" "dd_linked (set_doc r db) = dd_linked db"
  by (simp_all add: set_doc_def put_row_def)

lemma put_row_cases:
  assumes "x \<in> set (put_row r docs)"
  obtains "x = r" | "x \<in> set docs" "do_id x \<noteq> do_id r"
  using assms by (auto simp: put_row_def split: if_splits)

lemma put_row_ids [simp]: "map do_id (put_row r docs) = map do_id docs"
  by (induction docs) (auto simp: put_row_def)

lemma put_row_doc_ids:
  assumes "distinct (map do_id docs)" "r0 \<in> set docs" "do_id r = do_id r0" "do_workspace_id r = do_workspace_id r0"
  shows "doc_ids (put_row r docs) = doc_ids docs"
proof -
  have "do_workspace_id x = do_workspace_id r" if "x \<in> set docs" "do_id x = do_id r" for x
    using assms that by (metis distinct_map inj_onD)
  then have "map (\<lambda>x. (do_id x, do_workspace_id x)) (put_row r docs) = map (\<lambda>x. (do_id x, do_workspace_id x)) docs"
    by (auto simp: put_row_def)
  then show ?thesis unfolding doc_ids_def by (metis list.set_map)
qed

text \<open>A row is replaced by one with a path that no other live document of the workspace has.\<close>

lemma docs_ok_put_row:
  assumes "docs_ok E docs" "doc_row_ok E r"
    "live r \<Longrightarrow> \<not> path_taken (do_workspace_id r) (do_path_norm r) (filter (\<lambda>x. do_id x \<noteq> do_id r) docs)"
  shows "docs_ok E (put_row r docs)"
proof -
  have "\<not> clash s r" if s: "s \<in> set docs" "do_id s \<noteq> do_id r" for s
  proof
    assume c: "clash s r"
    then have "live r" by (simp add: clash_def)
    then have "\<not> (\<exists>s \<in> set (filter (\<lambda>x. do_id x \<noteq> do_id r) docs). clash s r)"
      using assms(3) path_taken_clash by blast
    then show False using c s by auto
  qed
  then have fresh: "\<not> clash r s" "\<not> clash s r" if "s \<in> set docs" "do_id s \<noteq> do_id r" for s
    using that clash_sym by blast+
  have old: "\<forall>x \<in> set docs. \<forall>y \<in> set docs. clash x y \<longrightarrow> do_id x = do_id y" using assms(1) by (simp add: docs_ok_def)
  have "do_id x = do_id y" if "x \<in> set (put_row r docs)" "y \<in> set (put_row r docs)" "clash x y" for x y
    using that fresh old by (metis put_row_cases)
  moreover have "list_all (doc_row_ok E) (put_row r docs)"
    using assms(1,2) by (auto simp: docs_ok_def list_all_iff elim: put_row_cases)
  ultimately show ?thesis using assms(1) unfolding docs_ok_def by simp
qed

lemma find_doc_SomeD:
  assumes "find_doc db ws i = Some r"
  shows "r \<in> set (dd_documents db) \<and> do_id r = i \<and> do_workspace_id r = ws \<and> live r"
  using assms by (auto simp: find_doc_def find_Some_iff live_doc_def)

text \<open>A row keeps its own path.\<close>

lemma own_path_free:
  assumes "docs_ok E docs" "r \<in> set docs" "live r"
  shows "\<not> path_taken (do_workspace_id r) (do_path_norm r) (filter (\<lambda>x. do_id x \<noteq> do_id r) docs)"
  using assms path_taken_clash [OF assms(3)] by (auto simp: docs_ok_def)

lemma validate_path_ok:
  "validate_path path = Okay () \<longleftrightarrow> trim path \<noteq> [] \<and> length (as_bytes path) \<le> 512"
  by (simp add: validate_path_def)

lemma normalize_tags_ok:
  assumes "normalize_tags E raws seen out = Okay tags" "list_all (\<lambda>t. t \<noteq> [] \<and> length (as_bytes t) \<le> 64) out"
    "distinct out" "set seen = set out"
  shows "list_all (\<lambda>t. t \<noteq> [] \<and> length (as_bytes t) \<le> 64) tags \<and> distinct tags"
  using assms
proof (induction raws arbitrary: seen out)
  case (Cons raw raws)
  let ?t = "de_lower E (trim raw)"
  have n: "?t \<noteq> []" "length (as_bytes ?t) \<le> 64"
    "normalize_tags E raws (if ?t \<in> set seen then seen else ?t # seen) (if ?t \<in> set seen then out else out @ [?t]) = Okay tags"
    using Cons.prems(1) by (simp_all add: Let_def split: if_splits)
  show ?case by (rule Cons.IH [OF n(3)]) (use Cons.prems n in simp_all)
qed simp

lemma normalize_tag_names_ok:
  "normalize_tag_names E raws = Okay tags \<Longrightarrow> list_all (\<lambda>t. t \<noteq> [] \<and> length (as_bytes t) \<le> 64) tags \<and> distinct tags"
  using normalize_tags_ok [of E raws "[]" "[]" tags] by (simp add: normalize_tag_names_def split: if_splits)

section \<open>Statements\<close>

text \<open>What a statement that succeeds writes.\<close>

lemma new_document_fields [simp]:
  "do_id (new_document E i u now ws creator path title) = i"
  "do_workspace_id (new_document E i u now ws creator path title) = ws"
  "do_path (new_document E i u now ws creator path title) = path"
  "do_path_norm (new_document E i u now ws creator path title) = normalize_doc_path E path"
  "do_etag (new_document E i u now ws creator path title) = generate_etag E u"
  "do_deleted_at (new_document E i u now ws creator path title) = None"
  by (simp_all add: new_document_def)

lemma updated_document_fields [simp]:
  "do_id (updated_document E u t now c p r) = do_id r"
  "do_workspace_id (updated_document E u t now c p r) = do_workspace_id r"
  "do_path (updated_document E u t now c p r) = (case uq_path p of None \<Rightarrow> do_path r | Some v \<Rightarrow> v)"
  "do_path_norm (updated_document E u t now c p r) =
     (case uq_path p of None \<Rightarrow> do_path_norm r | Some v \<Rightarrow> normalize_doc_path E v)"
  "do_title (updated_document E u t now c p r) = (case uq_title p of None \<Rightarrow> do_title r | Some v \<Rightarrow> Some v)"
  "do_etag (updated_document E u t now c p r) = generate_etag E u"
  "do_deleted_at (updated_document E u t now c p r) = do_deleted_at r"
  by (simp_all add: updated_document_def)

lemma create_pg_Okay:
  assumes "create_pg E i u now ws creator path title db = (Okay d, db1)"
  shows "i \<notin> do_id ` set (dd_documents db)" "\<not> path_taken ws (normalize_doc_path E path) (dd_documents db)"
    "db1 = db\<lparr>dd_documents := dd_documents db @ [new_document E i u now ws creator path title]\<rparr>"
    "d = document_of (new_document E i u now ws creator path title)"
  using assms by (auto simp: create_pg_def Let_def list_ex_iff split: if_splits)

lemma update_write_Okay:
  assumes "update_write E u t now ws i current p db = (Okay d, db1)"
  obtains r where "find_doc db ws i = Some r" "db1 = set_doc (updated_document E u t now current p r) db"
    "d = document_of (updated_document E u t now current p r)"
    "\<And>v. uq_path p = Some v \<Longrightarrow>
       \<not> path_taken ws (normalize_doc_path E v) (filter (\<lambda>x. do_id x \<noteq> i) (dd_documents db))"
  using assms by (auto simp: update_write_def Let_def split: if_splits option.splits)

lemma update_tags_Okay:
  assumes "update_tags_pg E ids u now ws i op tags db = (Okay d, db1)"
  obtains r r' db0 where "find_doc db ws i = Some r" "r' = r\<lparr>do_etag := generate_etag E u, do_updated_at := now\<rparr>"
    "op = TagAdd \<and> add_tags ids 0 ws i tags db = Some db0 \<or> op = TagRemove \<and> db0 = fold (remove_tag ws i) tags db"
    "d = document_of r'" "db1 = set_doc r' db0"
  using assms by (cases op) (auto simp: update_tags_pg_def Let_def split: option.splits if_splits)

lemma find_doc_members:
  assumes "documents_ok E db" "find_doc db ws i = Some r"
  shows "(i, ws) \<in> doc_ids (dd_documents db)" "doc_row_ok E r"
  using assms find_doc_SomeD [OF assms(2)] by (auto simp: doc_ids_def documents_ok_def docs_ok_def list_all_iff)

lemma links_ok_mono: "links_ok D T links \<Longrightarrow> D \<subseteq> D' \<Longrightarrow> T \<subseteq> T' \<Longrightarrow> links_ok D' T' links"
  unfolding links_ok_def by (meson subsetD)

lemma overrides_ok_mono: "overrides_ok D as \<Longrightarrow> D \<subseteq> D' \<Longrightarrow> overrides_ok D' as"
  unfolding overrides_ok_def by (meson subsetD)

lemma documents_ok_more_docs:
  assumes "documents_ok E db" "docs_ok E (dd_documents db @ [r])"
  shows "documents_ok E (db\<lparr>dd_documents := dd_documents db @ [r]\<rparr>)"
proof -
  have "doc_ids (dd_documents db) \<subseteq> doc_ids (dd_documents db @ [r])" by (auto simp: doc_ids_def)
  then show ?thesis using assms by (auto simp: documents_ok_def elim!: links_ok_mono overrides_ok_mono)
qed

lemma documents_ok_set_doc:
  assumes "documents_ok E db" "find_doc db ws (do_id r) = Some r0" "do_workspace_id r = ws" "doc_row_ok E r"
    "live r \<Longrightarrow> \<not> path_taken ws (do_path_norm r) (filter (\<lambda>x. do_id x \<noteq> do_id r) (dd_documents db))"
  shows "documents_ok E (set_doc r db)"
proof -
  note f = find_doc_SomeD [OF assms(2)]
  have "doc_ids (put_row r (dd_documents db)) = doc_ids (dd_documents db)"
    by (rule put_row_doc_ids [of _ r0]) (use assms(1,3) f in \<open>auto simp: documents_ok_def docs_ok_def\<close>)
  moreover have "docs_ok E (put_row r (dd_documents db))"
    by (rule docs_ok_put_row) (use assms in \<open>auto simp: documents_ok_def\<close>)
  ultimately show ?thesis using assms(1) by (simp add: documents_ok_def)
qed

text \<open>A row that keeps its path.\<close>

lemma documents_ok_touch:
  assumes "documents_ok E db" "find_doc db ws i = Some r0" "do_id r = i" "do_workspace_id r = ws"
    "do_path r = do_path r0" "do_path_norm r = do_path_norm r0" "\<exists>u. do_etag r = generate_etag E u"
  shows "documents_ok E (set_doc r db)"
proof (rule documents_ok_set_doc [OF assms(1)])
  note f = find_doc_SomeD [OF assms(2)]
  show "find_doc db ws (do_id r) = Some r0" "do_workspace_id r = ws" using assms by auto
  show "doc_row_ok E r" using find_doc_members(2) [OF assms(1,2)] assms by (simp add: doc_row_ok_def)
  show "\<not> path_taken ws (do_path_norm r) (filter (\<lambda>x. do_id x \<noteq> do_id r) (dd_documents db))"
    using own_path_free [of E "dd_documents db" r0] f assms by (auto simp: documents_ok_def)
qed

lemma create_pg_keeps:
  assumes "documents_ok E db" "validate_path path = Okay ()" "create_pg E i u now ws creator path title db = (Okay d, db1)"
  shows "documents_ok E db1"
proof -
  note c = create_pg_Okay [OF assms(3)]
  have "docs_ok E (dd_documents db @ [new_document E i u now ws creator path title])"
    by (rule docs_ok_append) (use assms c in \<open>auto simp: documents_ok_def doc_row_ok_def validate_path_ok\<close>)
  then show ?thesis using c(3) documents_ok_more_docs [OF assms(1)] by simp
qed

lemma update_write_keeps:
  assumes "documents_ok E db" "\<And>v. uq_path p = Some v \<Longrightarrow> validate_path v = Okay ()"
    "update_write E u t now ws i current p db = (Okay d, db1)"
  shows "documents_ok E db1"
  using assms(3)
proof (rule update_write_Okay)
  fix r
  assume f: "find_doc db ws i = Some r" and db1: "db1 = set_doc (updated_document E u t now current p r) db"
    and free: "\<And>v. uq_path p = Some v \<Longrightarrow>
       \<not> path_taken ws (normalize_doc_path E v) (filter (\<lambda>x. do_id x \<noteq> i) (dd_documents db))"
  note r = find_doc_SomeD [OF f]
  show ?thesis
  proof (cases "uq_path p")
    case None
    then show ?thesis unfolding db1 by (intro documents_ok_touch [OF assms(1) f]) (use r in auto)
  next
    case (Some v)
    then show ?thesis unfolding db1
      by (intro documents_ok_set_doc [OF assms(1)])
        (use r f free [OF Some] assms(2) [OF Some] in \<open>auto simp: doc_row_ok_def validate_path_ok\<close>)
  qed
qed

text \<open>A hard delete finds no row that refers to the document.\<close>

lemma hard_delete_keeps:
  assumes "documents_ok E db" "\<not> referenced i db"
  shows "documents_ok E (db\<lparr>dd_documents := filter (\<lambda>r. \<not> (do_id r = i \<and> do_workspace_id r = ws)) (dd_documents db)\<rparr>)"
proof -
  let ?docs = "filter (\<lambda>r. \<not> (do_id r = i \<and> do_workspace_id r = ws)) (dd_documents db)"
  have kept: "(j, w) \<in> doc_ids ?docs" if "(j, w) \<in> doc_ids (dd_documents db)" "j \<noteq> i" for j w
    using that by (auto simp: doc_ids_def)
  have "docs_ok E ?docs"
    using assms(1) by (auto simp: documents_ok_def docs_ok_def list_all_iff distinct_map_filter)
  moreover have "links_ok (doc_ids ?docs) (tag_ids (dd_tags db)) (dd_document_tags db)"
  proof -
    have "fst l \<noteq> i" if "l \<in> set (dd_document_tags db)" for l using assms(2) that by (auto simp: referenced_def)
    then show ?thesis using assms(1) kept unfolding documents_ok_def links_ok_def by meson
  qed
  moreover have "overrides_ok (doc_ids ?docs) (dd_overrides db)"
  proof -
    have "ac_doc_id a \<noteq> i" if "a \<in> set (dd_overrides db)" for a using assms(2) that by (auto simp: referenced_def)
    then show ?thesis using assms(1) kept unfolding documents_ok_def overrides_ok_def by meson
  qed
  ultimately show ?thesis using assms(1) by (simp add: documents_ok_def)
qed

lemma delete_pg_keeps:
  assumes "documents_ok E db" "delete_pg now ws i hard db = (Okay u, db1)"
  shows "documents_ok E db1"
proof (cases hard)
  case True
  then show ?thesis using assms hard_delete_keeps by (auto simp: delete_pg_def split: if_splits)
next
  case False
  then obtain r where f: "find_doc db ws i = Some r" and db1: "db1 = set_doc (r\<lparr>do_deleted_at := Some now\<rparr>) db"
    using assms(2) by (auto simp: delete_pg_def split: option.splits)
  show ?thesis unfolding db1
    by (rule documents_ok_touch [OF assms(1) f])
      (use find_doc_SomeD [OF f] find_doc_members(2) [OF assms(1) f] in \<open>auto simp: doc_row_ok_def\<close>)
qed

text \<open>Tags.\<close>

lemma link_tag_keeps:
  assumes "documents_ok E db" "(i, ws) \<in> doc_ids (dd_documents db)" "(t, ws) \<in> tag_ids (dd_tags db)"
  shows "documents_ok E (link_tag i t db)"
  using assms by (auto simp: documents_ok_def link_tag_def links_ok_def)

lemma new_tag_keeps:
  assumes "documents_ok E db" "find_tag db ws name = None" "\<not> list_ex (\<lambda>t. tg_id t = i) (dd_tags db)"
    "name \<noteq> []" "length (as_bytes name) \<le> 64"
  shows "documents_ok E (db\<lparr>dd_tags := dd_tags db @ [\<lparr>tg_id = i, tg_workspace_id = ws, tg_name = name\<rparr>]\<rparr>)"
proof -
  have "tags_ok (dd_tags db @ [\<lparr>tg_id = i, tg_workspace_id = ws, tg_name = name\<rparr>])"
    using assms by (auto simp: documents_ok_def tags_ok_def find_tag_def find_None_iff list_ex_iff)
  moreover have "tag_ids (dd_tags db) \<subseteq> tag_ids (dd_tags db @ [\<lparr>tg_id = i, tg_workspace_id = ws, tg_name = name\<rparr>])"
    by (auto simp: tag_ids_def)
  ultimately show ?thesis using assms(1) by (auto simp: documents_ok_def elim!: links_ok_mono)
qed

lemma add_tag_keeps:
  assumes "documents_ok E db" "(i, ws) \<in> doc_ids (dd_documents db)" "name \<noteq> []" "length (as_bytes name) \<le> 64"
    "add_tag t ws i name db = Some db1"
  shows "documents_ok E db1 \<and> dd_documents db1 = dd_documents db"
proof (cases "find_tag db ws name")
  case None
  let ?db = "db\<lparr>dd_tags := dd_tags db @ [\<lparr>tg_id = t, tg_workspace_id = ws, tg_name = name\<rparr>]\<rparr>"
  have n: "\<not> list_ex (\<lambda>q. tg_id q = t) (dd_tags db)" "db1 = link_tag i t ?db"
    using assms(5) None by (auto simp: add_tag_def split: if_splits)
  have "documents_ok E (link_tag i t ?db)"
    by (rule link_tag_keeps [OF new_tag_keeps [OF assms(1) None n(1) assms(3,4)]])
      (use assms(2) in \<open>auto simp: tag_ids_def\<close>)
  then show ?thesis using n by (simp add: link_tag_def)
next
  case (Some q)
  then have "(tg_id q, ws) \<in> tag_ids (dd_tags db)" by (auto simp: find_tag_def find_Some_iff tag_ids_def)
  then show ?thesis using link_tag_keeps [OF assms(1,2)] assms(5) Some by (auto simp: add_tag_def link_tag_def)
qed

lemma add_tags_keeps:
  assumes "documents_ok E db" "(i, ws) \<in> doc_ids (dd_documents db)"
    "list_all (\<lambda>t. t \<noteq> [] \<and> length (as_bytes t) \<le> 64) tags" "add_tags ids k ws i tags db = Some db1"
  shows "documents_ok E db1 \<and> dd_documents db1 = dd_documents db"
  using assms
proof (induction tags arbitrary: k db)
  case (Cons t ts)
  obtain db0 where "add_tag (ids k) ws i t db = Some db0" "add_tags ids (Suc k) ws i ts db0 = Some db1"
    using Cons.prems(4) by (auto simp: bind_eq_Some_conv)
  moreover from this(1) have "documents_ok E db0 \<and> dd_documents db0 = dd_documents db"
    by (rule add_tag_keeps [OF Cons.prems(1,2), rotated 2]) (use Cons.prems(3) in simp_all)
  ultimately show ?case using Cons.IH [of db0] Cons.prems(2,3) by simp
qed simp

lemma remove_tag_keeps:
  "documents_ok E db \<Longrightarrow> documents_ok E (remove_tag ws i name db) \<and> dd_documents (remove_tag ws i name db) = dd_documents db"
  by (auto simp: remove_tag_def documents_ok_def links_ok_def split: option.splits)

lemma remove_tags_keeps:
  "documents_ok E db \<Longrightarrow>
   documents_ok E (fold (remove_tag ws i) tags db) \<and> dd_documents (fold (remove_tag ws i) tags db) = dd_documents db"
  by (induction tags arbitrary: db) (simp_all add: remove_tag_keeps)

lemma update_tags_keeps:
  assumes "documents_ok E db" "normalize_tag_names E raws = Okay tags" "update_tags_pg E ids u now ws i op tags db = (Okay d, db1)"
  shows "documents_ok E db1"
  using assms(3)
proof (rule update_tags_Okay)
  fix r r' db0
  assume f: "find_doc db ws i = Some r" and r': "r' = r\<lparr>do_etag := generate_etag E u, do_updated_at := now\<rparr>"
    and op: "op = TagAdd \<and> add_tags ids 0 ws i tags db = Some db0 \<or> op = TagRemove \<and> db0 = fold (remove_tag ws i) tags db"
    and db1: "db1 = set_doc r' db0"
  have db0: "documents_ok E db0" "dd_documents db0 = dd_documents db"
    using op add_tags_keeps [OF assms(1) find_doc_members(1) [OF assms(1) f]] normalize_tag_names_ok [OF assms(2)]
      remove_tags_keeps [OF assms(1), of ws i tags] by auto
  then have "find_doc db0 ws i = Some r" using f by (simp add: find_doc_def)
  then show ?thesis unfolding db1 r'
    by (rule documents_ok_touch [OF db0(1)]) (use find_doc_SomeD [OF f] in auto)
qed

text \<open>Overrides.\<close>

lemma create_override_keeps:
  assumes "documents_ok E db" "validate_acl_override_request t p = Okay ()" "(doc, ws) \<in> doc_ids (dd_documents db)"
    "insert_acl_override i now ws doc p db = (Okay a, db1)"
  shows "documents_ok E db1"
proof -
  have i: "i \<notin> ac_id ` set (dd_overrides db)"
    and a: "ac_id a = i" "ac_workspace_id a = ws" "ac_doc_id a = doc" "ac_subject_type a = aq_subject_type p"
      "ac_subject_id a = aq_subject_id p" "ac_role a = aq_role p"
    and db1: "db1 = db\<lparr>dd_overrides := dd_overrides db @ [a]\<rparr>"
    using assms(4) by (fastforce simp: insert_acl_override_def Let_def list_ex_iff split: if_splits)+
  have "override_ok a" using assms(2) a by (auto simp: override_ok_def validate_acl_override_request_def split: if_splits)
  then show ?thesis using assms(1,3) a i unfolding db1 by (auto simp: documents_ok_def overrides_ok_def)
qed

lemma delete_override_keeps:
  assumes "documents_ok E db" "delete_acl_override_pg ws doc i db = (Okay u, db1)"
  shows "documents_ok E db1"
  using assms
  by (auto simp: delete_acl_override_pg_def Let_def documents_ok_def overrides_ok_def list_all_iff distinct_map_filter
      split: if_splits)

section \<open>Runs\<close>

text \<open>
  One committed statement or transaction, with its entity tag drawn from \<open>U\<close>; \<open>others\<close> are the requests of
  other endpoints, which change the members and what refers to documents. An override is inserted
  while the row of the document that its request found is still there, deleted or not; without the
  row the foreign key refuses it.
\<close>

inductive doc_stmt :: "doc_env \<Rightarrow> uuid set \<Rightarrow> document_db \<Rightarrow> document_db \<Rightarrow> bool" for E U where
  insert_doc: "validate_path path = Okay () \<Longrightarrow> u \<in> U \<Longrightarrow>
     create_pg E i u now ws creator path title db = (Okay d, db1) \<Longrightarrow> doc_stmt E U db db1"
| update_doc: "(\<And>v. uq_path p = Some v \<Longrightarrow> validate_path v = Okay ()) \<Longrightarrow> u \<in> U \<Longrightarrow>
     update_write E u t now ws i current p db = (Okay d, db1) \<Longrightarrow> doc_stmt E U db db1"
| delete_doc: "delete_pg now ws i hard db = (Okay (), db1) \<Longrightarrow> doc_stmt E U db db1"
| tag_doc: "normalize_tag_names E raws = Okay tags \<Longrightarrow> u \<in> U \<Longrightarrow>
     update_tags_pg E ids u now ws i op tags db = (Okay d, db1) \<Longrightarrow> doc_stmt E U db db1"
| add_override: "validate_acl_override_request t p = Okay () \<Longrightarrow> (doc, ws) \<in> doc_ids (dd_documents db) \<Longrightarrow>
     insert_acl_override i now ws doc p db = (Okay a, db1) \<Longrightarrow> doc_stmt E U db db1"
| drop_override: "delete_acl_override_pg ws doc i db = (Okay (), db1) \<Longrightarrow> doc_stmt E U db db1"
| audit: "doc_stmt E U db (try_record_document_audit_event E now rid actor ws ty i details db)"
| others: "doc_stmt E U db (db\<lparr>dd_members := ms, dd_linked := ds\<rparr>)"

abbreviation doc_stmts :: "doc_env \<Rightarrow> uuid set \<Rightarrow> document_db \<Rightarrow> document_db \<Rightarrow> bool" where
  "doc_stmts E U \<equiv> (doc_stmt E U)\<^sup>*\<^sup>*"

lemma audit_doc_fields [simp]:
  "dd_documents (try_record_document_audit_event E now rid actor ws ty i details db) = dd_documents db"
  "dd_tags (try_record_document_audit_event E now rid actor ws ty i details db) = dd_tags db"
  "dd_document_tags (try_record_document_audit_event E now rid actor ws ty i details db) = dd_document_tags db"
  "dd_overrides (try_record_document_audit_event E now rid actor ws ty i details db) = dd_overrides db"
  "dd_members (try_record_document_audit_event E now rid actor ws ty i details db) = dd_members db"
  by (simp_all add: try_record_document_audit_event_def)

lemma doc_stmt_keeps: "doc_stmt E U db db1 \<Longrightarrow> documents_ok E db \<Longrightarrow> documents_ok E db1"
proof (induction rule: doc_stmt.induct)
  case (audit db now rid actor ws ty i details)
  then show ?case by (simp add: documents_ok_def)
next
  case (others db ms ds)
  then show ?case by (simp add: documents_ok_def)
qed (blast intro: create_pg_keeps update_write_keeps delete_pg_keeps update_tags_keeps create_override_keeps delete_override_keeps)+

lemma doc_stmts_keep: "doc_stmts E U db db1 \<Longrightarrow> documents_ok E db \<Longrightarrow> documents_ok E db1"
  by (induction rule: rtranclp_induct) (auto intro: doc_stmt_keeps)

text \<open>A statement that fails changes nothing.\<close>

lemma doc_failures:
  "create_pg E i u now ws creator path title db = (Err e, db1) \<Longrightarrow> db1 = db"
  "update_write E u t now ws i current p db = (Err e, db1) \<Longrightarrow> db1 = db"
  "delete_pg now ws i hard db = (Err e, db1) \<Longrightarrow> db1 = db"
  "update_tags_pg E ids u now ws i op tags db = (Err e, db1) \<Longrightarrow> db1 = db"
  "insert_acl_override i now ws doc q db = (Err e, db1) \<Longrightarrow> db1 = db"
  "delete_acl_override_pg ws doc i db = (Err e, db1) \<Longrightarrow> db1 = db"
  by (auto simp: create_pg_def update_write_def delete_pg_def update_tags_pg_def insert_acl_override_def
      delete_acl_override_pg_def Let_def split: if_splits option.splits)

text \<open>Each handler is a sequence of these statements.\<close>

lemma stmt_audit:
  "doc_stmt E U db db1 \<Longrightarrow> doc_stmts E U db (try_record_document_audit_event E now rid actor ws ty i details db1)"
  by (meson audit r_into_rtranclp rtranclp.rtrancl_into_rtrancl)

lemma update_document_stmts:
  assumes "update_document E w rid user ws i rq p db = (r, db1)" "dw_etag w \<in> U"
  shows "doc_stmts E U db db1"
proof (cases "update_document_check E (dw_clock w 0) user ws i rq p db")
  case (Inl e)
  then show ?thesis using assms(1) by (simp add: update_document_def)
next
  case (Inr current)
  have valid: "validate_path v = Okay ()" if "uq_path p = Some v" for v
    using Inr that by (auto simp: update_document_check_def split: sum.splits)
  obtain x db0 where u: "update_write E (dw_etag w) (dw_clock w 1) (dw_clock w 2) ws i current p db = (x, db0)" by fastforce
  show ?thesis
  proof (cases x)
    case (Inl e)
    then show ?thesis using assms(1) Inr u doc_failures(2) by (fastforce simp: update_document_def update_document_write_def)
  next
    case d: (Inr d)
    then have "doc_stmt E U db db0" using doc_stmt.update_doc [OF valid assms(2)] u by blast
    then show ?thesis using assms(1) Inr u d stmt_audit by (auto simp: update_document_def update_document_write_def)
  qed
qed

lemma delete_document_stmts:
  assumes "delete_document E w rid user ws i rq h1 h2 db = (r, db1)"
  shows "doc_stmts E U db db1"
proof -
  define hard where "hard = (case h1 of Some h \<Rightarrow> h | None \<Rightarrow> (case h2 of Some h \<Rightarrow> h | None \<Rightarrow> False))"
  obtain x db0 where d: "delete_pg (dw_clock w 1) ws i hard db = (x, db0)" by fastforce
  have "db1 = db \<or> x = Okay () \<and> (\<exists>now rid actor ws ty i details. db1 = try_record_document_audit_event E now rid actor ws ty i details db0)"
    using assms d doc_failures(3)
    by (cases x) (fastforce simp: delete_document_def Let_def simp flip: hard_def split: sum.splits)+
  then show ?thesis using d stmt_audit [OF doc_stmt.delete_doc] by auto
qed

lemma create_document_write_stmts:
  assumes "create_document_write E w rid user ws p nt db = (r, db1)" "dw_etag w \<in> U" "dw_tags_etag w \<in> U"
    "validate_path (cq_path p) = Okay ()" "\<And>tags. nt = Some tags \<Longrightarrow> \<exists>raws. normalize_tag_names E raws = Okay tags"
  shows "doc_stmts E U db db1"
proof -
  obtain x db0 where c: "create_pg E (dw_id w) (dw_etag w) (dw_clock w 0) ws (au_user_id user) (cq_path p) (cq_title p) db = (x, db0)"
    by fastforce
  show ?thesis
  proof (cases x)
    case (Inl e)
    then show ?thesis using assms(1) c doc_failures(1) by (fastforce simp: create_document_write_def)
  next
    case (Inr d0)
    have one: "doc_stmt E U db db0" using c unfolding Inr by (rule doc_stmt.insert_doc [OF assms(4,2)])
    show ?thesis
    proof (cases nt)
      case None
      then show ?thesis using assms(1) c Inr stmt_audit [OF one] by (auto simp: create_document_write_def)
    next
      case (Some tags)
      obtain raws where n: "normalize_tag_names E raws = Okay tags" using assms(5) [OF Some] by blast
      obtain y db2 where t: "update_tags_pg E (dw_tag_ids w) (dw_tags_etag w) (dw_clock w 1) ws (dv_id d0) TagAdd tags db0 = (y, db2)"
        by fastforce
      have "doc_stmts E U db0 db1"
      proof (cases y)
        case (Inl e)
        then have "db1 = db0" using assms(1) c Inr Some t doc_failures(4) by (fastforce simp: create_document_write_def)
        then show ?thesis by simp
      next
        case y: (Inr d)
        have "doc_stmt E U db0 db2" using t unfolding y by (rule doc_stmt.tag_doc [OF n assms(3)])
        then show ?thesis using assms(1) c Inr Some t y stmt_audit by (auto simp: create_document_write_def)
      qed
      then show ?thesis using one by (meson converse_rtranclp_into_rtranclp)
    qed
  qed
qed

lemma create_document_stmts:
  assumes "create_document E w rid user ws p db = (r, db1)" "dw_etag w \<in> U" "dw_tags_etag w \<in> U"
  shows "doc_stmts E U db db1"
proof (cases "db1 = db")
  case False
  have "validate_path (cq_path p) = Okay ()"
    using assms(1) False by (auto simp: create_document_def split: sum.splits)
  moreover obtain nt where "create_document_write E w rid user ws p nt db = (r, db1)"
      "\<And>tags. nt = Some tags \<Longrightarrow> normalize_tag_names E (cq_tags p) = Okay tags"
    using assms(1) False
    by (cases "normalize_tag_names E (cq_tags p)") (auto simp: create_document_def split: sum.splits if_splits)
  ultimately show ?thesis using create_document_write_stmts assms(2,3) by blast
qed simp

lemma update_document_tags_stmts:
  assumes "update_document_tags E w user ws i op raws db = (r, db1)" "dw_etag w \<in> U"
  shows "doc_stmts E U db db1"
  using assms by (cases r) (auto simp: update_document_tags_def split: sum.splits dest: doc_failures intro: doc_stmt.tag_doc)

lemma create_acl_override_stmts:
  assumes "create_acl_override E w user ws i p db = (r, db1)"
  shows "doc_stmts E U db db1"
proof (cases "validate_acl_override_request (dw_clock w 1) p = Okay () \<and> acl_override_document E ws i db = Okay ()")
  case True
  then obtain d where "find_doc db ws i = Some d" by (auto simp: acl_override_document_def split: option.splits)
  then have d: "(i, ws) \<in> doc_ids (dd_documents db)" using find_doc_SomeD by (fastforce simp: doc_ids_def)
  have "db1 = db \<or> (\<exists>a. insert_acl_override (dw_id w) (dw_clock w 2) ws i p db = (Okay a, db1))"
    using assms True doc_failures(5) [of "dw_id w" "dw_clock w 2" ws i p db]
    by (cases r) (auto simp: create_acl_override_def create_acl_override_pg_def split: sum.splits)
  then show ?thesis using True d doc_stmt.add_override [of "dw_clock w 1" p i ws db "dw_id w" "dw_clock w 2" _ db1 E U] by auto
next
  case False
  then have "db1 = db" using assms by (auto simp: create_acl_override_def create_acl_override_pg_def split: sum.splits)
  then show ?thesis by simp
qed

lemma delete_acl_override_stmts:
  assumes "delete_acl_override E w user ws i j db = (r, db1)"
  shows "doc_stmts E U db db1"
  using assms by (cases r) (auto simp: delete_acl_override_def split: sum.splits dest: doc_failures intro: doc_stmt.drop_override)

end
