(* ===== verification/DocumentEdits.thy ===== *)
theory DocumentEdits
  imports DocumentRuns
begin

text \<open>
  Entity tags of \<open>Documents\<close> over runs: an entity tag that was spent is refused for good, and two
  interleaved updates with one tag both succeed.
\<close>

section \<open>Requests one after the other\<close>

datatype doc_op =
    CreateDoc doc_draws "rstr option" authenticated_user uuid create_document_request
  | UpdateDoc doc_draws "rstr option" authenticated_user uuid uuid request update_document_request
  | DeleteDoc doc_draws "rstr option" authenticated_user uuid uuid request "bool option" "bool option"
  | TagDoc doc_draws authenticated_user uuid uuid document_tag_op "rstr list"
  | AddOverride doc_draws authenticated_user uuid uuid acl_override_request
  | DropOverride doc_draws authenticated_user uuid uuid uuid

fun doc_serve :: "doc_env \<Rightarrow> document_db \<Rightarrow> doc_op \<Rightarrow> document_db" where
  "doc_serve E db (CreateDoc w rid user ws p) = snd (create_document E w rid user ws p db)"
| "doc_serve E db (UpdateDoc w rid user ws i rq p) = snd (update_document E w rid user ws i rq p db)"
| "doc_serve E db (DeleteDoc w rid user ws i rq h1 h2) = snd (delete_document E w rid user ws i rq h1 h2 db)"
| "doc_serve E db (TagDoc w user ws i op raws) = snd (update_document_tags E w user ws i op raws db)"
| "doc_serve E db (AddOverride w user ws i p) = snd (create_acl_override E w user ws i p db)"
| "doc_serve E db (DropOverride w user ws i j) = snd (delete_acl_override E w user ws i j db)"

fun op_draws :: "doc_op \<Rightarrow> doc_draws" where
  "op_draws (CreateDoc w rid user ws p) = w"
| "op_draws (UpdateDoc w rid user ws i rq p) = w"
| "op_draws (DeleteDoc w rid user ws i rq h1 h2) = w"
| "op_draws (TagDoc w user ws i op raws) = w"
| "op_draws (AddOverride w user ws i p) = w"
| "op_draws (DropOverride w user ws i j) = w"

lemma doc_serve_stmts:
  assumes "dw_etag (op_draws op) \<in> U" "dw_tags_etag (op_draws op) \<in> U"
  shows "doc_stmts E U db (doc_serve E db op)"
proof (cases op)
  case (CreateDoc w rid user ws p)
  then show ?thesis using create_document_stmts [OF surjective_pairing, of w U] assms by simp
next
  case (UpdateDoc w rid user ws i rq p)
  then show ?thesis using update_document_stmts [OF surjective_pairing, of w U] assms by simp
next
  case (DeleteDoc w rid user ws i rq h1 h2)
  then show ?thesis using delete_document_stmts [OF surjective_pairing] by simp
next
  case (TagDoc w user ws i op raws)
  then show ?thesis using update_document_tags_stmts [OF surjective_pairing, of w U] assms by simp
next
  case (AddOverride w user ws i p)
  then show ?thesis using create_acl_override_stmts [OF surjective_pairing] by simp
next
  case (DropOverride w user ws i j)
  then show ?thesis using delete_acl_override_stmts [OF surjective_pairing] by simp
qed

interpretation documents: init_system "doc_serve E" "\<lambda>_ _. True" "documents_ok E" empty_documents for E
proof
  fix db op
  assume "documents_ok E db"
  then show "documents_ok E (doc_serve E db op)" using doc_stmts_keep [OF doc_serve_stmts, of op UNIV] by simp
next
  show "documents_ok E empty_documents"
    by (simp add: documents_ok_def empty_documents_def docs_ok_def tags_ok_def links_ok_def overrides_ok_def)
qed

lemma documents_ok_empty: "documents_ok E empty_documents"
  by (rule documents.inv_start)

text \<open>
  (C35) The document tables are well formed. Whatever statements the requests commit, in whatever
  interleaving: identifiers are unique; no two live documents of a workspace have the same normal
  path; every path is non-empty, at most 512 bytes long and stored with its normal form; tags are
  unique per workspace, non-empty and at most 64 bytes long; a document carries a tag once and only
  tags of its own workspace; every override names an existing document of its workspace and one of
  the roles editor and viewer. Every request is a sequence of such statements.
\<close>

theorem documents_well_formed:
  assumes "doc_stmts E U empty_documents db"
  shows "documents_ok E db \<and> (\<forall>op. doc_stmts E UNIV db (doc_serve E db op))"
  using doc_stmts_keep [OF assms documents_ok_empty] doc_serve_stmts [of _ UNIV] by simp

section \<open>Entity tags\<close>

text \<open>The text of a UUID has no quotes.\<close>

definition uuid_text_plain :: "api_env \<Rightarrow> bool" where
  "uuid_text_plain A \<longleftrightarrow> (\<forall>i. 34 \<notin> set (uuid_string A i))"

lemma trim_quoted: "trim (quoted s) = quoted s"
  by (simp add: trim_def trim_start_def trim_end_def quoted_def is_whitespace_def)

lemma no_quotes: "34 \<notin> set s \<Longrightarrow> dropWhile (\<lambda>c. c = 34) s = s" for s :: rstr
  by (cases s) auto

lemma normalize_generated:
  assumes "uuid_text_plain (de_api E)"
  shows "normalize_etag (generate_etag E u) = lit ''doc-'' @ uuid_string (de_api E) u"
proof -
  let ?s = "lit ''doc-'' @ uuid_string (de_api E) u"
  have no: "34 \<notin> set ?s" using assms by (auto simp: uuid_text_plain_def lit_def)
  have "dropWhile (\<lambda>c. c = 34) (quoted ?s) = ?s @ [34]" by (simp add: quoted_def lit_def)
  moreover have "dropWhile (\<lambda>c. c = 34) (rev ?s) = rev ?s"
    by (rule no_quotes) (use no in simp)
  ultimately have "trim_quotes (quoted ?s) = ?s" by (simp add: trim_quotes_def)
  moreover have "strip_prefix (lit ''W/'') (quoted ?s) = None" by (simp add: strip_prefix_def quoted_def lit_def)
  ultimately show ?thesis by (simp add: normalize_etag_def generate_etag_def trim_quoted)
qed

lemma generated_inj:
  assumes "api_env_laws (de_api E)" "uuid_text_plain (de_api E)" "normalize_etag (generate_etag E u) = normalize_etag (generate_etag E v)"
  shows "u = v"
  using assms(3) by (simp add: normalize_generated [OF assms(2)]) (metis api_env_laws_def assms(1) option.inject)

text \<open>The document does not carry the tag \<open>u\<close>; statements that draw other tags keep it so.\<close>

definition tag_differs :: "doc_env \<Rightarrow> uuid \<Rightarrow> uuid \<Rightarrow> document_row \<Rightarrow> bool" where
  "tag_differs E i u r \<longleftrightarrow> do_id r = i \<longrightarrow> (\<exists>v. v \<noteq> u \<and> do_etag r = generate_etag E v)"

definition tag_unused :: "doc_env \<Rightarrow> uuid \<Rightarrow> uuid \<Rightarrow> document_db \<Rightarrow> bool" where
  "tag_unused E i u db \<longleftrightarrow> list_all (tag_differs E i u) (dd_documents db)"







lemma update_read_Okay:
  assumes "update_read ws i v db = Okay current"
  obtains r where "find_doc db ws i = Some r" "current = document_of r" "etag_matches v (do_etag r)"
  using assms by (auto simp: update_read_def get_pg_def document_of_def split: option.splits if_splits)

lemma stale_read:
  assumes "api_env_laws (de_api E)" "uuid_text_plain (de_api E)" "tag_unused E i u db"
    "etag_matches v (generate_etag E u)" "trim v \<noteq> lit ''*''"
  shows "\<exists>e. update_read ws i v db = Err e"
proof (cases "update_read ws i v db")
  case (Inr current)
  then obtain r where r: "find_doc db ws i = Some r" "etag_matches v (do_etag r)" by (auto elim: update_read_Okay)
  then obtain v' where "v' \<noteq> u" "do_etag r = generate_etag E v'"
    using assms(3) find_doc_SomeD [OF r(1)] by (auto simp: tag_unused_def list_all_iff tag_differs_def)
  then have "normalize_etag (generate_etag E v') = normalize_etag (generate_etag E u)"
    using r(2) assms(4,5) by (simp add: etag_matches_def)
  then show ?thesis using generated_inj [OF assms(1,2)] \<open>v' \<noteq> u\<close> by blast
qed auto

text \<open>Every request that names a tag which the document does not carry is refused.\<close>

lemma stale_requests:
  assumes "api_env_laws (de_api E)" "uuid_text_plain (de_api E)" "tag_unused E i u db" "doc_if_match rq = Okay v"
    "etag_matches v (generate_etag E u)" "trim v \<noteq> lit ''*''"
  shows "(\<exists>e. fst (update_document E w rid user ws i rq p db) = Err e) \<and>
         (\<exists>e. fst (delete_document E w rid user ws i rq h1 h2 db) = Err e)"
proof -
  obtain e where "update_read ws i v db = Err e" using stale_read [OF assms(1-3,5,6)] by blast
  then show ?thesis using assms(4)
    by (auto simp: update_document_def update_document_check_def delete_document_def split: sum.splits)
qed


lemma update_spends_tag:
  assumes "documents_ok E db" "update_write E u' t now ws i current p db = (Okay d, db1)" "u' \<noteq> u"
  shows "tag_unused E i u db1"
  using assms(2)
proof (rule update_write_Okay)
  fix r
  assume f: "find_doc db ws i = Some r" and db1: "db1 = set_doc (updated_document E u' t now current p r) db"
  have "tag_differs E i u x" if "x \<in> set (put_row (updated_document E u' t now current p r) (dd_documents db))" for x
    using that find_doc_SomeD [OF f] assms(3)
    by (cases rule: put_row_cases) (auto simp: tag_differs_def)
  then show ?thesis by (simp add: db1 tag_unused_def list_all_iff)
qed


section \<open>Interleaved updates\<close>

lemma find_put_row: "find_doc db ws i = Some r0 \<Longrightarrow> do_id r = i \<Longrightarrow> do_workspace_id r = ws \<Longrightarrow> live r \<Longrightarrow>
   find_doc (set_doc r db) ws i = Some r"
proof -
  assume a: "find_doc db ws i = Some r0" "do_id r = i" "do_workspace_id r = ws" "live r"
  have "find (live_doc ws i) docs = Some r0 \<Longrightarrow> find (live_doc ws i) (put_row r docs) = Some r" for docs
    using a(2-4) by (induction docs) (auto simp: put_row_def live_doc_def split: if_splits)
  then show ?thesis using a(1) by (simp add: find_doc_def)
qed

lemma update_write_title:
  assumes "find_doc db ws i = Some r" "uq_path p = None"
  shows "update_write E u t now ws i current p db =
    (Okay (document_of (updated_document E u t now current p r)), set_doc (updated_document E u t now current p r) db)"
  using assms by (simp add: update_write_def Let_def)

lemma update_document_write_title:
  assumes "find_doc db ws i = Some r" "uq_path p = None"
  obtains d db1 where "update_document_write E w rid user ws i current p db = (Okay d, db1)"
    "find_doc db1 ws i = Some (updated_document E (dw_etag w) (dw_clock w 1) (dw_clock w 2) current p r)"
proof -
  let ?r = "updated_document E (dw_etag w) (dw_clock w 1) (dw_clock w 2) current p r"
  have "find_doc (set_doc ?r db) ws i = Some ?r"
    by (rule find_put_row [OF assms(1)]) (use find_doc_SomeD [OF assms(1)] in auto)
  then have "find_doc (try_record_document_audit_event E now rid a ws ty j det (set_doc ?r db)) ws i = Some ?r" for now a ty j det
    by (simp add: find_doc_def)
  then show ?thesis using that update_write_title [OF assms] by (simp add: update_document_write_def)
qed

text \<open>
  The check of \<open>If-Match\<close> does not protect concurrent updates. When two updates that set the title
  both pass their checks before either writes, both succeed and the second overwrites the title of
  the first, although it named the tag of the state before; served after the first one it would have
  been refused.
\<close>

theorem concurrent_update_lost:
  assumes "api_env_laws (de_api E)" "uuid_text_plain (de_api E)" "documents_ok E db"
    and "update_document_check E t1 user1 ws i rq1 p1 db = Okay current1" "uq_path p1 = None" "uq_title p1 = Some title1"
    and "update_document_check E t2 user2 ws i rq2 p2 db = Okay current2" "uq_path p2 = None" "uq_title p2 = Some title2"
    and "find_doc db ws i = Some r" "do_etag r = generate_etag E u" "dw_etag w1 \<noteq> u"
    and "doc_if_match rq2 = Okay v" "trim v \<noteq> lit ''*''"
  shows "\<exists>d1 db1 d2 db2 r2 e.
    update_document_write E w1 rid1 user1 ws i current1 p1 db = (Okay d1, db1) \<and>
    update_document_write E w2 rid2 user2 ws i current2 p2 db1 = (Okay d2, db2) \<and>
    find_doc db2 ws i = Some r2 \<and> do_title r2 = Some title2 \<and>
    fst (update_document E w2 rid2 user2 ws i rq2 p2 db1) = Err e"
proof -
  obtain d1 db1 where one: "update_document_write E w1 rid1 user1 ws i current1 p1 db = (Okay d1, db1)"
      "find_doc db1 ws i = Some (updated_document E (dw_etag w1) (dw_clock w1 1) (dw_clock w1 2) current1 p1 r)"
    by (rule update_document_write_title [OF assms(10,5)])
  obtain d2 db2 where two: "update_document_write E w2 rid2 user2 ws i current2 p2 db1 = (Okay d2, db2)"
      "find_doc db2 ws i = Some (updated_document E (dw_etag w2) (dw_clock w2 1) (dw_clock w2 2) current2 p2
         (updated_document E (dw_etag w1) (dw_clock w1 1) (dw_clock w1 2) current1 p1 r))"
    by (rule update_document_write_title [OF one(2) assms(8)])
  obtain d0 db0 where w: "update_write E (dw_etag w1) (dw_clock w1 1) (dw_clock w1 2) ws i current1 p1 db = (Okay d0, db0)"
      "dd_documents db1 = dd_documents db0"
    using one(1) by (auto simp: update_document_write_def split: sum.splits prod.splits)
  have "tag_unused E i u db1" using update_spends_tag [OF assms(3) w(1) assms(12)] w(2) by (simp add: tag_unused_def)
  moreover have "etag_matches v (generate_etag E u)"
    using assms(7,10,11,13) by (auto simp: update_document_check_def document_of_def split: sum.splits elim!: update_read_Okay)
  ultimately obtain e where "fst (update_document E w2 rid2 user2 ws i rq2 p2 db1) = Err e"
    using stale_requests [OF assms(1,2) _ assms(13) _ assms(14)] by blast
  then show ?thesis using one(1) two assms(9) by auto
qed

end
