(* ===== verification/DocumentTags.thy ===== *)
theory DocumentTags
  imports DocumentEdits
begin

text \<open>
  Requests that meet the two statements which read \<open>SELECT 1\<close> as \<open>i64\<close>: with a driver that hands
  \<open>int4\<close> columns to \<open>i32\<close> only, no document gets a tag or an override, and a \<open>POST\<close> with tags fails
  after its document was created. Then concrete requests for the theorems on documents.
\<close>

section \<open>Tags and overrides against a strict driver\<close>

text \<open>Neither request succeeds or changes anything.\<close>

theorem tags_and_overrides_unavailable:
  assumes "\<not> de_int4_as_i64 E"
  shows "(\<exists>e. update_document_tags E w user ws i op raws db = (Err e, db)) \<and>
    (\<exists>e. create_acl_override E w user ws i p db = (Err e, db))"
  using assms
  by (auto simp: update_document_tags_def update_tags_pg_def create_acl_override_def create_acl_override_pg_def
      acl_override_document_def split: sum.split option.split)

text \<open>
  A \<open>POST\<close> with valid tags that would create a document without them is answered with an internal
  error, although the document is in the table; the same request again is then refused, because
  the path is taken.
\<close>

theorem tagged_create_half_done:
  assumes "\<not> de_int4_as_i64 E" "cq_tags p \<noteq> []" "normalize_tag_names E (cq_tags p) = Okay tags"
    and "create_document E w rid user ws (p\<lparr>cq_tags := []\<rparr>) db = (Okay d, db1)"
  shows "\<exists>db2. create_document E w rid user ws p db = (Err DInternal, db2) \<and> dd_documents db2 = dd_documents db1 \<and>
    find_doc db2 ws (dv_id d) \<noteq> None \<and> fst (create_document E w' rid' user ws p db2) = Err DConflict"
proof -
  have ok: "doc_require_workspace_role db user ws Editor = Okay ()" "validate_path (cq_path p) = Okay ()"
    using assms(4) by (auto simp: create_document_def split: sum.splits)
  obtain db0 where c: "create_pg E (dw_id w) (dw_etag w) (dw_clock w 0) ws (au_user_id user) (cq_path p) (cq_title p) db = (Okay d, db0)"
      "dd_documents db1 = dd_documents db0"
    using assms(4) ok by (auto simp: create_document_def create_document_write_def split: sum.splits prod.splits)
  have new: "db0 = db\<lparr>dd_documents := dd_documents db @ [new_document E (dw_id w) (dw_etag w) (dw_clock w 0) ws (au_user_id user) (cq_path p) (cq_title p)]\<rparr>"
      "d = document_of (new_document E (dw_id w) (dw_etag w) (dw_clock w 0) ws (au_user_id user) (cq_path p) (cq_title p))"
    using create_pg_Okay [OF c(1)] by auto
  define row where "row = new_document E (dw_id w) (dw_etag w) (dw_clock w 0) ws (au_user_id user) (cq_path p) (cq_title p)"
  have "live_doc ws (dv_id d) row" "row \<in> set (dd_documents db0)"
    using new by (simp_all add: row_def live_doc_def document_of_def new_document_def)
  then have f: "find_doc db0 ws (dv_id d) \<noteq> None" unfolding find_doc_def find_None_iff by blast
  have "create_document E w rid user ws p db = (Err DInternal, db0)"
    using assms(1-3) ok c(1) f
    by (auto simp: create_document_def create_document_write_def update_tags_pg_def split: option.split)
  moreover have "path_taken ws (normalize_doc_path E (cq_path p)) (dd_documents db0)"
    using new(1) by (simp add: path_taken_def new_document_def)
  moreover have "doc_require_workspace_role db0 user ws Editor = doc_require_workspace_role db user ws Editor"
    using new(1) by (simp add: doc_require_workspace_role_def doc_role_for_user_def)
  ultimately show ?thesis using assms(2,3) ok c(2) f
    by (simp add: create_document_def create_document_write_def create_pg_def)
qed

section \<open>A workspace with one document\<close>

definition demo_doc_env :: doc_env where
  "demo_doc_env =
     \<lparr>de_api = demo_api\<lparr>uuid_string := show_nat, uuid_parse := parse_digits\<rparr>, de_lower = to_ascii_lowercase, de_int4_as_i64 = False\<rparr>"

lemma demo_doc_env_laws: "api_env_laws (de_api demo_doc_env)"
  using demo_api_laws by (simp add: api_env_laws_def demo_doc_env_def)

lemma demo_doc_env_plain: "uuid_text_plain (de_api demo_doc_env)"
  using show_nat_digits by (fastforce simp: uuid_text_plain_def demo_doc_env_def is_ascii_digit_def)

definition demo_document :: document_row where
  "demo_document = new_document demo_doc_env 20 50 5 10 2 (lit ''a.md'') None"

definition demo_documents :: document_db where
  "demo_documents = empty_documents\<lparr>dd_documents := [demo_document],
     dd_members := [\<lparr>mr_workspace_id = 10, mr_user_id = 2, mr_role = lit ''owner'', mr_status = lit ''active'', mr_joined_at = 3\<rparr>]\<rparr>"

definition demo_owner :: authenticated_user where
  "demo_owner = \<lparr>au_user_id = 2, au_workspace_id = 10\<rparr>"

definition demo_draws :: "uuid \<Rightarrow> doc_draws" where
  "demo_draws u = \<lparr>dw_id = 70, dw_etag = u, dw_tags_etag = u, dw_tag_ids = \<lambda>k. 80 + k, dw_clock = \<lambda>k. 8\<rparr>"

definition demo_if_match :: request where
  "demo_if_match = \<lparr>rq_method = lit ''PATCH'', rq_path = lit ''/'', rq_headers = [(lit ''if-match'', Some (generate_etag demo_doc_env 50))],
     rq_body = []\<rparr>"

definition demo_patch :: "rstr \<Rightarrow> update_document_request" where
  "demo_patch title = \<lparr>uq_path = None, uq_title = Some title, uq_archived = None\<rparr>"

lemma demo_patch_fields [simp]: "uq_path (demo_patch x) = None" "uq_title (demo_patch x) = Some x"
  by (simp_all add: demo_patch_def)

lemma demo_fields:
  "dd_documents demo_documents = [demo_document]" "dd_overrides demo_documents = []"
  "do_id demo_document = 20" "do_workspace_id demo_document = 10" "do_deleted_at demo_document = None"
  "do_etag demo_document = generate_etag demo_doc_env 50"
  by (simp_all add: demo_documents_def demo_document_def empty_documents_def)

lemma demo_find: "find_doc demo_documents 10 20 = Some demo_document"
  by (simp add: find_doc_def demo_fields live_doc_def)

lemma demo_documents_ok: "documents_ok demo_doc_env demo_documents"
proof -
  have "validate_path (lit ''a.md'') = Okay ()" by code_simp
  then have "doc_row_ok demo_doc_env demo_document" by (auto simp: doc_row_ok_def demo_document_def validate_path_ok)
  then show ?thesis
    by (simp add: documents_ok_def docs_ok_def tags_ok_def links_ok_def overrides_ok_def demo_documents_def empty_documents_def)
qed

lemma demo_owner_role: "require_document_role demo_doc_env now demo_documents demo_owner 10 20 r = Okay ()"
  by (cases r) (simp_all add: require_document_role_def doc_role_for_user_def active_role_def role_from_db_value_def
      acl_override_role_for_user_def newest_first_def demo_documents_def empty_documents_def demo_owner_def lit_def
      allows_def less_eq_workspace_role_def)

lemma demo_if_match_value: "doc_if_match demo_if_match = Okay (generate_etag demo_doc_env 50)"
  by (simp add: doc_if_match_def demo_if_match_def)

lemma demo_not_star: "trim (generate_etag demo_doc_env 50) \<noteq> lit ''*''"
  by (simp add: generate_etag_def trim_quoted) (simp add: quoted_def lit_def)

lemma demo_check: "update_document_check demo_doc_env now demo_owner 10 20 demo_if_match (demo_patch title) demo_documents =
    Okay (document_of demo_document)"
  by (simp add: update_document_check_def demo_owner_role demo_if_match_value update_read_def get_pg_def
      demo_find document_of_def demo_fields etag_matches_def)

theorem documents_well_formed_witness:
  "documents_ok demo_doc_env (empty_documents\<lparr>dd_documents := [demo_document]\<rparr>)"
proof -
  have path: "validate_path (lit ''a.md'') = Okay ()" by code_simp
  have "create_pg demo_doc_env 20 50 5 10 2 (lit ''a.md'') None empty_documents =
      (Okay (document_of demo_document), empty_documents\<lparr>dd_documents := [demo_document]\<rparr>)"
    by (simp add: create_pg_def empty_documents_def path_taken_def demo_document_def Let_def)
  then have "doc_stmt demo_doc_env UNIV empty_documents (empty_documents\<lparr>dd_documents := [demo_document]\<rparr>)"
    by (rule doc_stmt.insert_doc [OF path UNIV_I])
  then have "doc_stmts demo_doc_env UNIV empty_documents (empty_documents\<lparr>dd_documents := [demo_document]\<rparr>)" by blast
  from documents_well_formed [OF this] show ?thesis by blast
qed


theorem concurrent_update_lost_witness:
  "\<exists>d1 db1 d2 db2 r2.
    update_document_write demo_doc_env (demo_draws 51) None demo_owner 10 20 (document_of demo_document) (demo_patch (lit ''A''))
      demo_documents = (Okay d1, db1) \<and>
    update_document_write demo_doc_env (demo_draws 52) None demo_owner 10 20 (document_of demo_document) (demo_patch (lit ''B''))
      db1 = (Okay d2, db2) \<and>
    find_doc db2 10 20 = Some r2 \<and> do_title r2 = Some (lit ''B'')"
proof -
  have "dw_etag (demo_draws 51) \<noteq> 50" by (simp add: demo_draws_def)
  from concurrent_update_lost [OF demo_doc_env_laws demo_doc_env_plain demo_documents_ok
      demo_check [of 0 "lit ''A''"] demo_patch_fields demo_check [of 0 "lit ''B''"] demo_patch_fields
      demo_find demo_fields(6) this demo_if_match_value demo_not_star, where ?rid1.0 = None and ?rid2.0 = None and ?w2.0 = "demo_draws 52"]
  show ?thesis by blast
qed

end
