(* ===== verification/DocumentPages.thy ===== *)
theory DocumentPages
  imports DocumentRuns
begin

text \<open>
  The list endpoint of \<open>Documents\<close>: its prefix filter and its pages, which meet the contract
  \<open>keyset_paging\<close> with the time of the last change as key.
\<close>

section \<open>Prefixes\<close>

definition plain_pattern :: "rstr \<Rightarrow> bool" where
  "plain_pattern p \<longleftrightarrow> list_all (\<lambda>c. c \<noteq> 37 \<and> c \<noteq> 92 \<and> c \<noteq> 95) p"

lemma like_percent: "like_match [37] s"
  by (induction s) simp_all

text \<open>The filter keeps exactly the paths with the prefix, when the prefix has no wildcard and no backslash.\<close>

theorem prefix_filter_exact:
  assumes "plain_pattern p"
  shows "like_match (p @ lit ''%'') path \<longleftrightarrow> take (length p) path = p"
  using assms
proof (induction p arbitrary: path)
  case Nil
  then show ?case using like_percent by (simp add: lit_def)
next
  case (Cons c p)
  then show ?case by (cases path) (auto simp: plain_pattern_def)
qed

text \<open>An underscore, which file names often have, matches any character.\<close>

theorem prefix_underscore_matches_other:
  "like_match (lit ''a_b'' @ lit ''%'') (lit ''axb.md'') \<and> take 3 (lit ''axb.md'') \<noteq> lit ''a_b''"
  by code_simp

section \<open>Pages\<close>

definition dv_key :: "document \<Rightarrow> micros \<times> uuid" where
  "dv_key d = (dv_updated_at d, dv_id d)"

lemma dv_key_of [simp]: "dv_key (document_of r) = doc_key r"
  by (simp add: dv_key_def doc_key_def document_of_def)

lemma insort_key_map: "insort_key k (f x) (map f xs) = map f (insort_key (\<lambda>a. k (f a)) x xs)"
  by (induction xs) auto

lemma newest_first_map: "newest_first k (map f xs) = map f (newest_first (\<lambda>a. k (f a)) xs)"
proof -
  have "sort_key k (map f xs) = map f (sort_key (\<lambda>a. k (f a)) xs)"
    by (induction xs) (auto simp: insort_key_map)
  then show ?thesis by (simp add: newest_first_def rev_map)
qed

definition doc_pattern :: "doc_env \<Rightarrow> rstr option \<Rightarrow> rstr option" where
  "doc_pattern E prefix = map_option (\<lambda>p. normalize_doc_path E p @ lit ''%'') prefix"

definition listed_docs :: "doc_env \<Rightarrow> document_db \<Rightarrow> uuid \<Rightarrow> rstr option \<Rightarrow> bool option \<Rightarrow> document list" where
  "listed_docs E db ws prefix archived = map document_of (filter (doc_listed ws (doc_pattern E prefix) archived) (dd_documents db))"

definition doc_cursor_text :: "doc_env \<Rightarrow> micros \<times> uuid \<Rightarrow> rstr" where
  "doc_cursor_text E k = show_int (fst k) @ lit ''|'' @ uuid_string (de_api E) (snd k)"

lemma doc_cursor_reads:
  assumes "api_env_laws (de_api E)" "micros_ok (de_api E) (fst k)"
  shows "doc_parse_cursor E (doc_cursor_text E k) = Okay k"
proof -
  have "i64_min \<le> fst k" "fst k \<le> i64_max" using assms by (auto simp: api_env_laws_def)
  then have "parse_i64 (show_int (fst k)) = Some (fst k)" by (rule parse_show_int)
  then show ?thesis using assms by (simp add: doc_parse_cursor_def doc_cursor_text_def split_once_cursor api_env_laws_def)
qed

lemma doc_after_cursor_before: "doc_after_cursor c = before doc_key c"
  by (rule ext) (auto simp: doc_after_cursor_def before_def doc_key_def less_prod_def' split: option.splits)

lemma filter_before_documents:
  "filter (before dv_key c) (map document_of rows) = map document_of (filter (before doc_key c) rows)"
proof -
  have "before dv_key c (document_of r) = before doc_key c r" for r by (simp add: before_def split: option.splits)
  then show ?thesis by (simp add: filter_map comp_def)
qed

lemma list_pg_page:
  assumes "0 < limit"
  shows "list_pg E db ws prefix archived limit c =
    (let (items, k) = key_page dv_key limit (listed_docs E db ws prefix archived) c in (items, map_option (doc_cursor_text E) k))"
proof -
  let ?rows = "filter (doc_listed ws (doc_pattern E prefix) archived) (dd_documents db)"
  let ?got = "take (limit + 1) (newest_first dv_key (filter (before dv_key c) (listed_docs E db ws prefix archived)))"
  have "map document_of (take (limit + 1) (newest_first doc_key
      (filter (\<lambda>r. doc_listed ws (doc_pattern E prefix) archived r \<and> doc_after_cursor c r) (dd_documents db)))) = ?got"
    by (simp add: listed_docs_def filter_before_documents newest_first_map take_map doc_after_cursor_before conj_commute)
  then have "list_pg E db ws prefix archived limit c = doc_paginate E ?got limit"
    by (simp add: list_pg_def doc_pattern_def Let_def)
  then show ?thesis using assms
    by (auto simp: key_page_def doc_paginate_def doc_encode_cursor_def doc_cursor_text_def dv_key_def Let_def)
qed

type_synonym doc_listing = "doc_env \<times> document_db \<times> uuid \<times> rstr option \<times> bool option \<times> nat"

fun doc_listing_ok :: "doc_listing \<Rightarrow> bool" where
  "doc_listing_ok (E, db, ws, prefix, archived, limit) \<longleftrightarrow>
     api_env_laws (de_api E) \<and> documents_ok E db \<and> list_all (\<lambda>r. micros_ok (de_api E) (do_updated_at r)) (dd_documents db) \<and> 0 < limit"

fun doc_listing_rows :: "doc_listing \<Rightarrow> document list" where
  "doc_listing_rows (E, db, ws, prefix, archived, limit) = listed_docs E db ws prefix archived"

fun doc_listing_limit :: "doc_listing \<Rightarrow> nat" where
  "doc_listing_limit (E, db, ws, prefix, archived, limit) = limit"

fun doc_client_page :: "doc_listing \<Rightarrow> (micros \<times> uuid) option \<Rightarrow> document list \<times> (micros \<times> uuid) option" where
  "doc_client_page (E, db, ws, prefix, archived, limit) c =
     (let (items, raw) = list_pg E db ws prefix archived limit c
      in (items, Option.bind raw (\<lambda>v. case doc_parse_cursor E v of Inl e \<Rightarrow> None | Inr k \<Rightarrow> Some k)))"

lemma doc_page_cursor_reads:
  assumes "doc_listing_ok (E, db, ws, prefix, archived, limit)"
    "key_page dv_key limit (listed_docs E db ws prefix archived) c = (items, Some k)"
  shows "doc_parse_cursor E (doc_cursor_text E k) = Okay k"
proof -
  obtain d where "d \<in> set (listed_docs E db ws prefix archived)" "k = dv_key d"
    using key_page_cursor [OF _ assms(2)] assms(1) by auto
  then obtain r where "r \<in> set (dd_documents db)" "k = doc_key r" by (auto simp: listed_docs_def)
  then have "micros_ok (de_api E) (fst k)" using assms(1) by (auto simp: list_all_iff doc_key_def)
  then show ?thesis using assms(1) by (simp add: doc_cursor_reads)
qed

lemma doc_client_page_law:
  assumes "doc_listing_ok s"
  shows "doc_client_page s c = key_page dv_key (doc_listing_limit s) (doc_listing_rows s) c"
proof (cases s rule: doc_listing_ok.cases)
  case (1 E db ws prefix archived limit)
  obtain items k where p: "key_page dv_key limit (listed_docs E db ws prefix archived) c = (items, k)" by fastforce
  then show ?thesis
    using assms 1 list_pg_page [of limit E db ws prefix archived c] doc_page_cursor_reads [of E db ws prefix archived limit c items]
    by (cases k) auto
qed

declare doc_client_page.simps [simp del]

lemma doc_keys_distinct: "documents_ok E db \<Longrightarrow> distinct (map dv_key (listed_docs E db ws prefix archived))"
proof -
  assume "documents_ok E db"
  then have "distinct (map do_id (filter (doc_listed ws (doc_pattern E prefix) archived) (dd_documents db)))"
    by (simp add: documents_ok_def docs_ok_def distinct_map_filter)
  then show ?thesis by (auto simp: listed_docs_def distinct_map inj_on_def doc_key_def comp_def)
qed

interpretation document_paging: keyset_paging doc_listing_ok doc_listing_rows dv_key doc_listing_limit doc_client_page
proof
  fix s c
  assume ok: "doc_listing_ok s"
  show "doc_client_page s c = key_page dv_key (doc_listing_limit s) (doc_listing_rows s) c" by (rule doc_client_page_law [OF ok])
  show "distinct (map dv_key (doc_listing_rows s))" "0 < doc_listing_limit s"
    using ok doc_keys_distinct by (cases s rule: doc_listing_ok.cases; auto)+
qed

text \<open>
  A client of the endpoint that follows the cursors of a list of documents, which does not change
  meanwhile, is shown every listed document once, the latest change first.
\<close>

theorem document_pages_complete:
  assumes "doc_listing_ok (E, db, ws, prefix, archived, doc_limit limit)" "length (listed_docs E db ws prefix archived) < n"
  shows "walk (doc_client_page (E, db, ws, prefix, archived, doc_limit limit)) n None =
    Some (newest_first dv_key (listed_docs E db ws prefix archived))"
  using document_paging.walk_complete [OF assms(1), of n] assms(2) by simp

end
