(* ===== verification/RelayClient.thy ===== *)
theory RelayClient
  imports WsSession
begin

text \<open>
  \<open>daemon/src/relay/mod.rs\<close>: the daemon's side of the connection to the relay. The transport
  (\<open>trait RelayTransport\<close>, REST and WebSocket) and the parser of URLs are parameters: a record of
  functions on the transport's state, and the scheme and host of a URL. The reconnect counter is a
  \<open>u32\<close>, which wraps. The last section puts the client and the handlers of \<open>WsSession\<close> together.
\<close>

section \<open>Configuration and state\<close>

record relay_config =
  rc_relay_url :: string
  rc_workspace_id :: uuid
  rc_auth_token :: string
  rc_client_id :: uuid
  rc_device_id :: uuid

text \<open>Durations are in nanoseconds.\<close>

record reconnect_policy =
  rp_base_delay :: nat
  rp_max_delay :: nat
  rp_max_attempts :: nat

definition default_policy :: reconnect_policy where
  "default_policy = \<lparr>rp_base_delay = 250000000, rp_max_delay = 30000000000, rp_max_attempts = 2 ^ 32 - 1\<rparr>"

record session_info =
  si_session_id :: uuid
  si_session_token :: string
  si_ws_url :: string
  si_resume_token :: string
  si_heartbeat_interval_ms :: int

record 't transport =
  tr_create_session :: "relay_config \<Rightarrow> string option \<Rightarrow> 't \<Rightarrow> (string, session_info) result \<times> 't"
  tr_connect_ws :: "string \<Rightarrow> 't \<Rightarrow> (string, unit) result \<times> 't"
  tr_send :: "ws_message \<Rightarrow> 't \<Rightarrow> (string, unit) result \<times> 't"
  tr_recv :: "'t \<Rightarrow> (string, ws_message option) result \<times> 't"
  tr_close :: "'t \<Rightarrow> 't"

record url_env =
  url_parse :: "string \<Rightarrow> (string \<times> string option) option"
  ip_loopback :: "string \<Rightarrow> bool"

datatype connection_state = CDisconnected | CConnecting | CAuthenticating | CConnected

datatype relay_event =
    EvConnected
  | EvSnapshot uuid int string
  | EvRemoteUpdate uuid uuid uuid int string
  | EvUpdateAcked uuid uuid int
  | EvDisconnected string
  | EvError string string bool

record 't relay_client =
  cl_config :: relay_config
  cl_policy :: reconnect_policy
  cl_transport :: 't
  cl_state :: connection_state
  cl_session_token :: "string option"
  cl_resume_token :: "string option"
  cl_subscribed :: "uuid set"
  cl_failures :: nat

definition client_new :: "relay_config \<Rightarrow> 't \<Rightarrow> 't relay_client" where
  "client_new cfg t =
     \<lparr>cl_config = cfg, cl_policy = default_policy, cl_transport = t, cl_state = CDisconnected, cl_session_token = None,
      cl_resume_token = None, cl_subscribed = {}, cl_failures = 0\<rparr>"

definition with_reconnect_policy :: "reconnect_policy \<Rightarrow> 't relay_client \<Rightarrow> 't relay_client" where
  "with_reconnect_policy p c = c\<lparr>cl_policy := p\<rparr>"

section \<open>URLs\<close>

definition is_loopback_host :: "url_env \<Rightarrow> string option \<Rightarrow> bool" where
  "is_loopback_host U host =
     (case host of None \<Rightarrow> False | Some h \<Rightarrow> eq_ignore_ascii_case (lit h) (lit ''localhost'') \<or> ip_loopback U h)"

definition validate_scheme :: "string \<Rightarrow> string \<Rightarrow> string \<Rightarrow> string \<Rightarrow> url_env \<Rightarrow> string \<Rightarrow> (string, unit) result" where
  "validate_scheme secure plain invalid refused U v =
     (case url_parse U v of
        None \<Rightarrow> Err invalid
      | Some (scheme, host) \<Rightarrow>
          if scheme = secure then Okay ()
          else if scheme = plain \<and> is_loopback_host U host then Okay ()
          else Err refused)"

definition validate_relay_url :: "url_env \<Rightarrow> string \<Rightarrow> (string, unit) result" where
  "validate_relay_url = validate_scheme ''https'' ''http'' ''invalid relay_url''
     ''relay_url must use https (http is allowed only for localhost testing)''"

definition validate_ws_url :: "url_env \<Rightarrow> string \<Rightarrow> (string, unit) result" where
  "validate_ws_url = validate_scheme ''wss'' ''ws'' ''invalid ws_url''
     ''ws_url must use wss (ws is allowed only for localhost testing)''"

section \<open>Operations\<close>

definition connect_failed :: "string \<Rightarrow> 't relay_client \<Rightarrow> (string, relay_event) result \<times> 't relay_client" where
  "connect_failed reason c =
     (Okay (EvDisconnected reason), c\<lparr>cl_state := CDisconnected, cl_failures := (cl_failures c + 1) mod 2 ^ 32\<rparr>)"

definition closing :: "'t transport \<Rightarrow> 't relay_client \<Rightarrow> 't relay_client" where
  "closing T c = c\<lparr>cl_transport := tr_close T (cl_transport c)\<rparr>"

text \<open>The answer to the hello frame.\<close>

definition connect_ack ::
  "'t transport \<Rightarrow> session_info \<Rightarrow> 't relay_client \<Rightarrow> (string, relay_event) result \<times> 't relay_client" where
  "connect_ack T info c =
     (case tr_recv T (cl_transport c) of
        (r, t) \<Rightarrow>
          let c = c\<lparr>cl_transport := t\<rparr> in
          (case r of
             Inl e \<Rightarrow> connect_failed (''error during handshake: '' @ e) (closing T c)
           | Inr None \<Rightarrow> connect_failed ''connection closed during handshake'' c
           | Inr (Some (HelloAck _ resume_accepted resume_token _)) \<Rightarrow>
               (Okay EvConnected,
                c\<lparr>cl_subscribed := (if resume_accepted then cl_subscribed c else {}),
                  cl_session_token := Some (si_session_token info), cl_resume_token := Some resume_token,
                  cl_state := CConnected, cl_failures := 0\<rparr>)
           | Inr (Some (ErrorMsg code message _ _)) \<Rightarrow>
               connect_failed (''hello rejected: '' @ code @ '': '' @ message) (closing T c)
           | Inr (Some _) \<Rightarrow> connect_failed ''unexpected message in response to hello'' (closing T c)))"

definition connect_hello ::
  "'t transport \<Rightarrow> session_info \<Rightarrow> 't relay_client \<Rightarrow> (string, relay_event) result \<times> 't relay_client" where
  "connect_hello T info c =
     (let c = c\<lparr>cl_state := CAuthenticating\<rparr> in
      case tr_send T (Hello CURRENT_VERSION (si_session_token info) (cl_resume_token c)) (cl_transport c) of
        (Inl e, t) \<Rightarrow> connect_failed (''failed to send hello: '' @ e) (closing T (c\<lparr>cl_transport := t\<rparr>))
      | (Inr _, t) \<Rightarrow> connect_ack T info (c\<lparr>cl_transport := t\<rparr>))"

definition client_connect ::
  "url_env \<Rightarrow> 't transport \<Rightarrow> 't relay_client \<Rightarrow> (string, relay_event) result \<times> 't relay_client" where
  "client_connect U T c =
     (case validate_relay_url U (rc_relay_url (cl_config c)) of Inl e \<Rightarrow> (Err e, c) | Inr _ \<Rightarrow>
      (let c = c\<lparr>cl_state := CConnecting\<rparr> in
       case tr_create_session T (cl_config c) (cl_resume_token c) (cl_transport c) of
         (Inl e, t) \<Rightarrow> connect_failed (''session creation failed: '' @ e) (c\<lparr>cl_transport := t\<rparr>)
       | (Inr info, t) \<Rightarrow>
           let c = c\<lparr>cl_transport := t\<rparr> in
           (case validate_ws_url U (si_ws_url info) of Inl e \<Rightarrow> (Err e, c) | Inr _ \<Rightarrow>
            (case tr_connect_ws T (si_ws_url info) (cl_transport c) of
               (Inl e, t) \<Rightarrow> connect_failed (''WebSocket connection failed: '' @ e) (c\<lparr>cl_transport := t\<rparr>)
             | (Inr _, t) \<Rightarrow> connect_hello T info (c\<lparr>cl_transport := t\<rparr>)))))"

definition client_subscribe ::
  "'t transport \<Rightarrow> uuid \<Rightarrow> int option \<Rightarrow> 't relay_client \<Rightarrow> (string, unit) result \<times> 't relay_client" where
  "client_subscribe T doc_id last_server_seq c =
     (if cl_state c \<noteq> CConnected then (Err ''cannot subscribe: not connected'', c)
      else case tr_send T (SubscribeMsg doc_id last_server_seq) (cl_transport c) of
        (Inl e, t) \<Rightarrow> (Err e, c\<lparr>cl_transport := t\<rparr>)
      | (Inr _, t) \<Rightarrow> (Okay (), c\<lparr>cl_transport := t, cl_subscribed := insert doc_id (cl_subscribed c)\<rparr>))"

definition client_send_update ::
  "'t transport \<Rightarrow> uuid \<Rightarrow> uuid \<Rightarrow> int \<Rightarrow> string \<Rightarrow> 't relay_client \<Rightarrow> (string, unit) result \<times> 't relay_client" where
  "client_send_update T doc_id client_update_id base_server_seq payload_b64 c =
     (if cl_state c \<noteq> CConnected then (Err ''cannot send update: not connected'', c)
      else case tr_send T (YjsUpdate doc_id (rc_client_id (cl_config c)) client_update_id base_server_seq payload_b64)
                  (cl_transport c) of
        (r, t) \<Rightarrow> (r, c\<lparr>cl_transport := t\<rparr>))"

definition client_recv_event ::
  "'t transport \<Rightarrow> 't relay_client \<Rightarrow> (string, relay_event option) result \<times> 't relay_client" where
  "client_recv_event T c =
     (if cl_state c \<noteq> CConnected then (Err ''cannot receive: not connected'', c)
      else case tr_recv T (cl_transport c) of
        (r, t) \<Rightarrow>
          let c = c\<lparr>cl_transport := t\<rparr> in
          (case r of
             Inl e \<Rightarrow> (Err e, c)
           | Inr None \<Rightarrow> (Okay (Some (EvDisconnected ''connection closed by server'')), c\<lparr>cl_state := CDisconnected\<rparr>)
           | Inr (Some (SnapshotMsg d s p)) \<Rightarrow> (Okay (Some (EvSnapshot d s p)), c)
           | Inr (Some (YjsUpdate d cl u b p)) \<Rightarrow> (Okay (Some (EvRemoteUpdate d cl u b p)), c)
           | Inr (Some (Ack d u s _)) \<Rightarrow> (Okay (Some (EvUpdateAcked d u s)), c)
           | Inr (Some (ErrorMsg code message retryable _)) \<Rightarrow> (Okay (Some (EvError code message retryable)), c)
           | Inr (Some _) \<Rightarrow> (Okay None, c)))"

definition client_disconnect :: "'t transport \<Rightarrow> 't relay_client \<Rightarrow> 't relay_client" where
  "client_disconnect T c = (closing T c)\<lparr>cl_state := CDisconnected\<rparr>"

text \<open>\<open>DurationSaturatingMul\<close> works on \<open>u128\<close> nanoseconds and gives \<open>u64::MAX\<close> seconds above \<open>u64::MAX\<close> of them.\<close>

definition saturating_mul :: "nat \<Rightarrow> nat \<Rightarrow> nat" where
  "saturating_mul nanos rhs =
     (let n = min (nanos * rhs) (2 ^ 128 - 1) in if n > 2 ^ 64 - 1 then (2 ^ 64 - 1) * 1000000000 else n)"

definition reconnect_delay :: "'t relay_client \<Rightarrow> nat" where
  "reconnect_delay c =
     min (saturating_mul (rp_base_delay (cl_policy c)) (2 ^ min (cl_failures c) 7)) (rp_max_delay (cl_policy c))"

definition should_reconnect :: "'t relay_client \<Rightarrow> bool" where
  "should_reconnect c \<longleftrightarrow> cl_failures c < rp_max_attempts (cl_policy c)"

section \<open>States\<close>

datatype client_op =
    ClConnect
  | ClSubscribe uuid "int option"
  | ClSend uuid uuid int string
  | ClRecv
  | ClDisconnect

fun client_step :: "url_env \<Rightarrow> 't transport \<Rightarrow> 't relay_client \<Rightarrow> client_op \<Rightarrow> 't relay_client" where
  "client_step U T c ClConnect = snd (client_connect U T c)"
| "client_step U T c (ClSubscribe d s) = snd (client_subscribe T d s c)"
| "client_step U T c (ClSend d u b p) = snd (client_send_update T d u b p c)"
| "client_step U T c ClRecv = snd (client_recv_event T c)"
| "client_step U T c ClDisconnect = client_disconnect T c"

definition client_ok :: "'t relay_client \<Rightarrow> bool" where
  "client_ok c \<longleftrightarrow>
     cl_state c \<noteq> CAuthenticating \<and> cl_failures c < 2 ^ 32 \<and>
     (cl_state c = CConnected \<longrightarrow> cl_session_token c \<noteq> None \<and> cl_resume_token c \<noteq> None \<and> cl_failures c = 0)"

lemma connect_failed_ok [simp]: "client_ok (snd (connect_failed reason c))"
  by (simp add: connect_failed_def client_ok_def)

lemma client_ok_transport [simp]: "client_ok (c\<lparr>cl_transport := t\<rparr>) = client_ok c"
  by (simp add: client_ok_def)

lemma client_ok_down: "client_ok c \<Longrightarrow> s = CConnecting \<or> s = CDisconnected \<Longrightarrow> client_ok (c\<lparr>cl_state := s\<rparr>)"
  by (auto simp: client_ok_def)

lemma connect_ack_ok [simp]: "client_ok (snd (connect_ack T info c))"
proof (cases "tr_recv T (cl_transport c)")
  case (Pair r t)
  show ?thesis
  proof (cases r)
    case (Inr m)
    then show ?thesis
    proof (cases m)
      case (Some msg)
      show ?thesis
      proof (cases msg)
        case (HelloAck a accepted tok e)
        then show ?thesis using Pair Inr Some by (simp add: connect_ack_def Let_def client_ok_def)
      qed (simp_all add: Pair Inr Some connect_ack_def Let_def)
    qed (simp add: Pair connect_ack_def Let_def)
  qed (simp add: Pair connect_ack_def Let_def)
qed

lemma connect_hello_ok [simp]: "client_ok (snd (connect_hello T info c))"
  by (simp add: connect_hello_def Let_def split: prod.splits sum.splits)

lemma client_connect_ok: "client_ok c \<Longrightarrow> client_ok (snd (client_connect U T c))"
  by (simp add: client_connect_def Let_def client_ok_down split: prod.splits sum.splits)

lemma client_recv_ok: "client_ok c \<Longrightarrow> client_ok (snd (client_recv_event T c))"
  using client_ok_down [of "c\<lparr>cl_transport := t\<rparr>" CDisconnected for t]
  by (simp add: client_recv_event_def Let_def split: prod.splits sum.splits option.splits ws_message.splits)

lemma client_step_ok: "client_ok c \<Longrightarrow> client_ok (client_step U T c op)"
proof (cases op)
  case (ClSubscribe d s)
  then show "client_ok c \<Longrightarrow> ?thesis" by (simp add: client_subscribe_def client_ok_def split: prod.splits sum.splits)
qed (simp_all add: client_connect_ok client_recv_ok client_send_update_def client_disconnect_def closing_def client_ok_down
    split: prod.splits)

interpretation relay_clients: init_system "client_step U T" "\<lambda>_ _. True" client_ok "client_new cfg t" for U T cfg t
  by unfold_locales (erule client_step_ok, simp add: client_ok_def client_new_def)

text \<open>In every reachable state a connected client has both tokens and no failures counted.\<close>

theorem client_reachable: "client_ok (foldl (client_step U T) (client_new cfg t) ops)"
  by (rule relay_clients.inv_reachable) simp

text \<open>The delay before the next attempt doubles with every failure, from the base to the maximum.\<close>

theorem reconnect_delay_bounds:
  assumes "rp_base_delay (cl_policy c) * 2 ^ 7 < 2 ^ 64"
  shows "reconnect_delay c = min (rp_base_delay (cl_policy c) * 2 ^ min (cl_failures c) 7) (rp_max_delay (cl_policy c))"
proof -
  let ?b = "rp_base_delay (cl_policy c)" and ?e = "min (cl_failures c) 7"
  have "(2::nat) ^ ?e \<le> 2 ^ 7" by (rule power_increasing) auto
  then have "?b * 2 ^ ?e \<le> ?b * 2 ^ 7" by (rule mult_le_mono2)
  then have "?b * 2 ^ ?e < 2 ^ 64" using assms by linarith
  then show ?thesis by (simp add: reconnect_delay_def saturating_mul_def Let_def)
qed

section \<open>The client and the relay\<close>

definition session_request :: "'t relay_client \<Rightarrow> create_request" where
  "session_request c =
     \<lparr>cr_protocol = CURRENT_VERSION, cr_client = rc_client_id (cl_config c), cr_device = rc_device_id (cl_config c),
      cr_resume_token = cl_resume_token c\<rparr>"

definition session_info_of :: "create_response \<Rightarrow> session_info" where
  "session_info_of r =
     \<lparr>si_session_id = cs_session_id r, si_session_token = cs_session_token r, si_ws_url = cs_ws_url r,
      si_resume_token = cs_resume_token r, si_heartbeat_interval_ms = cs_heartbeat_interval_ms r\<rparr>"

text \<open>A session that was just created and connected has no subscriptions and accepts the token it was created with.\<close>

lemma created_session:
  assumes "create_sync_session m fmt shw url fresh n1 n2 ws user req ss = (Okay resp, ss1)" "cr_resume_token req = Some t" "t \<noteq> []"
  obtains s where "map_of ss1 (cs_session_id resp) = Some s" "sr_session_token s = cs_session_token resp"
    "sr_resume_token s = t" "sr_resume_expires_at s = n2 + minutes RESUME_TOKEN_TTL_MINUTES" "sr_subscriptions s = []"
    "sr_expires_at s = n1 + minutes SESSION_TOKEN_TTL_MINUTES"
  using assms
  by (auto simp: create_sync_session_def create_session_with_actor_def update_conv' Let_def
      split: sum.splits option.splits if_splits)

text \<open>
  (C37) A reconnected client believes in subscriptions that the relay does not have. When a client
  reconnects with the resume token of its last connection, the relay creates a new session under that
  very token and so accepts it; the client therefore keeps its set of subscribed documents, but the
  session has no subscription, so that the relay refuses every update the client sends and sends it none.
\<close>

theorem reconnect_loses_subscriptions:
  assumes "validate_relay_url U (rc_relay_url (cl_config c)) = Okay ()" "validate_ws_url U (cs_ws_url resp) = Okay ()"
    and "cl_resume_token c = Some t" "t \<noteq> []"
    and "create_sync_session m fmt shw url fresh n1 n2 ws user (session_request c) ss = (Okay resp, ss1)"
    and "tr_create_session T (cl_config c) (Some t) (cl_transport c) = (Okay (session_info_of resp), s1)"
    and "tr_connect_ws T (cs_ws_url resp) s1 = (Okay (), s2)"
    and "mark_connected (cs_session_id resp) ss1 = (True, ss2)"
    and "handle_hello_message fmt (cs_session_id resp) CURRENT_VERSION (cs_session_token resp) (Some t) m1 m2 m3 f2 ss2 = (Okay ack, ss3)"
    and "tr_send T (Hello CURRENT_VERSION (cs_session_token resp) (Some t)) s2 = (Okay (), s3)"
    and "tr_recv T s3 = (Okay (Some ack), s4)" "m2 \<le> n2 + minutes RESUME_TOKEN_TTL_MINUTES"
  shows "\<exists>c'. client_connect U T c = (Okay EvConnected, c') \<and> cl_subscribed c' = cl_subscribed c \<and> cl_state c' = CConnected \<and>
    (\<forall>d. \<not> session_is_subscribed (cs_session_id resp) d ss3) \<and>
    (\<forall>r shw' d client upd base payload. sessions r = ss3 \<longrightarrow>
       (\<exists>e. handle_yjs_update_message shw' (cs_session_id resp) d client upd base payload r = (Err e, r)))"
proof -
  obtain s where s: "map_of ss1 (cs_session_id resp) = Some s" "sr_session_token s = cs_session_token resp"
      "sr_resume_token s = t" "sr_resume_expires_at s = n2 + minutes RESUME_TOKEN_TTL_MINUTES" "sr_subscriptions s = []"
    using created_session [OF assms(5)] assms(3,4) by (auto simp: session_request_def)
  have ss2: "map_of ss2 (cs_session_id resp) = Some (s\<lparr>sr_active_connections := Suc (sr_active_connections s)\<rparr>)"
    using assms(8) s(1) by (auto simp: mark_connected_def on_session_def update_conv' split: option.splits)
  obtain tm tok ex where v: "validate_session_token (cs_session_id resp) (cs_session_token resp) (Some t) m1 m2 f2 ss2 =
      (TokenValid True tok ex, ss3)" "ack = HelloAck tm True tok (fmt ex)"
    using assms(9,12) ss2 s by (auto simp: handle_hello_message_def validate_session_token_def Let_def
        split: sum.splits prod.splits token_validation.splits if_splits)
  have none: "\<not> session_is_subscribed (cs_session_id resp) d ss3" for d
    using v(1) ss2 s(5) by (auto simp: session_is_subscribed_def validate_session_token_def Let_def update_conv'
        split: option.splits if_splits)
  then have "\<exists>e. handle_yjs_update_message shw' (cs_session_id resp) d client upd base payload r = (Err e, r)"
    if "sessions r = ss3" for r shw' d client upd base payload
    using unsubscribed_update_refused that by blast
  moreover have "\<exists>c'. client_connect U T c = (Okay EvConnected, c') \<and> cl_subscribed c' = cl_subscribed c \<and> cl_state c' = CConnected"
    using assms(1,2,3,6,7,10,11) v(2)
    by (simp add: client_connect_def connect_hello_def connect_ack_def session_info_of_def Let_def)
  ultimately show ?thesis using none by blast
qed

section \<open>A reconnection\<close>

definition demo_client :: "unit relay_client" where
  "demo_client =
     (client_new \<lparr>rc_relay_url = ''https://r'', rc_workspace_id = 5, rc_auth_token = ''a'', rc_client_id = 7, rc_device_id = 8\<rparr> ())
       \<lparr>cl_resume_token := Some ''r'', cl_subscribed := {9}\<rparr>"

definition demo_urls :: url_env where
  "demo_urls = \<lparr>url_parse = \<lambda>u. if u = ''https://r'' then Some (''https'', Some ''r'') else Some (''wss'', Some ''r''),
     ip_loopback = \<lambda>_. False\<rparr>"

definition demo_resp :: create_response where
  "demo_resp = \<lparr>cs_session_id = 2, cs_session_token = ''s'', cs_ws_url = ''wss://r/v1/ws/s'', cs_heartbeat_interval_ms = 15000,
     cs_max_frame_bytes = 262144, cs_resume_token = ''r'', cs_resume_expires_at = ''t''\<rparr>"

definition demo_session :: "nat \<Rightarrow> session_store" where
  "demo_session n = [(2, \<lparr>sr_workspace = 5, sr_client = 7, sr_device = 8, sr_session_token = ''s'', sr_resume_token = ''r'',
     sr_expires_at = minutes 15, sr_resume_expires_at = minutes 10, sr_active_connections = n, sr_subscriptions = [],
     sr_outbound = None, sr_actor_user = Some 6, sr_actor_agent = None\<rparr>)]"

definition demo_ack :: ws_message where
  "demo_ack = HelloAck ''t'' True ''f'' ''t''"

definition demo_transport :: "unit transport" where
  "demo_transport = \<lparr>tr_create_session = \<lambda>_ _ t. (Okay (session_info_of demo_resp), t), tr_connect_ws = \<lambda>_ t. (Okay (), t),
     tr_send = \<lambda>_ t. (Okay (), t), tr_recv = \<lambda>t. (Okay (Some demo_ack), t), tr_close = \<lambda>t. t\<rparr>"

lemma demo_session_created:
  "create_sync_session (\<lambda>_ _. Okay (Some Editor)) (\<lambda>_. ''t'') (\<lambda>_. ''s'') ''wss://r'' (2, 3, 4) 0 0 5 (6, 5) (session_request demo_client) [] =
   (Okay demo_resp, demo_session 0)"
  by (simp add: create_sync_session_def session_request_def demo_client_def client_new_def require_supported_def is_supported_def
      SUPPORTED_VERSIONS_def demo_resp_def demo_session_def create_session_with_actor_def HEARTBEAT_INTERVAL_MS_def
      MAX_FRAME_BYTES_def RESUME_TOKEN_TTL_MINUTES_def SESSION_TOKEN_TTL_MINUTES_def Let_def)

lemma demo_hello:
  "\<exists>ss3. handle_hello_message (\<lambda>_. ''t'') (cs_session_id demo_resp) CURRENT_VERSION (cs_session_token demo_resp) (Some ''r'') 3 3 3 ''f''
     (demo_session (Suc 0)) = (Okay demo_ack, ss3)"
  by (simp add: handle_hello_message_def require_supported_def is_supported_def SUPPORTED_VERSIONS_def validate_session_token_def
      demo_resp_def demo_session_def demo_ack_def minutes_def Let_def)

theorem reconnect_loses_subscriptions_witness:
  "\<exists>c' ss3. client_connect demo_urls demo_transport demo_client = (Okay EvConnected, c') \<and> cl_subscribed c' = {9} \<and>
     \<not> session_is_subscribed 2 9 ss3"
proof -
  obtain ss3 where h: "handle_hello_message (\<lambda>_. ''t'') (cs_session_id demo_resp) CURRENT_VERSION (cs_session_token demo_resp)
      (Some ''r'') 3 3 3 ''f'' (demo_session (Suc 0)) = (Okay demo_ack, ss3)" using demo_hello by blast
  have "mark_connected (cs_session_id demo_resp) (demo_session 0) = (True, demo_session (Suc 0))"
    by (simp add: mark_connected_def on_session_def demo_resp_def demo_session_def)
  then have "\<exists>c'. client_connect demo_urls demo_transport demo_client = (Okay EvConnected, c') \<and> cl_subscribed c' = cl_subscribed demo_client \<and>
      cl_state c' = CConnected \<and> (\<forall>d. \<not> session_is_subscribed (cs_session_id demo_resp) d ss3) \<and>
      (\<forall>r shw' d client upd base payload. sessions r = ss3 \<longrightarrow>
       (\<exists>e. handle_yjs_update_message shw' (cs_session_id demo_resp) d client upd base payload r = (Err e, r)))"
    by (intro reconnect_loses_subscriptions [OF _ _ _ _ demo_session_created _ _ _ h, where ?s1.0 = "()" and ?s2.0 = "()" and ?s3.0 = "()" and ?s4.0 = "()"])
      (simp_all add: demo_client_def client_new_def demo_urls_def demo_transport_def demo_resp_def validate_relay_url_def
        validate_ws_url_def validate_scheme_def RESUME_TOKEN_TTL_MINUTES_def minutes_def)
  then show ?thesis by (auto simp: demo_client_def demo_resp_def)
qed

end
