(* ===== verification/MarkdownPatch.thy ===== *)
theory MarkdownPatch
  imports RustText "HOL-Library.Sublist"
begin

text \<open>
  The patches of \<open>doc.diff\<close> in \<open>daemon/src/rpc/methods.rs\<close>: a difference of lines by the table of
  longest common subsequences, bounded in memory, and its rendering as a fenced block of Markdown. The
  table's entries are at most the number of lines, so that its saturating addition is an addition.
\<close>

section \<open>Lines\<close>

datatype 'a line_edit = LEqual 'a | LDelete 'a | LInsert 'a

definition split_markdown_lines :: "rstr \<Rightarrow> rstr list" where
  "split_markdown_lines v = (if v = [] then [] else split_on 10 v)"

section \<open>The table\<close>

definition MAX_LCS_CELLS :: nat where "MAX_LCS_CELLS = 4000000"

text \<open>The row of a line, from the last column to the first, given the row below it.\<close>

fun lcs_row :: "'a \<Rightarrow> 'a list \<Rightarrow> nat list \<Rightarrow> nat list" where
  "lcs_row x [] below = [0]"
| "lcs_row x (y # ys) below =
     (let row = lcs_row x ys (tl below)
      in (if x = y then hd (tl below) + 1 else max (hd below) (hd row)) # row)"

fun lcs_table :: "'a list \<Rightarrow> 'a list \<Rightarrow> nat list list" where
  "lcs_table [] ys = [replicate (length ys + 1) 0]"
| "lcs_table (x # xs) ys = (let t = lcs_table xs ys in lcs_row x ys (hd t) # t)"

text \<open>The three loops over \<open>i\<close> and \<open>j\<close>.\<close>

function edit_loop :: "'a list \<Rightarrow> 'a list \<Rightarrow> nat list list \<Rightarrow> nat \<Rightarrow> nat \<Rightarrow> 'a line_edit list" where
  "edit_loop xs ys lcs i j =
     (if i < length xs \<and> j < length ys
      then (if xs ! i = ys ! j then LEqual (xs ! i) # edit_loop xs ys lcs (i + 1) (j + 1)
            else if lcs ! (i + 1) ! j \<ge> lcs ! i ! (j + 1) then LDelete (xs ! i) # edit_loop xs ys lcs (i + 1) j
            else LInsert (ys ! j) # edit_loop xs ys lcs i (j + 1))
      else map LDelete (drop i xs) @ map LInsert (drop j ys))"
  by pat_completeness auto
termination
  by (relation "measure (\<lambda>(xs, ys, lcs, i, j). (length xs - i) + (length ys - j))") auto

definition diff_markdown_lines :: "'a list \<Rightarrow> 'a list \<Rightarrow> 'a line_edit list" where
  "diff_markdown_lines from_lines to_lines =
     (if length from_lines * length to_lines > MAX_LCS_CELLS
      then map LDelete from_lines @ map LInsert to_lines
      else edit_loop from_lines to_lines (lcs_table from_lines to_lines) 0 0)"

fun render_edit :: "rstr line_edit \<Rightarrow> rstr" where
  "render_edit (LEqual l) = 32 # l @ [10]"
| "render_edit (LDelete l) = 45 # l @ [10]"
| "render_edit (LInsert l) = 43 # l @ [10]"

definition render_markdown_patch :: "rstr \<Rightarrow> rstr \<Rightarrow> rstr" where
  "render_markdown_patch from_content to_content =
     (if from_content = to_content then []
      else lit ''```diff'' @ [10] @
        concat (map render_edit (diff_markdown_lines (split_markdown_lines from_content) (split_markdown_lines to_content))) @
        lit ''```'')"

section \<open>Longest common subsequences\<close>

fun lcs_length :: "'a list \<Rightarrow> 'a list \<Rightarrow> nat" where
  "lcs_length [] ys = 0"
| "lcs_length (x # xs) [] = 0"
| "lcs_length (x # xs) (y # ys) =
     (if x = y then lcs_length xs ys + 1 else max (lcs_length xs (y # ys)) (lcs_length (x # xs) ys))"

lemma lcs_length_Nil [simp]: "lcs_length xs [] = 0"
  by (cases xs) simp_all

text \<open>It bounds every common subsequence.\<close>

lemma lcs_length_max: "subseq zs xs \<Longrightarrow> subseq zs ys \<Longrightarrow> length zs \<le> lcs_length xs ys"
proof (induction xs ys arbitrary: zs rule: lcs_length.induct)
  case (3 x xs y ys)
  show ?case
  proof (cases zs)
    case (Cons z zs')
    show ?thesis
    proof (cases "x = y")
      case True
      have "subseq zs' xs" "subseq zs' ys"
        using "3.prems" Cons True by (metis subseq_Cons2_iff subseq_Cons')+
      then show ?thesis using "3.IH"(1) [OF True] Cons True by simp
    next
      case False
      have "subseq zs xs \<and> subseq zs (y # ys) \<or> subseq zs (x # xs) \<and> subseq zs ys"
        using "3.prems" Cons False by (metis subseq_Cons2_neq)
      then show ?thesis using "3.IH"(2,3) [OF False] False by (auto simp: le_max_iff_disj)
    qed
  qed simp
qed auto

section \<open>The table holds them\<close>

lemma upt_from_zero: "[0..<length (y # ys) + 1] = 0 # map Suc [0..<length ys + 1]"
  unfolding map_Suc_upt by (subst upt_conv_Cons) simp_all

lemma hd_map_upt: "hd (map g [0..<n + 1]) = g 0"
  by (subst upt_conv_Cons) simp_all

lemma lcs_row_correct:
  assumes "below = map (\<lambda>j. lcs_length xs (drop j ys)) [0..<length ys + 1]"
  shows "lcs_row x ys below = map (\<lambda>j. lcs_length (x # xs) (drop j ys)) [0..<length ys + 1]"
  using assms
proof (induction ys arbitrary: below)
  case (Cons y ys)
  have up: "[0..<length (y # ys) + 1] = 0 # map Suc [0..<length ys + 1]"
    by (rule upt_from_zero)
  have b: "below = lcs_length xs (y # ys) # map (\<lambda>j. lcs_length xs (drop j ys)) [0..<length ys + 1]"
    unfolding Cons.prems up by (simp add: comp_def)
  have row: "lcs_row x ys (tl below) = map (\<lambda>j. lcs_length (x # xs) (drop j ys)) [0..<length ys + 1]"
    by (rule Cons.IH) (simp only: b list.sel)
  have h: "hd (map (\<lambda>j. f (drop j ys)) [0..<length ys + 1]) = f ys" for f :: "'a list \<Rightarrow> nat"
    by (simp only: hd_map_upt drop_0)
  have "lcs_row x (y # ys) below =
      lcs_length (x # xs) (y # ys) # map (\<lambda>j. lcs_length (x # xs) (drop j ys)) [0..<length ys + 1]"
    using h [of "lcs_length xs"] h [of "lcs_length (x # xs)"] by (simp add: row Let_def del: upt_Suc) (simp add: b del: upt_Suc)
  then show ?case unfolding up by (simp add: comp_def del: upt_Suc)
qed simp

lemma lcs_table_correct:
  "lcs_table xs ys = map (\<lambda>i. map (\<lambda>j. lcs_length (drop i xs) (drop j ys)) [0..<length ys + 1]) [0..<length xs + 1]"
proof (induction xs)
  case Nil
  show ?case by (simp add: map_replicate_const del: upt_Suc)
next
  case (Cons x xs)
  let ?row = "\<lambda>i. map (\<lambda>j. lcs_length (drop i xs) (drop j ys)) [0..<length ys + 1]"
  have up: "[0..<length (x # xs) + 1] = 0 # map Suc [0..<length xs + 1]"
    by (rule upt_from_zero)
  have "hd (lcs_table xs ys) = ?row 0"
    unfolding Cons.IH by (rule hd_map_upt)
  then have "lcs_row x ys (hd (lcs_table xs ys)) = map (\<lambda>j. lcs_length (x # xs) (drop j ys)) [0..<length ys + 1]"
    by (intro lcs_row_correct) simp
  then show ?case unfolding up using Cons.IH by (simp add: Let_def comp_def del: upt_Suc)
qed

lemma lcs_table_nth:
  "i \<le> length xs \<Longrightarrow> j \<le> length ys \<Longrightarrow> lcs_table xs ys ! i ! j = lcs_length (drop i xs) (drop j ys)"
  by (simp add: lcs_table_correct del: upt_Suc)

section \<open>The edits\<close>

fun old_lines :: "'a line_edit list \<Rightarrow> 'a list" where
  "old_lines [] = []"
| "old_lines (LEqual l # es) = l # old_lines es"
| "old_lines (LDelete l # es) = l # old_lines es"
| "old_lines (LInsert l # es) = old_lines es"

fun new_lines :: "'a line_edit list \<Rightarrow> 'a list" where
  "new_lines [] = []"
| "new_lines (LEqual l # es) = l # new_lines es"
| "new_lines (LDelete l # es) = new_lines es"
| "new_lines (LInsert l # es) = l # new_lines es"

fun kept_lines :: "'a line_edit list \<Rightarrow> 'a list" where
  "kept_lines [] = []"
| "kept_lines (LEqual l # es) = l # kept_lines es"
| "kept_lines (LDelete l # es) = kept_lines es"
| "kept_lines (LInsert l # es) = kept_lines es"

lemma lines_append [simp]:
  "old_lines (xs @ ys) = old_lines xs @ old_lines ys" "new_lines (xs @ ys) = new_lines xs @ new_lines ys"
  "kept_lines (xs @ ys) = kept_lines xs @ kept_lines ys"
  by (induction xs rule: old_lines.induct) simp_all

lemma lines_map [simp]:
  "old_lines (map LDelete xs) = xs" "new_lines (map LDelete xs) = []" "kept_lines (map LDelete xs) = []"
  "old_lines (map LInsert xs) = []" "new_lines (map LInsert xs) = xs" "kept_lines (map LInsert xs) = []"
  by (induction xs) simp_all

lemma kept_subseq: "subseq (kept_lines es) (old_lines es)" "subseq (kept_lines es) (new_lines es)"
  by (induction es rule: old_lines.induct) (auto intro: subseq_Cons')

lemma drop_at: "i < length xs \<Longrightarrow> drop i xs = xs ! i # drop (i + 1) xs"
  by (simp add: Cons_nth_drop_Suc)

declare edit_loop.simps [simp del]

lemma edit_loop_lines:
  assumes "lcs = lcs_table xs ys" "i \<le> length xs" "j \<le> length ys"
  shows "old_lines (edit_loop xs ys lcs i j) = drop i xs \<and> new_lines (edit_loop xs ys lcs i j) = drop j ys \<and>
    length (kept_lines (edit_loop xs ys lcs i j)) = lcs_length (drop i xs) (drop j ys)"
  using assms
proof (induction xs ys lcs i j rule: edit_loop.induct)
  case (1 xs ys lcs i j)
  note e = edit_loop.simps [of xs ys lcs i j]
  show ?case
  proof (cases "i < length xs \<and> j < length ys")
    case True
    note d = drop_at [of i xs] drop_at [of j ys]
    show ?thesis
    proof (cases "xs ! i = ys ! j")
      case eq: True
      then show ?thesis using "1.IH"(1) [OF True eq] "1.prems" True d e by simp
    next
      case neq: False
      have v: "lcs ! (i + 1) ! j = lcs_length (drop (i + 1) xs) (drop j ys)"
          "lcs ! i ! (j + 1) = lcs_length (drop i xs) (drop (j + 1) ys)"
        using "1.prems" True by (simp_all add: lcs_table_nth)
      show ?thesis
      proof (cases "lcs ! (i + 1) ! j \<ge> lcs ! i ! (j + 1)")
        case ge: True
        then show ?thesis using "1.IH"(2) [OF True neq ge] "1.prems" True d neq v e by simp
      next
        case less: False
        then show ?thesis using "1.IH"(3) [OF True neq less] "1.prems" True d neq v e by simp
      qed
    qed
  next
    case False
    then have "drop i xs = [] \<or> drop j ys = []" by auto
    then show ?thesis using False e by auto
  qed
qed

lemma diff_markdown_lines_faithful:
  "old_lines (diff_markdown_lines xs ys) = xs" "new_lines (diff_markdown_lines xs ys) = ys"
  using edit_loop_lines [OF refl, of 0 xs 0 ys] by (simp_all add: diff_markdown_lines_def)

lemma diff_markdown_lines_kept:
  "length xs * length ys \<le> MAX_LCS_CELLS \<Longrightarrow> length (kept_lines (diff_markdown_lines xs ys)) = lcs_length xs ys"
  using edit_loop_lines [OF refl, of 0 xs 0 ys] by (simp add: diff_markdown_lines_def)

section \<open>Reading a patch back\<close>

fun read_edit :: "rstr \<Rightarrow> rstr line_edit option" where
  "read_edit [] = None"
| "read_edit (c # l) =
     (if c = 32 then Some (LEqual l) else if c = 45 then Some (LDelete l) else if c = 43 then Some (LInsert l) else None)"

definition read_markdown_patch :: "rstr \<Rightarrow> rstr line_edit list option" where
  "read_markdown_patch p =
     (let ls = split_on 10 p
      in if hd ls = lit ''```diff'' \<and> last ls = lit ''```'' then those (map read_edit (butlast (tl ls))) else None)"

fun edit_line :: "'a line_edit \<Rightarrow> 'a" where
  "edit_line (LEqual l) = l" | "edit_line (LDelete l) = l" | "edit_line (LInsert l) = l"

fun edit_text :: "rstr line_edit \<Rightarrow> rstr" where
  "edit_text (LEqual l) = 32 # l" | "edit_text (LDelete l) = 45 # l" | "edit_text (LInsert l) = 43 # l"

lemma render_edit_text: "render_edit e = edit_text e @ [10]"
  by (cases e) simp_all

lemma edit_text_fresh: "10 \<notin> set (edit_line e) \<Longrightarrow> 10 \<notin> set (edit_text e)"
  by (cases e) simp_all

lemma read_edit_text: "read_edit (edit_text e) = Some e"
  by (cases e) simp_all

lemma those_read: "those (map read_edit (map edit_text es)) = Some es"
  by (induction es) (simp_all add: read_edit_text)

lemma edit_lines_old_new: "e \<in> set es \<Longrightarrow> edit_line e \<in> set (old_lines es) \<union> set (new_lines es)"
  by (induction es rule: old_lines.induct) auto

lemma split_rendered:
  "\<forall>e \<in> set es. 10 \<notin> set (edit_line e) \<Longrightarrow> 10 \<notin> set t \<Longrightarrow>
   split_on 10 (concat (map render_edit es) @ t) = map edit_text es @ [t]"
  by (induction es) (simp_all add: render_edit_text edit_text_fresh split_on_append split_on_fresh)

lemma fences_fresh: "10 \<notin> set (lit ''```diff'')" "10 \<notin> set (lit ''```'')"
  by (simp_all add: lit_def)

lemma split_markdown_lines_fresh: "l \<in> set (split_markdown_lines v) \<Longrightarrow> 10 \<notin> set l"
  by (auto simp: split_markdown_lines_def split: if_splits dest: split_on_parts)

lemma read_rendered:
  assumes "from_content \<noteq> to_content"
  shows "read_markdown_patch (render_markdown_patch from_content to_content) =
    Some (diff_markdown_lines (split_markdown_lines from_content) (split_markdown_lines to_content))"
proof -
  define es where "es = diff_markdown_lines (split_markdown_lines from_content) (split_markdown_lines to_content)"
  have "10 \<notin> set (edit_line e)" if "e \<in> set es" for e
    using edit_lines_old_new [OF that] split_markdown_lines_fresh
    unfolding es_def diff_markdown_lines_faithful by blast
  then have "split_on 10 (render_markdown_patch from_content to_content) = lit ''```diff'' # map edit_text es @ [lit ''```'']"
    using assms fences_fresh by (simp add: render_markdown_patch_def split_on_append split_rendered flip: es_def)
  then show ?thesis by (simp add: read_markdown_patch_def those_read del: map_map flip: es_def)
qed

text \<open>Nothing is lost by the division into lines: the empty text alone has none.\<close>

lemma join_split_markdown_lines: "join [10] (split_markdown_lines v) = v"
  by (simp add: split_markdown_lines_def join_split_on)

text \<open>
  (C38) The patch that \<open>doc.diff\<close> returns determines both contents: a reader that takes the lines between the
  two fences, whatever the contents are (they may hold fences themselves), finds edits whose kept and deleted lines
  joined by newlines are the old content and whose kept and inserted lines are the new one; two equal
  contents have the empty patch. Where the table fits its bound the difference is minimal: no common
  subsequence of the lines of the two contents is longer than what the patch keeps.
\<close>

theorem markdown_patch_faithful:
  fixes from_content to_content :: rstr
  defines "old \<equiv> split_markdown_lines from_content" and "new \<equiv> split_markdown_lines to_content"
  shows "if from_content = to_content then render_markdown_patch from_content to_content = []
    else \<exists>es. read_markdown_patch (render_markdown_patch from_content to_content) = Some es \<and>
      join [10] (old_lines es) = from_content \<and> join [10] (new_lines es) = to_content \<and>
      subseq (kept_lines es) old \<and> subseq (kept_lines es) new \<and>
      (length old * length new \<le> MAX_LCS_CELLS \<longrightarrow>
        (\<forall>zs. subseq zs old \<and> subseq zs new \<longrightarrow> length zs \<le> length (kept_lines es)))"
proof (cases "from_content = to_content")
  case False
  let ?es = "diff_markdown_lines old new"
  have "subseq (kept_lines ?es) old" "subseq (kept_lines ?es) new"
    using kept_subseq [of ?es] by (simp_all add: diff_markdown_lines_faithful)
  moreover have "length zs \<le> length (kept_lines ?es)"
    if "length old * length new \<le> MAX_LCS_CELLS" "subseq zs old" "subseq zs new" for zs
    using lcs_length_max [OF that(2,3)] diff_markdown_lines_kept [OF that(1)] by simp
  ultimately show ?thesis
    using False read_rendered [OF False] join_split_markdown_lines
    by (simp add: old_def new_def diff_markdown_lines_faithful)
qed (simp add: render_markdown_patch_def)

text \<open>A sentence replaced in a text of three lines; the fence in the text does not end the patch.\<close>

definition demo_from :: rstr where "demo_from = lit ''a'' @ [10] @ lit ''```'' @ [10] @ lit ''b''"

definition demo_to :: rstr where "demo_to = lit ''a'' @ [10] @ lit ''```'' @ [10] @ lit ''c''"

theorem markdown_patch_faithful_witness:
  "demo_from \<noteq> demo_to \<and> length (split_markdown_lines demo_from) * length (split_markdown_lines demo_to) = 9 \<and>
   (\<exists>es. read_markdown_patch (render_markdown_patch demo_from demo_to) = Some es \<and>
      join [10] (old_lines es) = demo_from \<and> join [10] (new_lines es) = demo_to)"
proof -
  have "demo_from \<noteq> demo_to" by code_simp
  moreover have "length (split_markdown_lines demo_from) * length (split_markdown_lines demo_to) = 9" by code_simp
  ultimately show ?thesis using markdown_patch_faithful [of demo_from demo_to] by auto
qed

end
