(* ===== verification/SectionTree.thy ===== *)
theory SectionTree
  imports Sections
begin

text \<open>
  The walks through the tree of sections in \<open>daemon/src/rpc/methods.rs\<close>: the chain of parents of a
  section, its descendants and the comments that belong to it. The walks follow \<open>parent_id\<close> in a hash
  map as long as it leads somewhere, which need not end for a map with a cycle; they end
  for the sections of a document.
\<close>

section \<open>Walks\<close>

definition sections_by_id :: "doc_section list \<Rightarrow> rstr \<Rightarrow> doc_section option" where
  "sections_by_id sections = map_of (rev (map (\<lambda>s. (sec_id s, s)) sections))"

partial_function (option) parents_up :: "(rstr \<Rightarrow> doc_section option) \<Rightarrow> rstr option \<Rightarrow> doc_section list option" where
  "parents_up by_id current_parent =
     (case current_parent of
        None \<Rightarrow> Some []
      | Some parent_id \<Rightarrow>
          (case by_id parent_id of
             None \<Rightarrow> Some []
           | Some parent \<Rightarrow> do { ps \<leftarrow> parents_up by_id (sec_parent parent); Some (parent # ps) }))"

definition section_parent_chain :: "doc_section \<Rightarrow> (rstr \<Rightarrow> doc_section option) \<Rightarrow> doc_section list option" where
  "section_parent_chain s by_id = map_option rev (parents_up by_id (sec_parent s))"

partial_function (option) reaches_up :: "(rstr \<Rightarrow> doc_section option) \<Rightarrow> rstr \<Rightarrow> rstr option \<Rightarrow> bool option" where
  "reaches_up by_id ancestor_id current_parent =
     (case current_parent of
        None \<Rightarrow> Some False
      | Some parent_id \<Rightarrow>
          if parent_id = ancestor_id then Some True
          else reaches_up by_id ancestor_id (Option.bind (by_id parent_id) sec_parent))"

definition section_is_descendant_of :: "doc_section \<Rightarrow> rstr \<Rightarrow> (rstr \<Rightarrow> doc_section option) \<Rightarrow> bool option" where
  "section_is_descendant_of candidate ancestor_id by_id = reaches_up by_id ancestor_id (sec_parent candidate)"

fun filter_opt :: "('a \<Rightarrow> bool option) \<Rightarrow> 'a list \<Rightarrow> 'a list option" where
  "filter_opt p [] = Some []"
| "filter_opt p (x # xs) = do { b \<leftarrow> p x; r \<leftarrow> filter_opt p xs; Some (if b then x # r else r) }"

definition section_descendants ::
  "doc_section \<Rightarrow> doc_section list \<Rightarrow> (rstr \<Rightarrow> doc_section option) \<Rightarrow> doc_section list option" where
  "section_descendants s sections by_id =
     filter_opt (\<lambda>c. section_is_descendant_of c (sec_id s) by_id) (filter (\<lambda>c. sec_id c \<noteq> sec_id s) sections)"

definition comment_matches_target_section ::
  "rstr option \<Rightarrow> doc_section option \<Rightarrow> (rstr \<Rightarrow> doc_section option) \<Rightarrow> bool option" where
  "comment_matches_target_section comment_section_id target_section by_id =
     (case (target_section, comment_section_id) of
        (None, _) \<Rightarrow> Some True
      | (Some t, None) \<Rightarrow> Some True
      | (Some t, Some c) \<Rightarrow>
          if c = sec_id t then Some True
          else (case by_id c of
                  Some s \<Rightarrow> section_is_descendant_of s (sec_id t) by_id
                | None \<Rightarrow> Some (take (length (sec_id t @ lit ''/'')) c = sec_id t @ lit ''/'')))"

section \<open>Sections of a document\<close>

text \<open>What the parser promises of the sections: ids are unique and parents the nearest shallower sections before.\<close>

definition section_tree :: "doc_section list \<Rightarrow> bool" where
  "section_tree ss \<longleftrightarrow> distinct (map sec_id ss) \<and>
     (\<forall>i < length ss. sec_parent (ss ! i) =
        map_option (\<lambda>j. sec_id (ss ! j)) (nearest (map sec_level ss) i (sec_level (ss ! i))))"

lemma parsed_tree:
  assumes "parse_sections lower parser md = Some ss"
  shows "section_tree ss"
proof -
  obtain ds where "collect_drafts md (parser md) None [] = Some ds" "build_tree lower md ds = Some ss"
    using assms by (auto simp: parse_sections_def split: Option.bind_splits)
  then show ?thesis using build_tree_props [of lower md ds] by (auto simp: section_tree_def)
qed

lemma sections_by_id_nth:
  assumes "section_tree ss" "j < length ss"
  shows "sections_by_id ss (sec_id (ss ! j)) = Some (ss ! j)"
proof -
  have "map fst (rev (map (\<lambda>s. (sec_id s, s)) ss)) = rev (map sec_id ss)" by (simp add: rev_map comp_def)
  then have "distinct (map fst (rev (map (\<lambda>s. (sec_id s, s)) ss)))"
    using assms(1) by (simp add: section_tree_def)
  then show ?thesis unfolding sections_by_id_def using assms(2) by (intro map_of_is_SomeI) auto
qed

lemma section_tree_parent:
  assumes "section_tree ss" "i < length ss"
  shows "sec_parent (ss ! i) = map_option (\<lambda>j. sec_id (ss ! j)) (nearest (map sec_level ss) i (sec_level (ss ! i)))"
  using assms unfolding section_tree_def by blast

lemma section_id_eq: "section_tree ss \<Longrightarrow> i < length ss \<Longrightarrow> j < length ss \<Longrightarrow> sec_id (ss ! i) = sec_id (ss ! j) \<longleftrightarrow> i = j"
  unfolding section_tree_def by (metis distinct_conv_nth length_map nth_map)

lemma nearest_None: "nearest ls n l = None \<longleftrightarrow> (\<forall>j < n. l \<le> ls ! j)"
  by (induction n) (auto simp: less_Suc_eq)

lemma nearest_Some:
  "nearest ls n l = Some j \<longleftrightarrow> j < n \<and> ls ! j < l \<and> (\<forall>k. j < k \<and> k < n \<longrightarrow> l \<le> ls ! k)"
proof (induction n)
  case (Suc n)
  show ?case
  proof (cases "ls ! n < l")
    case True
    then show ?thesis by (auto, metis leD less_SucE lessI)
  next
    case False
    then show ?thesis using Suc by (auto simp: less_Suc_eq)
  qed
qed simp

section \<open>Descendants\<close>

text \<open>\<open>j\<close> lies below \<open>i\<close>: it comes after \<open>i\<close> with only deeper sections in between.\<close>

definition below :: "doc_section list \<Rightarrow> nat \<Rightarrow> nat \<Rightarrow> bool" where
  "below ss i j \<longleftrightarrow> i < j \<and> (\<forall>k. i < k \<and> k \<le> j \<longrightarrow> sec_level (ss ! i) < sec_level (ss ! k))"

lemma below_parent_None:
  assumes "i < length ss" "j < length ss" "nearest (map sec_level ss) j (sec_level (ss ! j)) = None"
  shows "\<not> below ss i j"
proof
  assume b: "below ss i j"
  then have "sec_level (ss ! i) < sec_level (ss ! j)" "i < j" by (auto simp: below_def)
  then show False using assms by (auto simp: nearest_None)
qed

lemma below_parent_Some:
  assumes "i < length ss" "j < length ss" "nearest (map sec_level ss) j (sec_level (ss ! j)) = Some p"
  shows "below ss i j \<longleftrightarrow> p = i \<or> below ss i p"
proof -
  have p: "p < j" "sec_level (ss ! p) < sec_level (ss ! j)"
      "\<And>k. p < k \<Longrightarrow> k < j \<Longrightarrow> sec_level (ss ! j) \<le> sec_level (ss ! k)"
    using assms by (auto simp: nearest_Some)
  show ?thesis
  proof (cases i p rule: linorder_cases)
    case less
    have "below ss i j" if "below ss i p"
      unfolding below_def
    proof (intro conjI allI impI)
      fix k assume k: "i < k \<and> k \<le> j"
      have "sec_level (ss ! i) < sec_level (ss ! p)" using that less by (simp add: below_def)
      then show "sec_level (ss ! i) < sec_level (ss ! k)"
        using that k p(2) p(3) [of k] by (cases "k \<le> p"; cases "k = j") (auto simp: below_def)
    qed (use less p(1) in simp)
    moreover have "below ss i p" if "below ss i j" using that less p(1) by (auto simp: below_def)
    ultimately show ?thesis using less by auto
  next
    case equal
    have "below ss i j"
      unfolding below_def
    proof (intro conjI allI impI)
      fix k assume k: "i < k \<and> k \<le> j"
      then show "sec_level (ss ! i) < sec_level (ss ! k)"
        using equal p(2) p(3) [of k] by (cases "k = j") auto
    qed (use equal p(1) in simp)
    then show ?thesis using equal by simp
  next
    case greater
    then have "\<not> below ss i j" using p(3) [of i] unfolding below_def
      by (metis leD le_refl nat_less_le)
    then show ?thesis using greater by (auto simp: below_def)
  qed
qed

lemma reaches_up_below:
  assumes "section_tree ss" "i < length ss" "j < length ss"
  shows "reaches_up (sections_by_id ss) (sec_id (ss ! i)) (sec_parent (ss ! j)) = Some (below ss i j)"
  using assms(3)
proof (induction j rule: less_induct)
  case (less j)
  show ?case
  proof (cases "nearest (map sec_level ss) j (sec_level (ss ! j))")
    case None
    then have "sec_parent (ss ! j) = None" using section_tree_parent [OF assms(1) less.prems] by simp
    then show ?thesis using below_parent_None [OF assms(2) less.prems None] by (subst reaches_up.simps) simp
  next
    case (Some p)
    then have p: "p < j" "p < length ss" "sec_parent (ss ! j) = Some (sec_id (ss ! p))"
      using section_tree_parent [OF assms(1) less.prems] nearest_less [OF Some] less.prems by auto
    note b = below_parent_Some [OF assms(2) less.prems Some]
    show ?thesis
    proof (cases "p = i")
      case True
      then show ?thesis using p(3) b by (subst reaches_up.simps) simp
    next
      case False
      then have "sec_id (ss ! p) \<noteq> sec_id (ss ! i)" using section_id_eq [OF assms(1)] p(2) assms(2) by blast
      then show ?thesis
        using p(3) b False less.IH [OF p(1,2)] sections_by_id_nth [OF assms(1) p(2)] by (subst reaches_up.simps) simp
    qed
  qed
qed

lemma is_descendant_below:
  "section_tree ss \<Longrightarrow> i < length ss \<Longrightarrow> j < length ss \<Longrightarrow>
   section_is_descendant_of (ss ! j) (sec_id (ss ! i)) (sections_by_id ss) = Some (below ss i j)"
  by (simp add: section_is_descendant_of_def reaches_up_below)

lemma filter_opt_Some: "(\<And>x. x \<in> set xs \<Longrightarrow> p x = Some (q x)) \<Longrightarrow> filter_opt p xs = Some (filter q xs)"
  by (induction xs) auto

text \<open>The sections below one are the run of deeper sections that follows it.\<close>

lemma all_le_Suc: "(\<forall>k \<le> Suc j. Q k) \<longleftrightarrow> Q 0 \<and> (\<forall>k \<le> j. Q (Suc k))"
  by (metis Suc_le_mono not0_implies_Suc zero_le)

lemma filter_takeWhile:
  "(\<And>j. j < length xs \<Longrightarrow> R (xs ! j) \<longleftrightarrow> (\<forall>k \<le> j. P (xs ! k))) \<Longrightarrow> filter R xs = takeWhile P xs"
proof (induction xs)
  case (Cons x xs)
  have "R (xs ! j) \<longleftrightarrow> P x \<and> (\<forall>k \<le> j. P (xs ! k))" if "j < length xs" for j
    using Cons.prems [of "Suc j"] that by (simp add: all_le_Suc)
  then have "\<not> P x \<Longrightarrow> filter R xs = []" and "P x \<Longrightarrow> filter R xs = takeWhile P xs"
    using Cons.IH by (auto simp: filter_empty_conv in_set_conv_nth)
  then show ?case using Cons.prems [of 0] by simp
qed simp

theorem section_descendants_run:
  assumes "parse_sections lower parser md = Some ss" "i < length ss"
  shows "section_descendants (ss ! i) ss (sections_by_id ss) =
    Some (takeWhile (\<lambda>s. sec_level (ss ! i) < sec_level s) (drop (i + 1) ss))"
proof -
  note tree = parsed_tree [OF assms(1)]
  define q where "q s \<longleftrightarrow> (\<exists>j < length ss. ss ! j = s \<and> below ss i j)" for s
  have q: "q (ss ! j) \<longleftrightarrow> below ss i j" if "j < length ss" for j
    using that section_id_eq [OF tree] unfolding q_def by metis
  have "section_descendants (ss ! i) ss (sections_by_id ss) = Some (filter q (filter (\<lambda>c. sec_id c \<noteq> sec_id (ss ! i)) ss))"
    unfolding section_descendants_def
    by (rule filter_opt_Some) (auto simp: in_set_conv_nth is_descendant_below [OF tree assms(2)] q)
  also have "filter q (filter (\<lambda>c. sec_id c \<noteq> sec_id (ss ! i)) ss) = filter q ss"
    by (auto simp: q_def below_def section_id_eq [OF tree] assms(2) intro!: filter_cong)
  also have "\<dots> = filter q (take (i + 1) ss) @ filter q (drop (i + 1) ss)"
    unfolding filter_append [symmetric] append_take_drop_id ..
  also have "filter q (take (i + 1) ss) = []"
    by (auto simp: filter_empty_conv in_set_conv_nth q below_def)
  also have "filter q (drop (i + 1) ss) = takeWhile (\<lambda>s. sec_level (ss ! i) < sec_level s) (drop (i + 1) ss)"
  proof (rule filter_takeWhile)
    fix j assume j: "j < length (drop (i + 1) ss)"
    have "below ss i (i + 1 + j) \<longleftrightarrow> (\<forall>k \<le> j. sec_level (ss ! i) < sec_level (ss ! (i + 1 + k)))"
      unfolding below_def by (auto, metis Suc_leI add_Suc add_le_cancel_left le_Suc_ex)
    then show "q (drop (i + 1) ss ! j) \<longleftrightarrow> (\<forall>k \<le> j. sec_level (ss ! i) < sec_level (drop (i + 1) ss ! k))"
      using j q [of "i + 1 + j"] by auto
  qed
  finally show ?thesis by simp
qed

section \<open>Parents\<close>

lemma parents_up_above:
  assumes "section_tree ss" "i < length ss"
  shows "parents_up (sections_by_id ss) (sec_parent (ss ! i)) =
    Some (rev (map ((!) ss) (filter (\<lambda>j. below ss j i) [0..<i])))"
  using assms(2)
proof (induction i rule: less_induct)
  case (less i)
  show ?case
  proof (cases "nearest (map sec_level ss) i (sec_level (ss ! i))")
    case None
    then have "sec_parent (ss ! i) = None" using section_tree_parent [OF assms(1) less.prems] by simp
    moreover have "\<not> below ss j i" if "j < i" for j using below_parent_None [OF _ less.prems None, of j] that less.prems by simp
    ultimately show ?thesis by (subst parents_up.simps) (simp add: filter_empty_conv)
  next
    case (Some p)
    then have p: "p < i" "p < length ss" "sec_parent (ss ! i) = Some (sec_id (ss ! p))"
      using section_tree_parent [OF assms(1) less.prems] nearest_less [OF Some] less.prems by auto
    have b: "below ss j i \<longleftrightarrow> p = j \<or> below ss j p" if "j < i" for j
      using below_parent_Some [OF _ less.prems Some, of j] that less.prems by simp
    have "[0..<i] = [0..<p] @ p # [Suc p..<i]" using p(1) by (metis upt_add_eq_append upt_conv_Cons le_add_diff_inverse less_imp_le zero_le)
    moreover have "filter (\<lambda>j. below ss j i) [0..<p] = filter (\<lambda>j. below ss j p) [0..<p]"
      using b p(1) by (intro filter_cong) auto
    moreover have "filter (\<lambda>j. below ss j i) [Suc p..<i] = []"
      using b by (auto simp: filter_empty_conv below_def)
    ultimately have "filter (\<lambda>j. below ss j i) [0..<i] = filter (\<lambda>j. below ss j p) [0..<p] @ [p]"
      using b [OF p(1)] by simp
    then show ?thesis
      using p(3) less.IH [OF p(1,2)] sections_by_id_nth [OF assms(1) p(2)] by (subst parents_up.simps) simp
  qed
qed

text \<open>
  (C39) In the tree of the sections of a document the walks end and give what the bundle calls parents and
  children: the descendants of a section are the run of deeper sections that follows it in the
  document, and its chain of parents holds, in the order of the document, exactly the sections whose
  descendant it is.
\<close>

theorem section_walks:
  assumes "parse_sections lower parser md = Some ss" "i < length ss"
  shows "section_descendants (ss ! i) ss (sections_by_id ss) =
      Some (takeWhile (\<lambda>s. sec_level (ss ! i) < sec_level s) (drop (i + 1) ss)) \<and>
    section_parent_chain (ss ! i) (sections_by_id ss) =
      Some (map ((!) ss) (filter (\<lambda>j. section_is_descendant_of (ss ! i) (sec_id (ss ! j)) (sections_by_id ss) = Some True) [0..<i]))"
proof -
  note tree = parsed_tree [OF assms(1)]
  have "filter (\<lambda>j. below ss j i) [0..<i] =
      filter (\<lambda>j. section_is_descendant_of (ss ! i) (sec_id (ss ! j)) (sections_by_id ss) = Some True) [0..<i]"
    using assms(2) by (intro filter_cong) (auto simp: is_descendant_below [OF tree])
  then show ?thesis
    using section_descendants_run [OF assms] parents_up_above [OF tree assms(2)] by (simp add: section_parent_chain_def rev_map)
qed

theorem section_walks_witness:
  "\<exists>ss. parse_sections to_ascii_lowercase demo_parser demo_md = Some ss \<and> length ss = 3 \<and>
     section_descendants (ss ! 0) ss (sections_by_id ss) = Some (takeWhile (\<lambda>s. sec_level (ss ! 0) < sec_level s) (drop 1 ss))"
proof -
  obtain ss where ss: "parse_sections to_ascii_lowercase demo_parser demo_md = Some ss" "length ss = 3"
    using demo_sections by (auto dest: map_eq_imp_length_eq)
  then show ?thesis using section_walks [OF ss(1), of 0] by auto
qed

end
