(* ===== verification/Backlinks.thy ===== *)
theory Backlinks
  imports PathNorm Decimal "HOL-Library.List_Lexorder"
begin

text \<open>
  \<open>daemon/src/search/backlinks.rs\<close>: the resolution of wiki links to documents and the table of
  backlinks, and from \<open>daemon/src/rpc/methods.rs\<close> the rewriting of links when a document is renamed,
  which replaces byte ranges of the text from the last to the first. \<open>String::replace_range\<close> panics
  at an offset that is no character boundary (\<open>None\<close>).
\<close>

section \<open>Resolution\<close>

record linkable_document =
  ld_doc_id :: rstr
  ld_path :: rstr
  ld_title :: "rstr option"

record resolved_backlink =
  rb_source :: rstr
  rb_target :: rstr
  rb_text :: rstr

definition trim_slashes :: "rstr \<Rightarrow> rstr" where
  "trim_slashes s = rev (dropWhile (\<lambda>c. c = 47) (rev (dropWhile (\<lambda>c. c = 47) s)))"

definition normalize_pathish :: "rstr \<Rightarrow> rstr" where
  "normalize_pathish v = trim_slashes (map (\<lambda>c. if c = 92 then 47 else c) (trim v))"

definition strip_suffix :: "rstr \<Rightarrow> rstr \<Rightarrow> rstr option" where
  "strip_suffix p s = map_option rev (strip_prefix (rev p) (rev s))"

definition filename_key :: "rstr \<Rightarrow> rstr" where
  "filename_key pathish =
     (let f = last (split_on 47 pathish)
      in to_ascii_lowercase
           (case strip_suffix (lit ''.md'') f of
              Some r \<Rightarrow> r
            | None \<Rightarrow> (case strip_suffix (lit ''.MD'') f of Some r \<Rightarrow> r | None \<Rightarrow> f)))"

definition resolve_target_doc :: "rstr \<Rightarrow> linkable_document list \<Rightarrow> linkable_document option" where
  "resolve_target_doc target documents =
     (let normalized = normalize_pathish target in
      if normalized = [] then None
      else case find (\<lambda>d. normalize_pathish (ld_path d) = normalized) documents of
        Some d \<Rightarrow> Some d
      | None \<Rightarrow>
          (case find (\<lambda>d. filename_key (normalize_pathish (ld_path d)) = filename_key normalized) documents of
             Some d \<Rightarrow> Some d
           | None \<Rightarrow>
               find (\<lambda>d. case ld_title d of
                       Some t \<Rightarrow> to_ascii_lowercase (trim t) = to_ascii_lowercase (trim target)
                     | None \<Rightarrow> False) documents))"

definition resolve_wiki_links :: "rstr \<Rightarrow> wiki_link list \<Rightarrow> linkable_document list \<Rightarrow> resolved_backlink list" where
  "resolve_wiki_links source_doc_id links documents =
     List.map_filter (\<lambda>link. map_option
       (\<lambda>d. \<lparr>rb_source = source_doc_id, rb_target = ld_doc_id d, rb_text = wl_raw link\<rparr>)
       (resolve_target_doc (wl_target link) documents)) links"

section \<open>The table\<close>

type_synonym backlinks_table = "resolved_backlink list"

definition insert_or_ignore :: "resolved_backlink \<Rightarrow> backlinks_table \<Rightarrow> backlinks_table" where
  "insert_or_ignore b tbl = (if b \<in> set tbl then tbl else tbl @ [b])"

definition replace_for_source :: "rstr \<Rightarrow> resolved_backlink list \<Rightarrow> backlinks_table \<Rightarrow> backlinks_table" where
  "replace_for_source source_doc_id backlinks tbl =
     fold insert_or_ignore backlinks (filter (\<lambda>b. rb_source b \<noteq> source_doc_id) tbl)"

definition incoming_for_target :: "rstr \<Rightarrow> backlinks_table \<Rightarrow> resolved_backlink list" where
  "incoming_for_target target_doc_id tbl =
     sort_key rb_source (sort_key rb_text (filter (\<lambda>b. rb_target b = target_doc_id) tbl))"

section \<open>Renaming\<close>

definition compose_renamed_wiki_link_inner :: "rstr \<Rightarrow> rstr option \<Rightarrow> rstr option \<Rightarrow> rstr" where
  "compose_renamed_wiki_link_inner new_target heading alias_text =
     new_target @
     (case heading of Some h \<Rightarrow> if h = [] then [] else 35 # h | None \<Rightarrow> []) @
     (case alias_text of Some a \<Rightarrow> if a = [] then [] else 124 # a | None \<Rightarrow> [])"

definition replace_range :: "nat \<Rightarrow> nat \<Rightarrow> rstr \<Rightarrow> rstr \<Rightarrow> rstr option" where
  "replace_range start fin new s =
     (if fin < start then None
      else do { (a, _) \<leftarrow> split_at_byte start s; (_, c) \<leftarrow> split_at_byte fin s; Some (a @ new @ c) })"

text \<open>Whether the resolution of one link has the target among its edges.\<close>

definition points_to :: "linkable_document list \<Rightarrow> rstr \<Rightarrow> rstr \<Rightarrow> wiki_link \<Rightarrow> bool" where
  "points_to documents source_doc_id target_doc_id link \<longleftrightarrow>
     (\<exists>edge \<in> set (resolve_wiki_links source_doc_id [link] documents). rb_target edge = target_doc_id)"

definition link_replacement :: "rstr \<Rightarrow> wiki_link \<Rightarrow> nat \<times> nat \<times> rstr" where
  "link_replacement new_path link =
     (start_offset link, end_offset link,
      lit ''[['' @ compose_renamed_wiki_link_inner new_path (wl_heading link) (wl_alias link) @ lit '']]'')"

definition apply_replacements :: "(nat \<times> nat \<times> rstr) list \<Rightarrow> rstr \<Rightarrow> rstr option" where
  "apply_replacements rs s = foldr (\<lambda>(start, fin, r) u. Option.bind u (replace_range start fin r)) rs (Some s)"

definition rewrite_backlinks_for_renamed_target ::
  "rstr \<Rightarrow> rstr \<Rightarrow> rstr \<Rightarrow> linkable_document list \<Rightarrow> rstr \<Rightarrow> (rstr \<times> nat) option" where
  "rewrite_backlinks_for_renamed_target markdown source_doc_id target_doc_id documents new_path =
     (let parsed_links = parse_wiki_links markdown in
      if parsed_links = [] then Some (markdown, 0)
      else
        let replacements = map (link_replacement new_path) (filter (points_to documents source_doc_id target_doc_id) parsed_links)
        in if replacements = [] then Some (markdown, 0)
           else map_option (\<lambda>updated. (updated, length replacements)) (apply_replacements replacements markdown))"

section \<open>Trimmed texts\<close>

lemma trim_iff: "trim s = s \<longleftrightarrow> s = [] \<or> (\<not> is_whitespace (hd s) \<and> \<not> is_whitespace (last s))"
proof (cases s rule: rev_cases)
  case (snoc t c)
  have d: "dropWhile is_whitespace x = x \<longleftrightarrow> x = [] \<or> \<not> is_whitespace (hd x)" for x
    by (metis dropWhile_eq_self_iff)
  show ?thesis
  proof
    assume t: "trim s = s"
    have "length (dropWhile is_whitespace s) \<le> length s" by (simp add: length_dropWhile_le)
    moreover have "length (trim s) \<le> length (dropWhile is_whitespace s)"
      by (metis length_dropWhile_le length_rev trim_def trim_end_def trim_start_def)
    ultimately have "dropWhile is_whitespace s = s"
      using t by (metis antisym dropWhile_eq_drop drop_0 length_drop diff_is_0_eq' diff_diff_cancel length_takeWhile_le zero_diff)
    then show "s = [] \<or> (\<not> is_whitespace (hd s) \<and> \<not> is_whitespace (last s))"
      using t d [of s] d [of "rev s"] by (auto simp: trim_def trim_start_def trim_end_def hd_rev rev_swap)
  next
    assume "s = [] \<or> (\<not> is_whitespace (hd s) \<and> \<not> is_whitespace (last s))"
    then show "trim s = s" using d [of s] d [of "rev s"] by (auto simp: trim_def trim_start_def trim_end_def hd_rev)
  qed
qed (simp add: trim_def trim_start_def trim_end_def)

lemma trim_infix: "\<exists>p q. s = p @ trim s @ q"
proof -
  let ?t = "dropWhile is_whitespace s"
  have "rev ?t = takeWhile is_whitespace (rev ?t) @ dropWhile is_whitespace (rev ?t)" by simp
  then have "?t = trim s @ rev (takeWhile is_whitespace (rev ?t))"
    unfolding trim_def trim_start_def trim_end_def by (metis rev_append rev_rev_ident)
  then show ?thesis using takeWhile_dropWhile_id [of is_whitespace s] by metis
qed

lemma trim_idem [simp]: "trim (trim s) = trim s"
proof -
  let ?t = "dropWhile is_whitespace s"
  have "\<not> is_whitespace (last (trim s))" if "trim s \<noteq> []"
    using that hd_dropWhile [of is_whitespace "rev ?t"] by (simp add: trim_def trim_start_def trim_end_def last_rev)
  moreover have "\<not> is_whitespace (hd (trim s))" if n: "trim s \<noteq> []"
  proof -
    obtain q where q: "?t = trim s @ q"
      using takeWhile_dropWhile_id [of is_whitespace "rev ?t"]
      unfolding trim_def trim_start_def trim_end_def by (metis rev_append rev_rev_ident)
    then have "hd (trim s) = hd ?t" "?t \<noteq> []" using n by (metis hd_append2, simp)
    then show ?thesis using hd_dropWhile [of is_whitespace s] by simp
  qed
  ultimately show ?thesis using trim_iff by blast
qed

section \<open>Brackets\<close>

fun no_close :: "rstr \<Rightarrow> bool" where
  "no_close (c # d # s) = (\<not> (c = 93 \<and> d = 93) \<and> no_close (d # s))"
| "no_close s = True"

lemma no_close_Cons: "c \<noteq> 93 \<Longrightarrow> no_close (c # s) = no_close s"
  by (cases s) auto

lemma no_close_append: "no_close (a @ b) \<Longrightarrow> no_close a \<and> no_close b"
  by (induction a rule: no_close.induct; cases b) auto

lemma no_close_sep: "c \<noteq> 93 \<Longrightarrow> no_close (a @ c # b) \<longleftrightarrow> no_close a \<and> no_close b"
  by (induction a rule: no_close.induct) (auto simp: no_close_Cons)

lemma no_close_free: "93 \<notin> set s \<Longrightarrow> no_close s"
  by (induction s rule: no_close.induct) auto

lemma no_close_trim: "no_close s \<Longrightarrow> no_close (trim s)"
  by (metis no_close_append trim_infix)

lemma find_close_no_close: "find_close s = Some (inner, rest) \<Longrightarrow> no_close inner"
proof (induction s arbitrary: inner rule: find_close.induct)
  case (1 c d s)
  show ?case
  proof (cases "c = 93 \<and> d = 93")
    case False
    then obtain i where i: "inner = c # i" "find_close (d # s) = Some (i, rest)" using "1.prems" by auto
    then have "no_close i" using "1.IH" [OF False i(2)] by simp
    moreover have "i = [] \<or> hd i = d" using find_close_SomeD [OF i(2)] by (cases i) auto
    ultimately show ?thesis using i(1) False by (cases i) auto
  qed (use "1.prems" in simp)
qed simp_all

lemma find_close_here:
  "no_close inner \<Longrightarrow> inner = [] \<or> last inner \<noteq> 93 \<Longrightarrow> find_close (inner @ 93 # 93 # rest) = Some (inner, rest)"
  by (induction inner rule: no_close.induct) auto


lemma find_close_last: "find_close s = Some (inner, rest) \<Longrightarrow> inner = [] \<or> last inner \<noteq> 93"
proof (induction s arbitrary: inner rule: find_close.induct)
  case (1 c d s)
  show ?case
  proof (cases "c = 93 \<and> d = 93")
    case False
    then obtain i where i: "inner = c # i" "find_close (d # s) = Some (i, rest)" using "1.prems" by auto
    then have "i = [] \<or> last i \<noteq> 93" using "1.IH" [OF False i(2)] by simp
    moreover have "i = [] \<longrightarrow> c \<noteq> 93" using find_close_SomeD [OF i(2)] False by auto
    ultimately show ?thesis using i(1) by auto
  qed (use "1.prems" in simp)
qed simp_all

section \<open>The rewriting as one pass\<close>

lemma points_to_iff:
  "points_to documents source target link \<longleftrightarrow>
   (\<exists>d. resolve_target_doc (wl_target link) documents = Some d \<and> ld_doc_id d = target)"
  by (auto simp: points_to_def resolve_wiki_links_def List.map_filter_def split: option.splits)

definition targets :: "linkable_document list \<Rightarrow> rstr \<Rightarrow> rstr \<Rightarrow> bool" where
  "targets documents target_doc_id t \<longleftrightarrow> (\<exists>d. resolve_target_doc t documents = Some d \<and> ld_doc_id d = target_doc_id)"

text \<open>The text with the selected links replaced, in the order of the parser.\<close>

function relink :: "(rstr \<Rightarrow> bool) \<Rightarrow> rstr \<Rightarrow> rstr \<Rightarrow> rstr" where
  "relink P new (c # d # s) =
     (if c = 91 \<and> d = 91 then
        case find_close s of
          None \<Rightarrow> c # d # s
        | Some (inner, rest) \<Rightarrow>
            (case parse_inner_link inner 0 0 of
               Some link \<Rightarrow>
                 if P (wl_target link)
                 then 91 # 91 # compose_renamed_wiki_link_inner new (wl_heading link) (wl_alias link) @ 93 # 93 # relink P new rest
                 else 91 # 91 # inner @ 93 # 93 # relink P new rest
             | None \<Rightarrow> 91 # 91 # inner @ 93 # 93 # relink P new rest)
      else c # relink P new (d # s))"
| "relink P new [] = []"
| "relink P new [c] = [c]"
  by pat_completeness auto
termination
  by (relation "measure (\<lambda>(_, _, s). length s)") (auto dest!: find_close_SomeD)

text \<open>A character that opens no link, and a link.\<close>

lemma link_skip:
  assumes "\<not> (c = 91 \<and> d = 91)"
  shows "parse_links offset (c # d # s) = parse_links (offset + len_utf8 c) (d # s)"
    "relink P new (c # d # s) = c # relink P new (d # s)"
  using assms by auto

lemma link_open:
  assumes "find_close s = Some (inner, rest)"
  shows "parse_links offset (91 # 91 # s) =
      (case parse_inner_link inner offset (offset + 2 + blen inner + 2) of
         Some link \<Rightarrow> link # parse_links (offset + 2 + blen inner + 2) rest
       | None \<Rightarrow> parse_links (offset + 2 + blen inner + 2) rest)"
    "relink P new (91 # 91 # s) = 91 # 91 #
      (case parse_inner_link inner 0 0 of
         Some link \<Rightarrow> if P (wl_target link) then compose_renamed_wiki_link_inner new (wl_heading link) (wl_alias link) else inner
       | None \<Rightarrow> inner) @ 93 # 93 # relink P new rest"
  using assms by (auto simp: Let_def split: option.splits)

lemma link_unclosed:
  assumes "find_close s = None"
  shows "parse_links offset (91 # 91 # s) = []" "relink P new (91 # 91 # s) = 91 # 91 # s"
  using assms by simp_all

lemma relink_hd: "\<exists>t. relink P new (d # s) = d # t"
  by (cases s) (auto split: option.splits)

declare parse_links.simps(1) [simp del] relink.simps(1) [simp del]

lemma parse_inner_shift:
  "parse_inner_link inner st en = map_option (\<lambda>l. l\<lparr>start_offset := st, end_offset := en\<rparr>) (parse_inner_link inner 0 0)"
  by (simp add: parse_inner_link_def Let_def split: option.splits prod.splits)

lemma brackets: "lit ''[['' = [91, 91]" "lit '']]'' = [93, 93]" "blen [91, 91] = 2" "blen [93, 93] = 2"
  by (simp_all add: lit_def len_utf8_def)

lemma replace_range_here: "replace_range (blen a) (blen (a @ b)) new (a @ b @ c) = Some (a @ new @ c)"
  using split_at_byte_append [of "a @ b" c] by (simp add: replace_range_def)

lemma apply_replacements_Cons:
  "apply_replacements ((start, fin, r) # rs) s = Option.bind (apply_replacements rs s) (replace_range start fin r)"
  by (simp add: apply_replacements_def)

lemma apply_replacements_relink:
  "apply_replacements (map (link_replacement new) (filter (\<lambda>l. P (wl_target l)) (parse_links (blen before) s))) (before @ s) =
   Some (before @ relink P new s)"
proof (induction "blen before" s arbitrary: before rule: parse_links.induct)
  case (1 c d s)
  show ?case
  proof (cases "c = 91 \<and> d = 91")
    case False
    then show ?thesis using "1.hyps"(2) [OF False, of "before @ [c]"] by (simp add: link_skip [OF False])
  next
    case op: True
    show ?thesis
    proof (cases "find_close s")
      case None
      then show ?thesis using op by (simp add: link_unclosed apply_replacements_def)
    next
      case (Some x)
      obtain inner rest where x: "x = (inner, rest)" by (cases x)
      let ?old = "[91, 91] @ inner @ [93, 93]" and ?fin = "blen before + 2 + blen inner + 2"
      have s: "s = inner @ [93, 93] @ rest" using find_close_SomeD Some x by simp
      have fin: "blen (before @ ?old) = ?fin" by (simp add: len_utf8_def)
      have later: "apply_replacements (map (link_replacement new) (filter (\<lambda>l. P (wl_target l)) (parse_links ?fin rest)))
          (before @ c # d # s) = Some (before @ ?old @ relink P new rest)"
        using "1.hyps"(1) [OF op Some x [symmetric], of "before @ ?old"] fin op s by (simp add: len_utf8_def)
      show ?thesis
      proof (cases "parse_inner_link inner 0 0")
        case None
        then show ?thesis using op Some x later parse_inner_shift [of inner "blen before" ?fin] by (simp add: link_open)
      next
        case (Some link)
        let ?new = "[91, 91] @ compose_renamed_wiki_link_inner new (wl_heading link) (wl_alias link) @ [93, 93]"
        have "replace_range (blen before) ?fin ?new (before @ ?old @ relink P new rest) = Some (before @ ?new @ relink P new rest)"
          using replace_range_here [of before ?old ?new "relink P new rest"] fin by (simp add: len_utf8_def)
        then show ?thesis
          using op \<open>find_close s = Some x\<close> x later Some parse_inner_shift [of inner "blen before" ?fin]
          by (simp add: link_open link_replacement_def apply_replacements_Cons brackets)
      qed
    qed
  qed
qed (simp_all add: apply_replacements_def)

section \<open>Links after the rewriting\<close>

definition clean_path :: "rstr \<Rightarrow> bool" where
  "clean_path new \<longleftrightarrow> new \<noteq> [] \<and> trim new = new \<and> 35 \<notin> set new \<and> 124 \<notin> set new \<and> 93 \<notin> set new"

text \<open>The heading and the alias of a link are trimmed and not empty, and the heading has no bar.\<close>

definition part_ok :: "rstr option \<Rightarrow> bool" where
  "part_ok p \<longleftrightarrow> (\<forall>x. p = Some x \<longrightarrow> x \<noteq> [] \<and> trim x = x)"

lemma part_ok_Some: "part_ok (Some x) \<longleftrightarrow> x \<noteq> [] \<and> \<not> is_whitespace (hd x) \<and> \<not> is_whitespace (last x)"
  by (auto simp: part_ok_def trim_iff)

lemma part_ok_None [simp]: "part_ok None"
  by (simp add: part_ok_def)

lemma non_empty_trim: "part_ok (non_empty (trim x))"
  by (simp add: part_ok_def non_empty_def)

lemma split_once_parts: "split_once c s = Some (a, b) \<Longrightarrow> s = a @ c # b \<and> c \<notin> set a"
  unfolding split_once_def
  by (auto split: if_splits dest: set_takeWhileD)
    (metis (mono_tags, lifting) dropWhile_eq_Nil_conv hd_Cons_tl hd_dropWhile takeWhile_dropWhile_id)

text \<open>The division of a text at a character, both parts trimmed.\<close>

lemma split_once_trimmed:
  assumes "(a, b) = (case split_once c t of Some (x, y) \<Rightarrow> (trim x, Some (trim y)) | None \<Rightarrow> (t, None))" "no_close t"
  shows "no_close a" "c \<notin> set a" "set a \<subseteq> set t" "b = Some y \<Longrightarrow> no_close y \<and> trim y = y \<and> set y \<subseteq> set t"
proof -
  consider (none) "split_once c t = None" | (some) x z where "split_once c t = Some (x, z)" by (cases "split_once c t") auto
  then have "no_close a \<and> c \<notin> set a \<and> set a \<subseteq> set t \<and> (\<forall>y. b = Some y \<longrightarrow> no_close y \<and> trim y = y \<and> set y \<subseteq> set t)"
  proof cases
    case none
    then show ?thesis using assms by (auto simp: split_once_def split: if_splits)
  next
    case (some x z)
    have t: "t = x @ c # z" "c \<notin> set x" using split_once_parts [OF some] by auto
    then have "no_close x" "no_close z" using assms(2) no_close_append [of x "c # z"] no_close_append [of "x @ [c]" z] by auto
    then show ?thesis using assms(1) some t no_close_trim set_trim [of x] set_trim [of z] by auto
  qed
  then show "no_close a" "c \<notin> set a" "set a \<subseteq> set t" "b = Some y \<Longrightarrow> no_close y \<and> trim y = y \<and> set y \<subseteq> set t" by auto
qed

lemma parse_inner_parts:
  assumes "parse_inner_link inner st en = Some l" "no_close inner"
  shows "part_ok (wl_heading l) \<and> part_ok (wl_alias l) \<and> (\<forall>h. wl_heading l = Some h \<longrightarrow> 124 \<notin> set h \<and> no_close h) \<and>
    (\<forall>a. wl_alias l = Some a \<longrightarrow> no_close a)"
proof -
  define t where "t = trim inner"
  obtain target_part alias_part where ta:
      "(target_part, alias_part) = (case split_once 124 t of Some (left, right) \<Rightarrow> (trim left, Some (trim right)) | None \<Rightarrow> (t, None))"
    by (cases "split_once 124 t") auto
  obtain target_raw heading_raw where th:
      "(target_raw, heading_raw) = (case split_once 35 target_part of Some (x, h) \<Rightarrow> (trim x, Some (trim h)) | None \<Rightarrow> (target_part, None))"
    by (cases "split_once 35 target_part") auto
  have l: "wl_heading l = Option.bind heading_raw non_empty" "wl_alias l = Option.bind alias_part non_empty"
    using assms(1) unfolding parse_inner_link_def Let_def t_def [symmetric] ta [symmetric] th [symmetric] prod.case
    by (auto simp flip: th split: if_splits)
  have t: "no_close t" using assms(2) no_close_trim by (simp add: t_def)
  note a = split_once_trimmed [OF ta t]
  note h = split_once_trimmed [OF th a(1)]
  show ?thesis unfolding l using a h by (auto simp: non_empty_def part_ok_def split: Option.bind_splits if_splits)
qed

text \<open>A composed link reads as what it was composed of.\<close>

lemma parse_composed:
  assumes new: "clean_path new" and h: "part_ok h" "\<forall>x. h = Some x \<longrightarrow> 124 \<notin> set x" and a: "part_ok a"
  shows "\<exists>raw. parse_inner_link (compose_renamed_wiki_link_inner new h a) st en =
    Some \<lparr>wl_target = new, wl_heading = h, wl_alias = a, wl_raw = raw, start_offset = st, end_offset = en\<rparr>"
proof -
  define H where "H = (case h of Some x \<Rightarrow> 35 # x | None \<Rightarrow> [])"
  define A where "A = (case a of Some x \<Rightarrow> 124 # x | None \<Rightarrow> [])"
  have n: "new \<noteq> []" "\<not> is_whitespace (hd new)" "\<not> is_whitespace (last new)" "35 \<notin> set new" "124 \<notin> set new"
    using new trim_iff by (auto simp: clean_path_def)
  have c: "compose_renamed_wiki_link_inner new h a = new @ H @ A"
    using h(1) a by (auto simp: compose_renamed_wiki_link_inner_def H_def A_def part_ok_Some split: option.splits)
  have t1: "trim (new @ H) = new @ H" using n h(1) by (auto simp: trim_iff H_def part_ok_Some split: option.splits)
  have t2: "trim (new @ H @ A) = new @ H @ A"
    using n h(1) a by (auto simp: trim_iff H_def A_def part_ok_Some split: option.splits)
  have bar: "124 \<notin> set (new @ H)" using n h(2) by (auto simp: H_def split: option.splits)
  have s1: "split_once 124 (new @ H @ A) = (case a of Some x \<Rightarrow> Some (new @ H, x) | None \<Rightarrow> None)"
    using bar split_once_fresh [OF bar] by (cases a) (simp_all add: A_def split_once_def)
  have s2: "split_once 35 (new @ H) = (case h of Some x \<Rightarrow> Some (new, x) | None \<Rightarrow> None)"
    using n(4) split_once_fresh [OF n(4)] by (cases h) (simp_all add: H_def split_once_def)
  have ne: "Option.bind p non_empty = p" "\<forall>x. p = Some x \<longrightarrow> trim x = x" if "part_ok p" for p
    using that by (cases p; simp add: part_ok_def non_empty_def)+
  show ?thesis
    unfolding c parse_inner_link_def Let_def t2 s1
    using n(1) t1 s2 new ne [OF h(1)] ne [OF a]
    by (cases a; cases h) (auto simp: clean_path_def A_def H_def non_empty_def)
qed

lemma composed_closes:
  assumes "clean_path new" "\<forall>x. h = Some x \<longrightarrow> no_close x" "\<forall>x. a = Some x \<longrightarrow> no_close x"
  shows "no_close (compose_renamed_wiki_link_inner new h a)"
  using assms by (auto simp: clean_path_def compose_renamed_wiki_link_inner_def no_close_sep no_close_free
      no_close_Cons split: option.splits)

text \<open>What a link says, apart from its place and its spelling.\<close>

definition link_view :: "wiki_link \<Rightarrow> rstr \<times> rstr option \<times> rstr option" where
  "link_view l = (wl_target l, wl_heading l, wl_alias l)"

definition renamed_view :: "(rstr \<Rightarrow> bool) \<Rightarrow> rstr \<Rightarrow> wiki_link \<Rightarrow> rstr \<times> rstr option \<times> rstr option" where
  "renamed_view P new l = (if P (wl_target l) then new else wl_target l, wl_heading l, wl_alias l)"

text \<open>A link whose replacement does not end in a bracket of its own.\<close>

definition closable :: "rstr \<Rightarrow> wiki_link \<Rightarrow> bool" where
  "closable new l \<longleftrightarrow> last (compose_renamed_wiki_link_inner new (wl_heading l) (wl_alias l)) \<noteq> 93"

lemma closable_shift [simp]: "closable new (l\<lparr>start_offset := st, end_offset := en\<rparr>) = closable new l"
  by (simp add: closable_def)

lemma views_shift [simp]:
  "link_view (l\<lparr>start_offset := st, end_offset := en\<rparr>) = link_view l"
  "renamed_view P new (l\<lparr>start_offset := st, end_offset := en\<rparr>) = renamed_view P new l"
  by (simp_all add: link_view_def renamed_view_def)

lemma relinked_views:
  assumes "clean_path new" "\<forall>l \<in> set (parse_links offset s). P (wl_target l) \<longrightarrow> closable new l"
  shows "map link_view (parse_links offset' (relink P new s)) = map (renamed_view P new) (parse_links offset s)"
  using assms(2)
proof (induction offset s arbitrary: offset' rule: parse_links.induct)
  case (1 offset c d s)
  show ?case
  proof (cases "c = 91 \<and> d = 91")
    case False
    obtain t where t: "relink P new (d # s) = d # t" using relink_hd by blast
    then show ?thesis
      using "1.IH"(2) [OF False] "1.prems" by (simp add: link_skip [OF False])
  next
    case op: True
    show ?thesis
    proof (cases "find_close s")
      case None
      then show ?thesis using op by (simp add: link_unclosed)
    next
      case (Some x)
      obtain inner rest where x: "x = (inner, rest)" by (cases x)
      note fc = Some [unfolded x]
      note inner = find_close_no_close [OF fc] find_close_last [OF fc]
      let ?fin = "offset + 2 + blen inner + 2"
      have here: "find_close (inner @ 93 # 93 # r) = Some (inner, r)" for r using find_close_here inner by blast
      have later: "map link_view (parse_links o' (relink P new rest)) = map (renamed_view P new) (parse_links ?fin rest)" for o'
        using "1.IH"(1) [OF op Some x [symmetric] refl, of o'] "1.prems" op fc
        by (auto simp: link_open split: option.splits)
      show ?thesis
      proof (cases "parse_inner_link inner 0 0")
        case None
        then have "parse_inner_link inner st en = None" for st en by (subst parse_inner_shift) simp
        then show ?thesis using op fc here later None by (simp add: link_open)
      next
        case (Some l)
        then have sh: "parse_inner_link inner st en = Some (l\<lparr>start_offset := st, end_offset := en\<rparr>)" for st en
          by (subst parse_inner_shift) simp
        show ?thesis
        proof (cases "P (wl_target l)")
          case False
          then have "link_view l = renamed_view P new l" by (simp add: link_view_def renamed_view_def)
          then show ?thesis using op fc here later Some sh False by (simp add: link_open)
        next
          case True
          let ?c = "compose_renamed_wiki_link_inner new (wl_heading l) (wl_alias l)"
          note parts = parse_inner_parts [OF Some inner(1)]
          have "closable new l"
            using "1.prems" op fc Some True sh by (simp add: link_open)
          then have cl: "find_close (?c @ 93 # 93 # r) = Some (?c, r)" for r
            using find_close_here composed_closes [OF assms(1)] parts by (simp add: closable_def)
          have v: "renamed_view P new l = (new, wl_heading l, wl_alias l)" using True by (simp add: renamed_view_def)
          have "\<exists>raw. parse_inner_link ?c st en = Some \<lparr>wl_target = new, wl_heading = wl_heading l, wl_alias = wl_alias l,
              wl_raw = raw, start_offset = st, end_offset = en\<rparr>" for st en
            using parse_composed [OF assms(1)] parts by blast
          then obtain raw where "parse_inner_link ?c st en = Some \<lparr>wl_target = new, wl_heading = wl_heading l, wl_alias = wl_alias l,
              wl_raw = raw st en, start_offset = st, end_offset = en\<rparr>" for st en by metis
          moreover have "link_view \<lparr>wl_target = new, wl_heading = wl_heading l, wl_alias = wl_alias l,
              wl_raw = raw st en, start_offset = st, end_offset = en\<rparr> = renamed_view P new l" for st en
            by (simp add: v link_view_def)
          ultimately show ?thesis using op fc cl later Some True sh by (simp add: link_open)
        qed
      qed
    qed
  qed
qed simp_all

section \<open>Properties\<close>

text \<open>The documents after the rename: one has a new path.\<close>

definition renamed_docs :: "rstr \<Rightarrow> rstr \<Rightarrow> linkable_document list \<Rightarrow> linkable_document list" where
  "renamed_docs target_doc_id new_path documents =
     map (\<lambda>d. if ld_doc_id d = target_doc_id then d\<lparr>ld_path := new_path\<rparr> else d) documents"

lemma resolve_new_path:
  assumes "normalize_pathish new \<noteq> []" "\<exists>d \<in> set documents. ld_doc_id d = target"
    and "\<forall>d \<in> set documents. ld_doc_id d \<noteq> target \<longrightarrow> normalize_pathish (ld_path d) \<noteq> normalize_pathish new"
  shows "targets (renamed_docs target new documents) target new"
proof -
  let ?p = "\<lambda>d. normalize_pathish (ld_path d) = normalize_pathish new"
  obtain d where d: "find ?p (renamed_docs target new documents) = Some d"
    using assms(2) by (cases "find ?p (renamed_docs target new documents)") (auto simp: find_None_iff renamed_docs_def)
  then have "d \<in> set (renamed_docs target new documents)" "?p d" by (auto simp: find_Some_iff)
  then have "ld_doc_id d = target" using assms(3) by (auto simp: renamed_docs_def split: if_splits)
  then show ?thesis using d assms(1) by (auto simp: targets_def resolve_target_doc_def Let_def)
qed

lemma targets_known: "targets documents target t \<Longrightarrow> \<exists>d \<in> set documents. ld_doc_id d = target"
  by (fastforce simp: targets_def resolve_target_doc_def Let_def find_Some_iff split: if_splits option.splits)

lemma rewrite_is_relink:
  "rewrite_backlinks_for_renamed_target markdown source target documents new =
   Some (relink (targets documents target) new markdown,
     length (filter (\<lambda>l. targets documents target (wl_target l)) (parse_wiki_links markdown)))"
proof -
  have "points_to documents source target = (\<lambda>l. targets documents target (wl_target l))"
    by (rule ext) (simp add: points_to_iff targets_def)
  then show ?thesis
    using apply_replacements_relink [of new "targets documents target" "[]" markdown]
    by (auto simp: rewrite_backlinks_for_renamed_target_def Let_def parse_wiki_links_def apply_replacements_def)
qed

text \<open>
  (C40) Renaming a document keeps the links to it. The rewriting of a text never panics; the text it
  returns has the same links in the same order with the same headings and aliases, those that
  pointed at the document now naming its new path and all others their old target; and each of
  them still resolves to the document, now under its new path. The new path must be one that a link can
  name (no hash, bar or closing bracket) and no other document may have it, and no replaced heading
  or alias may end in a closing bracket.
\<close>

theorem rename_keeps_links:
  assumes "clean_path new" "normalize_pathish new \<noteq> []"
    and "\<forall>d \<in> set documents. ld_doc_id d \<noteq> target \<longrightarrow> normalize_pathish (ld_path d) \<noteq> normalize_pathish new"
    and "\<forall>l \<in> set (parse_wiki_links markdown). points_to documents source target l \<longrightarrow> closable new l"
  shows "\<exists>updated. rewrite_backlinks_for_renamed_target markdown source target documents new =
      Some (updated, length (filter (points_to documents source target) (parse_wiki_links markdown))) \<and>
    list_all2 (\<lambda>l l'. wl_heading l' = wl_heading l \<and> wl_alias l' = wl_alias l \<and>
        (if points_to documents source target l
         then wl_target l' = new \<and> points_to (renamed_docs target new documents) source target l'
         else wl_target l' = wl_target l))
      (parse_wiki_links markdown) (parse_wiki_links updated)"
proof -
  let ?P = "targets documents target" and ?u = "relink (targets documents target) new markdown"
  have pt: "points_to ds source target l \<longleftrightarrow> targets ds target (wl_target l)" for ds l
    by (simp add: points_to_iff targets_def)
  have v: "map link_view (parse_wiki_links ?u) = map (renamed_view ?P new) (parse_wiki_links markdown)"
    using relinked_views [OF assms(1), of 0 markdown ?P 0] assms(4) unfolding parse_wiki_links_def pt by blast
  have "list_all2 (=) (map (renamed_view ?P new) (parse_wiki_links markdown)) (map link_view (parse_wiki_links ?u))"
    by (simp only: v list.rel_eq)
  then have views: "list_all2 (\<lambda>l l'. renamed_view ?P new l = link_view l') (parse_wiki_links markdown) (parse_wiki_links ?u)"
    by (simp only: list_all2_map1 list_all2_map2)
  have tg: "targets (renamed_docs target new documents) target new" if "?P t" for t
    using resolve_new_path [OF assms(2) targets_known [OF that] assms(3)] .
  have "list_all2 (\<lambda>l l'. wl_heading l' = wl_heading l \<and> wl_alias l' = wl_alias l \<and>
        (if ?P (wl_target l) then wl_target l' = new \<and> targets (renamed_docs target new documents) target (wl_target l')
         else wl_target l' = wl_target l)) (parse_wiki_links markdown) (parse_wiki_links ?u)"
    by (rule list_all2_mono [OF views]) (use tg in \<open>auto simp: link_view_def renamed_view_def split: if_splits\<close>)
  then show ?thesis unfolding pt using rewrite_is_relink by blast
qed

definition demo_docs :: "linkable_document list" where
  "demo_docs = [\<lparr>ld_doc_id = lit ''1'', ld_path = lit ''a.md'', ld_title = None\<rparr>,
     \<lparr>ld_doc_id = lit ''2'', ld_path = lit ''b.md'', ld_title = None\<rparr>]"

definition demo_links :: rstr where
  "demo_links = lit ''see [[a#top|A]] and [[b]]''"

lemma demo_links_parsed:
  "map link_view (parse_wiki_links demo_links) =
   [(lit ''a'', Some (lit ''top''), Some (lit ''A'')), (lit ''b'', None, None)]"
  by (simp add: demo_links_def lit_def parse_wiki_links_def parse_links.simps parse_inner_link_def link_view_def Let_def
      split_once_def trim_def trim_start_def trim_end_def is_whitespace_def non_empty_def)

theorem rename_keeps_links_witness:
  "\<exists>updated. rewrite_backlinks_for_renamed_target demo_links (lit ''3'') (lit ''1'') demo_docs (lit ''c.md'') =
      Some (updated, length (filter (points_to demo_docs (lit ''3'') (lit ''1'')) (parse_wiki_links demo_links))) \<and>
    length (parse_wiki_links updated) = 2"
proof -
  have c: "clean_path (lit ''c.md'')" "normalize_pathish (lit ''c.md'') \<noteq> []" by code_simp+
  have d: "\<forall>d \<in> set demo_docs. ld_doc_id d \<noteq> lit ''1'' \<longrightarrow> normalize_pathish (ld_path d) \<noteq> normalize_pathish (lit ''c.md'')"
    by (simp add: demo_docs_def lit_def normalize_pathish_def trim_slashes_def trim_def trim_start_def trim_end_def is_whitespace_def)
  have "closable (lit ''c.md'') l" if "l \<in> set (parse_wiki_links demo_links)" for l
  proof -
    have "link_view l \<in> set [(lit ''a'', Some (lit ''top''), Some (lit ''A'')), (lit ''b'', None, None)]"
      using that unfolding demo_links_parsed [symmetric] by simp
    then show ?thesis by (auto simp: link_view_def closable_def compose_renamed_wiki_link_inner_def lit_def)
  qed
  moreover have "length (parse_wiki_links demo_links) = 2"
    using arg_cong [OF demo_links_parsed, of length] by simp
  ultimately show ?thesis
    using rename_keeps_links [OF c d, of demo_links "lit ''3''"] by (auto dest: list_all2_lengthD)
qed

text \<open>
  The hypotheses are needed: a heading that ends in a bracket loses it, and the text gains one; and
  a new path with a hash gives a link to another document.
\<close>

lemma demo_target: "targets demo_docs (lit ''1'') (lit ''a'')"
proof -
  have "resolve_target_doc (lit ''a'') demo_docs = Some (hd demo_docs)"
    by (simp add: demo_docs_def lit_def resolve_target_doc_def filename_key_def strip_suffix_def strip_prefix_def to_ascii_lowercase_def
        is_ascii_upper_def Let_def normalize_pathish_def trim_slashes_def trim_def trim_start_def trim_end_def is_whitespace_def)
  then show ?thesis by (simp add: targets_def demo_docs_def)
qed

lemma rename_breaks_bracketed_heading:
  "map link_view (parse_wiki_links (lit ''[[a#h] ]]'')) = [(lit ''a'', Some (lit ''h]''), None)]"
  "rewrite_backlinks_for_renamed_target (lit ''[[a#h] ]]'') (lit ''3'') (lit ''1'') demo_docs (lit ''c'') = Some (lit ''[[c#h]]]'', 1)"
  "map link_view (parse_wiki_links (lit ''[[c#h]]]'')) = [(lit ''c'', Some (lit ''h''), None)]"
proof -
  show "map link_view (parse_wiki_links (lit ''[[a#h] ]]'')) = [(lit ''a'', Some (lit ''h]''), None)]"
    "map link_view (parse_wiki_links (lit ''[[c#h]]]'')) = [(lit ''c'', Some (lit ''h''), None)]"
    by (simp_all add: lit_def parse_wiki_links_def parse_links.simps parse_inner_link_def link_view_def Let_def
        split_once_def trim_def trim_start_def trim_end_def is_whitespace_def non_empty_def)
  show "rewrite_backlinks_for_renamed_target (lit ''[[a#h] ]]'') (lit ''3'') (lit ''1'') demo_docs (lit ''c'') = Some (lit ''[[c#h]]]'', 1)"
    unfolding rewrite_is_relink using demo_target
    by (simp add: lit_def parse_wiki_links_def parse_links.simps relink.simps parse_inner_link_def Let_def
        split_once_def trim_def trim_start_def trim_end_def is_whitespace_def non_empty_def compose_renamed_wiki_link_inner_def)
qed

lemma rename_breaks_hashed_path:
  "rewrite_backlinks_for_renamed_target (lit ''[[a]]'') (lit ''3'') (lit ''1'') demo_docs (lit ''c#.md'') = Some (lit ''[[c#.md]]'', 1)"
  "map link_view (parse_wiki_links (lit ''[[c#.md]]'')) = [(lit ''c'', Some (lit ''.md''), None)]"
  "resolve_target_doc (lit ''c'') (renamed_docs (lit ''1'') (lit ''c#.md'') demo_docs) = None"
proof -
  show "rewrite_backlinks_for_renamed_target (lit ''[[a]]'') (lit ''3'') (lit ''1'') demo_docs (lit ''c#.md'') = Some (lit ''[[c#.md]]'', 1)"
    unfolding rewrite_is_relink using demo_target
    by (simp add: lit_def parse_wiki_links_def parse_links.simps relink.simps parse_inner_link_def Let_def
        split_once_def trim_def trim_start_def trim_end_def is_whitespace_def non_empty_def compose_renamed_wiki_link_inner_def)
  show "map link_view (parse_wiki_links (lit ''[[c#.md]]'')) = [(lit ''c'', Some (lit ''.md''), None)]"
    by (simp add: lit_def parse_wiki_links_def parse_links.simps parse_inner_link_def link_view_def Let_def
        split_once_def trim_def trim_start_def trim_end_def is_whitespace_def non_empty_def)
  show "resolve_target_doc (lit ''c'') (renamed_docs (lit ''1'') (lit ''c#.md'') demo_docs) = None"
    by (simp add: demo_docs_def renamed_docs_def lit_def resolve_target_doc_def filename_key_def strip_suffix_def strip_prefix_def to_ascii_lowercase_def
        is_ascii_upper_def Let_def normalize_pathish_def trim_slashes_def trim_def trim_start_def trim_end_def is_whitespace_def)
qed

text \<open>
  Refreshing a document replaces exactly its own edges: the document is listed as a source of a target
  under a text precisely when one of its links has that text and resolves to that target, and the edges of
  other documents stay; the listing is ordered and has no edge twice.
\<close>

lemma set_insert_all: "set (fold insert_or_ignore bs tbl) = set bs \<union> set tbl"
  by (induction bs arbitrary: tbl) (auto simp: insert_or_ignore_def)

lemma distinct_insert_all: "distinct tbl \<Longrightarrow> distinct (fold insert_or_ignore bs tbl)"
  by (induction bs arbitrary: tbl) (auto simp: insert_or_ignore_def)

theorem backlinks_replaced:
  "b \<in> set (incoming_for_target t (replace_for_source s bs tbl)) \<longleftrightarrow>
     rb_target b = t \<and> (b \<in> set bs \<or> b \<in> set tbl \<and> rb_source b \<noteq> s)"
  by (auto simp: incoming_for_target_def replace_for_source_def set_insert_all)

theorem incoming_distinct: "distinct tbl \<Longrightarrow> distinct (incoming_for_target t (replace_for_source s bs tbl))"
  by (simp add: incoming_for_target_def replace_for_source_def distinct_insert_all)

end
