(* ===== verification/Spec2Isabelle.thy ===== *)
theory Spec2Isabelle
  imports Patch Origin Sections Recovery Outbox Lease WsSession RelayDocs Overlap Leader Pipeline Sanitizer Idempotency PathNorm GitSync AuthRace AuthFlows ApiAccess WorkspaceOwners DocumentTags DocumentPages RelayClient MarkdownPatch SectionTree Backlinks
begin

text \<open>
  \<^bold>\<open>Scriptum.\<close> A model of the Rust workspace under \<open>src/crates\<close> and theorems about it. Scriptum is a
  collaborative Markdown editor that keeps its documents in local files: a \<^emph>\<open>daemon\<close> on each machine
  holds the documents as CRDTs, watches the files, persists, commits to git and serves agents; a
  \<^emph>\<open>relay\<close> orders and distributes the updates of all daemons and serves accounts, workspaces and
  comments over HTTP; \<open>common\<close> is the library both use.

  \<^bold>\<open>How the parts interact.\<close> A change of a file reaches the daemon through the watcher
  (\<open>Debounce\<close>, \<open>Pipeline\<close>), is diffed against the document (\<open>Myers\<close>, \<open>Patch\<close>) and becomes a CRDT
  update, which is logged (\<open>Wal\<close>, \<open>SnapshotStore\<close>, \<open>Security\<close>), kept in memory (\<open>DocManager\<close>), queued
  for the relay (\<open>Outbox\<close>) and, after a restart, recovered (\<open>Recovery\<close>). On the relay a session
  (\<open>WsSession\<close>) hands it to the document store (\<open>DocSync\<close>), which numbers it (\<open>Sequencer\<close>) and sends it to
  the subscribers; \<open>RelayStore\<close> and \<open>RelayDocs\<close> persist, compact and load documents. Sections of a
  document (\<open>Sections\<close>, \<open>SectionTracker\<close>, \<open>Overlap\<close>) carry the leases of agents (\<open>Lease\<close>). One daemon per
  workspace leads its git repository (\<open>Leader\<close>) and commits (\<open>GitTriggers\<close>, \<open>GitCommit\<close>, \<open>GitSync\<close>).
  Callers of the HTTP API log in (\<open>Auth\<close>), pass the middleware (\<open>ApiAccess\<close>, \<open>Idempotency\<close>,
  \<open>Sanitizer\<close>, \<open>RelayError\<close>) and use workspaces (\<open>Workspaces\<close>, \<open>ShareLinks\<close>) and comments (\<open>Comments\<close>).

  \<^bold>\<open>Conventions.\<close> A struct is a record, an enum a datatype, a fallible operation returns a sum with
  the error on the left, and a panic is \<open>None\<close>. A handler is a function from its arguments and the
  state to its answer and the new state; what the program draws from outside (clock readings,
  random bytes, fresh identifiers) is an argument. A table is a list of rows with the keys and
  checks of its migration; a hash map is an association list or a function. Where a handler gives
  up its lock or runs several statements, and a property is about interleaving, the pieces between
  are separate definitions. Texts are lists of Unicode scalars, bytes 8-bit words, and fixed-width
  integers are \<open>int\<close> or \<open>nat\<close> with the wrap-around, saturation or failure written out where the
  code can reach it.

  \<^bold>\<open>Parameters.\<close> Code of other crates and services is a parameter: a record of functions
  (\<open>aead\<close>, \<open>ydoc_ops\<close>, \<open>auth_env\<close>, \<open>api_env\<close>, \<open>workspace_env\<close>, \<open>http_env\<close>, \<open>git_env\<close>, and the
  environments of \<open>Pipeline\<close> and \<open>Leader\<close>), with what the code relies on as a named predicate
  (\<open>aead_laws\<close>, \<open>ydoc_laws\<close>, \<open>text_clock_laws\<close>, \<open>api_env_laws\<close>, \<open>jwt_faithful\<close> and others): decryption
  undoes encryption, an encoded CRDT state decodes, the text of a date or a UUID reads back, a
  token decodes to what was signed. Each theorem with such a hypothesis is applied to a concrete
  environment in the witness beside it.

  \<^bold>\<open>Library.\<close> \<open>Prelude\<close>: scalar types, bounded arithmetic and the interface locales \<open>codec_pair\<close>,
  \<open>inv_system\<close>, \<open>init_system\<close> and \<open>grow_system\<close>, which the runs of every component interpret;
  \<open>RustText\<close>, \<open>Bytes\<close>, \<open>Decimal\<close> and \<open>SqlText\<close>: \<open>str\<close>, UTF-8, integers and dates as texts; \<open>Paging\<close>: the
  locale \<open>keyset_paging\<close>; \<open>Roles\<close> and \<open>ApiBase\<close>: roles, callers and the audit log. Other interfaces are
  stated where they are used: \<open>differ\<close>, \<open>char_differ\<close> and \<open>line_differ\<close> (\<open>Myers\<close>, \<open>Patch\<close>), \<open>keychain\<close>
  (\<open>Security\<close>), \<open>hash_store\<close> (\<open>Pipeline\<close>) and \<open>lease_service\<close> (\<open>Leader\<close>).

  \<^bold>\<open>Components\<close>, each with its sources under \<open>src/crates\<close> and what is proved:
  \<^item> \<open>Myers\<close>, \<open>Patch\<close> (\<open>common/src/diff/patch.rs\<close>): the diff is correct and shortest, and applying a
    text diff in a document yields the new text.
  \<^item> \<open>Origin\<close>, \<open>Sections\<close>, \<open>PathNorm\<close> (\<open>common/src/crdt/origin.rs\<close>, \<open>section\<close>, \<open>path\<close>, \<open>backlink\<close>): the
    tag codec round trips; sections have distinct ids and the parents of their levels; normal paths
    have no way out of the workspace and are fixed points.
  \<^item> \<open>Security\<close>, \<open>Wal\<close>, \<open>SnapshotStore\<close>, \<open>Recovery\<close>, \<open>DocManager\<close> (\<open>daemon/src/security.rs\<close>, \<open>store\<close>,
    \<open>engine/doc_manager.rs\<close>): a torn append loses nothing that was completed, a crash in a save leaves
    the old or the new snapshot, recovery is lossless, the memory account is exact and eviction is
    least recently used.
  \<^item> \<open>Outbox\<close>, \<open>Lease\<close>, \<open>SectionTracker\<close>, \<open>Overlap\<close> (\<open>daemon/src/outbox\<close>, \<open>agent/lease.rs\<close>, \<open>section\<close>): the
    queue's states and retries, leases that survive a restart, tracking of sections as a multiset
    difference, exact overlaps.
  \<^item> \<open>Debounce\<close>, \<open>Pipeline\<close> (\<open>daemon/src/watcher\<close>): a settled file reaches the document, a remote write
    is not echoed.
  \<^item> \<open>GitTriggers\<close>, \<open>GitCommit\<close>, \<open>GitSync\<close>, \<open>Leader\<close> (\<open>daemon/src/git\<close>, part of \<open>rpc/methods.rs\<close>,
    \<open>relay/src/leader\<close>): a change leads to a commit, leases exclude each other, leadership is taken over.
  \<^item> \<open>DocSync\<close>, \<open>WsSession\<close>, \<open>Sequencer\<close>, \<open>RelayStore\<close>, \<open>RelayDocs\<close> (\<open>common/src/protocol/ws.rs\<close>,
    \<open>relay/src/ws\<close>, \<open>sync\<close>, \<open>awareness\<close>, \<open>protocol.rs\<close>): the store is a de-duplicating log, an applied update
    is broadcast once, resume tokens are used once, compaction keeps documents, and the relay serves
    the history that was committed.
  \<^item> \<open>RelayError\<close>, \<open>Idempotency\<close>, \<open>Sanitizer\<close> (\<open>relay/src/error.rs\<close>, \<open>idempotency.rs\<close>, \<open>validation.rs\<close>): a
    stored response is replayed; sanitized HTML has allowed tags, attributes and schemes only, and
    the sanitizer returns.
  \<^item> \<open>RateLimiter\<close>, \<open>Auth\<close>, \<open>AuthRuns\<close>, \<open>AuthRace\<close>, \<open>AuthFlows\<close> (\<open>relay/src/auth/oauth.rs\<close>, \<open>jwt.rs\<close>): windows
    are exact, a reused refresh token locks its family, concurrent refreshes fork it, callbacks are
    authentic, logins implement a table of passwords.
  \<^item> \<open>Comments\<close>, \<open>CommentRuns\<close>, \<open>CommentPages\<close>, \<open>ApiAccess\<close> (\<open>relay/src/api/comments.rs\<close>, \<open>audit\<close>,
    \<open>auth/middleware.rs\<close>): tables stay well formed, versions are spent once, only editors write,
    pages are complete, and the tokens the login issues open no workspace.
  \<^item> \<open>Workspaces\<close>, \<open>ShareLinks\<close>, \<open>WorkspaceRuns\<close>, \<open>WorkspaceOwners\<close>, \<open>Redeem\<close> (\<open>relay/src/api/mod.rs\<close>,
    \<open>workspaces.rs\<close>, \<open>members.rs\<close>): who becomes an owner, that workspaces keep one and how they lose it,
    and the uses of share links one after the other and interleaved.

  \<^bold>\<open>Termination and fuel.\<close> Loops are structural or have a measure (the diff's diagonals, the
  sanitizer's input, the log's remaining bytes). Fuel occurs in two places: \<open>walk\<close> and \<open>read_all\<close>, where
  one page more than there are matching rows is proved to be enough. The sanitizer's scan is a
  \<open>partial_function\<close> with a theorem that it returns on every input.

  \<^bold>\<open>Not modelled.\<close> The CRDT (\<open>yrs\<close>) is a parameter. Sockets, HTTP routing, tracing, metrics, the
  process entry points and configuration are input and output; the command line, the desktop shell
  and the TypeScript packages are clients. Of the HTTP API, documents and search are not modelled
  yet; of the daemon, the JSON-RPC methods outside the git part, agent sessions, full-text search,
  backlinks, history, discovery and the connection to the relay. The in-memory stores of the API are
  doubles for its unit tests. Failures of database connections are left out, failures of constraints
  are not.
\<close>

end
